(* ===== verification/Prelude.thy ===== *)
theory Prelude
  imports Main "HOL-Library.AList" "HOL-Library.Word" "HOL-Library.Char_ord"
begin

unbundle bit_operations_syntax

text \<open>
  Shared vocabulary of the development: the pieces of Python that every module of
  \<^verbatim>\<open>src/src/aec_compiler\<close> uses (string methods, dictionaries, list indexing, integers with
  bit operations) as executable HOL functions, the collections of simplification rules, and the
  generic lemmas the component theories share.

  Python strings are \<open>string\<close> (lists of characters); PTX text is ASCII, and the character
  classes below are the ASCII parts of Python's. Python dictionaries are association lists in
  insertion order with distinct keys: \<open>d[k] = v\<close> is \<open>AList.update k v d\<close>, which replaces in
  place or appends, as Python does; \<open>d.get(k)\<close> is \<open>map_of d k\<close>; \<open>d.pop(k, None)\<close> is
  \<open>AList.delete k d\<close>. Python integers are \<open>int\<close>, with \<open>AND\<close>, \<open>OR\<close>, \<open>push_bit\<close> and
  \<open>drop_bit\<close> for the operators \<open>&\<close>, \<open>|\<close>, \<open><<\<close> and \<open>>>\<close>.
\<close>

named_theorems py_defs \<open>definitions of the Python helpers\<close>
named_theorems bit_fields \<open>extraction of packed bit fields\<close>
named_theorems ok_splits \<open>inversion of successful results\<close>

type_synonym 'v dict = "(string \<times> 'v) list"

subsection \<open>Results: \<open>Inl\<close> is the raised exception\<close>

definition bind_r :: "'e + 'a \<Rightarrow> ('a \<Rightarrow> 'e + 'b) \<Rightarrow> 'e + 'b" where
  "bind_r r f = (case r of Inl e \<Rightarrow> Inl e | Inr a \<Rightarrow> f a)"

lemma bind_r_simps [simp]:
  "bind_r (Inl e) f = Inl e"
  "bind_r (Inr a) f = f a"
  by (simp_all add: bind_r_def)

lemma bind_r_Inr [simp]:
  "bind_r r f = Inr b \<longleftrightarrow> (\<exists>a. r = Inr a \<and> f a = Inr b)"
  by (cases r) simp_all

lemma bind_r_ex: "(\<exists>b. bind_r r f = Inr b) \<longleftrightarrow> (\<exists>a. r = Inr a \<and> (\<exists>b. f a = Inr b))"
  by auto

lemma case_InrD: "(case r of Inl _ \<Rightarrow> False | Inr x \<Rightarrow> P x) \<Longrightarrow> \<exists>x. r = Inr x \<and> P x"
  by (cases r) simp_all

fun map_r :: "('a \<Rightarrow> 'e + 'b) \<Rightarrow> 'a list \<Rightarrow> 'e + 'b list" where
  "map_r f [] = Inr []"
| "map_r f (x # xs) = bind_r (f x) (\<lambda>y. bind_r (map_r f xs) (\<lambda>ys. Inr (y # ys)))"

fun fold_r :: "('a \<Rightarrow> 's \<Rightarrow> 'e + 's) \<Rightarrow> 'a list \<Rightarrow> 's \<Rightarrow> 'e + 's" where
  "fold_r f [] s = Inr s"
| "fold_r f (x # xs) s = bind_r (f x s) (fold_r f xs)"

lemma fold_r_append:
  "fold_r f (xs @ ys) s = bind_r (fold_r f xs s) (fold_r f ys)"
  by (induction xs arbitrary: s) (auto simp: bind_r_def split: sum.splits)

lemma map_r_length: "map_r f xs = Inr ys \<Longrightarrow> length ys = length xs"
  by (induction xs arbitrary: ys) auto

lemma map_r_nth:
  "map_r f xs = Inr ys \<Longrightarrow> i < length xs \<Longrightarrow> f (xs ! i) = Inr (ys ! i)"
  by (induction xs arbitrary: ys i) (auto simp: nth_Cons split: nat.splits)

lemma fold_r_invariant:
  assumes "\<And>x s. x \<in> set xs \<Longrightarrow> P s \<Longrightarrow> (case f x s of Inl e \<Rightarrow> Q e | Inr s' \<Rightarrow> P s')" and "P s"
  shows "case fold_r f xs s of Inl e \<Rightarrow> Q e | Inr s' \<Rightarrow> P s'"
  using assms
proof (induction xs arbitrary: s)
  case (Cons x xs)
  have "case f x s of Inl e \<Rightarrow> Q e | Inr s' \<Rightarrow> P s'"
    by (rule Cons.prems(1)) (simp_all add: Cons.prems(2))
  with Cons show ?case by (cases "f x s") auto
qed simp

lemma fold_r_keeps:
  assumes "fold_r f xs s = Inr t" "P s" "\<And>x s s'. f x s = Inr s' \<Longrightarrow> P s \<Longrightarrow> P s'"
  shows "P t"
  using fold_r_invariant [where xs = xs and P = P and f = f and s = s and Q = "\<lambda>_. True"] assms by (auto split: sum.splits)

lemma fold_r_bound:
  fixes m :: "'s \<Rightarrow> int"
  assumes "\<And>x s s'. x \<in> set xs \<Longrightarrow> P s \<Longrightarrow> f x s = Inr s' \<Longrightarrow> P s' \<and> m s' \<le> m s + k"
    and "P s" and "fold_r f xs s = Inr s'"
  shows "P s' \<and> m s' \<le> m s + int (length xs) * k"
  using assms
proof (induction xs arbitrary: s)
  case (Cons x xs)
  then obtain t where t: "f x s = Inr t" "fold_r f xs t = Inr s'" by auto
  have 1: "P t \<and> m t \<le> m s + k" using Cons.prems(1) [of x s t] Cons.prems(2) t(1) by simp
  moreover have "P s' \<and> m s' \<le> m t + int (length xs) * k"
    using Cons.prems(1) 1 t(2) by (intro Cons.IH) auto
  ultimately show ?case by (simp add: algebra_simps)
qed simp

lemma fold_r_sim:
  assumes "\<And>x s t s'. x \<in> set xs \<Longrightarrow> R s t \<Longrightarrow> f x s = Inr s' \<Longrightarrow> \<exists>t'. g x t = Inr t' \<and> R s' t'"
    and "R s t" "fold_r f xs s = Inr s'"
  shows "\<exists>t'. fold_r g xs t = Inr t' \<and> R s' t'"
  using assms
proof (induction xs arbitrary: s t)
  case (Cons x xs)
  then obtain s1 where s1: "f x s = Inr s1" "fold_r f xs s1 = Inr s'" by auto
  obtain t1 where "g x t = Inr t1" "R s1 t1" using Cons.prems(1) [OF _ Cons.prems(2) s1(1)] by auto
  with Cons.IH [OF _ _ s1(2), of t1] Cons.prems(1) show ?case by auto
qed auto

subsection \<open>Characters and string methods\<close>

definition is_digit :: "char \<Rightarrow> bool" where
  "is_digit c \<longleftrightarrow> (let n = of_char c :: nat in 48 \<le> n \<and> n \<le> 57)"

definition is_alpha :: "char \<Rightarrow> bool" where
  "is_alpha c \<longleftrightarrow> (let n = of_char c :: nat in (65 \<le> n \<and> n \<le> 90) \<or> (97 \<le> n \<and> n \<le> 122))"

definition is_word :: "char \<Rightarrow> bool" where
  "is_word c \<longleftrightarrow> is_alpha c \<or> is_digit c \<or> c = CHR ''_''"

definition is_space :: "char \<Rightarrow> bool" where
  "is_space c \<longleftrightarrow> (let n = of_char c :: nat in (9 \<le> n \<and> n \<le> 13) \<or> (28 \<le> n \<and> n \<le> 32))"

definition upper_char :: "char \<Rightarrow> char" where
  "upper_char c = (let n = of_char c :: nat in if 97 \<le> n \<and> n \<le> 122 then char_of (n - 32) else c)"

definition py_upper :: "string \<Rightarrow> string" where
  "py_upper s = map upper_char s"

definition py_lstrip :: "string \<Rightarrow> string" where
  "py_lstrip s = dropWhile is_space s"

definition py_rstrip :: "string \<Rightarrow> string" where
  "py_rstrip s = rev (dropWhile is_space (rev s))"

definition py_strip :: "string \<Rightarrow> string" where
  "py_strip s = py_rstrip (py_lstrip s)"

fun starts_with :: "string \<Rightarrow> string \<Rightarrow> bool" where
  "starts_with s [] = True"
| "starts_with [] (p # ps) = False"
| "starts_with (c # cs) (p # ps) = (c = p \<and> starts_with cs ps)"

definition ends_with :: "string \<Rightarrow> string \<Rightarrow> bool" where
  "ends_with s p = starts_with (rev s) (rev p)"

text \<open>\<open>s.split(c)\<close> for a one-character separator: never empty.\<close>

fun split_on :: "char \<Rightarrow> string \<Rightarrow> string list" where
  "split_on sep [] = [[]]"
| "split_on sep (c # cs) =
     (if c = sep then [] # split_on sep cs
      else (case split_on sep cs of [] \<Rightarrow> [[c]] | w # ws \<Rightarrow> (c # w) # ws))"

text \<open>\<open>s.split(c, 1)[0]\<close>: the text before the first separator.\<close>

definition before_first :: "char \<Rightarrow> string \<Rightarrow> string" where
  "before_first sep s = takeWhile (\<lambda>c. c \<noteq> sep) s"

text \<open>\<open>sub in s\<close> for strings.\<close>

fun contains :: "string \<Rightarrow> string \<Rightarrow> bool" where
  "contains [] p = (p = [])"
| "contains (c # cs) p = (starts_with (c # cs) p \<or> contains cs p)"

definition all_digits :: "string \<Rightarrow> bool" where
  "all_digits s \<longleftrightarrow> s \<noteq> [] \<and> list_all is_digit s"

lemma split_on_nonempty [simp]: "split_on c s \<noteq> []"
  by (induction s) (auto split: list.splits)

lemma hd_split_on: "hd (split_on c s) = before_first c s"
  by (induction s) (auto simp: before_first_def split: list.splits)

lemma split_on_no_sep: "w \<in> set (split_on c s) \<Longrightarrow> c \<notin> set w"
  by (induction s arbitrary: w) (auto split: list.splits if_splits)

lemma starts_with_iff: "starts_with s p \<longleftrightarrow> (\<exists>t. s = p @ t)"
  by (induction s p rule: starts_with.induct) auto

lemma starts_with_self [simp]: "starts_with s s"
  by (simp add: starts_with_iff)

lemma strip_idem_aux: "dropWhile P (dropWhile P xs) = dropWhile P xs"
  by (induction xs) auto

subsection \<open>Python list indexing\<close>

text \<open>\<open>xs[i]\<close> with Python's negative indices; \<open>None\<close> is \<open>IndexError\<close>.\<close>

definition py_index :: "'a list \<Rightarrow> int \<Rightarrow> nat option" where
  "py_index xs i =
     (let n = int (length xs); j = (if i < 0 then n + i else i)
      in if 0 \<le> j \<and> j < n then Some (nat j) else None)"

definition py_get :: "'a list \<Rightarrow> int \<Rightarrow> 'a option" where
  "py_get xs i = map_option (\<lambda>j. xs ! j) (py_index xs i)"

definition py_set :: "'a list \<Rightarrow> int \<Rightarrow> 'a \<Rightarrow> 'a list option" where
  "py_set xs i v = map_option (\<lambda>j. xs[j := v]) (py_index xs i)"

lemma py_index_bound: "py_index xs i = Some j \<Longrightarrow> j < length xs"
  by (auto simp: py_index_def Let_def nat_less_iff split: if_splits)

lemma py_index_nonneg:
  "0 \<le> i \<Longrightarrow> i < int (length xs) \<Longrightarrow> py_index xs i = Some (nat i)"
  by (simp add: py_index_def)

lemma py_index_length: "length xs = length ys \<Longrightarrow> py_index xs i = py_index ys i"
  by (simp add: py_index_def)

lemma py_set_length: "py_set xs i v = Some ys \<Longrightarrow> length ys = length xs"
  by (auto simp: py_set_def)

subsection \<open>Dictionaries\<close>

text \<open>A reversed dictionary \<open>{v: k for k, v in d.items()}\<close>: later entries win.\<close>

definition rev_dict :: "(string \<times> int) list \<Rightarrow> int \<Rightarrow> string option" where
  "rev_dict d = map_of (rev (map (\<lambda>(k, v). (v, k)) d))"

lemma rev_dict_inverse:
  assumes "distinct (map snd d)" "map_of d k = Some v"
  shows "rev_dict d v = Some k"
proof -
  have "distinct (map fst (rev (map (\<lambda>(k, v). (v, k)) d)))"
    using assms(1) by (simp add: rev_map [symmetric] comp_def case_prod_beta)
  moreover have "(v, k) \<in> set (rev (map (\<lambda>(k, v). (v, k)) d))"
    using map_of_SomeD [OF assms(2)] by force
  ultimately show ?thesis unfolding rev_dict_def by (rule map_of_is_SomeI)
qed

lemma rev_dict_Some: "rev_dict d v = Some k \<Longrightarrow> (k, v) \<in> set d"
  unfolding rev_dict_def by (drule map_of_SomeD) auto

lemma map_of_snd_mem: "map_of d k = Some v \<Longrightarrow> v \<in> snd ` set d"
  by (metis image_eqI map_of_SomeD snd_conv)

lemma in_dict_iff: "k \<in> fst ` set d \<longleftrightarrow> (\<exists>v. map_of d k = Some v)"
  by (metis map_of_eq_None_iff not_None_eq)

subsection \<open>Bit fields of integers\<close>

abbreviation (input) MASK32 :: int where
  "MASK32 \<equiv> 0xFFFFFFFF"

lemma and_masks [bit_fields]:
  "(x::int) AND 7 = take_bit 3 x"
  "(x::int) AND 0xF = take_bit 4 x"
  "(x::int) AND 0xFFFF = take_bit 16 x"
  "(x::int) AND 0xFFFFFFFF = take_bit 32 x"
  by (simp_all add: take_bit_eq_mask mask_numeral numeral_eq_Suc mask_Suc_double)

lemma and_mask32: "(x::int) AND 0xFFFFFFFF = x mod 2 ^ 32"
  by (simp add: and_masks take_bit_eq_mod)

lemma and_mask32_range: "0 \<le> (x::int) AND 0xFFFFFFFF \<and> (x::int) AND 0xFFFFFFFF < 2 ^ 32"
  by (simp add: and_mask32)

lemma take_bit_id: "0 \<le> (x::int) \<Longrightarrow> x < 2 ^ n \<Longrightarrow> take_bit n x = x"
  by (simp add: take_bit_int_eq_self)

subsection \<open>Bytes\<close>

type_synonym byte = "8 word"

text \<open>\<open>v.to_bytes(n, "little")\<close> and \<open>int.from_bytes(b, "little")\<close>.\<close>

primrec to_bytes_le :: "nat \<Rightarrow> int \<Rightarrow> byte list" where
  "to_bytes_le 0 v = []"
| "to_bytes_le (Suc n) v = word_of_int v # to_bytes_le n (v div 256)"

primrec from_bytes_le :: "byte list \<Rightarrow> int" where
  "from_bytes_le [] = 0"
| "from_bytes_le (b # bs) = uint b + 256 * from_bytes_le bs"

lemma length_to_bytes_le [simp]: "length (to_bytes_le n v) = n"
  by (induction n arbitrary: v) auto

lemma from_to_bytes_le: "from_bytes_le (to_bytes_le n v) = v mod 256 ^ n"
proof (induction n arbitrary: v)
  case (Suc n)
  have "v mod 256 + 256 * (v div 256 mod 256 ^ n) = v mod (256 * 256 ^ n)"
    by (simp add: zmod_zmult2_eq)
  then show ?case using Suc by (simp add: uint_word_of_int)
qed simp

lemma from_bytes_le_nonneg: "0 \<le> from_bytes_le bs"
  by (induction bs) auto

lemma from_bytes_le_bound: "from_bytes_le bs < 256 ^ length bs"
proof (induction bs)
  case (Cons b bs)
  have "uint b < 256" using uint_lt2p [of b] by simp
  then have "uint b + 256 * from_bytes_le bs < 256 * (from_bytes_le bs + 1)" by simp
  also have "\<dots> \<le> 256 * 256 ^ length bs"
    using Cons by (intro mult_left_mono) auto
  finally show ?case by simp
qed simp

lemma to_from_bytes_le: "to_bytes_le (length bs) (from_bytes_le bs) = bs"
proof (induction bs)
  case (Cons b bs)
  have u: "0 \<le> uint b" "uint b < 256" using uint_lt2p [of b] by simp_all
  have "(uint b + 256 * from_bytes_le bs) div 256 = from_bytes_le bs"
    using u by simp
  moreover have "(word_of_int (uint b + 256 * from_bytes_le bs) :: byte) = b"
  proof -
    have "word_of_int (256 * from_bytes_le bs) = (0 :: byte)"
      by (simp only: word_of_int_eq_0_iff) simp
    then show ?thesis by (simp only: wi_hom_add [symmetric] word_of_int_uint add_0_right)
  qed
  ultimately show ?case using Cons by simp
qed simp

subsection \<open>Formatting of integers\<close>

definition digit_char :: "nat \<Rightarrow> char" where
  "digit_char d = (if d < 10 then char_of (48 + d) else char_of (87 + d))"

fun digits_base :: "nat \<Rightarrow> nat \<Rightarrow> string" where
  "digits_base b n =
     (if b < 2 \<or> n < b then [digit_char n] else digits_base b (n div b) @ [digit_char (n mod b)])"

declare digits_base.simps [simp del]

text \<open>\<open>str(i)\<close>.\<close>

definition py_str :: "int \<Rightarrow> string" where
  "py_str i = (if i < 0 then ''-'' @ digits_base 10 (nat (- i)) else digits_base 10 (nat i))"

definition pad_zero :: "nat \<Rightarrow> string \<Rightarrow> string" where
  "pad_zero w s = replicate (w - length s) (CHR ''0'') @ s"

text \<open>\<open>f"{i:x}"\<close>, \<open>f"{i:0wx}"\<close> and \<open>f"{i:0wd}"\<close> for \<open>i\<close> not negative.\<close>

definition py_hex :: "int \<Rightarrow> string" where
  "py_hex i = digits_base 16 (nat i)"

definition py_hex_pad :: "nat \<Rightarrow> int \<Rightarrow> string" where
  "py_hex_pad w i = pad_zero w (py_hex i)"

definition py_dec_pad :: "nat \<Rightarrow> int \<Rightarrow> string" where
  "py_dec_pad w i = pad_zero w (py_str i)"

text \<open>The value of a string of digits in a base, most significant first.\<close>

definition char_digit :: "char \<Rightarrow> nat option" where
  "char_digit c = (let n = of_char c :: nat in
     if 48 \<le> n \<and> n \<le> 57 then Some (n - 48)
     else if 97 \<le> n \<and> n \<le> 122 then Some (n - 87)
     else if 65 \<le> n \<and> n \<le> 90 then Some (n - 55) else None)"

fun digits_value :: "nat \<Rightarrow> nat \<Rightarrow> string \<Rightarrow> nat option" where
  "digits_value b acc [] = Some acc"
| "digits_value b acc (c # cs) =
     (case char_digit c of None \<Rightarrow> None
      | Some d \<Rightarrow> if d < b then digits_value b (acc * b + d) cs else None)"

lemma digits_value_append:
  "digits_value b acc (xs @ ys) =
     (case digits_value b acc xs of None \<Rightarrow> None | Some a \<Rightarrow> digits_value b a ys)"
  by (induction b acc xs rule: digits_value.induct) (auto split: option.splits)

lemma of_char_digit_char: "d < 36 \<Longrightarrow> (of_char (digit_char d) :: nat) = (if d < 10 then 48 + d else 87 + d)"
  by (simp add: digit_char_def of_char_of)

lemma char_digit_digit_char: "d < 36 \<Longrightarrow> char_digit (digit_char d) = Some d"
  by (simp add: char_digit_def of_char_digit_char Let_def)

lemma digits_value_digits_base:
  "2 \<le> b \<Longrightarrow> b \<le> 36 \<Longrightarrow> digits_value b 0 (digits_base b n) = Some n"
proof (induction b n rule: digits_base.induct)
  case (1 b n)
  show ?case
  proof (cases "n < b")
    case True
    with 1 show ?thesis by (simp add: digits_base.simps [of b n] char_digit_digit_char)
  next
    case False
    then have "digits_value b 0 (digits_base b (n div b)) = Some (n div b)"
      using 1 by simp
    moreover have "n mod b < b" "n mod b < 36"
      using 1 by (simp_all add: less_le_trans [of _ b])
    ultimately show ?thesis
      using False 1 by (simp add: digits_base.simps [of b n] digits_value_append char_digit_digit_char)
  qed
qed

lemma digits_base_nonempty [simp]: "digits_base b n \<noteq> []"
  by (subst digits_base.simps) simp

subsection \<open>Worklists\<close>

text \<open>
  The worklist loop of the analyses: the last entry of \<open>todo\<close> is taken, and what it leads to and
  was not seen before is added to \<open>seen\<close> and to \<open>todo\<close>. \<open>U\<close> lists everything that can be
  reached, which bounds the loop; nothing is filtered out where \<open>f\<close> stays inside \<open>U\<close>.
\<close>

definition fresh_of :: "'a list \<Rightarrow> 'a list \<Rightarrow> 'a list \<Rightarrow> 'a list" where
  "fresh_of U seen ys = filter (\<lambda>y. y \<in> set U \<and> y \<notin> set seen) (remdups ys)"

function worklist :: "'a list \<Rightarrow> ('a \<Rightarrow> 'a list) \<Rightarrow> 'a list \<Rightarrow> 'a list \<Rightarrow> 'a list" where
  "worklist U f seen todo =
     (if todo = [] then seen
      else let new = fresh_of U seen (f (last todo))
           in worklist U f (seen @ new) (butlast todo @ new))"
  by pat_completeness auto
termination
proof (relation "(\<lambda>(U, f, seen, todo). card (set U - set seen)) <*mlex*> measure (\<lambda>(U, f, seen, todo). length todo)",
    goal_cases)
  case 1
  show ?case by (intro wf_mlex wf_measure)
next
  case (2 U f seen todo new)
  show ?case
  proof (cases "new = []")
    case True
    then show ?thesis using 2 by (intro mlex_leq) auto
  next
    case False
    then obtain y where "y \<in> set new" by (cases new) auto
    moreover from this have "y \<in> set U" "y \<notin> set seen" using 2(2) by (auto simp: fresh_of_def)
    ultimately have "set U - set (seen @ new) \<subset> set U - set seen" by auto
    then show ?thesis by (intro mlex_less) (simp add: psubset_card_mono)
  qed
qed

declare worklist.simps [simp del]

lemma worklist_Nil [simp]: "worklist U f seen [] = seen"
  by (simp add: worklist.simps)

lemma worklist_mono: "set seen \<subseteq> set (worklist U f seen todo)"
  by (induction U f seen todo rule: worklist.induct) (subst worklist.simps, auto simp: Let_def)


text \<open>The result is the least set that contains \<open>seen\<close> and is closed under \<open>f\<close> within \<open>U\<close>.\<close>

lemma worklist_closed:
  assumes "\<And>x. x \<in> set seen \<Longrightarrow> x \<notin> set todo \<Longrightarrow> set (f x) \<inter> set U \<subseteq> set seen"
    and "set todo \<subseteq> set seen" and "x \<in> set (worklist U f seen todo)"
  shows "set (f x) \<inter> set U \<subseteq> set (worklist U f seen todo)"
  using assms
proof (induction U f seen todo rule: worklist.induct)
  case (1 U f seen todo)
  show ?case
  proof (cases "todo = []")
    case True
    with 1 show ?thesis by simp
  next
    case False
    define new where "new = fresh_of U seen (f (last todo))"
    have w: "worklist U f seen todo = worklist U f (seen @ new) (butlast todo @ new)"
      using False by (subst worklist.simps) (simp add: Let_def new_def)
    have n: "set new = set (f (last todo)) \<inter> set U - set seen" by (auto simp: new_def fresh_of_def)
    have t: "set todo = insert (last todo) (set (butlast todo))"
      using False by (metis append_butlast_last_id list.simps(15) rotate1.simps(2) set_rotate1)
    show ?thesis
      unfolding w
    proof (rule 1(1) [OF False new_def])
      fix y assume "y \<in> set (seen @ new)" "y \<notin> set (butlast todo @ new)"
      then show "set (f y) \<inter> set U \<subseteq> set (seen @ new)"
        using 1(2) [of y] n t by (cases "y = last todo") auto
    qed (use 1(3,4) t w in auto)
  qed
qed

lemma worklist_least:
  assumes "\<And>x. x \<in> S \<Longrightarrow> set (f x) \<inter> set U \<subseteq> S" and "set seen \<subseteq> S" and "set todo \<subseteq> S"
  shows "set (worklist U f seen todo) \<subseteq> S"
  using assms
proof (induction U f seen todo rule: worklist.induct)
  case (1 U f seen todo)
  show ?case
  proof (cases "todo = []")
    case True
    with 1 show ?thesis by simp
  next
    case False
    have "last todo \<in> S" using False 1(4) last_in_set by blast
    then have "set (fresh_of U seen (f (last todo))) \<subseteq> S" using 1(2) by (auto simp: fresh_of_def)
    moreover have "set (butlast todo) \<subseteq> S" using 1(4) by (auto dest: in_set_butlastD)
    ultimately show ?thesis using False 1(1) [OF False refl 1(2)] 1(3)
      by (subst worklist.simps) (simp add: Let_def)
  qed
qed

subsection \<open>Dictionaries and sorted lists\<close>

lemma update_mem: "x \<in> set (AList.update k v d) \<Longrightarrow> x = (k, v) \<or> x \<in> set d"
  by (induction d) (auto split: if_splits)

lemma update_keys: "fst ` set (AList.update k v d) = insert k (fst ` set d)"
  using dom_update [of k v d] by (simp add: dom_map_of_conv_image_fst)

lemma sort_key_cong:
  assumes "\<And>x. x \<in> set xs \<Longrightarrow> f x = g x"
  shows "sort_key f xs = sort_key g xs"
proof -
  have ins: "insort_key f x ys = insort_key g x ys" if "\<And>y. y \<in> set (x # ys) \<Longrightarrow> f y = g y" for x ys
    using that by (induction ys) auto
  show ?thesis using assms
  proof (induction xs)
    case (Cons x xs)
    have "insort_key f x (sort_key g xs) = insort_key g x (sort_key g xs)" by (rule ins) (use Cons.prems in auto)
    then show ?case using Cons by simp
  qed simp
qed

lemma fold_r_keeps_on:
  assumes "fold_r f xs s = Inr t" "P s" "\<And>x s s'. x \<in> set xs \<Longrightarrow> f x s = Inr s' \<Longrightarrow> P s \<Longrightarrow> P s'"
  shows "P t"
  using assms
proof (induction xs arbitrary: s)
  case (Cons x xs)
  obtain u where u: "f x s = Inr u" "fold_r f xs u = Inr t" using Cons.prems(1) by (auto simp: bind_r_def split: sum.splits)
  show ?case by (rule Cons.IH [OF u(2)]) (use Cons.prems(2,3) u(1) in auto)
qed simp

end
