(* ===== verification/ISA.thy ===== *)
theory ISA
  imports Prelude
begin

unbundle bit_operations_syntax

text \<open>
  \<^verbatim>\<open>src/src/aec_compiler/isa.py\<close>: the two ISA profiles as tables, the instruction record, the
  128-bit encoder and decoder, the byte stream of the \<^verbatim>\<open>.aecbin\<close> format and the textual
  disassembler. Every \<^verbatim>\<open>EncodeError\<close> of the module is a constructor of \<open>encode_error\<close>.
  The locale \<open>isa_tables\<close> states what the encoder relies on in a profile (every table injective,
  every code within its field); both profiles of the source are interpretations of it, and the
  encode/decode round trip is proved once, inside it.
\<close>

datatype encode_error =
    UnsupportedOpcode string string
  | UnsupportedType string string
  | UnsupportedConversionSource string
  | BrxRequiresPredicate
  | NegatedRequiresPredicate
  | UnsupportedCompare string
  | UnsupportedMemorySpace string
  | BadBinaryLength nat
  | UnknownOpcode string int
  | UnknownType string int
  | UnknownCompare string int
  | UnknownMemorySpace string int
  | UnknownConversionSource string int

record ISAProfile =
  profile_name :: string
  opcodes :: "int dict"
  types :: "int dict"
  memory_spaces :: "int dict"
  compare_ops :: "int dict"
  special_registers :: "int dict"
  supports_tensor :: bool

definition C1_DEFAULT :: ISAProfile where
  "C1_DEFAULT = \<lparr>
    profile_name = ''c1_default'',
    opcodes = [
      (''ADD'', 0x0001), (''SUB'', 0x0002), (''MUL'', 0x0003), (''MAD'', 0x0004),
      (''FMA'', 0x0005), (''AND'', 0x0010), (''OR'', 0x0011), (''XOR'', 0x0012),
      (''SHL'', 0x0014), (''SHR'', 0x0015), (''CMPP'', 0x0021), (''LD'', 0x0030),
      (''ST'', 0x0031), (''BR'', 0x0040), (''BRX'', 0x0041), (''HALT'', 0x0045),
      (''CPY'', 0x0054), (''LOADI'', 0x0055), (''LOADI64'', 0x0056)],
    types = [
      (''b32'', 0x0), (''b64'', 0x1), (''u32'', 0x2), (''s32'', 0x3), (''f32'', 0x8),
      (''none'', 0xF)],
    memory_spaces = [(''gmem'', 0), (''smem'', 1), (''cmem'', 2), (''lmem'', 3), (''pmem'', 4)],
    compare_ops = [(''eq'', 0), (''ne'', 1), (''lt'', 2), (''le'', 3), (''gt'', 4), (''ge'', 5)],
    special_registers = [
      (''%tid.x'', 0x0100), (''%ntid.x'', 0x0101), (''%ctaid.x'', 0x0102),
      (''%nctaid.x'', 0x0103), (''%laneid'', 0x0104), (''%tid.y'', 0x0110),
      (''%ntid.y'', 0x0111), (''%ctaid.y'', 0x0112), (''%nctaid.y'', 0x0113),
      (''%tid.z'', 0x0120), (''%ntid.z'', 0x0121), (''%ctaid.z'', 0x0122),
      (''%nctaid.z'', 0x0123)],
    supports_tensor = False\<rparr>"

definition TRACK_B_V1 :: ISAProfile where
  "TRACK_B_V1 = \<lparr>
    profile_name = ''track_b_v1'',
    opcodes = [
      (''ADD'', 0x0001), (''SUB'', 0x0002), (''MUL'', 0x0003), (''MAD'', 0x0004),
      (''FMA'', 0x0005), (''DIV'', 0x0006), (''NEG'', 0x0007), (''ABS'', 0x0008),
      (''MIN'', 0x0009), (''MAX'', 0x000A), (''AND'', 0x0010), (''OR'', 0x0011),
      (''XOR'', 0x0012), (''NOT'', 0x0013), (''SHL'', 0x0014), (''SHR'', 0x0015),
      (''BFX'', 0x0016), (''BINS'', 0x0017), (''POPC'', 0x0018), (''FLO'', 0x0019),
      (''CMP'', 0x0020), (''CMPP'', 0x0021), (''SEL'', 0x0022), (''PICK'', 0x0023),
      (''LD'', 0x0030), (''ST'', 0x0031), (''LDC'', 0x0032), (''ATOM'', 0x0033),
      (''BR'', 0x0040), (''BRX'', 0x0041), (''CALL'', 0x0043), (''RET'', 0x0044),
      (''HALT'', 0x0045), (''SYNC.CT'', 0x0047), (''MBAR'', 0x0049), (''CVTFF'', 0x0050),
      (''CVTFI'', 0x0051), (''CVTIF'', 0x0052), (''CVTII'', 0x0053), (''CPY'', 0x0054),
      (''LOADI'', 0x0055), (''LOADI64'', 0x0056), (''SHUF'', 0x0057), (''VOTE'', 0x0058),
      (''MTCH'', 0x0059), (''RCP'', 0x0070), (''RSQ'', 0x0071), (''SIN'', 0x0072),
      (''COS'', 0x0073), (''EXP'', 0x0074), (''LOG'', 0x0075), (''SQRT'', 0x0076),
      (''RDTSC'', 0x0080)],
    types = [
      (''b32'', 0x0), (''b64'', 0x1), (''u32'', 0x2), (''s32'', 0x3), (''u8'', 0x4),
      (''s8'', 0x5), (''f32'', 0x8), (''f64'', 0x9), (''f16'', 0xA), (''bf16'', 0xB),
      (''none'', 0xF)],
    memory_spaces = [(''gmem'', 0), (''smem'', 1), (''cmem'', 2), (''lmem'', 3), (''pmem'', 4)],
    compare_ops = [(''eq'', 0), (''ne'', 1), (''lt'', 2), (''le'', 3), (''gt'', 4), (''ge'', 5)],
    special_registers = [
      (''%tid'', 0x0100), (''%tid.x'', 0x0100), (''%ntid'', 0x0101), (''%ntid.x'', 0x0101),
      (''%ctaid'', 0x0102), (''%ctaid.x'', 0x0102), (''%nctaid'', 0x0103),
      (''%nctaid.x'', 0x0103), (''%laneid'', 0x0104), (''%warpid'', 0x0105),
      (''%tid.y'', 0x0110), (''%ntid.y'', 0x0111), (''%ctaid.y'', 0x0112),
      (''%nctaid.y'', 0x0113), (''%tid.z'', 0x0120), (''%ntid.z'', 0x0121),
      (''%ctaid.z'', 0x0122), (''%nctaid.z'', 0x0123)],
    supports_tensor = False\<rparr>"

definition PROFILES :: "ISAProfile dict" where
  "PROFILES = [(profile_name C1_DEFAULT, C1_DEFAULT), (profile_name TRACK_B_V1, TRACK_B_V1)]"

definition PRED_ENABLE :: int where "PRED_ENABLE = 0x8000"
definition PRED_NEGATE :: int where "PRED_NEGATE = 0x4000"
definition TYPE_SHIFT :: nat where "TYPE_SHIFT = 3"
definition FAMILY_SHIFT :: nat where "FAMILY_SHIFT = 8"
definition SPACE_SHIFT :: nat where "SPACE_SHIFT = 11"

record AECInstruction =
  opcode :: string
  dtype :: string
  dest :: int
  src1 :: int
  src2 :: int
  src3 :: int
  imm :: int
  predicate :: "int option"
  predicate_negated :: bool
  compare :: "string option"
  memory_space :: "string option"
  cvt_src_type :: "string option"
  family :: int

text \<open>The dataclass defaults.\<close>

definition aec :: "string \<Rightarrow> AECInstruction" where
  "aec op = \<lparr>opcode = op, dtype = ''none'', dest = 0, src1 = 0, src2 = 0, src3 = 0, imm = 0,
     predicate = None, predicate_negated = False, compare = None, memory_space = None,
     cvt_src_type = None, family = 0\<rparr>"

subsection \<open>The encoder\<close>

definition instruction_encoding_type :: "string \<Rightarrow> string \<Rightarrow> string" where
  "instruction_encoding_type opcode_name dt =
     (if opcode_name = ''SHL'' \<and> dt = ''b32'' then ''u32''
      else if opcode_name \<in> {''LOADI'', ''LOADI64'', ''BR'', ''BRX''} then ''none''
      else dt)"

definition uses_immediate :: "string \<Rightarrow> bool" where
  "uses_immediate opcode_name \<longleftrightarrow>
     opcode_name \<in> {''LOADI'', ''LOADI64'', ''BR'', ''BRX'', ''CALL''}"

text \<open>Python truth of an optional string: neither \<open>None\<close> nor empty.\<close>

definition truthy :: "string option \<Rightarrow> bool" where
  "truthy so = (case so of None \<Rightarrow> False | Some s \<Rightarrow> s \<noteq> [])"

text \<open>The four independent parts of the Pred/Ctrl field, in the source's order.\<close>

definition ctrl_type :: "ISAProfile \<Rightarrow> string \<Rightarrow> string \<Rightarrow> string option \<Rightarrow> encode_error + int" where
  "ctrl_type prof opcode_name dt cvt =
     (case map_of (types prof) dt of
        None \<Rightarrow> Inl (UnsupportedType (profile_name prof) dt)
      | Some tc \<Rightarrow>
          if starts_with opcode_name ''CVT'' \<and> truthy cvt then
            (case map_of (types prof) (the cvt) of
               None \<Rightarrow> Inl (UnsupportedConversionSource (the cvt))
             | Some sc \<Rightarrow> Inr (push_bit TYPE_SHIFT (tc AND 0xF) OR push_bit 10 (sc AND 0xF)))
          else Inr (push_bit TYPE_SHIFT (tc AND 0xF)))"

definition pred_bits :: "int \<Rightarrow> bool \<Rightarrow> int" where
  "pred_bits p neg = PRED_ENABLE OR (p AND 0x7) OR (if neg then PRED_NEGATE else 0)"

definition ctrl_pred :: "string \<Rightarrow> int option \<Rightarrow> bool \<Rightarrow> encode_error + int" where
  "ctrl_pred opcode_name p neg =
     (if opcode_name = ''BRX'' then
        (case p of None \<Rightarrow> Inl BrxRequiresPredicate | Some q \<Rightarrow> Inr (pred_bits q neg))
      else (case p of
          Some q \<Rightarrow> Inr (pred_bits q neg)
        | None \<Rightarrow> if neg then Inl NegatedRequiresPredicate else Inr 0))"

definition ctrl_subop :: "ISAProfile \<Rightarrow> AECInstruction \<Rightarrow> encode_error + int" where
  "ctrl_subop prof inst =
     (if truthy (compare inst) then
        (case map_of (compare_ops prof) (the (compare inst)) of
           None \<Rightarrow> Inl (UnsupportedCompare (the (compare inst)))
         | Some c \<Rightarrow> Inr (push_bit FAMILY_SHIFT (c AND 0x7)))
      else if truthy (memory_space inst) then
        (case map_of (memory_spaces prof) (the (memory_space inst)) of
           None \<Rightarrow> Inl (UnsupportedMemorySpace (the (memory_space inst)))
         | Some c \<Rightarrow> Inr (push_bit SPACE_SHIFT (c AND 0x7)))
      else if family inst \<noteq> 0 then Inr (push_bit FAMILY_SHIFT (family inst AND 0x7))
      else Inr 0)"

type_synonym words4 = "int \<times> int \<times> int \<times> int"

definition encode_instruction :: "ISAProfile \<Rightarrow> AECInstruction \<Rightarrow> encode_error + words4" where
  "encode_instruction prof inst =
     (let opcode_name = py_upper (opcode inst) in
      case map_of (opcodes prof) opcode_name of
        None \<Rightarrow> Inl (UnsupportedOpcode (profile_name prof) (opcode inst))
      | Some opc \<Rightarrow>
          bind_r (ctrl_type prof opcode_name
                    (instruction_encoding_type opcode_name (dtype inst)) (cvt_src_type inst))
            (\<lambda>c1. bind_r (ctrl_pred opcode_name (predicate inst) (predicate_negated inst))
            (\<lambda>c2. bind_r (ctrl_subop prof inst)
            (\<lambda>c3.
               let pred_ctrl = c1 OR c2 OR c3;
                   word0 = (if opcode_name = ''LOADI64'' then imm inst AND 0xFFFFFFFF
                            else if uses_immediate opcode_name then imm inst AND 0xFFFFFFFF
                            else src3 inst AND 0xFFFFFFFF);
                   word1 = (if opcode_name = ''LOADI64''
                            then drop_bit 32 (imm inst) AND 0xFFFFFFFF
                            else src2 inst AND 0xFFFFFFFF);
                   word2 = push_bit 16 (dest inst AND 0xFFFF) OR (src1 inst AND 0xFFFF);
                   word3 = push_bit 16 (opc AND 0xFFFF) OR (pred_ctrl AND 0xFFFF)
               in Inr (word0, word1, word2, word3)))))"

definition pack_4I :: "words4 \<Rightarrow> byte list" where
  "pack_4I w = (case w of (w0, w1, w2, w3) \<Rightarrow>
     to_bytes_le 4 w0 @ to_bytes_le 4 w1 @ to_bytes_le 4 w2 @ to_bytes_le 4 w3)"

fun instructions_to_bytes :: "ISAProfile \<Rightarrow> AECInstruction list \<Rightarrow> encode_error + byte list" where
  "instructions_to_bytes prof [] = Inr []"
| "instructions_to_bytes prof (inst # insts) =
     bind_r (encode_instruction prof inst) (\<lambda>w.
       bind_r (instructions_to_bytes prof insts) (\<lambda>bs. Inr (pack_4I w @ bs)))"

definition words_to_msb_hex :: "words4 \<Rightarrow> string" where
  "words_to_msb_hex w = (case w of (w0, w1, w2, w3) \<Rightarrow>
     py_hex_pad 8 w3 @ py_hex_pad 8 w2 @ py_hex_pad 8 w1 @ py_hex_pad 8 w0)"

fun iter_unpack_4I :: "byte list \<Rightarrow> words4 list" where
  "iter_unpack_4I bs =
     (if length bs < 16 then []
      else (from_bytes_le (take 4 bs), from_bytes_le (take 4 (drop 4 bs)),
            from_bytes_le (take 4 (drop 8 bs)), from_bytes_le (take 4 (drop 12 bs)))
           # iter_unpack_4I (drop 16 bs))"

declare iter_unpack_4I.simps [simp del]

definition bytes_to_words :: "byte list \<Rightarrow> encode_error + words4 list" where
  "bytes_to_words blob =
     (if length blob mod 16 \<noteq> 0 then Inl (BadBinaryLength (length blob))
      else Inr (iter_unpack_4I blob))"

subsection \<open>The decoder\<close>

record reverse_maps =
  rev_opcodes :: "int \<Rightarrow> string option"
  rev_types :: "int \<Rightarrow> string option"
  rev_cmp :: "int \<Rightarrow> string option"
  rev_spaces :: "int \<Rightarrow> string option"
  rev_specials :: "int \<Rightarrow> string option"

text \<open>The cache of the source is keyed by profile name and only saves rebuilding the maps.\<close>

definition reverse_maps_of :: "ISAProfile \<Rightarrow> reverse_maps" where
  "reverse_maps_of prof = \<lparr>
     rev_opcodes = rev_dict (opcodes prof), rev_types = rev_dict (types prof),
     rev_cmp = rev_dict (compare_ops prof), rev_spaces = rev_dict (memory_spaces prof),
     rev_specials = rev_dict (special_registers prof)\<rparr>"

definition is_set :: "int \<Rightarrow> bool" where
  "is_set x \<longleftrightarrow> x \<noteq> 0"

text \<open>Predicate fields: \<open>BRX\<close> always carries one, other opcodes when the enable bit is set.\<close>

definition decode_pred :: "string \<Rightarrow> int \<Rightarrow> int option \<times> bool" where
  "decode_pred op pred_ctrl =
     (if op = ''BRX'' then (Some (pred_ctrl AND 0x7), is_set (pred_ctrl AND PRED_NEGATE))
      else if is_set (pred_ctrl AND PRED_ENABLE)
      then (Some (pred_ctrl AND 0x7), is_set (pred_ctrl AND PRED_NEGATE))
      else (None, False))"

text \<open>Compare operation, memory space and conversion source type, by opcode.\<close>

definition decode_subop ::
  "ISAProfile \<Rightarrow> string \<Rightarrow> int \<Rightarrow> encode_error + string option \<times> string option \<times> string option" where
  "decode_subop prof op pred_ctrl =
     (let rv = reverse_maps_of prof in
      if op \<in> {''CMP'', ''CMPP''} then
        (let code = drop_bit FAMILY_SHIFT pred_ctrl AND 0x7 in
         case rev_cmp rv code of
           None \<Rightarrow> Inl (UnknownCompare (profile_name prof) code)
         | Some c \<Rightarrow> Inr (Some c, None, None))
      else if op \<in> {''LD'', ''ST'', ''LDC''} then
        (let code = drop_bit SPACE_SHIFT pred_ctrl AND 0x7 in
         case rev_spaces rv code of
           None \<Rightarrow> Inl (UnknownMemorySpace (profile_name prof) code)
         | Some m \<Rightarrow> Inr (None, Some m, None))
      else if starts_with op ''CVT'' then
        (let code = drop_bit 10 pred_ctrl AND 0xF in
         case rev_types rv code of
           None \<Rightarrow> Inl (UnknownConversionSource (profile_name prof) code)
         | Some t \<Rightarrow> Inr (None, None, Some t))
      else Inr (None, None, None))"

text \<open>The immediate and the two source words, as \<open>(imm, src2, src3)\<close>.\<close>

definition decode_words :: "string \<Rightarrow> int \<Rightarrow> int \<Rightarrow> int \<times> int \<times> int" where
  "decode_words op word0 word1 =
     (if op = ''LOADI64''
      then (push_bit 32 (word1 AND 0xFFFFFFFF) OR (word0 AND 0xFFFFFFFF), 0, 0)
      else if uses_immediate op then (word0 AND 0xFFFFFFFF, word1 AND 0xFFFFFFFF, 0)
      else (0, word1 AND 0xFFFFFFFF, word0 AND 0xFFFFFFFF))"

definition decode_words_to_instruction ::
  "ISAProfile \<Rightarrow> words4 \<Rightarrow> encode_error + AECInstruction" where
  "decode_words_to_instruction prof w = (case w of (word0, word1, word2, word3) \<Rightarrow>
     (let opcode_value = drop_bit 16 word3 AND 0xFFFF;
          pred_ctrl = word3 AND 0xFFFF;
          rv = reverse_maps_of prof in
      case rev_opcodes rv opcode_value of
        None \<Rightarrow> Inl (UnknownOpcode (profile_name prof) opcode_value)
      | Some op \<Rightarrow>
          (let dtype_code = drop_bit TYPE_SHIFT pred_ctrl AND 0xF in
           case rev_types rv dtype_code of
             None \<Rightarrow> Inl (UnknownType (profile_name prof) dtype_code)
           | Some dt \<Rightarrow>
               bind_r (decode_subop prof op pred_ctrl) (\<lambda>(cmp, space, cvt).
                 let (p, neg) = decode_pred op pred_ctrl;
                     (imm64, s2, s3) = decode_words op word0 word1
                 in Inr \<lparr>opcode = op, dtype = dt, dest = drop_bit 16 word2 AND 0xFFFF,
                        src1 = word2 AND 0xFFFF, src2 = s2, src3 = s3, imm = imm64,
                        predicate = p, predicate_negated = neg, compare = cmp,
                        memory_space = space, cvt_src_type = cvt, family = 0\<rparr>))))"

subsection \<open>The textual disassembler\<close>

definition decode_predicate :: "string \<Rightarrow> int \<Rightarrow> string" where
  "decode_predicate op pred_ctrl =
     (if op = ''BRX'' \<or> pred_ctrl AND PRED_ENABLE = 0 then []
      else ''@'' @ (if is_set (pred_ctrl AND PRED_NEGATE) then ''!'' else [])
           @ ''P'' @ py_str (pred_ctrl AND 0x7) @ '' '')"

definition get_or :: "string option \<Rightarrow> string \<Rightarrow> string" where
  "get_or so d = (case so of None \<Rightarrow> d | Some s \<Rightarrow> s)"

definition decode_instruction :: "ISAProfile \<Rightarrow> words4 \<Rightarrow> string" where
  "decode_instruction prof w = (case w of (word0, word1, word2, word3) \<Rightarrow>
     (let opcode_value = drop_bit 16 word3 AND 0xFFFF;
          pred_ctrl = word3 AND 0xFFFF;
          rv = reverse_maps_of prof;
          op = get_or (rev_opcodes rv opcode_value) (''OP_'' @ py_hex_pad 4 opcode_value);
          tcode = drop_bit TYPE_SHIFT pred_ctrl AND 0xF;
          dt = get_or (rev_types rv tcode) (''type'' @ py_hex tcode);
          d = py_str (drop_bit 16 word2 AND 0xFFFF);
          s1v = word2 AND 0xFFFF;
          s1 = py_str s1v;
          s2 = py_str (word1 AND 0xFFFF);
          s3 = py_str (word0 AND 0xFFFF);
          txt =
            (if op = ''LOADI'' then ''LOADI R'' @ d @ '', 0x'' @ py_hex_pad 8 word0
             else if op = ''LOADI64'' then
               ''LOADI64 R'' @ d @ '', 0x''
                 @ py_hex_pad 16 (push_bit 32 (word1 AND 0xFFFFFFFF) OR (word0 AND 0xFFFFFFFF))
             else if op \<in> {''BR'', ''CALL''} then op @ '' '' @ py_str word0
             else if op = ''BRX'' then ''BRX P'' @ py_str (pred_ctrl AND 0x7) @ '', '' @ py_str word0
             else if op = ''HALT'' then ''HALT''
             else if op \<in> {''LD'', ''ST'', ''LDC''} then
               (let space = get_or (rev_spaces rv (drop_bit SPACE_SHIFT pred_ctrl AND 0x7)) ''space?''
                in if op = ''ST''
                   then ''ST.'' @ space @ ''.'' @ dt @ '' [R'' @ s1 @ ''], R'' @ s2
                   else op @ ''.'' @ space @ ''.'' @ dt @ '' R'' @ d @ '', [R'' @ s1 @ '']'')
             else if op \<in> {''CMP'', ''CMPP''} then
               (let cmp_op = get_or (rev_cmp rv (drop_bit FAMILY_SHIFT pred_ctrl AND 0x7)) ''cmp?''
                in op @ ''.'' @ cmp_op @ ''.'' @ dt @ '' '' @ (if op = ''CMPP'' then ''P'' else ''R'')
                   @ d @ '', R'' @ s1 @ '', R'' @ s2)
             else if starts_with op ''CVT'' then
               op @ ''.'' @ dt @ ''.'' @ get_or (rev_types rv (drop_bit 10 pred_ctrl AND 0xF)) ''type?''
                 @ '' R'' @ d @ '', R'' @ s1
             else if op = ''CPY'' then
               ''CPY.'' @ dt @ '' R'' @ d @ '', '' @ get_or (rev_specials rv s1v) (''R'' @ s1)
             else if op = ''RDTSC'' then op @ ''.'' @ dt @ '' R'' @ d @ '', R'' @ s1
             else if op \<in> {''NEG'', ''ABS'', ''NOT'', ''POPC'', ''FLO'', ''RCP'', ''RSQ'', ''SIN'', ''COS'',
                           ''EXP'', ''LOG'', ''SQRT''} then op @ ''.'' @ dt @ '' R'' @ d @ '', R'' @ s1
             else if op \<in> {''MAD'', ''FMA''} then
               op @ ''.'' @ dt @ '' R'' @ d @ '', R'' @ s1 @ '', R'' @ s2 @ '', R'' @ s3
             else op @ ''.'' @ dt @ '' R'' @ d @ '', R'' @ s1 @ '', R'' @ s2)
      in decode_predicate op pred_ctrl @ txt))"

subsection \<open>Bit layout of an encoded instruction\<close>

lemma bit_pred_flags [bit_fields]:
  "bit PRED_ENABLE i \<longleftrightarrow> i = 15" "bit PRED_NEGATE i \<longleftrightarrow> i = 14"
  using bit_exp_iff [where 'a = int, of 15 i] bit_exp_iff [where 'a = int, of 14 i]
  by (simp_all add: PRED_ENABLE_def PRED_NEGATE_def)

lemmas shift_defs = TYPE_SHIFT_def FAMILY_SHIFT_def SPACE_SHIFT_def

lemma is_set_flag:
  "is_set (x AND PRED_ENABLE) \<longleftrightarrow> bit x 15"
  "is_set (x AND PRED_NEGATE) \<longleftrightarrow> bit x 14"
  using and_exp_eq_0_iff_not_bit [of x 15] and_exp_eq_0_iff_not_bit [of x 14]
  by (simp_all add: is_set_def PRED_ENABLE_def PRED_NEGATE_def)

lemma word2_fields:
  "drop_bit 16 (push_bit 16 ((a::int) AND 0xFFFF) OR (b AND 0xFFFF)) AND 0xFFFF = a AND 0xFFFF"
  "(push_bit 16 ((a::int) AND 0xFFFF) OR (b AND 0xFFFF)) AND 0xFFFF = b AND 0xFFFF"
  unfolding and_masks by (rule bit_eqI, auto simp: bit_simps)+

text \<open>The Pred/Ctrl field of an encoded instruction, all five parts present.\<close>

definition ctrl_layout :: "int \<Rightarrow> int \<Rightarrow> int \<Rightarrow> int \<Rightarrow> int" where
  "ctrl_layout t s f m = push_bit TYPE_SHIFT (t AND 0xF) OR push_bit 10 (s AND 0xF)
     OR push_bit FAMILY_SHIFT (f AND 0x7) OR push_bit SPACE_SHIFT (m AND 0x7)"

definition opt_pred_bits :: "int option \<Rightarrow> bool \<Rightarrow> int" where
  "opt_pred_bits p n = (case p of None \<Rightarrow> 0 | Some q \<Rightarrow> pred_bits q n)"

lemmas layout_defs = ctrl_layout_def opt_pred_bits_def pred_bits_def bit_pred_flags shift_defs and_masks


lemma bit_pred_bits [bit_fields]:
  "bit (opt_pred_bits p n) i \<longleftrightarrow>
     (case p of None \<Rightarrow> False | Some q \<Rightarrow> i = 15 \<or> (i < 3 \<and> bit q i) \<or> (n \<and> i = 14))"
  by (auto simp: layout_defs bit_simps split: option.splits)

lemma bit_ctrl_layout [bit_fields]:
  "bit (ctrl_layout t s f m) i \<longleftrightarrow>
     (3 \<le> i \<and> i < 7 \<and> bit t (i - 3)) \<or> (10 \<le> i \<and> i < 14 \<and> bit s (i - 10)) \<or>
     (8 \<le> i \<and> i < 11 \<and> bit f (i - 8)) \<or> (11 \<le> i \<and> i < 14 \<and> bit m (i - 11))"
  by (auto simp: layout_defs bit_simps)

lemmas field_bits = and_masks shift_defs bit_drop_bit_eq bit_take_bit_iff bit_or_iff
  bit_pred_bits bit_ctrl_layout

lemma ctrl_width: "(ctrl_layout t s f m OR opt_pred_bits p n) AND 0xFFFF
    = ctrl_layout t s f m OR opt_pred_bits p n"
  by (rule bit_eqI) (auto simp: field_bits split: option.splits)

lemma ctrl_type_field: "drop_bit TYPE_SHIFT (ctrl_layout t s f m OR opt_pred_bits p n) AND 0xF = t AND 0xF"
  by (rule bit_eqI) (auto simp: field_bits split: option.splits)

lemma ctrl_cvt_field: "drop_bit 10 (ctrl_layout t s 0 0 OR opt_pred_bits p n) AND 0xF = s AND 0xF"
  by (rule bit_eqI) (auto simp: field_bits split: option.splits)

lemma ctrl_cmp_field: "drop_bit FAMILY_SHIFT (ctrl_layout t 0 f m OR opt_pred_bits p n) AND 0x7 = f AND 0x7"
  by (rule bit_eqI) (auto simp: field_bits split: option.splits)

lemma ctrl_space_field: "drop_bit SPACE_SHIFT (ctrl_layout t 0 f m OR opt_pred_bits p n) AND 0x7 = m AND 0x7"
  by (rule bit_eqI) (auto simp: field_bits split: option.splits)

lemma ctrl_pred_field: "(ctrl_layout t s f m OR opt_pred_bits (Some q) n) AND 0x7 = q AND 0x7"
  by (rule bit_eqI) (auto simp: field_bits)

lemma ctrl_flags:
  "is_set ((ctrl_layout t s f m OR opt_pred_bits p n) AND PRED_ENABLE) \<longleftrightarrow> p \<noteq> None"
  "is_set ((ctrl_layout t s f m OR opt_pred_bits p n) AND PRED_NEGATE) \<longleftrightarrow> p \<noteq> None \<and> n"
  unfolding is_set_flag by (auto simp: bit_or_iff bit_pred_bits bit_ctrl_layout split: option.splits)


subsection \<open>What the encoder relies on in a profile\<close>

text \<open>Instructions whose fields fit their places and whose optional fields match the opcode.\<close>

definition canonical :: "ISAProfile \<Rightarrow> AECInstruction \<Rightarrow> bool" where
  "canonical prof inst \<longleftrightarrow>
     opcode inst \<in> fst ` set (opcodes prof) \<and>
     dtype inst \<in> fst ` set (types prof) \<and>
     instruction_encoding_type (opcode inst) (dtype inst) = dtype inst \<and>
     0 \<le> dest inst \<and> dest inst < 2 ^ 16 \<and> 0 \<le> src1 inst \<and> src1 inst < 2 ^ 16 \<and>
     (if opcode inst = ''LOADI64'' then
        0 \<le> imm inst \<and> imm inst < 2 ^ 64 \<and> src2 inst = 0 \<and> src3 inst = 0
      else if uses_immediate (opcode inst) then
        0 \<le> imm inst \<and> imm inst < 2 ^ 32 \<and> 0 \<le> src2 inst \<and> src2 inst < 2 ^ 32 \<and> src3 inst = 0
      else imm inst = 0 \<and> 0 \<le> src2 inst \<and> src2 inst < 2 ^ 32
           \<and> 0 \<le> src3 inst \<and> src3 inst < 2 ^ 32) \<and>
     (case predicate inst of
        None \<Rightarrow> opcode inst \<noteq> ''BRX'' \<and> \<not> predicate_negated inst
      | Some p \<Rightarrow> 0 \<le> p \<and> p < 8) \<and>
     (if opcode inst \<in> {''CMP'', ''CMPP''} then
        compare inst \<in> Some ` fst ` set (compare_ops prof) \<and> memory_space inst = None
        \<and> cvt_src_type inst = None
      else if opcode inst \<in> {''LD'', ''ST'', ''LDC''} then
        compare inst = None \<and> memory_space inst \<in> Some ` fst ` set (memory_spaces prof)
        \<and> cvt_src_type inst = None
      else compare inst = None \<and> memory_space inst = None \<and>
        (if starts_with (opcode inst) ''CVT''
         then cvt_src_type inst \<in> Some ` fst ` set (types prof)
         else cvt_src_type inst = None)) \<and>
     family inst = 0"

text \<open>An injective table whose codes fit in \<open>n\<close> bits and whose names are not empty.\<close>

definition table_ok :: "nat \<Rightarrow> int dict \<Rightarrow> bool" where
  "table_ok n d \<longleftrightarrow> distinct (map fst d) \<and> distinct (map snd d)
     \<and> list_all (\<lambda>(k, v). k \<noteq> [] \<and> 0 \<le> v \<and> v < 2 ^ n) d"

lemma canonical_subop:
  assumes "canonical prof inst"
  shows "if opcode inst \<in> {''CMP'', ''CMPP''} then
        compare inst \<in> Some ` fst ` set (compare_ops prof) \<and> memory_space inst = None
        \<and> cvt_src_type inst = None
      else if opcode inst \<in> {''LD'', ''ST'', ''LDC''} then
        compare inst = None \<and> memory_space inst \<in> Some ` fst ` set (memory_spaces prof)
        \<and> cvt_src_type inst = None
      else compare inst = None \<and> memory_space inst = None \<and>
        (if starts_with (opcode inst) ''CVT''
         then cvt_src_type inst \<in> Some ` fst ` set (types prof)
         else cvt_src_type inst = None)"
  using assms unfolding canonical_def by simp

lemma table_lookup:
  assumes "table_ok n d" "k \<in> fst ` set d"
  obtains v where "map_of d k = Some v" "take_bit n v = v" "rev_dict d v = Some k" "k \<noteq> []"
proof -
  from assms obtain v where kv: "(k, v) \<in> set d" by auto
  with assms have "map_of d k = Some v" by (simp add: table_ok_def)
  moreover from kv assms(1) have "0 \<le> v" "v < 2 ^ n" "k \<noteq> []"
    by (auto simp: table_ok_def list_all_iff)
  ultimately show thesis
    using that [of v] rev_dict_inverse assms(1) by (auto simp: table_ok_def take_bit_int_eq_self)
qed

locale isa_tables =
  fixes prof :: ISAProfile
  assumes opcodes_ok: "table_ok 16 (opcodes prof)"
    and opcodes_upper: "op \<in> fst ` set (opcodes prof) \<Longrightarrow> py_upper op = op"
    and types_ok: "table_ok 4 (types prof)"
    and compares_ok: "table_ok 3 (compare_ops prof)"
    and spaces_ok: "table_ok 3 (memory_spaces prof)"
begin

lemma ctrl_pred_canonical:
  assumes "canonical prof i"
  shows "ctrl_pred (opcode i) (predicate i) (predicate_negated i)
           = Inr (opt_pred_bits (predicate i) (predicate_negated i))"
  using assms by (auto simp: canonical_def ctrl_pred_def opt_pred_bits_def split: option.splits)

lemma decode_pred_canonical:
  assumes "canonical prof i"
  shows "decode_pred (opcode i)
           (ctrl_layout t s f m OR opt_pred_bits (predicate i) (predicate_negated i))
         = (predicate i, predicate_negated i)"
proof (cases "predicate i")
  case None
  with assms show ?thesis by (simp add: canonical_def decode_pred_def ctrl_flags)
next
  case (Some p)
  with assms have "p AND 7 = p" by (simp add: canonical_def and_masks take_bit_int_eq_self)
  with Some show ?thesis by (simp add: decode_pred_def ctrl_flags ctrl_pred_field)
qed

text \<open>The type, compare, space and conversion parts: encoded then decoded.\<close>

lemma subop_canonical:
  assumes can: "canonical prof i"
  obtains t s f m where
    "ctrl_type prof (opcode i) (dtype i) (cvt_src_type i) = Inr (push_bit TYPE_SHIFT (t AND 0xF) OR push_bit 10 (s AND 0xF))"
    "ctrl_subop prof i = Inr (push_bit FAMILY_SHIFT (f AND 0x7) OR push_bit SPACE_SHIFT (m AND 0x7))"
    "rev_dict (types prof) (t AND 0xF) = Some (dtype i)"
    "\<And>p n. decode_subop prof (opcode i) (ctrl_layout t s f m OR opt_pred_bits p n)
       = Inr (compare i, memory_space i, cvt_src_type i)"
proof -
  have fam: "family i = 0" using can by (simp add: canonical_def)
  from can have "dtype i \<in> fst ` set (types prof)" by (simp add: canonical_def)
  then obtain t where t: "map_of (types prof) (dtype i) = Some t" "t AND 0xF = t"
      "rev_dict (types prof) t = Some (dtype i)"
    using table_lookup [OF types_ok] by (metis and_masks(2))
  consider (cmp) "opcode i \<in> {''CMP'', ''CMPP''}" | (mem) "opcode i \<in> {''LD'', ''ST'', ''LDC''}"
    | (cvt) "starts_with (opcode i) ''CVT''"
    | (other) "opcode i \<notin> {''CMP'', ''CMPP'', ''LD'', ''ST'', ''LDC''}" "\<not> starts_with (opcode i) ''CVT''"
    by auto
  then show thesis
  proof cases
    case cmp
    then obtain c where c: "compare i = Some c" "c \<in> fst ` set (compare_ops prof)"
        and n: "memory_space i = None" "cvt_src_type i = None" "\<not> starts_with (opcode i) ''CVT''"
      using canonical_subop [OF can] by force
    from c(2) obtain f where "map_of (compare_ops prof) c = Some f" "f AND 0x7 = f"
        "rev_dict (compare_ops prof) f = Some c" "c \<noteq> []"
      using table_lookup [OF compares_ok] by (metis and_masks(1))
    with c n t cmp show thesis
      by (intro that [of t 0 f 0])
        (auto simp: ctrl_type_def ctrl_subop_def truthy_def decode_subop_def reverse_maps_of_def
           ctrl_cmp_field Let_def simp del: drop_bit_or)
  next
    case mem
    then obtain c where c: "memory_space i = Some c" "c \<in> fst ` set (memory_spaces prof)"
        and n: "compare i = None" "cvt_src_type i = None" "\<not> starts_with (opcode i) ''CVT''"
      using canonical_subop [OF can] by force
    from c(2) obtain f where "map_of (memory_spaces prof) c = Some f" "f AND 0x7 = f"
        "rev_dict (memory_spaces prof) f = Some c" "c \<noteq> []"
      using table_lookup [OF spaces_ok] by (metis and_masks(1))
    with c n t mem show thesis
      by (intro that [of t 0 0 f])
        (auto simp: ctrl_type_def ctrl_subop_def truthy_def decode_subop_def reverse_maps_of_def
           ctrl_space_field Let_def simp del: drop_bit_or)
  next
    case cvt
    then have no: "opcode i \<notin> {''CMP'', ''CMPP'', ''LD'', ''ST'', ''LDC''}" by auto
    with cvt canonical_subop [OF can] have "cvt_src_type i \<in> Some ` fst ` set (types prof)"
        and n: "compare i = None" "memory_space i = None"
      by simp_all
    then obtain c where c: "cvt_src_type i = Some c" "c \<in> fst ` set (types prof)"
      by (elim imageE) simp
    from c(2) obtain s where "map_of (types prof) c = Some s" "s AND 0xF = s"
        "rev_dict (types prof) s = Some c" "c \<noteq> []"
      using table_lookup [OF types_ok] by (metis and_masks(2))
    with c n t cvt no fam show thesis
      by (intro that [of t s 0 0])
        (auto simp: ctrl_type_def ctrl_subop_def truthy_def decode_subop_def reverse_maps_of_def
           ctrl_cvt_field Let_def simp del: drop_bit_or)
  next
    case other
    with canonical_subop [OF can] t fam show thesis
      by (intro that [of t 0 0 0])
        (auto simp: ctrl_type_def ctrl_subop_def truthy_def decode_subop_def Let_def simp del: drop_bit_or)
  qed
qed

lemma decode_words_canonical:
  assumes "canonical prof i"
  shows "decode_words (opcode i)
    (if opcode i = ''LOADI64'' then imm i AND 0xFFFFFFFF
     else if uses_immediate (opcode i) then imm i AND 0xFFFFFFFF else src3 i AND 0xFFFFFFFF)
    (if opcode i = ''LOADI64'' then drop_bit 32 (imm i) AND 0xFFFFFFFF
     else src2 i AND 0xFFFFFFFF) = (imm i, src2 i, src3 i)"
proof -
  have wide: "push_bit 32 (take_bit 32 (drop_bit 32 x)) OR take_bit 32 x = take_bit 64 x" for x :: int
    by (rule bit_eqI) (auto simp: bit_simps)
  show ?thesis
    using assms wide [of "imm i"]
    by (auto simp: canonical_def decode_words_def and_masks take_bit_int_eq_self)
qed

theorem round_trip:
  assumes can: "canonical prof i"
  shows "\<exists>w. encode_instruction prof i = Inr w \<and> decode_words_to_instruction prof w = Inr i"
proof -
  from can have op: "opcode i \<in> fst ` set (opcodes prof)" by (simp add: canonical_def)
  then obtain v where v: "map_of (opcodes prof) (opcode i) = Some v" "v AND 0xFFFF = v"
      "rev_dict (opcodes prof) v = Some (opcode i)"
    using table_lookup [OF opcodes_ok] by (metis and_masks(3))
  have up: "py_upper (opcode i) = opcode i" using opcodes_upper [OF op] .
  have ty: "instruction_encoding_type (opcode i) (dtype i) = dtype i"
    using can by (simp add: canonical_def)
  have regs: "dest i AND 0xFFFF = dest i" "src1 i AND 0xFFFF = src1 i" "family i = 0"
    using can by (simp_all add: canonical_def and_masks take_bit_int_eq_self)
  obtain t s f m where
    c: "ctrl_type prof (opcode i) (dtype i) (cvt_src_type i) = Inr (push_bit TYPE_SHIFT (t AND 0xF) OR push_bit 10 (s AND 0xF))"
      "ctrl_subop prof i = Inr (push_bit FAMILY_SHIFT (f AND 0x7) OR push_bit SPACE_SHIFT (m AND 0x7))"
      "rev_dict (types prof) (t AND 0xF) = Some (dtype i)"
      "\<And>p n. decode_subop prof (opcode i) (ctrl_layout t s f m OR opt_pred_bits p n)
         = Inr (compare i, memory_space i, cvt_src_type i)"
    using subop_canonical [OF can] by blast
  let ?p = "opt_pred_bits (predicate i) (predicate_negated i)"
  have lay: "(push_bit TYPE_SHIFT (t AND 0xF) OR push_bit 10 (s AND 0xF)) OR ?p
      OR (push_bit FAMILY_SHIFT (f AND 0x7) OR push_bit SPACE_SHIFT (m AND 0x7))
      = ctrl_layout t s f m OR ?p"
    by (simp add: ctrl_layout_def or.assoc or.commute or.left_commute)
  define w0 w1 w2 w3 where
    w: "w0 = (if opcode i = ''LOADI64'' then imm i AND 0xFFFFFFFF
         else if uses_immediate (opcode i) then imm i AND 0xFFFFFFFF else src3 i AND 0xFFFFFFFF)"
      "w1 = (if opcode i = ''LOADI64'' then drop_bit 32 (imm i) AND 0xFFFFFFFF
         else src2 i AND 0xFFFFFFFF)"
      "w2 = push_bit 16 (dest i AND 0xFFFF) OR (src1 i AND 0xFFFF)"
      "w3 = push_bit 16 (v AND 0xFFFF) OR ((ctrl_layout t s f m OR ?p) AND 0xFFFF)"
  have "encode_instruction prof i = Inr (w0, w1, w2, w3)"
    unfolding encode_instruction_def Let_def up v(1) option.case ty c(1,2)
      ctrl_pred_canonical [OF can] bind_r_simps lay w ..
  moreover have f: "drop_bit 16 w2 AND 0xFFFF = dest i" "w2 AND 0xFFFF = src1 i"
      "drop_bit 16 w3 AND 0xFFFF = v" "w3 AND 0xFFFF = ctrl_layout t s f m OR ?p"
    unfolding w word2_fields by (simp_all only: regs v ctrl_width)
  have "decode_words_to_instruction prof (w0, w1, w2, w3) = Inr i"
    unfolding decode_words_to_instruction_def prod.case Let_def f reverse_maps_of_def
      reverse_maps.simps v(3) option.case ctrl_type_field c(3,4) bind_r_simps
      decode_pred_canonical [OF can] decode_words_canonical [OF can, folded w(1,2)]
    using regs by simp
  ultimately show ?thesis by blast
qed

end

interpretation c1: isa_tables C1_DEFAULT
  by unfold_locales (auto simp: C1_DEFAULT_def table_ok_def py_upper_def upper_char_def)

interpretation track_b: isa_tables TRACK_B_V1
  by unfold_locales (auto simp: TRACK_B_V1_def table_ok_def py_upper_def upper_char_def)

subsection \<open>Words, bytes and when encoding succeeds\<close>

definition is_word32 :: "int \<Rightarrow> bool" where
  "is_word32 w \<longleftrightarrow> 0 \<le> w \<and> w < 2 ^ 32"

lemma word32_and: "is_word32 (x AND 0xFFFFFFFF)"
  using and_mask32_range by (simp add: is_word32_def)

lemma word32_halves: "is_word32 (push_bit 16 (a AND 0xFFFF) OR (b AND 0xFFFF))"
proof -
  have "push_bit 16 (a AND 0xFFFF) OR (b AND 0xFFFF)
      = (push_bit 16 (a AND 0xFFFF) OR (b AND 0xFFFF)) AND 0xFFFFFFFF"
    unfolding and_masks by (rule bit_eqI) (auto simp: bit_simps)
  then show ?thesis by (metis word32_and)
qed

fun words_ok :: "words4 \<Rightarrow> bool" where
  "words_ok (w0, w1, w2, w3) \<longleftrightarrow> is_word32 w0 \<and> is_word32 w1 \<and> is_word32 w2 \<and> is_word32 w3"

lemma encode_words_ok: "encode_instruction prof i = Inr w \<Longrightarrow> words_ok w"
  by (cases w) (auto simp: encode_instruction_def Let_def word32_and word32_halves
      simp del: push_bit_and split: option.splits)

text \<open>When the encoder succeeds: each guard of the source, once.\<close>

definition encodable :: "ISAProfile \<Rightarrow> AECInstruction \<Rightarrow> bool" where
  "encodable prof i \<longleftrightarrow>
     (let op = py_upper (opcode i) in
      op \<in> fst ` set (opcodes prof) \<and>
      instruction_encoding_type op (dtype i) \<in> fst ` set (types prof) \<and>
      (starts_with op ''CVT'' \<and> truthy (cvt_src_type i)
         \<longrightarrow> the (cvt_src_type i) \<in> fst ` set (types prof)) \<and>
      (op = ''BRX'' \<or> predicate_negated i \<longrightarrow> predicate i \<noteq> None) \<and>
      (truthy (compare i) \<longrightarrow> the (compare i) \<in> fst ` set (compare_ops prof)) \<and>
      (truthy (memory_space i) \<and> \<not> truthy (compare i)
         \<longrightarrow> the (memory_space i) \<in> fst ` set (memory_spaces prof)))"

lemma ctrl_succeeds:
  "(\<exists>c. ctrl_type prof op dt cvt = Inr c) \<longleftrightarrow> dt \<in> fst ` set (types prof) \<and>
     (starts_with op ''CVT'' \<and> truthy cvt \<longrightarrow> the cvt \<in> fst ` set (types prof))"
  "(\<exists>c. ctrl_pred op p neg = Inr c) \<longleftrightarrow> (op = ''BRX'' \<or> neg \<longrightarrow> p \<noteq> None)"
  "(\<exists>c. ctrl_subop prof i = Inr c) \<longleftrightarrow>
     (truthy (compare i) \<longrightarrow> the (compare i) \<in> fst ` set (compare_ops prof)) \<and>
     (truthy (memory_space i) \<and> \<not> truthy (compare i)
        \<longrightarrow> the (memory_space i) \<in> fst ` set (memory_spaces prof))"
  unfolding in_dict_iff ctrl_type_def ctrl_pred_def ctrl_subop_def
  by (simp_all split: option.splits)

lemma encode_succeeds_iff:
  "(\<exists>w. encode_instruction prof i = Inr w) \<longleftrightarrow> encodable prof i"
proof -
  let ?op = "py_upper (opcode i)"
  have "(\<exists>w. encode_instruction prof i = Inr w) \<longleftrightarrow>
      ?op \<in> fst ` set (opcodes prof) \<and>
      (\<exists>c. ctrl_type prof ?op (instruction_encoding_type ?op (dtype i)) (cvt_src_type i) = Inr c) \<and>
      (\<exists>c. ctrl_pred ?op (predicate i) (predicate_negated i) = Inr c) \<and>
      (\<exists>c. ctrl_subop prof i = Inr c)"
    unfolding in_dict_iff encode_instruction_def Let_def
    by (cases "map_of (opcodes prof) ?op") (simp_all only: option.case bind_r_ex, auto)
  then show ?thesis unfolding ctrl_succeeds encodable_def Let_def by (simp only: conj_assoc)
qed

lemma iter_unpack_pack:
  assumes "words_ok w"
  shows "iter_unpack_4I (pack_4I w @ bs) = w # iter_unpack_4I bs"
proof (cases w)
  case (fields a b c d)
  have "from_bytes_le (to_bytes_le 4 x) = x" if "is_word32 x" for x
    using that by (simp add: from_to_bytes_le is_word32_def)
  with assms fields show ?thesis
    by (subst iter_unpack_4I.simps) (simp add: pack_4I_def)
qed

lemma length_pack_4I [simp]: "length (pack_4I w) = 16"
  by (simp add: pack_4I_def split: prod.split)

lemma instructions_to_bytes_words:
  assumes "instructions_to_bytes prof is = Inr bs"
  shows "length bs = 16 * length is"
    and "\<exists>ws. map_r (encode_instruction prof) is = Inr ws \<and> bytes_to_words bs = Inr ws"
proof -
  have "length bs = 16 * length is \<and>
     (\<exists>ws. map_r (encode_instruction prof) is = Inr ws \<and> iter_unpack_4I bs = ws)"
    using assms
  proof (induction "is" arbitrary: bs)
    case Nil
    then show ?case by (simp add: iter_unpack_4I.simps)
  next
    case (Cons i "is")
    then show ?case using encode_words_ok by (auto simp: iter_unpack_pack)
  qed
  then show "length bs = 16 * length is"
    and "\<exists>ws. map_r (encode_instruction prof) is = Inr ws \<and> bytes_to_words bs = Inr ws"
    by (auto simp: bytes_to_words_def)
qed

lemma decode_subop_names:
  assumes "decode_subop prof op pc = Inr (cmp, space, cvt)"
  shows "if op \<in> {''CMP'', ''CMPP''} then
        cmp \<in> Some ` fst ` set (compare_ops prof) \<and> space = None \<and> cvt = None
      else if op \<in> {''LD'', ''ST'', ''LDC''} then
        cmp = None \<and> space \<in> Some ` fst ` set (memory_spaces prof) \<and> cvt = None
      else cmp = None \<and> space = None \<and>
        (if starts_with op ''CVT'' then cvt \<in> Some ` fst ` set (types prof) else cvt = None)"
proof -
  have in_keys: "rev_dict d x = Some k \<Longrightarrow> Some k \<in> Some ` fst ` set d" for d :: "int dict" and x k
    using rev_dict_Some [of d x k] by force
  consider (c) "op \<in> {''CMP'', ''CMPP''}" | (m) "op \<notin> {''CMP'', ''CMPP''}" "op \<in> {''LD'', ''ST'', ''LDC''}"
    | (o) "op \<notin> {''CMP'', ''CMPP''}" "op \<notin> {''LD'', ''ST'', ''LDC''}" by blast
  then show ?thesis
  proof cases
    case c
    then obtain k where "rev_dict (compare_ops prof) (drop_bit FAMILY_SHIFT pc AND 0x7) = Some k"
        "cmp = Some k" "space = None" "cvt = None"
      using assms unfolding decode_subop_def Let_def reverse_maps_of_def reverse_maps.simps
      by (simp split: option.splits del: insert_iff)
    with c in_keys show ?thesis by (simp del: insert_iff)
  next
    case m
    then obtain k where "rev_dict (memory_spaces prof) (drop_bit SPACE_SHIFT pc AND 0x7) = Some k"
        "cmp = None" "space = Some k" "cvt = None"
      using assms unfolding decode_subop_def Let_def reverse_maps_of_def reverse_maps.simps
      by (simp split: option.splits del: insert_iff)
    with m in_keys show ?thesis by (simp del: insert_iff)
  next
    case o
    then have "cmp = None \<and> space = None \<and> (if starts_with op ''CVT''
        then \<exists>k. rev_dict (types prof) (drop_bit 10 pc AND 0xF) = Some k \<and> cvt = Some k
        else cvt = None)"
      using assms unfolding decode_subop_def Let_def reverse_maps_of_def reverse_maps.simps
      by (simp split: option.splits if_splits del: insert_iff)
    with o in_keys show ?thesis by (auto simp del: insert_iff split: if_splits)
  qed
qed

context isa_tables
begin

lemma binary_round_trip:
  assumes "list_all (canonical prof) is"
  shows "\<exists>bs ws. instructions_to_bytes prof is = Inr bs \<and> length bs = 16 * length is
           \<and> bytes_to_words bs = Inr ws \<and> map_r (decode_words_to_instruction prof) ws = Inr is"
proof -
  have "\<exists>bs. instructions_to_bytes prof is = Inr bs \<and>
          (\<forall>ws. map_r (encode_instruction prof) is = Inr ws
             \<longrightarrow> map_r (decode_words_to_instruction prof) ws = Inr is)"
    using assms
  proof (induction "is")
    case (Cons i "is")
    then obtain w where "encode_instruction prof i = Inr w" "decode_words_to_instruction prof w = Inr i"
      using Cons.prems round_trip [of i] by auto
    with Cons show ?case by auto
  qed simp
  then show ?thesis using instructions_to_bytes_words by blast
qed

lemma decode_canonical:
  assumes dec: "decode_words_to_instruction prof w = Inr i"
    and ty: "instruction_encoding_type (opcode i) (dtype i) = dtype i"
  shows "canonical prof i"
proof -
  obtain w0 w1 w2 w3 where w: "w = (w0, w1, w2, w3)" by (cases w)
  define pc where "pc = w3 AND 0xFFFF"
  from dec obtain op dt cmp space cvt where
    op: "rev_dict (opcodes prof) (drop_bit 16 w3 AND 0xFFFF) = Some op" and
    dt: "rev_dict (types prof) (drop_bit TYPE_SHIFT pc AND 0xF) = Some dt" and
    sub: "decode_subop prof op pc = Inr (cmp, space, cvt)" and
    i: "i = \<lparr>opcode = op, dtype = dt, dest = drop_bit 16 w2 AND 0xFFFF, src1 = w2 AND 0xFFFF,
          src2 = fst (snd (decode_words op w0 w1)), src3 = snd (snd (decode_words op w0 w1)),
          imm = fst (decode_words op w0 w1), predicate = fst (decode_pred op pc),
          predicate_negated = snd (decode_pred op pc), compare = cmp, memory_space = space,
          cvt_src_type = cvt, family = 0\<rparr>"
    by (auto simp: w decode_words_to_instruction_def Let_def reverse_maps_of_def pc_def case_prod_unfold
        split: option.splits)
  have names: "op \<in> fst ` set (opcodes prof)" "dt \<in> fst ` set (types prof)"
    using rev_dict_Some [OF op] rev_dict_Some [OF dt] by force+
  have regs: "0 \<le> x AND 0xFFFF" "x AND 0xFFFF < 2 ^ 16" for x :: int
    using take_bit_int_less_exp [of 16 x] unfolding and_masks by simp_all
  have words: "if op = ''LOADI64'' then 0 \<le> imm i \<and> imm i < 2 ^ 64 \<and> src2 i = 0 \<and> src3 i = 0
      else if uses_immediate op then 0 \<le> imm i \<and> imm i < 2 ^ 32 \<and> 0 \<le> src2 i \<and> src2 i < 2 ^ 32 \<and> src3 i = 0
      else imm i = 0 \<and> 0 \<le> src2 i \<and> src2 i < 2 ^ 32 \<and> 0 \<le> src3 i \<and> src3 i < 2 ^ 32"
  proof -
    have "push_bit 32 (take_bit 32 b) OR take_bit 32 a = take_bit 64 (push_bit 32 b OR take_bit 32 a)"
      for a b :: int by (rule bit_eqI) (auto simp: bit_simps)
    then have "0 \<le> push_bit 32 (take_bit 32 b) OR take_bit 32 a"
        "push_bit 32 (take_bit 32 b) OR take_bit 32 a < 2 ^ 64" for a b :: int
      by (metis take_bit_nonnegative, metis take_bit_int_less_exp)
    then show ?thesis using and_mask32_range
      by (simp add: i decode_words_def and_masks)
  qed
  have pred: "case predicate i of None \<Rightarrow> op \<noteq> ''BRX'' \<and> \<not> predicate_negated i | Some p \<Rightarrow> 0 \<le> p \<and> p < 8"
    using take_bit_int_less_exp [of 3 pc] by (auto simp: i decode_pred_def and_masks)
  have in_keys: "rev_dict d x = Some k \<Longrightarrow> Some k \<in> Some ` fst ` set d" for d :: "int dict" and x k
    using rev_dict_Some [of d x k] by force
  note subops = decode_subop_names [OF sub]
  have proj: "opcode i = op" "dtype i = dt" "compare i = cmp" "memory_space i = space"
      "cvt_src_type i = cvt" "family i = 0" "dest i = drop_bit 16 w2 AND 0xFFFF" "src1 i = w2 AND 0xFFFF"
    by (simp_all add: i)
  show ?thesis
    unfolding canonical_def proj using names regs words pred subops ty proj by simp
qed

end

end
