(* ===== verification/Float32.thy ===== *)
theory Float32
  imports Prelude
begin

unbundle bit_operations_syntax

text \<open>
  The floating-point operations the source performs: Python floats are IEEE 754 doubles, and
  \<^verbatim>\<open>struct\<close> packs and unpacks them as 32-bit singles (\<^verbatim>\<open>f32_to_bits\<close> and
  \<^verbatim>\<open>bits_to_f32\<close> of \<^verbatim>\<open>sim.py\<close>, and their twins in \<^verbatim>\<open>passes/_helpers.py\<close>).
  A finite double is a sign, a natural mantissa and a binary exponent; addition and
  multiplication are exact on these and then rounded to 53 bits, to nearest and ties to even;
  packing rounds to 24 bits and raises \<^verbatim>\<open>OverflowError\<close> where the single overflows.

  IEEE 754 leaves the payload of a NaN to the machine, and CPython passes on what the machine
  does. The model takes it as a parameter, the record \<open>float_host\<close>: which 32-bit pattern a NaN
  has after unpacking, after an addition and after a multiplication. No theorem assumes anything
  about it.
\<close>

datatype pyfloat = NaN int | Inf bool | Fin bool nat int

record float_host =
  nan_load :: "int \<Rightarrow> int"
  nan_add :: "pyfloat \<Rightarrow> pyfloat \<Rightarrow> int"
  nan_mul :: "pyfloat \<Rightarrow> pyfloat \<Rightarrow> int"

text \<open>The number of binary digits.\<close>

fun bit_length :: "nat \<Rightarrow> nat" where
  "bit_length n = (if n = 0 then 0 else Suc (bit_length (n div 2)))"

declare bit_length.simps [simp del]

definition round_div :: "nat \<Rightarrow> nat \<Rightarrow> nat" where
  "round_div m k =
     (let q = m div 2 ^ k; r = m mod 2 ^ k in
      if k = 0 then m
      else if 2 ^ (k - 1) < r \<or> (r = 2 ^ (k - 1) \<and> odd q) then Suc q else q)"

text \<open>\<open>m * 2 ^ e\<close> rounded to at most \<open>p\<close> bits with exponent at least \<open>emin\<close>.\<close>

definition round_bin :: "nat \<Rightarrow> int \<Rightarrow> nat \<Rightarrow> int \<Rightarrow> nat \<times> int" where
  "round_bin p emin m e =
     (let e' = max (e + int (bit_length m) - int p) emin in
      if e' \<le> e then (m * 2 ^ nat (e - e'), e') else (round_div m (nat (e' - e)), e'))"

definition to_double :: "bool \<Rightarrow> nat \<Rightarrow> int \<Rightarrow> pyfloat" where
  "to_double s m e =
     (let (q, e') = round_bin 53 (- 1074) m e in
      if q \<noteq> 0 \<and> 1024 < int (bit_length q) + e' then Inf s else Fin s q e')"

definition signed :: "bool \<Rightarrow> nat \<Rightarrow> int" where
  "signed s m = (if s then - int m else int m)"

fun float_add :: "float_host \<Rightarrow> pyfloat \<Rightarrow> pyfloat \<Rightarrow> pyfloat" where
  "float_add h (Fin s1 m1 e1) (Fin s2 m2 e2) =
     (let e = min e1 e2;
          v = signed s1 (m1 * 2 ^ nat (e1 - e)) + signed s2 (m2 * 2 ^ nat (e2 - e))
      in if v = 0 then Fin (s1 \<and> s2) 0 e else to_double (v < 0) (nat \<bar>v\<bar>) e)"
| "float_add h (Fin s1 m1 e1) (Inf s) = Inf s"
| "float_add h (Inf s) (Fin s2 m2 e2) = Inf s"
| "float_add h (Inf s1) (Inf s2) =
     (if s1 = s2 then Inf s1 else NaN (nan_add h (Inf s1) (Inf s2)))"
| "float_add h a b = NaN (nan_add h a b)"

fun float_neg :: "pyfloat \<Rightarrow> pyfloat" where
  "float_neg (Fin s m e) = Fin (\<not> s) m e"
| "float_neg (Inf s) = Inf (\<not> s)"
| "float_neg (NaN p) = NaN p"

text \<open>Subtraction is addition of the negated operand, for a NaN as well.\<close>

definition float_sub :: "float_host \<Rightarrow> pyfloat \<Rightarrow> pyfloat \<Rightarrow> pyfloat" where
  "float_sub h a b = float_add h a (float_neg b)"

fun float_mul :: "float_host \<Rightarrow> pyfloat \<Rightarrow> pyfloat \<Rightarrow> pyfloat" where
  "float_mul h (Fin s1 m1 e1) (Fin s2 m2 e2) = to_double (s1 \<noteq> s2) (m1 * m2) (e1 + e2)"
| "float_mul h (Fin s1 m1 e1) (Inf s) =
     (if m1 = 0 then NaN (nan_mul h (Fin s1 m1 e1) (Inf s)) else Inf (s1 \<noteq> s))"
| "float_mul h (Inf s) (Fin s2 m2 e2) =
     (if m2 = 0 then NaN (nan_mul h (Inf s) (Fin s2 m2 e2)) else Inf (s \<noteq> s2))"
| "float_mul h (Inf s1) (Inf s2) = Inf (s1 \<noteq> s2)"
| "float_mul h a b = NaN (nan_mul h a b)"

fun is_finite :: "pyfloat \<Rightarrow> bool" where
  "is_finite (Fin s m e) = True"
| "is_finite f = False"

subsection \<open>Comparisons\<close>

text \<open>The order of two floats: \<open>None\<close> if one is a NaN, otherwise the sign of the difference.\<close>

fun float_cmp :: "pyfloat \<Rightarrow> pyfloat \<Rightarrow> int option" where
  "float_cmp (NaN p) b = None"
| "float_cmp a (NaN p) = None"
| "float_cmp (Fin s1 m1 e1) (Fin s2 m2 e2) =
     (let e = min e1 e2 in
      Some (sgn (signed s1 (m1 * 2 ^ nat (e1 - e)) - signed s2 (m2 * 2 ^ nat (e2 - e)))))"
| "float_cmp (Inf s) (Fin s2 m2 e2) = Some (if s then - 1 else 1)"
| "float_cmp (Fin s1 m1 e1) (Inf s) = Some (if s then 1 else - 1)"
| "float_cmp (Inf s1) (Inf s2) = Some (if s1 = s2 then 0 else if s1 then - 1 else 1)"

definition cmp_eq :: "int option \<Rightarrow> bool" where "cmp_eq c \<longleftrightarrow> c = Some 0"
definition cmp_lt :: "int option \<Rightarrow> bool" where
  "cmp_lt c = (case c of None \<Rightarrow> False | Some d \<Rightarrow> d < 0)"
definition cmp_gt :: "int option \<Rightarrow> bool" where
  "cmp_gt c = (case c of None \<Rightarrow> False | Some d \<Rightarrow> 0 < d)"

subsection \<open>Packing and unpacking\<close>

definition bits_to_f32 :: "float_host \<Rightarrow> int \<Rightarrow> pyfloat" where
  "bits_to_f32 h bits =
     (let b = bits AND 0xFFFFFFFF;
          s = bit b 31;
          ex = drop_bit 23 b AND 0xFF;
          fr = nat (b AND 0x7FFFFF)
      in if ex = 255 then (if fr = 0 then Inf s else NaN (nan_load h b))
         else if ex = 0 then Fin s fr (- 149)
         else Fin s (fr + 2 ^ 23) (ex - 150))"

text \<open>\<open>None\<close> is Python's \<^verbatim>\<open>OverflowError\<close>. A single's exponent and fraction are adjacent, so
  a mantissa that rounds up to \<open>2 ^ 24\<close> carries into the exponent.\<close>

fun f32_to_bits :: "pyfloat \<Rightarrow> int option" where
  "f32_to_bits (NaN p) = Some (p AND 0xFFFFFFFF)"
| "f32_to_bits (Inf s) = Some ((if s then 0x80000000 else 0) + 0x7F800000)"
| "f32_to_bits (Fin s m e) =
     (let (q, e') = round_bin 24 (- 149) m e;
          mag = (if q = 0 then 0 else (e' + 149) * 2 ^ 23 + int q)
      in if 0x7F800000 \<le> mag then None else Some ((if s then 0x80000000 else 0) + mag))"

lemma round_bin_emin: "emin \<le> snd (round_bin p emin m e)"
  by (simp add: round_bin_def Let_def)

text \<open>A packed single is a 32-bit pattern.\<close>

lemma f32_to_bits_range:
  assumes "f32_to_bits v = Some b"
  shows "0 \<le> b \<and> b < 2 ^ 32"
proof (cases v)
  case (NaN p)
  with assms and_mask32_range [of p] show ?thesis by auto
next
  case (Inf s)
  with assms show ?thesis by (auto split: if_splits)
next
  case (Fin s m e)
  obtain q e' where r: "round_bin 24 (- 149) m e = (q, e')" by fastforce
  with round_bin_emin [of "- 149" 24 m e] have "- 149 \<le> e'" by simp
  then have "0 \<le> (e' + 149) * 2 ^ 23 + int q" by simp
  with assms Fin r show ?thesis by (auto simp: Let_def split: if_splits)
qed

end
