(* ===== verification/Sim.thy ===== *)
theory Sim
  imports ISA Float32
begin

unbundle bit_operations_syntax

text \<open>
  \<^verbatim>\<open>src/src/aec_compiler/sim.py\<close>: the lane state, the execution of one instruction by one lane,
  the lock-step warp loop with its uniform-branch check, and the grid loop. A raised exception is
  \<open>Inl\<close>; where the simulator object outlives the exception (its counters and memory can be read
  afterwards) the error is paired with the object's state.
\<close>

datatype sim_error =
    PcOutOfRange int
  | StepLimitExceeded
  | HaltGuarded
  | BrGuarded
  | BrxNeedsPredicate
  | NonUniformBrx int
  | PairDestTooHigh
  | PairCopyTooHigh
  | UnsupportedSimOpcode string
  | StoreToPmem
  | UnsupportedSelector int
  | CompareMissing
  | UnsupportedSimCompare string
  | NeedsMemorySpace
  | ReadOutOfRange string int int
  | WriteOutOfRange string int int
  | UnsupportedSpace string
  | UnsupportedSimType string
  | PyIndexError
  | PyOverflowError
  | PyValueError

type_synonym dim3 = "int \<times> int \<times> int"

record MemoryAccess =
  ma_op :: string
  ma_space :: string
  ma_block :: int
  ma_thread :: int
  ma_global_thread :: int
  ma_address :: int
  ma_size :: int

record BranchTrace =
  bt_pc :: int
  bt_target :: int
  bt_predicate :: int
  bt_block :: int
  bt_warp_start :: int
  bt_lane_count :: int
  bt_decisions :: "bool list"
  bt_uniform :: bool
  bt_taken :: bool

record LaneState =
  block :: int
  thread :: int
  block_dim :: dim3
  grid_dim :: dim3
  warp_size :: int
  registers :: "int list"
  predicates :: "bool list"

definition new_lane :: "int \<Rightarrow> int \<Rightarrow> dim3 \<Rightarrow> dim3 \<Rightarrow> int \<Rightarrow> LaneState" where
  "new_lane b t bd gd ws = \<lparr>block = b, thread = t, block_dim = bd, grid_dim = gd, warp_size = ws,
     registers = replicate 256 0, predicates = replicate 8 False\<rparr>"

fun dim_x :: "dim3 \<Rightarrow> int" where "dim_x (x, y, z) = x"
fun dim_y :: "dim3 \<Rightarrow> int" where "dim_y (x, y, z) = y"
fun dim_z :: "dim3 \<Rightarrow> int" where "dim_z (x, y, z) = z"
fun dim_count :: "dim3 \<Rightarrow> int" where "dim_count (x, y, z) = x * y * z"

definition block_x :: "LaneState \<Rightarrow> int" where
  "block_x l = block l mod dim_x (grid_dim l)"

definition block_y :: "LaneState \<Rightarrow> int" where
  "block_y l = (block l div dim_x (grid_dim l)) mod dim_y (grid_dim l)"

definition block_z :: "LaneState \<Rightarrow> int" where
  "block_z l = block l div (dim_x (grid_dim l) * dim_y (grid_dim l))"

definition thread_x :: "LaneState \<Rightarrow> int" where
  "thread_x l = thread l mod dim_x (block_dim l)"

definition thread_y :: "LaneState \<Rightarrow> int" where
  "thread_y l = (thread l div dim_x (block_dim l)) mod dim_y (block_dim l)"

definition thread_z :: "LaneState \<Rightarrow> int" where
  "thread_z l = thread l div (dim_x (block_dim l) * dim_y (block_dim l))"

definition total_threads :: "LaneState \<Rightarrow> int" where
  "total_threads l = dim_count (block_dim l)"

definition lane_total_blocks :: "LaneState \<Rightarrow> int" where
  "lane_total_blocks l = dim_count (grid_dim l)"

definition global_thread :: "LaneState \<Rightarrow> int" where
  "global_thread l = block l * total_threads l + thread l"

text \<open>The mutable fields of a simulator object, and what its constructor fixes.\<close>

record sim_state =
  pmem :: "byte list"
  gmem :: "byte list"
  accesses :: "MemoryAccess list"
  branch_trace :: "BranchTrace list"
  dynamic_instruction_count :: int
  brx_execution_count :: int
  non_uniform_branch_failures :: int

record sim_config =
  host :: float_host
  instructions :: "AECInstruction list"
  cfg_block_dim :: dim3
  cfg_grid_dim :: dim3
  cfg_warp_size :: int
  max_steps :: int

definition new_sim_state :: "byte list \<Rightarrow> byte list \<Rightarrow> sim_state" where
  "new_sim_state pm gm = \<lparr>pmem = pm, gmem = gm, accesses = [], branch_trace = [],
     dynamic_instruction_count = 0, brx_execution_count = 0, non_uniform_branch_failures = 0\<rparr>"

subsection \<open>Registers, memory and special registers\<close>

definition option_r :: "'e \<Rightarrow> 'a option \<Rightarrow> 'e + 'a" where
  "option_r e x = (case x of None \<Rightarrow> Inl e | Some a \<Rightarrow> Inr a)"

definition get_reg :: "LaneState \<Rightarrow> int \<Rightarrow> sim_error + int" where
  "get_reg l i = option_r PyIndexError (py_get (registers l) i)"

definition set_reg :: "LaneState \<Rightarrow> int \<Rightarrow> int \<Rightarrow> sim_error + LaneState" where
  "set_reg l i v = option_r PyIndexError
     (map_option (\<lambda>rs. l\<lparr>registers := rs\<rparr>) (py_set (registers l) i v))"

definition get_pred :: "LaneState \<Rightarrow> int \<Rightarrow> sim_error + bool" where
  "get_pred l i = option_r PyIndexError (py_get (predicates l) i)"

definition set_pred :: "LaneState \<Rightarrow> int \<Rightarrow> bool \<Rightarrow> sim_error + LaneState" where
  "set_pred l i v = option_r PyIndexError
     (map_option (\<lambda>ps. l\<lparr>predicates := ps\<rparr>) (py_set (predicates l) i v))"

definition type_size :: "string \<Rightarrow> sim_error + nat" where
  "type_size dt =
     (if dt = ''b64'' then Inr 8
      else if dt \<in> {''b32'', ''u32'', ''s32'', ''f32''} then Inr 4
      else Inl (UnsupportedSimType dt))"

definition sim_memory :: "sim_state \<Rightarrow> string \<Rightarrow> sim_error + byte list" where
  "sim_memory s space =
     (if space = ''gmem'' then Inr (gmem s)
      else if space = ''pmem'' then Inr (pmem s)
      else Inl (UnsupportedSpace space))"

text \<open>Addresses are masked registers, never negative.\<close>

definition sim_read :: "sim_state \<Rightarrow> string \<Rightarrow> int \<Rightarrow> nat \<Rightarrow> sim_error + byte list" where
  "sim_read s space addr sz =
     bind_r (sim_memory s space) (\<lambda>m.
       if int (length m) < addr + int sz then Inl (ReadOutOfRange space addr (int sz))
       else Inr (take sz (drop (nat addr) m)))"

definition splice :: "byte list \<Rightarrow> nat \<Rightarrow> byte list \<Rightarrow> byte list" where
  "splice m a bs = take a m @ bs @ drop (a + length bs) m"

definition sim_write :: "sim_state \<Rightarrow> string \<Rightarrow> int \<Rightarrow> byte list \<Rightarrow> sim_error + sim_state" where
  "sim_write s space addr bs =
     bind_r (sim_memory s space) (\<lambda>m.
       if int (length m) < addr + int (length bs)
       then Inl (WriteOutOfRange space addr (int (length bs)))
       else let m' = splice m (nat addr) bs
            in Inr (if space = ''gmem'' then s\<lparr>gmem := m'\<rparr> else s\<lparr>pmem := m'\<rparr>))"

definition record_access ::
  "string \<Rightarrow> string \<Rightarrow> LaneState \<Rightarrow> int \<Rightarrow> nat \<Rightarrow> sim_state \<Rightarrow> sim_state" where
  "record_access op space l addr sz s =
     (if space \<noteq> ''gmem'' then s
      else s\<lparr>accesses := accesses s @ [\<lparr>ma_op = op, ma_space = space, ma_block = block l,
               ma_thread = thread l, ma_global_thread = global_thread l, ma_address = addr,
               ma_size = int sz\<rparr>]\<rparr>)"

definition special_selector :: "string \<Rightarrow> int" where
  "special_selector name = (case map_of (special_registers TRACK_B_V1) name of
     None \<Rightarrow> - 1 | Some v \<Rightarrow> v)"

definition special_value :: "int \<Rightarrow> LaneState \<Rightarrow> sim_error + int" where
  "special_value selector l =
     (if selector = special_selector ''%tid.x'' then Inr (thread_x l)
      else if selector = special_selector ''%tid.y'' then Inr (thread_y l)
      else if selector = special_selector ''%tid.z'' then Inr (thread_z l)
      else if selector = special_selector ''%ntid.x'' then Inr (dim_x (block_dim l))
      else if selector = special_selector ''%ntid.y'' then Inr (dim_y (block_dim l))
      else if selector = special_selector ''%ntid.z'' then Inr (dim_z (block_dim l))
      else if selector = special_selector ''%ctaid.x'' then Inr (block_x l)
      else if selector = special_selector ''%ctaid.y'' then Inr (block_y l)
      else if selector = special_selector ''%ctaid.z'' then Inr (block_z l)
      else if selector = special_selector ''%nctaid.x'' then Inr (dim_x (grid_dim l))
      else if selector = special_selector ''%nctaid.y'' then Inr (dim_y (grid_dim l))
      else if selector = special_selector ''%nctaid.z'' then Inr (dim_z (grid_dim l))
      else if selector = special_selector ''%laneid'' then Inr (thread_x l mod warp_size l)
      else if selector = special_selector ''%warpid'' then Inr (thread_x l div warp_size l)
      else Inl (UnsupportedSelector selector))"

definition copy_value :: "AECInstruction \<Rightarrow> LaneState \<Rightarrow> sim_error + int" where
  "copy_value inst l =
     (if 0x0100 \<le> src1 inst then special_value (src1 inst) l
      else bind_r (get_reg l (src1 inst)) (\<lambda>v. Inr (v AND 0xFFFFFFFF)))"

subsection \<open>Arithmetic and comparison\<close>

definition pack_f32 :: "pyfloat \<Rightarrow> sim_error + int" where
  "pack_f32 v = option_r PyOverflowError (f32_to_bits v)"

datatype binop = OpAdd | OpSub | OpMul

fun binary_result :: "float_host \<Rightarrow> string \<Rightarrow> binop \<Rightarrow> int \<Rightarrow> int \<Rightarrow> sim_error + int" where
  "binary_result h dt op lhs_bits rhs_bits =
     (if dt = ''f32'' then
        (let lhs = bits_to_f32 h lhs_bits; rhs = bits_to_f32 h rhs_bits in
         case op of
           OpAdd \<Rightarrow> pack_f32 (float_add h lhs rhs)
         | OpSub \<Rightarrow> pack_f32 (float_sub h lhs rhs)
         | OpMul \<Rightarrow> pack_f32 (float_mul h lhs rhs))
      else case op of
           OpAdd \<Rightarrow> Inr ((lhs_bits + rhs_bits) AND 0xFFFFFFFF)
         | OpSub \<Rightarrow> Inr ((lhs_bits - rhs_bits) AND 0xFFFFFFFF)
         | OpMul \<Rightarrow> Inr ((lhs_bits * rhs_bits) AND 0xFFFFFFFF))"

definition mad_result :: "float_host \<Rightarrow> string \<Rightarrow> int \<Rightarrow> int \<Rightarrow> int \<Rightarrow> sim_error + int" where
  "mad_result h dt lhs_bits rhs_bits add_bits =
     (if dt = ''f32'' then
        bind_r (pack_f32 (float_mul h (bits_to_f32 h lhs_bits) (bits_to_f32 h rhs_bits)))
          (\<lambda>p. pack_f32 (float_add h (bits_to_f32 h p) (bits_to_f32 h add_bits)))
      else Inr ((lhs_bits * rhs_bits + add_bits) AND 0xFFFFFFFF))"

definition fma_result :: "float_host \<Rightarrow> string \<Rightarrow> int \<Rightarrow> int \<Rightarrow> int \<Rightarrow> sim_error + int" where
  "fma_result h dt lhs_bits rhs_bits add_bits =
     (if dt = ''f32'' then
        pack_f32 (float_add h (float_mul h (bits_to_f32 h lhs_bits) (bits_to_f32 h rhs_bits))
                    (bits_to_f32 h add_bits))
      else Inr ((lhs_bits * rhs_bits + add_bits) AND 0xFFFFFFFF))"

text \<open>All integer types compare as unsigned 32-bit values.\<close>

definition sim_compare :: "float_host \<Rightarrow> string option \<Rightarrow> string \<Rightarrow> int \<Rightarrow> int \<Rightarrow> sim_error + bool" where
  "sim_compare h cmp dt lhs_bits rhs_bits =
     (case cmp of None \<Rightarrow> Inl CompareMissing
      | Some c \<Rightarrow>
        (let d = (if dt = ''f32'' then float_cmp (bits_to_f32 h lhs_bits) (bits_to_f32 h rhs_bits)
                  else Some (sgn ((lhs_bits AND 0xFFFFFFFF) - (rhs_bits AND 0xFFFFFFFF))))
         in if c = ''eq'' then Inr (cmp_eq d)
            else if c = ''ne'' then Inr (\<not> cmp_eq d)
            else if c = ''lt'' then Inr (cmp_lt d)
            else if c = ''le'' then Inr (cmp_lt d \<or> cmp_eq d)
            else if c = ''gt'' then Inr (cmp_gt d)
            else if c = ''ge'' then Inr (cmp_gt d \<or> cmp_eq d)
            else Inl (UnsupportedSimCompare c)))"

subsection \<open>One instruction on one lane\<close>

type_synonym lane_result = "sim_error + LaneState \<times> sim_state"

definition upd_reg :: "LaneState \<Rightarrow> sim_state \<Rightarrow> int \<Rightarrow> sim_error + int \<Rightarrow> lane_result" where
  "upd_reg l s i r = bind_r r (\<lambda>v. bind_r (set_reg l i v) (\<lambda>l'. Inr (l', s)))"

definition reg2 :: "LaneState \<Rightarrow> AECInstruction \<Rightarrow> (int \<Rightarrow> int \<Rightarrow> sim_error + 'a) \<Rightarrow> sim_error + 'a" where
  "reg2 l inst f = bind_r (get_reg l (src1 inst)) (\<lambda>a. bind_r (get_reg l (src2 inst)) (f a))"

definition reg3 ::
  "LaneState \<Rightarrow> AECInstruction \<Rightarrow> (int \<Rightarrow> int \<Rightarrow> int \<Rightarrow> sim_error + 'a) \<Rightarrow> sim_error + 'a" where
  "reg3 l inst f = reg2 l inst (\<lambda>a b. bind_r (get_reg l (src3 inst)) (f a b))"

definition require_space :: "AECInstruction \<Rightarrow> sim_error + string" where
  "require_space inst = option_r NeedsMemorySpace (memory_space inst)"

definition execute_load :: "AECInstruction \<Rightarrow> LaneState \<Rightarrow> sim_state \<Rightarrow> lane_result" where
  "execute_load inst l s =
     bind_r (require_space inst) (\<lambda>space.
     bind_r (get_reg l (src1 inst)) (\<lambda>r1.
       let addr = r1 AND 0xFFFFFFFF in
     bind_r (type_size (dtype inst)) (\<lambda>sz.
     bind_r (sim_read s space addr sz) (\<lambda>blob.
     bind_r (if dtype inst = ''b64'' then
               bind_r (set_reg l (dest inst) (from_bytes_le (take 4 blob))) (\<lambda>l1.
                 set_reg l1 (dest inst + 1) (from_bytes_le (take 4 (drop 4 blob))))
             else set_reg l (dest inst) (from_bytes_le blob)) (\<lambda>l'.
     Inr (l', record_access ''LD'' space l addr sz s))))))"

definition execute_store :: "AECInstruction \<Rightarrow> LaneState \<Rightarrow> sim_state \<Rightarrow> lane_result" where
  "execute_store inst l s =
     bind_r (require_space inst) (\<lambda>space.
     if space = ''pmem'' then Inl StoreToPmem else
     bind_r (get_reg l (src1 inst)) (\<lambda>r1.
       let addr = r1 AND 0xFFFFFFFF in
     bind_r (type_size (dtype inst)) (\<lambda>sz.
     bind_r (get_reg l (src2 inst)) (\<lambda>r2.
     bind_r (sim_write s space addr (to_bytes_le sz (r2 AND 0xFFFFFFFF))) (\<lambda>s'.
     Inr (l, record_access ''ST'' space l addr sz s'))))))"

definition execute_lane :: "float_host \<Rightarrow> AECInstruction \<Rightarrow> LaneState \<Rightarrow> sim_state \<Rightarrow> lane_result" where
  "execute_lane h inst l s =
     (let op = py_upper (opcode inst); d = dest inst in
      if op = ''LOADI'' then upd_reg l s d (Inr (imm inst AND 0xFFFFFFFF))
      else if op = ''LOADI64'' then
        (if 255 \<le> d then Inl PairDestTooHigh
         else bind_r (set_reg l d (imm inst AND 0xFFFFFFFF)) (\<lambda>l1.
                upd_reg l1 s (d + 1) (Inr (drop_bit 32 (imm inst) AND 0xFFFFFFFF))))
      else if op = ''CPY'' then
        (if dtype inst \<in> {''b64'', ''f64''} \<and> (255 \<le> d \<or> 255 \<le> src1 inst) then Inl PairCopyTooHigh
         else bind_r (copy_value inst l) (\<lambda>v. bind_r (set_reg l d v) (\<lambda>l1.
                if dtype inst \<in> {''b64'', ''f64''}
                then upd_reg l1 s (d + 1) (get_reg l1 (src1 inst + 1))
                else Inr (l1, s))))
      else if op = ''LD'' then execute_load inst l s
      else if op = ''ST'' then execute_store inst l s
      else if op = ''ADD'' then upd_reg l s d (reg2 l inst (binary_result h (dtype inst) OpAdd))
      else if op = ''SUB'' then upd_reg l s d (reg2 l inst (binary_result h (dtype inst) OpSub))
      else if op = ''MUL'' then upd_reg l s d (reg2 l inst (binary_result h (dtype inst) OpMul))
      else if op = ''MAD'' then upd_reg l s d (reg3 l inst (mad_result h (dtype inst)))
      else if op = ''FMA'' then upd_reg l s d (reg3 l inst (fma_result h (dtype inst)))
      else if op = ''AND'' then upd_reg l s d (reg2 l inst (\<lambda>a b. Inr ((a AND b) AND 0xFFFFFFFF)))
      else if op = ''OR'' then upd_reg l s d (reg2 l inst (\<lambda>a b. Inr ((a OR b) AND 0xFFFFFFFF)))
      else if op = ''XOR'' then upd_reg l s d (reg2 l inst (\<lambda>a b. Inr ((a XOR b) AND 0xFFFFFFFF)))
      else if op = ''SHL'' then
        upd_reg l s d (reg2 l inst (\<lambda>a b. Inr (push_bit (nat (b AND 31)) a AND 0xFFFFFFFF)))
      else if op = ''SHR'' then
        upd_reg l s d (reg2 l inst (\<lambda>a b. Inr (drop_bit (nat (b AND 31)) a AND 0xFFFFFFFF)))
      else if op = ''CMPP'' then
        bind_r (reg2 l inst (sim_compare h (compare inst) (dtype inst))) (\<lambda>v.
          bind_r (set_pred l d v) (\<lambda>l'. Inr (l', s)))
      else Inl (UnsupportedSimOpcode (opcode inst)))"

definition guard_passes :: "AECInstruction \<Rightarrow> LaneState \<Rightarrow> sim_error + bool" where
  "guard_passes inst l = (case predicate inst of
     None \<Rightarrow> Inr True
   | Some p \<Rightarrow> bind_r (get_pred l p) (\<lambda>v. Inr (if predicate_negated inst then \<not> v else v)))"

subsection \<open>A warp in lock step\<close>

text \<open>
  The lanes of a warp execute an instruction one after the other on the shared memory. An error
  carries the simulator state at the moment of the exception.
\<close>

fun exec_lanes :: "float_host \<Rightarrow> AECInstruction \<Rightarrow> LaneState list \<Rightarrow> sim_state
    \<Rightarrow> (sim_error \<times> sim_state) + LaneState list \<times> sim_state" where
  "exec_lanes h inst [] s = Inr ([], s)"
| "exec_lanes h inst (l # ls) s =
     (case guard_passes inst l of
        Inl e \<Rightarrow> Inl (e, s)
      | Inr go \<Rightarrow>
          (case (if go then execute_lane h inst l s else Inr (l, s)) of
             Inl e \<Rightarrow> Inl (e, s)
           | Inr (l', s') \<Rightarrow>
               (case exec_lanes h inst ls s' of
                  Inl e \<Rightarrow> Inl e
                | Inr (ls', s'') \<Rightarrow> Inr (l' # ls', s''))))"

text \<open>The next program counter of a \<^verbatim>\<open>BRX\<close>, which the whole warp must agree on.\<close>

definition branchx_next_pc :: "AECInstruction \<Rightarrow> LaneState list \<Rightarrow> int \<Rightarrow> sim_state
    \<Rightarrow> (sim_error \<times> sim_state) + int \<times> sim_state" where
  "branchx_next_pc inst lanes pc s = (case predicate inst of
     None \<Rightarrow> Inl (BrxNeedsPredicate, s)
   | Some p \<Rightarrow>
       (case map_r (\<lambda>l. get_pred l p) lanes of
          Inl e \<Rightarrow> Inl (e, s)
        | Inr raw \<Rightarrow>
            (let decisions = map (\<lambda>d. if predicate_negated inst then \<not> d else d) raw;
                 all_taken = list_all id decisions;
                 uniform = (all_taken \<or> \<not> list_ex id decisions);
                 s1 = s\<lparr>brx_execution_count := brx_execution_count s + 1\<rparr>
             in case lanes of
                  [] \<Rightarrow> Inl (PyIndexError, s1)
                | l0 # _ \<Rightarrow>
                    (let s2 = s1\<lparr>branch_trace := branch_trace s1 @ [\<lparr>bt_pc = pc, bt_target = imm inst,
                              bt_predicate = p, bt_block = block l0, bt_warp_start = thread l0,
                              bt_lane_count = int (length lanes), bt_decisions = decisions,
                              bt_uniform = uniform, bt_taken = all_taken\<rparr>]\<rparr>
                     in if \<not> uniform
                        then Inl (NonUniformBrx pc,
                                  s2\<lparr>non_uniform_branch_failures := non_uniform_branch_failures s2 + 1\<rparr>)
                        else Inr (if all_taken then imm inst else pc + 1, s2)))))"

text \<open>
  The warp loop. The fuel is \<^verbatim>\<open>max_steps - steps\<close>, so running out of it is the source's own
  step limit and the function is total without any further bound.
\<close>

fun run_warp_loop :: "float_host \<Rightarrow> AECInstruction list \<Rightarrow> nat \<Rightarrow> int \<Rightarrow> LaneState list \<Rightarrow> sim_state
    \<Rightarrow> (sim_error \<times> sim_state) + LaneState list \<times> sim_state" where
  "run_warp_loop h prog fuel pc lanes s =
     (if \<not> (0 \<le> pc \<and> pc < int (length prog)) then Inl (PcOutOfRange pc, s)
      else case fuel of
        0 \<Rightarrow> Inl (StepLimitExceeded, s)
      | Suc fuel' \<Rightarrow>
          (let s1 = s\<lparr>dynamic_instruction_count := dynamic_instruction_count s + 1\<rparr>;
               inst = prog ! nat pc; op = py_upper (opcode inst) in
           if op = ''HALT'' then
             (if predicate inst \<noteq> None then Inl (HaltGuarded, s1) else Inr (lanes, s1))
           else if op = ''BR'' then
             (if predicate inst \<noteq> None then Inl (BrGuarded, s1)
              else run_warp_loop h prog fuel' (imm inst) lanes s1)
           else if op = ''BRX'' then
             (case branchx_next_pc inst lanes pc s1 of
                Inl e \<Rightarrow> Inl e
              | Inr (pc', s2) \<Rightarrow> run_warp_loop h prog fuel' pc' lanes s2)
           else
             (case exec_lanes h inst lanes s1 of
                Inl e \<Rightarrow> Inl e
              | Inr (lanes', s2) \<Rightarrow> run_warp_loop h prog fuel' (pc + 1) lanes' s2)))"

declare run_warp_loop.simps [simp del]

definition run_warp :: "sim_config \<Rightarrow> LaneState list \<Rightarrow> sim_state
    \<Rightarrow> (sim_error \<times> sim_state) + LaneState list \<times> sim_state" where
  "run_warp c lanes s = run_warp_loop (host c) (instructions c) (nat (max_steps c)) 0 lanes s"

subsection \<open>The grid\<close>

text \<open>\<^verbatim>\<open>range(0, stop, step)\<close> for \<open>step\<close> not zero.\<close>

definition py_range3 :: "int \<Rightarrow> int \<Rightarrow> int list" where
  "py_range3 stop step =
     (if 0 < step then map (\<lambda>k. int k * step) [0..<nat ((stop + step - 1) div step)]
      else map (\<lambda>k. int k * step) [0..<nat ((- stop - step - 1) div (- step))])"

definition warp_lanes :: "sim_config \<Rightarrow> int \<Rightarrow> int \<Rightarrow> LaneState list" where
  "warp_lanes c b warp_start =
     (let lane_count = min (cfg_warp_size c) (dim_count (cfg_block_dim c) - warp_start)
      in map (\<lambda>lane. new_lane b (warp_start + int lane) (cfg_block_dim c) (cfg_grid_dim c)
                       (cfg_warp_size c)) [0..<nat lane_count])"

definition sim_run :: "sim_config \<Rightarrow> sim_state \<Rightarrow> (sim_error \<times> sim_state) + sim_state" where
  "sim_run c s =
     (let blocks = map int [0..<nat (dim_count (cfg_grid_dim c))] in
      fold_r (\<lambda>b s.
          if cfg_warp_size c = 0 then Inl (PyValueError, s)
          else fold_r (\<lambda>w s. bind_r (run_warp c (warp_lanes c b w) s) (\<lambda>(_, s'). Inr s'))
                 (py_range3 (dim_count (cfg_block_dim c)) (cfg_warp_size c)) s)
        blocks s)"

end
