(* ===== verification/Sim_Inv.thy ===== *)
theory Sim_Inv
  imports Sim
begin

unbundle bit_operations_syntax

text \<open>
  What the simulator of \<^verbatim>\<open>src/src/aec_compiler/sim.py\<close> guarantees of every run, an exception
  included: the invariant of a lane (register file and predicate file of fixed length, registers
  of 32 bits), the invariant of the simulator's state (the access log stays inside global memory,
  the branch counters agree with the branch trace), and that both are kept by every instruction,
  every warp and the whole grid. The last part bounds the number of instructions executed.
\<close>

subsection \<open>The invariant of a lane\<close>

definition word_val :: "int \<Rightarrow> bool" where
  "word_val v \<longleftrightarrow> 0 \<le> v \<and> v < 2 ^ 32"

fun dim_ok :: "dim3 \<Rightarrow> bool" where
  "dim_ok (x, y, z) \<longleftrightarrow> 0 < x \<and> 0 < y \<and> 0 < z \<and> x < 2 ^ 32 \<and> y < 2 ^ 32 \<and> z < 2 ^ 32"

definition lane_ok :: "LaneState \<Rightarrow> bool" where
  "lane_ok l \<longleftrightarrow> length (registers l) = 256 \<and> length (predicates l) = 8 \<and>
     list_all word_val (registers l) \<and> dim_ok (block_dim l) \<and> dim_ok (grid_dim l) \<and>
     0 < warp_size l \<and> 0 \<le> thread l \<and> thread l < dim_count (block_dim l) \<and>
     0 \<le> block l \<and> block l < dim_count (grid_dim l)"

lemma word_val_and [simp]: "word_val (x AND 0xFFFFFFFF)"
  using and_mask32_range by (simp add: word_val_def)

lemma option_r_Inr [simp]: "option_r e x = Inr a \<longleftrightarrow> x = Some a"
  by (cases x) (simp_all add: option_r_def)

lemma pack_f32_word: "pack_f32 v = Inr b \<Longrightarrow> word_val b"
  using f32_to_bits_range by (simp add: pack_f32_def word_val_def)

lemma alu_words:
  "binary_result h dt op a b = Inr v \<Longrightarrow> word_val v"
  "mad_result h dt a b c = Inr v \<Longrightarrow> word_val v"
  "fma_result h dt a b c = Inr v \<Longrightarrow> word_val v"
  by (auto simp: mad_result_def fma_result_def Let_def pack_f32_word split: if_splits binop.splits)

lemma get_reg_word: "lane_ok l \<Longrightarrow> get_reg l i = Inr v \<Longrightarrow> word_val v"
  by (auto simp: get_reg_def py_get_def lane_ok_def list_all_length dest: py_index_bound)

lemma set_reg_ok: "lane_ok l \<Longrightarrow> word_val v \<Longrightarrow> set_reg l i v = Inr l' \<Longrightarrow> lane_ok l'"
  by (auto simp: set_reg_def py_set_def lane_ok_def list_all_iff
      dest!: set_update_subset_insert [THEN subsetD])

lemma from_bytes_word: "length bs \<le> 4 \<Longrightarrow> word_val (from_bytes_le bs)"
proof -
  assume "length bs \<le> 4"
  then have "(256::int) ^ length bs \<le> 256 ^ 4" by (intro power_increasing) auto
  then show ?thesis
    using from_bytes_le_bound [of bs] from_bytes_le_nonneg [of bs] by (simp add: word_val_def)
qed

lemma set_pred_ok: "lane_ok l \<Longrightarrow> set_pred l i v = Inr l' \<Longrightarrow> lane_ok l'"
  by (auto simp: set_pred_def py_set_def lane_ok_def)

lemma coord_bounds:
  fixes t x y z :: int
  assumes "0 \<le> t" "t < x * y * z" "0 < x" "0 < y" "0 < z"
  shows "0 \<le> t mod x \<and> t mod x < x" "0 \<le> t div x mod y \<and> t div x mod y < y"
    "0 \<le> t div (x * y) \<and> t div (x * y) < z"
proof -
  define k where "k = x * y"
  have k: "0 < k" "t < z * k" using assms by (simp_all add: k_def mult.commute mult.left_commute)
  have "t div k * k \<le> t" using k by (simp add: minus_mod_eq_div_mult [symmetric])
  then have "t div k * k < z * k" using k(2) by (rule le_less_trans)
  then have "t div k < z" using k(1) by (simp only: mult_less_cancel_right_pos)
  then show "0 \<le> t div (x * y) \<and> t div (x * y) < z"
    using assms(1) k(1) by (simp add: k_def pos_imp_zdiv_nonneg_iff)
qed (use assms in auto)

lemma special_value_word:
  assumes ok: "lane_ok l" and v: "special_value k l = Inr v"
  shows "word_val v"
proof -
  obtain x y z where b: "block_dim l = (x, y, z)" by (cases "block_dim l")
  obtain x' y' z' where g: "grid_dim l = (x', y', z')" by (cases "grid_dim l")
  have d: "0 < x" "0 < y" "0 < z" "x < 2 ^ 32" "y < 2 ^ 32" "z < 2 ^ 32" "0 < warp_size l"
     "0 < x'" "0 < y'" "0 < z'" "x' < 2 ^ 32" "y' < 2 ^ 32" "z' < 2 ^ 32"
     "0 \<le> thread l" "thread l < x * y * z" "0 \<le> block l" "block l < x' * y' * z'"
    using ok by (simp_all add: lane_ok_def b g)
  note t = coord_bounds [OF d(14,15,1-3)] and c = coord_bounds [OF d(16,17,8-10)]
  have wv: "word_val a" if "0 \<le> a \<and> a < n" "n < 2 ^ 32" for a n
    using that by (simp add: word_val_def)
  have tx: "0 \<le> thread_x l" "thread_x l < x" using t by (simp_all add: thread_x_def b)
  have "thread_x l mod warp_size l \<le> thread_x l"
    using tx d(7) by (simp add: zmod_le_nonneg_dividend)
  moreover have "thread_x l div warp_size l \<le> thread_x l"
    using zdiv_mono2 [of "thread_x l" 1 "warp_size l"] tx d(7) by simp
  ultimately have "word_val (thread_x l mod warp_size l)" "word_val (thread_x l div warp_size l)"
    using tx d by (simp_all add: word_val_def pos_imp_zdiv_nonneg_iff)
  moreover have "word_val (thread_x l)" "word_val (thread_y l)" "word_val (thread_z l)"
      "word_val (block_x l)" "word_val (block_y l)" "word_val (block_z l)"
    using wv [OF t(1) d(4)] wv [OF t(2) d(5)] wv [OF t(3) d(6)]
      wv [OF c(1) d(11)] wv [OF c(2) d(12)] wv [OF c(3) d(13)]
    by (simp_all add: thread_x_def thread_y_def thread_z_def block_x_def block_y_def block_z_def b g)
  moreover have "word_val x" "word_val y" "word_val z" "word_val x'" "word_val y'" "word_val z'"
    using d by (simp_all add: word_val_def)
  ultimately show ?thesis
    using v by (simp add: special_value_def b g split: if_splits)
qed

lemma copy_value_word: "lane_ok l \<Longrightarrow> copy_value inst l = Inr v \<Longrightarrow> word_val v"
  by (auto simp: copy_value_def special_value_word split: if_splits)

lemma upd_reg_ok:
  assumes "upd_reg l s i r = Inr (l', s')" "lane_ok l" "\<And>v. r = Inr v \<Longrightarrow> word_val v"
  shows "lane_ok l' \<and> s' = s"
  using assms by (auto simp: upd_reg_def intro: set_reg_ok)

text \<open>What no instruction changes: parameter memory, the size of global memory, the counters.\<close>

definition same_frame :: "sim_state \<Rightarrow> sim_state \<Rightarrow> bool" where
  "same_frame s t \<longleftrightarrow> pmem t = pmem s \<and> length (gmem t) = length (gmem s)"

definition access_ok :: "nat \<Rightarrow> MemoryAccess \<Rightarrow> bool" where
  "access_ok n a \<longleftrightarrow> 0 \<le> ma_address a \<and> ma_address a + ma_size a \<le> int n
     \<and> (ma_size a = 4 \<or> ma_size a = 8) \<and> ma_space a = ''gmem''"

definition log_ok :: "sim_state \<Rightarrow> bool" where
  "log_ok s \<longleftrightarrow> list_all (access_ok (length (gmem s))) (accesses s)"

lemma type_size_cases: "type_size dt = Inr n \<Longrightarrow> n = 4 \<or> n = 8"
  by (auto simp: type_size_def split: if_splits)

lemma length_slice:
  "0 \<le> a \<Longrightarrow> a + int n \<le> int (length m) \<Longrightarrow> length (take n (drop (nat a) m)) = n"
  by (simp add: nat_le_iff min_def) arith

lemma length_splice:
  "0 \<le> a \<Longrightarrow> a + int (length bs) \<le> int (length m) \<Longrightarrow> length (splice m (nat a) bs) = length m"
  unfolding splice_def by (simp add: min_def) arith

lemma execute_load_ok:
  assumes "execute_load inst l s = Inr (l', s')" "lane_ok l" "log_ok s"
  shows "lane_ok l' \<and> same_frame s s' \<and> log_ok s'"
proof -
  from assms(1) obtain space r1 sz blob where
    rd: "sim_read s space (r1 AND 0xFFFFFFFF) sz = Inr blob" and ty: "type_size (dtype inst) = Inr sz"
    and lane: "(if dtype inst = ''b64'' then
               bind_r (set_reg l (dest inst) (from_bytes_le (take 4 blob))) (\<lambda>l1.
                 set_reg l1 (dest inst + 1) (from_bytes_le (take 4 (drop 4 blob))))
             else set_reg l (dest inst) (from_bytes_le blob)) = Inr l'"
    and s': "s' = record_access ''LD'' space l (r1 AND 0xFFFFFFFF) sz s"
    by (auto simp: execute_load_def Let_def)
  have len: "length blob = sz" and bnd: "space = ''gmem'' \<Longrightarrow> (r1 AND 0xFFFFFFFF) + int sz \<le> int (length (gmem s))"
    using rd and_mask32_range [of r1]
    by (auto simp: sim_read_def sim_memory_def length_slice simp del: length_take split: if_splits)
  have "dtype inst \<noteq> ''b64'' \<Longrightarrow> sz = 4" using ty by (auto simp: type_size_def split: if_splits)
  then have "lane_ok l'"
    using lane assms(2) len
    by (cases "dtype inst = ''b64''") (auto intro!: from_bytes_word elim!: set_reg_ok [rotated 2])
  moreover have "log_ok s'"
    using assms(3) bnd and_mask32_range [of r1] type_size_cases [OF ty]
    by (auto simp: s' record_access_def log_ok_def access_ok_def)
  ultimately show ?thesis by (simp add: s' record_access_def same_frame_def)
qed

lemma execute_store_ok:
  assumes "execute_store inst l s = Inr (l', s')" "log_ok s"
  shows "l' = l \<and> same_frame s s' \<and> log_ok s'"
proof -
  from assms(1) obtain space r1 r2 sz t where sp: "space \<noteq> ''pmem''" and
    wr: "sim_write s space (r1 AND 0xFFFFFFFF) (to_bytes_le sz (r2 AND 0xFFFFFFFF)) = Inr t"
    and ty: "type_size (dtype inst) = Inr sz" and l': "l' = l"
    and s': "s' = record_access ''ST'' space l (r1 AND 0xFFFFFFFF) sz t"
    by (auto simp: execute_store_def Let_def split: if_splits)
  have t: "pmem t = pmem s" "length (gmem t) = length (gmem s)" "accesses t = accesses s"
    and bnd: "(r1 AND 0xFFFFFFFF) + int sz \<le> int (length (gmem s))"
    using wr sp and_mask32_range [of r1]
    by (auto simp: sim_write_def sim_memory_def length_splice Let_def split: if_splits)
  show ?thesis
    using t bnd l' assms(2) and_mask32_range [of r1] type_size_cases [OF ty]
    by (auto simp: s' record_access_def log_ok_def access_ok_def same_frame_def)
qed

lemma execute_lane_ok:
  assumes ex: "execute_lane h inst l s = Inr (l', s')" and "lane_ok l" "log_ok s"
  shows "lane_ok l' \<and> same_frame s s' \<and> log_ok s'"
proof -
  have upd: "upd_reg l1 s i r = Inr (l', s') \<Longrightarrow> lane_ok l1 \<Longrightarrow> (\<And>v. r = Inr v \<Longrightarrow> word_val v) \<Longrightarrow> ?thesis"
    for l1 i r using upd_reg_ok assms(3) by (fastforce simp: same_frame_def)
  have upd2: "upd_reg l s i (reg2 l inst f) = Inr (l', s') \<Longrightarrow> (\<And>a b v. f a b = Inr v \<Longrightarrow> word_val v) \<Longrightarrow> ?thesis"
    for i f by (rule upd) (auto simp: reg2_def assms(2))
  have upd3: "upd_reg l s i (reg3 l inst f) = Inr (l', s') \<Longrightarrow> (\<And>a b c v. f a b c = Inr v \<Longrightarrow> word_val v) \<Longrightarrow> ?thesis"
    for i f by (rule upd) (auto simp: reg3_def reg2_def assms(2))
  have wide: ?thesis if "bind_r (set_reg l i a) (\<lambda>l1. upd_reg l1 s j (r l1)) = Inr (l', s')"
      and a: "word_val a" and r: "\<And>l1 v. lane_ok l1 \<Longrightarrow> r l1 = Inr v \<Longrightarrow> word_val v" for i a j r
  proof -
    from that(1) obtain l1 where l1: "set_reg l i a = Inr l1" "upd_reg l1 s j (r l1) = Inr (l', s')"
      by auto
    have "lane_ok l1" using set_reg_ok [OF assms(2) a l1(1)] .
    from upd [OF l1(2) this r [OF this]] show ?thesis .
  qed
  have copy: ?thesis if "bind_r (copy_value inst l) (\<lambda>v. bind_r (set_reg l (dest inst) v) (\<lambda>l1.
                if wide then upd_reg l1 s (dest inst + 1) (get_reg l1 (src1 inst + 1))
                else Inr (l1, s))) = Inr (l', s')" for wide
  proof (cases wide)
    case True
    with that obtain v where v: "copy_value inst l = Inr v" "bind_r (set_reg l (dest inst) v) (\<lambda>l1.
        upd_reg l1 s (dest inst + 1) (get_reg l1 (src1 inst + 1))) = Inr (l', s')" by auto
    show ?thesis by (rule wide [OF v(2) copy_value_word [OF assms(2) v(1)] get_reg_word])
  next
    case False
    with that obtain v where v: "copy_value inst l = Inr v" "set_reg l (dest inst) v = Inr l'" "s' = s"
      by auto
    from set_reg_ok [OF assms(2) copy_value_word [OF assms(2) v(1)] v(2)] v(3) assms(3)
    show ?thesis by (simp add: same_frame_def)
  qed
  have cmpp: "bind_r r (\<lambda>v. bind_r (set_pred l i v) (\<lambda>l'. Inr (l', s))) = Inr (l', s') \<Longrightarrow> ?thesis" for r i
    using set_pred_ok [OF assms(2)] assms(3) by (auto simp: same_frame_def)
  have st: "execute_store inst l s = Inr (l', s') \<Longrightarrow> ?thesis"
    using execute_store_ok assms(2,3) by blast
  have ld: "execute_load inst l s = Inr (l', s') \<Longrightarrow> ?thesis"
    using execute_load_ok assms(2,3) by blast
  have and2: "\<And>f a b v. Inr (f a b AND 0xFFFFFFFF) = Inr v \<Longrightarrow> word_val v" by auto
  show ?thesis
    using ex unfolding execute_lane_def Let_def
    apply (simp only: split: if_split_asm)
                    apply (erule upd, rule assms(2), force)
                   apply simp
                  apply (erule wide, simp, force)
                 apply simp
                apply (erule copy)
                apply (erule ld)
                apply (erule st)
              apply (erule upd2, erule alu_words)+
            apply (erule upd3, erule alu_words)+
            apply (erule upd2, force)+
    apply (erule cmpp)
    apply simp
    done
qed

subsection \<open>The invariant of a run\<close>

text \<open>The counters agree with the branch trace.\<close>

definition trace_ok :: "sim_state \<Rightarrow> bool" where
  "trace_ok s \<longleftrightarrow> brx_execution_count s = int (length (branch_trace s)) \<and>
     non_uniform_branch_failures s = int (length (filter (\<lambda>b. \<not> bt_uniform b) (branch_trace s)))"

definition same_counts :: "sim_state \<Rightarrow> sim_state \<Rightarrow> bool" where
  "same_counts s t \<longleftrightarrow> dynamic_instruction_count t = dynamic_instruction_count s
     \<and> brx_execution_count t = brx_execution_count s \<and> branch_trace t = branch_trace s
     \<and> non_uniform_branch_failures t = non_uniform_branch_failures s"

definition sim_inv :: "sim_state \<Rightarrow> bool" where
  "sim_inv s \<longleftrightarrow> log_ok s \<and> trace_ok s"

lemma same_frame_refl [simp]: "same_frame s s" by (simp add: same_frame_def)

lemma same_counts_refl [simp]: "same_counts s s" by (simp add: same_counts_def)

lemma same_frame_trans: "same_frame s t \<Longrightarrow> same_frame t u \<Longrightarrow> same_frame s u"
  by (simp add: same_frame_def)

lemma record_access_counts [simp]: "same_counts s (record_access op sp l a n t) = same_counts s t"
  by (simp add: record_access_def same_counts_def)

lemma execute_lane_counts:
  assumes "execute_lane h inst l s = Inr (l', s')"
  shows "same_counts s s'"
proof -
  have ld: "execute_load inst l s = Inr (l', s') \<Longrightarrow> ?thesis"
    by (auto simp: execute_load_def Let_def split: if_splits)
  have st: "execute_store inst l s = Inr (l', s') \<Longrightarrow> ?thesis"
    by (auto simp: execute_store_def sim_write_def Let_def same_counts_def record_access_def split: if_splits)
  have upd: "upd_reg l1 s i x = Inr (l', s') \<Longrightarrow> ?thesis" for l1 i x
    by (auto simp: upd_reg_def)
  show ?thesis
    using assms unfolding execute_lane_def Let_def
    by (simp only: split: if_split_asm) (auto dest: upd elim: ld st split: if_splits)
qed

lemma exec_lanes_ok:
  assumes "list_all lane_ok lanes" "log_ok s"
  shows "case exec_lanes h inst lanes s of
      Inl (e, s') \<Rightarrow> same_frame s s' \<and> log_ok s' \<and> same_counts s s'
    | Inr (lanes', s') \<Rightarrow> list_all lane_ok lanes' \<and> length lanes' = length lanes
        \<and> same_frame s s' \<and> log_ok s' \<and> same_counts s s'"
  using assms
proof (induction lanes arbitrary: s)
  case Nil
  then show ?case by (simp add: same_counts_def)
next
  case (Cons l ls)
  show ?case
  proof (cases "guard_passes inst l")
    case (Inl e)
    with Cons show ?thesis by (simp add: same_counts_def)
  next
    case go: (Inr go)
    show ?thesis
    proof (cases "if go then execute_lane h inst l s else Inr (l, s)")
      case (Inl e)
      with Cons go show ?thesis by (simp add: same_counts_def)
    next
      case (Inr r)
      obtain l' s1 where r: "r = (l', s1)" by (cases r)
      have 1: "lane_ok l'" "same_frame s s1" "log_ok s1" "same_counts s s1"
        using Inr Cons.prems execute_lane_ok [of h inst l s l' s1] execute_lane_counts [of h inst l s l' s1]
        by (auto simp: r same_counts_def split: if_splits)
      with Cons.IH [of s1] Cons.prems show ?thesis
        by (simp only: exec_lanes.simps go Inr r sum.case prod.case)
          (auto simp: same_frame_def same_counts_def split: sum.splits)
    qed
  qed
qed

lemma branchx_ok:
  assumes "sim_inv s" "lanes \<noteq> []"
  shows "case branchx_next_pc inst lanes pc s of
      Inl (e, s') \<Rightarrow> same_frame s s' \<and> sim_inv s' \<and> dynamic_instruction_count s' = dynamic_instruction_count s
    | Inr (pc', s') \<Rightarrow> same_frame s s' \<and> sim_inv s' \<and> (pc' = imm inst \<or> pc' = pc + 1)
        \<and> non_uniform_branch_failures s' = non_uniform_branch_failures s
        \<and> dynamic_instruction_count s' = dynamic_instruction_count s"
  using assms
  by (auto simp: branchx_next_pc_def Let_def sim_inv_def log_ok_def trace_ok_def same_frame_def
      split: option.splits sum.splits list.splits)

text \<open>Every outcome of a warp, an exception included.\<close>

definition outcome :: "(sim_error \<times> sim_state) + 'a \<times> sim_state \<Rightarrow> sim_state" where
  "outcome r = (case r of Inl (e, s) \<Rightarrow> s | Inr (a, s) \<Rightarrow> s)"

definition warp_post :: "nat \<Rightarrow> sim_state \<Rightarrow> (sim_error \<times> sim_state) + 'a \<times> sim_state \<Rightarrow> bool" where
  "warp_post fuel s r \<longleftrightarrow> (let t = outcome r in
     same_frame s t \<and> sim_inv t \<and>
     dynamic_instruction_count s \<le> dynamic_instruction_count t \<and>
     dynamic_instruction_count t \<le> dynamic_instruction_count s + int fuel \<and>
     (\<forall>a s'. r = Inr (a, s') \<longrightarrow> non_uniform_branch_failures s' = non_uniform_branch_failures s))"

lemma warp_post_Inl: "warp_post fuel s (Inl (e, t)) \<longleftrightarrow> same_frame s t \<and> sim_inv t \<and>
     dynamic_instruction_count s \<le> dynamic_instruction_count t \<and>
     dynamic_instruction_count t \<le> dynamic_instruction_count s + int fuel"
  by (simp add: warp_post_def outcome_def)

lemma warp_post_Inr: "warp_post fuel s (Inr (a, t)) \<longleftrightarrow> same_frame s t \<and> sim_inv t \<and>
     dynamic_instruction_count s \<le> dynamic_instruction_count t \<and>
     dynamic_instruction_count t \<le> dynamic_instruction_count s + int fuel \<and>
     non_uniform_branch_failures t = non_uniform_branch_failures s"
  by (simp add: warp_post_def outcome_def)

lemma warp_post_step:
  assumes "warp_post fuel t r" "same_frame s t"
    "dynamic_instruction_count t = dynamic_instruction_count s + 1"
    "non_uniform_branch_failures t = non_uniform_branch_failures s"
  shows "warp_post (Suc fuel) s r"
  using assms by (auto simp: warp_post_def Let_def dest: same_frame_trans)

lemma run_warp_loop_ok:
  assumes "list_all lane_ok lanes" "lanes \<noteq> []" "sim_inv s"
  shows "warp_post fuel s (run_warp_loop h prog fuel pc lanes s)"
  using assms
proof (induction fuel arbitrary: pc lanes s)
  case 0
  then show ?case
    by (subst run_warp_loop.simps) (simp add: warp_post_Inl)
next
  case (Suc fuel)
  define s1 where "s1 = s\<lparr>dynamic_instruction_count := dynamic_instruction_count s + 1\<rparr>"
  have s1: "same_frame s s1" "sim_inv s1"
      "dynamic_instruction_count s1 = dynamic_instruction_count s + 1"
      "non_uniform_branch_failures s1 = non_uniform_branch_failures s"
    using Suc.prems(3) by (simp_all add: s1_def same_frame_def sim_inv_def log_ok_def trace_ok_def)
  let ?i = "prog ! nat pc"
  let ?op = "py_upper (opcode ?i)"
  note unfold = run_warp_loop.simps [of h prog "Suc fuel" pc lanes s, folded s1_def]
  show ?case
  proof (cases "0 \<le> pc \<and> pc < int (length prog)")
    case False
    then have "run_warp_loop h prog (Suc fuel) pc lanes s = Inl (PcOutOfRange pc, s)"
      by (subst run_warp_loop.simps) simp
    with Suc.prems show ?thesis by (simp add: warp_post_Inl)
  next
    case pc: True
    consider (stop) e where "run_warp_loop h prog (Suc fuel) pc lanes s = Inl (e, s1)"
      | (halt) "run_warp_loop h prog (Suc fuel) pc lanes s = Inr (lanes, s1)"
      | (br) pc' where "run_warp_loop h prog (Suc fuel) pc lanes s = run_warp_loop h prog fuel pc' lanes s1"
      | (brx) "run_warp_loop h prog (Suc fuel) pc lanes s =
          (case branchx_next_pc ?i lanes pc s1 of Inl e \<Rightarrow> Inl e
           | Inr (pc', s2) \<Rightarrow> run_warp_loop h prog fuel pc' lanes s2)"
      | (seq) "run_warp_loop h prog (Suc fuel) pc lanes s =
          (case exec_lanes h ?i lanes s1 of Inl e \<Rightarrow> Inl e
           | Inr (lanes', s2) \<Rightarrow> run_warp_loop h prog fuel (pc + 1) lanes' s2)"
      using pc unfold by (simp add: s1_def Let_def split: if_splits)
    then show ?thesis
    proof cases
      case stop
      with s1 show ?thesis by (simp add: warp_post_Inl)
    next
      case halt
      with s1 show ?thesis by (simp add: warp_post_Inr)
    next
      case br
      with Suc.IH [of lanes s1] Suc.prems s1 show ?thesis
        by (auto intro: warp_post_step)
    next
      case brx
      show ?thesis
      proof (cases "branchx_next_pc ?i lanes pc s1")
        case (Inl e)
        with brx branchx_ok [OF s1(2) Suc.prems(2), of ?i pc] s1 show ?thesis
          by (cases e) (auto simp: warp_post_Inl intro: same_frame_trans)
      next
        case (Inr r)
        with brx branchx_ok [OF s1(2) Suc.prems(2), of ?i pc] s1 Suc.IH Suc.prems show ?thesis
          by (cases r) (auto intro!: warp_post_step intro: same_frame_trans)
      qed
    next
      case seq
      have l1: "log_ok s1" using s1 by (simp add: sim_inv_def)
      show ?thesis
      proof (cases "exec_lanes h ?i lanes s1")
        case (Inl e)
        with seq exec_lanes_ok [OF Suc.prems(1) l1, of h ?i] s1 show ?thesis
          by (cases e) (auto simp: warp_post_Inl same_counts_def sim_inv_def trace_ok_def intro: same_frame_trans)
      next
        case (Inr r)
        obtain lanes' s2 where r: "r = (lanes', s2)" by (cases r)
        with Inr exec_lanes_ok [OF Suc.prems(1) l1, of h ?i] s1
        have 2: "list_all lane_ok lanes'" "length lanes' = length lanes" "same_frame s s2" "sim_inv s2"
            "dynamic_instruction_count s2 = dynamic_instruction_count s + 1"
            "non_uniform_branch_failures s2 = non_uniform_branch_failures s"
          by (auto simp: same_counts_def sim_inv_def trace_ok_def intro: same_frame_trans)
        moreover have "lanes' \<noteq> []" using 2(2) Suc.prems(2) by auto
        ultimately show ?thesis
          using seq Inr r Suc.IH [of lanes' s2] by (auto intro: warp_post_step)
      qed
    qed
  qed
qed

lemma warp_lanes_ok:
  assumes "dim_ok (cfg_block_dim c)" "dim_ok (cfg_grid_dim c)" "0 < cfg_warp_size c"
    "0 \<le> b" "b < dim_count (cfg_grid_dim c)" "0 \<le> w" "w < dim_count (cfg_block_dim c)"
  shows "list_all lane_ok (warp_lanes c b w)" "warp_lanes c b w \<noteq> []"
  using assms
  by (auto simp: warp_lanes_def Let_def list_all_iff lane_ok_def new_lane_def word_val_def nat_less_iff)

text \<open>A warp step bound for the whole grid: warps times the step limit.\<close>

lemma py_range3_bounds: "0 < step \<Longrightarrow> w \<in> set (py_range3 stop step) \<Longrightarrow> 0 \<le> w \<and> w < stop"
proof -
  assume st: "0 < step" and "w \<in> set (py_range3 stop step)"
  then obtain k where k: "w = int k * step" "int k < (stop + step - 1) div step"
    by (auto simp: py_range3_def zless_nat_eq_int_zless)
  have "(int k + 1) * step \<le> (stop + step - 1) div step * step"
    using k(2) st by (intro mult_right_mono) auto
  also have "\<dots> \<le> stop + step - 1"
    using pos_mod_sign [OF st, of "stop + step - 1"]
    by (simp add: minus_mod_eq_div_mult [symmetric])
  finally show "0 \<le> w \<and> w < stop" using k(1) st by (simp add: algebra_simps)
qed


definition config_ok :: "sim_config \<Rightarrow> bool" where
  "config_ok c \<longleftrightarrow> dim_ok (cfg_block_dim c) \<and> dim_ok (cfg_grid_dim c) \<and> 0 < cfg_warp_size c"

definition warp_starts :: "sim_config \<Rightarrow> int list" where
  "warp_starts c = py_range3 (dim_count (cfg_block_dim c)) (cfg_warp_size c)"

lemma run_warp_ok:
  assumes "config_ok c" "sim_inv s" "b \<in> set (map int [0..<nat (dim_count (cfg_grid_dim c))])"
    "w \<in> set (warp_starts c)"
  shows "warp_post (nat (max_steps c)) s (run_warp c (warp_lanes c b w) s)"
  using assms warp_lanes_ok [of c b w] py_range3_bounds [of "cfg_warp_size c" w]
  unfolding run_warp_def
  by (intro run_warp_loop_ok) (auto simp: config_ok_def warp_starts_def zless_nat_eq_int_zless)

text \<open>One warp of the grid, its final lanes dropped.\<close>

definition run_warp_at :: "sim_config \<Rightarrow> int \<Rightarrow> int \<Rightarrow> sim_state \<Rightarrow> (sim_error \<times> sim_state) + sim_state" where
  "run_warp_at c b w s = bind_r (run_warp c (warp_lanes c b w) s) (\<lambda>(_, s'). Inr s')"

lemma sim_run_alt:
  "config_ok c \<Longrightarrow> sim_run c s =
     fold_r (\<lambda>b. fold_r (run_warp_at c b) (warp_starts c)) (map int [0..<nat (dim_count (cfg_grid_dim c))]) s"
  by (simp add: sim_run_def config_ok_def warp_starts_def run_warp_at_def [abs_def] Let_def)

definition run_inv :: "sim_state \<Rightarrow> sim_state \<Rightarrow> bool" where
  "run_inv s t \<longleftrightarrow> same_frame s t \<and> sim_inv t"

lemma run_warp_at_ok:
  assumes "config_ok c" "run_inv s t" "non_uniform_branch_failures t = n"
    "b \<in> set (map int [0..<nat (dim_count (cfg_grid_dim c))])" "w \<in> set (warp_starts c)"
  shows "case run_warp_at c b w t of Inl (e, t') \<Rightarrow> run_inv s t'
    | Inr t' \<Rightarrow> run_inv s t' \<and> non_uniform_branch_failures t' = n"
  using run_warp_ok [OF assms(1) _ assms(4,5), of t] assms(2,3)
  by (cases "run_warp c (warp_lanes c b w) t")
    (auto simp: run_warp_at_def run_inv_def warp_post_Inl warp_post_Inr intro: same_frame_trans)

theorem sim_run_ok:
  assumes c: "config_ok c" and inv: "sim_inv s"
  shows "case sim_run c s of Inl (e, t) \<Rightarrow> run_inv s t
    | Inr t \<Rightarrow> run_inv s t \<and> non_uniform_branch_failures t = non_uniform_branch_failures s"
proof -
  let ?n = "non_uniform_branch_failures s"
  let ?P = "\<lambda>t. run_inv s t \<and> non_uniform_branch_failures t = ?n"
  let ?Q = "\<lambda>(e :: sim_error, t). run_inv s t"
  have "case fold_r (run_warp_at c b) (warp_starts c) t of Inl e \<Rightarrow> ?Q e | Inr t' \<Rightarrow> ?P t'"
    if b: "b \<in> set (map int [0..<nat (dim_count (cfg_grid_dim c))])" and t: "?P t" for b t
  proof (rule fold_r_invariant [where P = ?P and Q = ?Q, OF _ t])
    fix w u assume "w \<in> set (warp_starts c)" "?P u"
    with run_warp_at_ok [OF c _ _ b, of s u ?n w]
    show "case run_warp_at c b w u of Inl e \<Rightarrow> ?Q e | Inr t' \<Rightarrow> ?P t'"
      by (auto split: sum.splits)
  qed
  then have "case sim_run c s of Inl e \<Rightarrow> ?Q e | Inr t' \<Rightarrow> ?P t'"
    unfolding sim_run_alt [OF c]
    by (rule fold_r_invariant [where P = ?P and Q = ?Q]) (use inv in \<open>simp_all add: run_inv_def\<close>)
  then show ?thesis by (auto split: sum.splits)
qed

text \<open>A successful grid run executes at most \<^verbatim>\<open>max_steps\<close> instructions per warp.\<close>

theorem sim_run_step_bound:
  assumes c: "config_ok c" and inv: "sim_inv s" and run: "sim_run c s = Inr t"
  shows "dynamic_instruction_count t \<le> dynamic_instruction_count s
    + dim_count (cfg_grid_dim c) * (int (length (warp_starts c)) * int (nat (max_steps c)))"
proof -
  let ?k = "int (length (warp_starts c)) * int (nat (max_steps c))"
  have warp: "sim_inv v \<and> dynamic_instruction_count v \<le> dynamic_instruction_count u + int (nat (max_steps c))"
    if "b \<in> set (map int [0..<nat (dim_count (cfg_grid_dim c))])" "w \<in> set (warp_starts c)"
      "sim_inv u" "run_warp_at c b w u = Inr v" for b w u v
    using run_warp_ok [OF c that(3,1,2)] that(4) by (auto simp: run_warp_at_def warp_post_Inr)
  have row: "sim_inv v \<and> dynamic_instruction_count v \<le> dynamic_instruction_count u + ?k"
    if b: "b \<in> set (map int [0..<nat (dim_count (cfg_grid_dim c))])" and u: "sim_inv u"
      and f: "fold_r (run_warp_at c b) (warp_starts c) u = Inr v" for b u v
    by (rule fold_r_bound [where m = dynamic_instruction_count and P = sim_inv, OF _ u f])
      (erule warp [OF b])
  have "0 \<le> dim_count (cfg_grid_dim c)"
    using c by (cases "cfg_grid_dim c") (simp add: config_ok_def)
  with fold_r_bound [where m = dynamic_instruction_count and P = sim_inv, OF row inv run [unfolded sim_run_alt [OF c]]]
  show ?thesis by simp
qed

subsection \<open>A concrete kernel\<close>

text \<open>
  Two threads store their thread number into consecutive words of global memory:
  \<^verbatim>\<open>CPY.b32 R1, %tid.x; LOADI.b32 R2, 4; MUL.u32 R3, R1, R2; ST.b32.gmem [R3], R1; HALT\<close>.
\<close>

definition demo_host :: float_host where
  "demo_host = \<lparr>nan_load = (\<lambda>b. b), nan_add = (\<lambda>_ _. 0x7FC00000), nan_mul = (\<lambda>_ _. 0x7FC00000)\<rparr>"

definition demo_kernel :: "AECInstruction list" where
  "demo_kernel =
     [(aec ''CPY'')\<lparr>dtype := ''b32'', dest := 1, src1 := 0x0100\<rparr>,
      (aec ''LOADI'')\<lparr>dtype := ''b32'', dest := 2, imm := 4\<rparr>,
      (aec ''MUL'')\<lparr>dtype := ''u32'', dest := 3, src1 := 1, src2 := 2\<rparr>,
      (aec ''ST'')\<lparr>dtype := ''b32'', src1 := 3, src2 := 1, memory_space := Some ''gmem''\<rparr>,
      aec ''HALT'']"

definition demo_config :: sim_config where
  "demo_config = \<lparr>host = demo_host, instructions = demo_kernel, cfg_block_dim = (2, 1, 1),
     cfg_grid_dim = (1, 1, 1), cfg_warp_size = 32, max_steps = 100\<rparr>"

definition demo_run :: "(sim_error \<times> sim_state) + sim_state" where
  "demo_run = sim_run demo_config (new_sim_state [] (replicate 8 (9 :: byte)))"

lemma demo_run_result: "case demo_run of Inl _ \<Rightarrow> False
   | Inr t \<Rightarrow> gmem t = [0,0,0,0,1,0,0,0] \<and> length (accesses t) = 2 \<and> dynamic_instruction_count t = 5"
  by code_simp

lemma demo_run_ok: "\<exists>t. demo_run = Inr t \<and> gmem t = [0,0,0,0,1,0,0,0] \<and> length (accesses t) = 2
   \<and> dynamic_instruction_count t = 5"
  using demo_run_result by (simp split: sum.split_asm) blast

lemma sim_inv_new: "sim_inv (new_sim_state pm gm)"
  by (simp add: sim_inv_def log_ok_def trace_ok_def new_sim_state_def)

lemma demo_config_ok: "config_ok demo_config"
  by (simp add: config_ok_def demo_config_def)

subsection \<open>Memory\<close>

lemma take_drop_splice_same:
  "a + length bs \<le> length m \<Longrightarrow> take (length bs) (drop a (splice m a bs)) = bs"
  by (simp add: splice_def min_def)

lemma nth_splice:
  "a + length bs \<le> length m \<Longrightarrow> i < length m \<Longrightarrow>
     splice m a bs ! i = (if a \<le> i \<and> i < a + length bs then bs ! (i - a) else m ! i)"
  by (auto simp: splice_def nth_append min_def)

lemma length_splice_nat: "a + length bs \<le> length m \<Longrightarrow> length (splice m a bs) = length m"
  by (auto simp: splice_def min_def)

lemma take_drop_splice_other:
  assumes "a + length bs \<le> length m" "b + n \<le> a \<or> a + length bs \<le> b"
  shows "take n (drop b (splice m a bs)) = take n (drop b m)"
proof (rule nth_equalityI)
  show "length (take n (drop b (splice m a bs))) = length (take n (drop b m))"
    by (simp add: length_splice_nat [OF assms(1)])
next
  fix i assume "i < length (take n (drop b (splice m a bs)))"
  then have "i < n" "b + i < length m" by (simp_all add: length_splice_nat [OF assms(1)] less_diff_conv add.commute)
  then show "take n (drop b (splice m a bs)) ! i = take n (drop b m) ! i"
    using assms by (auto simp: length_splice_nat [OF assms(1)] nth_splice [OF assms(1)])
qed

lemma write_read:
  assumes w: "sim_write s sp a bs = Inr s'" and a: "0 \<le> a" and b: "0 \<le> b"
  shows "sim_read s' sp a (length bs) = Inr bs"
    and "b + int n \<le> a \<or> a + int (length bs) \<le> b \<Longrightarrow> sim_read s' sp b n = sim_read s sp b n"
    and "sp' \<noteq> sp \<Longrightarrow> sim_read s' sp' b n = sim_read s sp' b n"
proof -
  obtain m where m: "sim_memory s sp = Inr m" "a + int (length bs) \<le> int (length m)"
    and sp: "sp = ''gmem'' \<or> sp = ''pmem''"
    and s': "s' = (if sp = ''gmem'' then s\<lparr>gmem := splice m (nat a) bs\<rparr> else s\<lparr>pmem := splice m (nat a) bs\<rparr>)"
    using w by (auto simp: sim_write_def Let_def sim_memory_def split: if_splits)
  have m': "sim_memory s' sp = Inr (splice m (nat a) bs)"
    using sp by (auto simp: s' sim_memory_def)
  have len: "length (splice m (nat a) bs) = length m" using length_splice [OF a m(2)] .
  have na: "nat a + length bs \<le> length m" using a m(2) by linarith
  show "sim_read s' sp a (length bs) = Inr bs"
    using m(2) by (simp add: sim_read_def m' len take_drop_splice_same [OF na])
  show "b + int n \<le> a \<or> a + int (length bs) \<le> b \<Longrightarrow> sim_read s' sp b n = sim_read s sp b n"
  proof -
    assume "b + int n \<le> a \<or> a + int (length bs) \<le> b"
    then have "nat b + n \<le> nat a \<or> nat a + length bs \<le> nat b" using a b by linarith
    with na show ?thesis by (simp add: sim_read_def m m' len take_drop_splice_other)
  qed
  show "sp' \<noteq> sp \<Longrightarrow> sim_read s' sp' b n = sim_read s sp' b n"
    using sp by (auto simp: sim_read_def sim_memory_def s')
qed

subsection \<open>The simulator's guarantees\<close>

text \<open>
  C15. However a simulation ends, normally or with a \<^verbatim>\<open>SimulationError\<close>: the parameter
  memory is unchanged, global memory keeps its size, every recorded access covers four or eight bytes
  within global memory, and the branch counters equal what the branch trace says. A normal end
  means that every executed \<^verbatim>\<open>BRX\<close> was uniform.
\<close>

theorem sim_run_safe:
  assumes "config_ok c"
  shows "case sim_run c (new_sim_state pm gm) of
      Inl (e, t) \<Rightarrow> pmem t = pm \<and> length (gmem t) = length gm \<and> log_ok t \<and> trace_ok t
    | Inr t \<Rightarrow> pmem t = pm \<and> length (gmem t) = length gm \<and> log_ok t \<and> trace_ok t
        \<and> list_all bt_uniform (branch_trace t)"
  using sim_run_ok [OF assms(1) sim_inv_new [of pm gm]]
  by (auto simp: run_inv_def same_frame_def sim_inv_def trace_ok_def new_sim_state_def
      list_all_iff filter_empty_conv split: sum.splits)

lemma sim_run_safe_witness:
  "\<exists>t. demo_run = Inr t \<and> length (gmem t) = 8 \<and> log_ok t \<and> trace_ok t \<and> gmem t = [0,0,0,0,1,0,0,0]"
proof -
  obtain t where t: "demo_run = Inr t" "gmem t = [0,0,0,0,1,0,0,0]"
    using demo_run_ok by blast
  show ?thesis
    using sim_run_safe [OF demo_config_ok, of "[]" "replicate 8 9"] t by (simp add: demo_run_def)
qed

text \<open>
  C19. A simulation that ends normally has executed at most \<^verbatim>\<open>max_steps\<close>
  instructions for each warp of the grid.
\<close>

theorem sim_run_steps:
  assumes "config_ok c" "sim_run c (new_sim_state pm gm) = Inr t"
  shows "dynamic_instruction_count t \<le> dim_count (cfg_grid_dim c)
    * (int (length (warp_starts c)) * int (nat (max_steps c)))"
  using sim_run_step_bound [OF assms(1) sim_inv_new assms(2)] by (simp add: new_sim_state_def)

lemma sim_run_steps_witness:
  "\<exists>t. demo_run = Inr t \<and> dynamic_instruction_count t = 5 \<and> dynamic_instruction_count t \<le> 100"
proof -
  obtain t where t: "demo_run = Inr t" "dynamic_instruction_count t = 5"
    using demo_run_ok by blast
  have "warp_starts demo_config = [0]" by code_simp
  then show ?thesis
    using sim_run_steps [OF demo_config_ok, of "[]" "replicate 8 9" t] t
    by (simp add: demo_run_def demo_config_def)
qed

lemma read_inside:
  assumes "sim_read s sp a (length bs) = Inr bs" "i + m \<le> length bs" "0 \<le> a"
  shows "sim_read s sp (a + int i) m = Inr (take m (drop i bs))"
proof -
  obtain mem where mem: "sim_memory s sp = Inr mem" "a + int (length bs) \<le> int (length mem)"
    "take (length bs) (drop (nat a) mem) = bs"
    using assms(1) by (auto simp: sim_read_def Let_def split: if_splits)
  have "nat (a + int i) = nat a + i" using assms(3) by simp
  moreover have "take m (drop (nat a + i) mem) = take m (drop i (take (length bs) (drop (nat a) mem)))"
    using assms(2) by (simp add: take_drop drop_drop min_def add.commute)
  ultimately show ?thesis using mem assms(2,3) by (simp add: sim_read_def Let_def)
qed

lemma bytes_halves: "word_val v \<Longrightarrow> take 4 (to_bytes_le 8 v) = to_bytes_le 4 v \<and> drop 4 (to_bytes_le 8 v) = to_bytes_le 4 0"
  by (simp add: word_val_def eval_nat_numeral div_pos_pos_trivial flip: zdiv_zmult2_eq)

text \<open>The lane a load leaves.\<close>

definition load_lane :: "lane_result \<Rightarrow> sim_error + LaneState" where
  "load_lane r = bind_r r (\<lambda>(l, _). Inr l)"

text \<open>
  C18. A store to global memory, of four or of eight bytes, is read back by a load, whatever the lane that
  loads and whatever its registers were: a word load of the same address gets the stored register; after
  an eight-byte store the word behind it reads 0 and a pair load gets the register and 0, as the store
  writes one register and clears the high word; and a load whose bytes do not overlap the stored ones
  sees what it saw before the store.
\<close>

theorem store_then_load:
  assumes "execute_store st l s = Inr (l1, s1)"
    and "type_size (dtype st) = Inr n" "type_size (dtype ld) = Inr m" "memory_space ld = memory_space st"
    and "get_reg l (src1 st) = Inr a" "get_reg l (src2 st) = Inr v" "get_reg k (src1 ld) = Inr b"
    and "lane_ok l" "lane_ok k"
  shows "(m = 4 \<longrightarrow> b = a \<longrightarrow> load_lane (execute_load ld k s1) = set_reg k (dest ld) v) \<and>
    (m = 4 \<longrightarrow> n = 8 \<longrightarrow> b = a + 4 \<longrightarrow> load_lane (execute_load ld k s1) = set_reg k (dest ld) 0) \<and>
    (m = 8 \<longrightarrow> n = 8 \<longrightarrow> b = a \<longrightarrow> load_lane (execute_load ld k s1) =
       bind_r (set_reg k (dest ld) v) (\<lambda>k1. set_reg k1 (dest ld + 1) 0)) \<and>
    (b + int m \<le> a \<or> a + int n \<le> b \<longrightarrow>
       load_lane (execute_load ld k s1) = load_lane (execute_load ld k s))"
proof -
  have va: "word_val a" and vv: "word_val v" and vb: "word_val b"
    using get_reg_word assms(5-9) by blast+
  have m: "x AND 0xFFFFFFFF = x" if "word_val x" for x
    using that by (simp add: word_val_def and_mask32)
  have ty: "n = 4 \<or> n = 8" "m = 8 \<longleftrightarrow> dtype ld = ''b64''" "m = 4 \<or> m = 8"
    using assms(2,3) by (auto simp: type_size_def split: if_splits)
  obtain sp t where sp: "memory_space st = Some sp"
    and w: "sim_write s sp a (to_bytes_le n v) = Inr t"
    and s1: "s1 = record_access ''ST'' sp l a n t"
    using assms(1,2,5,6) m [OF va] m [OF vv]
    by (auto simp: execute_store_def require_space_def Let_def split: if_splits)
  have rd: "sim_read s1 x y z = sim_read t x y z" for x y z
    by (simp add: s1 record_access_def sim_read_def sim_memory_def)
  have v: "from_bytes_le (to_bytes_le 4 v) = v"
    using vv by (simp add: from_to_bytes_le word_val_def)
  have zero: "from_bytes_le (to_bytes_le 4 0) = 0" by (simp add: from_to_bytes_le)
  have ab: "0 \<le> a" "0 \<le> b" using va vb by (simp_all add: word_val_def)
  have ld: "load_lane (execute_load ld k u) = bind_r (sim_read u sp b m) (\<lambda>blob.
      if m = 8 then bind_r (set_reg k (dest ld) (from_bytes_le (take 4 blob)))
         (\<lambda>k1. set_reg k1 (dest ld + 1) (from_bytes_le (take 4 (drop 4 blob))))
      else set_reg k (dest ld) (from_bytes_le blob))" for u
    using assms(3,4,7) sp ty(2) m [OF vb]
    by (auto simp: load_lane_def execute_load_def require_space_def option_r_def Let_def bind_r_def split: sum.splits)
  have inside: "sim_read s1 sp (a + int i) z = Inr (take z (drop i (to_bytes_le n v)))" if "i + z \<le> n" for i z
    unfolding rd by (rule read_inside) (use write_read(1) [OF w ab(1) ab(1)] that ab(1) in simp_all)
  have "load_lane (execute_load ld k s1) = set_reg k (dest ld) v" if "m = 4" "b = a"
    using ty(1) inside [of 0 4] bytes_halves [OF vv] that by (auto simp: ld v)
  moreover have "load_lane (execute_load ld k s1) = set_reg k (dest ld) 0" if "m = 4" "n = 8" "b = a + 4"
    using inside [of 4 4] bytes_halves [OF vv] that by (simp add: ld zero)
  moreover have "load_lane (execute_load ld k s1) = bind_r (set_reg k (dest ld) v) (\<lambda>k1. set_reg k1 (dest ld + 1) 0)"
    if "m = 8" "n = 8" "b = a"
    using inside [of 0 8] bytes_halves [OF vv] that by (simp add: ld v zero)
  moreover have "load_lane (execute_load ld k s1) = load_lane (execute_load ld k s)" if "b + int m \<le> a \<or> a + int n \<le> b"
    using write_read(2) [OF w ab, of m] that by (simp add: ld rd)
  ultimately show ?thesis by blast
qed

definition demo_lane :: LaneState where
  "demo_lane = (new_lane 0 0 (1, 1, 1) (1, 1, 1) 32)\<lparr>registers := [0, 8, 77, 12] @ replicate 252 0\<rparr>"

definition demo_store :: AECInstruction where
  "demo_store = (aec ''ST'')\<lparr>dtype := ''b32'', src1 := 1, src2 := 2, memory_space := Some ''gmem''\<rparr>"

definition demo_load :: AECInstruction where
  "demo_load = (aec ''LD'')\<lparr>dtype := ''b32'', dest := 5, src1 := 1, memory_space := Some ''gmem''\<rparr>"

lemma demo_lane_ok: "lane_ok demo_lane"
  by (simp add: lane_ok_def demo_lane_def new_lane_def word_val_def list_all_iff)

lemma store_then_load_witness:
  "\<exists>l1 s1. execute_store demo_store demo_lane (new_sim_state [] (replicate 16 9)) = Inr (l1, s1)
     \<and> load_lane (execute_load demo_load demo_lane s1) = set_reg demo_lane 5 77"
proof -
  have "\<exists>l1 s1. execute_store demo_store demo_lane (new_sim_state [] (replicate 16 9)) = Inr (l1, s1)"
    by (simp add: execute_store_def demo_store_def demo_lane_def aec_def new_lane_def get_reg_def py_get_def
        py_index_def option_r_def require_space_def type_size_def sim_write_def sim_memory_def
        new_sim_state_def and_mask32 Let_def)
  then obtain l1 s1 where
    st: "execute_store demo_store demo_lane (new_sim_state [] (replicate 16 9)) = Inr (l1, s1)" by blast
  have "load_lane (execute_load demo_load demo_lane s1) = set_reg demo_lane (dest demo_load) 77"
    using store_then_load [OF st _ _ _ _ _ _ demo_lane_ok demo_lane_ok, of 4 demo_load 4 8 77 8]
    by (simp add: demo_store_def demo_load_def demo_lane_def aec_def new_lane_def get_reg_def
        py_get_def py_index_def option_r_def type_size_def)
  with st show ?thesis by (simp add: demo_load_def aec_def)
qed

end
