(* ===== verification/Lane_Effect.thy ===== *)
theory Lane_Effect
  imports Sim_Inv Scheduler
begin

unbundle bit_operations_syntax

text \<open>
  The effect of one instruction on one lane, for the instructions with one destination register:
  a value computed from the source registers (and memory, for a load), a single write, and an entry
  of the access log. \<open>execute_lane_value\<close> and \<open>execute_store_value\<close> show that this is what
  \<^verbatim>\<open>_execute_lane\<close> of \<^verbatim>\<open>sim.py\<close> does; the rest says what the value depends on and what a write
  leaves alone.
\<close>

subsection \<open>One instruction as a value and a write\<close>

datatype lane_write = WReg int int | WPred int bool

fun apply_write :: "lane_write \<Rightarrow> LaneState \<Rightarrow> sim_error + LaneState" where
  "apply_write (WReg i v) l = set_reg l i v"
| "apply_write (WPred i v) l = set_pred l i v"

text \<open>
  An instruction the scheduler's register tracking describes completely: register numbers that
  are not negative, one destination register, no call.
\<close>

definition plain :: "AECInstruction \<Rightarrow> bool" where
  "plain inst \<longleftrightarrow>
     (has_dest inst \<longrightarrow> 0 \<le> dest inst \<and> dest inst \<le> 255) \<and>
     0 \<le> src1 inst \<and> 0 \<le> src2 inst \<and> 0 \<le> src3 inst \<and>
     (\<forall>p\<in>set_option (predicate inst). 0 \<le> p) \<and>
     py_upper (opcode inst) \<notin> {''LOADI64'', ''CALL'', ''RET''} \<and>
     dtype inst \<notin> {''b64'', ''f64''}"

definition access_log :: "string \<Rightarrow> string \<Rightarrow> LaneState \<Rightarrow> int \<Rightarrow> nat \<Rightarrow> MemoryAccess list" where
  "access_log op space l addr sz =
     (if space \<noteq> ''gmem'' then []
      else [\<lparr>ma_op = op, ma_space = space, ma_block = block l, ma_thread = thread l,
             ma_global_thread = global_thread l, ma_address = addr, ma_size = int sz\<rparr>])"

lemma record_access_log:
  "record_access op space l addr sz s = s\<lparr>accesses := accesses s @ access_log op space l addr sz\<rparr>"
  by (simp add: record_access_def access_log_def)

type_synonym value_result = "sim_error + lane_write \<times> MemoryAccess list"

definition load_value :: "AECInstruction \<Rightarrow> LaneState \<Rightarrow> sim_state \<Rightarrow> value_result" where
  "load_value inst l s =
     bind_r (require_space inst) (\<lambda>space.
     bind_r (get_reg l (src1 inst)) (\<lambda>r1.
       let addr = r1 AND 0xFFFFFFFF in
     bind_r (type_size (dtype inst)) (\<lambda>sz.
     bind_r (sim_read s space addr sz) (\<lambda>blob.
     Inr (WReg (dest inst) (from_bytes_le blob), access_log ''LD'' space l addr sz)))))"

definition reg_value :: "AECInstruction \<Rightarrow> sim_error + int \<Rightarrow> value_result" where
  "reg_value inst r = bind_r r (\<lambda>v. Inr (WReg (dest inst) v, []))"

definition lane_value :: "float_host \<Rightarrow> AECInstruction \<Rightarrow> LaneState \<Rightarrow> sim_state \<Rightarrow> value_result" where
  "lane_value h inst l s =
     (let op = py_upper (opcode inst) in
      if op = ''LOADI'' then reg_value inst (Inr (imm inst AND 0xFFFFFFFF))
      else if op = ''CPY'' then reg_value inst (copy_value inst l)
      else if op = ''LD'' then load_value inst l s
      else if op = ''ADD'' then reg_value inst (reg2 l inst (binary_result h (dtype inst) OpAdd))
      else if op = ''SUB'' then reg_value inst (reg2 l inst (binary_result h (dtype inst) OpSub))
      else if op = ''MUL'' then reg_value inst (reg2 l inst (binary_result h (dtype inst) OpMul))
      else if op = ''MAD'' then reg_value inst (reg3 l inst (mad_result h (dtype inst)))
      else if op = ''FMA'' then reg_value inst (reg3 l inst (fma_result h (dtype inst)))
      else if op = ''AND'' then reg_value inst (reg2 l inst (\<lambda>a b. Inr ((a AND b) AND 0xFFFFFFFF)))
      else if op = ''OR'' then reg_value inst (reg2 l inst (\<lambda>a b. Inr ((a OR b) AND 0xFFFFFFFF)))
      else if op = ''XOR'' then reg_value inst (reg2 l inst (\<lambda>a b. Inr ((a XOR b) AND 0xFFFFFFFF)))
      else if op = ''SHL'' then
        reg_value inst (reg2 l inst (\<lambda>a b. Inr (push_bit (nat (b AND 31)) a AND 0xFFFFFFFF)))
      else if op = ''SHR'' then
        reg_value inst (reg2 l inst (\<lambda>a b. Inr (drop_bit (nat (b AND 31)) a AND 0xFFFFFFFF)))
      else if op = ''CMPP'' then
        bind_r (reg2 l inst (sim_compare h (compare inst) (dtype inst)))
          (\<lambda>v. Inr (WPred (dest inst) v, []))
      else Inl (UnsupportedSimOpcode (opcode inst)))"

definition finish_lane :: "LaneState \<Rightarrow> sim_state \<Rightarrow> value_result \<Rightarrow> lane_result" where
  "finish_lane l s r = bind_r r (\<lambda>(w, log). bind_r (apply_write w l)
     (\<lambda>l'. Inr (l', s\<lparr>accesses := accesses s @ log\<rparr>)))"

lemma finish_reg: "finish_lane l s (reg_value inst r) = upd_reg l s (dest inst) r"
  by (cases r) (simp_all add: finish_lane_def reg_value_def upd_reg_def)

lemma bind_r_assoc: "bind_r (bind_r r f) g = bind_r r (\<lambda>x. bind_r (f x) g)"
  by (cases r) simp_all

lemma finish_load:
  "dtype inst \<noteq> ''b64'' \<Longrightarrow> finish_lane l s (load_value inst l s) = execute_load inst l s"
  by (simp add: finish_lane_def load_value_def execute_load_def Let_def bind_r_assoc record_access_log)

lemma finish_cmpp:
  "finish_lane l s (bind_r r (\<lambda>v. Inr (WPred d v, []))) = bind_r r (\<lambda>v. bind_r (set_pred l d v) (\<lambda>l'. Inr (l', s)))"
  by (simp add: finish_lane_def bind_r_assoc)

lemma finish_Inl: "finish_lane l s (Inl e) = Inl e"
  by (simp add: finish_lane_def)

lemma execute_lane_value:
  assumes "plain inst" "py_upper (opcode inst) \<noteq> ''ST''"
  shows "execute_lane h inst l s = finish_lane l s (lane_value h inst l s)"
proof -
  have dt: "dtype inst \<noteq> ''b64''" "dtype inst \<noteq> ''f64''" and wide: "py_upper (opcode inst) \<noteq> ''LOADI64''"
    using assms(1) by (simp_all add: plain_def)
  have cpy: "bind_r (copy_value inst l) (\<lambda>v. bind_r (set_reg l (dest inst) v) (\<lambda>l1. Inr (l1, s)))
      = upd_reg l s (dest inst) (copy_value inst l)"
    by (simp add: upd_reg_def)
  have fin: "finish_lane l s (if b then x else y) = (if b then finish_lane l s x else finish_lane l s y)" for b x y
    by simp
  show ?thesis
    unfolding lane_value_def Let_def fin finish_reg finish_cmpp finish_Inl finish_load [OF dt(1)]
    unfolding execute_lane_def Let_def
    by (simp only: dt wide assms(2) cpy insert_iff empty_iff simp_thms if_False)
qed

definition store_value :: "AECInstruction \<Rightarrow> LaneState \<Rightarrow> byte list \<Rightarrow> sim_error + byte list \<times> MemoryAccess list" where
  "store_value inst l m =
     bind_r (require_space inst) (\<lambda>space.
     if space = ''pmem'' then Inl StoreToPmem else
     bind_r (get_reg l (src1 inst)) (\<lambda>r1.
       let addr = r1 AND 0xFFFFFFFF in
     bind_r (type_size (dtype inst)) (\<lambda>sz.
     bind_r (get_reg l (src2 inst)) (\<lambda>r2.
     if space \<noteq> ''gmem'' then Inl (UnsupportedSpace space)
     else if int (length m) < addr + int sz then Inl (WriteOutOfRange space addr (int sz))
     else Inr (splice m (nat addr) (to_bytes_le sz (r2 AND 0xFFFFFFFF)),
               access_log ''ST'' space l addr sz)))))"

lemma execute_store_value:
  "execute_store inst l s = bind_r (store_value inst l (gmem s))
     (\<lambda>(m, log). Inr (l, s\<lparr>gmem := m, accesses := accesses s @ log\<rparr>))"
  by (auto simp: execute_store_def store_value_def sim_write_def sim_memory_def Let_def
      record_access_log bind_r_def split: sum.splits)

subsection \<open>What an instruction depends on\<close>

definition same_static :: "LaneState \<Rightarrow> LaneState \<Rightarrow> bool" where
  "same_static l m \<longleftrightarrow> block l = block m \<and> thread l = thread m \<and> block_dim l = block_dim m
     \<and> grid_dim l = grid_dim m \<and> warp_size l = warp_size m"

definition agree_sources :: "AECInstruction \<Rightarrow> LaneState \<Rightarrow> LaneState \<Rightarrow> bool" where
  "agree_sources inst l m \<longleftrightarrow> same_static l m \<and>
     (\<forall>r\<in>{src1 inst, src2 inst, src3 inst}. get_reg l r = get_reg m r)"

lemma special_value_static: "same_static l m \<Longrightarrow> special_value k l = special_value k m"
  unfolding special_value_def thread_x_def thread_y_def thread_z_def block_x_def block_y_def block_z_def
  by (simp only: same_static_def)

lemma access_log_static: "same_static l m \<Longrightarrow> access_log op sp l a n = access_log op sp m a n"
  by (simp add: access_log_def global_thread_def total_threads_def same_static_def)

lemma lane_value_agree:
  assumes "agree_sources inst l m"
    and "inst_kind inst = LOAD \<Longrightarrow> pmem s = pmem t \<and> gmem s = gmem t"
  shows "lane_value h inst l s = lane_value h inst m t"
proof -
  have regs: "get_reg l (src1 inst) = get_reg m (src1 inst)" "get_reg l (src2 inst) = get_reg m (src2 inst)"
    "get_reg l (src3 inst) = get_reg m (src3 inst)" and st: "same_static l m"
    using assms(1) by (simp_all add: agree_sources_def)
  have r2: "reg2 l inst f = reg2 m inst f" for f :: "int \<Rightarrow> int \<Rightarrow> sim_error + 'b"
    by (simp add: reg2_def regs)
  have r3: "reg3 l inst f = reg3 m inst f" for f :: "int \<Rightarrow> int \<Rightarrow> int \<Rightarrow> sim_error + 'b"
    by (simp add: reg3_def reg2_def regs)
  have c: "copy_value inst l = copy_value inst m"
    by (simp add: copy_value_def regs special_value_static [OF st])
  have ld: "load_value inst l s = load_value inst m t" if "py_upper (opcode inst) = ''LD''"
  proof -
    have "pmem s = pmem t \<and> gmem s = gmem t"
      using that by (intro assms(2)) (simp add: inst_kind_def)
    then have "sim_read s = sim_read t" by (simp add: fun_eq_iff sim_read_def sim_memory_def)
    then show ?thesis by (simp add: load_value_def regs access_log_static [OF st])
  qed
  show ?thesis unfolding lane_value_def Let_def r2 r3 c by (simp only: ld cong: if_cong)
qed

lemma store_value_agree:
  assumes "agree_sources inst l m"
  shows "store_value inst l g = store_value inst m g"
proof -
  have regs: "get_reg l (src1 inst) = get_reg m (src1 inst)" "get_reg l (src2 inst) = get_reg m (src2 inst)"
    and st: "same_static l m"
    using assms by (simp_all add: agree_sources_def)
  show ?thesis unfolding store_value_def regs access_log_static [OF st] by (rule refl)
qed

lemma lane_value_dest:
  assumes "lane_value h inst l s = Inr (w, log)"
  shows "(if py_upper (opcode inst) = ''CMPP'' then \<exists>v. w = WPred (dest inst) v else \<exists>v. w = WReg (dest inst) v)
    \<and> (inst_kind inst \<noteq> LOAD \<longrightarrow> log = [])"
proof -
  have reg: "reg_value inst r = Inr (w, log) \<Longrightarrow> (\<exists>v. w = WReg (dest inst) v) \<and> log = []" for r
    by (auto simp: reg_value_def)
  have ld: "load_value inst l s = Inr (w, log) \<Longrightarrow> \<exists>v. w = WReg (dest inst) v"
    by (auto simp: load_value_def Let_def)
  show ?thesis
  proof (cases "py_upper (opcode inst) \<in> {''LD'', ''CMPP''}")
    case True
    with assms ld show ?thesis
      by (auto simp: lane_value_def inst_kind_def)
  next
    case False
    have "\<exists>r. lane_value h inst l s = reg_value inst r"
    proof -
      have Inl: "Inl e = reg_value inst (Inl e)" for e by (simp add: reg_value_def)
      show ?thesis
        using False unfolding lane_value_def Let_def
        by (simp only: insert_iff empty_iff de_Morgan_disj if_False split: if_split) (blast intro: Inl)
    qed
    with assms reg False show ?thesis by auto
  qed
qed

subsection \<open>Writes\<close>

lemma get_set_reg:
  "set_reg l i v = Inr l' \<Longrightarrow> 0 \<le> i \<Longrightarrow> 0 \<le> j \<Longrightarrow> j \<noteq> i \<Longrightarrow> get_reg l' j = get_reg l j"
  by (auto simp: set_reg_def get_reg_def py_set_def py_get_def py_index_def Let_def option_r_def split: if_splits)

lemma set_reg_frame:
  "set_reg l i v = Inr l' \<Longrightarrow> same_static l l' \<and> get_pred l' p = get_pred l p"
  by (auto simp: set_reg_def same_static_def get_pred_def)

lemma set_pred_frame:
  "set_pred l i v = Inr l' \<Longrightarrow> same_static l l' \<and> get_reg l' r = get_reg l r"
  by (auto simp: set_pred_def same_static_def get_reg_def)

lemma get_set_pred:
  "set_pred l i v = Inr l' \<Longrightarrow> 0 \<le> i \<Longrightarrow> 0 \<le> j \<Longrightarrow> j \<noteq> i \<Longrightarrow> get_pred l' j = get_pred l j"
  by (auto simp: set_pred_def get_pred_def py_set_def py_get_def py_index_def Let_def option_r_def split: if_splits)

fun write_index :: "lane_write \<Rightarrow> int" where
  "write_index (WReg i v) = i"
| "write_index (WPred i v) = i"

lemma apply_write_commute:
  assumes "apply_write w l = Inr l1" "apply_write u l1 = Inr l2"
    and "0 \<le> write_index w" "0 \<le> write_index u" "write_index w \<noteq> write_index u"
  shows "\<exists>m. apply_write u l = Inr m \<and> apply_write w m = Inr l2"
  using assms
  by (cases w; cases u)
    (auto simp: set_reg_def set_pred_def py_set_def py_index_def Let_def list_update_swap split: if_splits)

text \<open>A write of \<open>x\<close> leaves what \<open>y\<close> reads, its guard included.\<close>

definition no_flow :: "AECInstruction \<Rightarrow> AECInstruction \<Rightarrow> bool" where
  "no_flow x y \<longleftrightarrow> (has_dest x \<longrightarrow> dest x \<notin> set (source_regs y))
     \<and> (py_upper (opcode x) = ''CMPP'' \<longrightarrow> predicate y \<noteq> Some (dest x))"

lemma write_agree:
  assumes "plain x" "plain y" "has_dest x" "no_flow x y"
    and "lane_value h x l s = Inr (w, log)" "apply_write w l' = Inr l''"
  shows "agree_sources y l' l'' \<and> guard_passes y l'' = guard_passes y l'"
proof -
  have "0 \<le> dest x" "dest x \<le> 255" "dest x \<notin> set (source_regs y)"
    using assms(1,3,4) by (simp_all add: plain_def no_flow_def)
  then have "dest x \<notin> {src1 y, src2 y, src3 y}" unfolding source_regs_def set_filter by auto
  moreover have "0 \<le> src1 y" "0 \<le> src2 y" "0 \<le> src3 y" using assms(2) by (simp_all add: plain_def)
  ultimately have src: "0 \<le> r \<and> r \<noteq> dest x" if "r \<in> {src1 y, src2 y, src3 y}" for r
    using that by blast
  have d: "0 \<le> dest x" using assms(1,3) by (simp add: plain_def)
  show ?thesis
  proof (cases "py_upper (opcode x) = ''CMPP''")
    case True
    then obtain v where w: "w = WPred (dest x) v" using lane_value_dest [OF assms(5)] by auto
    have g: "guard_passes y l'' = guard_passes y l'"
    proof (cases "predicate y")
      case (Some p)
      then have "0 \<le> p" "p \<noteq> dest x" using True assms(2,4) by (auto simp: plain_def no_flow_def)
      with Some w assms(6) get_set_pred [of l' "dest x" v l'' p] d show ?thesis by (simp add: guard_passes_def)
    qed (simp add: guard_passes_def)
    with w assms(6) set_pred_frame [of l' "dest x" v l''] show ?thesis by (simp add: agree_sources_def)
  next
    case False
    then obtain v where w: "w = WReg (dest x) v" using lane_value_dest [OF assms(5)] by auto
    with assms(6) have set: "set_reg l' (dest x) v = Inr l''" by simp
    have "get_reg l'' r = get_reg l' r" if "r \<in> {src1 y, src2 y, src3 y}" for r
      using get_set_reg [OF set d] src [OF that] by simp
    then show ?thesis
      using set_reg_frame [OF set] by (auto simp: agree_sources_def guard_passes_def split: option.splits)
  qed
qed

end
