(* ===== verification/Commute.thy ===== *)
theory Commute
  imports Main
begin

text \<open>
  Reordering a sequence of steps. A step may fail; two adjacent steps that are independent may be
  swapped without changing the outcome up to an equivalence of states. The locale
  \<open>commuting_steps\<close> states this contract of a machine, and shows that any permutation of a
  sequence that keeps every dependent pair in order succeeds where the sequence does, with an
  equivalent final state.
\<close>

definition before :: "'a list \<Rightarrow> 'a \<Rightarrow> 'a \<Rightarrow> bool" where
  "before xs x y \<longleftrightarrow> (\<exists>a b. a < b \<and> b < length xs \<and> xs ! a = x \<and> xs ! b = y)"

lemma before_trans: "distinct xs \<Longrightarrow> before xs x y \<Longrightarrow> before xs y z \<Longrightarrow> before xs x z"
  unfolding before_def by (metis less_trans nth_eq_iff_index_eq)

lemma before_Cons: "before (y # ys) i j \<longleftrightarrow> i = y \<and> j \<in> set ys \<or> before ys i j"
proof
  assume "before (y # ys) i j"
  then obtain a b where ab: "a < b" "b < length (y # ys)" "(y # ys) ! a = i" "(y # ys) ! b = j"
    by (auto simp: before_def)
  then obtain b' where b': "b = Suc b'" by (cases b) auto
  show "i = y \<and> j \<in> set ys \<or> before ys i j"
    using ab unfolding b' by (cases a) (auto simp: before_def)
next
  assume "i = y \<and> j \<in> set ys \<or> before ys i j"
  then show "before (y # ys) i j"
  proof
    assume "i = y \<and> j \<in> set ys"
    then obtain b where "b < length ys" "ys ! b = j" "i = y" by (auto simp: in_set_conv_nth)
    then show ?thesis unfolding before_def by (intro exI [of _ 0] exI [of _ "Suc b"]) auto
  next
    assume "before ys i j"
    then obtain a b where "a < b" "b < length ys" "ys ! a = i" "ys ! b = j" by (auto simp: before_def)
    then show ?thesis unfolding before_def by (intro exI [of _ "Suc a"] exI [of _ "Suc b"]) auto
  qed
qed

lemma before_Nil [simp]: "\<not> before [] i j"
  by (simp add: before_def)

lemma before_append:
  "before (xs @ ys) i j \<longleftrightarrow> before xs i j \<or> before ys i j \<or> i \<in> set xs \<and> j \<in> set ys"
  by (induction xs) (auto simp: before_Cons)

lemma before_upt: "before [0..<n] i j \<longleftrightarrow> i < j \<and> j < n"
proof
  assume "i < j \<and> j < n"
  then have "i < j \<and> j < length [0..<n] \<and> [0..<n] ! i = i \<and> [0..<n] ! j = j" by auto
  then show "before [0..<n] i j" unfolding before_def by blast
qed (auto simp: before_def)

lemma before_mem: "before xs i j \<Longrightarrow> i \<in> set xs \<and> j \<in> set xs"
  by (auto simp: before_def)

fun run_steps :: "('i \<Rightarrow> 's \<Rightarrow> 's option) \<Rightarrow> 'i list \<Rightarrow> 's \<Rightarrow> 's option" where
  "run_steps step [] s = Some s"
| "run_steps step (x # xs) s = (case step x s of None \<Rightarrow> None | Some t \<Rightarrow> run_steps step xs t)"

lemma run_steps_append:
  "run_steps step (xs @ ys) s =
     (case run_steps step xs s of None \<Rightarrow> None | Some t \<Rightarrow> run_steps step ys t)"
  by (induction xs arbitrary: s) (auto split: option.splits)

locale commuting_steps =
  fixes step :: "'i \<Rightarrow> 's \<Rightarrow> 's option"
    and eqv :: "'s \<Rightarrow> 's \<Rightarrow> bool"
    and ok :: "'i \<Rightarrow> bool"
    and indep :: "'i \<Rightarrow> 'i \<Rightarrow> bool"
  assumes eqv_refl: "eqv s s"
    and eqv_trans: "eqv s t \<Longrightarrow> eqv t u \<Longrightarrow> eqv s u"
    and step_eqv: "ok x \<Longrightarrow> eqv s s' \<Longrightarrow> step x s = Some t \<Longrightarrow> \<exists>t'. step x s' = Some t' \<and> eqv t t'"
    and swap: "ok x \<Longrightarrow> ok y \<Longrightarrow> indep x y \<Longrightarrow> step x s = Some t \<Longrightarrow> step y t = Some u \<Longrightarrow>
      \<exists>t' u'. step y s = Some t' \<and> step x t' = Some u' \<and> eqv u u'"
begin

lemma run_eqv:
  "\<forall>x\<in>set xs. ok x \<Longrightarrow> eqv s s' \<Longrightarrow> run_steps step xs s = Some t \<Longrightarrow>
     \<exists>t'. run_steps step xs s' = Some t' \<and> eqv t t'"
proof (induction xs arbitrary: s s')
  case (Cons x xs)
  then obtain s1 where "step x s = Some s1" "run_steps step xs s1 = Some t"
    by (auto split: option.splits)
  with Cons step_eqv [of x s s' s1] show ?case by force
qed simp

lemma bubble:
  assumes "ok y" "\<forall>x\<in>set pre. ok x \<and> indep x y" "run_steps step (pre @ [y]) s = Some u"
  shows "\<exists>u'. run_steps step (y # pre) s = Some u' \<and> eqv u u'"
  using assms
proof (induction pre arbitrary: s)
  case Nil
  then show ?case using eqv_refl by auto
next
  case (Cons x pre)
  then obtain t where t: "step x s = Some t" "run_steps step (pre @ [y]) t = Some u"
    by (auto split: option.splits)
  with Cons obtain u1 where u1: "run_steps step (y # pre) t = Some u1" "eqv u u1" by auto
  then obtain t1 where t1: "step y t = Some t1" "run_steps step pre t1 = Some u1"
    by (auto split: option.splits)
  obtain t2 t3 where t3: "step y s = Some t2" "step x t2 = Some t3" "eqv t1 t3"
    using swap [OF _ Cons.prems(1) _ t(1) t1(1)] Cons.prems(2) by auto
  obtain u2 where "run_steps step pre t3 = Some u2" "eqv u1 u2"
    using run_eqv [OF _ t3(3) t1(2)] Cons.prems(2) by auto
  with t3 u1(2) show ?case by (auto intro: eqv_trans)
qed

theorem reorder:
  assumes "distinct ks" "distinct ks'" "set ks = set ks'" "\<forall>k\<in>set ks. ok (f k)"
    and "\<And>i j. before ks i j \<Longrightarrow> \<not> before ks' i j \<Longrightarrow> indep (f i) (f j)"
    and "run_steps step (map f ks) s = Some u"
  shows "\<exists>u'. run_steps step (map f ks') s = Some u' \<and> eqv u u'"
  using assms
proof (induction ks' arbitrary: ks s u)
  case Nil
  then show ?case using eqv_refl by simp
next
  case (Cons y ys)
  obtain pre post where ks: "ks = pre @ y # post"
    using Cons.prems(3) by (metis list.set_intros(1) split_list)
  have "indep (f x) (f y)" if "x \<in> set pre" for x
  proof (rule Cons.prems(5))
    show "before ks x y" using that by (auto simp: ks before_append before_Cons)
    show "\<not> before (y # ys) x y"
      using that Cons.prems(1,2) before_mem [of ys x y] by (auto simp: before_Cons ks)
  qed
  moreover obtain t where t: "run_steps step (map f pre @ [f y]) s = Some t" "run_steps step (map f post) t = Some u"
    using Cons.prems(6) run_steps_append [of step "map f pre @ [f y]" "map f post" s]
    by (auto simp: ks split: option.splits)
  moreover have okall: "\<forall>k\<in>set pre \<union> set post. ok (f k)" "ok (f y)" using Cons.prems(4) by (auto simp: ks)
  ultimately obtain t' where t': "run_steps step (f y # map f pre) s = Some t'" "eqv t t'"
    using bubble [of "f y" "map f pre" s t] by auto
  obtain u1 where u1: "run_steps step (map f post) t' = Some u1" "eqv u u1"
    using run_eqv [OF _ t'(2) t(2)] okall by auto
  obtain s1 where s1: "step (f y) s = Some s1" "run_steps step (map f (pre @ post)) s1 = Some u1"
    using t'(1) u1(1) by (auto simp: run_steps_append split: option.splits)
  have "\<exists>u'. run_steps step (map f ys) s1 = Some u' \<and> eqv u1 u'"
  proof (rule Cons.IH [OF _ _ _ _ _ s1(2)])
    show "distinct (pre @ post)" "distinct ys" "set (pre @ post) = set ys"
      using Cons.prems(1-3) by (auto simp: ks)
    show "\<forall>k\<in>set (pre @ post). ok (f k)" using okall by auto
    fix i j assume ij: "before (pre @ post) i j" "\<not> before ys i j"
    have "i \<in> set (pre @ post)" using before_mem [OF ij(1)] by blast
    then have "i \<noteq> y" using Cons.prems(1) by (auto simp: ks)
    with ij show "indep (f i) (f j)"
      by (intro Cons.prems(5)) (auto simp: ks before_append before_Cons)
  qed
  with s1(1) u1(2) show ?case by (auto intro: eqv_trans)
qed

end

end
