(* ===== verification/Sched_Order.thy ===== *)
theory Sched_Order
  imports Scheduler Commute
begin

text \<open>
  The order a schedule keeps. The first part says what the dependency graph of
  \<^verbatim>\<open>passes/scheduler.py\<close> records (last writer, pending reads, edges and their counts); the second
  is the invariant of the scheduling loop, from which the schedule is a permutation of the block;
  the third shows that every pair of conflicting instructions (read after write, write after read,
  write after write, load after store, anything before a store or a terminator) stays in order.
\<close>

subsection \<open>What the graph records\<close>

definition writes :: "AECInstruction list \<Rightarrow> nat \<Rightarrow> int \<Rightarrow> bool" where
  "writes insts i r \<longleftrightarrow> has_dest (insts ! i) \<and> dest (insts ! i) = r"

definition reads :: "AECInstruction list \<Rightarrow> nat \<Rightarrow> int \<Rightarrow> bool" where
  "reads insts i r \<longleftrightarrow> r \<in> set (source_regs (insts ! i))"

lemma set_keep_first [simp]: "set (keep_first xs) = set xs"
  by (simp add: keep_first_def)

lemma Max_two: "finite S \<Longrightarrow> Max (insert (if c < d then d else c) S) = Max (insert c (insert d S))"
  for c d :: int
  by (cases "S = {}") (auto simp: max_def)

lemma closest_def_fold:
  "fold (\<lambda>d c. if d < idx \<and> c < int d then int d else c) defs c0 =
     Max (insert c0 (int ` {d \<in> set defs. d < idx}))"
proof (induction defs arbitrary: c0)
  case (Cons d defs)
  let ?S = "int ` {x \<in> set defs. x < idx}"
  have "insert c0 (int ` {x \<in> set (d # defs). x < idx}) =
      (if d < idx then insert c0 (insert (int d) ?S) else insert c0 ?S)"
    by auto
  then show ?case using Cons Max_two [of ?S c0 "int d"] by simp
qed simp

lemma closest_def_Max:
  "closest_def defs idx = Max (insert (- 1) (int ` {d \<in> set defs. d < idx}))"
  unfolding closest_def_def by (rule closest_def_fold)

lemma closest_def_nonneg:
  "0 \<le> closest_def defs idx \<Longrightarrow> nat (closest_def defs idx) \<in> set defs \<and> nat (closest_def defs idx) < idx"
proof -
  assume nn: "0 \<le> closest_def defs idx"
  have "closest_def defs idx \<in> insert (- 1) (int ` {d \<in> set defs. d < idx})"
    unfolding closest_def_Max by (rule Max_in) auto
  with nn show ?thesis by auto
qed

lemma closest_def_ge: "d \<in> set defs \<Longrightarrow> d < idx \<Longrightarrow> int d \<le> closest_def defs idx"
  unfolding closest_def_Max by (rule Max_ge) auto

lemma raw_preds_less: "p \<in> set (raw_preds insts idx) \<Longrightarrow> p < idx"
  by (auto simp: raw_preds_def dest: closest_def_nonneg)

lemma raw_preds_cover:
  assumes "reads insts idx r" "writes insts d r" "d < idx" "d < length insts"
  obtains p where "p \<in> set (raw_preds insts idx)" "d \<le> p" "p < idx" "writes insts p r"
proof -
  let ?c = "closest_def (all_def_pos insts r) idx"
  have d: "d \<in> set (all_def_pos insts r)" using assms by (simp add: all_def_pos_def writes_def)
  from closest_def_ge [OF d assms(3)] have c: "int d \<le> ?c" .
  then have "nat ?c \<in> set (all_def_pos insts r)" "nat ?c < idx" "d \<le> nat ?c"
    using closest_def_nonneg [of "all_def_pos insts r" idx] by auto
  moreover have "nat ?c \<in> set (raw_preds insts idx)"
    using assms(1) c by (force simp: raw_preds_def reads_def)
  ultimately show ?thesis
    using that by (simp add: all_def_pos_def writes_def)
qed

lemma count_fold_edges:
  "count_list (fold (\<lambda>p ds. ds(p := ds p @ [idx])) ps ds q) i =
     count_list (ds q) i + (if i = idx then count_list ps q else 0)"
  by (induction ps arbitrary: ds) auto

lemma set_fold_reads:
  "set (fold (\<lambda>s rd. rd(s := rd s @ [idx])) rs rd r) = set (rd r) \<union> (if r \<in> set rs then {idx} else {})"
  by (induction rs arbitrary: rd) auto

lemma build_graph_Suc: "build_graph insts (Suc k) = graph_step insts k (build_graph insts k)"
  by (simp add: build_graph_def)

definition preds_at :: "AECInstruction list \<Rightarrow> nat \<Rightarrow> nat list" where
  "preds_at insts i = preds_of insts (build_graph insts i) i"

definition last_such :: "(nat \<Rightarrow> bool) \<Rightarrow> nat \<Rightarrow> nat option \<Rightarrow> bool" where
  "last_such P k w = (case w of None \<Rightarrow> \<forall>i<k. \<not> P i
     | Some j \<Rightarrow> j < k \<and> P j \<and> (\<forall>i. j < i \<and> i < k \<longrightarrow> \<not> P i))"

lemma last_such_Suc:
  "last_such P k w \<Longrightarrow> last_such P (Suc k) (if P k then Some k else w)"
  by (auto simp: last_such_def less_Suc_eq split: option.splits)

lemma graph_last_write: "last_such (\<lambda>i. writes insts i r) k (last_write_pos (build_graph insts k) r)"
proof (induction k)
  case 0
  show ?case by (simp add: build_graph_def empty_graph_def last_such_def)
next
  case (Suc k)
  from last_such_Suc [OF this] show ?case
    by (cases "writes insts k r") (auto simp: build_graph_Suc graph_step_def Let_def writes_def)
qed

lemma graph_last_store:
  "last_such (\<lambda>i. inst_kind (insts ! i) = STORE) k (last_store_idx (build_graph insts k))"
proof (induction k)
  case 0
  show ?case by (simp add: build_graph_def empty_graph_def last_such_def)
next
  case (Suc k)
  from last_such_Suc [OF this] show ?case
    by (simp add: build_graph_Suc graph_step_def Let_def)
qed

lemma graph_pending:
  "set (pending_reads (build_graph insts k) r) =
     {i. i < k \<and> reads insts i r \<and> (\<forall>m. i < m \<and> m < k \<longrightarrow> \<not> writes insts m r)}"
proof (induction k)
  case 0
  show ?case by (simp add: build_graph_def empty_graph_def)
next
  case (Suc k)
  have "set (pending_reads (build_graph insts (Suc k)) r) =
      (if writes insts k r then {} else set (pending_reads (build_graph insts k) r))
      \<union> (if reads insts k r then {k} else {})"
    by (auto simp: build_graph_Suc graph_step_def Let_def set_fold_reads writes_def reads_def)
  with Suc show ?case by (auto simp: less_Suc_eq)
qed

lemma last_such_less: "last_such P k (Some w) \<Longrightarrow> w < k"
  by (simp add: last_such_def)

lemma preds_at_iff:
  "p \<in> set (preds_at insts i) \<longleftrightarrow> p \<in> set (raw_preds insts i)
     \<or> has_dest (insts ! i) \<and> p \<in> set (pending_reads (build_graph insts i) (dest (insts ! i)))
     \<or> has_dest (insts ! i) \<and> last_write_pos (build_graph insts i) (dest (insts ! i)) = Some p
     \<or> inst_kind (insts ! i) = LOAD \<and> last_store_idx (build_graph insts i) = Some p"
proof -
  have opt: "set (case w of None \<Rightarrow> [] | Some x \<Rightarrow> [x]) = {x. w = Some x}" for w :: "nat option"
    by (cases w) auto
  have iff: "set (if b then xs else []) = {x. b \<and> x \<in> set xs}" for b and xs :: "nat list"
    by auto
  show ?thesis
    unfolding preds_at_def preds_of_def Let_def by (simp only: set_append Un_iff opt iff mem_Collect_eq)
qed

lemma preds_at_less:
  assumes "p \<in> set (preds_at insts i)"
  shows "p < i"
proof -
  let ?g = "build_graph insts i"
  have 1: "last_write_pos ?g r = Some p \<Longrightarrow> p < i" for r
    using graph_last_write [of insts r i] last_such_less by simp
  have 2: "last_store_idx ?g = Some p \<Longrightarrow> p < i"
    using graph_last_store [of insts i] last_such_less by simp
  have 3: "p \<in> set (pending_reads ?g r) \<Longrightarrow> p < i" for r
    using graph_pending [of insts i r] by simp
  show ?thesis using assms raw_preds_less 1 2 3 unfolding preds_at_iff by blast
qed

lemma graph_counts:
  "length (dep_count (build_graph insts k)) = k \<and>
   (\<forall>i<k. dep_count (build_graph insts k) ! i = int (length (preds_at insts i))) \<and>
   ready0 (build_graph insts k) = filter (\<lambda>i. preds_at insts i = []) [0..<k] \<and>
   (\<forall>p i. count_list (dependents (build_graph insts k) p) i =
      (if i < k then count_list (preds_at insts i) p else 0))"
proof (induction k)
  case 0
  show ?case by (simp add: build_graph_def empty_graph_def)
next
  case (Suc k)
  then show ?case
    by (auto simp: build_graph_Suc graph_step_def Let_def count_fold_edges nth_append less_Suc_eq
        preds_at_def [symmetric])
qed


subsection \<open>The scheduling loop\<close>

definition ordered :: "('a set \<Rightarrow> 'a \<Rightarrow> bool) \<Rightarrow> 'a list \<Rightarrow> bool" where
  "ordered P xs \<longleftrightarrow> (\<forall>k<length xs. P (set (take k xs)) (xs ! k))"

lemma ordered_Nil [simp]: "ordered P []"
  by (simp add: ordered_def)

lemma ordered_snoc [simp]: "ordered P (xs @ [x]) \<longleftrightarrow> ordered P xs \<and> P (set xs) x"
  by (auto simp: ordered_def nth_append less_Suc_eq)

lemma release_fold:
  assumes "\<forall>d\<in>set ds. d < length c" "\<forall>i\<in>set ds. int (count_list ds i) \<le> c ! i"
  shows "\<exists>c' z. fold release ds (c, r) = (c', r @ z) \<and> length c' = length c
     \<and> (\<forall>i<length c. c' ! i = c ! i - int (count_list ds i))
     \<and> distinct z \<and> set z = {i \<in> set ds. c ! i = int (count_list ds i)}"
  using assms
proof (induction ds arbitrary: c r)
  case (Cons d ds)
  define c1 where "c1 = c[d := c ! d - 1]"
  define r1 where "r1 = (if c1 ! d = 0 then r @ [d] else r)"
  have d: "d < length c" using Cons.prems by simp
  have c1: "c1 ! i = (if i = d then c ! d - 1 else c ! i)" if "i < length c" for i
    using that d by (simp add: c1_def nth_list_update)
  have "\<forall>i\<in>set ds. int (count_list ds i) \<le> c1 ! i"
    using Cons.prems c1 by (fastforce split: if_splits)
  moreover have "\<forall>d\<in>set ds. d < length c1" using Cons.prems by (simp add: c1_def)
  ultimately obtain c' z where IH: "fold release ds (c1, r1) = (c', r1 @ z)" "length c' = length c1"
     "\<forall>i<length c1. c' ! i = c1 ! i - int (count_list ds i)"
     "distinct z" "set z = {i \<in> set ds. c1 ! i = int (count_list ds i)}"
    using Cons.IH [of c1 r1] by blast
  have step: "fold release (d # ds) (c, r) = fold release ds (c1, r1)"
    by (simp add: release_def c1_def r1_def Let_def)
  have zero: "c1 ! d = 0 \<longleftrightarrow> c ! d = int (count_list (d # ds) d) \<and> d \<notin> set ds"
    using c1 [OF d] Cons.prems(2) by (auto simp: count_list_0_iff)
  let ?z = "if c1 ! d = 0 then d # z else z"
  have "distinct ?z" using IH(4,5) zero by auto
  moreover have "set ?z = {i \<in> set (d # ds). c ! i = int (count_list (d # ds) i)}"
    using IH(5) zero c1 Cons.prems(1) d by (auto split: if_splits simp: count_list_0_iff)
  ultimately show ?case
    using step IH(1-3) c1
    by (intro exI [of _ c'] exI [of _ ?z]) (auto simp: r1_def c1_def)
qed simp

lemma filter_count:
  "b \<notin> S \<Longrightarrow> length (filter (\<lambda>p. p \<notin> S) xs)
     = length (filter (\<lambda>p. p \<notin> insert b S) xs) + count_list xs b"
  by (induction xs) auto

text \<open>What must precede an instruction: its predecessors, and for a store everything before it.\<close>

definition control_last :: "AECInstruction list \<Rightarrow> bool" where
  "control_last insts \<longleftrightarrow> (\<forall>i<length insts. inst_kind (insts ! i) = CONTROL \<longrightarrow> i = length insts - 1)"

definition goes_after :: "AECInstruction list \<Rightarrow> nat set \<Rightarrow> nat \<Rightarrow> bool" where
  "goes_after insts S i \<longleftrightarrow> set (preds_at insts i) \<subseteq> S
     \<and> (control_last insts \<and> inst_kind (insts ! i) \<in> {STORE, CONTROL} \<longrightarrow> {..<i} \<subseteq> S)"

definition loop_inv :: "AECInstruction list \<Rightarrow> nat list \<Rightarrow> int list \<Rightarrow> nat list \<Rightarrow> bool" where
  "loop_inv insts ready counts sched \<longleftrightarrow>
     distinct sched \<and> distinct ready \<and> set sched \<subseteq> {..<length insts}
     \<and> set ready = {i. i < length insts \<and> i \<notin> set sched \<and> set (preds_at insts i) \<subseteq> set sched}
     \<and> length counts = length insts
     \<and> (\<forall>i<length insts. counts ! i = int (length (filter (\<lambda>p. p \<notin> set sched) (preds_at insts i))))
     \<and> ordered (goes_after insts) sched"

abbreviation graph_deps :: "AECInstruction list \<Rightarrow> nat \<Rightarrow> nat list" where
  "graph_deps insts \<equiv> dependents (build_graph insts (length insts))"

lemma loop_inv_init:
  "loop_inv insts (ready0 (build_graph insts (length insts))) (dep_count (build_graph insts (length insts))) []"
  using graph_counts [of insts "length insts"] by (auto simp: loop_inv_def)

lemma ready_least:
  assumes "loop_inv insts ready counts sched" "i < length insts" "i \<notin> set sched"
  obtains m where "m \<in> set ready" "m \<le> i" "{..<m} \<subseteq> set sched"
proof -
  have "\<exists>m. m < length insts \<and> m \<notin> set sched" using assms(2,3) by blast
  then obtain m where m: "m < length insts" "m \<notin> set sched"
    and min: "\<And>j. j < m \<Longrightarrow> \<not> (j < length insts \<and> j \<notin> set sched)"
    unfolding exists_least_iff [of "\<lambda>m. m < length insts \<and> m \<notin> set sched"] by blast
  have below: "j \<in> set sched" if "j < m" for j
    using min [OF that] that m(1) by linarith
  have "set (preds_at insts m) \<subseteq> set sched"
    using below preds_at_less by blast
  then have "m \<in> set ready"
    using assms(1) m by (simp add: loop_inv_def)
  moreover have "m \<le> i" using min assms(2,3) by (metis not_less)
  moreover have "{..<m} \<subseteq> set sched" using below by blast
  ultimately show ?thesis using that by blast
qed

lemma loop_inv_done:
  assumes "loop_inv insts [] counts sched"
  shows "set sched = {..<length insts}"
proof
  show "set sched \<subseteq> {..<length insts}" using assms by (simp add: loop_inv_def)
  show "{..<length insts} \<subseteq> set sched" using ready_least [OF assms] by fastforce
qed

lemma sort_key_least:
  assumes "sort_key f xs = b # rest" "x \<in> set xs"
  shows "f b \<le> (f x :: 'k::linorder)"
proof -
  have "sorted (map f (b # rest))" using sorted_sort_key [of f xs] assms(1) by simp
  moreover have "x \<in> set (b # rest)" using assms by (metis set_sort)
  ultimately show ?thesis by auto
qed

lemma best_goes_after:
  assumes inv: "loop_inv insts ready counts sched"
    and best: "sort_key (\<lambda>i. (priority insts i, i)) ready = best # rest"
  shows "goes_after insts (set sched) best"
proof -
  have b: "best \<in> set ready" using best by (metis list.set_intros(1) set_sort)
  have "{..<best} \<subseteq> set sched"
    if cl: "control_last insts" and k: "inst_kind (insts ! best) \<in> {STORE, CONTROL}"
  proof -
    have bn: "best < length insts" "best \<notin> set sched" using b inv by (auto simp: loop_inv_def)
    obtain m where m: "m \<in> set ready" "m \<le> best" "{..<m} \<subseteq> set sched"
      using ready_least [OF inv bn] .
    have mn: "m < length insts" using m(2) bn(1) by simp
    have le: "(priority insts best, best) \<le> (priority insts m, m)"
      using sort_key_least [OF best m(1)] .
    have "m = best"
    proof (rule ccontr)
      assume "m \<noteq> best"
      then have "m < best" using m(2) by simp
      have "inst_kind (insts ! m) \<noteq> CONTROL"
      proof
        assume "inst_kind (insts ! m) = CONTROL"
        then have "m = length insts - 1" using cl mn by (simp add: control_last_def)
        with \<open>m < best\<close> bn(1) show False by linarith
      qed
      then have "priority insts m < priority insts best"
        using k \<open>m < best\<close> by (cases "inst_kind (insts ! m)") (auto simp: priority_def)
      with le show False by simp
    qed
    with m(3) show ?thesis by simp
  qed
  with b inv show ?thesis by (auto simp: goes_after_def loop_inv_def)
qed

lemma loop_inv_step:
  assumes inv: "loop_inv insts ready counts sched"
    and best: "sort_key (\<lambda>i. (priority insts i, i)) ready = best # rest"
    and rel: "fold release (graph_deps insts best) (counts, rest) = (counts', ready')"
  shows "loop_inv insts ready' counts' (sched @ [best])"
proof -
  let ?n = "length insts" and ?pre = "preds_at insts" and ?S = "set sched"
  have dist: "distinct (best # rest)"
    using inv distinct_sort [of "\<lambda>i. (priority insts i, i)" ready] by (simp add: best loop_inv_def)
  have rset: "set ready = insert best (set rest)"
    using set_sort [of "\<lambda>i. (priority insts i, i)" ready] by (simp add: best)
  have b: "best < ?n" "best \<notin> ?S" "set (?pre best) \<subseteq> ?S"
    using inv rset by (auto simp: loop_inv_def)
  have cnt: "count_list (graph_deps insts best) i = (if i < ?n then count_list (?pre i) best else 0)" for i
    using graph_counts [of insts ?n] by blast
  have deps: "d \<in> set (graph_deps insts best) \<longleftrightarrow> d < ?n \<and> best \<in> set (?pre d)" for d
    using cnt [of d] count_list_0_iff [of "graph_deps insts best" d] count_list_0_iff [of "?pre d" best]
    by (simp split: if_splits)
  have c: "counts ! i = int (length (filter (\<lambda>p. p \<notin> insert best ?S) (?pre i)) + count_list (?pre i) best)"
    if "i < ?n" for i
    using inv that filter_count [OF b(2), of "?pre i"] by (simp add: loop_inv_def)
  have len: "length counts = ?n" using inv by (simp add: loop_inv_def)
  obtain c' z where z: "counts' = c'" "ready' = rest @ z" "length c' = ?n"
    "\<And>i. i < ?n \<Longrightarrow> c' ! i = counts ! i - int (count_list (graph_deps insts best) i)"
    "distinct z" "set z = {i \<in> set (graph_deps insts best). counts ! i = int (count_list (graph_deps insts best) i)}"
    using release_fold [of "graph_deps insts best" counts rest] rel c cnt deps len by auto
  have zset: "set z = {i. i < ?n \<and> best \<in> set (?pre i) \<and> set (?pre i) \<subseteq> insert best ?S}"
    unfolding z(6) using c by (auto simp: deps cnt filter_empty_conv)
  have pre_sched: "set (?pre i) \<subseteq> ?S" if i: "i \<in> ?S" for i
  proof -
    obtain k where "k < length sched" "sched ! k = i" using i by (auto simp: in_set_conv_nth)
    then have "set (?pre i) \<subseteq> set (take k sched)"
      using inv by (auto simp: loop_inv_def ordered_def goes_after_def)
    then show ?thesis using set_take_subset by fast
  qed
  have ready: "set ready = {i. i < ?n \<and> i \<notin> ?S \<and> set (?pre i) \<subseteq> ?S}"
    using inv by (simp add: loop_inv_def)
  have rest: "set rest = {i. i < ?n \<and> i \<notin> ?S \<and> i \<noteq> best \<and> set (?pre i) \<subseteq> ?S}"
    using rset dist ready by auto
  have zb: "i \<notin> ?S \<and> i \<noteq> best" if "i \<in> set z" for i
    using that zset pre_sched b(2) preds_at_less [of best insts i] by auto
  have "distinct ready'" using dist z(2,5) zset rest b by auto
  moreover have "set ready' = {i. i < ?n \<and> i \<notin> set (sched @ [best]) \<and> set (?pre i) \<subseteq> set (sched @ [best])}"
    unfolding z(2) set_append using zb zset rest by auto
  moreover have "counts' ! i = int (length (filter (\<lambda>p. p \<notin> set (sched @ [best])) (?pre i)))"
    if "i < ?n" for i
    using z(1,4) c cnt that by simp
  ultimately show ?thesis
    using inv b z(1,3) best_goes_after [OF inv best] by (auto simp: loop_inv_def)
qed

lemma sched_loop_ok:
  assumes "loop_inv insts ready counts sched" "length insts \<le> fuel + length sched"
  shows "\<exists>out. sched_loop insts (graph_deps insts) fuel ready counts sched = Some out
     \<and> distinct out \<and> set out = {..<length insts} \<and> ordered (goes_after insts) out"
  using assms
proof (induction fuel arbitrary: ready counts sched)
  case fuel: 0
  show ?case
  proof (cases ready)
    case Nil
    have "set sched = {..<length insts}"
      using fuel.prems(1) loop_inv_done unfolding Nil by blast
    with Nil fuel.prems show ?thesis by (subst sched_loop.simps) (simp add: loop_inv_def)
  next
    case (Cons r rs)
    have "card (set sched) = length sched" "r < length insts" "r \<notin> set sched" "set sched \<subseteq> {..<length insts}"
      using fuel.prems Cons by (auto simp: loop_inv_def distinct_card)
    moreover have "card (set sched) < card {..<length insts}"
      using calculation by (intro psubset_card_mono) auto
    ultimately show ?thesis using fuel.prems(2) by simp
  qed
next
  case (Suc fuel)
  show ?case
  proof (cases "sort_key (\<lambda>i. (priority insts i, i)) ready")
    case Nil
    then have "ready = []" by (metis length_0_conv length_sort)
    then have "set sched = {..<length insts}"
      using Suc.prems(1) loop_inv_done by blast
    with \<open>ready = []\<close> Suc.prems show ?thesis by (subst sched_loop.simps) (simp add: loop_inv_def)
  next
    case (Cons best rest)
    obtain counts' ready' where rel: "fold release (graph_deps insts best) (counts, rest) = (counts', ready')"
      by fastforce
    have "sched_loop insts (graph_deps insts) (Suc fuel) ready counts sched
        = sched_loop insts (graph_deps insts) fuel ready' counts' (sched @ [best])"
      by (subst sched_loop.simps) (simp add: Cons rel)
    with Suc.IH [OF loop_inv_step [OF Suc.prems(1) Cons rel]] Suc.prems(2) show ?thesis by simp
  qed
qed

theorem schedule_indices_total:
  "\<exists>out. schedule_indices insts = Some out \<and> distinct out \<and> set out = {..<length insts}
     \<and> ordered (goes_after insts) out"
  using sched_loop_ok [OF loop_inv_init, of insts "length insts"] by (simp add: schedule_indices_def Let_def)


subsection \<open>The order of conflicting instructions\<close>

lemma ordered_before:
  assumes "ordered P xs" "y \<in> set xs" "\<And>S. P S y \<Longrightarrow> x \<in> S"
  shows "before xs x y"
proof -
  obtain b where b: "b < length xs" "xs ! b = y" using assms(2) by (auto simp: in_set_conv_nth)
  then have "x \<in> set (take b xs)" using assms(1,3) by (auto simp: ordered_def)
  then obtain a where "a < b" "xs ! a = x" by (auto simp: in_set_conv_nth)
  with b show ?thesis by (auto simp: before_def)
qed

text \<open>Which pairs the dependency graph keeps in order, \<open>i\<close> being the earlier one.\<close>

definition conflict :: "AECInstruction list \<Rightarrow> nat \<Rightarrow> nat \<Rightarrow> bool" where
  "conflict insts i j \<longleftrightarrow>
     (\<exists>r. writes insts i r \<and> (reads insts j r \<or> writes insts j r) \<or> reads insts i r \<and> writes insts j r)
     \<or> inst_kind (insts ! i) = STORE \<and> inst_kind (insts ! j) = LOAD
     \<or> inst_kind (insts ! j) \<in> {STORE, CONTROL}"

lemma conflict_before:
  assumes out: "distinct out" "set out = {..<length insts}" "ordered (goes_after insts) out"
    and cl: "control_last insts" and ij: "i < j" "j < length insts" and c: "conflict insts i j"
  shows "before out i j"
proof -
  note trans = before_trans [OF out(1)]
  have edge: "before out p k" if "p \<in> set (preds_at insts k)" "k < length insts" for p k
    using that out by (intro ordered_before [OF out(3)]) (auto simp: goes_after_def)
  have barrier: "before out p k" if "inst_kind (insts ! k) \<in> {STORE, CONTROL}" "p < k" "k < length insts" for p k
    using that out cl by (intro ordered_before [OF out(3)]) (auto simp: goes_after_def)
  have waw: "before out p k" if "writes insts p r" "writes insts k r" "p < k" "k < length insts" for p k r
    using that
  proof (induction k rule: less_induct)
    case (less k)
    let ?w = "last_write_pos (build_graph insts k) r"
    have lw: "last_such (\<lambda>i. writes insts i r) k ?w" by (rule graph_last_write)
    then obtain w where w: "?w = Some w" "w < k" "writes insts w r" "p \<le> w"
      using less.prems by (cases ?w) (auto simp: last_such_def not_less [symmetric])
    have "before out w k"
      using w less.prems by (intro edge) (auto simp: preds_at_iff writes_def)
    then show ?case
      using less.IH [OF w(2)] less.prems w trans by (cases "p = w") auto
  qed
  show ?thesis
    using c unfolding conflict_def
  proof (elim disjE exE conjE)
    fix r assume "writes insts i r" "writes insts j r"
    then show ?thesis using waw ij by blast
  next
    fix r assume r: "writes insts i r" "reads insts j r"
    obtain p where p: "p \<in> set (raw_preds insts j)" "i \<le> p" "p < j" "writes insts p r"
      using raw_preds_cover [OF r(2,1) ij(1)] ij by auto
    then have "before out p j" using ij by (intro edge) (auto simp: preds_at_iff)
    moreover have "i \<noteq> p \<Longrightarrow> before out i p" using waw [OF r(1) p(4)] p ij by simp
    ultimately show ?thesis using trans by (cases "i = p") auto
  next
    fix r assume r: "reads insts i r" "writes insts j r"
    let ?P = "\<lambda>k. i < k \<and> writes insts k r"
    obtain k where k: "?P k" "\<And>m. m < k \<Longrightarrow> \<not> ?P m"
      using exists_least_iff [of ?P] ij(1) r(2) by blast
    have "k \<le> j" using k(2) ij(1) r(2) by (meson not_less)
    then have "before out i k"
      using k r(1) ij by (intro edge) (auto simp: preds_at_iff graph_pending writes_def)
    moreover have "k \<noteq> j \<Longrightarrow> before out k j" using waw [of k r j] k(1) r(2) \<open>k \<le> j\<close> ij by simp
    ultimately show ?thesis using trans by (cases "k = j") auto
  next
    assume s: "inst_kind (insts ! i) = STORE" "inst_kind (insts ! j) = LOAD"
    let ?w = "last_store_idx (build_graph insts j)"
    have ls: "last_such (\<lambda>i. inst_kind (insts ! i) = STORE) j ?w" by (rule graph_last_store)
    then obtain w where w: "?w = Some w" "w < j" "inst_kind (insts ! w) = STORE" "i \<le> w"
      using s ij by (cases ?w) (auto simp: last_such_def not_less [symmetric])
    have "before out w j" using w s ij by (intro edge) (auto simp: preds_at_iff)
    moreover have "i \<noteq> w \<Longrightarrow> before out i w" using barrier [of w i] w ij by simp
    ultimately show ?thesis using trans by (cases "i = w") auto
  next
    assume "inst_kind (insts ! j) \<in> {STORE, CONTROL}"
    then show ?thesis using barrier ij by blast
  qed
qed
end
