(* ===== verification/Sched_Sem.thy ===== *)
theory Sched_Sem
  imports Lane_Effect Sched_Order "HOL-Library.Multiset"
begin

unbundle bit_operations_syntax

text \<open>
  A scheduled basic block runs as the original. A warp of the simulator executing one instruction is
  a step; two instructions the dependency graph does not order commute (up to the order of the
  access log), which interprets the contract \<open>commuting_steps\<close>; its reordering theorem, with the
  order kept by the scheduler, gives that the scheduled block ends in the same lanes and memory.
\<close>

subsection \<open>A warp's instruction, lane by lane\<close>

definition pure_lane :: "float_host \<Rightarrow> AECInstruction \<Rightarrow> sim_state \<Rightarrow> LaneState
    \<Rightarrow> sim_error + LaneState \<times> MemoryAccess list" where
  "pure_lane h x s l = bind_r (guard_passes x l) (\<lambda>go.
     if go then bind_r (lane_value h x l s) (\<lambda>(w, log). bind_r (apply_write w l) (\<lambda>l'. Inr (l', log)))
     else Inr (l, []))"

definition store_lane :: "AECInstruction \<Rightarrow> LaneState \<Rightarrow> sim_state \<Rightarrow> sim_error + sim_state" where
  "store_lane x l s = bind_r (guard_passes x l) (\<lambda>go.
     if go then bind_r (store_value x l (gmem s))
       (\<lambda>(m, log). Inr (s\<lparr>gmem := m, accesses := accesses s @ log\<rparr>))
     else Inr s)"

lemma inst_kind_ST: "inst_kind x = STORE \<longleftrightarrow> py_upper (opcode x) = ''ST''"
  by (auto simp: inst_kind_def Let_def)

lemma has_dest_kind: "has_dest x \<longleftrightarrow> inst_kind x \<in> {LOAD, COMPUTE}"
  by (auto simp: inst_kind_def has_dest_def Let_def)

lemma pure_lane_mem: "pmem s = pmem t \<Longrightarrow> gmem s = gmem t \<Longrightarrow> pure_lane h x s = pure_lane h x t"
proof -
  assume "pmem s = pmem t" "gmem s = gmem t"
  then have lv: "lane_value h x l s = lane_value h x l t" for l
    by (intro lane_value_agree) (simp_all add: agree_sources_def same_static_def)
  show ?thesis by (rule ext) (unfold pure_lane_def lv, rule refl)
qed

lemma exec_lanes_pure:
  assumes "plain x" "has_dest x"
  shows "exec_lanes h x lanes s = Inr (lanes', s') \<longleftrightarrow>
    (\<exists>rs. list_all2 (\<lambda>l r. pure_lane h x s l = Inr r) lanes rs \<and> lanes' = map fst rs
       \<and> s' = s\<lparr>accesses := accesses s @ concat (map snd rs)\<rparr>)"
proof (induction lanes arbitrary: s lanes' s')
  case (Cons l ls)
  have ex: "execute_lane h x l s = finish_lane l s (lane_value h x l s)"
    using assms by (intro execute_lane_value) (auto simp: has_dest_def)
  have one: "(case guard_passes x l of Inl e \<Rightarrow> Inl (e, s)
      | Inr go \<Rightarrow> (case (if go then execute_lane h x l s else Inr (l, s)) of
           Inl e \<Rightarrow> Inl (e, s) | Inr r \<Rightarrow> k r)) =
      (case pure_lane h x s l of Inl e \<Rightarrow> Inl (e, s)
       | Inr (l', log) \<Rightarrow> k (l', s\<lparr>accesses := accesses s @ log\<rparr>))"
    for k :: "LaneState \<times> sim_state \<Rightarrow> (sim_error \<times> sim_state) + LaneState list \<times> sim_state"
    by (auto simp: pure_lane_def ex finish_lane_def bind_r_def split: sum.splits)
  have unf: "exec_lanes h x (l # ls) s = (case pure_lane h x s l of Inl e \<Rightarrow> Inl (e, s)
       | Inr (l', log) \<Rightarrow> (case exec_lanes h x ls (s\<lparr>accesses := accesses s @ log\<rparr>) of
            Inl e \<Rightarrow> Inl e | Inr (ls', s'') \<Rightarrow> Inr (l' # ls', s'')))"
    unfolding exec_lanes.simps by (subst one) (simp split: sum.split)
  have mem: "pure_lane h x (s\<lparr>accesses := a\<rparr>) = pure_lane h x s" for a
    by (rule pure_lane_mem) simp_all
  show ?case
  proof (cases "pure_lane h x s l")
    case (Inl e)
    then show ?thesis by (auto simp: unf list_all2_Cons1 simp del: exec_lanes.simps)
  next
    case (Inr r)
    obtain l' log where r: "r = (l', log)" by (cases r)
    let ?s1 = "s\<lparr>accesses := accesses s @ log\<rparr>"
    have "exec_lanes h x (l # ls) s = Inr (lanes', s') \<longleftrightarrow>
        (\<exists>ls'. exec_lanes h x ls ?s1 = Inr (ls', s') \<and> lanes' = l' # ls')"
      by (cases "exec_lanes h x ls ?s1") (auto simp: unf Inr r simp del: exec_lanes.simps)
    also have "\<dots> \<longleftrightarrow> (\<exists>rs. list_all2 (\<lambda>l r. pure_lane h x s l = Inr r) ls rs \<and> lanes' = l' # map fst rs
        \<and> s' = s\<lparr>accesses := accesses s @ log @ concat (map snd rs)\<rparr>)"
      unfolding Cons.IH by (auto simp: mem)
    also have "\<dots> \<longleftrightarrow> (\<exists>rs. list_all2 (\<lambda>l r. pure_lane h x s l = Inr r) (l # ls) rs \<and> lanes' = map fst rs
        \<and> s' = s\<lparr>accesses := accesses s @ concat (map snd rs)\<rparr>)"
      unfolding list_all2_Cons1 by (auto simp: Inr r)
    finally show ?thesis .
  qed
qed auto

lemma exec_lanes_store:
  assumes "inst_kind x = STORE"
  shows "exec_lanes h x lanes s = Inr (lanes', s') \<longleftrightarrow> lanes' = lanes \<and> fold_r (store_lane x) lanes s = Inr s'"
proof (induction lanes arbitrary: s lanes')
  case (Cons l ls)
  have ex: "execute_lane h x l s = execute_store x l s"
    using assms by (simp add: execute_lane_def inst_kind_ST Let_def)
  have unf: "exec_lanes h x (l # ls) s = (case store_lane x l s of Inl e \<Rightarrow> Inl (e, s)
       | Inr s1 \<Rightarrow> (case exec_lanes h x ls s1 of Inl e \<Rightarrow> Inl e | Inr (ls', s'') \<Rightarrow> Inr (l # ls', s'')))"
    by (auto simp: ex store_lane_def execute_store_value bind_r_def split: sum.splits)
  show ?case
  proof (cases "store_lane x l s")
    case (Inr s1)
    then show ?thesis
      using Cons.IH [of s1] by (cases "exec_lanes h x ls s1") (auto simp: unf simp del: exec_lanes.simps)
  qed (auto simp: unf simp del: exec_lanes.simps)
qed auto

subsection \<open>The interface: steps of a warp\<close>

definition bump :: "sim_state \<Rightarrow> sim_state" where
  "bump s = s\<lparr>dynamic_instruction_count := dynamic_instruction_count s + 1\<rparr>"

definition warp_step :: "float_host \<Rightarrow> AECInstruction \<Rightarrow> LaneState list \<times> sim_state
    \<Rightarrow> (LaneState list \<times> sim_state) option" where
  "warp_step h inst st = (case st of (lanes, s) \<Rightarrow>
     (if inst_kind inst = CONTROL then None
      else case exec_lanes h inst lanes (bump s) of Inl _ \<Rightarrow> None | Inr r \<Rightarrow> Some r))"

text \<open>Equal up to the order in which the memory accesses were logged.\<close>

definition log_eqv :: "sim_state \<Rightarrow> sim_state \<Rightarrow> bool" where
  "log_eqv s t \<longleftrightarrow> s = t\<lparr>accesses := accesses s\<rparr> \<and> mset (accesses s) = mset (accesses t)"

definition warp_eqv :: "LaneState list \<times> sim_state \<Rightarrow> LaneState list \<times> sim_state \<Rightarrow> bool" where
  "warp_eqv a b \<longleftrightarrow> fst a = fst b \<and> log_eqv (snd a) (snd b)"

definition independent :: "AECInstruction \<Rightarrow> AECInstruction \<Rightarrow> bool" where
  "independent x y \<longleftrightarrow> inst_kind x \<noteq> CONTROL \<and> has_dest y
     \<and> \<not> (inst_kind x = STORE \<and> inst_kind y = LOAD)
     \<and> no_flow x y \<and> no_flow y x \<and> (has_dest x \<longrightarrow> dest x \<noteq> dest y)"

lemma log_eqv_refl [simp]: "log_eqv s s"
  by (simp add: log_eqv_def)

lemma log_eqv_trans: "log_eqv s t \<Longrightarrow> log_eqv t u \<Longrightarrow> log_eqv s u"
  by (cases s; cases t; cases u) (auto simp: log_eqv_def)

lemma log_eqv_append:
  "log_eqv s t \<Longrightarrow> log_eqv (s\<lparr>gmem := m, accesses := accesses s @ g\<rparr>) (t\<lparr>gmem := m, accesses := accesses t @ g\<rparr>)"
  by (cases s; cases t) (auto simp: log_eqv_def)

lemma log_eqv_log:
  "log_eqv s t \<Longrightarrow> mset g = mset g' \<Longrightarrow>
     log_eqv (s\<lparr>accesses := accesses s @ g\<rparr>) (t\<lparr>accesses := accesses t @ g'\<rparr>)"
  by (cases s; cases t) (auto simp: log_eqv_def)

lemma log_eqv_mem: "log_eqv s t \<Longrightarrow> pmem s = pmem t \<and> gmem s = gmem t"
  by (cases s; cases t) (auto simp: log_eqv_def)

lemma log_eqv_bump: "log_eqv s t \<Longrightarrow> log_eqv (bump s) (bump t)"
  by (cases s; cases t) (auto simp: log_eqv_def bump_def)

lemma warp_step_pure:
  assumes "plain x" "has_dest x"
  shows "warp_step h x (lanes, s) = Some r \<longleftrightarrow>
    (\<exists>rs. list_all2 (\<lambda>l r. pure_lane h x s l = Inr r) lanes rs
       \<and> r = (map fst rs, (bump s)\<lparr>accesses := accesses s @ concat (map snd rs)\<rparr>))"
proof -
  have mem: "pure_lane h x (bump s) = pure_lane h x s" by (rule pure_lane_mem) (simp_all add: bump_def)
  have "warp_step h x (lanes, s) = Some r \<longleftrightarrow> exec_lanes h x lanes (bump s) = Inr r"
    using assms(2) by (auto simp: warp_step_def has_dest_kind split: sum.splits)
  then show ?thesis
    by (cases r) (simp add: exec_lanes_pure [OF assms] mem, simp add: bump_def)
qed

lemma warp_step_store:
  assumes "inst_kind x = STORE"
  shows "warp_step h x (lanes, s) = Some r \<longleftrightarrow>
    (\<exists>s'. fold_r (store_lane x) lanes (bump s) = Inr s' \<and> r = (lanes, s'))"
proof -
  have "warp_step h x (lanes, s) = Some r \<longleftrightarrow> exec_lanes h x lanes (bump s) = Inr r"
    using assms by (auto simp: warp_step_def split: sum.splits)
  then show ?thesis by (cases r) (auto simp: exec_lanes_store [OF assms])
qed

lemma store_lane_Inr:
  "store_lane x l s = Inr s' \<longleftrightarrow> guard_passes x l = Inr False \<and> s' = s
     \<or> guard_passes x l = Inr True \<and> (\<exists>m g. store_value x l (gmem s) = Inr (m, g)
        \<and> s' = s\<lparr>gmem := m, accesses := accesses s @ g\<rparr>)"
proof (cases "guard_passes x l")
  case (Inr go)
  then show ?thesis by (cases go) (auto simp: store_lane_def)
qed (simp add: store_lane_def)

lemma fold_store_eqv:
  "log_eqv s t \<Longrightarrow> fold_r (store_lane x) lanes s = Inr s' \<Longrightarrow>
     \<exists>t'. fold_r (store_lane x) lanes t = Inr t' \<and> log_eqv s' t'"
proof (induction lanes arbitrary: s t)
  case (Cons l ls)
  then obtain s1 where s1: "store_lane x l s = Inr s1" "fold_r (store_lane x) ls s1 = Inr s'" by auto
  obtain t1 where t1: "store_lane x l t = Inr t1" "log_eqv s1 t1"
    using s1(1) Cons.prems(1) log_eqv_append [OF Cons.prems(1)] log_eqv_mem [OF Cons.prems(1)]
    unfolding store_lane_Inr by metis
  from Cons.IH [OF t1(2) s1(2)] t1(1) show ?case by auto
qed auto

lemma warp_step_eqv:
  assumes "plain x" "warp_eqv a b" "warp_step h x a = Some t"
  shows "\<exists>t'. warp_step h x b = Some t' \<and> warp_eqv t t'"
proof -
  obtain lanes s s2 where ab: "a = (lanes, s)" "b = (lanes, s2)" and e: "log_eqv s s2"
    using assms(2) by (cases a; cases b) (auto simp: warp_eqv_def)
  consider "inst_kind x = CONTROL" | "inst_kind x = STORE" | "has_dest x"
    by (cases "inst_kind x") (simp_all add: has_dest_kind)
  then show ?thesis
  proof cases
    case 1
    then show ?thesis using assms(3) by (simp add: warp_step_def ab)
  next
    case 2
    then show ?thesis
      using assms(3) fold_store_eqv [OF log_eqv_bump [OF e]]
      by (force simp: ab warp_step_store warp_eqv_def)
  next
    case d: 3
    obtain rs where rs: "list_all2 (\<lambda>l r. pure_lane h x s l = Inr r) lanes rs"
      and t: "t = (map fst rs, (bump s)\<lparr>accesses := accesses s @ concat (map snd rs)\<rparr>)"
      using assms(3) unfolding ab warp_step_pure [OF assms(1) d] by blast
    have "pure_lane h x s = pure_lane h x s2" by (rule pure_lane_mem) (use log_eqv_mem [OF e] in auto)
    with rs have "warp_step h x b = Some (map fst rs, (bump s2)\<lparr>accesses := accesses s2 @ concat (map snd rs)\<rparr>)"
      unfolding ab warp_step_pure [OF assms(1) d] by auto
    moreover have "log_eqv ((bump s)\<lparr>accesses := accesses s @ concat (map snd rs)\<rparr>)
        ((bump s2)\<lparr>accesses := accesses s2 @ concat (map snd rs)\<rparr>)"
      using log_eqv_log [OF log_eqv_bump [OF e], of "concat (map snd rs)" "concat (map snd rs)"]
      by (simp add: bump_def)
    ultimately show ?thesis by (auto simp: t warp_eqv_def)
  qed
qed

subsection \<open>Swapping two independent instructions\<close>

lemma pure_lane_skip: "guard_passes x l = Inr False \<Longrightarrow> pure_lane h x s l = Inr (l, [])"
  by (simp add: pure_lane_def)

lemma pure_lane_go:
  "guard_passes x l = Inr True \<Longrightarrow> pure_lane h x s l = Inr (l', g) \<longleftrightarrow>
     (\<exists>w. lane_value h x l s = Inr (w, g) \<and> apply_write w l = Inr l')"
  by (auto simp: pure_lane_def)

lemma pure_lane_cases:
  assumes "pure_lane h x s l = Inr (l', g)"
  obtains "guard_passes x l = Inr False" "l' = l" "g = []"
  | w where "guard_passes x l = Inr True" "lane_value h x l s = Inr (w, g)" "apply_write w l = Inr l'"
proof -
  obtain go where go: "guard_passes x l = Inr go" using assms by (auto simp: pure_lane_def)
  show ?thesis
  proof (cases go)
    case True
    with go have g: "guard_passes x l = Inr True" by simp
    from assms [unfolded pure_lane_go [OF g]] that(2) [OF g] show ?thesis by blast
  next
    case False
    with go have g: "guard_passes x l = Inr False" by simp
    from assms [unfolded pure_lane_skip [OF g]] show ?thesis by (intro that(1) [OF g]) simp_all
  qed
qed

lemma lane_swap:
  assumes p: "plain x" "plain y" and d: "has_dest x" "has_dest y" and i: "independent x y"
    and x: "pure_lane h x s l = Inr (l1, g)" and y: "pure_lane h y s l1 = Inr (l2, k)"
  shows "\<exists>m. pure_lane h y s l = Inr (m, k) \<and> pure_lane h x s m = Inr (l2, g)"
  using x
proof (cases rule: pure_lane_cases)
  case x1: 1
  from y show ?thesis
  proof (cases rule: pure_lane_cases)
    case 1
    with x1 x show ?thesis by (intro exI [of _ l]) (simp add: pure_lane_skip)
  next
    case (2 w)
    have "guard_passes x l2 = Inr False"
      using write_agree [OF p(2,1) d(2)] 2(2,3) i x1 by (simp add: independent_def)
    with x1 y show ?thesis by (auto simp: pure_lane_skip)
  qed
next
  case x2: (2 w)
  have fl: "no_flow x y" "no_flow y x" "dest x \<noteq> dest y" "0 \<le> dest x" "0 \<le> dest y"
    using i d p by (auto simp: independent_def plain_def)
  have ag: "agree_sources y l l1" "guard_passes y l1 = guard_passes y l"
    using write_agree [OF p d(1) fl(1) x2(2,3)] by simp_all
  from y show ?thesis
  proof (cases rule: pure_lane_cases)
    case 1
    with ag(2) x show ?thesis by (auto simp: pure_lane_skip)
  next
    case (2 u)
    have u': "lane_value h y l s = Inr (u, k)"
      using 2(2) lane_value_agree [OF ag(1), of s s h] by simp
    have idx: "write_index w = dest x" "write_index u = dest y"
      using lane_value_dest [OF x2(2)] lane_value_dest [OF 2(2)] by (auto split: if_splits)
    obtain m where m: "apply_write u l = Inr m" "apply_write w m = Inr l2"
      using apply_write_commute [OF x2(3) 2(3)] idx fl by auto
    have agx: "agree_sources x l m" "guard_passes x m = guard_passes x l"
      using write_agree [OF p(2,1) d(2) fl(2) u' m(1)] by simp_all
    have "lane_value h x m s = Inr (w, g)"
      using x2(2) lane_value_agree [OF agx(1), of s s h] by simp
    then show ?thesis
      using u' m agx(2) x2(1) 2(1) ag(2) by (auto simp: pure_lane_go)
  qed
qed

lemma lanes_swap:
  assumes "\<And>l l1 g l2 k. F l = Inr (l1, g) \<Longrightarrow> G l1 = Inr (l2, k) \<Longrightarrow>
      \<exists>m. G l = Inr (m, k) \<and> F m = Inr (l2, g)"
    and "list_all2 (\<lambda>l r. F l = Inr r) ls rs" "list_all2 (\<lambda>l r. G l = Inr r) (map fst rs) qs"
  shows "\<exists>qs' rs'. list_all2 (\<lambda>l r. G l = Inr r) ls qs' \<and> list_all2 (\<lambda>l r. F l = Inr r) (map fst qs') rs'
    \<and> map fst rs' = map fst qs \<and> map snd rs' = map snd rs \<and> map snd qs' = map snd qs"
  using assms(2,3)
proof (induction ls arbitrary: rs qs)
  case (Cons l ls)
  obtain l1 g rs1 where rs: "rs = (l1, g) # rs1" "F l = Inr (l1, g)" "list_all2 (\<lambda>l r. F l = Inr r) ls rs1"
    using Cons.prems(1) by (auto simp: list_all2_Cons1)
  obtain l2 k qs1 where qs: "qs = (l2, k) # qs1" "G l1 = Inr (l2, k)"
      "list_all2 (\<lambda>l r. G l = Inr r) (map fst rs1) qs1"
    using Cons.prems(2) rs(1) by (auto simp: list_all2_Cons1)
  obtain m where m: "G l = Inr (m, k)" "F m = Inr (l2, g)" using assms(1) [OF rs(2) qs(2)] by blast
  obtain qs' rs' where "list_all2 (\<lambda>l r. G l = Inr r) ls qs'" "list_all2 (\<lambda>l r. F l = Inr r) (map fst qs') rs'"
    "map fst rs' = map fst qs1" "map snd rs' = map snd rs1" "map snd qs' = map snd qs1"
    using Cons.IH [OF rs(3) qs(3)] by blast
  with m rs(1) qs(1) show ?case
    by (intro exI [of _ "(m, k) # qs'"] exI [of _ "(l2, g) # rs'"]) auto
qed auto

lemma store_lane_agree:
  assumes "agree_sources x l m" "guard_passes x m = guard_passes x l"
  shows "store_lane x m = store_lane x l"
  by (rule ext) (unfold store_lane_def store_value_agree [OF assms(1)] assms(2), rule refl)

lemma pure_lane_agree:
  assumes "plain x" "plain y" "has_dest y" "no_flow y x" "pure_lane h y s l = Inr (m, g)"
  shows "agree_sources x l m \<and> guard_passes x m = guard_passes x l"
  using assms(5)
  by (cases rule: pure_lane_cases)
    (use write_agree [OF assms(2,1,3,4)] in \<open>auto simp: agree_sources_def same_static_def\<close>)

lemma warp_swap:
  assumes p: "plain x" "plain y" and i: "independent x y"
    and x: "warp_step h x a = Some b" and y: "warp_step h y b = Some c"
  shows "\<exists>b' c'. warp_step h y a = Some b' \<and> warp_step h x b' = Some c' \<and> warp_eqv c c'"
proof -
  obtain lanes s where a: "a = (lanes, s)" by (cases a)
  have dy: "has_dest y" using i by (simp add: independent_def)
  show ?thesis
  proof (cases "has_dest x")
    case dx: True
    obtain rs where rs: "list_all2 (\<lambda>l r. pure_lane h x s l = Inr r) lanes rs"
      and b: "b = (map fst rs, (bump s)\<lparr>accesses := accesses s @ concat (map snd rs)\<rparr>)"
      using x unfolding a warp_step_pure [OF p(1) dx] by blast
    define s1 where "s1 = (bump s)\<lparr>accesses := accesses s @ concat (map snd rs)\<rparr>"
    have m1: "pure_lane h y s1 = pure_lane h y s" by (rule pure_lane_mem) (simp_all add: s1_def bump_def)
    obtain qs where qs: "list_all2 (\<lambda>l r. pure_lane h y s l = Inr r) (map fst rs) qs"
      and c: "c = (map fst qs, (bump s1)\<lparr>accesses := accesses s1 @ concat (map snd qs)\<rparr>)"
      using y unfolding b s1_def [symmetric] warp_step_pure [OF p(2) dy] m1 by blast
    obtain qs' rs' where q: "list_all2 (\<lambda>l r. pure_lane h y s l = Inr r) lanes qs'"
      "list_all2 (\<lambda>l r. pure_lane h x s l = Inr r) (map fst qs') rs'"
      "map fst rs' = map fst qs" "map snd rs' = map snd rs" "map snd qs' = map snd qs"
      using lanes_swap [where F = "pure_lane h x s" and G = "pure_lane h y s", OF _ rs qs]
        lane_swap [OF p dx dy i] by blast
    define s2 where "s2 = (bump s)\<lparr>accesses := accesses s @ concat (map snd qs)\<rparr>"
    have m2: "pure_lane h x s2 = pure_lane h x s" by (rule pure_lane_mem) (simp_all add: s2_def bump_def)
    have "warp_step h y a = Some (map fst qs', s2)"
      unfolding a warp_step_pure [OF p(2) dy] s2_def using q(1,5) by auto
    moreover have "warp_step h x (map fst qs', s2) =
        Some (map fst qs, (bump s2)\<lparr>accesses := accesses s2 @ concat (map snd rs)\<rparr>)"
      unfolding warp_step_pure [OF p(1) dx] m2 using q(2-4) by (intro exI [of _ rs']) simp
    moreover have "log_eqv ((bump s1)\<lparr>accesses := accesses s1 @ concat (map snd qs)\<rparr>)
       ((bump s2)\<lparr>accesses := accesses s2 @ concat (map snd rs)\<rparr>)"
      by (simp add: log_eqv_def s1_def s2_def bump_def)
    ultimately show ?thesis by (auto simp: c warp_eqv_def)
  next
    case False
    then have st: "inst_kind x = STORE" "inst_kind y = COMPUTE"
      using i dy unfolding independent_def has_dest_kind by (cases "inst_kind x"; simp)+
    obtain s1 where s1: "fold_r (store_lane x) lanes (bump s) = Inr s1" and b: "b = (lanes, s1)"
      using x unfolding a warp_step_store [OF st(1)] by blast
    have mem: "pure_lane h y s = pure_lane h y t" for s t
    proof -
      have "lane_value h y l s = lane_value h y l t" for l
        using st(2) by (intro lane_value_agree) (simp_all add: agree_sources_def same_static_def)
      then have lv: "\<And>l. lane_value h y l s = lane_value h y l t" .
      show ?thesis by (rule ext) (unfold pure_lane_def lv, rule refl)
    qed
    obtain qs where qs: "list_all2 (\<lambda>l r. pure_lane h y s l = Inr r) lanes qs"
      and c: "c = (map fst qs, (bump s1)\<lparr>accesses := accesses s1 @ concat (map snd qs)\<rparr>)"
      using y unfolding b warp_step_pure [OF p(2) dy] mem [of s1 s] by blast
    have nolog: "concat (map snd qs) = []"
    proof -
      have "snd q = []" if "pure_lane h y s l = Inr q" for l q
        using that st(2)
        by (cases q; simp) (erule pure_lane_cases, simp, drule lane_value_dest, simp)
      then have "list_all2 (\<lambda>l r. snd r = []) lanes qs" using qs by (auto elim: list_all2_mono)
      then show ?thesis by (auto simp: list_all2_conv_all_nth in_set_conv_nth) (metis snd_conv)
    qed
    have fold: "fold_r (store_lane x) (map fst qs) t = fold_r (store_lane x) lanes t" for t
      using qs
    proof (induction lanes arbitrary: qs t)
      case (Cons l ls)
      obtain m g qs' where q: "qs = (m, g) # qs'" "pure_lane h y s l = Inr (m, g)"
          "list_all2 (\<lambda>l r. pure_lane h y s l = Inr r) ls qs'"
        using Cons.prems by (auto simp: list_all2_Cons1)
      have "store_lane x m = store_lane x l"
        using store_lane_agree pure_lane_agree [OF p dy _ q(2)] i by (auto simp: independent_def)
      moreover have "fold_r (store_lane x) (map fst qs') = fold_r (store_lane x) ls"
        using Cons.IH [OF q(3)] by (simp add: fun_eq_iff)
      ultimately show ?case by (simp add: q(1))
    qed simp
    have "warp_step h y a = Some (map fst qs, bump s)"
      unfolding a warp_step_pure [OF p(2) dy] using qs nolog
      by (intro exI [of _ qs]) (simp add: bump_def)
    moreover have "\<exists>s2. fold_r (store_lane x) lanes (bump (bump s)) = Inr s2 \<and> s2 = bump s1"
    proof -
      have "fold_r (store_lane x) ls (bump t) = (case fold_r (store_lane x) ls t of Inl e \<Rightarrow> Inl e | Inr u \<Rightarrow> Inr (bump u))"
        for ls t
      proof (induction ls arbitrary: t)
        case (Cons l ls)
        have "store_lane x l (bump t) = (case store_lane x l t of Inl e \<Rightarrow> Inl e | Inr u \<Rightarrow> Inr (bump u))"
          by (auto simp: store_lane_def bump_def bind_r_def split: sum.splits)
        with Cons show ?case by (auto split: sum.splits)
      qed simp
      with s1 show ?thesis by simp
    qed
    ultimately show ?thesis
      unfolding c nolog by (auto simp: warp_step_store [OF st(1)] fold warp_eqv_def bump_def)
  qed
qed

interpretation warp: commuting_steps "warp_step h" warp_eqv plain independent for h
proof
  show "warp_eqv s s" for s by (simp add: warp_eqv_def)
  show "warp_eqv s t \<Longrightarrow> warp_eqv t u \<Longrightarrow> warp_eqv s u" for s t u
    unfolding warp_eqv_def by (auto intro: log_eqv_trans)
qed (blast intro: warp_step_eqv, blast intro: warp_swap)

subsection \<open>A scheduled block\<close>

text \<open>
  The blocks for which the tracked dependencies are all there are: every instruction is plain,
  a terminator can only be last, and no predicate is written and used as a guard in the same block.
\<close>

definition guards_apart :: "AECInstruction list \<Rightarrow> bool" where
  "guards_apart insts \<longleftrightarrow> (\<forall>x\<in>set insts. \<forall>y\<in>set insts.
     py_upper (opcode x) = ''CMPP'' \<and> inst_kind y \<noteq> CONTROL \<longrightarrow> predicate y \<noteq> Some (dest x))"

definition block_safe :: "AECInstruction list \<Rightarrow> bool" where
  "block_safe insts \<longleftrightarrow> list_all plain insts \<and> control_last insts \<and> guards_apart insts"

lemma no_conflict_independent:
  assumes safe: "block_safe insts" and ij: "i < j" "j < length insts"
    and nc: "\<not> conflict insts i j"
  shows "independent (insts ! i) (insts ! j)"
proof -
  let ?x = "insts ! i" and ?y = "insts ! j"
  have ky: "inst_kind ?y \<notin> {STORE, CONTROL}" "\<not> (inst_kind ?x = STORE \<and> inst_kind ?y = LOAD)"
    using nc by (auto simp: conflict_def)
  have kx: "inst_kind ?x \<noteq> CONTROL"
  proof
    assume "inst_kind ?x = CONTROL"
    then have "i = length insts - 1" using safe ij by (simp add: block_safe_def control_last_def)
    with ij show False by linarith
  qed
  have mem: "?x \<in> set insts" "?y \<in> set insts" using ij by auto
  have dy: "has_dest ?y" using ky(1) by (cases "inst_kind ?y") (auto simp: has_dest_kind)
  have g: "py_upper (opcode ?x) = ''CMPP'' \<longrightarrow> predicate ?y \<noteq> Some (dest ?x)"
      "py_upper (opcode ?y) = ''CMPP'' \<longrightarrow> predicate ?x \<noteq> Some (dest ?y)"
    using safe mem kx ky(1) unfolding block_safe_def guards_apart_def by blast+
  have r: "has_dest ?x \<longrightarrow> dest ?x \<notin> set (source_regs ?y)" "dest ?y \<notin> set (source_regs ?x)"
      "has_dest ?x \<longrightarrow> dest ?x \<noteq> dest ?y"
    using nc dy unfolding conflict_def writes_def reads_def by metis+
  show ?thesis
    using kx ky(2) dy g r by (simp add: independent_def no_flow_def)
qed

lemma before_asym: "distinct xs \<Longrightarrow> before xs x y \<Longrightarrow> \<not> before xs y x"
  using before_trans [of xs x y x] unfolding before_def by (metis less_irrefl nth_eq_iff_index_eq less_trans)

lemma last_of_order:
  assumes "distinct xs" "z \<in> set xs" "\<And>x. x \<in> set xs \<Longrightarrow> x \<noteq> z \<Longrightarrow> before xs x z"
  obtains us where "xs = us @ [z]"
proof -
  obtain us vs where xs: "xs = us @ z # vs" using assms(2) by (metis split_list)
  have "vs = []"
  proof (cases vs)
    case (Cons v ws)
    then have "before xs v z" using assms(1,3) xs by auto
    moreover have "before xs z v" by (simp add: xs Cons before_append before_Cons)
    ultimately show ?thesis using before_asym [OF assms(1)] by blast
  qed
  with xs that show ?thesis by simp
qed

definition block_sim :: "float_host \<Rightarrow> AECInstruction list \<Rightarrow> AECInstruction list \<Rightarrow> bool" where
  "block_sim h xs ys \<longleftrightarrow> (\<exists>body body' fin. xs = body @ fin \<and> ys = body' @ fin \<and> mset body' = mset body
     \<and> (\<forall>x\<in>set body. inst_kind x \<noteq> CONTROL) \<and> length fin \<le> 1
     \<and> (\<forall>x\<in>set fin. inst_kind x = CONTROL)
     \<and> (\<forall>st st'. run_steps (warp_step h) body st = Some st'
          \<longrightarrow> (\<exists>st''. run_steps (warp_step h) body' st = Some st'' \<and> warp_eqv st' st'')))"

lemma control_last_split:
  assumes "control_last insts"
  obtains body fin where "insts = body @ fin" "length fin \<le> 1"
    "\<forall>x\<in>set body. inst_kind x \<noteq> CONTROL" "\<forall>x\<in>set fin. inst_kind x = CONTROL"
proof (cases "insts = [] \<or> inst_kind (last insts) \<noteq> CONTROL")
  case True
  have "\<forall>x\<in>set insts. inst_kind x \<noteq> CONTROL"
  proof
    fix x assume "x \<in> set insts"
    then obtain i where "i < length insts" "insts ! i = x" by (auto simp: in_set_conv_nth)
    with assms True show "inst_kind x \<noteq> CONTROL"
      by (cases insts rule: rev_cases) (auto simp: control_last_def)
  qed
  then show ?thesis using that [of insts "[]"] by simp
next
  case False
  then obtain body t where i: "insts = body @ [t]" by (cases insts rule: rev_cases) auto
  have "inst_kind x \<noteq> CONTROL" if x: "x \<in> set body" for x
  proof
    assume c: "inst_kind x = CONTROL"
    obtain k where k: "k < length body" "body ! k = x" using x by (auto simp: in_set_conv_nth)
    then have "insts ! k = x" "k < length insts" by (simp_all add: i nth_append)
    with assms c have "k = length insts - 1" by (simp add: control_last_def)
    with k(1) show False by (simp add: i)
  qed
  then show ?thesis using that [of body "[t]"] False i by auto
qed

lemma block_sim_refl: "control_last insts \<Longrightarrow> block_sim h insts insts"
  unfolding block_sim_def
  by (erule control_last_split) (use warp.eqv_refl in \<open>auto intro!: exI\<close>)

theorem schedule_indices_sim:
  assumes safe: "block_safe insts"
    and out: "distinct out" "set out = {..<length insts}" "ordered (goes_after insts) out"
  shows "block_sim h insts (map (\<lambda>i. insts ! i) out)"
proof -
  let ?n = "length insts"
  have cl: "control_last insts" and pl: "\<forall>x\<in>set insts. plain x"
    using safe by (auto simp: block_safe_def list_all_iff)
  obtain body fin where bt: "insts = body @ fin" "length fin \<le> 1"
    "\<forall>x\<in>set body. inst_kind x \<noteq> CONTROL" "\<forall>x\<in>set fin. inst_kind x = CONTROL"
    using control_last_split [OF cl] .
  have conf: "before out i j" if "i < j" "j < ?n" "conflict insts i j" for i j
    using conflict_before [OF out cl that] .
  obtain ks where ks: "out = ks @ [length body..<?n]"
  proof (cases fin)
    case Nil
    then show ?thesis using that [of out] bt(1) by simp
  next
    case (Cons t ts)
    then have tm: "fin = [t]" "?n = Suc (length body)" using bt(1,2) by auto
    have "before out i (length body)" if "i \<in> set out" "i \<noteq> length body" for i
      using that tm bt(1,4) out(2) by (intro conf) (auto simp: conflict_def)
    then obtain us where "out = us @ [length body]"
      using last_of_order [OF out(1)] out(2) tm by (metis lessThan_iff lessI)
    then show ?thesis using that [of us] tm by simp
  qed
  have kset: "set ks = {..<length body}" "distinct ks"
  proof -
    show "distinct ks" using out(1) ks by simp
    have "set ks \<union> {length body..<?n} = {..<?n}" "set ks \<inter> {length body..<?n} = {}"
      using out(1,2) ks by auto
    then have "set ks = {..<?n} - {length body..<?n}" by blast
    also have "\<dots> = {..<length body}" using bt(1) by auto
    finally show "set ks = {..<length body}" .
  qed
  have map_body: "map (\<lambda>i. insts ! i) [0..<length body] = body"
    by (rule nth_equalityI) (simp_all add: bt(1) nth_append)
  have map_term: "map (\<lambda>i. insts ! i) [length body..<?n] = fin"
    by (rule nth_equalityI) (simp_all add: bt(1) nth_append)
  have indep: "independent (insts ! i) (insts ! j)"
    if "before [0..<length body] i j" "\<not> before ks i j" for i j
  proof -
    have ij: "i < j" "j < length body" using that(1) by (simp_all add: before_upt)
    have "\<not> before out i j"
      using that(2) ij before_mem [of "[length body..<?n]" i j] by (auto simp: ks before_append)
    moreover have jn: "j < ?n" using ij bt(1) by simp
    ultimately have "\<not> conflict insts i j" using conf [OF ij(1)] by blast
    then show ?thesis by (rule no_conflict_independent [OF safe ij(1) jn])
  qed
  have "\<exists>st''. run_steps (warp_step h) (map (\<lambda>i. insts ! i) ks) st = Some st'' \<and> warp_eqv st' st''"
    if "run_steps (warp_step h) body st = Some st'" for st st'
  proof (rule warp.reorder [where f = "\<lambda>i. insts ! i" and ks = "[0..<length body]"])
    show "run_steps (warp_step h) (map (\<lambda>i. insts ! i) [0..<length body]) st = Some st'"
      using that by (simp add: map_body)
    show "\<forall>k\<in>set [0..<length body]. plain (insts ! k)"
    proof
      fix k assume "k \<in> set [0..<length body]"
      then have "insts ! k \<in> set insts" using bt(1) by (intro nth_mem) simp
      with pl show "plain (insts ! k)" by blast
    qed
  qed (use kset indep in \<open>auto simp: atLeast0LessThan\<close>)
  moreover have "map (\<lambda>i. insts ! i) out = map (\<lambda>i. insts ! i) ks @ fin"
    by (simp add: ks map_term)
  moreover have "mset (map (\<lambda>i. insts ! i) ks) = mset body"
  proof -
    have "mset ks = mset [0..<length body]"
      using kset by (subst set_eq_iff_mset_eq_distinct [symmetric]) (simp_all add: atLeast0LessThan)
    then have "mset (map (\<lambda>i. insts ! i) ks) = mset (map (\<lambda>i. insts ! i) [0..<length body])"
      by (simp only: mset_map)
    then show ?thesis by (simp only: map_body)
  qed
  ultimately show ?thesis
    using bt unfolding block_sim_def
    by (intro exI [of _ body] exI [of _ "map (\<lambda>i. insts ! i) ks"] exI [of _ fin]) auto
qed

lemma schedule_block_ok:
  "\<exists>out. schedule_block insts = Inr (map (\<lambda>i. insts ! i) out)
     \<and> distinct out \<and> set out = {..<length insts} \<and> (2 < length insts \<longrightarrow> ordered (goes_after insts) out)"
proof (cases "length insts \<le> 2")
  case True
  then have "schedule_block insts = Inr (map (\<lambda>i. insts ! i) [0..<length insts])"
    by (simp add: schedule_block_def map_nth)
  with True show ?thesis
    by (intro exI [of _ "[0..<length insts]"]) (auto simp: atLeast0LessThan)
next
  case False
  obtain out where out: "schedule_indices insts = Some out" "distinct out" "set out = {..<length insts}"
     "ordered (goes_after insts) out"
    using schedule_indices_total by blast
  have "length out = length insts" using out(2,3) distinct_card [of out] by simp
  with out False show ?thesis
    by (intro exI [of _ out]) (simp add: schedule_block_def Let_def)
qed

lemma schedule_block_sim:
  assumes "block_safe insts" "schedule_block insts = Inr ys"
  shows "block_sim h insts ys"
proof (cases "length insts \<le> 2")
  case True
  then have "ys = insts" using assms(2) by (simp add: schedule_block_def)
  then show ?thesis using assms(1) by (simp add: block_sim_refl block_safe_def)
next
  case False
  obtain out where "schedule_block insts = Inr (map (\<lambda>i. insts ! i) out)" "distinct out"
      "set out = {..<length insts}" "2 < length insts \<longrightarrow> ordered (goes_after insts) out"
    using schedule_block_ok by blast
  with False assms schedule_indices_sim [of insts out h] show ?thesis by simp
qed

end
