(* ===== verification/Sched_Prog.thy ===== *)
theory Sched_Prog
  imports Sched_Sem
begin

text \<open>
  The whole scheduling pass. A program is the concatenation of its basic blocks, control reaches a
  block only at its first instruction, and each block is scheduled on its own; so a run of the
  scheduled program goes through the same blocks as the original, and ends with the same lanes and
  memory. The last part states the properties of the pass.
\<close>

subsection \<open>The blocks of a program\<close>

fun blocks_of :: "nat list \<Rightarrow> 'a list \<Rightarrow> 'a list list" where
  "blocks_of [] xs = []"
| "blocks_of [a] xs = [drop a xs]"
| "blocks_of (a # b # rest) xs = take (b - a) (drop a xs) # blocks_of (b # rest) xs"

lemma length_write_at [simp]: "length (write_at a ys xs) = length xs"
  by (induction ys arbitrary: a xs) auto

lemma write_at_block:
  "a + length ys \<le> length xs \<Longrightarrow> write_at a ys xs = take a xs @ ys @ drop (a + length ys) xs"
proof (induction ys arbitrary: a xs)
  case (Cons y ys)
  then have "write_at a (y # ys) xs = take (Suc a) (xs[a := y]) @ ys @ drop (Suc a + length ys) (xs[a := y])"
    by simp
  also have "take (Suc a) (xs[a := y]) = take a xs @ [y]"
    using Cons.prems by (simp add: take_Suc_conv_app_nth)
  finally show ?case by simp
qed simp

lemma blocks_of_drop:
  "drop a xs = drop a ys \<Longrightarrow> sorted_wrt (<) (a # L) \<Longrightarrow> blocks_of (a # L) xs = blocks_of (a # L) ys"
proof (induction L arbitrary: a)
  case (Cons b L)
  have "drop b xs = drop (b - a) (drop a xs)" using Cons.prems(2) by simp
  also have "\<dots> = drop (b - a) (drop a ys)" using Cons.prems(1) by simp
  also have "\<dots> = drop b ys" using Cons.prems(2) by simp
  finally show ?case using Cons by simp
qed simp

lemma concat_blocks:
  "sorted_wrt (<) (a # L) \<Longrightarrow> concat (blocks_of (a # L) xs) = drop a xs"
proof (induction L arbitrary: a)
  case (Cons b L)
  then have "drop b xs = drop (b - a) (drop a xs)" by simp
  with Cons show ?case by (simp del: drop_drop)
qed simp

lemma schedule_block_length: "schedule_block xs = Inr ys \<Longrightarrow> length ys = length xs"
proof -
  assume "schedule_block xs = Inr ys"
  then obtain out where "ys = map (\<lambda>i. xs ! i) out" "distinct out" "set out = {..<length xs}"
    using schedule_block_ok [of xs] by auto
  then show ?thesis using distinct_card [of out] by simp
qed

lemma schedule_block_total: "\<exists>ys. schedule_block xs = Inr ys"
  using schedule_block_ok [of xs] by blast

lemma schedule_block_short: "length xs \<le> 2 \<Longrightarrow> schedule_block xs = Inr xs"
  by (simp add: schedule_block_def)

lemma schedule_blocks_ok:
  assumes "sorted_wrt (<) (a # L)" "\<forall>x\<in>set (a # L). x < length insts"
  shows "\<exists>bs'. schedule_blocks (a # L) insts = Inr (take a insts @ concat bs')
     \<and> list_all2 (\<lambda>xs ys. schedule_block xs = Inr ys) (blocks_of (a # L) insts) bs'"
  using assms
proof (induction L arbitrary: a insts)
  case Nil
  obtain ys where ys: "schedule_block (drop a insts) = Inr ys" using schedule_block_total by blast
  have "write_at a ys insts = take a insts @ ys"
    using write_at_block [of a ys insts] schedule_block_length [OF ys] Nil by simp
  moreover have "length (drop a insts) \<le> 2 \<Longrightarrow> ys = drop a insts"
    using ys schedule_block_short [of "drop a insts"] by simp
  ultimately show ?case using ys by (intro exI [of _ "[ys]"]) (auto simp: Let_def)
next
  case (Cons b L)
  let ?blk = "take (b - a) (drop a insts)"
  obtain ys where ys: "schedule_block ?blk = Inr ys" using schedule_block_total by blast
  have ab: "a < b" "b < length insts" using Cons.prems by auto
  have len: "length ys = b - a" using schedule_block_length [OF ys] ab by simp
  define insts' where "insts' = write_at a ys insts"
  have i': "insts' = take a insts @ ys @ drop b insts"
    using write_at_block [of a ys insts] len ab by (simp add: insts'_def)
  have "schedule_blocks (a # b # L) insts = schedule_blocks (b # L) insts'"
  proof (cases "length ?blk \<le> 2")
    case True
    then have "ys = ?blk" using ys schedule_block_short [of ?blk] by simp
    then have "insts' = take a insts @ take (b - a) (drop a insts) @ drop (b - a) (drop a insts)"
      using i' ab by simp
    then have "insts' = insts" by (simp only: append_take_drop_id)
    with True show ?thesis by (simp add: Let_def)
  next
    case False
    with ys show ?thesis by (simp add: insts'_def Let_def)
  qed
  moreover have "take b insts' = take a insts @ ys" using i' len ab by simp
  moreover have "drop b insts' = drop b insts" using i' len ab by simp
  moreover have "length insts' = length insts" by (simp add: insts'_def)
  moreover obtain bs' where "schedule_blocks (b # L) insts' = Inr (take b insts' @ concat bs')"
      "list_all2 (\<lambda>xs ys. schedule_block xs = Inr ys) (blocks_of (b # L) insts') bs'"
    using Cons.IH [of b insts'] Cons.prems calculation(4) by auto
  ultimately show ?case
    using ys Cons.prems blocks_of_drop [of b insts' insts L]
    by (intro exI [of _ "ys # bs'"]) auto
qed

lemma schedule_block_program:
  assumes "2 < length insts"
  defines "L \<equiv> sorted_list_of_set (sched_leaders insts)"
  shows "\<exists>bs'. schedule_blocks L insts = Inr (concat bs')
     \<and> list_all2 (\<lambda>xs ys. schedule_block xs = Inr ys) (blocks_of L insts) bs'"
    and "concat (blocks_of L insts) = insts"
proof -
  have fin: "finite (sched_leaders insts)" and lt: "\<forall>x\<in>sched_leaders insts. x < length insts"
    using assms(1) by (auto simp: sched_leaders_def branch_leaders_def Let_def nat_less_iff split: if_splits)
  have 0: "0 \<in> sched_leaders insts" by (simp add: sched_leaders_def)
  have sorted: "sorted_wrt (<) L" unfolding L_def by simp
  have set: "set L = sched_leaders insts" using fin by (simp add: L_def)
  obtain M where L: "L = 0 # M"
  proof (cases L)
    case Nil
    then show ?thesis using set 0 by auto
  next
    case (Cons a M)
    have "a = 0" using 0 sorted unfolding set [symmetric] Cons by auto
    with Cons that show ?thesis by simp
  qed
  have "\<forall>x\<in>set (0 # M). x < length insts" using lt set L by simp
  with schedule_blocks_ok [of 0 M insts] sorted concat_blocks [of 0 M insts]
  show "\<exists>bs'. schedule_blocks L insts = Inr (concat bs')
     \<and> list_all2 (\<lambda>xs ys. schedule_block xs = Inr ys) (blocks_of L insts) bs'"
    and "concat (blocks_of L insts) = insts"
    by (simp_all add: L)
qed

lemma blocks_of_slice:
  assumes "sorted_wrt (<) L" "\<forall>x\<in>set L. x < length xs" "b \<in> set (blocks_of L xs)"
  obtains a e where "a \<in> set L" "a < e" "e \<le> length xs" "b = take (e - a) (drop a xs)"
    "\<And>x. x \<in> set L \<Longrightarrow> \<not> (a < x \<and> x < e)"
  using assms
proof (induction L xs arbitrary: thesis rule: blocks_of.induct)
  case (2 a xs)
  then show ?case by (intro "2.prems"(1) [of a "length xs"]) auto
next
  case (3 a c rest xs)
  show ?case
  proof (cases "b = take (c - a) (drop a xs)")
    case True
    then show ?thesis using 3 by (intro "3.prems"(1) [of a c]) auto
  next
    case False
    then have "b \<in> set (blocks_of (c # rest) xs)" using "3.prems"(4) by simp
    then obtain a' e where "a' \<in> set (c # rest)" "a' < e" "e \<le> length xs" "b = take (e - a') (drop a' xs)"
      "\<And>x. x \<in> set (c # rest) \<Longrightarrow> \<not> (a' < x \<and> x < e)"
      using "3.IH" "3.prems" by auto
    then show ?thesis using "3.prems"(2) by (intro "3.prems"(1) [of a' e]) auto
  qed
qed simp

lemma blocks_starts:
  assumes "sorted_wrt (<) (a # L)" "x \<in> set (a # L)" "\<forall>y\<in>set (a # L). y < length xs"
  shows "\<exists>k<length (blocks_of (a # L) xs). length (concat (take k (blocks_of (a # L) xs))) = x - a"
  using assms
proof (induction L arbitrary: a)
  case Nil
  then show ?case by simp
next
  case (Cons b L)
  show ?case
  proof (cases "x = a")
    case True
    then show ?thesis by (intro exI [of _ 0]) simp
  next
    case False
    then obtain k where k: "k < length (blocks_of (b # L) xs)"
        "length (concat (take k (blocks_of (b # L) xs))) = x - b"
      using Cons.IH [of b] Cons.prems by auto
    have "b \<le> x" "a < b" "b < length xs" using Cons.prems False by auto
    then show ?thesis using k by (intro exI [of _ "Suc k"]) simp
  qed
qed

lemma blocks_control_last:
  assumes "2 < length insts" "\<forall>x\<in>set insts. py_upper (opcode x) \<notin> {''CALL'', ''RET''}"
    and "b \<in> set (blocks_of (sorted_list_of_set (sched_leaders insts)) insts)"
  shows "control_last b \<and> b \<noteq> []"
proof -
  let ?L = "sorted_list_of_set (sched_leaders insts)"
  have fin: "finite (sched_leaders insts)" and lt: "\<forall>x\<in>sched_leaders insts. x < length insts"
    using assms(1) by (auto simp: sched_leaders_def branch_leaders_def Let_def nat_less_iff split: if_splits)
  obtain a e where ae: "a < e" "e \<le> length insts" "b = take (e - a) (drop a insts)"
      "\<And>x. x \<in> sched_leaders insts \<Longrightarrow> \<not> (a < x \<and> x < e)"
  proof (rule blocks_of_slice [OF _ _ assms(3)])
    show "sorted_wrt (<) ?L" "\<forall>x\<in>set ?L. x < length insts" using fin lt by simp_all
  next
    fix a e assume "a \<in> set ?L" "a < e" "e \<le> length insts" "b = take (e - a) (drop a insts)"
      "\<And>x. x \<in> set ?L \<Longrightarrow> \<not> (a < x \<and> x < e)"
    then show thesis using fin by (intro that [of a e]) auto
  qed
  have len: "length b = e - a" using ae by simp
  have "i = length b - 1" if i: "i < length b" "inst_kind (b ! i) = CONTROL" for i
  proof (rule ccontr)
    assume "i \<noteq> length b - 1"
    then have lt: "a + i + 1 < e" using i(1) len by linarith
    have bi: "b ! i = insts ! (a + i)" using i(1) ae(1-3) by simp
    then have "insts ! (a + i) \<in> set insts" using lt ae(2) by (intro nth_mem) simp
    then have "py_upper (opcode (insts ! (a + i))) \<in> {''BR'', ''BRX'', ''HALT''}"
      using i(2) assms(2) bi by (auto simp: inst_kind_def Let_def split: if_splits)
    then have "a + i + 1 \<in> branch_leaders insts (a + i)"
      using lt ae(2) by (auto simp: branch_leaders_def Let_def)
    then have "a + i + 1 \<in> sched_leaders insts"
      using lt ae(2) unfolding sched_leaders_def by (intro UnI2 UN_I [of "a + i"]) auto
    with ae(4) lt show False by simp
  qed
  then show ?thesis using len ae(1) by (auto simp: control_last_def)
qed

subsection \<open>Running straight-line code\<close>

lemma warp_step_run:
  assumes "0 \<le> pc" "pc < int (length prog)" "inst_kind (prog ! nat pc) \<noteq> CONTROL"
  shows "run_warp_loop h prog (Suc fuel) pc lanes s =
    (case exec_lanes h (prog ! nat pc) lanes (bump s) of
       Inl e \<Rightarrow> Inl e | Inr (lanes', s2) \<Rightarrow> run_warp_loop h prog fuel (pc + 1) lanes' s2)"
proof -
  have "py_upper (opcode (prog ! nat pc)) \<notin> {''BR'', ''BRX'', ''HALT''}"
    using assms(3) by (auto simp: inst_kind_def Let_def)
  with assms(1,2) show ?thesis
    by (subst run_warp_loop.simps) (simp add: bump_def Let_def)
qed

lemma run_straight:
  assumes "prog = P @ xs @ Q" "\<forall>x\<in>set xs. inst_kind x \<noteq> CONTROL"
    and "run_warp_loop h prog fuel (int (length P)) lanes s = Inr r"
  shows "length xs \<le> fuel \<and> (\<exists>lanes1 s1. run_steps (warp_step h) xs (lanes, s) = Some (lanes1, s1)
    \<and> run_warp_loop h prog (fuel - length xs) (int (length P + length xs)) lanes1 s1 = Inr r)"
  using assms
proof (induction xs arbitrary: P fuel lanes s)
  case (Cons x xs)
  have pc: "int (length P) < int (length prog)" "prog ! nat (int (length P)) = x"
    using Cons.prems(1) by simp_all
  have k: "inst_kind x \<noteq> CONTROL" using Cons.prems(2) by simp
  show ?case
  proof (cases fuel)
    case 0
    then show ?thesis using Cons.prems(3) pc(1) by (subst (asm) run_warp_loop.simps) simp
  next
    case (Suc f)
    have run: "run_warp_loop h prog fuel (int (length P)) lanes s =
        (case exec_lanes h x lanes (bump s) of Inl e \<Rightarrow> Inl e
         | Inr (lanes', s2) \<Rightarrow> run_warp_loop h prog f (int (length P) + 1) lanes' s2)"
      using warp_step_run [of "int (length P)" prog h f lanes s] pc k by (simp add: Suc)
    then obtain lanes' s2 where ex: "exec_lanes h x lanes (bump s) = Inr (lanes', s2)"
      and rest: "run_warp_loop h prog f (int (length (P @ [x]))) lanes' s2 = Inr r"
      using Cons.prems(3) by (auto split: sum.splits simp: add.commute)
    have "warp_step h x (lanes, s) = Some (lanes', s2)" using ex k by (simp add: warp_step_def)
    with Cons.IH [OF _ _ rest] Cons.prems(1,2) show ?thesis by (auto simp: Suc)
  qed
qed simp

lemma run_straight_conv:
  assumes "prog = P @ xs @ Q" "length xs \<le> fuel"
    and "run_steps (warp_step h) xs (lanes, s) = Some (lanes1, s1)"
  shows "run_warp_loop h prog fuel (int (length P)) lanes s =
    run_warp_loop h prog (fuel - length xs) (int (length P + length xs)) lanes1 s1"
  using assms
proof (induction xs arbitrary: P fuel lanes s)
  case (Cons x xs)
  obtain f where f: "fuel = Suc f" using Cons.prems(2) by (cases fuel) auto
  obtain lanes' s2 where st: "warp_step h x (lanes, s) = Some (lanes', s2)"
      "run_steps (warp_step h) xs (lanes', s2) = Some (lanes1, s1)"
    using Cons.prems(3) by (auto split: option.splits)
  then have k: "inst_kind x \<noteq> CONTROL" "exec_lanes h x lanes (bump s) = Inr (lanes', s2)"
    by (auto simp: warp_step_def split: if_splits sum.splits)
  have pc: "int (length P) < int (length prog)" "prog ! nat (int (length P)) = x"
    using Cons.prems(1) by simp_all
  have "run_warp_loop h prog fuel (int (length P)) lanes s =
      run_warp_loop h prog f (int (length (P @ [x]))) lanes' s2"
    using warp_step_run [of "int (length P)" prog h f lanes s] pc k by (simp add: f add.commute)
  with Cons.IH [OF _ _ st(2), of "P @ [x]" f] Cons.prems(1,2) show ?case by (simp add: f)
qed simp

subsection \<open>The whole program\<close>

definition jumps_to_blocks :: "AECInstruction list list \<Rightarrow> bool" where
  "jumps_to_blocks bs \<longleftrightarrow> (\<forall>x\<in>set (concat bs). py_upper (opcode x) \<in> {''BR'', ''BRX''} \<longrightarrow>
     0 \<le> imm x \<and> imm x < int (length (concat bs)) \<longrightarrow>
     (\<exists>k<length bs. imm x = int (length (concat (take k bs)))))"

lemma branchx_eqv:
  assumes "log_eqv s t" "branchx_next_pc inst lanes pc s = Inr (pc', s')"
  shows "\<exists>t'. branchx_next_pc inst lanes pc t = Inr (pc', t') \<and> log_eqv s' t'"
  using assms
  by (cases s; cases t)
    (auto simp: branchx_next_pc_def log_eqv_def Let_def split: option.splits sum.splits list.splits if_splits)

lemma concat_split: "k < length bs \<Longrightarrow> concat bs = concat (take k bs) @ bs ! k @ concat (drop (Suc k) bs)"
  by (metis concat.simps(2) concat_append id_take_nth_drop)

lemma program_sim:
  assumes sim: "list_all2 (block_sim h) bs bs'" and jumps: "jumps_to_blocks bs"
    and ne: "[] \<notin> set bs" and pl: "\<forall>x\<in>set (concat bs). plain x"
    and "k < length bs" "log_eqv s t"
    and "run_warp_loop h (concat bs) fuel (int (length (concat (take k bs)))) lanes s = Inr (lanes', s')"
  shows "\<exists>t'. run_warp_loop h (concat bs') fuel (int (length (concat (take k bs)))) lanes t = Inr (lanes', t')
    \<and> log_eqv s' t'"
  using assms(5-)
proof (induction fuel arbitrary: k lanes s t rule: less_induct)
  case (less fuel)
  let ?p = "concat bs" and ?p' = "concat bs'"
  define st where "st = length (concat (take k bs))"
  have lens: "length bs = length bs'" using sim by (rule list_all2_lengthD)
  have len2: "list_all2 (\<lambda>b b'. length b = length b') bs bs'"
    using sim by (rule list_all2_mono) (auto simp: block_sim_def dest: mset_eq_length)
  have len_concat: "length (concat xs) = length (concat ys)" if "list_all2 (\<lambda>b b'. length b = length b') xs ys" for xs ys
    using that by (induction rule: list_all2_induct) auto
  have st': "length (concat (take k bs')) = st"
    unfolding st_def using len_concat [OF list_all2_takeI [OF len2]] by simp
  have plen: "length ?p = length ?p'" by (rule len_concat [OF len2])
  have "block_sim h (bs ! k) (bs' ! k)" using sim less.prems(1) by (simp add: list_all2_conv_all_nth)
  then obtain body body' fin where b: "bs ! k = body @ fin" "bs' ! k = body' @ fin" "mset body' = mset body"
    "\<forall>x\<in>set body. inst_kind x \<noteq> CONTROL" "length fin \<le> 1"
    "\<forall>x\<in>set fin. inst_kind x = CONTROL"
    and step: "\<And>st st'. run_steps (warp_step h) body st = Some st' \<Longrightarrow>
        \<exists>st''. run_steps (warp_step h) body' st = Some st'' \<and> warp_eqv st' st''"
    unfolding block_sim_def by blast
  have bl: "length body' = length body" "set body' = set body"
    using mset_eq_length [OF b(3)] mset_eq_setD [OF b(3)] by simp_all
  have p: "?p = concat (take k bs) @ body @ fin @ concat (drop (Suc k) bs)"
    using concat_split [OF less.prems(1)] b(1) by simp
  have p': "?p' = concat (take k bs') @ body' @ fin @ concat (drop (Suc k) bs')"
    using concat_split [of k bs'] less.prems(1) lens b(2) by simp
  obtain lanes1 s1 where s1: "length body \<le> fuel" "run_steps (warp_step h) body (lanes, s) = Some (lanes1, s1)"
    "run_warp_loop h ?p (fuel - length body) (int (st + length body)) lanes1 s1 = Inr (lanes', s')"
    using run_straight [OF p b(4) less.prems(3)] by (auto simp: st_def)
  obtain t0 where t0: "run_steps (warp_step h) body' (lanes, s) = Some t0" "warp_eqv (lanes1, s1) t0"
    using step [OF s1(2)] by blast
  obtain t1 where t1: "run_steps (warp_step h) body' (lanes, t) = Some (lanes1, t1)" "log_eqv s1 t1"
  proof -
    have "\<exists>t'. run_steps (warp_step h) body' (lanes, t) = Some t' \<and> warp_eqv t0 t'"
    proof (rule warp.run_eqv [OF _ _ t0(1)])
      show "\<forall>x\<in>set body'. plain x" using pl p bl(2) by auto
      show "warp_eqv (lanes, s) (lanes, t)" using less.prems(2) by (simp add: warp_eqv_def)
    qed
    then show ?thesis using that t0(2) by (auto simp: warp_eqv_def intro: log_eqv_trans)
  qed
  have run': "run_warp_loop h ?p' fuel (int st) lanes t =
      run_warp_loop h ?p' (fuel - length body) (int (st + length body)) lanes1 t1"
    using run_straight_conv [OF p' _ t1(1), of fuel] s1(1) bl st' by simp
  define f where "f = fuel - length body"
  define pc where "pc = st + length body"
  note run = s1(3) [folded f_def pc_def]
  have goal: ?case if "\<exists>t'. run_warp_loop h ?p' f (int pc) lanes1 t1 = Inr (lanes', t') \<and> log_eqv s' t'"
    using that run' by (simp add: st_def f_def pc_def)
  show ?case
  proof (cases fin)
    case Nil
    have "body \<noteq> []" using ne less.prems(1) b(1) Nil by (metis append_Nil2 nth_mem)
    then have "f < fuel" using s1(1) by (cases body) (auto simp: f_def)
    have pck: "pc = length (concat (take (Suc k) bs))"
      using less.prems(1) b(1) Nil by (simp add: pc_def st_def take_Suc_conv_app_nth)
    show ?thesis
    proof (cases "Suc k < length bs")
      case True
      show ?thesis
        using less.IH [OF \<open>f < fuel\<close> True t1(2)] run by (intro goal) (simp add: pck)
    next
      case False
      then have "pc = length ?p" using pck less.prems(1) by simp
      with run show ?thesis by (subst (asm) run_warp_loop.simps) simp
    qed
  next
    case (Cons x rest)
    then have fin: "fin = [x]" using b(5) by (cases rest) auto
    have pcx: "pc < length ?p" "?p ! pc = x" "?p' ! pc = x"
      using p p' fin st' bl by (simp_all add: pc_def st_def nth_append)
    have xmem: "x \<in> set ?p" unfolding p fin by simp
    have opx: "py_upper (opcode x) \<in> {''BR'', ''BRX'', ''HALT''}"
      using b(6) fin pl xmem by (auto simp: plain_def inst_kind_def Let_def split: if_splits)
    obtain g where f: "f = Suc g"
      using run pcx(1) by (cases f) (subst (asm) run_warp_loop.simps, simp, simp)
    have gl: "g < fuel" using f by (simp add: f_def)
    have jump: "\<exists>t'. run_warp_loop h ?p' g (imm x) lanes1 t2 = Inr (lanes', t') \<and> log_eqv s' t'"
      if r: "run_warp_loop h ?p g (imm x) lanes1 s2 = Inr (lanes', s')" and e: "log_eqv s2 t2"
        and op: "py_upper (opcode x) \<in> {''BR'', ''BRX''}" for s2 t2
    proof -
      have "0 \<le> imm x \<and> imm x < int (length ?p)"
        using r by (subst (asm) run_warp_loop.simps) (auto split: if_splits)
      then obtain j where "j < length bs" "imm x = int (length (concat (take j bs)))"
        using jumps xmem op unfolding jumps_to_blocks_def by blast
      with less.IH [OF gl _ e] r show ?thesis by simp
    qed
    have next_pc: "\<exists>t'. run_warp_loop h ?p' g (int pc + 1) lanes1 t2 = Inr (lanes', t') \<and> log_eqv s' t'"
      if r: "run_warp_loop h ?p g (int pc + 1) lanes1 s2 = Inr (lanes', s')" and e: "log_eqv s2 t2" for s2 t2
    proof -
      have pck: "int pc + 1 = int (length (concat (take (Suc k) bs)))"
        using less.prems(1) b(1) fin by (simp add: pc_def st_def take_Suc_conv_app_nth)
      show ?thesis
      proof (cases "Suc k < length bs")
        case True
        with less.IH [OF gl True e] r pck show ?thesis by simp
      next
        case False
        then have "int pc + 1 = int (length ?p)" using pck less.prems(1) by simp
        with r show ?thesis by (subst (asm) run_warp_loop.simps) simp
      qed
    qed
    have e: "log_eqv (bump s1) (bump t1)" by (rule log_eqv_bump [OF t1(2)])
    note unf = run_warp_loop.simps [of h _ "Suc g" "int pc" lanes1, folded bump_def]
    show ?thesis
    proof (rule goal)
      consider "py_upper (opcode x) = ''HALT''" | "py_upper (opcode x) = ''BR''" | "py_upper (opcode x) = ''BRX''"
        using opx by blast
      then show "\<exists>t'. run_warp_loop h ?p' f (int pc) lanes1 t1 = Inr (lanes', t') \<and> log_eqv s' t'"
      proof cases
        case 1
        then show ?thesis using run pcx plen e by (auto simp: f unf Let_def split: if_splits)
      next
        case 2
        then show ?thesis using run pcx plen jump [OF _ e] by (auto simp: f unf Let_def split: if_splits)
      next
        case 3
        then obtain pc' s2 where br: "branchx_next_pc x lanes1 (int pc) (bump s1) = Inr (pc', s2)"
          and r: "run_warp_loop h ?p g pc' lanes1 s2 = Inr (lanes', s')"
          using run pcx by (auto simp: f unf Let_def split: sum.splits)
        obtain t2 where t2: "branchx_next_pc x lanes1 (int pc) (bump t1) = Inr (pc', t2)" "log_eqv s2 t2"
          using branchx_eqv [OF e br] by blast
        have "pc' = imm x \<or> pc' = int pc + 1"
          using br by (auto simp: branchx_next_pc_def Let_def split: option.splits sum.splits list.splits if_splits)
        then have "\<exists>t'. run_warp_loop h ?p' g pc' lanes1 t2 = Inr (lanes', t') \<and> log_eqv s' t'"
          using jump [OF _ t2(2)] next_pc [OF _ t2(2)] r 3 by auto
        then show ?thesis using 3 t2 pcx plen by (simp add: f unf Let_def)
      qed
    qed
  qed
qed

definition basic_blocks :: "AECInstruction list \<Rightarrow> AECInstruction list list" where
  "basic_blocks insts = blocks_of (sorted_list_of_set (sched_leaders insts)) insts"

definition program_safe :: "AECInstruction list \<Rightarrow> bool" where
  "program_safe insts \<longleftrightarrow> list_all plain insts \<and> list_all guards_apart (basic_blocks insts)"

lemma schedule_lowered_cases:
  obtains "length (lowered_instructions p) \<le> 2" "schedule_lowered p = Inr p"
  | bs' where "2 < length (lowered_instructions p)"
      "schedule_lowered p = Inr \<lparr>lowered_instructions = concat bs', parameter_offsets = parameter_offsets p\<rparr>"
      "list_all2 (\<lambda>xs ys. schedule_block xs = Inr ys) (basic_blocks (lowered_instructions p)) bs'"
      "concat (basic_blocks (lowered_instructions p)) = lowered_instructions p"
proof (cases "length (lowered_instructions p) \<le> 2")
  case True
  then show ?thesis using that(1) by (simp add: schedule_lowered_def)
next
  case False
  then have n: "2 < length (lowered_instructions p)" by simp
  obtain bs' where "schedule_blocks (sorted_list_of_set (sched_leaders (lowered_instructions p)))
      (lowered_instructions p) = Inr (concat bs')"
    "list_all2 (\<lambda>xs ys. schedule_block xs = Inr ys) (basic_blocks (lowered_instructions p)) bs'"
    using schedule_block_program(1) [OF n] unfolding basic_blocks_def by blast
  with n schedule_block_program(2) [OF n] that(2) show ?thesis
    by (simp add: schedule_lowered_def Let_def basic_blocks_def)
qed

lemma schedule_block_mset: "schedule_block xs = Inr ys \<Longrightarrow> mset ys = mset xs"
proof -
  assume "schedule_block xs = Inr ys"
  then obtain out where out: "ys = map (\<lambda>i. xs ! i) out" "distinct out" "set out = {..<length xs}"
    using schedule_block_ok [of xs] by auto
  have "mset out = mset [0..<length xs]"
    using out(2,3) by (subst set_eq_iff_mset_eq_distinct [symmetric]) (simp_all add: atLeast0LessThan)
  then have "mset ys = mset (map (\<lambda>i. xs ! i) [0..<length xs])" by (simp only: out(1) mset_map)
  then show ?thesis by (simp only: map_nth)
qed

lemma blocks_mset: "list_all2 (\<lambda>xs ys. schedule_block xs = Inr ys) bs bs' \<Longrightarrow> mset (concat bs') = mset (concat bs)"
  by (induction rule: list_all2_induct) (auto simp: schedule_block_mset)

lemma program_safe_jumps:
  assumes "2 < length insts" "program_safe insts"
  shows "jumps_to_blocks (basic_blocks insts)"
proof -
  let ?L = "sorted_list_of_set (sched_leaders insts)"
  have fin: "finite (sched_leaders insts)" and lt: "\<forall>x\<in>sched_leaders insts. x < length insts"
    using assms(1) by (auto simp: sched_leaders_def branch_leaders_def Let_def nat_less_iff split: if_splits)
  have L: "sorted_wrt (<) ?L" "set ?L = sched_leaders insts" using fin by simp_all
  obtain M where M: "?L = 0 # M"
  proof (cases ?L)
    case Nil
    then show ?thesis using L(2) by (auto simp: sched_leaders_def)
  next
    case (Cons a M)
    have "0 \<in> set ?L" unfolding L(2) by (simp add: sched_leaders_def)
    then have "a = 0" using L(1) Cons by auto
    with Cons that show ?thesis by simp
  qed
  have cat: "concat (basic_blocks insts) = insts"
    using schedule_block_program(2) [OF assms(1)] by (simp add: basic_blocks_def)
  show ?thesis unfolding jumps_to_blocks_def cat
  proof (intro ballI impI)
    fix x assume x: "x \<in> set insts" "py_upper (opcode x) \<in> {''BR'', ''BRX''}"
      "0 \<le> imm x \<and> imm x < int (length insts)"
    obtain i where i: "i < length insts" "insts ! i = x" using x(1) by (auto simp: in_set_conv_nth)
    then have "nat (imm x) \<in> branch_leaders insts i" using x by (auto simp: branch_leaders_def Let_def)
    then have "nat (imm x) \<in> sched_leaders insts" unfolding sched_leaders_def using i(1) by auto
    then have "nat (imm x) \<in> set ?L" unfolding L(2) .
    then obtain k where "k < length (basic_blocks insts)"
        "length (concat (take k (basic_blocks insts))) = nat (imm x) - 0"
      using blocks_starts [of 0 M "nat (imm x)" insts] L lt M by (auto simp: basic_blocks_def)
    then show "\<exists>k<length (basic_blocks insts). imm x = int (length (concat (take k (basic_blocks insts))))"
      using x(3) by (intro exI [of _ k]) simp
  qed
qed

lemma list_all2_refl_on: "(\<And>x. x \<in> set xs \<Longrightarrow> P x x) \<Longrightarrow> list_all2 P xs xs"
  by (simp add: list_all2_conv_all_nth)

lemma concat_singletons: "concat (map (\<lambda>x. [x]) xs) = xs"
  by (induction xs) auto

lemma run_warp_loop_eqv:
  assumes pl: "\<forall>x\<in>set insts. plain x" and e: "log_eqv s t"
    and run: "run_warp_loop h insts fuel 0 lanes s = Inr (lanes', s')"
  shows "\<exists>t'. run_warp_loop h insts fuel 0 lanes t = Inr (lanes', t') \<and> log_eqv s' t'"
proof -
  let ?bs = "map (\<lambda>x. [x]) insts"
  have cat: "concat ?bs = insts" by (rule concat_singletons)
  have tk: "length (concat (take k ?bs)) = k" if "k \<le> length insts" for k
    using that by (simp add: take_map concat_singletons)
  have sim: "list_all2 (block_sim h) ?bs ?bs"
    by (rule list_all2_refl_on, rule block_sim_refl) (auto simp: control_last_def)
  have jumps: "jumps_to_blocks ?bs"
    unfolding jumps_to_blocks_def cat
  proof (intro ballI impI)
    fix x assume "0 \<le> imm x \<and> imm x < int (length insts)"
    then show "\<exists>k<length ?bs. imm x = int (length (concat (take k ?bs)))"
      using tk [of "nat (imm x)"] by (intro exI [of _ "nat (imm x)"]) auto
  qed
  have "insts \<noteq> []" using run by (subst (asm) run_warp_loop.simps) auto
  then have "0 < length ?bs" by simp
  moreover have "[] \<notin> set ?bs" by auto
  moreover have "\<forall>x\<in>set (concat ?bs). plain x" using pl by (simp only: cat)
  ultimately show ?thesis
    using program_sim [OF sim jumps _ _ _ e, of 0 fuel lanes lanes' s'] run by (simp add: cat)
qed

lemma schedule_lowered_warp:
  assumes safe: "program_safe (lowered_instructions p)" and q: "schedule_lowered p = Inr q"
    and e: "log_eqv s t"
    and run: "run_warp_loop h (lowered_instructions p) fuel 0 lanes s = Inr (lanes', s')"
  shows "\<exists>t'. run_warp_loop h (lowered_instructions q) fuel 0 lanes t = Inr (lanes', t') \<and> log_eqv s' t'"
proof -
  let ?i = "lowered_instructions p"
  let ?bs = "basic_blocks ?i"
  have pl: "\<forall>x\<in>set ?i. plain x" using safe by (simp add: program_safe_def list_all_iff)
  show ?thesis
  proof (cases rule: schedule_lowered_cases [of p])
    case 1
    then have "q = p" using q by simp
    with run_warp_loop_eqv [OF pl e run] show ?thesis by simp
  next
    case (2 bs')
    have ops: "\<forall>x\<in>set ?i. py_upper (opcode x) \<notin> {''CALL'', ''RET''}" using pl by (auto simp: plain_def)
    have bl: "control_last b \<and> b \<noteq> []" if "b \<in> set ?bs" for b
      using blocks_control_last [OF 2(1) ops] that by (simp add: basic_blocks_def)
    have sub: "x \<in> set ?i" if "b \<in> set ?bs" "x \<in> set b" for b x
      using that 2(4) by (metis UN_I set_concat)
    have bsafe: "block_safe b" if "b \<in> set ?bs" for b
      using bl [OF that] sub [OF that] pl safe that by (auto simp: block_safe_def program_safe_def list_all_iff)
    have sim: "list_all2 (block_sim h) ?bs bs'"
      using 2(3) bsafe schedule_block_sim by (auto simp: list_all2_conv_all_nth)
    have "\<exists>t'. run_warp_loop h (concat bs') fuel (int (length (concat (take 0 ?bs)))) lanes t = Inr (lanes', t')
        \<and> log_eqv s' t'"
    proof (rule program_sim [OF sim program_safe_jumps [OF 2(1) safe] _ _ _ e])
      show "[] \<notin> set ?bs" using bl by blast
      show "\<forall>x\<in>set (concat ?bs). plain x" using pl by (simp only: 2(4))
      show "0 < length ?bs" using 2(1,4) by (cases ?bs) auto
      show "run_warp_loop h (concat ?bs) fuel (int (length (concat (take 0 ?bs)))) lanes s = Inr (lanes', s')"
        using run by (simp add: 2(4))
    qed
    moreover have "q = \<lparr>lowered_instructions = concat bs', parameter_offsets = parameter_offsets p\<rparr>"
      using q 2(2) by simp
    ultimately show ?thesis by simp
  qed
qed

lemma schedule_lowered_run:
  assumes safe: "program_safe (lowered_instructions p)" and q: "schedule_lowered p = Inr q"
    and c: "instructions c = lowered_instructions p"
    and run: "sim_run c s = Inr s'"
  shows "\<exists>t'. sim_run (c\<lparr>instructions := lowered_instructions q\<rparr>) s = Inr t' \<and> log_eqv s' t'"
proof -
  let ?c = "c\<lparr>instructions := lowered_instructions q\<rparr>"
  have warp: "\<exists>t'. run_warp ?c lanes t = Inr (lanes', t') \<and> log_eqv s' t'"
    if "log_eqv s t" "run_warp c lanes s = Inr (lanes', s')" for s t lanes lanes' s'
    using schedule_lowered_warp [OF safe q that(1), of "host c" "nat (max_steps c)" lanes lanes' s'] that(2)
    by (simp add: run_warp_def c)
  have lanes: "warp_lanes ?c = warp_lanes c" by (simp add: fun_eq_iff warp_lanes_def)
  let ?f = "\<lambda>c b w s. bind_r (run_warp c (warp_lanes c b w) s) (\<lambda>(_, s'). Inr s')"
  let ?row = "\<lambda>c b s. if cfg_warp_size c = 0 then Inl (PyValueError, s)
      else fold_r (?f c b) (py_range3 (dim_count (cfg_block_dim c)) (cfg_warp_size c)) s"
  let ?ws = "py_range3 (dim_count (cfg_block_dim c)) (cfg_warp_size c)"
  have step: "\<exists>t1. ?f ?c b w t = Inr t1 \<and> log_eqv s1 t1"
    if "log_eqv s t" "?f c b w s = Inr s1" for b w s t s1
    using warp [OF that(1), of "warp_lanes c b w"] that(2) by (auto simp: lanes)
  have row: "\<exists>t1. ?row ?c b t = Inr t1 \<and> log_eqv s1 t1"
    if st: "log_eqv s t" and r: "?row c b s = Inr s1" for b s t s1
  proof -
    have ws: "cfg_warp_size c \<noteq> 0" and r': "fold_r (?f c b) ?ws s = Inr s1"
      using r by (auto split: if_splits)
    have "\<exists>t1. fold_r (?f ?c b) ?ws t = Inr t1 \<and> log_eqv s1 t1"
      by (rule fold_r_sim [where R = log_eqv, OF step st r'])
    with ws show ?thesis by simp
  qed
  have "\<exists>t'. fold_r (?row ?c) (map int [0..<nat (dim_count (cfg_grid_dim c))]) s = Inr t' \<and> log_eqv s' t'"
    by (rule fold_r_sim [where R = log_eqv and f = "?row c", OF row log_eqv_refl
          run [unfolded sim_run_def Let_def]])
  then show ?thesis by (simp add: sim_run_def Let_def)
qed

subsection \<open>Concrete programs\<close>

text \<open>
  A load behind an unrelated addition, which the scheduler moves forward:
  \<^verbatim>\<open>LOADI R1, 0; ADD.u32 R3, R2, R2; LD.b32.gmem R4, [R1]; LOADI R5, 4; ST.b32.gmem [R5], R4; HALT\<close>.
\<close>

definition sched_demo :: LoweredProgram where
  "sched_demo = \<lparr>lowered_instructions =
     [(aec ''LOADI'')\<lparr>dtype := ''b32'', dest := 1\<rparr>,
      (aec ''ADD'')\<lparr>dtype := ''u32'', dest := 3, src1 := 2, src2 := 2\<rparr>,
      (aec ''LD'')\<lparr>dtype := ''b32'', dest := 4, src1 := 1, memory_space := Some ''gmem''\<rparr>,
      (aec ''LOADI'')\<lparr>dtype := ''b32'', dest := 5, imm := 4\<rparr>,
      (aec ''ST'')\<lparr>dtype := ''b32'', src1 := 5, src2 := 4, memory_space := Some ''gmem''\<rparr>,
      aec ''HALT''],
     parameter_offsets = [(''p'', 0)]\<rparr>"

text \<open>
  The same with the load guarded by a predicate the block computes:
  \<^verbatim>\<open>LOADI R4, 0; CMPP.eq.u32 P1, R2, R3; @P1 LD.b32.gmem R6, [R4]; LOADI R5, 4;
  ST.b32.gmem [R5], R6; HALT\<close>.
\<close>

definition guard_demo :: LoweredProgram where
  "guard_demo = \<lparr>lowered_instructions =
     [(aec ''LOADI'')\<lparr>dtype := ''b32'', dest := 4\<rparr>,
      (aec ''CMPP'')\<lparr>dtype := ''u32'', dest := 1, src1 := 2, src2 := 3, compare := Some ''eq''\<rparr>,
      (aec ''LD'')\<lparr>dtype := ''b32'', dest := 6, src1 := 4, memory_space := Some ''gmem'', predicate := Some 1\<rparr>,
      (aec ''LOADI'')\<lparr>dtype := ''b32'', dest := 5, imm := 4\<rparr>,
      (aec ''ST'')\<lparr>dtype := ''b32'', src1 := 5, src2 := 6, memory_space := Some ''gmem''\<rparr>,
      aec ''HALT''],
     parameter_offsets = []\<rparr>"

definition sched_config :: "LoweredProgram \<Rightarrow> sim_config" where
  "sched_config p = \<lparr>host = demo_host, instructions = lowered_instructions p, cfg_block_dim = (1, 1, 1),
     cfg_grid_dim = (1, 1, 1), cfg_warp_size = 32, max_steps = 100\<rparr>"

definition sched_memory :: sim_state where
  "sched_memory = new_sim_state [] [1, 2, 3, 4, 9, 9, 9, 9]"

definition final_gmem :: "LoweredProgram \<Rightarrow> byte list option" where
  "final_gmem p = (case sim_run (sched_config p) sched_memory of Inl _ \<Rightarrow> None | Inr t \<Rightarrow> Some (gmem t))"

lemma sched_demo_safe: "program_safe (lowered_instructions sched_demo)"
  by code_simp

lemma sched_demo_gmem: "final_gmem sched_demo = Some [1, 2, 3, 4, 1, 2, 3, 4]"
  by code_simp

subsection \<open>The properties of the pass\<close>

text \<open>
  C12. Scheduling any program succeeds: the check for an unresolved dependency graph
  never fires and the ready loop ends within as many rounds as the block has instructions. The
  result has the same instructions, each as often, and the same parameter offsets.
\<close>

theorem schedule_total:
  "\<exists>q. schedule_lowered p = Inr q \<and> mset (lowered_instructions q) = mset (lowered_instructions p)
     \<and> parameter_offsets q = parameter_offsets p"
proof (cases rule: schedule_lowered_cases [of p])
  case 1
  then show ?thesis by simp
next
  case (2 bs')
  then show ?thesis using blocks_mset [OF 2(3)] by simp
qed

text \<open>
  C13. Take a block whose only control instruction is the last, as the blocks of the scheduler are. Its
  schedule is a permutation that keeps in order every pair of which the earlier writes, as its
  destination field says, a register that the later has as a source field or as destination, or has as a
  source field the destination of the later; every load behind every earlier store; and everything in
  front of a store or the control instruction. The second register of a pair and the guard are in
  neither field, and are not ordered.
\<close>

theorem schedule_order:
  assumes "schedule_block insts = Inr ys" "control_last insts"
  shows "\<exists>out. ys = map (\<lambda>i. insts ! i) out \<and> distinct out \<and> set out = {..<length insts}
    \<and> (\<forall>j<length insts. \<forall>i<j. conflict insts i j \<longrightarrow> before out i j)"
proof (cases "length insts \<le> 2")
  case True
  then have "ys = map (\<lambda>i. insts ! i) [0..<length insts]"
    using assms(1) by (simp add: schedule_block_short map_nth)
  then show ?thesis
    by (intro exI [of _ "[0..<length insts]"]) (auto simp: before_upt)
next
  case False
  obtain out where out: "schedule_block insts = Inr (map (\<lambda>i. insts ! i) out)" "distinct out"
      "set out = {..<length insts}" "ordered (goes_after insts) out"
    using schedule_block_ok [of insts] False by auto
  show ?thesis
    using out(1) assms(1) conflict_before [OF out(2-4) assms(2)] out(2,3) by (intro exI [of _ out]) auto
qed

definition demo_block :: "AECInstruction list" where
  "demo_block = lowered_instructions sched_demo"

lemma demo_block_control: "list_all (\<lambda>i. inst_kind (demo_block ! i) = CONTROL \<longrightarrow> i = length demo_block - 1)
    [0..<length demo_block]"
  by code_simp

lemma schedule_order_witness:
  "\<exists>ys out. schedule_block demo_block = Inr ys \<and> ys = map (\<lambda>i. demo_block ! i) out \<and> distinct out
     \<and> before out 2 4 \<and> before out 0 2"
proof -
  have cl: "control_last demo_block"
    using demo_block_control by (simp add: control_last_def list_all_iff)
  obtain ys where ys: "schedule_block demo_block = Inr ys" using schedule_block_total by blast
  obtain out where out: "ys = map (\<lambda>i. demo_block ! i) out" "distinct out"
      "\<forall>j<length demo_block. \<forall>i<j. conflict demo_block i j \<longrightarrow> before out i j"
    using schedule_order [OF ys cl] by blast
  have w: "writes demo_block 2 4 \<and> reads demo_block 4 4 \<and> writes demo_block 0 1 \<and> reads demo_block 2 1
      \<and> length demo_block = 6"
    by code_simp
  then have "conflict demo_block 2 4" "conflict demo_block 0 2" unfolding conflict_def by blast+
  with out ys w show ?thesis by auto
qed

text \<open>
  C5. Scheduling preserves the meaning of a program that is safe to schedule: its instructions have
  registers of the file and non-negative fields, are no \<^verbatim>\<open>LOADI64\<close>, call or return and have no 64-bit
  type, and no basic block holds both a comparison and an instruction, other than a branch or halt,
  guarded by the predicate it writes. If the simulator runs such a program to its end, it runs the
  scheduled one to its end, with the same global memory, branch trace and counters, and the same memory
  accesses up to the order in which they were logged.
\<close>

theorem schedule_preserves:
  assumes "program_safe (lowered_instructions p)" "schedule_lowered p = Inr q"
    and "instructions c = lowered_instructions p" "sim_run c s = Inr t"
  shows "\<exists>t'. sim_run (c\<lparr>instructions := lowered_instructions q\<rparr>) s = Inr t'
    \<and> t = t'\<lparr>accesses := accesses t\<rparr> \<and> mset (accesses t) = mset (accesses t')"
  using schedule_lowered_run [OF assms] by (simp add: log_eqv_def)

lemma schedule_preserves_witness:
  "\<exists>q. schedule_lowered sched_demo = Inr q \<and> final_gmem q = Some [1, 2, 3, 4, 1, 2, 3, 4]"
proof -
  obtain q where q: "schedule_lowered sched_demo = Inr q"
    using schedule_lowered_cases [of sched_demo] by blast
  obtain t where t: "sim_run (sched_config sched_demo) sched_memory = Inr t" "gmem t = [1, 2, 3, 4, 1, 2, 3, 4]"
    using sched_demo_gmem unfolding final_gmem_def by (auto split: sum.splits)
  have c: "instructions (sched_config sched_demo) = lowered_instructions sched_demo"
    by (simp add: sched_config_def)
  have cq: "(sched_config sched_demo)\<lparr>instructions := lowered_instructions q\<rparr> = sched_config q"
    by (simp add: sched_config_def)
  obtain t' where t': "sim_run (sched_config q) sched_memory = Inr t'" "t = t'\<lparr>accesses := accesses t\<rparr>"
    using schedule_preserves [OF sched_demo_safe q c t(1)] unfolding cq by blast
  have "gmem t' = gmem t" by (subst t'(2)) simp
  with q t' t(2) show ?thesis by (auto simp: final_gmem_def)
qed

text \<open>
  The scheduler does not track guard predicates: in a block that computes a
  predicate and then loads under it, the guarded load is moved before the compare, and the program
  ends with a different global memory.
\<close>

theorem guard_not_tracked:
  "(case schedule_lowered guard_demo of Inl _ \<Rightarrow> False
    | Inr q \<Rightarrow> final_gmem guard_demo = Some [1, 2, 3, 4, 1, 2, 3, 4]
        \<and> final_gmem q = Some [1, 2, 3, 4, 0, 0, 0, 0])"
  by code_simp

text \<open>
  Nor does it track the second register of a pair: behind a store that reads R2, the \<^verbatim>\<open>LOADI\<close> of R3 is
  moved in front of the \<^verbatim>\<open>LOADI64\<close> that writes R2 and R3.
\<close>

lemma pair_write_not_tracked:
  "schedule_indices
     [(aec ''ST'')\<lparr>dtype := ''u32'', src1 := 2, src2 := 5, memory_space := Some ''gmem''\<rparr>,
      (aec ''LOADI64'')\<lparr>dest := 2, imm := 7\<rparr>, (aec ''LOADI'')\<lparr>dest := 3, imm := 9\<rparr>, aec ''HALT''] =
   Some [2, 0, 1, 3]"
  by code_simp

end
