(* ===== verification/Objdump.thy ===== *)
theory Objdump
  imports ISA
begin

unbundle bit_operations_syntax

text \<open>
  \<^verbatim>\<open>src/src/aec_compiler/objdump.py\<close>: the listing of a binary, raw or with the AECI header, and
  the properties of the binary format of \<^verbatim>\<open>isa.py\<close> as a whole: programs survive encoding and
  decoding, decoding is a normal form, and the encoder fails exactly where it says.
\<close>

definition AECI_MAGIC :: int where
  "AECI_MAGIC = 0x49434541"

datatype objdump_error = NoProfile string | Undecodable encode_error

text \<open>\<^verbatim>\<open>struct.unpack_from("<I", blob, offset)[0]\<close>.\<close>

definition unpack_u32 :: "byte list \<Rightarrow> nat \<Rightarrow> int" where
  "unpack_u32 blob offset = from_bytes_le (take 4 (drop offset blob))"

definition code_offset :: "byte list \<Rightarrow> nat" where
  "code_offset blob =
     (if 64 \<le> length blob \<and> unpack_u32 blob 0 = AECI_MAGIC then nat (unpack_u32 blob 12) else 0)"

definition listing_line :: "ISAProfile \<Rightarrow> nat \<Rightarrow> words4 \<Rightarrow> string" where
  "listing_line prof pc w =
     py_dec_pad 4 (int pc) @ '': '' @ words_to_msb_hex w @ ''    '' @ decode_instruction prof w"

definition disassemble :: "byte list \<Rightarrow> string \<Rightarrow> objdump_error + string list" where
  "disassemble blob name = (case map_of PROFILES name of
     None \<Rightarrow> Inl (NoProfile name)
   | Some prof \<Rightarrow>
       (case bytes_to_words (drop (code_offset blob) blob) of
          Inl e \<Rightarrow> Inl (Undecodable e)
        | Inr ws \<Rightarrow> Inr (map (\<lambda>(pc, w). listing_line prof pc w) (enumerate 0 ws))))"

lemma profile_tables: "map_of PROFILES name = Some prof \<Longrightarrow> isa_tables prof"
  using c1.isa_tables_axioms track_b.isa_tables_axioms
  by (auto simp: PROFILES_def split: if_splits)

lemma profile_names: "map_of PROFILES (profile_name TRACK_B_V1) = Some TRACK_B_V1"
    "map_of PROFILES (profile_name C1_DEFAULT) = Some C1_DEFAULT"
  by (simp_all add: PROFILES_def C1_DEFAULT_def TRACK_B_V1_def)

subsection \<open>A concrete program\<close>

text \<open>\<^verbatim>\<open>LOADI R1, 4; CMPP.lt.u32 P2, R0, R1; BRX !P2, 0; @P2 LD.gmem.b32 R3, [R1]; HALT\<close>.\<close>

definition isa_demo :: "AECInstruction list" where
  "isa_demo =
     [(aec ''LOADI'')\<lparr>dest := 1, imm := 4\<rparr>,
      (aec ''CMPP'')\<lparr>dtype := ''u32'', dest := 2, src2 := 1, compare := Some ''lt''\<rparr>,
      (aec ''BRX'')\<lparr>predicate := Some 2, predicate_negated := True\<rparr>,
      (aec ''LD'')\<lparr>dtype := ''b32'', dest := 3, src1 := 1, memory_space := Some ''gmem'', predicate := Some 2\<rparr>,
      aec ''HALT'']"

lemma isa_demo_canonical: "list_all (canonical C1_DEFAULT) isa_demo"
  by code_simp

subsection \<open>The properties of the binary format\<close>

text \<open>
  C11. A program of canonical instructions is encoded into sixteen bytes per
  instruction, and cutting the bytes into words and decoding them gives the program back, in both
  profiles.
\<close>

theorem program_round_trip:
  assumes "map_of PROFILES name = Some prof" "list_all (canonical prof) prog"
  shows "\<exists>bs ws. instructions_to_bytes prof prog = Inr bs \<and> length bs = 16 * length prog
    \<and> bytes_to_words bs = Inr ws \<and> map_r (decode_words_to_instruction prof) ws = Inr prog"
  using isa_tables.binary_round_trip [OF profile_tables [OF assms(1)] assms(2)] .

lemma program_round_trip_witness:
  "\<exists>bs. instructions_to_bytes C1_DEFAULT isa_demo = Inr bs \<and> length bs = 80"
proof -
  have "length isa_demo = 5" by code_simp
  with program_round_trip [OF profile_names(2) isa_demo_canonical] show ?thesis by auto
qed

text \<open>
  C16. Decoding is a normal form, but for the type field the encoder rewrites: for a decoded instruction
  whose type field is the one the encoder stores for its opcode (it stores \<open>u32\<close> for \<^verbatim>\<open>SHL.b32\<close>, and
  \<open>none\<close> for \<^verbatim>\<open>LOADI\<close>, \<^verbatim>\<open>LOADI64\<close>, \<^verbatim>\<open>BR\<close> and \<^verbatim>\<open>BRX\<close>), re-encoding it succeeds and decodes to the same instruction.
\<close>

theorem decode_normal:
  assumes "map_of PROFILES name = Some prof" "decode_words_to_instruction prof w = Inr i"
    and "instruction_encoding_type (opcode i) (dtype i) = dtype i"
  shows "\<exists>w'. encode_instruction prof i = Inr w' \<and> words_ok w' \<and> decode_words_to_instruction prof w' = Inr i"
proof -
  note tables = profile_tables [OF assms(1)]
  have "canonical prof i" using isa_tables.decode_canonical [OF tables assms(2,3)] .
  with isa_tables.round_trip [OF tables] encode_words_ok show ?thesis by blast
qed

text \<open>A word with bits set that no field of the instruction uses.\<close>

definition odd_words :: words4 where
  "odd_words = (7, 0x12345, 0x00030001, 0x00018788)"

lemma decode_normal_witness:
  "\<exists>i w'. decode_words_to_instruction C1_DEFAULT odd_words = Inr i \<and> opcode i = ''ADD''
     \<and> encode_instruction C1_DEFAULT i = Inr w'"
proof -
  have "case decode_words_to_instruction C1_DEFAULT odd_words of Inl _ \<Rightarrow> False
    | Inr i \<Rightarrow> opcode i = ''ADD'' \<and> instruction_encoding_type (opcode i) (dtype i) = dtype i"
    by code_simp
  then obtain i where i: "decode_words_to_instruction C1_DEFAULT odd_words = Inr i" "opcode i = ''ADD''"
      "instruction_encoding_type (opcode i) (dtype i) = dtype i"
    using case_InrD by blast
  with decode_normal [OF profile_names(2) i(1,3)] show ?thesis by blast
qed

text \<open>
  C17. The encoder fails exactly when the opcode, the type, the conversion source, the compare operation
  or the memory space of the instruction is not in the profile's tables, or when the instruction has no
  predicate although it is a \<^verbatim>\<open>BRX\<close> or asks for the negation of one; every success is four 32-bit words,
  so \<^verbatim>\<open>struct.pack("<4I", ...)\<close> cannot raise.
\<close>

theorem encode_fails_exactly:
  "case encode_instruction prof i of Inl _ \<Rightarrow> \<not> encodable prof i | Inr w \<Rightarrow> encodable prof i \<and> words_ok w"
  using encode_succeeds_iff [of prof i] encode_words_ok [of prof i] by (auto split: sum.split)

lemma raw_listing:
  assumes "map_of PROFILES name = Some prof" "instructions_to_bytes prof prog = Inr bs"
    and "length prog < 4 \<or> unpack_u32 bs 0 \<noteq> AECI_MAGIC"
  shows "\<exists>ws. map_r (encode_instruction prof) prog = Inr ws
    \<and> disassemble bs name = Inr (map (\<lambda>pc. listing_line prof pc (ws ! pc)) [0..<length prog])"
proof -
  have len: "length bs = 16 * length prog" using instructions_to_bytes_words(1) [OF assms(2)] .
  obtain ws where ws: "map_r (encode_instruction prof) prog = Inr ws" "bytes_to_words bs = Inr ws"
    using instructions_to_bytes_words(2) [OF assms(2)] by blast
  have "code_offset bs = 0" using assms(3) len by (auto simp: code_offset_def)
  moreover have "map (\<lambda>(pc, w). listing_line prof pc w) (enumerate 0 ws)
      = map (\<lambda>pc. listing_line prof pc (ws ! pc)) [0..<length prog]"
    using map_r_length [OF ws(1)] by (intro nth_equalityI) (simp_all add: nth_enumerate_eq)
  ultimately show ?thesis using ws assms(1) by (simp add: disassemble_def)
qed

text \<open>
  C20. The disassembler prints one numbered line per instruction of a raw binary,
  unless the binary has sixty-four bytes or more and its first word is the AECI magic number.
\<close>

theorem listing_of_program:
  assumes "map_of PROFILES name = Some prof" "instructions_to_bytes prof prog = Inr bs"
    and "length prog < 4 \<or> unpack_u32 bs 0 \<noteq> AECI_MAGIC"
  shows "\<exists>ws. map_r (encode_instruction prof) prog = Inr ws
    \<and> disassemble bs name = Inr (map (\<lambda>pc. listing_line prof pc (ws ! pc)) [0..<length prog])"
  using assms by (rule raw_listing)

lemma listing_of_program_witness:
  "\<exists>bs lines. instructions_to_bytes C1_DEFAULT isa_demo = Inr bs
     \<and> disassemble bs (profile_name C1_DEFAULT) = Inr lines \<and> length lines = 5"
proof -
  have "case instructions_to_bytes C1_DEFAULT isa_demo of Inl _ \<Rightarrow> False
    | Inr bs \<Rightarrow> unpack_u32 bs 0 \<noteq> AECI_MAGIC" by code_simp
  then obtain bs where bs: "instructions_to_bytes C1_DEFAULT isa_demo = Inr bs" "unpack_u32 bs 0 \<noteq> AECI_MAGIC"
    using case_InrD by blast
  have "length isa_demo = 5" by code_simp
  with listing_of_program [OF profile_names(2) bs(1) disjI2 [OF bs(2)]] bs show ?thesis by auto
qed

text \<open>
  The listing does not show the negation of a conditional branch: for
  every predicate, \<^verbatim>\<open>BRX Pn\<close> and \<^verbatim>\<open>BRX !Pn\<close> have different encodings and the same text.
\<close>

definition brx :: "int \<Rightarrow> bool \<Rightarrow> AECInstruction" where
  "brx p neg = (aec ''BRX'')\<lparr>predicate := Some p, predicate_negated := neg, imm := 12\<rparr>"

theorem listing_drops_negation:
  "list_all (\<lambda>p. case (encode_instruction C1_DEFAULT (brx p False), encode_instruction C1_DEFAULT (brx p True)) of
       (Inr v, Inr w) \<Rightarrow> v \<noteq> w \<and> decode_instruction C1_DEFAULT v = decode_instruction C1_DEFAULT w
     | _ \<Rightarrow> False) [0, 1, 2, 3, 4, 5, 6, 7]"
  by code_simp

end
