(* ===== verification/PTX.thy ===== *)
theory PTX
  imports Prelude
begin

text \<open>
  \<^verbatim>\<open>src/src/aec_compiler/ptx.py\<close> and \<^verbatim>\<open>ir/model.py\<close>: the parser of the PTX subset and the IR module
  that carries the parsed program. The four regular expressions of the source are read as the
  matchers they denote: each is a sequence of literals and of greedy runs of disjoint character
  classes, so a match is found without backtracking.
\<close>

datatype ptx_error = NoEntryKernel

record Parameter =
  param_name :: string
  param_dtype :: string

record RegisterDecl =
  reg_prefix :: string
  reg_dtype :: string
  reg_count :: nat

record PTXInstruction =
  inst_opcode :: string
  operands :: "string list"
  guard :: "string option"
  guard_negated :: bool
  source_line :: nat

text \<open>An item of a program: \<^verbatim>\<open>str | PTXInstruction\<close>.\<close>

datatype item = Label string | Inst PTXInstruction

record PTXProgram =
  kernel_name :: string
  parameters :: "Parameter list"
  reg_decls :: "RegisterDecl list"
  items :: "item list"

subsection \<open>Line and token scanning\<close>

text \<open>\<^verbatim>\<open>str.splitlines()\<close>: a carriage return and a line feed count as one break.\<close>

definition is_line_break :: "char \<Rightarrow> bool" where
  "is_line_break c \<longleftrightarrow> (let n = of_char c :: nat in (10 \<le> n \<and> n \<le> 13) \<or> (28 \<le> n \<and> n \<le> 30))"

fun splitlines_acc :: "string \<Rightarrow> string \<Rightarrow> string list" where
  "splitlines_acc acc [] = (if acc = [] then [] else [rev acc])"
| "splitlines_acc acc [c] = (if is_line_break c then [rev acc] else [rev (c # acc)])"
| "splitlines_acc acc (c # d # cs) =
     (if c = CHR 0x0D \<and> d = CHR 0x0A then rev acc # splitlines_acc [] cs
      else if is_line_break c then rev acc # splitlines_acc [] (d # cs)
      else splitlines_acc (c # acc) (d # cs))"

definition splitlines :: "string \<Rightarrow> string list" where
  "splitlines s = splitlines_acc [] s"

text \<open>\<^verbatim>\<open>line.split("//", 1)[0]\<close>.\<close>

fun before_comment :: "string \<Rightarrow> string" where
  "before_comment [] = []"
| "before_comment [c] = [c]"
| "before_comment (c # d # cs) =
     (if c = CHR ''/'' \<and> d = CHR ''/'' then [] else c # before_comment (d # cs))"

text \<open>A literal, one or more blanks, one or more word characters: what follows on success.\<close>

definition lit :: "string \<Rightarrow> string \<Rightarrow> string option" where
  "lit p s = (if starts_with s p then Some (drop (length p) s) else None)"

definition run1 :: "(char \<Rightarrow> bool) \<Rightarrow> string \<Rightarrow> (string \<times> string) option" where
  "run1 P s = (let w = takeWhile P s in if w = [] then None else Some (w, dropWhile P s))"

fun search :: "(string \<Rightarrow> 'a option) \<Rightarrow> string \<Rightarrow> 'a option" where
  "search m [] = m []"
| "search m (c # cs) = (case m (c # cs) of Some r \<Rightarrow> Some r | None \<Rightarrow> search m cs)"

definition PARAM_RE :: "string \<Rightarrow> Parameter option" where
  "PARAM_RE s =
     Option.bind (lit ''.param'' s) (\<lambda>s. Option.bind (run1 is_space s) (\<lambda>(_, s).
     Option.bind (lit ''.'' s) (\<lambda>s. Option.bind (run1 is_word s) (\<lambda>(dt, s).
     Option.bind (run1 is_space s) (\<lambda>(_, s). Option.bind (run1 is_word s) (\<lambda>(nm, _).
     Some \<lparr>param_name = nm, param_dtype = dt\<rparr>))))))"

definition reg_count_of :: "string \<Rightarrow> nat" where
  "reg_count_of s = (case lit ''<'' s of None \<Rightarrow> 1 | Some t \<Rightarrow>
     (case run1 is_digit t of None \<Rightarrow> 1 | Some (ds, u) \<Rightarrow>
        (case lit ''>'' u of None \<Rightarrow> 1 | Some _ \<Rightarrow>
           (case digits_value 10 0 ds of None \<Rightarrow> 1 | Some n \<Rightarrow> n))))"

definition REG_RE :: "string \<Rightarrow> RegisterDecl option" where
  "REG_RE s =
     Option.bind (lit ''.reg'' s) (\<lambda>s. Option.bind (run1 is_space s) (\<lambda>(_, s).
     Option.bind (lit ''.'' s) (\<lambda>s. Option.bind (run1 is_word s) (\<lambda>(dt, s).
     Option.bind (run1 is_space s) (\<lambda>(_, s). Option.bind (lit ''%'' s) (\<lambda>s.
     Option.bind (run1 is_alpha s) (\<lambda>(pre, s).
     Some \<lparr>reg_prefix = pre, reg_dtype = dt, reg_count = reg_count_of s\<rparr>)))))))"

definition ENTRY_RE :: "string \<Rightarrow> string option" where
  "ENTRY_RE s =
     Option.bind (lit ''.entry'' s) (\<lambda>s. Option.bind (run1 is_space s) (\<lambda>(_, s).
     Option.bind (run1 is_word s) (\<lambda>(nm, s).
     Option.bind (lit ''('' (dropWhile is_space s)) (\<lambda>_. Some nm))))"

text \<open>The predicate, its negation, and the text behind the match.\<close>

definition PRED_RE :: "string \<Rightarrow> (bool \<times> string \<times> string) option" where
  "PRED_RE s =
     Option.bind (lit ''@'' s) (\<lambda>s.
       let (neg, s) = (case lit ''!'' s of Some t \<Rightarrow> (True, t) | None \<Rightarrow> (False, s)) in
     Option.bind (lit ''%p'' s) (\<lambda>s.
       let p = ''p'' @ takeWhile is_digit s in
     Option.bind (run1 is_space (dropWhile is_digit s)) (\<lambda>(_, s). Some (neg, p, s))))"

fun split_operands_acc :: "int \<Rightarrow> string \<Rightarrow> string \<Rightarrow> string list" where
  "split_operands_acc depth cur [] = (if cur = [] then [] else [py_strip (rev cur)])"
| "split_operands_acc depth cur (c # cs) =
     (let depth' = (if c = CHR ''['' then depth + 1 else if c = CHR '']'' then depth - 1 else depth)
      in if c = CHR '','' \<and> depth' = 0 then py_strip (rev cur) # split_operands_acc depth' [] cs
         else split_operands_acc depth' (c # cur) cs)"

definition split_operands :: "string \<Rightarrow> string list" where
  "split_operands text = split_operands_acc 0 [] text"

text \<open>\<^verbatim>\<open>line.split(None, 1)\<close> of a stripped, not empty line.\<close>

definition split_instruction :: "string \<Rightarrow> string \<times> string list" where
  "split_instruction line =
     (let rest = dropWhile is_space (dropWhile (\<lambda>c. \<not> is_space c) line)
      in (takeWhile (\<lambda>c. \<not> is_space c) line, if rest = [] then [] else split_operands rest))"

subsection \<open>The parser\<close>

record parse_state =
  st_kernel :: string
  st_params :: "Parameter list"
  st_regs :: "RegisterDecl list"
  st_items :: "item list"
  in_body :: bool

definition rstrip_semicolons :: "string \<Rightarrow> string" where
  "rstrip_semicolons s = rev (dropWhile (\<lambda>c. c = CHR '';'') (rev s))"

definition strip_semicolon :: "string \<Rightarrow> string" where
  "strip_semicolon line = (if ends_with line '';'' then py_strip (butlast line) else line)"

text \<open>An instruction line of the body, its semicolon removed.\<close>

definition parse_instruction :: "nat \<Rightarrow> string \<Rightarrow> PTXInstruction option" where
  "parse_instruction line_no line0 =
     (let (p, neg, line) = (case PRED_RE line0 of
            Some (neg, p, rest) \<Rightarrow> (Some p, neg, py_strip rest)
          | None \<Rightarrow> (None, False, line0))
      in if line = [] then None
         else (let (op, ops) = split_instruction line
               in Some \<lparr>inst_opcode = op, operands = ops, guard = p, guard_negated = neg,
                        source_line = line_no\<rparr>))"

definition parse_body_line :: "nat \<Rightarrow> string \<Rightarrow> parse_state \<Rightarrow> parse_state" where
  "parse_body_line line_no line st =
     (case REG_RE (rstrip_semicolons line) of
        Some r \<Rightarrow> st\<lparr>st_regs := st_regs st @ [r]\<rparr>
      | None \<Rightarrow>
          if ends_with line '':'' then st\<lparr>st_items := st_items st @ [Label (butlast line)]\<rparr>
          else (case parse_instruction line_no (strip_semicolon line) of
                  None \<Rightarrow> st
                | Some i \<Rightarrow> st\<lparr>st_items := st_items st @ [Inst i]\<rparr>))"

definition parse_line :: "nat \<times> string \<Rightarrow> parse_state \<Rightarrow> parse_state" where
  "parse_line numbered st0 = (case numbered of (line_no, raw) \<Rightarrow>
     (let line = py_strip (before_comment raw) in
      if line = [] then st0
      else (let st = (if st_kernel st0 \<noteq> [] then st0
                      else case search ENTRY_RE line of
                        None \<Rightarrow> st0 | Some nm \<Rightarrow> st0\<lparr>st_kernel := nm\<rparr>)
            in case (if in_body st then None else search PARAM_RE line) of
                 Some p \<Rightarrow> st\<lparr>st_params := st_params st @ [p]\<rparr>
               | None \<Rightarrow>
                   if line = ''{'' then st\<lparr>in_body := True\<rparr>
                   else if line = ''}'' then st\<lparr>in_body := False\<rparr>
                   else if \<not> in_body st then st
                   else parse_body_line line_no line st)))"

definition initial_parse :: parse_state where
  "initial_parse = \<lparr>st_kernel = [], st_params = [], st_regs = [], st_items = [], in_body = False\<rparr>"

definition parse_ptx :: "string \<Rightarrow> ptx_error + PTXProgram" where
  "parse_ptx text =
     (let st = fold parse_line (enumerate 1 (splitlines text)) initial_parse in
      if st_kernel st = [] then Inl NoEntryKernel
      else Inr \<lparr>kernel_name = st_kernel st, parameters = st_params st, reg_decls = st_regs st,
                items = st_items st\<rparr>)"

subsection \<open>The IR module\<close>

record IRBlock =
  irb_name :: string
  instruction_count :: nat
  irb_predecessors :: "string list"
  irb_successors :: "string list"

record IRFunction =
  fn_name :: string
  fn_program :: PTXProgram
  fn_blocks :: "IRBlock list"

record 'm IRModule =
  source_text :: string
  ir_function :: IRFunction
  metadata :: "'m dict"

definition module_from_program :: "string \<Rightarrow> PTXProgram \<Rightarrow> 'm IRModule" where
  "module_from_program text p =
     \<lparr>source_text = text,
      ir_function = \<lparr>fn_name = kernel_name p, fn_program = p, fn_blocks = []\<rparr>,
      metadata = []\<rparr>"

end
