(* ===== verification/Helpers.thy ===== *)
theory Helpers
  imports PTX Float32
begin

unbundle bit_operations_syntax

text \<open>
  \<^verbatim>\<open>src/src/aec_compiler/passes/_helpers.py\<close>: which registers an instruction reads and defines,
  which instructions dead code elimination must keep, and the arithmetic of constant folding.
  Sets of register names that the source iterates over are lists where the order does not matter
  to any caller, and predicates where it only tests membership.
\<close>

subsection \<open>Opcodes\<close>

definition opcode_parts :: "string \<Rightarrow> string list" where
  "opcode_parts op = split_on (CHR ''.'') op"

definition opcode_base :: "string \<Rightarrow> string" where
  "opcode_base op = before_first (CHR ''.'') op"

definition PURE_RESULT_OPERAND_COUNTS :: "nat dict" where
  "PURE_RESULT_OPERAND_COUNTS =
     [(''add'', 3), (''and'', 3), (''cvt'', 2), (''mad'', 4), (''mov'', 2),
      (''mul'', 3), (''or'', 3), (''shl'', 3), (''shr'', 3), (''sub'', 3), (''xor'', 3)]"

definition pure_result_base :: "string \<Rightarrow> bool" where
  "pure_result_base b \<longleftrightarrow> map_of PURE_RESULT_OPERAND_COUNTS b \<noteq> None"

definition destination_base :: "string \<Rightarrow> bool" where
  "destination_base b \<longleftrightarrow> pure_result_base b \<or> b = ''ld'' \<or> b = ''setp''"

definition side_effecting_modifier :: "string \<Rightarrow> bool" where
  "side_effecting_modifier p \<longleftrightarrow> p = ''cc''"

definition int32_type :: "string \<Rightarrow> bool" where
  "int32_type t \<longleftrightarrow> t \<in> {''b32'', ''s32'', ''u32''}"

definition local_constant_fold_base :: "string \<Rightarrow> bool" where
  "local_constant_fold_base b \<longleftrightarrow> b \<in> {''add'', ''mov'', ''mul'', ''sub''}"

definition side_effecting_base :: "string \<Rightarrow> bool" where
  "side_effecting_base b \<longleftrightarrow> b \<in> {''ld'', ''st'', ''bra'', ''ret'', ''setp'', ''atom'', ''call''}"

subsection \<open>Register references\<close>

text \<open>\<^verbatim>\<open>(?:rd|bd|p|r|s|b|f|h)\d*\<close> at the start: the text matched and the rest.\<close>

definition reg_classes :: "string list" where
  "reg_classes = [''rd'', ''bd'', ''p'', ''r'', ''s'', ''b'', ''f'', ''h'']"

definition reg_name_at :: "string \<Rightarrow> (string \<times> string) option" where
  "reg_name_at s = (case filter (starts_with s) reg_classes of
     [] \<Rightarrow> None
   | p # _ \<Rightarrow> (let t = drop (length p) s in Some (p @ takeWhile is_digit t, dropWhile is_digit t)))"

lemma reg_name_at_length: "reg_name_at s = Some (m, t) \<Longrightarrow> length t \<le> length s"
proof -
  assume "reg_name_at s = Some (m, t)"
  then obtain n where "t = dropWhile is_digit (drop n s)"
    by (auto simp: reg_name_at_def Let_def split: list.splits)
  then show ?thesis
    using length_dropWhile_le [of is_digit "drop n s"] by simp
qed

text \<open>\<^verbatim>\<open>_REGISTER_REFERENCE_RE.findall\<close> and \<^verbatim>\<open>.sub(f, operand)\<close>.\<close>

function register_references :: "string \<Rightarrow> string list" where
  "register_references [] = []"
| "register_references (c # cs) =
     (case (if c = CHR ''%'' then reg_name_at cs else None) of
        Some (m, t) \<Rightarrow> (c # m) # register_references t
      | None \<Rightarrow> register_references cs)"
  by pat_completeness auto
termination
  by (relation "measure length") (auto split: if_splits dest: reg_name_at_length)

function substitute_references :: "(string \<Rightarrow> string) \<Rightarrow> string \<Rightarrow> string" where
  "substitute_references f [] = []"
| "substitute_references f (c # cs) =
     (case (if c = CHR ''%'' then reg_name_at cs else None) of
        Some (m, t) \<Rightarrow> f (c # m) @ substitute_references f t
      | None \<Rightarrow> c # substitute_references f cs)"
  by pat_completeness auto
termination
  by (relation "measure (length \<circ> snd)") (auto split: if_splits dest: reg_name_at_length)

text \<open>\<^verbatim>\<open>_DESTINATION_REGISTER_RE.fullmatch\<close>.\<close>

definition is_register_name :: "string \<Rightarrow> bool" where
  "is_register_name s = (case s of [] \<Rightarrow> False
     | c # cs \<Rightarrow> c = CHR ''%'' \<and> (case reg_name_at cs of None \<Rightarrow> False | Some (_, t) \<Rightarrow> t = []))"

definition destination_register :: "PTXInstruction \<Rightarrow> string option" where
  "destination_register inst = (case operands inst of
     [] \<Rightarrow> None
   | op # _ \<Rightarrow>
       if \<not> destination_base (opcode_base (inst_opcode inst)) then None
       else if \<not> is_register_name (py_strip op) then None
       else Some (py_strip op))"

definition guard_register :: "string \<Rightarrow> string" where
  "guard_register p = (let q = py_strip p in if starts_with q ''%'' then q else CHR ''%'' # q)"

definition source_operands :: "PTXInstruction \<Rightarrow> string list" where
  "source_operands inst =
     (if destination_base (opcode_base (inst_opcode inst)) then drop 1 (operands inst) else operands inst)"

definition instruction_read_registers :: "PTXInstruction \<Rightarrow> string list" where
  "instruction_read_registers inst =
     remdups ((case guard inst of None \<Rightarrow> [] | Some p \<Rightarrow> [guard_register p])
       @ concat (map register_references (source_operands inst)))"

text \<open>How many instructions read a register.\<close>

definition read_register_count :: "PTXProgram \<Rightarrow> string \<Rightarrow> nat" where
  "read_register_count p r =
     length (filter (\<lambda>it. case it of Label _ \<Rightarrow> False
       | Inst i \<Rightarrow> r \<in> set (instruction_read_registers i)) (items p))"

definition is_read_register :: "PTXProgram \<Rightarrow> string \<Rightarrow> bool" where
  "is_read_register p r \<longleftrightarrow> read_register_count p r \<noteq> 0"

definition is_side_effecting :: "PTXInstruction \<Rightarrow> bool" where
  "is_side_effecting inst =
     (let parts = opcode_parts (inst_opcode inst); base = hd parts in
      if guard inst \<noteq> None then True
      else if contains (inst_opcode inst) ''.cc'' \<or> list_ex (\<lambda>p. p = ''cc'') (tl parts) then True
      else if side_effecting_base base then True
      else if base = ''setp'' then True
      else if (case destination_register inst of None \<Rightarrow> False | Some d \<Rightarrow> starts_with d ''%p'') then True
      else if ''pred'' \<in> set parts then True
      else \<not> pure_result_base base)"

subsection \<open>Integer literals\<close>

text \<open>
  Python's \<^verbatim>\<open>int(s, base)\<close> for the bases 0, 10 and 16: blanks around, a sign, a base prefix, and
  single underscores between digits. \<open>None\<close> is \<^verbatim>\<open>ValueError\<close>.
\<close>

fun scan_digits :: "nat \<Rightarrow> bool \<Rightarrow> nat \<Rightarrow> string \<Rightarrow> nat option" where
  "scan_digits b after_digit acc [] = (if after_digit then Some acc else None)"
| "scan_digits b after_digit acc (c # cs) =
     (if c = CHR ''_'' then (if after_digit then scan_digits b False acc cs else None)
      else case char_digit c of None \<Rightarrow> None
        | Some d \<Rightarrow> if d < b then scan_digits b True (acc * b + d) cs else None)"

definition prefixed :: "nat \<Rightarrow> string \<Rightarrow> nat option" where
  "prefixed b s = (if s = [] then None else scan_digits b True 0 s)"

definition int_magnitude :: "nat \<Rightarrow> string \<Rightarrow> nat option" where
  "int_magnitude base s =
     (let p = take 2 s; r = drop 2 s in
      if base = 10 then scan_digits 10 False 0 s
      else if base = 16 then (if p \<in> {''0x'', ''0X''} then prefixed 16 r else scan_digits 16 False 0 s)
      else if p \<in> {''0x'', ''0X''} then prefixed 16 r
      else if p \<in> {''0o'', ''0O''} then prefixed 8 r
      else if p \<in> {''0b'', ''0B''} then prefixed 2 r
      else (case scan_digits 10 False 0 s of None \<Rightarrow> None
            | Some n \<Rightarrow> if starts_with s ''0'' \<and> n \<noteq> 0 then None else Some n))"

definition py_int :: "nat \<Rightarrow> string \<Rightarrow> int option" where
  "py_int base s = (case py_strip s of [] \<Rightarrow> None
     | c # cs \<Rightarrow>
         if c = CHR ''-'' then map_option (\<lambda>n. - int n) (int_magnitude base cs)
         else if c = CHR ''+'' then map_option int (int_magnitude base cs)
         else map_option int (int_magnitude base (c # cs)))"

subsection \<open>Constant folding helpers\<close>

type_synonym known_constant = "string \<times> int"

definition parse_immediate_constant :: "string \<Rightarrow> string \<Rightarrow> known_constant option" where
  "parse_immediate_constant token0 ptx_type =
     (let token = py_strip token0 in
      if ptx_type = ''f32'' then
        (if \<not> starts_with token ''0f'' then None
         else map_option (\<lambda>v. (''f32'', v AND 0xFFFFFFFF)) (py_int 16 (drop 2 token)))
      else if int32_type ptx_type then
        (if starts_with token ''0f'' then None
         else map_option (\<lambda>v. (ptx_type, v AND 0xFFFFFFFF)) (py_int 0 token))
      else None)"

definition constant_type_matches :: "string \<Rightarrow> string \<Rightarrow> bool" where
  "constant_type_matches known_type requested_type =
     (if requested_type = ''f32'' then known_type = ''f32''
      else if int32_type requested_type then int32_type known_type
      else known_type = requested_type)"

definition coerce_constant_value :: "int \<Rightarrow> string \<Rightarrow> int" where
  "coerce_constant_value v t = (if int32_type t \<or> t = ''f32'' then v AND 0xFFFFFFFF else v)"

definition resolve_constant :: "string \<Rightarrow> string \<Rightarrow> known_constant dict \<Rightarrow> known_constant option" where
  "resolve_constant operand0 ptx_type constants =
     (let operand = py_strip operand0 in
      if is_register_name operand then
        (case map_of constants operand of
           None \<Rightarrow> None
         | Some known \<Rightarrow>
             if \<not> constant_type_matches (fst known) ptx_type then None
             else Some (ptx_type, coerce_constant_value (snd known) ptx_type))
      else parse_immediate_constant operand ptx_type)"

text \<open>\<open>None\<close> is \<^verbatim>\<open>ValueError\<close>.\<close>

definition evaluate_u32 :: "string \<Rightarrow> int \<Rightarrow> int \<Rightarrow> int option" where
  "evaluate_u32 base lhs rhs =
     (if base = ''add'' then Some ((lhs + rhs) AND 0xFFFFFFFF)
      else if base = ''sub'' then Some ((lhs - rhs) AND 0xFFFFFFFF)
      else if base = ''mul'' then Some ((lhs * rhs) AND 0xFFFFFFFF)
      else None)"

definition evaluate_f32 :: "float_host \<Rightarrow> string \<Rightarrow> int \<Rightarrow> int \<Rightarrow> int option" where
  "evaluate_f32 h base lhs_bits rhs_bits =
     (let lhs = bits_to_f32 h lhs_bits; rhs = bits_to_f32 h rhs_bits;
          value = (if base = ''add'' then Some (float_add h lhs rhs)
                   else if base = ''mul'' then Some (float_mul h lhs rhs) else None)
      in case value of None \<Rightarrow> None | Some v \<Rightarrow> if \<not> is_finite v then None else f32_to_bits v)"

definition format_constant :: "known_constant \<Rightarrow> string" where
  "format_constant known = (case known of (t, v) \<Rightarrow>
     if t = ''f32'' then ''0f'' @ py_hex_pad 8 (v AND 0xFFFFFFFF) else py_str (v AND 0xFFFFFFFF))"

definition is_immediate :: "string \<Rightarrow> bool" where
  "is_immediate operand0 =
     (let operand = py_strip operand0 in
      if starts_with operand ''0f'' \<or> starts_with operand ''0x'' then True
      else if starts_with operand ''-'' then all_digits (tl operand)
      else all_digits operand)"

definition rebuild_program :: "PTXProgram \<Rightarrow> item list \<Rightarrow> PTXProgram" where
  "rebuild_program p kept = p\<lparr>items := kept\<rparr>"

end
