(* ===== verification/PTX_Sem.thy ===== *)
theory PTX_Sem
  imports Helpers Sim
begin

unbundle bit_operations_syntax

text \<open>
  A reference semantics of the PTX subset, for one thread, against which the source-level passes are
  proved. It is a specification and not a translation: each instruction means what the AEC
  instruction it is lowered to (\<^verbatim>\<open>legacy_lowering.py\<close>) does in the simulator (\<^verbatim>\<open>sim.py\<close>), on virtual
  registers instead of physical ones. A 64-bit register is its low word, by the 32-bit address
  rule of the lowering. Where the simulator raises, or the instruction is outside the subset, the
  machine is stuck (\<open>None\<close>).
\<close>

record pstate =
  vregs :: "string \<Rightarrow> int"
  vpreds :: "string \<Rightarrow> bool"
  vlane :: LaneState
  vmem :: sim_state

record ptx_env =
  env_host :: float_host
  env_params :: "int dict"

datatype peffect =
    Skip
  | SetReg string int sim_state
  | SetPred string bool
  | SetMem sim_state
  | Goto string
  | Exit

definition result_option :: "'e + 'a \<Rightarrow> 'a option" where
  "result_option r = (case r of Inl _ \<Rightarrow> None | Inr v \<Rightarrow> Some v)"

lemma result_option_simps [simp]: "result_option (Inl e) = None" "result_option (Inr v) = Some v"
  by (simp_all add: result_option_def)

subsection \<open>Operands\<close>

text \<open>\<^verbatim>\<open>_parse_immediate\<close> and \<^verbatim>\<open>_strip_brackets\<close> of the lowering.\<close>

definition parse_immediate :: "string \<Rightarrow> int option" where
  "parse_immediate token0 =
     (let token = py_strip token0 in
      if starts_with token ''0f'' then py_int 16 (drop 2 token)
      else if starts_with token ''0x'' then py_int 16 token
      else py_int 10 token)"

definition strip_brackets :: "string \<Rightarrow> string" where
  "strip_brackets token0 =
     (let token = py_strip token0 in
      if starts_with token ''['' \<and> ends_with token '']'' then py_strip (butlast (tl token)) else token)"

definition aec_type :: "string \<Rightarrow> string" where
  "aec_type t = (if t \<in> {''u64'', ''b64''} then ''b64'' else t)"

definition operand_value :: "pstate \<Rightarrow> string \<Rightarrow> int option" where
  "operand_value \<sigma> token =
     (let t = py_strip token in
      if is_register_name t then Some (vregs \<sigma> t)
      else map_option (\<lambda>v. v AND 0xFFFFFFFF) (parse_immediate t))"

definition address_value :: "pstate \<Rightarrow> string \<Rightarrow> int option" where
  "address_value \<sigma> token =
     (let t = strip_brackets token in
      if is_register_name t then Some (vregs \<sigma> t AND 0xFFFFFFFF) else None)"

definition operand_values :: "pstate \<Rightarrow> string list \<Rightarrow> int list option" where
  "operand_values \<sigma> ts = those (map (operand_value \<sigma>) ts)"

subsection \<open>Instructions\<close>

text \<open>The arithmetic of the simulator on source words.\<close>

definition alu_value :: "float_host \<Rightarrow> string \<Rightarrow> string \<Rightarrow> int list \<Rightarrow> int option" where
  "alu_value h base t vs = (case vs of
     [a, b] \<Rightarrow>
       (if base = ''add'' then result_option (binary_result h (aec_type t) OpAdd a b)
        else if base = ''sub'' then result_option (binary_result h (aec_type t) OpSub a b)
        else if base = ''mul'' then result_option (binary_result h (aec_type t) OpMul a b)
        else if base = ''and'' then Some ((a AND b) AND 0xFFFFFFFF)
        else if base = ''or'' then Some ((a OR b) AND 0xFFFFFFFF)
        else if base = ''xor'' then Some ((a XOR b) AND 0xFFFFFFFF)
        else if base = ''shl'' then Some (push_bit (nat (b AND 31)) a AND 0xFFFFFFFF)
        else if base = ''shr'' then Some (drop_bit (nat (b AND 31)) a AND 0xFFFFFFFF)
        else None)
   | [a, b, c] \<Rightarrow>
       (if base = ''mad'' then result_option (mad_result h (aec_type t) a b c)
        else if base = ''fma'' then result_option (fma_result h (aec_type t) a b c)
        else None)
   | _ \<Rightarrow> None)"

text \<open>Modifiers between the operation and its type that the lowering ignores.\<close>

definition plain_modifiers :: "string list \<Rightarrow> bool" where
  "plain_modifiers ms \<longleftrightarrow> ms = [] \<or> ms = [''lo''] \<or> ms = [''wide''] \<or> ms = [''rn'']"

definition register_dest :: "string \<Rightarrow> string option" where
  "register_dest token = (let t = py_strip token in if is_register_name t then Some t else None)"

definition mov_value :: "pstate \<Rightarrow> string \<Rightarrow> int option" where
  "mov_value \<sigma> token =
     (case map_of (special_registers TRACK_B_V1) (py_strip token) of
        Some sel \<Rightarrow> result_option (special_value sel (vlane \<sigma>))
      | None \<Rightarrow> operand_value \<sigma> token)"

text \<open>A load or store of one word in a memory space, with its access logged.\<close>

definition load_word :: "pstate \<Rightarrow> string \<Rightarrow> int \<Rightarrow> (int \<times> sim_state) option" where
  "load_word \<sigma> space addr =
     map_option (\<lambda>bs. (from_bytes_le bs, record_access ''LD'' space (vlane \<sigma>) addr 4 (vmem \<sigma>)))
       (result_option (sim_read (vmem \<sigma>) space addr 4))"

definition store_word :: "pstate \<Rightarrow> int \<Rightarrow> int \<Rightarrow> sim_state option" where
  "store_word \<sigma> addr v =
     map_option (record_access ''ST'' ''gmem'' (vlane \<sigma>) addr 4)
       (result_option (sim_write (vmem \<sigma>) ''gmem'' addr (to_bytes_le 4 (v AND 0xFFFFFFFF))))"

definition set_dest :: "string \<Rightarrow> sim_state \<Rightarrow> int option \<Rightarrow> peffect option" where
  "set_dest token s v =
     Option.bind (register_dest token) (\<lambda>d. map_option (\<lambda>x. SetReg d x s) v)"

definition set_dest_load :: "string \<Rightarrow> (int \<times> sim_state) option \<Rightarrow> peffect option" where
  "set_dest_load token r =
     Option.bind (register_dest token) (\<lambda>d. map_option (\<lambda>(x, s). SetReg d x s) r)"

text \<open>What an instruction does when its guard holds.\<close>

definition word_type :: "string \<Rightarrow> bool" where
  "word_type t \<longleftrightarrow> t \<in> {''u32'', ''b32'', ''s32'', ''f32''}"

definition inst_effect :: "ptx_env \<Rightarrow> PTXInstruction \<Rightarrow> pstate \<Rightarrow> peffect option" where
  "inst_effect E i \<sigma> =
     (let parts = opcode_parts (inst_opcode i); base = hd parts; t = last parts; ops = operands i in
      if base = ''bra'' then (case ops of [l] \<Rightarrow> Some (Goto l) | _ \<Rightarrow> None)
      else if base = ''ret'' then Some Exit
      else if base = ''mov'' then
        (case (parts, ops) of
           ([_, _], [d, a]) \<Rightarrow> set_dest d (vmem \<sigma>) (mov_value \<sigma> a)
         | _ \<Rightarrow> None)
      else if base = ''ld'' then
        (case (parts, ops) of
           ([_, sp, _], [d, a]) \<Rightarrow>
             (if sp = ''param'' \<and> (word_type t \<or> t \<in> {''u64'', ''b64''}) then
                set_dest_load d (Option.bind (map_of (env_params E) (strip_brackets a)) (load_word \<sigma> ''pmem''))
              else if sp = ''global'' \<and> word_type t then
                set_dest_load d (Option.bind (address_value \<sigma> a) (load_word \<sigma> ''gmem''))
              else None)
         | _ \<Rightarrow> None)
      else if base = ''st'' then
        (case (parts, ops) of
           ([_, sp, _], [a, v]) \<Rightarrow>
             (if sp = ''global'' \<and> word_type t \<and> is_register_name (py_strip v) then
                map_option SetMem (Option.bind (address_value \<sigma> a)
                  (\<lambda>addr. store_word \<sigma> addr (vregs \<sigma> (py_strip v))))
              else None)
         | _ \<Rightarrow> None)
      else if base = ''setp'' then
        (case (parts, ops) of
           ([_, cmp, _], [d, a, b]) \<Rightarrow>
             (case operand_values \<sigma> [a, b] of
                Some [x, y] \<Rightarrow>
                  map_option (SetPred (py_strip d)) (result_option (sim_compare (env_host E) (Some cmp) (aec_type t) x y))
              | _ \<Rightarrow> None)
         | _ \<Rightarrow> None)
      else if base \<in> {''add'', ''sub'', ''mul'', ''mad'', ''fma'', ''and'', ''or'', ''xor'', ''shl'', ''shr''} then
        (case ops of
           [] \<Rightarrow> None
         | d # srcs \<Rightarrow>
             if plain_modifiers (butlast (tl parts)) \<and> tl parts \<noteq> [] then
               set_dest d (vmem \<sigma>) (Option.bind (operand_values \<sigma> srcs) (alu_value (env_host E) base t))
             else None)
      else None)"

definition guard_holds :: "PTXInstruction \<Rightarrow> pstate \<Rightarrow> bool" where
  "guard_holds i \<sigma> = (case guard i of None \<Rightarrow> True
     | Some p \<Rightarrow> vpreds \<sigma> (guard_register p) \<noteq> guard_negated i)"

definition step_effect :: "ptx_env \<Rightarrow> PTXInstruction \<Rightarrow> pstate \<Rightarrow> peffect option" where
  "step_effect E i \<sigma> = (if guard_holds i \<sigma> then inst_effect E i \<sigma> else Some Skip)"

subsection \<open>Programs\<close>

text \<open>The items behind a label, the label included; \<open>[]\<close> where there is none.\<close>

fun after_label :: "string \<Rightarrow> item list \<Rightarrow> item list" where
  "after_label l [] = []"
| "after_label l (it # its) = (if it = Label l then it # its else after_label l its)"

definition set_reg_v :: "pstate \<Rightarrow> string \<Rightarrow> int \<Rightarrow> sim_state \<Rightarrow> pstate" where
  "set_reg_v \<sigma> d v s = \<sigma>\<lparr>vregs := (vregs \<sigma>)(d := v), vmem := s\<rparr>"

text \<open>
  Running from a suffix of the program. \<open>None\<close> is out of fuel, stuck, or running off the end.
\<close>

fun ptx_run :: "ptx_env \<Rightarrow> item list \<Rightarrow> nat \<Rightarrow> item list \<Rightarrow> pstate \<Rightarrow> pstate option" where
  "ptx_run E P 0 its \<sigma> = None"
| "ptx_run E P (Suc n) its \<sigma> = (case its of
     [] \<Rightarrow> None
   | Label _ # rest \<Rightarrow> ptx_run E P n rest \<sigma>
   | Inst i # rest \<Rightarrow>
       (case step_effect E i \<sigma> of
          None \<Rightarrow> None
        | Some Skip \<Rightarrow> ptx_run E P n rest \<sigma>
        | Some (SetReg d v s) \<Rightarrow> ptx_run E P n rest (set_reg_v \<sigma> d v s)
        | Some (SetPred p b) \<Rightarrow> ptx_run E P n rest (\<sigma>\<lparr>vpreds := (vpreds \<sigma>)(p := b)\<rparr>)
        | Some (SetMem s) \<Rightarrow> ptx_run E P n rest (\<sigma>\<lparr>vmem := s\<rparr>)
        | Some (Goto l) \<Rightarrow> ptx_run E P n (after_label l P) \<sigma>
        | Some Exit \<Rightarrow> Some \<sigma>))"

definition run_program :: "ptx_env \<Rightarrow> PTXProgram \<Rightarrow> nat \<Rightarrow> pstate \<Rightarrow> pstate option" where
  "run_program E p n \<sigma> = ptx_run E (items p) n (items p) \<sigma>"

end
