(* ===== verification/PTX_Reads.thy ===== *)
theory PTX_Reads
  imports PTX_Sem
begin

text \<open>
  The register references of an instruction are what its meaning depends on: an instruction has the
  same effect in two states that agree on the registers \<open>instruction_read_registers\<close> names. The
  first half is about strings: a stripped register token is one of the references that the scan of
  the whole operand finds.
\<close>

subsection \<open>Stripping\<close>

lemma rstrip_decomp: "\<exists>suf. s = py_rstrip s @ suf \<and> (\<forall>c \<in> set suf. is_space c)"
proof -
  have "rev s = takeWhile is_space (rev s) @ dropWhile is_space (rev s)" by simp
  then have "s = rev (dropWhile is_space (rev s)) @ rev (takeWhile is_space (rev s))"
    by (metis rev_append rev_rev_ident)
  moreover have "\<forall>c \<in> set (rev (takeWhile is_space (rev s))). is_space c"
    by (auto dest: set_takeWhileD)
  ultimately show ?thesis unfolding py_rstrip_def by blast
qed

lemma strip_decomp:
  "\<exists>pre suf. s = pre @ py_strip s @ suf \<and> (\<forall>c \<in> set pre. is_space c) \<and> (\<forall>c \<in> set suf. is_space c)"
proof -
  obtain suf where "py_lstrip s = py_strip s @ suf" "\<forall>c \<in> set suf. is_space c"
    using rstrip_decomp [of "py_lstrip s"] by (auto simp: py_strip_def)
  moreover have "s = takeWhile is_space s @ py_lstrip s" by (simp add: py_lstrip_def)
  moreover have "\<forall>c \<in> set (takeWhile is_space s). is_space c" by (auto dest: set_takeWhileD)
  ultimately show ?thesis by metis
qed

lemma lstrip_id: "s = [] \<or> \<not> is_space (hd s) \<Longrightarrow> py_lstrip s = s"
  by (cases s) (auto simp: py_lstrip_def)

lemma rstrip_id: "s = [] \<or> \<not> is_space (last s) \<Longrightarrow> py_rstrip s = s"
  by (cases s rule: rev_cases) (auto simp: py_rstrip_def)

lemma strip_last: "py_strip s = [] \<or> \<not> is_space (last (py_strip s))"
proof (cases "dropWhile is_space (rev (py_lstrip s))")
  case (Cons c cs)
  then have "\<not> is_space c" by (metis hd_dropWhile list.distinct(1) list.sel(1))
  with Cons show ?thesis by (simp add: py_strip_def py_rstrip_def)
qed (simp add: py_strip_def py_rstrip_def)

lemma strip_hd: "py_strip s = [] \<or> \<not> is_space (hd (py_strip s))"
proof (cases "py_strip s")
  case (Cons c cs)
  obtain suf where "py_lstrip s = py_strip s @ suf"
    using rstrip_decomp [of "py_lstrip s"] by (auto simp: py_strip_def)
  then have "dropWhile is_space s = c # cs @ suf" by (simp add: Cons py_lstrip_def)
  then have "\<not> is_space c" by (metis hd_dropWhile list.distinct(1) list.sel(1))
  then show ?thesis by (simp add: Cons)
qed simp

lemma strip_strip [simp]: "py_strip (py_strip s) = py_strip s"
  using strip_hd [of s] strip_last [of s]
  by (simp add: py_strip_def [of "py_strip s"] lstrip_id rstrip_id)

subsection \<open>Register references\<close>

definition ends_name :: "string \<Rightarrow> bool" where
  "ends_name suf \<longleftrightarrow> suf = [] \<or> (\<not> is_digit (hd suf) \<and> \<not> is_alpha (hd suf))"

lemma ends_name_space: "\<forall>c \<in> set suf. is_space c \<Longrightarrow> ends_name suf"
  by (cases suf) (auto simp: ends_name_def is_space_def is_digit_def is_alpha_def Let_def)

lemma ends_name_bracket [simp]: "ends_name (CHR '']'' # s)"
  by (simp add: ends_name_def is_digit_def is_alpha_def)

lemma reg_class_alpha: "q \<in> set reg_classes \<Longrightarrow> list_all is_alpha q \<and> q \<noteq> []"
  by (auto simp: reg_classes_def is_alpha_def)

lemma starts_with_append:
  assumes "q \<in> set reg_classes" and "ends_name suf"
  shows "starts_with (cs @ suf) q = starts_with cs q"
proof
  assume "starts_with (cs @ suf) q"
  then obtain t where t: "cs @ suf = q @ t" by (auto simp: starts_with_iff)
  then obtain r where "(cs = q @ r \<and> r @ suf = t) \<or> (cs @ r = q \<and> suf = r @ t)"
    by (auto simp: append_eq_append_conv2)
  moreover have False if "cs @ r = q" "suf = r @ t" "r \<noteq> []"
  proof -
    have "hd suf \<in> set q" using that by (cases r) auto
    then have "is_alpha (hd suf)" using reg_class_alpha [OF assms(1)] by (auto simp: list_all_iff)
    then show False using assms(2) that by (auto simp: ends_name_def)
  qed
  ultimately show "starts_with cs q" by (cases "r = []") (auto simp: starts_with_iff)
qed (auto simp: starts_with_iff)

lemma reg_name_at_append:
  assumes "reg_name_at cs = Some (m, [])" and "ends_name suf"
  shows "reg_name_at (cs @ suf) = Some (cs, suf)"
proof -
  obtain p ps where p: "filter (starts_with cs) reg_classes = p # ps"
    and d: "dropWhile is_digit (drop (length p) cs) = []"
    using assms(1) by (auto simp: reg_name_at_def Let_def split: list.splits)
  have f: "filter (starts_with (cs @ suf)) reg_classes = p # ps"
    using starts_with_append assms(2) by (subst p [symmetric]) (rule filter_cong, auto)
  have "p \<in> set (filter (starts_with cs) reg_classes)" by (simp add: p)
  then obtain ds where cs: "cs = p @ ds" by (auto simp: starts_with_iff)
  then have "\<forall>c \<in> set ds. is_digit c" using d by (simp add: dropWhile_eq_Nil_conv)
  then have "takeWhile is_digit (ds @ suf) = ds" "dropWhile is_digit (ds @ suf) = suf"
    using assms(2) by (auto simp: ends_name_def takeWhile_eq_Nil_iff dropWhile_append2 split: list.splits)
      (cases suf; simp)+
  then show ?thesis using f by (simp add: reg_name_at_def cs)
qed

lemma register_references_mem:
  assumes "CHR ''%'' \<notin> set pre" and "is_register_name w" and "ends_name suf"
  shows "w \<in> set (register_references (pre @ w @ suf))"
  using assms(1)
proof (induction pre)
  case Nil
  obtain cs m where w: "w = CHR ''%'' # cs" "reg_name_at cs = Some (m, [])"
    using assms(2) by (auto simp: is_register_name_def split: list.splits option.splits)
  then show ?case using reg_name_at_append [OF w(2) assms(3)] by simp
next
  case (Cons c pre)
  then show ?case by auto
qed

lemma ends_with_iff: "ends_with s p \<longleftrightarrow> (\<exists>t. s = t @ p)"
proof
  assume "ends_with s p"
  then obtain t where "rev s = rev p @ t" by (auto simp: ends_with_def starts_with_iff)
  then have "s = rev t @ p" by (metis rev_append rev_rev_ident)
  then show "\<exists>t. s = t @ p" ..
qed (auto simp: ends_with_def starts_with_iff)

lemma space_no_percent: "\<forall>c \<in> set s. is_space c \<Longrightarrow> CHR ''%'' \<notin> set s"
  by (auto simp: is_space_def)

lemma strip_in_references:
  assumes "is_register_name (py_strip tok)"
  shows "py_strip tok \<in> set (register_references tok)"
proof -
  obtain pre suf where "tok = pre @ py_strip tok @ suf" "\<forall>c \<in> set pre. is_space c" "\<forall>c \<in> set suf. is_space c"
    using strip_decomp by blast
  then show ?thesis
    using register_references_mem [OF space_no_percent assms ends_name_space] by metis
qed

lemma brackets_in_references:
  assumes "is_register_name (strip_brackets tok)"
  shows "strip_brackets tok \<in> set (register_references tok)"
proof (cases "starts_with (py_strip tok) ''['' \<and> ends_with (py_strip tok) '']''")
  case True
  let ?t = "py_strip tok"
  have sb: "strip_brackets tok = py_strip (butlast (tl ?t))" using True by (simp add: strip_brackets_def)
  obtain u where u: "?t = CHR ''['' # u" using True by (auto simp: starts_with_iff)
  have "u \<noteq> []"
  proof
    assume "u = []"
    then show False using True u by (simp add: ends_with_def)
  qed
  moreover have "last ?t = CHR '']''"
    using True by (metis ends_with_iff last_snoc)
  ultimately have ub: "u = butlast u @ [CHR '']'']" using u by (metis append_butlast_last_id last_ConsR)
  obtain p q where pq: "tok = p @ ?t @ q" "\<forall>c \<in> set p. is_space c" using strip_decomp by blast
  obtain p' q' where pq': "butlast u = p' @ py_strip (butlast u) @ q'" "\<forall>c \<in> set p'. is_space c"
    "\<forall>c \<in> set q'. is_space c" using strip_decomp by blast
  have e: "tok = (p @ CHR ''['' # p') @ strip_brackets tok @ (q' @ CHR '']'' # q)"
    using pq(1) u ub pq'(1) sb by (metis append.assoc append_Cons append_Nil list.sel(3))
  have "ends_name (q' @ CHR '']'' # q)"
    using ends_name_space [OF pq'(3)] by (cases q') (auto simp: ends_name_def is_digit_def is_alpha_def)
  moreover have "CHR ''%'' \<notin> set (p @ CHR ''['' # p')"
    using space_no_percent [OF pq(2)] space_no_percent [OF pq'(2)] by simp
  ultimately show ?thesis using register_references_mem [OF _ assms] e by metis
next
  case False
  then have "strip_brackets tok = py_strip tok" by (auto simp: strip_brackets_def Let_def)
  then show ?thesis using assms strip_in_references by simp
qed

subsection \<open>Agreement\<close>

text \<open>Two thread states that agree on a set of registers and on everything else.\<close>

definition agree :: "string set \<Rightarrow> pstate \<Rightarrow> pstate \<Rightarrow> bool" where
  "agree L \<sigma> \<tau> \<longleftrightarrow> (\<forall>r \<in> L. vregs \<sigma> r = vregs \<tau> r) \<and> vpreds \<sigma> = vpreds \<tau> \<and> vlane \<sigma> = vlane \<tau> \<and>
     vmem \<sigma> = vmem \<tau>"

lemma agree_refl [simp, intro]: "agree L \<sigma> \<sigma>"
  by (simp add: agree_def)

lemma agree_mono: "agree L \<sigma> \<tau> \<Longrightarrow> M \<subseteq> L \<Longrightarrow> agree M \<sigma> \<tau>"
  by (auto simp: agree_def)

lemma operand_value_cong:
  "agree (set (register_references t)) \<sigma> \<tau> \<Longrightarrow> operand_value \<sigma> t = operand_value \<tau> t"
  using strip_in_references [of t] by (auto simp: operand_value_def agree_def Let_def)

lemma address_value_cong:
  "agree (set (register_references t)) \<sigma> \<tau> \<Longrightarrow> address_value \<sigma> t = address_value \<tau> t"
  using brackets_in_references [of t] by (auto simp: address_value_def agree_def Let_def)

lemma mov_value_cong:
  "agree (set (register_references t)) \<sigma> \<tau> \<Longrightarrow> mov_value \<sigma> t = mov_value \<tau> t"
  using operand_value_cong [of t \<sigma> \<tau>] by (auto simp: mov_value_def agree_def split: option.splits)

definition agree_on_tokens :: "string list \<Rightarrow> pstate \<Rightarrow> pstate \<Rightarrow> bool" where
  "agree_on_tokens ts \<sigma> \<tau> \<longleftrightarrow> (\<forall>t \<in> set ts. agree (set (register_references t)) \<sigma> \<tau>)"

lemma operand_values_cong:
  "agree_on_tokens ts \<sigma> \<tau> \<Longrightarrow> operand_values \<sigma> ts = operand_values \<tau> ts"
  unfolding operand_values_def agree_on_tokens_def
  by (rule arg_cong [of _ _ those], rule map_cong) (auto intro: operand_value_cong)

lemma opcode_base_hd [simp]: "hd (opcode_parts op) = opcode_base op"
  by (simp add: opcode_parts_def opcode_base_def hd_split_on)

lemma opcode_parts_nonempty [simp]: "opcode_parts op \<noteq> []"
  by (simp add: opcode_parts_def)

lemma agree_reads_tokens:
  "agree (set (instruction_read_registers i)) \<sigma> \<tau> \<Longrightarrow> agree_on_tokens (source_operands i) \<sigma> \<tau>"
  by (auto simp: agree_on_tokens_def agree_def instruction_read_registers_def)

lemma agree_parts: "agree L \<sigma> \<tau> \<Longrightarrow> vpreds \<sigma> = vpreds \<tau> \<and> vlane \<sigma> = vlane \<tau> \<and> vmem \<sigma> = vmem \<tau>"
  by (simp add: agree_def)

lemma memory_cong:
  assumes "vlane \<sigma> = vlane \<tau>" "vmem \<sigma> = vmem \<tau>"
  shows "load_word \<sigma> = load_word \<tau>" and "store_word \<sigma> = store_word \<tau>"
  using assms by (simp_all add: fun_eq_iff load_word_def store_word_def)

lemma source_operands_mono: "set (drop 1 (operands i)) \<subseteq> set (source_operands i)"
  by (auto simp: source_operands_def dest: in_set_dropD)

lemma agree_on_tail: "agree_on_tokens (source_operands i) \<sigma> \<tau> \<Longrightarrow> agree_on_tokens (drop 1 (operands i)) \<sigma> \<tau>"
  using source_operands_mono by (auto simp: agree_on_tokens_def)

lemma inst_effect_cong:
  assumes "agree (set (instruction_read_registers i)) \<sigma> \<tau>"
  shows "inst_effect E i \<sigma> = inst_effect E i \<tau>"
proof -
  note m = memory_cong [of \<sigma> \<tau>] agree_parts [OF assms]
  note tail = agree_on_tail [OF agree_reads_tokens [OF assms]]
  let ?b = "opcode_base (inst_opcode i)"
  have st: "agree_on_tokens (operands i) \<sigma> \<tau>" if "?b = ''st''"
  proof -
    have "\<not> destination_base ''st''" by code_simp
    then show ?thesis using agree_reads_tokens [OF assms] that by (simp add: source_operands_def)
  qed
  have vals: "operand_values \<sigma> us = operand_values \<tau> us" if "operands i = d # us" for d us
    using operand_values_cong tail that by simp
  have movs: "mov_value \<sigma> a = mov_value \<tau> a" "address_value \<sigma> a = address_value \<tau> a"
    if "operands i = [d, a]" for d a
    using mov_value_cong address_value_cong tail that by (simp_all add: agree_on_tokens_def)
  have sts: "address_value \<sigma> a = address_value \<tau> a"
    "is_register_name (py_strip v) \<Longrightarrow> vregs \<sigma> (py_strip v) = vregs \<tau> (py_strip v)"
    if "operands i = [a, v]" "?b = ''st''" for a v
    using address_value_cong strip_in_references [of v] st that
    by (auto simp: agree_on_tokens_def agree_def)
  show ?thesis
    using m unfolding inst_effect_def Let_def opcode_base_hd
    by (auto simp: vals movs sts split: list.splits option.splits)
qed

lemma step_effect_cong:
  assumes "agree (set (instruction_read_registers i)) \<sigma> \<tau>"
  shows "step_effect E i \<sigma> = step_effect E i \<tau>"
proof -
  have "guard_holds i \<sigma> = guard_holds i \<tau>"
    using agree_parts [OF assms] by (simp add: guard_holds_def split: option.splits)
  then show ?thesis using inst_effect_cong [OF assms] by (simp add: step_effect_def)
qed

subsection \<open>Pure instructions\<close>

lemma set_dest_Some:
  "set_dest tok s v = Some e \<Longrightarrow>
   \<exists>x. v = Some x \<and> e = SetReg (py_strip tok) x s \<and> is_register_name (py_strip tok)"
  by (auto simp: set_dest_def register_dest_def Let_def bind_eq_Some_conv split: if_splits)

lemma pure_bases:
  "pure_result_base b \<Longrightarrow> b \<in> {''add'', ''and'', ''cvt'', ''mad'', ''mov'', ''mul'', ''or'', ''shl'', ''shr'', ''sub'', ''xor''}"
  by (auto simp: pure_result_base_def PURE_RESULT_OPERAND_COUNTS_def split: if_splits)

text \<open>An unguarded instruction of a pure base only writes its first operand.\<close>

lemma pure_effect:
  assumes "step_effect E i \<sigma> = Some e" and "guard i = None"
    and "pure_result_base (opcode_base (inst_opcode i))"
  shows "\<exists>d ops v. operands i = d # ops \<and> is_register_name (py_strip d) \<and>
           e = SetReg (py_strip d) v (vmem \<sigma>)"
proof -
  have e: "inst_effect E i \<sigma> = Some e" using assms(1,2) by (simp add: step_effect_def guard_holds_def)
  show ?thesis
    using e pure_bases [OF assms(3)] unfolding inst_effect_def Let_def opcode_base_hd
    by (auto split: list.splits if_splits dest!: set_dest_Some)
qed

end
