(* ===== verification/PTX_Sim.thy ===== *)
theory PTX_Sim
  imports PTX_Reads
begin

text \<open>
  Correctness of a source-level pass as a forward simulation. A pass is seen as a list of annotated
  items and a translation of each of them to at most one item; the annotation is what the pass knew
  at that point. The locale \<open>pass_sim\<close> asks, item by item, that one step of the original is matched
  by at most one step of the result, and concludes that every complete run of the original is
  matched by a run of the result with the same fuel. The locale \<open>dead_code\<close> is the special case of
  a pass that only removes instructions.
\<close>

subsection \<open>Steps\<close>

definition is_flow :: "peffect \<Rightarrow> bool" where
  "is_flow e \<longleftrightarrow> (case e of Exit \<Rightarrow> True | Goto _ \<Rightarrow> True | _ \<Rightarrow> False)"

fun next_state :: "peffect \<Rightarrow> pstate \<Rightarrow> pstate" where
  "next_state (SetReg d v s) \<sigma> = set_reg_v \<sigma> d v s"
| "next_state (SetPred p b) \<sigma> = \<sigma>\<lparr>vpreds := (vpreds \<sigma>)(p := b)\<rparr>"
| "next_state (SetMem s) \<sigma> = \<sigma>\<lparr>vmem := s\<rparr>"
| "next_state _ \<sigma> = \<sigma>"

lemma ptx_run_Nil [simp]: "ptx_run E P n [] \<sigma> = None"
  by (cases n) simp_all

lemma ptx_run_Label [simp]: "ptx_run E P (Suc n) (Label l # its) \<sigma> = ptx_run E P n its \<sigma>"
  by simp

lemma ptx_run_Inst:
  "ptx_run E P (Suc n) (Inst i # its) \<sigma> = (case step_effect E i \<sigma> of
     None \<Rightarrow> None
   | Some e \<Rightarrow> if is_flow e then (case e of Goto l \<Rightarrow> ptx_run E P n (after_label l P) \<sigma> | _ \<Rightarrow> Some \<sigma>)
               else ptx_run E P n its (next_state e \<sigma>))"
  by (simp add: is_flow_def split: option.split peffect.split)

declare ptx_run.simps(2) [simp del]

lemma ptx_run_more:
  "ptx_run E P n its \<sigma> = Some \<tau> \<Longrightarrow> n \<le> m \<Longrightarrow> ptx_run E P m its \<sigma> = Some \<tau>"
proof (induction n arbitrary: its \<sigma> m)
  case (Suc n)
  then obtain m' where m: "m = Suc m'" "n \<le> m'" by (cases m) auto
  show ?case
  proof (cases its)
    case (Cons it its')
    then show ?thesis using Suc m
      by (cases it) (auto simp: ptx_run_Inst split: option.splits if_splits peffect.splits)
  qed (use Suc in simp)
qed simp

subsection \<open>The simulation\<close>

definition from_label :: "string \<Rightarrow> ('a \<times> item) list \<Rightarrow> ('a \<times> item) list" where
  "from_label l xs = dropWhile (\<lambda>(a, it). it \<noteq> Label l) xs"

lemma from_label_suffix: "\<exists>pre. xs = pre @ from_label l xs"
  unfolding from_label_def by (metis takeWhile_dropWhile_id)

lemma after_label_map: "after_label l (map snd xs) = map snd (from_label l xs)"
  by (induction xs) (auto simp: from_label_def)

lemma from_label_Cons: "from_label l xs = y # ys \<Longrightarrow> snd y = Label l \<and> y \<in> set xs"
  unfolding from_label_def
  by (metis (mono_tags, lifting) case_prod_unfold dropWhile_eq_Cons_conv in_set_conv_decomp)

definition at_head :: "('a \<Rightarrow> pstate \<Rightarrow> pstate \<Rightarrow> bool) \<Rightarrow> ('a \<times> item) list \<Rightarrow> pstate \<Rightarrow> pstate \<Rightarrow> bool" where
  "at_head R ys \<sigma> \<tau> \<longleftrightarrow> (case ys of [] \<Rightarrow> True | (a, _) # _ \<Rightarrow> R a \<sigma> \<tau>)"

locale pass_sim =
  fixes E :: ptx_env
    and xs :: "('a \<times> item) list"
    and tr :: "'a \<times> item \<Rightarrow> item list"
    and R :: "'a \<Rightarrow> pstate \<Rightarrow> pstate \<Rightarrow> bool"
    and final :: "pstate \<Rightarrow> pstate \<Rightarrow> bool"
  assumes label_kept: "(a, Label l) \<in> set xs \<Longrightarrow> tr (a, Label l) = [Label l]"
    and inst_shape: "(a, Inst i) \<in> set xs \<Longrightarrow> tr (a, Inst i) = [] \<or> (\<exists>j. tr (a, Inst i) = [Inst j])"
    and label_step: "xs = pre @ (a, Label l) # ys \<Longrightarrow> R a \<sigma> \<tau> \<Longrightarrow> at_head R ys \<sigma> \<tau>"
    and removed_step: "xs = pre @ (a, Inst i) # ys \<Longrightarrow> R a \<sigma> \<tau> \<Longrightarrow> tr (a, Inst i) = [] \<Longrightarrow>
      step_effect E i \<sigma> = Some e \<Longrightarrow> \<not> is_flow e \<and> at_head R ys (next_state e \<sigma>) \<tau>"
    and kept_step: "xs = pre @ (a, Inst i) # ys \<Longrightarrow> R a \<sigma> \<tau> \<Longrightarrow> tr (a, Inst i) = [Inst j] \<Longrightarrow>
      step_effect E i \<sigma> = Some e \<Longrightarrow> \<not> is_flow e \<Longrightarrow>
      \<exists>e'. step_effect E j \<tau> = Some e' \<and> \<not> is_flow e' \<and> at_head R ys (next_state e \<sigma>) (next_state e' \<tau>)"
    and flow_step: "(a, Inst i) \<in> set xs \<Longrightarrow> R a \<sigma> \<tau> \<Longrightarrow> step_effect E i \<sigma> = Some e \<Longrightarrow> is_flow e \<Longrightarrow>
      \<exists>j. tr (a, Inst i) = [Inst j] \<and> step_effect E j \<tau> = Some e"
    and jump: "(a, Inst i) \<in> set xs \<Longrightarrow> R a \<sigma> \<tau> \<Longrightarrow> step_effect E i \<sigma> = Some (Goto l) \<Longrightarrow>
      (b, Label l) \<in> set xs \<Longrightarrow> R b \<sigma> \<tau>"
    and exit: "(a, Inst i) \<in> set xs \<Longrightarrow> R a \<sigma> \<tau> \<Longrightarrow> step_effect E i \<sigma> = Some Exit \<Longrightarrow> final \<sigma> \<tau>"
begin

abbreviation original :: "item list" where "original \<equiv> map snd xs"
abbreviation result :: "item list" where "result \<equiv> concat (map tr xs)"

lemma after_label_result: "after_label l result = concat (map tr (from_label l xs))"
proof -
  have "after_label l (concat (map tr ys)) = concat (map tr (from_label l ys))"
    if "set ys \<subseteq> set xs" for ys
    using that
  proof (induction ys)
    case (Cons y ys)
    obtain a it where y: "y = (a, it)" by (cases y)
    show ?case
    proof (cases it)
      case (Label l')
      then show ?thesis using Cons label_kept [of a l'] y by (auto simp: from_label_def)
    next
      case (Inst i)
      then show ?thesis using Cons inst_shape [of a i] y by (auto simp: from_label_def)
    qed
  qed (simp add: from_label_def)
  then show ?thesis by simp
qed

lemma simulation:
  "xs = pre @ ys \<Longrightarrow> at_head R ys \<sigma> \<tau> \<Longrightarrow> ptx_run E original n (map snd ys) \<sigma> = Some \<sigma>' \<Longrightarrow>
   \<exists>\<tau>'. ptx_run E result n (concat (map tr ys)) \<tau> = Some \<tau>' \<and> final \<sigma>' \<tau>'"
proof (induction n arbitrary: pre ys \<sigma> \<tau>)
  case (Suc n)
  then obtain a it ys' where ys: "ys = (a, it) # ys'"
    using Suc.prems(3) by (cases ys) auto
  then have split: "xs = (pre @ [(a, it)]) @ ys'" and mem: "(a, it) \<in> set xs" and Ra: "R a \<sigma> \<tau>"
    using Suc.prems(1,2) by (auto simp: at_head_def)
  show ?case
  proof (cases it)
    case (Label l)
    then have "tr (a, it) = [Label l]" using label_kept mem by simp
    moreover have "at_head R ys' \<sigma> \<tau>" using label_step [OF _ Ra] Suc.prems(1) ys Label by simp
    ultimately show ?thesis using Suc.IH [OF split] Suc.prems(3) ys Label by simp
  next
    case (Inst i)
    have at: "xs = pre @ (a, Inst i) # ys'" using Suc.prems(1) ys Inst by simp
    then have mem: "(a, Inst i) \<in> set xs" by simp
    obtain e where e: "step_effect E i \<sigma> = Some e"
      using Suc.prems(3) ys Inst by (auto simp: ptx_run_Inst split: option.splits)
    consider (flow) "is_flow e" | (gone) "\<not> is_flow e" "tr (a, Inst i) = []"
      | (kept) j where "\<not> is_flow e" "tr (a, Inst i) = [Inst j]"
      using inst_shape [OF mem] by blast
    then show ?thesis
    proof cases
      case gone
      then have "at_head R ys' (next_state e \<sigma>) \<tau>" using removed_step [OF at Ra _ e] by simp
      then obtain \<tau>' where "ptx_run E result n (concat (map tr ys')) \<tau> = Some \<tau>'" "final \<sigma>' \<tau>'"
        using Suc.IH [OF split] Suc.prems(3) ys Inst e gone by (auto simp: ptx_run_Inst)
      then show ?thesis using ys Inst gone ptx_run_more [of E result n _ \<tau> \<tau>' "Suc n"] by auto
    next
      case kept
      then obtain e' where "step_effect E j \<tau> = Some e'" "\<not> is_flow e'"
        "at_head R ys' (next_state e \<sigma>) (next_state e' \<tau>)"
        using kept_step [OF at Ra kept(2) e kept(1)] by blast
      then show ?thesis
        using Suc.IH [OF split] Suc.prems(3) ys Inst e kept by (auto simp: ptx_run_Inst)
    next
      case flow
      obtain j where j: "tr (a, Inst i) = [Inst j]" "step_effect E j \<tau> = Some e"
        using flow_step [OF mem Ra e flow] by blast
      show ?thesis
      proof (cases e)
        case (Goto l)
        obtain pre' where pre': "xs = pre' @ from_label l xs" using from_label_suffix by blast
        have "at_head R (from_label l xs) \<sigma> \<tau>"
        proof (cases "from_label l xs")
          case (Cons y zs)
          then obtain b where "y = (b, Label l)" "(b, Label l) \<in> set xs"
            using from_label_Cons [OF Cons] by (cases y) auto
          then show ?thesis using jump [OF mem Ra] e Goto Cons by (simp add: at_head_def)
        qed (simp add: at_head_def)
        moreover have "ptx_run E original n (map snd (from_label l xs)) \<sigma> = Some \<sigma>'"
          using Suc.prems(3) ys Inst e flow Goto by (simp add: ptx_run_Inst after_label_map)
        ultimately obtain \<tau>' where "ptx_run E result n (concat (map tr (from_label l xs))) \<tau> = Some \<tau>'"
          "final \<sigma>' \<tau>'" using Suc.IH [OF pre'] by blast
        then show ?thesis using j ys Inst flow Goto by (auto simp: ptx_run_Inst after_label_result)
      next
        case Exit
        then show ?thesis
          using j ys Inst flow e Suc.prems(3) exit [OF mem Ra] by (auto simp: ptx_run_Inst)
      qed (use flow in \<open>auto simp: is_flow_def\<close>)
    qed
  qed
qed simp

lemma run_preserved:
  assumes "at_head R xs \<sigma> \<tau>" and "ptx_run E original n original \<sigma> = Some \<sigma>'"
  shows "\<exists>\<tau>'. ptx_run E result n result \<tau> = Some \<tau>' \<and> final \<sigma>' \<tau>'"
  using simulation [of "[]" xs \<sigma> \<tau> n \<sigma>'] assms by simp

end

subsection \<open>Removing dead instructions\<close>

lemma agree_write:
  assumes "agree L \<sigma> \<tau>" and "d \<notin> L"
  shows "agree L (set_reg_v \<sigma> d v (vmem \<sigma>)) \<tau>"
  using assms by (auto simp: agree_def set_reg_v_def)

lemma agree_next: "agree L \<sigma> \<tau> \<Longrightarrow> agree L (next_state e \<sigma>) (next_state e \<tau>)"
  by (cases e) (auto simp: agree_def set_reg_v_def)

locale dead_code =
  fixes E :: ptx_env
    and xs :: "('a \<times> item) list"
    and keep :: "'a \<times> item \<Rightarrow> bool"
    and L :: "string set"
  assumes keep_labels: "(a, Label l) \<in> set xs \<Longrightarrow> keep (a, Label l)"
    and kept_reads: "(a, Inst i) \<in> set xs \<Longrightarrow> keep (a, Inst i) \<Longrightarrow> set (instruction_read_registers i) \<subseteq> L"
    and removed_pure: "(a, Inst i) \<in> set xs \<Longrightarrow> \<not> keep (a, Inst i) \<Longrightarrow>
      guard i = None \<and> pure_result_base (opcode_base (inst_opcode i))"
    and removed_dead: "(a, Inst i) \<in> set xs \<Longrightarrow> \<not> keep (a, Inst i) \<Longrightarrow> operands i = d # ops \<Longrightarrow>
      is_register_name (py_strip d) \<Longrightarrow> py_strip d \<notin> L"
begin

lemma removed_effect:
  assumes "(a, Inst i) \<in> set xs" "\<not> keep (a, Inst i)" "step_effect E i \<sigma> = Some e" "agree L \<sigma> \<tau>"
  shows "\<not> is_flow e \<and> agree L (next_state e \<sigma>) \<tau>"
proof -
  obtain d ops v where "operands i = d # ops" "is_register_name (py_strip d)"
    "e = SetReg (py_strip d) v (vmem \<sigma>)"
    using pure_effect [OF assms(3)] removed_pure [OF assms(1,2)] by metis
  with removed_dead [OF assms(1,2)] agree_write [OF assms(4)] show ?thesis by (simp add: is_flow_def)
qed

lemma kept_effect:
  assumes "(a, Inst i) \<in> set xs" "keep (a, Inst i)" "agree L \<sigma> \<tau>"
  shows "step_effect E i \<tau> = step_effect E i \<sigma>"
  using step_effect_cong [OF agree_mono [OF assms(3) kept_reads [OF assms(1,2)]]] by simp

lemma flow_kept:
  assumes "(a, Inst i) \<in> set xs" "step_effect E i \<sigma> = Some e" "is_flow e" "agree L \<sigma> \<tau>"
  shows "keep (a, Inst i)"
  using removed_effect [OF assms(1) _ assms(2,4)] assms(3) by blast

sublocale sim: pass_sim E xs "\<lambda>x. if keep x then [snd x] else []" "\<lambda>_. agree L" "agree L"
proof (unfold_locales, goal_cases)
  case (2 a i)
  then show ?case by simp
next
  case (4 pre a i ys \<sigma> \<tau> e)
  then have "(a, Inst i) \<in> set xs" "\<not> keep (a, Inst i)" by (simp_all split: if_splits)
  then show ?case using removed_effect 4(2,4) by (auto simp: at_head_def split: list.split)
next
  case (5 pre a i ys \<sigma> \<tau> j e)
  then have "keep (a, Inst i)" "i = j" by (simp_all split: if_splits)
  moreover have "(a, Inst i) \<in> set xs" using 5(1) by simp
  ultimately have "step_effect E j \<tau> = Some e" using kept_effect [of a j \<sigma> \<tau>] 5 by simp
  then show ?case using 5(5) agree_next [OF 5(2)]
    by (intro exI [of _ e]) (simp add: at_head_def split: list.split)
next
  case (6 a i \<sigma> \<tau> e)
  then show ?case using flow_kept kept_effect by simp
qed (auto simp: keep_labels at_head_def split: list.split)

lemma remaining: "concat (map (\<lambda>x. if keep x then [snd x] else []) xs) = map snd (filter keep xs)"
  by (induction xs) auto

lemma dead_code_removed:
  assumes "ptx_run E (map snd xs) n (map snd xs) \<sigma> = Some \<sigma>'"
  shows "\<exists>\<tau>'. ptx_run E (map snd (filter keep xs)) n (map snd (filter keep xs)) \<sigma> = Some \<tau>' \<and>
           agree L \<sigma>' \<tau>'"
  using sim.run_preserved [of \<sigma> \<sigma> n \<sigma>'] assms unfolding remaining
  by (auto simp: at_head_def split: list.split)

end

end
