(* ===== verification/CFG.thy ===== *)
theory CFG
  imports Helpers "HOL-Library.List_Lexorder"
begin

text \<open>
  \<^verbatim>\<open>src/src/aec_compiler/analysis/cfg.py\<close>: splitting a program into basic blocks, the edges between
  them, depth-first order, dominators, back edges and natural loops. A Python set of block names is
  a list without duplicates in insertion order; where the source iterates over a set, the order is
  not determined there, and every theorem is about the members only. \<^verbatim>\<open>sorted\<close> of names is \<open>sort\<close>
  in the order of \<open>List_Lexorder\<close>, which is the order of Python on ASCII strings.
\<close>

datatype cfg_error =
    DuplicateBlockName string
  | DuplicateLabel string
  | BranchOperandCount nat
  | UndefinedBranchTarget nat string
  | NoBasicBlocks

record BasicBlock =
  bb_name :: string
  bb_instructions :: "PTXInstruction list"
  item_indices :: "nat list"
  bb_labels :: "string list"
  predecessors :: "string list"
  successors :: "string list"
  branch_successors :: "string list"
  fallthrough_successor :: "string option"

record NaturalLoop =
  loop_header :: string
  loop_tail :: string
  loop_blocks :: "string list"

record CFG =
  cfg_blocks :: "BasicBlock dict"
  cfg_entry :: string
  label_block :: "string dict"
  item_block :: "(nat \<times> string) list"
  block_order :: "string list"

subsection \<open>Terminators\<close>

definition terminator_kind :: "PTXInstruction option \<Rightarrow> string" where
  "terminator_kind inst = (case inst of None \<Rightarrow> ''fallthrough''
     | Some i \<Rightarrow>
        (let base = opcode_base (inst_opcode i) in
         if base = ''bra'' then
           (if guard i \<noteq> None then ''conditional_branch'' else ''unconditional_branch'')
         else if base = ''ret'' then ''return'' else ''fallthrough''))"

definition is_branch_kind :: "string \<Rightarrow> bool" where
  "is_branch_kind k \<longleftrightarrow> k = ''conditional_branch'' \<or> k = ''unconditional_branch''"

definition bb_terminator :: "BasicBlock \<Rightarrow> PTXInstruction option" where
  "bb_terminator b =
     (if bb_instructions b = [] then None
      else let i = last (bb_instructions b); k = terminator_kind (Some i)
           in if is_branch_kind k \<or> k = ''return'' then Some i else None)"

subsection \<open>Leaders\<close>

definition collect_labels :: "PTXProgram \<Rightarrow> cfg_error + nat dict" where
  "collect_labels p = fold_r (\<lambda>(index, it) labels. case it of
       Inst _ \<Rightarrow> Inr labels
     | Label l \<Rightarrow> if l \<in> fst ` set labels then Inl (DuplicateLabel l)
                  else Inr (AList.update l index labels))
     (enumerate 0 (items p)) []"

definition item_leaders :: "nat \<Rightarrow> nat dict \<Rightarrow> nat \<Rightarrow> item \<Rightarrow> cfg_error + nat list" where
  "item_leaders n labels index it = (case it of
     Label _ \<Rightarrow> Inr [index]
   | Inst i \<Rightarrow>
      (let kind = terminator_kind (Some i);
           next_leader = (if index + 1 < n then [index + 1] else []) in
       if is_branch_kind kind then
         (case operands i of
            [target] \<Rightarrow>
              (case map_of labels target of
                 None \<Rightarrow> Inl (UndefinedBranchTarget (source_line i) target)
               | Some t \<Rightarrow> Inr (t # next_leader))
          | _ \<Rightarrow> Inl (BranchOperandCount (source_line i)))
       else if kind = ''return'' then Inr next_leader
       else Inr []))"

definition find_leaders :: "PTXProgram \<Rightarrow> nat dict \<Rightarrow> cfg_error + nat list" where
  "find_leaders p labels = fold_r (\<lambda>(index, it) leaders.
       bind_r (item_leaders (length (items p)) labels index it) (\<lambda>ls. Inr (leaders @ ls)))
     (enumerate 0 (items p)) [0]"

subsection \<open>Blocks\<close>

record cfg_build =
  b_blocks :: "BasicBlock dict"
  b_label_block :: "string dict"
  b_item_block :: "(nat \<times> string) list"
  b_order :: "string list"
  synthetic_index :: nat

definition slice_labels :: "item list \<Rightarrow> nat \<Rightarrow> nat \<Rightarrow> string list" where
  "slice_labels its a e = concat (map (\<lambda>k. case its ! k of Label l \<Rightarrow> [l] | Inst _ \<Rightarrow> []) [a..<e])"

definition slice_instructions :: "item list \<Rightarrow> nat \<Rightarrow> nat \<Rightarrow> PTXInstruction list" where
  "slice_instructions its a e = concat (map (\<lambda>k. case its ! k of Label _ \<Rightarrow> [] | Inst i \<Rightarrow> [i]) [a..<e])"

definition slice_indices :: "item list \<Rightarrow> nat \<Rightarrow> nat \<Rightarrow> nat list" where
  "slice_indices its a e = filter (\<lambda>k. case its ! k of Label _ \<Rightarrow> False | Inst _ \<Rightarrow> True) [a..<e]"

definition block_name_of :: "nat \<Rightarrow> string list \<Rightarrow> nat \<Rightarrow> string" where
  "block_name_of leader labels k =
     (if leader = 0 \<and> labels = [] then ''entry''
      else case labels of l # _ \<Rightarrow> l | [] \<Rightarrow> ''block_'' @ py_str (int k))"

definition add_block :: "item list \<Rightarrow> nat \<times> nat \<Rightarrow> cfg_build \<Rightarrow> cfg_error + cfg_build" where
  "add_block its rng b = (case rng of (leader, e) \<Rightarrow>
     (let labels = slice_labels its leader e;
          indices = slice_indices its leader e;
          name = block_name_of leader labels (synthetic_index b);
          k' = (if labels = [] \<and> leader \<noteq> 0 then synthetic_index b + 1 else synthetic_index b) in
      if name \<in> fst ` set (b_blocks b) then Inl (DuplicateBlockName name)
      else bind_r (fold_r (\<lambda>l d. if l \<in> fst ` set d then Inl (DuplicateLabel l)
                                 else Inr (AList.update l name d)) labels (b_label_block b))
        (\<lambda>lb. Inr \<lparr>b_blocks = AList.update name
               \<lparr>bb_name = name, bb_instructions = slice_instructions its leader e,
                item_indices = indices, bb_labels = labels, predecessors = [], successors = [],
                branch_successors = [], fallthrough_successor = None\<rparr> (b_blocks b),
             b_label_block = lb,
             b_item_block = fold (\<lambda>i d. AList.update i name d) indices (b_item_block b),
             b_order = b_order b @ [name], synthetic_index = k'\<rparr>)))"

text \<open>The ranges of consecutive leaders, the last one up to the end of the program.\<close>

definition leader_ranges :: "nat \<Rightarrow> nat list \<Rightarrow> (nat \<times> nat) list" where
  "leader_ranges n leaders = zip leaders (tl leaders @ [n])"

definition make_blocks :: "PTXProgram \<Rightarrow> nat list \<Rightarrow> cfg_error + cfg_build" where
  "make_blocks p leaders =
     fold_r (add_block (items p)) (leader_ranges (length (items p)) (sort (remdups leaders)))
       \<lparr>b_blocks = [], b_label_block = [], b_item_block = [], b_order = [], synthetic_index = 0\<rparr>"

subsection \<open>Edges\<close>

definition connect_block :: "string dict \<Rightarrow> string dict \<Rightarrow> BasicBlock \<Rightarrow> cfg_error + BasicBlock" where
  "connect_block label_to_block next_block b =
     (let t = bb_terminator b; kind = terminator_kind t; nxt = map_of next_block (bb_name b) in
      if is_branch_kind kind then
        (case t of None \<Rightarrow> Inr b
         | Some i \<Rightarrow>
            (let target = hd (operands i) in
             case map_of label_to_block target of
               None \<Rightarrow> Inl (UndefinedBranchTarget (source_line i) target)
             | Some tb \<Rightarrow>
                Inr (case (if kind = ''conditional_branch'' then nxt else None) of
                  None \<Rightarrow> b\<lparr>successors := List.insert tb (successors b),
                            branch_successors := List.insert tb (branch_successors b)\<rparr>
                | Some f \<Rightarrow> b\<lparr>successors := List.insert f (List.insert tb (successors b)),
                            branch_successors := List.insert tb (branch_successors b),
                            fallthrough_successor := Some f\<rparr>)))
      else if kind = ''fallthrough'' then
        Inr (case nxt of None \<Rightarrow> b
             | Some f \<Rightarrow> b\<lparr>successors := List.insert f (successors b), fallthrough_successor := Some f\<rparr>)
      else Inr b)"

definition with_predecessors :: "BasicBlock dict \<Rightarrow> BasicBlock dict" where
  "with_predecessors bs = map (\<lambda>(n, b).
     (n, b\<lparr>predecessors := map fst (filter (\<lambda>(m, c). n \<in> set (successors c)) bs)\<rparr>)) bs"

definition connect_edges :: "BasicBlock dict \<Rightarrow> string list \<Rightarrow> string dict \<Rightarrow> cfg_error + BasicBlock dict" where
  "connect_edges blocks order label_to_block =
     map_r (\<lambda>(n, b). bind_r (connect_block label_to_block (zip order (tl order)) b) (\<lambda>c. Inr (n, c))) blocks"


definition build_cfg :: "PTXProgram \<Rightarrow> cfg_error + CFG" where
  "build_cfg p =
     bind_r (collect_labels p) (\<lambda>labels.
     bind_r (find_leaders p labels) (\<lambda>leaders.
     bind_r (make_blocks p leaders) (\<lambda>b.
     if b_blocks b = [] then Inl NoBasicBlocks
     else bind_r (connect_edges (b_blocks b) (b_order b) (b_label_block b)) (\<lambda>bs.
       Inr \<lparr>cfg_blocks = with_predecessors bs,
            cfg_entry = (if ''entry'' \<in> fst ` set (b_blocks b) then ''entry'' else hd (b_order b)),
            label_block = b_label_block b, item_block = b_item_block b,
            block_order = b_order b\<rparr>))))"

subsection \<open>Depth-first order\<close>

text \<open>
  \<^verbatim>\<open>cfg.blocks[name]\<close>. Every name in a successor or predecessor set of a built CFG is a block, so
  the default is never read.
\<close>

definition empty_block :: "string \<Rightarrow> BasicBlock" where
  "empty_block n = \<lparr>bb_name = n, bb_instructions = [], item_indices = [], bb_labels = [],
     predecessors = [], successors = [], branch_successors = [], fallthrough_successor = None\<rparr>"

definition block_of :: "CFG \<Rightarrow> string \<Rightarrow> BasicBlock" where
  "block_of g n = (case map_of (cfg_blocks g) n of None \<Rightarrow> empty_block n | Some b \<Rightarrow> b)"

text \<open>
  The recursive \<^verbatim>\<open>visit\<close>, over the visited set and the postorder list. Each level of the recursion
  marks a new block, so one more level than there are blocks is never reached.
\<close>

fun dfs_visit :: "nat \<Rightarrow> CFG \<Rightarrow> string \<Rightarrow> string list \<times> string list \<Rightarrow> string list \<times> string list" where
  "dfs_visit 0 g n st = st"
| "dfs_visit (Suc k) g n (seen, post) =
     (if n \<in> set seen then (seen, post)
      else case fold (dfs_visit k g) (sort (successors (block_of g n))) (n # seen, post) of
        (seen', post') \<Rightarrow> (seen', post' @ [n]))"

definition reverse_postorder :: "CFG \<Rightarrow> string list" where
  "reverse_postorder g =
     rev (snd (dfs_visit (Suc (length (cfg_blocks g))) g (cfg_entry g) ([], [])))"

subsection \<open>Dominators\<close>

type_synonym dom_sets = "string list dict"

definition doms_of :: "dom_sets \<Rightarrow> string \<Rightarrow> string list" where
  "doms_of d n = (case map_of d n of None \<Rightarrow> [] | Some s \<Rightarrow> s)"

definition intersect_all :: "string list list \<Rightarrow> string list" where
  "intersect_all xs = (case xs of [] \<Rightarrow> [] | s # ss \<Rightarrow> filter (\<lambda>d. list_all (\<lambda>t. d \<in> set t) ss) s)"

definition new_dom :: "CFG \<Rightarrow> dom_sets \<Rightarrow> string \<Rightarrow> string list" where
  "new_dom g d n =
     (let preds = filter (\<lambda>q. q \<in> fst ` set d) (predecessors (block_of g n))
      in List.insert n (intersect_all (map (doms_of d) preds)))"

definition dom_update :: "CFG \<Rightarrow> string \<Rightarrow> dom_sets \<times> bool \<Rightarrow> dom_sets \<times> bool" where
  "dom_update g n st = (case st of (d, changed) \<Rightarrow>
     if n = cfg_entry g then (d, changed)
     else if set (new_dom g d n) \<noteq> set (doms_of d n) then (AList.update n (new_dom g d n) d, True)
     else (d, changed))"

definition dom_round :: "CFG \<Rightarrow> string list \<Rightarrow> dom_sets \<Rightarrow> dom_sets \<times> bool" where
  "dom_round g reach d = fold (dom_update g) reach (d, False)"

text \<open>
  Each round that changes something removes a name from one of the sets, so the number of rounds
  is bounded by the square of the number of blocks; \<open>None\<close> is not reached.
\<close>

fun dom_loop :: "nat \<Rightarrow> CFG \<Rightarrow> string list \<Rightarrow> dom_sets \<Rightarrow> dom_sets option" where
  "dom_loop 0 g reach d = None"
| "dom_loop (Suc k) g reach d =
     (case dom_round g reach d of (d', changed) \<Rightarrow>
        if changed then dom_loop k g reach d' else Some d')"

definition initial_doms :: "CFG \<Rightarrow> string list \<Rightarrow> dom_sets" where
  "initial_doms g reach =
     AList.update (cfg_entry g) [cfg_entry g] (map (\<lambda>n. (n, reach)) reach)"

definition dominators :: "CFG \<Rightarrow> dom_sets" where
  "dominators g =
     (let reach = reverse_postorder g in
      case dom_loop (Suc (length reach * length reach)) g reach (initial_doms g reach) of
        None \<Rightarrow> [] | Some d \<Rightarrow> d)"

subsection \<open>Natural loops\<close>

definition backedges :: "CFG \<Rightarrow> (string \<times> string) list" where
  "backedges g =
     (let d = dominators g in
      concat (map (\<lambda>(n, b). map (\<lambda>s. (n, s)) (filter (\<lambda>s. s \<in> set (doms_of d n)) (successors b)))
        (cfg_blocks g)))"

text \<open>
  The worklist of \<^verbatim>\<open>natural_loops\<close>: the last entry is taken, and its predecessors other than the
  header that are not yet in the loop are added.
\<close>

definition loop_preds :: "CFG \<Rightarrow> string \<Rightarrow> string \<Rightarrow> string list" where
  "loop_preds g h n = filter (\<lambda>q. q \<noteq> h) (predecessors (block_of g n))"

definition natural_loop :: "CFG \<Rightarrow> string \<times> string \<Rightarrow> NaturalLoop" where
  "natural_loop g e = (case e of (t, h) \<Rightarrow>
     \<lparr>loop_header = h, loop_tail = t,
      loop_blocks = (if t = h then [h]
        else worklist (map fst (cfg_blocks g)) (loop_preds g h) [h, t] [t])\<rparr>)"

definition natural_loops :: "CFG \<Rightarrow> NaturalLoop list" where
  "natural_loops g = map (natural_loop g) (backedges g)"

end
