(* ===== verification/Uniformity.thy ===== *)
theory Uniformity
  imports Helpers
begin

text \<open>
  \<^verbatim>\<open>src/src/aec_compiler/analysis/uniformity.py\<close>: one pass in program order that marks every
  register uniform, varying or unknown across the threads of a warp, with the facts recorded per
  instruction and per conditional branch.
\<close>

datatype Uniformity = Unknown | Uniform | Varying

record BranchUniformity =
  bu_item_index :: nat
  bu_source_line :: nat
  bu_predicate :: string
  bu_state :: Uniformity

record UniformityFacts =
  final_values :: "Uniformity dict"
  values_before :: "(nat \<times> Uniformity dict) list"
  values_after :: "(nat \<times> Uniformity dict) list"
  branch_states :: "(nat \<times> BranchUniformity) list"
  uni_definitions :: "nat list dict"
  uni_uses :: "(nat \<times> string list) list"
  definitions_by_index :: "(nat \<times> string) list"

subsection \<open>Operands\<close>

definition normalize_register :: "string \<Rightarrow> string" where
  "normalize_register r = py_strip r"

definition normalize_predicate :: "string \<Rightarrow> string" where
  "normalize_predicate p = (let q = py_strip p in if starts_with q ''%'' then q else CHR ''%'' # q)"

definition unbracket :: "string \<Rightarrow> string" where
  "unbracket op = (if starts_with op ''['' \<and> ends_with op '']'' then py_strip (butlast (tl op)) else op)"

definition normalize_operand :: "string \<Rightarrow> string" where
  "normalize_operand op0 =
     (let op = unbracket (py_strip op0)
      in if starts_with op ''%p'' then normalize_predicate op else normalize_register op)"

definition special_uniformity :: "string \<Rightarrow> Uniformity option" where
  "special_uniformity source =
     (if source \<in> set [''%ctaid'', ''%ctaid.x'', ''%ctaid.y'', ''%ctaid.z''] then Some Uniform
      else if source \<in> set [''%ntid'', ''%ntid.x'', ''%ntid.y'', ''%ntid.z''] then Some Uniform
      else if source \<in> set [''%nctaid'', ''%nctaid.x'', ''%nctaid.y'', ''%nctaid.z''] then Some Uniform
      else if source = ''%warpid'' then Some Uniform
      else if source \<in> set [''%tid'', ''%tid.x'', ''%tid.y'', ''%tid.z'', ''%laneid''] then Some Varying
      else None)"

definition value_uniformity :: "Uniformity dict \<Rightarrow> string \<Rightarrow> Uniformity" where
  "value_uniformity values r = (case map_of values r of None \<Rightarrow> Unknown | Some u \<Rightarrow> u)"

definition source_uniformity :: "string \<Rightarrow> Uniformity dict \<Rightarrow> Uniformity" where
  "source_uniformity source0 values =
     (let source = normalize_register source0 in
      case special_uniformity source of Some u \<Rightarrow> u | None \<Rightarrow> value_uniformity values source)"

definition operand_uniformity :: "string \<Rightarrow> Uniformity dict \<Rightarrow> Uniformity" where
  "operand_uniformity operand0 values =
     (if is_immediate operand0 then Uniform
      else let operand = unbracket operand0
           in if starts_with operand ''%'' then source_uniformity operand values
              else value_uniformity values operand)"

subsection \<open>Instructions\<close>

definition alu_bases :: "string list" where
  "alu_bases = [''add'', ''sub'', ''mul'', ''mad'', ''fma'', ''and'', ''or'', ''xor'', ''shl'', ''shr'']"

definition merge_uniformity :: "Uniformity list \<Rightarrow> Uniformity" where
  "merge_uniformity states =
     (if Varying \<in> set states then Varying
      else if states \<noteq> [] \<and> list_all (\<lambda>s. s = Uniform) states then Uniform
      else Unknown)"

definition instruction_dest :: "PTXInstruction \<Rightarrow> string option" where
  "instruction_dest item =
     (let base = hd (opcode_parts (inst_opcode item)) in
      if base \<in> set ([''ld'', ''mov'', ''cvt'', ''setp''] @ alu_bases)
      then (case operands item of [] \<Rightarrow> None | op # _ \<Rightarrow> Some (normalize_register op))
      else None)"

definition instruction_uses :: "PTXInstruction \<Rightarrow> string list" where
  "instruction_uses item =
     (let base = hd (opcode_parts (inst_opcode item)); ops = operands item in
      if base \<in> set [''ld'', ''mov'', ''cvt''] then map normalize_operand (drop 1 ops)
      else if base = ''st'' then map normalize_operand ops
      else if base \<in> set (''setp'' # alu_bases) then map normalize_operand (drop 1 ops)
      else if base = ''bra'' then
        (case guard item of None \<Rightarrow> [] | Some p \<Rightarrow> [normalize_predicate p])
      else [])"

definition result_uniformity :: "PTXInstruction \<Rightarrow> Uniformity dict \<Rightarrow> string list \<Rightarrow> Uniformity" where
  "result_uniformity item values uses =
     (let parts = opcode_parts (inst_opcode item); base = hd parts in
      if base = ''ld'' \<and> 2 \<le> length parts \<and> parts ! 1 = ''param'' then Uniform
      else if base = ''ld'' \<and> 2 \<le> length parts \<and> parts ! 1 = ''global'' then Varying
      else if base = ''mov'' then
        (case operands item of
           [_, source] \<Rightarrow>
             if is_immediate source then Uniform
             else if starts_with source ''%'' then source_uniformity source values
             else Unknown
         | _ \<Rightarrow> Unknown)
      else if base \<in> set ([''cvt'', ''setp''] @ alu_bases) then
        merge_uniformity (map (\<lambda>operand. operand_uniformity operand values) uses)
      else Unknown)"

subsection \<open>The pass\<close>

definition uni_step :: "nat \<times> item \<Rightarrow> Uniformity dict \<times> UniformityFacts \<Rightarrow> Uniformity dict \<times> UniformityFacts" where
  "uni_step indexed st = (case (indexed, st) of ((index, it), (values, facts)) \<Rightarrow>
     (case it of
        Label _ \<Rightarrow> (values, facts)
      | Inst item \<Rightarrow>
         (let uses = instruction_uses item;
              f1 = facts\<lparr>values_before := values_before facts @ [(index, values)],
                         uni_uses := uni_uses facts @ [(index, uses)]\<rparr>;
              state = result_uniformity item values uses;
              (values', f2) = (case instruction_dest item of
                  None \<Rightarrow> (values, f1)
                | Some d \<Rightarrow> (AList.update d state values,
                    f1\<lparr>uni_definitions := AList.update d
                         ((case map_of (uni_definitions f1) d of None \<Rightarrow> [] | Some is \<Rightarrow> is) @ [index])
                         (uni_definitions f1),
                       definitions_by_index := definitions_by_index f1 @ [(index, d)]\<rparr>));
              f3 = (case (hd (opcode_parts (inst_opcode item)) = ''bra'', guard item) of
                  (True, Some p) \<Rightarrow>
                    f2\<lparr>branch_states := branch_states f2 @ [(index,
                        \<lparr>bu_item_index = index, bu_source_line = source_line item,
                         bu_predicate = normalize_predicate p,
                         bu_state = value_uniformity values' (normalize_predicate p)\<rparr>)]\<rparr>
                | _ \<Rightarrow> f2)
          in (values', f3\<lparr>values_after := values_after f3 @ [(index, values')]\<rparr>))))"

definition no_facts :: UniformityFacts where
  "no_facts = \<lparr>final_values = [], values_before = [], values_after = [], branch_states = [],
     uni_definitions = [], uni_uses = [], definitions_by_index = []\<rparr>"

definition initial_values :: "PTXProgram \<Rightarrow> Uniformity dict" where
  "initial_values p = fold (\<lambda>q d. AList.update (param_name q) Uniform d) (parameters p) []"

definition analyze_uniformity :: "PTXProgram \<Rightarrow> UniformityFacts" where
  "analyze_uniformity p =
     (case fold uni_step (enumerate 0 (items p)) (initial_values p, no_facts) of
        (values, facts) \<Rightarrow> facts\<lparr>final_values := values\<rparr>)"

end
