(* ===== verification/Liveness.thy ===== *)
theory Liveness
  imports Helpers
begin

text \<open>
  \<^verbatim>\<open>src/src/aec_compiler/analysis/liveness.py\<close>: live ranges of the virtual registers, one per
  definition. Positions are indices into the items of the program; \<^verbatim>\<open>-1\<close> stands for never.
\<close>

record LiveRange =
  lr_register :: string
  first_def :: int
  last_use :: int
  definition_indices :: "int list"
  use_indices :: "int list"

definition is_live :: "LiveRange \<Rightarrow> bool" where
  "is_live r \<longleftrightarrow> 0 \<le> first_def r \<and> 0 \<le> last_use r"

definition span :: "LiveRange \<Rightarrow> int" where
  "span r = (if \<not> is_live r then 0 else last_use r - first_def r + 1)"

type_synonym LivenessFacts = "LiveRange dict"

definition live_dest_bases :: "string list" where
  "live_dest_bases = [''ld'', ''mov'', ''add'', ''sub'', ''mul'', ''mad'', ''and'', ''or'', ''xor'',
     ''shl'', ''shr'', ''cvt'', ''fma'']"

definition dest_register :: "PTXInstruction \<Rightarrow> string option" where
  "dest_register inst =
     (if opcode_base (inst_opcode inst) \<in> set live_dest_bases then
        (case operands inst of [] \<Rightarrow> None
         | op # _ \<Rightarrow> if starts_with op ''%'' then Some (py_strip op) else None)
      else None)"

definition live_operand :: "string \<Rightarrow> string list" where
  "live_operand op0 =
     (let op = py_strip op0;
          op' = (if starts_with op ''['' \<and> ends_with op '']'' then py_strip (butlast (tl op)) else op)
      in if starts_with op' ''%'' then [op'] else [])"

definition source_registers :: "PTXInstruction \<Rightarrow> string list" where
  "source_registers inst =
     (case guard inst of None \<Rightarrow> [] | Some p \<Rightarrow> [guard_register p]) @
     concat (map live_operand
       (if opcode_base (inst_opcode inst) \<in> set (''setp'' # live_dest_bases)
        then drop 1 (operands inst) else operands inst))"

text \<open>\<^verbatim>\<open>d.setdefault(k, []).append(i)\<close>.\<close>

definition append_at :: "string \<Rightarrow> int \<Rightarrow> int list dict \<Rightarrow> int list dict" where
  "append_at k i d = AList.update k ((case map_of d k of None \<Rightarrow> [] | Some is \<Rightarrow> is) @ [i]) d"

definition collect_defs :: "item list \<Rightarrow> int list dict" where
  "collect_defs its = fold (\<lambda>(i, it) d. case it of Label _ \<Rightarrow> d
      | Inst inst \<Rightarrow> (case dest_register inst of None \<Rightarrow> d | Some r \<Rightarrow> append_at r (int i) d))
     (enumerate 0 its) []"

definition collect_uses :: "item list \<Rightarrow> int list dict" where
  "collect_uses its = fold (\<lambda>(i, it) d. case it of Label _ \<Rightarrow> d
      | Inst inst \<Rightarrow> fold (\<lambda>r d. append_at r (int i) d) (source_registers inst) d)
     (enumerate 0 its) []"

definition inst_indices_of :: "item list \<Rightarrow> int list" where
  "inst_indices_of its = map (\<lambda>(i, it). int i)
     (filter (\<lambda>(i, it). case it of Label _ \<Rightarrow> False | Inst _ \<Rightarrow> True) (enumerate 0 its))"

text \<open>
  The range of one definition: the first definition takes the uses up to and with the next one,
  a later definition those strictly between it and the next one.
\<close>

definition def_range :: "string \<Rightarrow> int list \<Rightarrow> nat \<Rightarrow> int list \<Rightarrow> int \<Rightarrow> string \<times> LiveRange" where
  "def_range reg def_indices def_num uses last_index =
     (let def_idx = def_indices ! def_num;
          next_def = (if def_num + 1 < length def_indices then def_indices ! (def_num + 1)
                      else last_index + 1);
          us = filter (\<lambda>u. if def_num = 0 then def_idx \<le> u \<and> u \<le> next_def
                           else def_idx < u \<and> u < next_def) uses;
          lu = foldl max (- 1) us;
          key = (if 1 < length def_indices then reg @ ''#'' @ py_str (int def_num) else reg)
      in (key, \<lparr>lr_register = key, first_def = def_idx, last_use = (if lu < 0 then def_idx else lu),
                definition_indices = [def_idx], use_indices = us\<rparr>))"

definition register_ranges :: "int list dict \<Rightarrow> int \<Rightarrow> string \<times> int list \<Rightarrow> LivenessFacts \<Rightarrow> LivenessFacts" where
  "register_ranges all_uses last_index rd ranges = (case rd of (reg, def_indices) \<Rightarrow>
     (let uses = sort (case map_of all_uses reg of None \<Rightarrow> [] | Some us \<Rightarrow> us) in
      fold (\<lambda>n rs. case def_range reg def_indices n uses last_index of (k, r) \<Rightarrow> AList.update k r rs)
        [0..<length def_indices] ranges))"

definition use_only_range :: "int list dict \<Rightarrow> string \<times> int list \<Rightarrow> LivenessFacts \<Rightarrow> LivenessFacts" where
  "use_only_range all_defs ru ranges = (case ru of (reg, us) \<Rightarrow>
     if reg \<in> fst ` set all_defs \<or> reg \<in> fst ` set ranges then ranges
     else AList.update reg \<lparr>lr_register = reg, first_def = - 1, last_use = foldl max (hd us) (tl us),
            definition_indices = [], use_indices = sort us\<rparr> ranges)"

definition analyze_liveness :: "PTXProgram \<Rightarrow> LivenessFacts" where
  "analyze_liveness p =
     (let defs = collect_defs (items p); uses = collect_uses (items p);
          idx = inst_indices_of (items p);
          last_index = (case idx of [] \<Rightarrow> - 1 | i # is \<Rightarrow> foldl max i is)
      in fold (use_only_range defs) uses (fold (register_ranges uses last_index) defs []))"

end
