(* ===== verification/Pass_Base.thy ===== *)
theory Pass_Base
  imports CFG Uniformity Liveness
begin

text \<open>
  The framework the passes run in: \<^verbatim>\<open>passes/base.py\<close> (the result of a pass), \<^verbatim>\<open>analysis/manager.py\<close>
  (the cache of analysis facts with its invalidation), \<^verbatim>\<open>passes/manager.py\<close> (running a list of
  passes in order) and \<^verbatim>\<open>passes/foundation.py\<close> (the passes that only record facts). The objects the
  source mutates (the module and the analysis manager) are passed along. An exception of a pass or
  of an analysis is \<open>Inl\<close>; it ends the compilation, so the half-updated module is not kept.
\<close>

datatype pass_error =
    PassValueError string
  | PassIndexError
  | PassCFGError cfg_error
  | AnalysisNotRegistered string
  | PassTypeError

text \<open>The values of the \<open>Any\<close>-typed dictionaries \<^verbatim>\<open>details\<close> and \<^verbatim>\<open>metadata\<close>.\<close>

datatype detail =
    DNone
  | DInt int
  | DBool bool
  | DStr string
  | DList "detail list"
  | DDict "(string \<times> detail) list"

record PassResult =
  res_changed :: bool
  res_details :: "detail dict"
  res_invalidated :: "string list"

type_synonym ir_module = "detail IRModule"

abbreviation mod_program :: "ir_module \<Rightarrow> PTXProgram" where
  "mod_program m \<equiv> fn_program (ir_function m)"

definition set_program :: "PTXProgram \<Rightarrow> ir_module \<Rightarrow> ir_module" where
  "set_program p m = m\<lparr>ir_function := (ir_function m)\<lparr>fn_program := p\<rparr>\<rparr>"

lemma mod_program_set [simp]: "mod_program (set_program p m) = p"
  by (simp add: set_program_def)

text \<open>A result without a change, and one that replaced the program.\<close>

definition unchanged_result :: "detail dict \<Rightarrow> PassResult" where
  "unchanged_result d = \<lparr>res_changed = False, res_details = d, res_invalidated = []\<rparr>"

definition rewritten :: "item list \<Rightarrow> detail dict \<Rightarrow> string list \<Rightarrow> ir_module \<Rightarrow> ir_module \<times> PassResult" where
  "rewritten kept d invalidated m = (set_program (rebuild_program (mod_program m) kept) m,
     \<lparr>res_changed = True, res_details = d, res_invalidated = invalidated\<rparr>)"

subsection \<open>The analysis manager\<close>

datatype facts =
    CfgFacts CFG
  | LivenessFact LivenessFacts
  | UniformityFact UniformityFacts

type_synonym provider = "ir_module \<Rightarrow> pass_error + facts"

record AnalysisManager =
  am_providers :: "provider dict"
  am_cache :: "facts dict"

definition am_get :: "string \<Rightarrow> ir_module \<Rightarrow> AnalysisManager \<Rightarrow> pass_error + facts \<times> AnalysisManager" where
  "am_get name m am = (case map_of (am_providers am) name of
     None \<Rightarrow> Inl (AnalysisNotRegistered name)
   | Some provider \<Rightarrow>
       (case map_of (am_cache am) name of
          Some f \<Rightarrow> Inr (f, am)
        | None \<Rightarrow> bind_r (provider m) (\<lambda>f. Inr (f, am\<lparr>am_cache := AList.update name f (am_cache am)\<rparr>))))"

definition am_invalidate :: "string list option \<Rightarrow> AnalysisManager \<Rightarrow> AnalysisManager" where
  "am_invalidate names am = (case names of
     None \<Rightarrow> am\<lparr>am_cache := []\<rparr>
   | Some ns \<Rightarrow> am\<lparr>am_cache := fold AList.delete ns (am_cache am)\<rparr>)"

definition cached_names :: "AnalysisManager \<Rightarrow> string list" where
  "cached_names am = sort (map fst (am_cache am))"

definition cfg_provider :: provider where
  "cfg_provider m = (case build_cfg (mod_program m) of
     Inl e \<Rightarrow> Inl (PassCFGError e) | Inr g \<Rightarrow> Inr (CfgFacts g))"

definition liveness_provider :: provider where
  "liveness_provider m = Inr (LivenessFact (analyze_liveness (mod_program m)))"

definition uniformity_provider :: provider where
  "uniformity_provider m = Inr (UniformityFact (analyze_uniformity (mod_program m)))"

definition build_default_analysis_manager :: AnalysisManager where
  "build_default_analysis_manager = \<lparr>am_providers =
     [(''cfg'', cfg_provider), (''liveness'', liveness_provider), (''uniformity'', uniformity_provider)],
     am_cache = []\<rparr>"

definition get_cfg :: "ir_module \<Rightarrow> AnalysisManager \<Rightarrow> pass_error + CFG \<times> AnalysisManager" where
  "get_cfg m am = bind_r (am_get ''cfg'' m am) (\<lambda>(f, am').
     case f of CfgFacts g \<Rightarrow> Inr (g, am') | _ \<Rightarrow> Inl PassTypeError)"

definition get_liveness :: "ir_module \<Rightarrow> AnalysisManager \<Rightarrow> pass_error + LivenessFacts \<times> AnalysisManager" where
  "get_liveness m am = bind_r (am_get ''liveness'' m am) (\<lambda>(f, am').
     case f of LivenessFact g \<Rightarrow> Inr (g, am') | _ \<Rightarrow> Inl PassTypeError)"

definition get_uniformity :: "ir_module \<Rightarrow> AnalysisManager \<Rightarrow> pass_error + UniformityFacts \<times> AnalysisManager" where
  "get_uniformity m am = bind_r (am_get ''uniformity'' m am) (\<lambda>(f, am').
     case f of UniformityFact g \<Rightarrow> Inr (g, am') | _ \<Rightarrow> Inl PassTypeError)"

subsection \<open>The pass manager\<close>

type_synonym pass_run = "ir_module \<Rightarrow> AnalysisManager \<Rightarrow> pass_error + ir_module \<times> AnalysisManager \<times> PassResult"

record compiler_pass =
  pass_name :: string
  pass_fun :: pass_run

record PassRecord =
  rec_name :: string
  rec_changed :: bool
  rec_details :: "detail dict"
  rec_invalidated :: "string list"

record PassManager =
  pm_name :: string
  pm_passes :: "compiler_pass list"

definition pass_names :: "PassManager \<Rightarrow> string list" where
  "pass_names pm = map pass_name (pm_passes pm)"

definition run_pass :: "compiler_pass \<Rightarrow> ir_module \<times> AnalysisManager \<times> PassRecord list
    \<Rightarrow> pass_error + ir_module \<times> AnalysisManager \<times> PassRecord list" where
  "run_pass cp st = (case st of (m, am, recs) \<Rightarrow>
     bind_r (pass_fun cp m am) (\<lambda>(m', am', res).
       let names = sort (res_invalidated res);
           am'' = (if names \<noteq> [] then am_invalidate (Some names) am' else am')
       in Inr (m', am'', recs @ [\<lparr>rec_name = pass_name cp, rec_changed = res_changed res,
            rec_details = res_details res, rec_invalidated = names\<rparr>])))"

definition pm_run :: "PassManager \<Rightarrow> ir_module \<Rightarrow> AnalysisManager
    \<Rightarrow> pass_error + ir_module \<times> AnalysisManager \<times> PassRecord list" where
  "pm_run pm m am = fold_r run_pass (pm_passes pm) (m, am, [])"

text \<open>A pass that asks for no analysis.\<close>

definition plain_pass :: "(ir_module \<Rightarrow> pass_error + ir_module \<times> PassResult) \<Rightarrow> pass_run" where
  "plain_pass f m am = bind_r (f m) (\<lambda>(m', r). Inr (m', am, r))"

subsection \<open>Foundation passes\<close>

definition validate_program :: "ir_module \<Rightarrow> pass_error + ir_module \<times> PassResult" where
  "validate_program m =
     (if fn_name (ir_function m) = [] then Inl (PassValueError ''IR function has no kernel name'')
      else if items (mod_program m) = [] then Inl (PassValueError ''IR function has no executable items'')
      else Inr (m, unchanged_result [(''kernel'', DStr (fn_name (ir_function m)))]))"

definition materialized_block :: "CFG \<Rightarrow> string \<Rightarrow> IRBlock" where
  "materialized_block g n = (let b = block_of g n in
     \<lparr>irb_name = n, instruction_count = length (bb_instructions b),
      irb_predecessors = sort (predecessors b), irb_successors = sort (successors b)\<rparr>)"

definition materialize_cfg :: pass_run where
  "materialize_cfg m am = bind_r (get_cfg m am) (\<lambda>(g, am').
     let blocks = map (materialized_block g) (block_order g) in
     Inr (m\<lparr>ir_function := (ir_function m)\<lparr>fn_blocks := blocks\<rparr>\<rparr>, am',
          \<lparr>res_changed = (blocks \<noteq> fn_blocks (ir_function m)),
           res_details = [(''basic_blocks'', DInt (int (length blocks))), (''entry'', DStr (cfg_entry g))],
           res_invalidated = []\<rparr>))"

text \<open>\<^verbatim>\<open>changed = module.metadata.get(key) != value; module.metadata[key] = value\<close>.\<close>

definition record_metadata :: "string \<Rightarrow> detail dict \<Rightarrow> ir_module \<Rightarrow> ir_module \<times> PassResult" where
  "record_metadata key value m =
     (m\<lparr>metadata := AList.update key (DDict value) (metadata m)\<rparr>,
      \<lparr>res_changed = (map_of (metadata m) key \<noteq> Some (DDict value)), res_details = value,
       res_invalidated = []\<rparr>)"

definition state_count :: "UniformityFacts \<Rightarrow> Uniformity \<Rightarrow> int" where
  "state_count f u = int (length (filter (\<lambda>(_, b). bu_state b = u) (branch_states f)))"

definition record_uniformity :: pass_run where
  "record_uniformity m am = bind_r (get_uniformity m am) (\<lambda>(f, am').
     case record_metadata ''uniformity''
       [(''branches'', DInt (int (length (branch_states f)))), (''unknown'', DInt (state_count f Unknown)),
        (''uniform'', DInt (state_count f Uniform)), (''varying'', DInt (state_count f Varying))] m of
       (m', r) \<Rightarrow> Inr (m', am', r))"

definition record_loop_analysis :: pass_run where
  "record_loop_analysis m am = bind_r (get_cfg m am) (\<lambda>(g, am').
     case record_metadata ''loops''
       [(''backedges'', DInt (int (length (backedges g)))),
        (''natural_loops'', DInt (int (length (natural_loops g))))] m of
       (m', r) \<Rightarrow> Inr (m', am', r))"

end
