(* ===== verification/Local_Scalar.thy ===== *)
theory Local_Scalar
  imports Pass_Base
begin

text \<open>
  \<^verbatim>\<open>src/src/aec_compiler/passes/local_scalar.py\<close>: conservative dead result elimination, common
  subexpression elimination inside straight-line scopes, and local constant folding.
\<close>

abbreviation cfg_and_uniformity :: "string list" where
  "cfg_and_uniformity \<equiv> [''cfg'', ''uniformity'']"

definition has_side_modifier :: "string list \<Rightarrow> bool" where
  "has_side_modifier parts \<longleftrightarrow> list_ex side_effecting_modifier (tl parts)"

subsection \<open>Dead result elimination\<close>

definition is_removable_dead_result :: "PTXInstruction \<Rightarrow> (string \<Rightarrow> bool) \<Rightarrow> bool" where
  "is_removable_dead_result inst read =
     (if guard inst \<noteq> None \<or> operands inst = [] then False
      else let parts = opcode_parts (inst_opcode inst) in
        case map_of PURE_RESULT_OPERAND_COUNTS (hd parts) of
          None \<Rightarrow> False
        | Some expected \<Rightarrow>
            if length (operands inst) \<noteq> expected then False
            else if has_side_modifier parts then False
            else let destination = py_strip (hd (operands inst)) in
              if \<not> is_register_name destination then False
              else if starts_with destination ''%p'' then False
              else \<not> read destination)"

definition dre_keeps :: "PTXProgram \<Rightarrow> item \<Rightarrow> bool" where
  "dre_keeps p it = (case it of Label _ \<Rightarrow> True
     | Inst i \<Rightarrow> \<not> is_removable_dead_result i (is_read_register p))"

definition dre_removed :: "PTXProgram \<Rightarrow> string list" where
  "dre_removed p = concat (map (\<lambda>it. case it of Label _ \<Rightarrow> []
     | Inst i \<Rightarrow> if dre_keeps p it then [] else [py_strip (hd (operands i))]) (items p))"

definition dre_run :: "ir_module \<Rightarrow> ir_module \<times> PassResult" where
  "dre_run m =
     (let p = mod_program m; removed = dre_removed p; n = int (length removed);
          details = [(''removed_destinations'', DList (map DStr (sort (remdups removed)))),
                     (''removed_instruction_count'', DInt n), (''transforms_applied'', DInt n)]
      in if removed = [] then (m, unchanged_result details)
         else rewritten (filter (dre_keeps p) (items p)) details cfg_and_uniformity m)"

subsection \<open>Aliases and operands\<close>

type_synonym aliases = "string dict"

text \<open>\<^verbatim>\<open>while current in aliases and current not in seen\<close>.\<close>

function resolve_alias_from :: "aliases \<Rightarrow> string list \<Rightarrow> string \<Rightarrow> string" where
  "resolve_alias_from al seen current =
     (if current \<in> set seen then current
      else case map_of al current of
        None \<Rightarrow> current
      | Some nxt \<Rightarrow> resolve_alias_from al (current # seen) nxt)"
  by pat_completeness auto
termination
proof (relation "measure (\<lambda>(al, seen, current). card (fst ` set al - set seen))", goal_cases)
  case (2 al seen current nxt)
  then have "current \<in> fst ` set al - set seen" by (auto simp: in_dict_iff)
  then have "fst ` set al - set (current # seen) \<subset> fst ` set al - set seen" by auto
  then show ?case by (simp add: psubset_card_mono)
qed simp

declare resolve_alias_from.simps [simp del]

definition resolve_alias :: "string \<Rightarrow> aliases \<Rightarrow> string" where
  "resolve_alias name al = resolve_alias_from al [] name"

definition rewrite_operand :: "aliases \<Rightarrow> string \<Rightarrow> string" where
  "rewrite_operand al operand = substitute_references (\<lambda>m. resolve_alias m al) operand"

definition rewrite_sources :: "PTXInstruction \<Rightarrow> aliases \<Rightarrow> PTXInstruction" where
  "rewrite_sources inst al =
     (if al = [] \<or> operands inst = [] then inst
      else let first_source = (if destination_base (opcode_base (inst_opcode inst)) then 1 else 0)
        in inst\<lparr>operands := take first_source (operands inst) @
             map (rewrite_operand al) (drop first_source (operands inst))\<rparr>)"

subsection \<open>Common subexpression elimination\<close>

type_synonym expression = "string \<times> string list"

definition cse_expression_key :: "PTXInstruction \<Rightarrow> expression option" where
  "cse_expression_key inst =
     (if guard inst \<noteq> None \<or> operands inst = [] then None
      else let parts = opcode_parts (inst_opcode inst) in
        case map_of PURE_RESULT_OPERAND_COUNTS (hd parts) of
          None \<Rightarrow> None
        | Some expected \<Rightarrow>
            if length (operands inst) \<noteq> expected then None
            else if has_side_modifier parts then None
            else let destination = py_strip (hd (operands inst)) in
              if \<not> is_register_name destination \<or> starts_with destination ''%p'' then None
              else Some (inst_opcode inst, map py_strip (tl (operands inst))))"

definition is_cse_scope_boundary :: "PTXInstruction \<Rightarrow> bool" where
  "is_cse_scope_boundary inst =
     (if guard inst \<noteq> None then True
      else let parts = opcode_parts (inst_opcode inst) in
        if has_side_modifier parts then True
        else if \<not> pure_result_base (hd parts) then True
        else cse_expression_key inst = None)"

text \<open>A scope: a run of pure instructions with their reads, or one other item.\<close>

type_synonym cse_scope = "(item \<times> string list option) list"

definition flush_current :: "PTXInstruction list \<Rightarrow> cse_scope list" where
  "flush_current current =
     (if current = [] then [] else [map (\<lambda>i. (Inst i, Some (instruction_read_registers i))) current])"

fun split_cse_scopes_from :: "PTXInstruction list \<Rightarrow> item list \<Rightarrow> cse_scope list" where
  "split_cse_scopes_from current [] = flush_current current"
| "split_cse_scopes_from current (Label l # its) =
     flush_current current @ [[(Label l, None)]] @ split_cse_scopes_from [] its"
| "split_cse_scopes_from current (Inst i # its) =
     (if is_cse_scope_boundary i
      then flush_current current @ [[(Inst i, None)]] @ split_cse_scopes_from [] its
      else split_cse_scopes_from (current @ [i]) its)"

definition split_cse_scopes :: "item list \<Rightarrow> cse_scope list" where
  "split_cse_scopes its = split_cse_scopes_from [] its"

definition expression_uses_register :: "expression \<Rightarrow> string \<Rightarrow> bool" where
  "expression_uses_register key destination \<longleftrightarrow>
     list_ex (\<lambda>op. destination \<in> set (register_references op)) (snd key)"

definition invalidate_for_definition :: "string \<Rightarrow> (expression \<times> string) list \<times> aliases
    \<Rightarrow> (expression \<times> string) list \<times> aliases" where
  "invalidate_for_definition destination st = (case st of (exprs, al) \<Rightarrow>
     (filter (\<lambda>(key, v). \<not> (v = destination \<or> expression_uses_register key destination)) exprs,
      AList.delete destination al))"

fun alias_read_after_redefinition :: "bool \<Rightarrow> string \<Rightarrow> string \<Rightarrow> PTXInstruction list \<Rightarrow> bool" where
  "alias_read_after_redefinition redefined a t [] = False"
| "alias_read_after_redefinition redefined a t (i # is) =
     (let r = (redefined \<or> destination_register i = Some t) in
      if r \<and> a \<in> set (instruction_read_registers i) then True
      else alias_read_after_redefinition r a t is)"

record cse_state =
  expression_destinations :: "(expression \<times> string) list"
  cse_aliases :: aliases
  cse_replacements :: "string dict"
  cse_optimized :: "PTXInstruction list"
  cse_removed :: int

definition cse_instruction :: "(string \<Rightarrow> bool) \<Rightarrow> PTXInstruction list \<Rightarrow> PTXInstruction
    \<Rightarrow> cse_state \<Rightarrow> cse_state" where
  "cse_instruction outside future inst st =
     (let rewritten_inst = rewrite_sources inst (cse_aliases st);
          destination = destination_register rewritten_inst;
          (exprs, al) = (case destination of
             None \<Rightarrow> (expression_destinations st, cse_aliases st)
           | Some d \<Rightarrow> invalidate_for_definition d (expression_destinations st, cse_aliases st));
          st1 = st\<lparr>expression_destinations := exprs, cse_aliases := al\<rparr>;
          keep = (\<lambda>s. s\<lparr>cse_optimized := cse_optimized s @ [rewritten_inst]\<rparr>)
      in case (cse_expression_key rewritten_inst, destination) of
           (Some key, Some d) \<Rightarrow>
             (if outside d then keep st1
              else case map_of exprs key of
                None \<Rightarrow> keep (st1\<lparr>expression_destinations := AList.update key d exprs\<rparr>)
              | Some prior \<Rightarrow>
                  (let target = resolve_alias prior al in
                   if alias_read_after_redefinition False d target future
                   then keep (st1\<lparr>expression_destinations := AList.update key d exprs\<rparr>)
                   else st1\<lparr>cse_aliases := AList.update d target al,
                            cse_replacements := AList.update d target (cse_replacements st1),
                            cse_removed := cse_removed st1 + 1\<rparr>))
         | _ \<Rightarrow> keep st1)"

fun cse_scope_loop :: "(string \<Rightarrow> bool) \<Rightarrow> PTXInstruction list \<Rightarrow> cse_state \<Rightarrow> cse_state" where
  "cse_scope_loop outside [] st = st"
| "cse_scope_loop outside (i # is) st =
     cse_scope_loop outside is (cse_instruction outside is i st)"

definition optimize_cse_scope :: "PTXInstruction list \<Rightarrow> (string \<Rightarrow> bool)
    \<Rightarrow> PTXInstruction list \<times> string dict \<times> int" where
  "optimize_cse_scope insts outside =
     (let st = cse_scope_loop outside insts
            \<lparr>expression_destinations = [], cse_aliases = [], cse_replacements = [],
             cse_optimized = [], cse_removed = 0\<rparr>
      in (cse_optimized st, cse_replacements st, cse_removed st))"

definition scope_read_count :: "cse_scope \<Rightarrow> string \<Rightarrow> nat" where
  "scope_read_count scope r = length (filter (\<lambda>(_, reads).
     case reads of None \<Rightarrow> False | Some rs \<Rightarrow> r \<in> set rs) scope)"

definition outside_reads :: "PTXProgram \<Rightarrow> cse_scope \<Rightarrow> string \<Rightarrow> bool" where
  "outside_reads p scope r \<longleftrightarrow> scope_read_count scope r < read_register_count p r"

definition scope_instructions :: "cse_scope \<Rightarrow> PTXInstruction list" where
  "scope_instructions scope = concat (map (\<lambda>(it, _). case it of Label _ \<Rightarrow> [] | Inst i \<Rightarrow> [i]) scope)"

definition cse_one_scope :: "PTXProgram \<Rightarrow> cse_scope \<Rightarrow> item list \<times> string dict \<times> int
    \<Rightarrow> item list \<times> string dict \<times> int" where
  "cse_one_scope p scope acc = (case acc of (kept, repl, removed) \<Rightarrow>
     (case scope of
        [(it, None)] \<Rightarrow> (kept @ [it], repl, removed)
      | _ \<Rightarrow> (case optimize_cse_scope (scope_instructions scope) (outside_reads p scope) of
               (optimized, scope_repl, scope_removed) \<Rightarrow>
                 (kept @ map Inst optimized, fold (\<lambda>(k, v) d. AList.update k v d) scope_repl repl,
                  removed + scope_removed))))"

definition cse_program :: "PTXProgram \<Rightarrow> item list \<times> string dict \<times> int" where
  "cse_program p = fold (cse_one_scope p) (split_cse_scopes (items p)) ([], [], 0)"

definition cse_run :: "ir_module \<Rightarrow> ir_module \<times> PassResult" where
  "cse_run m = (case cse_program (mod_program m) of (kept, repl, removed) \<Rightarrow>
     (let details = [(''removed_instruction_count'', DInt removed),
            (''replaced_destination_count'', DInt (int (length repl))),
            (''replacements'', DList (map (\<lambda>(new, old). DStr (new @ '' -> '' @ old)) (sort_key fst repl))),
            (''transforms_applied'', DInt removed)]
      in if removed = 0 then (m, unchanged_result details)
         else rewritten kept details cfg_and_uniformity m))"

subsection \<open>Local constant folding\<close>

definition is_constant_fold_boundary :: "PTXInstruction \<Rightarrow> bool" where
  "is_constant_fold_boundary inst =
     (if guard inst \<noteq> None then True
      else let parts = opcode_parts (inst_opcode inst); base = hd parts in
        if has_side_modifier parts then True
        else if \<not> local_constant_fold_base base then True
        else if base = ''mov'' then length parts \<noteq> 2 \<or> length (operands inst) \<noteq> 2
        else if base \<in> set [''add'', ''sub'', ''mul''] then length parts \<noteq> 2 \<or> length (operands inst) \<noteq> 3
        else True)"

definition fold_local_constant_instruction :: "float_host \<Rightarrow> PTXInstruction \<Rightarrow> known_constant dict
    \<Rightarrow> PTXInstruction \<times> known_constant option" where
  "fold_local_constant_instruction h inst constants =
     (let parts = opcode_parts (inst_opcode inst); base = hd parts; ptx_type = last parts in
      case destination_register inst of
        None \<Rightarrow> (inst, None)
      | Some destination \<Rightarrow>
          if starts_with destination ''%p'' then (inst, None)
          else if base = ''mov'' then
            (case resolve_constant (operands inst ! 1) ptx_type constants of
               None \<Rightarrow> (inst, None)
             | Some known \<Rightarrow> (inst\<lparr>operands := [destination, format_constant known]\<rparr>, Some known))
          else
            (case (resolve_constant (operands inst ! 1) ptx_type constants,
                   resolve_constant (operands inst ! 2) ptx_type constants) of
               (Some lhs, Some rhs) \<Rightarrow>
                 (let result =
                    (if ptx_type = ''u32'' \<and> base \<in> set [''add'', ''sub'', ''mul''] then
                       map_option (\<lambda>v. (''u32'', v)) (evaluate_u32 base (snd lhs) (snd rhs))
                     else if ptx_type = ''f32'' \<and> base \<in> set [''add'', ''mul''] then
                       map_option (\<lambda>v. (''f32'', v)) (evaluate_f32 h base (snd lhs) (snd rhs))
                     else None)
                  in case result of
                       None \<Rightarrow> (inst, None)
                     | Some known \<Rightarrow>
                         (inst\<lparr>inst_opcode := ''mov.'' @ fst known,
                               operands := [destination, format_constant known]\<rparr>, Some known))
             | _ \<Rightarrow> (inst, None)))"

text \<open>The constants known before and after an item, and the item that replaces it.\<close>

definition lcf_item :: "float_host \<Rightarrow> known_constant dict \<Rightarrow> item \<Rightarrow> item \<times> known_constant dict" where
  "lcf_item h constants it = (case it of
     Label l \<Rightarrow> (it, [])
   | Inst inst \<Rightarrow>
       if is_constant_fold_boundary inst then (it, [])
       else (case fold_local_constant_instruction h inst constants of (folded, known) \<Rightarrow>
         (Inst folded,
          case destination_register inst of
            None \<Rightarrow> constants
          | Some d \<Rightarrow> (case known of None \<Rightarrow> AList.delete d constants
                       | Some k \<Rightarrow> AList.update d k constants))))"

fun lcf_items :: "float_host \<Rightarrow> known_constant dict \<Rightarrow> item list \<Rightarrow> item list" where
  "lcf_items h constants [] = []"
| "lcf_items h constants (it # its) =
     (case lcf_item h constants it of (it', constants') \<Rightarrow> it' # lcf_items h constants' its)"

definition folded_destination :: "item \<times> item \<Rightarrow> string list" where
  "folded_destination pair = (case pair of (Inst i, it') \<Rightarrow>
       if it' = Inst i then []
       else [case destination_register i of None \<Rightarrow> ''<unknown>'' | Some d \<Rightarrow> d]
     | _ \<Rightarrow> [])"

definition lcf_run :: "float_host \<Rightarrow> ir_module \<Rightarrow> ir_module \<times> PassResult" where
  "lcf_run h m =
     (let its = items (mod_program m); kept = lcf_items h [] its;
          folded = concat (map folded_destination (zip its kept)); n = int (length folded);
          details = [(''folded_destinations'', DList (map DStr (sort folded))),
                     (''folded_instruction_count'', DInt n), (''transforms_applied'', DInt n)]
      in if folded = [] then (m, unchanged_result details)
         else rewritten kept details cfg_and_uniformity m)"

end
