(* ===== verification/Global_DCE.thy ===== *)
theory Global_DCE
  imports Local_Scalar
begin

text \<open>
  \<^verbatim>\<open>src/src/aec_compiler/passes/global_dce.py\<close>: dead code elimination over the whole program, with a
  worklist along definitions and uses; and \<^verbatim>\<open>passes/experimental.py\<close>: reuse of a repeated global
  load inside a block.
\<close>

definition indexed_instructions :: "PTXProgram \<Rightarrow> (nat \<times> PTXInstruction) list" where
  "indexed_instructions p = concat (map (\<lambda>(k, it). case it of Label _ \<Rightarrow> [] | Inst i \<Rightarrow> [(k, i)])
     (enumerate 0 (items p)))"

text \<open>\<^verbatim>\<open>def_map.get(reg, ())\<close> and \<^verbatim>\<open>use_map.get(idx, set())\<close>.\<close>

definition definitions_of :: "PTXProgram \<Rightarrow> string \<Rightarrow> nat list" where
  "definitions_of p r = map fst (filter (\<lambda>(k, i).
     destination_register i = Some r \<and> \<not> starts_with r ''%p'') (indexed_instructions p))"

definition uses_at :: "PTXProgram \<Rightarrow> nat \<Rightarrow> string list" where
  "uses_at p k = (case map_of (indexed_instructions p) k of None \<Rightarrow> []
     | Some i \<Rightarrow> instruction_read_registers i)"

definition live_seeds :: "PTXProgram \<Rightarrow> nat list" where
  "live_seeds p = map fst (filter (\<lambda>(k, i). is_side_effecting i) (indexed_instructions p))"

definition marks_of :: "PTXProgram \<Rightarrow> nat \<Rightarrow> nat list" where
  "marks_of p k = concat (map (definitions_of p) (uses_at p k))"

definition live_indices :: "PTXProgram \<Rightarrow> nat list" where
  "live_indices p = worklist [0..<length (items p)] (marks_of p) (live_seeds p) (live_seeds p)"

definition dead_indices :: "PTXProgram \<Rightarrow> nat list" where
  "dead_indices p = filter (\<lambda>k. k \<notin> set (live_indices p)) (map fst (indexed_instructions p))"

definition gdce_items :: "PTXProgram \<Rightarrow> item list" where
  "gdce_items p = map snd (filter (\<lambda>(k, it). k \<notin> set (dead_indices p)) (enumerate 0 (items p)))"

definition gdce_run :: "ir_module \<Rightarrow> ir_module \<times> PassResult" where
  "gdce_run m =
     (let p = mod_program m; n = int (length (dead_indices p));
          details = [(''removed_instruction_count'', DInt n),
                     (''live_count'', DInt (int (length (live_indices p)))),
                     (''transforms_applied'', DInt n)]
      in if dead_indices p = [] then (m, unchanged_result details)
         else rewritten (gdce_items p) details cfg_and_uniformity m)"

subsection \<open>Repeated load reuse\<close>

type_synonym load_cache = "((string \<times> string) \<times> string) list"

text \<open>What an item becomes, the cache behind it and whether a load was replaced.\<close>

definition reuse_load :: "PTXInstruction \<Rightarrow> load_cache \<Rightarrow> pass_error + item \<times> load_cache \<times> nat" where
  "reuse_load inst cache =
     (let parts = opcode_parts (inst_opcode inst) in
      if length parts < 3 then Inr (Inst inst, cache, 0)
      else (case operands inst of
        d # a # _ \<Rightarrow>
          (let ptx_type = last parts; dst = py_strip d; addr = py_strip a;
               addr_reg = (if starts_with addr ''['' \<and> ends_with addr '']''
                           then py_strip (butlast (tl addr)) else addr)
           in case map_of cache (addr_reg, ptx_type) of
                Some src \<Rightarrow> Inr (Inst \<lparr>inst_opcode = ''mov.'' @ ptx_type, operands = [dst, src],
                   guard = None, guard_negated = False, source_line = 0\<rparr>, cache, 1)
              | None \<Rightarrow> Inr (Inst inst, AList.update (addr_reg, ptx_type) dst cache, 0))
      | _ \<Rightarrow> Inl PassIndexError))"

definition load_reuse_item :: "item \<Rightarrow> load_cache \<Rightarrow> pass_error + item \<times> load_cache \<times> nat" where
  "load_reuse_item it cache = (case it of
     Label _ \<Rightarrow> Inr (it, [], 0)
   | Inst inst \<Rightarrow>
      (let base = opcode_base (inst_opcode inst) in
       if base \<in> set [''st'', ''bra'', ''ret'', ''brx'', ''call'', ''atom''] then Inr (it, [], 0)
       else if guard inst \<noteq> None then Inr (it, [], 0)
       else if base = ''ld'' \<and> starts_with (inst_opcode inst) ''ld.global'' then reuse_load inst cache
       else Inr (it, (case destination_register inst of None \<Rightarrow> cache
              | Some d \<Rightarrow> filter (\<lambda>((a, _), _). a \<noteq> d) cache), 0)))"

definition load_reuse_items :: "item list \<Rightarrow> pass_error + item list \<times> load_cache \<times> nat" where
  "load_reuse_items its = fold_r (\<lambda>it (kept, cache, n).
     bind_r (load_reuse_item it cache) (\<lambda>(it', cache', k). Inr (kept @ [it'], cache', n + k)))
     its ([], [], 0)"

definition load_reuse_run :: "ir_module \<Rightarrow> pass_error + ir_module \<times> PassResult" where
  "load_reuse_run m = bind_r (load_reuse_items (items (mod_program m))) (\<lambda>(kept, _, n).
     let details = [(''replaced_load_count'', DInt (int n)), (''transforms_applied'', DInt (int n))] in
     Inr (if n = 0 then (m, unchanged_result details)
          else rewritten kept details cfg_and_uniformity m))"

end
