(* ===== verification/Dead_Proofs.thy ===== *)
theory Dead_Proofs
  imports PTX_Sim Global_DCE
begin

text \<open>
  Dead result elimination and global dead code elimination are instances of \<open>dead_code\<close>: what they
  remove is unguarded and pure, and its destination is read by nothing that is kept.
\<close>

subsection \<open>Dead result elimination\<close>

lemma read_register_items:
  assumes "Inst i \<in> set (items p)" and "r \<in> set (instruction_read_registers i)"
  shows "is_read_register p r"
proof -
  have "Inst i \<in> set (filter (\<lambda>it. case it of Label _ \<Rightarrow> False
      | Inst i \<Rightarrow> r \<in> set (instruction_read_registers i)) (items p))"
    using assms by simp
  then show ?thesis unfolding is_read_register_def read_register_count_def
    by (metis length_0_conv list.set(1) empty_iff)
qed

lemma removable_dead_result:
  assumes "is_removable_dead_result i rd"
  shows "guard i = None" "pure_result_base (opcode_base (inst_opcode i))" "operands i \<noteq> []"
    "is_register_name (py_strip (hd (operands i)))" "\<not> rd (py_strip (hd (operands i)))"
  using assms by (auto simp: is_removable_dead_result_def pure_result_base_def Let_def
      split: if_splits option.splits)

interpretation dre: dead_code E "map (Pair ()) (items p)" "\<lambda>x. dre_keeps p (snd x)"
  "{r. is_read_register p r}" for E p
proof (unfold_locales, goal_cases)
  case (2 a i)
  then show ?case using read_register_items by auto
next
  case (3 a i)
  then show ?case using removable_dead_result by (simp add: dre_keeps_def)
next
  case (4 a i d ops)
  then show ?case using removable_dead_result(5) [of i "is_read_register p"] by (simp add: dre_keeps_def)
qed (simp add: dre_keeps_def)

lemma dre_program: "mod_program (fst (dre_run m)) =
  rebuild_program (mod_program m) (filter (dre_keeps (mod_program m)) (items (mod_program m)))"
proof (cases "dre_removed (mod_program m) = []")
  case True
  then have "\<forall>it \<in> set (items (mod_program m)). dre_keeps (mod_program m) it"
    by (auto simp: dre_removed_def dre_keeps_def split: item.splits if_splits)
  then have "filter (dre_keeps (mod_program m)) (items (mod_program m)) = items (mod_program m)"
    by (simp add: filter_id_conv)
  then show ?thesis using True by (simp add: dre_run_def Let_def rebuild_program_def)
qed (simp add: dre_run_def Let_def rewritten_def)

lemma items_rebuild [simp]: "items (rebuild_program p kept) = kept"
  by (simp add: rebuild_program_def)

lemma dre_agree:
  assumes "run_program E (mod_program m) n \<sigma> = Some \<sigma>'"
  shows "\<exists>\<tau>'. run_program E (mod_program (fst (dre_run m))) n \<sigma> = Some \<tau>' \<and>
           agree {r. is_read_register (mod_program m) r} \<sigma>' \<tau>'"
  using dre.dead_code_removed [where p = "mod_program m" and E = E and n = n and \<sigma> = \<sigma> and \<sigma>' = \<sigma>'] assms
  by (simp add: run_program_def dre_program comp_def filter_map)

subsection \<open>Global dead code elimination\<close>

lemma indexed_instructions_iff:
  "(k, i) \<in> set (indexed_instructions p) \<longleftrightarrow> (k, Inst i) \<in> set (enumerate 0 (items p))"
  by (force simp: indexed_instructions_def split: item.splits)

lemma enumerate_unique:
  "(k, x) \<in> set (enumerate n xs) \<Longrightarrow> (k, y) \<in> set (enumerate n xs) \<Longrightarrow> x = y"
  by (auto simp: in_set_enumerate_eq)

lemma map_of_indexed:
  assumes "(k, i) \<in> set (indexed_instructions p)"
  shows "map_of (indexed_instructions p) k = Some i"
proof -
  obtain j where j: "map_of (indexed_instructions p) k = Some j"
    using assms by (metis weak_map_of_SomeI)
  then have "(k, Inst j) \<in> set (enumerate 0 (items p))"
    using indexed_instructions_iff map_of_SomeD by metis
  then show ?thesis using enumerate_unique assms j indexed_instructions_iff by (metis item.inject(2))
qed

definition live_reads :: "PTXProgram \<Rightarrow> string set" where
  "live_reads p = {r. \<exists>k i. (k, i) \<in> set (indexed_instructions p) \<and> k \<in> set (live_indices p) \<and>
     r \<in> set (instruction_read_registers i)}"

lemma live_seed: "(k, i) \<in> set (indexed_instructions p) \<Longrightarrow> is_side_effecting i \<Longrightarrow> k \<in> set (live_indices p)"
  using worklist_mono [of "live_seeds p"] by (force simp: live_indices_def live_seeds_def)

lemma live_definition:
  assumes "(k, i) \<in> set (indexed_instructions p)" "k \<in> set (live_indices p)"
    and "r \<in> set (instruction_read_registers i)" "k' \<in> set (definitions_of p r)"
  shows "k' \<in> set (live_indices p)"
proof -
  have "k' \<in> set (marks_of p k)"
    using assms by (auto simp: marks_of_def uses_at_def map_of_indexed)
  moreover have "k' < length (items p)"
    using assms(4) by (auto simp: definitions_of_def indexed_instructions_iff in_set_enumerate_eq)
  moreover have "set (marks_of p k) \<inter> set [0..<length (items p)] \<subseteq> set (live_indices p)"
    unfolding live_indices_def
    by (rule worklist_closed) (use assms(2) in \<open>auto simp: live_indices_def\<close>)
  ultimately show ?thesis by auto
qed

lemma dead_not_side_effecting:
  "(k, i) \<in> set (indexed_instructions p) \<Longrightarrow> k \<in> set (dead_indices p) \<Longrightarrow> \<not> is_side_effecting i"
  using live_seed by (auto simp: dead_indices_def)

lemma if_True_else: "\<not> (if c then True else P) \<longleftrightarrow> \<not> c \<and> \<not> P"
  by simp

lemma not_side_effecting:
  assumes "\<not> is_side_effecting i"
  shows "guard i = None" "pure_result_base (opcode_base (inst_opcode i))"
    "destination_register i = Some d \<Longrightarrow> \<not> starts_with d ''%p''"
proof -
  have "\<not> is_side_effecting i \<longleftrightarrow> guard i = None \<and>
    \<not> (contains (inst_opcode i) ''.cc'' \<or> list_ex (\<lambda>p. p = ''cc'') (tl (opcode_parts (inst_opcode i)))) \<and>
    \<not> side_effecting_base (opcode_base (inst_opcode i)) \<and> opcode_base (inst_opcode i) \<noteq> ''setp'' \<and>
    \<not> (case destination_register i of None \<Rightarrow> False | Some d \<Rightarrow> starts_with d ''%p'') \<and>
    ''pred'' \<notin> set (opcode_parts (inst_opcode i)) \<and> pure_result_base (opcode_base (inst_opcode i))"
    unfolding is_side_effecting_def Let_def opcode_base_hd if_True_else by (simp only: not_not)
  with assms show "guard i = None" "pure_result_base (opcode_base (inst_opcode i))"
    "destination_register i = Some d \<Longrightarrow> \<not> starts_with d ''%p''" by (auto simp only: option.case)
qed

interpretation gdce: dead_code E "enumerate 0 (items p)" "\<lambda>x. fst x \<notin> set (dead_indices p)"
  "live_reads p" for E p
proof (unfold_locales, goal_cases)
  case (1 k l)
  have False if "k \<in> set (dead_indices p)"
  proof -
    obtain i where "(k, i) \<in> set (indexed_instructions p)" using \<open>k \<in> set (dead_indices p)\<close>
      unfolding dead_indices_def by auto
    then have "(k, Inst i) \<in> set (enumerate 0 (items p))" by (simp only: indexed_instructions_iff)
    from enumerate_unique [OF 1 this] show False by simp
  qed
  then show ?case by auto
next
  case (2 k i)
  then have mem: "(k, i) \<in> set (indexed_instructions p)" by (simp only: indexed_instructions_iff)
  moreover have "k \<in> set (live_indices p)" using 2(2) mem by (force simp: dead_indices_def)
  ultimately show ?case unfolding live_reads_def by blast
next
  case (3 k i)
  then have "\<not> is_side_effecting i"
    using dead_not_side_effecting [of k i p] by (simp add: indexed_instructions_iff)
  then show ?case using not_side_effecting by blast
next
  case (4 k i d ops)
  then have mem: "(k, i) \<in> set (indexed_instructions p)" and dead: "k \<in> set (dead_indices p)"
    by (simp_all add: indexed_instructions_iff)
  note ns = not_side_effecting [OF dead_not_side_effecting [OF mem dead]]
  have dr: "destination_register i = Some (py_strip d)"
    using 4 ns(2) by (simp add: destination_register_def destination_base_def)
  then have is_def: "k \<in> set (definitions_of p (py_strip d))"
    unfolding definitions_of_def
    using ns(3) mem by (intro image_eqI [of _ fst "(k, i)", THEN subst [OF set_map [symmetric], of "\<lambda>s. k \<in> s"]]) simp_all
  show ?case
  proof
    assume "py_strip d \<in> live_reads p"
    then obtain k' i' where "(k', i') \<in> set (indexed_instructions p)" "k' \<in> set (live_indices p)"
      "py_strip d \<in> set (instruction_read_registers i')" unfolding live_reads_def by blast
    then have "k \<in> set (live_indices p)" using live_definition is_def by blast
    then show False using dead by (simp add: dead_indices_def)
  qed
qed

lemma gdce_program: "mod_program (fst (gdce_run m)) =
  rebuild_program (mod_program m) (gdce_items (mod_program m))"
proof (cases "dead_indices (mod_program m) = []")
  case True
  then have "gdce_items (mod_program m) = items (mod_program m)" by (simp add: gdce_items_def)
  then show ?thesis using True by (simp add: gdce_run_def Let_def rebuild_program_def)
qed (simp add: gdce_run_def Let_def rewritten_def)

lemma gdce_agree:
  assumes "run_program E (mod_program m) n \<sigma> = Some \<sigma>'"
  shows "\<exists>\<tau>'. run_program E (mod_program (fst (gdce_run m))) n \<sigma> = Some \<tau>' \<and>
           agree (live_reads (mod_program m)) \<sigma>' \<tau>'"
  using gdce.dead_code_removed [where p = "mod_program m" and E = E and n = n and \<sigma> = \<sigma> and \<sigma>' = \<sigma>'] assms
  by (simp add: run_program_def gdce_program gdce_items_def case_prod_unfold)

end
