(* ===== verification/Const_Fold.thy ===== *)
theory Const_Fold
  imports PTX_Sim Global_DCE
begin

text \<open>
  Correctness of local constant folding: the constants the pass knows are the values of the
  registers, literals mean to the pass what they mean to the lowering, and the arithmetic of the
  pass is that of the simulator. A program and its folded form have the same runs.
\<close>

subsection \<open>Literals\<close>

lemma scan_digits_value:
  "CHR ''_'' \<notin> set s \<Longrightarrow> ad \<or> s \<noteq> [] \<Longrightarrow> scan_digits b ad acc s = digits_value b acc s"
proof (induction s arbitrary: ad acc)
  case (Cons c s)
  then show ?case by (cases "char_digit c"; cases s) auto
qed simp

lemma digits_value_zeros: "0 < b \<Longrightarrow> digits_value b 0 (replicate k (CHR ''0'') @ s) = digits_value b 0 s"
  by (induction k) (auto simp: char_digit_def)

lemma set_digits_base: "2 \<le> b \<Longrightarrow> set (digits_base b n) \<subseteq> digit_char ` {..<b}"
proof (induction b n rule: digits_base.induct)
  case (1 b n)
  show ?case
  proof (cases "n < b")
    case False
    then have "n mod b < b" using 1 by simp
    with False 1 show ?thesis by (subst digits_base.simps) auto
  qed (subst digits_base.simps, auto)
qed

definition hex_char :: "char \<Rightarrow> bool" where
  "hex_char c \<longleftrightarrow> (let n = of_char c :: nat in (48 \<le> n \<and> n \<le> 57) \<or> (97 \<le> n \<and> n \<le> 102))"

lemma digit_char_cases: "d < 16 \<Longrightarrow> hex_char (digit_char d) \<and> (d < 10 \<longrightarrow> is_digit (digit_char d))"
  by (simp add: hex_char_def is_digit_def of_char_digit_char Let_def)

lemma hex_char_not: "hex_char c \<Longrightarrow> \<not> is_space c \<and> c \<noteq> CHR ''_'' \<and> c \<noteq> CHR ''-'' \<and> c \<noteq> CHR ''+'' \<and>
    c \<noteq> CHR ''x'' \<and> c \<noteq> CHR ''X'' \<and> c \<noteq> CHR ''%''"
  by (auto simp: hex_char_def is_digit_def is_space_def Let_def)

lemma strip_hex: "list_all hex_char s \<Longrightarrow> py_strip s = s"
proof -
  assume h: "list_all hex_char s"
  have "s = [] \<or> \<not> is_space (hd s)" using h hex_char_not by (cases s) auto
  moreover have "s = [] \<or> \<not> is_space (last s)" using h hex_char_not last_in_set by (auto simp: list_all_iff)
  ultimately show ?thesis by (simp add: py_strip_def lstrip_id rstrip_id)
qed

lemma py_int_digits:
  assumes "list_all hex_char s" and "s \<noteq> []" and "b = 10 \<or> b = 16"
  shows "py_int b s = map_option int (digits_value b 0 s)"
proof -
  obtain c cs where s: "s = c # cs" using assms(2) by (cases s) auto
  have c: "c \<noteq> CHR ''-''" "c \<noteq> CHR ''+''" "CHR ''_'' \<notin> set s"
    using assms(1) hex_char_not s by (auto simp: list_all_iff)
  have "take 2 s \<noteq> ''0x'' \<and> take 2 s \<noteq> ''0X''"
    using assms(1) hex_char_not s by (cases cs) auto
  then have "int_magnitude b s = digits_value b 0 s"
    using assms(2,3) c(3) by (auto simp: int_magnitude_def Let_def scan_digits_value)
  then show ?thesis using strip_hex [OF assms(1)] c s by (simp add: py_int_def)
qed

lemma digits_base_hex: "b = 10 \<or> b = 16 \<Longrightarrow> list_all hex_char (digits_base b n)"
  using set_digits_base [of b n] digit_char_cases by (fastforce simp: list_all_iff)

lemma digits_base_ten: "list_all is_digit (digits_base 10 n)"
  using set_digits_base [of 10 n] digit_char_cases by (fastforce simp: list_all_iff)

lemma py_int_decimal: "0 \<le> v \<Longrightarrow> py_int 10 (py_str v) = Some v"
  using py_int_digits [OF digits_base_hex [of 10 "nat v"]] digits_value_digits_base [of 10 "nat v"]
  by (simp add: py_str_def)

lemma py_int_hex: "0 \<le> v \<Longrightarrow> py_int 16 (py_hex_pad w v) = Some v"
proof -
  assume v: "0 \<le> v"
  have "hex_char (CHR ''0'')" by (simp add: hex_char_def)
  then have "list_all hex_char (py_hex_pad w v)"
    using digits_base_hex [of 16 "nat v"] by (auto simp: py_hex_pad_def pad_zero_def py_hex_def list_all_iff)
  moreover have "py_hex_pad w v \<noteq> []" by (simp add: py_hex_pad_def pad_zero_def py_hex_def)
  ultimately have "py_int 16 (py_hex_pad w v) = map_option int (digits_value 16 0 (py_hex_pad w v))"
    by (intro py_int_digits) auto
  also have "digits_value 16 0 (py_hex_pad w v) = Some (nat v)"
    by (simp add: py_hex_pad_def pad_zero_def py_hex_def digits_value_zeros digits_value_digits_base)
  finally show ?thesis using v by simp
qed

definition word32 :: "int \<Rightarrow> bool" where
  "word32 v \<longleftrightarrow> 0 \<le> v \<and> v < 2 ^ 32"

lemma word32_mask [simp]: "word32 (v AND 0xFFFFFFFF)"
  by (simp add: word32_def and_mask32)

lemma mask_word32: "word32 v \<Longrightarrow> v AND 0xFFFFFFFF = v"
  by (simp add: word32_def and_mask32)

lemma format_constant_int:
  assumes "word32 v" and "t \<noteq> ''f32''"
  shows "format_constant (t, v) = digits_base 10 (nat v)"
  using assms by (simp add: format_constant_def mask_word32 py_str_def word32_def)

lemma format_constant_f32: "word32 v \<Longrightarrow> format_constant (''f32'', v) = ''0f'' @ py_hex_pad 8 v"
  by (simp add: format_constant_def mask_word32)

text \<open>What the pass writes is what the lowering reads.\<close>

lemma parse_format:
  assumes "word32 v"
  shows "parse_immediate (format_constant (t, v)) = Some v" "py_strip (format_constant (t, v)) = format_constant (t, v)"
    "CHR ''%'' \<notin> set (format_constant (t, v))"
proof -
  have v: "0 \<le> v" using assms by (simp add: word32_def)
  have z: "hex_char (CHR ''0'')" "hex_char (CHR ''f'')" by (simp_all add: hex_char_def)
  have hex: "list_all hex_char (format_constant (t, v))"
  proof (cases "t = ''f32''")
    case True
    then show ?thesis using format_constant_f32 [OF assms] z digits_base_hex [of 16 "nat v"]
      by (auto simp: py_hex_pad_def pad_zero_def py_hex_def list_all_iff)
  qed (simp add: format_constant_int [OF assms] digits_base_hex)
  then show strip: "py_strip (format_constant (t, v)) = format_constant (t, v)" by (rule strip_hex)
  show "CHR ''%'' \<notin> set (format_constant (t, v))"
    using hex hex_char_not by (auto simp: list_all_iff)
  show "parse_immediate (format_constant (t, v)) = Some v"
  proof (cases "t = ''f32''")
    case True
    then show ?thesis using strip by (simp add: parse_immediate_def format_constant_f32 [OF assms] py_int_hex v Let_def)
  next
    case False
    let ?s = "digits_base 10 (nat v)"
    have "\<not> is_digit (CHR ''f'')" "\<not> is_digit (CHR ''x'')" by (simp_all add: is_digit_def)
    then have "\<not> starts_with ?s ''0f''" "\<not> starts_with ?s ''0x''"
      using digits_base_ten [of "nat v"] by (auto simp: starts_with_iff)
    then show ?thesis using py_int_decimal [OF v] strip v
      by (simp add: parse_immediate_def format_constant_int [OF assms False] py_str_def Let_def)
  qed
qed

text \<open>The literals both read have one value.\<close>

lemma scan_stuck:
  assumes "char_digit c = None \<or> (\<exists>d. char_digit c = Some d \<and> b \<le> d)" and "c \<noteq> CHR ''_''"
  shows "scan_digits b ad acc (x # c # cs) = None"
  using assms by (auto split: option.splits)

lemma magnitude_zero_ten:
  assumes "int_magnitude 0 s = Some n" and "int_magnitude 10 s = Some m"
  shows "n = m"
proof -
  let ?p = "take 2 s"
  have "?p \<notin> {''0x'', ''0X'', ''0o'', ''0O'', ''0b'', ''0B''}"
  proof
    assume "?p \<in> {''0x'', ''0X'', ''0o'', ''0O'', ''0b'', ''0B''}"
    then obtain c cs where s: "s = CHR ''0'' # c # cs" and c: "c \<in> {CHR ''x'', CHR ''X'', CHR ''o'', CHR ''O'', CHR ''b'', CHR ''B''}"
      by (cases s; cases "tl s") auto
    have "scan_digits 10 False 0 s = None"
      unfolding s by (rule scan_stuck) (use c in \<open>auto simp: char_digit_def\<close>)
    then show False using assms(2) by (simp add: int_magnitude_def Let_def)
  qed
  then show ?thesis using assms by (auto simp: int_magnitude_def Let_def split: option.splits if_splits)
qed

lemma py_int_zero_ten: "py_int 0 s = Some a \<Longrightarrow> py_int 10 s = Some b \<Longrightarrow> a = b"
  by (auto simp: py_int_def dest: magnitude_zero_ten split: list.splits if_splits)

lemma py_int_zero_sixteen:
  assumes "starts_with (py_strip s) ''0x''"
  shows "py_int 0 s = py_int 16 s"
proof -
  obtain t where "py_strip s = CHR ''0'' # CHR ''x'' # t" using assms by (auto simp: starts_with_iff)
  then show ?thesis by (simp add: py_int_def int_magnitude_def Let_def)
qed

definition folds_type :: "string \<Rightarrow> bool" where
  "folds_type t \<longleftrightarrow> t = ''f32'' \<or> int32_type t"

lemma immediate_agrees:
  assumes "parse_immediate_constant op t = Some (t', v)" and "parse_immediate op = Some a"
  shows "t' = t \<and> v = a AND 0xFFFFFFFF \<and> folds_type t"
proof (cases "t = ''f32''")
  case True
  then show ?thesis using assms
    by (auto simp: parse_immediate_constant_def parse_immediate_def Let_def folds_type_def split: if_splits)
next
  case False
  let ?s = "py_strip op"
  have nf: "int32_type t" "\<not> starts_with ?s ''0f''" and z: "\<exists>b. py_int 0 ?s = Some b \<and> v = b AND 0xFFFFFFFF" "t' = t"
    using assms(1) False by (auto simp: parse_immediate_constant_def Let_def split: if_splits)
  show ?thesis
  proof (cases "starts_with ?s ''0x''")
    case True
    then show ?thesis using assms(2) nf z py_int_zero_sixteen [of ?s]
      by (auto simp: parse_immediate_def Let_def folds_type_def)
  next
    case ten: False
    then show ?thesis using assms(2) nf z py_int_zero_ten [of ?s]
      by (auto simp: parse_immediate_def Let_def folds_type_def)
  qed
qed

subsection \<open>Known constants\<close>

definition known_ok :: "known_constant dict \<Rightarrow> pstate \<Rightarrow> bool" where
  "known_ok c \<sigma> \<longleftrightarrow> (\<forall>r t v. map_of c r = Some (t, v) \<longrightarrow> folds_type t \<and> word32 v \<and> vregs \<sigma> r = v)"

lemma known_ok_Nil [simp]: "known_ok [] \<sigma>"
  by (simp add: known_ok_def)

lemma resolve_constant_value:
  assumes "resolve_constant op t c = Some (t', v)" and "known_ok c \<sigma>" and "operand_value \<sigma> op = Some a"
  shows "t' = t \<and> v = a \<and> word32 v \<and> folds_type t"
proof (cases "is_register_name (py_strip op)")
  case True
  have r: "resolve_constant op t c = (case map_of c (py_strip op) of None \<Rightarrow> None | Some known \<Rightarrow>
      if \<not> constant_type_matches (fst known) t then None else Some (t, coerce_constant_value (snd known) t))"
    using True by (simp add: resolve_constant_def Let_def)
  obtain kt w where k: "map_of c (py_strip op) = Some (kt, w)"
    using r assms(1) by (cases "map_of c (py_strip op)") auto
  with r assms(1) have "constant_type_matches kt t \<and> t' = t \<and> v = coerce_constant_value w t"
    by (cases "constant_type_matches kt t") simp_all
  with k have k: "map_of c (py_strip op) = Some (kt, w)" "constant_type_matches kt t"
    "t' = t" "v = coerce_constant_value w t" by simp_all
  then have w: "folds_type kt" "word32 w" "vregs \<sigma> (py_strip op) = w" using assms(2) by (auto simp: known_ok_def)
  then have "folds_type t" using k(2) by (auto simp: constant_type_matches_def folds_type_def split: if_splits)
  then show ?thesis using k w True assms(3)
    by (auto simp: operand_value_def coerce_constant_value_def folds_type_def mask_word32)
next
  case False
  then show ?thesis using assms immediate_agrees [of "py_strip op" t t' v]
    by (auto simp: resolve_constant_def operand_value_def parse_immediate_def Let_def)
qed

lemma operand_value_format:
  "word32 v \<Longrightarrow> operand_value \<sigma> (format_constant (t, v)) = Some v"
proof -
  assume v: "word32 v"
  have "\<not> is_register_name (format_constant (t, v))"
    using parse_format(3) [OF v, of t] by (auto simp: is_register_name_def split: list.splits)
  then show ?thesis using parse_format(1,2) [OF v, of t] mask_word32 [OF v] by (simp add: operand_value_def)
qed

text \<open>The special registers are neither registers nor literals of the pass.\<close>

lemma special_names:
  assumes "map_of (special_registers TRACK_B_V1) s = Some sel"
  shows "CHR ''%'' \<in> set s" "\<not> is_register_name s" "parse_immediate_constant s t = None"
proof -
  have s: "s \<in> set [''%tid'', ''%tid.x'', ''%ntid'', ''%ntid.x'', ''%ctaid'', ''%ctaid.x'', ''%nctaid'',
     ''%nctaid.x'', ''%laneid'', ''%warpid'', ''%tid.y'', ''%ntid.y'', ''%ctaid.y'', ''%nctaid.y'', ''%tid.z'',
     ''%ntid.z'', ''%ctaid.z'', ''%nctaid.z'']"
    using assms by (auto simp: TRACK_B_V1_def split: if_splits)
  then obtain u where u: "s = CHR ''%'' # u" "u \<noteq> []" "hd u \<in> set ''tncwl''" by auto
  then show "CHR ''%'' \<in> set s" by simp
  have "filter (starts_with u) reg_classes = []" using u by (cases u) (auto simp: reg_classes_def)
  then show "\<not> is_register_name s" by (simp add: is_register_name_def u reg_name_at_def)
  have "\<not> is_space (CHR ''%'')" "\<not> is_space (last s)" using s by (auto simp: is_space_def)
  then have w: "py_strip s = CHR ''%'' # u" using u by (simp add: py_strip_def lstrip_id rstrip_id)
  have "int_magnitude 0 (CHR ''%'' # u) = None"
    by (cases u) (auto simp: int_magnitude_def Let_def char_digit_def)
  moreover have "py_strip (CHR ''%'' # u) = CHR ''%'' # u" using w u(1) by simp
  ultimately have "py_int 0 (py_strip s) = None" by (simp add: w py_int_def)
  then show "parse_immediate_constant s t = None"
    by (simp add: parse_immediate_constant_def Let_def w)
qed

subsection \<open>Arithmetic\<close>

fun fold_op :: "string \<Rightarrow> binop" where
  "fold_op base = (if base = ''add'' then OpAdd else if base = ''sub'' then OpSub else OpMul)"

lemma evaluate_u32_sim:
  "base \<in> {''add'', ''sub'', ''mul''} \<Longrightarrow>
   evaluate_u32 base a b = result_option (binary_result h ''u32'' (fold_op base) a b)"
  by (auto simp: evaluate_u32_def)

lemma evaluate_f32_sim:
  "base \<in> {''add'', ''mul''} \<Longrightarrow> evaluate_f32 h base a b = Some v \<Longrightarrow>
   result_option (binary_result h ''f32'' (fold_op base) a b) = Some v"
  by (auto simp: evaluate_f32_def Let_def pack_f32_def option_r_def result_option_def
      split: if_splits option.splits)

lemma evaluate_range:
  "evaluate_u32 base a b = Some v \<Longrightarrow> word32 v"
  "evaluate_f32 h base a b = Some v \<Longrightarrow> word32 v"
  by (auto simp: evaluate_u32_def evaluate_f32_def Let_def word32_def split: if_splits option.splits
      dest: f32_to_bits_range)

subsection \<open>One instruction\<close>

lemma fold_boundary:
  assumes "\<not> is_constant_fold_boundary i"
  obtains (mov) t d a where "guard i = None" "opcode_parts (inst_opcode i) = [''mov'', t]" "operands i = [d, a]"
    | (arith) base t d a b where "guard i = None" "base \<in> {''add'', ''sub'', ''mul''}"
        "opcode_parts (inst_opcode i) = [base, t]" "operands i = [d, a, b]"
proof -
  obtain base ps where p: "opcode_parts (inst_opcode i) = base # ps"
    by (cases "opcode_parts (inst_opcode i)") auto
  have n: "guard i = None" "base \<in> {''add'', ''mov'', ''mul'', ''sub''}"
    using assms p by (auto simp: is_constant_fold_boundary_def local_constant_fold_base_def Let_def split: if_splits)
  show thesis
  proof (cases "base = ''mov''")
    case True
    then have "length ps = 1" "length (operands i) = 2"
      using assms p by (auto simp: is_constant_fold_boundary_def Let_def split: if_splits)
    then show ?thesis using mov n(1) p True by (auto simp: length_Suc_conv numeral_2_eq_2)
  next
    case False
    then have "length ps = 1" "length (operands i) = 3"
      using assms p n(2) by (auto simp: is_constant_fold_boundary_def Let_def split: if_splits)
    then show ?thesis using arith [of base] n p False by (auto simp: length_Suc_conv numeral_3_eq_3)
  qed
qed

lemma mov_parts: "opcode_parts (''mov.u32'') = [''mov'', ''u32'']" "opcode_parts (''mov.f32'') = [''mov'', ''f32'']"
  by (simp_all add: opcode_parts_def)

text \<open>A move of a formatted constant.\<close>

lemma mov_constant_effect:
  assumes "opcode_parts (inst_opcode i) = [''mov'', t]" "operands i = [d, format_constant (t', v)]"
    and "guard i = None" "is_register_name (py_strip d)" "word32 v"
  shows "step_effect E i \<sigma> = Some (SetReg (py_strip d) v (vmem \<sigma>))"
proof -
  have "map_of (special_registers TRACK_B_V1) (py_strip (format_constant (t', v))) = None"
    using special_names(1) parse_format(2,3) [OF assms(5), of t'] by fastforce
  then have "mov_value \<sigma> (format_constant (t', v)) = Some v"
    using operand_value_format [OF assms(5)] by (simp add: mov_value_def)
  then show ?thesis using assms
    by (simp add: step_effect_def guard_holds_def inst_effect_def set_dest_def register_dest_def Let_def
        del: opcode_base_hd)
qed

lemma mov_value_operand:
  assumes "resolve_constant op t c = Some k" "mov_value \<sigma> op = Some a"
  shows "operand_value \<sigma> op = Some a"
proof (cases "map_of (special_registers TRACK_B_V1) (py_strip op)")
  case (Some sel)
  then have "resolve_constant op t c = None"
    using special_names(2,3) by (simp add: resolve_constant_def Let_def)
  then show ?thesis using assms(1) by simp
qed (use assms(2) in \<open>simp add: mov_value_def\<close>)

lemma folded_destination_register:
  assumes "\<not> is_constant_fold_boundary i" "step_effect E i \<sigma> = Some e"
  shows "\<exists>d v. e = SetReg d v (vmem \<sigma>) \<and> destination_register i = Some d \<and>
    is_register_name d \<and> d = py_strip (hd (operands i)) \<and> guard i = None"
proof -
  have b: "pure_result_base (opcode_base (inst_opcode i)) \<and> guard i = None"
    using assms(1)
  proof (cases rule: fold_boundary)
    case (mov t d a)
    have "opcode_base (inst_opcode i) = hd (opcode_parts (inst_opcode i))" by simp
    also have "\<dots> = ''mov''" using mov by (simp del: opcode_base_hd)
    finally show ?thesis
      using mov by (simp_all add: pure_result_base_def PURE_RESULT_OPERAND_COUNTS_def)
  next
    case (arith base t d a b)
    have "opcode_base (inst_opcode i) = hd (opcode_parts (inst_opcode i))" by simp
    also have "\<dots> = base" using arith by (simp del: opcode_base_hd)
    finally show ?thesis
      using arith by (auto simp: pure_result_base_def PURE_RESULT_OPERAND_COUNTS_def)
  qed
  then show ?thesis using pure_effect [OF assms(2) conjunct2 [OF b] conjunct1 [OF b]]
    using b by (auto simp: destination_register_def destination_base_def)
qed

lemma mov_effect_value:
  assumes "opcode_parts (inst_opcode i) = [''mov'', t]" "operands i = [d, a]" "guard i = None"
    and "step_effect E i \<sigma> = Some (SetReg r v s)"
  shows "mov_value \<sigma> a = Some v"
  using assms
  by (auto simp: step_effect_def guard_holds_def inst_effect_def Let_def simp del: opcode_base_hd dest!: set_dest_Some)

lemma arith_effect_value:
  assumes "opcode_parts (inst_opcode i) = [base, t]" "operands i = [d, a, b]" "guard i = None"
    and "base \<in> {''add'', ''sub'', ''mul''}" and "step_effect E i \<sigma> = Some (SetReg r v s)"
  shows "\<exists>x y. operand_value \<sigma> a = Some x \<and> operand_value \<sigma> b = Some y \<and>
     result_option (binary_result (env_host E) (aec_type t) (fold_op base) x y) = Some v"
  using assms(4) assms(1-3,5)
  by (auto simp: step_effect_def guard_holds_def inst_effect_def Let_def operand_values_def alu_value_def
      bind_eq_Some_conv simp del: opcode_base_hd binary_result.simps split: if_splits option.splits dest!: set_dest_Some)

lemma fold_mov:
  assumes i: "opcode_parts (inst_opcode i) = [''mov'', t]" "operands i = [d, a]" "guard i = None"
    and k: "known_ok c \<sigma>" and e: "step_effect E i \<sigma> = Some (SetReg r v (vmem \<sigma>))"
    and r: "r = py_strip d" "is_register_name r" and f: "resolve_constant a t c = Some kn"
  shows "step_effect E (i\<lparr>operands := [r, format_constant kn]\<rparr>) \<sigma> = Some (SetReg r v (vmem \<sigma>)) \<and>
    folds_type (fst kn) \<and> snd kn = v \<and> word32 v"
proof -
  have "mov_value \<sigma> a = Some v" using mov_effect_value [OF i e] .
  then have "operand_value \<sigma> a = Some v" by (rule mov_value_operand [OF f])
  then have v: "snd kn = v" "word32 v" "folds_type (fst kn)"
    using resolve_constant_value [of a t c "fst kn" "snd kn" \<sigma> v] f k by auto
  show ?thesis
    using v r mov_constant_effect [of "i\<lparr>operands := [r, format_constant kn]\<rparr>" t r "fst kn" v E \<sigma>] i by auto
qed

definition arith_result :: "float_host \<Rightarrow> string \<Rightarrow> string \<Rightarrow> known_constant \<Rightarrow> known_constant
    \<Rightarrow> known_constant option" where
  "arith_result h base t lhs rhs =
     (if t = ''u32'' \<and> base \<in> set [''add'', ''sub'', ''mul''] then
        map_option (\<lambda>v. (''u32'', v)) (evaluate_u32 base (snd lhs) (snd rhs))
      else if t = ''f32'' \<and> base \<in> set [''add'', ''mul''] then
        map_option (\<lambda>v. (''f32'', v)) (evaluate_f32 h base (snd lhs) (snd rhs))
      else None)"

lemma fold_arith_eq:
  assumes i: "opcode_parts (inst_opcode i) = [base, t]" "operands i = [d, a, b]" "base \<noteq> ''mov''"
    and r: "destination_register i = Some r" "\<not> starts_with r ''%p''"
  shows "fold_local_constant_instruction h i c = (case (resolve_constant a t c, resolve_constant b t c) of
      (Some lhs, Some rhs) \<Rightarrow> (case arith_result h base t lhs rhs of
         None \<Rightarrow> (i, None)
       | Some known \<Rightarrow> (i\<lparr>inst_opcode := ''mov.'' @ fst known, operands := [r, format_constant known]\<rparr>, Some known))
    | _ \<Rightarrow> (i, None))"
proof -
  have n: "[d, a, b] ! 1 = a" "[d, a, b] ! 2 = b" "hd [base, t] = base" "last [base, t] = t" by simp_all
  show ?thesis
    unfolding fold_local_constant_instruction_def Let_def i(1,2) r(1) n option.case arith_result_def
    using i(3) r(2) by (simp only: if_False)
qed

lemma fold_arith:
  assumes i: "opcode_parts (inst_opcode i) = [base, t]" "operands i = [d, a, b]" "guard i = None"
    and base: "base \<in> {''add'', ''sub'', ''mul''}"
    and k: "known_ok c \<sigma>" and e: "step_effect E i \<sigma> = Some (SetReg r v (vmem \<sigma>))"
    and r: "r = py_strip d" "is_register_name r"
    and f: "resolve_constant a t c = Some x" "resolve_constant b t c = Some y"
    and kn: "arith_result (env_host E) base t x y = Some k'"
  shows "step_effect E (i\<lparr>inst_opcode := ''mov.'' @ fst k', operands := [r, format_constant k']\<rparr>) \<sigma> =
    Some (SetReg r v (vmem \<sigma>)) \<and> folds_type (fst k') \<and> snd k' = v \<and> word32 v"
proof -
  obtain xa ya where xy: "operand_value \<sigma> a = Some xa" "operand_value \<sigma> b = Some ya"
    "result_option (binary_result (env_host E) (aec_type t) (fold_op base) xa ya) = Some v"
    using arith_effect_value [OF i base e] by blast
  have s: "snd x = xa" "snd y = ya"
    using resolve_constant_value [of a t c "fst x" "snd x" \<sigma> xa]
      resolve_constant_value [of b t c "fst y" "snd y" \<sigma> ya] f k xy by auto
  have v: "snd k' = v \<and> word32 v \<and> fst k' \<in> {''u32'', ''f32''}"
  proof (cases "t = ''u32''")
    case True
    then have "evaluate_u32 base xa ya = Some v"
      using xy(3) evaluate_u32_sim [OF base] by (simp add: aec_type_def)
    then show ?thesis using True kn base s evaluate_range(1) by (auto simp: arith_result_def)
  next
    case False
    then obtain w where w: "t = ''f32''" "base \<in> {''add'', ''mul''}" "k' = (''f32'', w)"
      "evaluate_f32 (env_host E) base xa ya = Some w"
      using kn False s by (auto simp: arith_result_def split: if_splits)
    then have "w = v" using xy(3) evaluate_f32_sim [OF w(2,4)] by (simp add: aec_type_def)
    then show ?thesis using w evaluate_range(2) by auto
  qed
  then have "folds_type (fst k')" by (auto simp: folds_type_def int32_type_def)
  moreover have "format_constant k' = format_constant (fst k', v)" using v by (metis prod.collapse)
  then have "step_effect E (i\<lparr>inst_opcode := ''mov.'' @ fst k', operands := [r, format_constant k']\<rparr>) \<sigma> =
      Some (SetReg (py_strip r) v (vmem \<sigma>))"
    by (intro mov_constant_effect [of _ "fst k'" r "fst k'"])
      (use v mov_parts i r in auto)
  ultimately show ?thesis using v r by simp
qed

lemma fold_instruction:
  assumes nb: "\<not> is_constant_fold_boundary i" and k: "known_ok c \<sigma>"
    and e: "step_effect E i \<sigma> = Some e"
    and f: "fold_local_constant_instruction (env_host E) i c = (j, kn)"
  shows "step_effect E j \<sigma> = Some e \<and> (\<exists>d v. destination_register i = Some d \<and> e = SetReg d v (vmem \<sigma>) \<and>
     (\<forall>k'. kn = Some k' \<longrightarrow> folds_type (fst k') \<and> snd k' = v \<and> word32 v))"
proof -
  obtain r v where r: "e = SetReg r v (vmem \<sigma>)" "destination_register i = Some r"
    "is_register_name r" "r = py_strip (hd (operands i))" "guard i = None"
    using folded_destination_register [OF nb e] by blast
  have same: ?thesis if "(j, kn) = (i, None)" using that r e by simp
  show ?thesis
  proof (cases "starts_with r ''%p''")
    case True
    then show ?thesis using f r same by (simp add: fold_local_constant_instruction_def Let_def)
  next
    case np: False
    show ?thesis using nb
    proof (cases rule: fold_boundary)
      case (mov t d a)
      then have fm: "(case resolve_constant a t c of None \<Rightarrow> (i, None)
          | Some known \<Rightarrow> (i\<lparr>operands := [r, format_constant known]\<rparr>, Some known)) = (j, kn)"
        using f np r by (auto simp add: fold_local_constant_instruction_def Let_def
            simp del: opcode_base_hd split: option.splits)
      show ?thesis
      proof (cases "resolve_constant a t c")
        case (Some known)
        then show ?thesis
          using fold_mov [OF mov(2,3,1) k _ _ r(3) Some, of E v] fm e r mov(3) by auto
      qed (use fm same in simp)
    next
      case (arith base t d a b)
      then have nm: "base \<noteq> ''mov''" by auto
      note eq = fold_arith_eq [OF arith(3,4) nm r(2) np, of "env_host E" c, unfolded f]
      show ?thesis
      proof (cases "\<exists>x y k'. resolve_constant a t c = Some x \<and> resolve_constant b t c = Some y \<and>
          arith_result (env_host E) base t x y = Some k'")
        case False
        then have "(j, kn) = (i, None)" using eq by (auto split: option.splits)
        then show ?thesis by (rule same)
      next
        case True
        then obtain x y k' where xy: "resolve_constant a t c = Some x" "resolve_constant b t c = Some y"
          "arith_result (env_host E) base t x y = Some k'" by blast
        then have "j = i\<lparr>inst_opcode := ''mov.'' @ fst k', operands := [r, format_constant k']\<rparr> \<and> kn = Some k'"
          using eq by simp
        then show ?thesis
          using fold_arith [OF arith(3,4,1,2) k _ _ r(3) xy] e r arith(4) by simp
      qed
    qed
  qed
qed

subsection \<open>The pass\<close>

text \<open>The items with the constants known in front of them; nothing is known at a label.\<close>

fun lcf_annot :: "float_host \<Rightarrow> known_constant dict \<Rightarrow> item list \<Rightarrow> (known_constant dict \<times> item) list" where
  "lcf_annot h c [] = []"
| "lcf_annot h c (it # its) =
     ((case it of Label _ \<Rightarrow> [] | Inst _ \<Rightarrow> c), it) # lcf_annot h (snd (lcf_item h c it)) its"

abbreviation lcf_tr :: "float_host \<Rightarrow> known_constant dict \<times> item \<Rightarrow> item list" where
  "lcf_tr h x \<equiv> [fst (lcf_item h (fst x) (snd x))]"

lemma lcf_annot_items: "map snd (lcf_annot h c its) = its"
  by (induction its arbitrary: c) auto

lemma lcf_annot_result:
  "map (\<lambda>x. fst (lcf_item h (fst x) (snd x))) (lcf_annot h c its) = lcf_items h c its"
  by (induction its arbitrary: c) (auto simp: lcf_item_def split: item.splits prod.splits)

text \<open>The constants in front of an item are those behind the item before it, or none.\<close>

lemma lcf_annot_next:
  "lcf_annot h c its = pre @ (a, it) # (b, it') # ys \<Longrightarrow> b = [] \<or> b = snd (lcf_item h a it)"
proof (induction its arbitrary: c pre)
  case (Cons x its)
  show ?case
  proof (cases pre)
    case Nil
    then have "its \<noteq> []" using Cons.prems by auto
    then show ?thesis using Cons.prems Nil
      by (cases its) (auto simp: lcf_item_def split: item.splits)
  next
    case (Cons y pre')
    then show ?thesis using Cons.IH Cons.prems by auto
  qed
qed simp

lemma lcf_annot_label: "(b, Label l) \<in> set (lcf_annot h c its) \<Longrightarrow> b = []"
  by (induction its arbitrary: c) (auto split: item.splits)

definition lcf_rel :: "known_constant dict \<Rightarrow> pstate \<Rightarrow> pstate \<Rightarrow> bool" where
  "lcf_rel c \<sigma> \<tau> \<longleftrightarrow> \<sigma> = \<tau> \<and> known_ok c \<sigma>"

lemma known_ok_update:
  assumes "known_ok c \<sigma>" and "\<And>k. kn = Some k \<Longrightarrow> folds_type (fst k) \<and> snd k = v \<and> word32 v"
  shows "known_ok (case kn of None \<Rightarrow> AList.delete d c | Some k \<Rightarrow> AList.update d k c) (set_reg_v \<sigma> d v s)"
proof (cases kn)
  case None
  then show ?thesis using assms(1)
    by (auto simp: known_ok_def set_reg_v_def delete_conv split: if_splits)
next
  case (Some k)
  then show ?thesis using assms
    by (auto simp: known_ok_def set_reg_v_def update_conv split: if_splits)
qed

text \<open>One item: its replacement has the same effect and the constants behind it hold.\<close>

lemma lcf_item_effect:
  assumes "known_ok c \<sigma>" and "step_effect E i \<sigma> = Some e"
  shows "\<exists>j. fst (lcf_item (env_host E) c (Inst i)) = Inst j \<and> step_effect E j \<sigma> = Some e \<and>
    known_ok (snd (lcf_item (env_host E) c (Inst i))) (next_state e \<sigma>)"
proof (cases "is_constant_fold_boundary i")
  case True
  then show ?thesis using assms(2) by (simp add: lcf_item_def)
next
  case False
  obtain j kn where f: "fold_local_constant_instruction (env_host E) i c = (j, kn)" by fastforce
  obtain d v where d: "destination_register i = Some d" "e = SetReg d v (vmem \<sigma>)"
    "step_effect E j \<sigma> = Some e"
    "\<And>k. kn = Some k \<Longrightarrow> folds_type (fst k) \<and> snd k = v \<and> word32 v"
    using fold_instruction [OF False assms f] by blast
  then show ?thesis using False f known_ok_update [OF assms(1), of kn v d "vmem \<sigma>"] d(4)
    by (simp add: lcf_item_def)
qed

lemma lcf_at_head:
  assumes "lcf_annot h c its = pre @ (a, it) # ys" and "known_ok (snd (lcf_item h a it)) \<sigma>"
  shows "at_head lcf_rel ys \<sigma> \<sigma>"
proof (cases ys)
  case (Cons y zs)
  obtain b it' where "y = (b, it')" by fastforce
  then show ?thesis using lcf_annot_next assms Cons by (fastforce simp: at_head_def lcf_rel_def)
qed (simp add: at_head_def)

interpretation lcf: pass_sim E "lcf_annot (env_host E) [] (items p)" "lcf_tr (env_host E)" lcf_rel "(=)" for E p
proof (unfold_locales, goal_cases)
  case (1 a l)
  then show ?case by (simp add: lcf_item_def)
next
  case (2 a i)
  then show ?case by (simp add: lcf_item_def split: prod.splits)
next
  case (3 pre a l ys \<sigma> \<tau>)
  then show ?case using lcf_at_head [OF 3(1), of \<sigma>] by (simp add: lcf_rel_def lcf_item_def)
next
  case (4 pre a i ys \<sigma> \<tau> e)
  then show ?case by simp
next
  case (5 pre a i ys \<sigma> \<tau> j e)
  have s: "\<sigma> = \<tau>" "known_ok a \<sigma>" using 5(2) unfolding lcf_rel_def by blast+
  obtain j' where "fst (lcf_item (env_host E) a (Inst i)) = Inst j'" "step_effect E j' \<sigma> = Some e"
    "known_ok (snd (lcf_item (env_host E) a (Inst i))) (next_state e \<sigma>)"
    using lcf_item_effect [OF s(2) 5(4)] by blast
  then show ?case using 5(3,5) s(1) lcf_at_head [OF 5(1)] by auto
next
  case (6 a i \<sigma> \<tau> e)
  then show ?case using lcf_item_effect [of a \<sigma> E i e] by (auto simp: lcf_rel_def)
next
  case (7 a i \<sigma> \<tau> l b)
  then show ?case using lcf_annot_label [OF 7(4)] by (simp add: lcf_rel_def)
qed (simp add: lcf_rel_def)

lemma lcf_program: "mod_program (fst (lcf_run h m)) =
  rebuild_program (mod_program m) (lcf_items h [] (items (mod_program m)))"
proof (cases "concat (map folded_destination (zip (items (mod_program m)) (lcf_items h [] (items (mod_program m))))) = []")
  case True
  have "lcf_items h c its = its" if "\<forall>x \<in> set (zip its (lcf_items h c its)). folded_destination x = []" for c its
    using that
  proof (induction its arbitrary: c)
    case (Cons it its)
    then show ?case
      by (cases it) (auto simp: lcf_item_def folded_destination_def split: prod.splits if_splits)
  qed simp
  then have "lcf_items h [] (items (mod_program m)) = items (mod_program m)" using True by simp
  then show ?thesis using True by (simp add: lcf_run_def Let_def rebuild_program_def)
qed (auto simp add: lcf_run_def Let_def rewritten_def)

lemma lcf_same_run:
  assumes "run_program E (mod_program m) n \<sigma> = Some \<sigma>'"
  shows "run_program E (mod_program (fst (lcf_run (env_host E) m))) n \<sigma> = Some \<sigma>'"
proof -
  have "at_head lcf_rel (lcf_annot (env_host E) [] (items (mod_program m))) \<sigma> \<sigma>"
    by (cases "items (mod_program m)") (auto simp: at_head_def lcf_rel_def split: item.splits)
  from lcf.run_preserved [OF this, of n \<sigma>'] show ?thesis
    using assms by (simp add: run_program_def lcf_program lcf_annot_items lcf_annot_result rebuild_program_def)
qed

end
