(* ===== verification/Pass_Proofs.thy ===== *)
theory Pass_Proofs
  imports Dead_Proofs Const_Fold Sim_Inv
begin

text \<open>
  What the scalar passes promise, over the reference semantics: a program that runs to its end
  still does after dead result elimination, global dead code elimination and constant folding, and
  leaves the same memory. The small kernel at the end is the concrete input of the witnesses.
\<close>

subsection \<open>A small kernel\<close>

definition plain_inst :: "string \<Rightarrow> string list \<Rightarrow> item" where
  "plain_inst op ops = Inst \<lparr>inst_opcode = op, operands = ops, guard = None, guard_negated = False,
     source_line = 0\<rparr>"

definition demo_ptx :: PTXProgram where
  "demo_ptx = \<lparr>kernel_name = ''k'', parameters = [\<lparr>param_name = ''A'', param_dtype = ''u64''\<rparr>],
     reg_decls = [], items =
       [plain_inst ''mov.u32'' [''%r1'', ''5''],
        plain_inst ''mov.u32'' [''%r9'', ''1''],
        plain_inst ''add.u32'' [''%r8'', ''%r9'', ''2''],
        plain_inst ''add.u32'' [''%r2'', ''%r1'', ''3''],
        plain_inst ''ld.param.u64'' [''%rd1'', ''[A]''],
        plain_inst ''st.global.u32'' [''[%rd1]'', ''%r2''],
        plain_inst ''ret'' []]\<rparr>"

definition demo_module :: ir_module where
  "demo_module = module_from_program [] demo_ptx"

definition demo_env :: ptx_env where
  "demo_env = \<lparr>env_host = demo_host, env_params = [(''A'', 0)]\<rparr>"

definition demo_start :: pstate where
  "demo_start = \<lparr>vregs = (\<lambda>_. 0), vpreds = (\<lambda>_. False), vlane = new_lane 0 0 (1, 1, 1) (1, 1, 1) 1,
     vmem = new_sim_state (replicate 8 0) (replicate 4 0)\<rparr>"

lemma demo_program [simp]: "mod_program demo_module = demo_ptx"
  by (simp add: demo_module_def module_from_program_def)

definition final_word :: "pstate option \<Rightarrow> byte list option" where
  "final_word r = map_option (\<lambda>\<sigma>. gmem (vmem \<sigma>)) r"

lemma demo_runs: "final_word (run_program demo_env demo_ptx 8 demo_start) = Some [8, 0, 0, 0]"
  by code_simp

lemma demo_reaches: "\<exists>\<sigma>. run_program demo_env demo_ptx 8 demo_start = Some \<sigma> \<and> gmem (vmem \<sigma>) = [8, 0, 0, 0]"
  using demo_runs by (cases "run_program demo_env demo_ptx 8 demo_start") (auto simp: final_word_def)

subsection \<open>The passes\<close>

text \<open>
  C21. Dead result elimination keeps the behaviour: whatever the original program does
  from a state within a number of steps, ending normally, the rewritten one does too, from the same
  state, with the same memory (contents and log of accesses), the same predicates and the same value
  in every register some instruction reads.
\<close>

theorem dre_preserves:
  assumes "run_program E (mod_program m) n \<sigma> = Some \<sigma>'"
  shows "\<exists>\<tau>'. run_program E (mod_program (fst (dre_run m))) n \<sigma> = Some \<tau>' \<and> vmem \<tau>' = vmem \<sigma>' \<and>
    vpreds \<tau>' = vpreds \<sigma>' \<and> (\<forall>r. is_read_register (mod_program m) r \<longrightarrow> vregs \<tau>' r = vregs \<sigma>' r)"
  using dre_agree [OF assms] by (fastforce simp: agree_def)

theorem dre_preserves_witness:
  "final_word (run_program demo_env (mod_program (fst (dre_run demo_module))) 8 demo_start) = Some [8, 0, 0, 0] \<and>
   length (items (mod_program (fst (dre_run demo_module)))) = 6"
proof
  obtain \<sigma> where "run_program demo_env (mod_program demo_module) 8 demo_start = Some \<sigma>"
    "gmem (vmem \<sigma>) = [8, 0, 0, 0]" using demo_reaches by auto
  with dre_preserves [OF this(1)]
  show "final_word (run_program demo_env (mod_program (fst (dre_run demo_module))) 8 demo_start) = Some [8, 0, 0, 0]"
    by (auto simp: final_word_def)
  show "length (items (mod_program (fst (dre_run demo_module)))) = 6"
    by code_simp
qed

lemma gdce_reads:
  assumes "is_read_register (mod_program (fst (gdce_run m))) r"
  shows "r \<in> live_reads (mod_program m)"
proof -
  let ?p = "mod_program m"
  obtain i where "Inst i \<in> set (gdce_items ?p)" and r: "r \<in> set (instruction_read_registers i)"
    using assms unfolding is_read_register_def read_register_count_def gdce_program items_rebuild
    by (fastforce simp: filter_empty_conv split: item.splits)
  then obtain k where k: "(k, Inst i) \<in> set (enumerate 0 (items ?p))" "k \<notin> set (dead_indices ?p)"
    unfolding gdce_items_def by force
  then have mem: "(k, i) \<in> set (indexed_instructions ?p)" by (simp only: indexed_instructions_iff)
  then have "k \<in> set (live_indices ?p)" using k(2) by (force simp: dead_indices_def)
  then show ?thesis using mem r unfolding live_reads_def by blast
qed

text \<open>
  C22. Global dead code elimination keeps the behaviour in the same sense, and its
  registers too are right wherever a kept instruction reads them.
\<close>

theorem gdce_preserves:
  assumes "run_program E (mod_program m) n \<sigma> = Some \<sigma>'"
  shows "\<exists>\<tau>'. run_program E (mod_program (fst (gdce_run m))) n \<sigma> = Some \<tau>' \<and> vmem \<tau>' = vmem \<sigma>' \<and>
    vpreds \<tau>' = vpreds \<sigma>' \<and>
    (\<forall>r. is_read_register (mod_program (fst (gdce_run m))) r \<longrightarrow> vregs \<tau>' r = vregs \<sigma>' r)"
proof -
  have "r \<in> live_reads (mod_program m)" if "is_read_register (mod_program (fst (gdce_run m))) r" for r
    using that by (rule gdce_reads)
  then show ?thesis using gdce_agree [OF assms] by (fastforce simp: agree_def)
qed

theorem gdce_preserves_witness:
  "final_word (run_program demo_env (mod_program (fst (gdce_run demo_module))) 8 demo_start) = Some [8, 0, 0, 0] \<and>
   length (items (mod_program (fst (gdce_run demo_module)))) = 5"
proof
  obtain \<sigma> where "run_program demo_env (mod_program demo_module) 8 demo_start = Some \<sigma>"
    "gmem (vmem \<sigma>) = [8, 0, 0, 0]" using demo_reaches by auto
  with gdce_preserves [OF this(1)]
  show "final_word (run_program demo_env (mod_program (fst (gdce_run demo_module))) 8 demo_start) = Some [8, 0, 0, 0]"
    by (auto simp: final_word_def)
  show "length (items (mod_program (fst (gdce_run demo_module)))) = 5"
    by code_simp
qed

text \<open>
  C23. Local constant folding does not change a run at all: from the same state, within
  the same number of steps, the folded program ends in exactly the same state, all registers
  included, when the floating-point arithmetic of the compiler is that of the machine.
\<close>

theorem lcf_preserves:
  assumes "run_program E (mod_program m) n \<sigma> = Some \<sigma>'"
  shows "run_program E (mod_program (fst (lcf_run (env_host E) m))) n \<sigma> = Some \<sigma>'"
  using assms by (rule lcf_same_run)

theorem lcf_preserves_witness:
  "final_word (run_program demo_env (mod_program (fst (lcf_run demo_host demo_module))) 8 demo_start) = Some [8, 0, 0, 0] \<and>
   items (mod_program (fst (lcf_run demo_host demo_module))) ! 3 = plain_inst ''mov.u32'' [''%r2'', ''8'']"
proof
  obtain \<sigma> where s: "run_program demo_env (mod_program demo_module) 8 demo_start = Some \<sigma>"
    "gmem (vmem \<sigma>) = [8, 0, 0, 0]" using demo_reaches by auto
  have h: "env_host demo_env = demo_host" by (simp add: demo_env_def)
  show "final_word (run_program demo_env (mod_program (fst (lcf_run demo_host demo_module))) 8 demo_start) = Some [8, 0, 0, 0]"
    using lcf_preserves [OF s(1)] s(2) unfolding h by (simp add: final_word_def)
  show "items (mod_program (fst (lcf_run demo_host demo_module))) ! 3 = plain_inst ''mov.u32'' [''%r2'', ''8'']"
    by code_simp
qed

text \<open>
  C35. Folding computes what the simulator would: where the folder evaluates an
  addition, subtraction or multiplication of two words, the simulator's arithmetic on the same
  words gives the same word, for u32 and for f32, and the text the constant is printed as is read
  back by the lowering as that word.
\<close>

theorem folding_is_execution:
  "(evaluate_u32 base a b = Some v \<longrightarrow>
      binary_result h ''u32'' (fold_op base) a b = Inr v \<and> parse_immediate (format_constant (''u32'', v)) = Some v) \<and>
   (evaluate_f32 h base a b = Some v \<longrightarrow>
      binary_result h ''f32'' (fold_op base) a b = Inr v \<and> parse_immediate (format_constant (''f32'', v)) = Some v)"
proof (intro conjI impI)
  assume "evaluate_u32 base a b = Some v"
  moreover from this have "base \<in> {''add'', ''sub'', ''mul''}" by (auto simp: evaluate_u32_def split: if_splits)
  ultimately show "binary_result h ''u32'' (fold_op base) a b = Inr v"
    by (auto simp: evaluate_u32_def simp del: binary_result.simps simp: binary_result.simps)
next
  assume f: "evaluate_f32 h base a b = Some v"
  then have "base \<in> {''add'', ''mul''}" by (auto simp: evaluate_f32_def Let_def split: if_splits)
  from evaluate_f32_sim [OF this f] show "binary_result h ''f32'' (fold_op base) a b = Inr v"
    by (simp add: result_option_def del: binary_result.simps fold_op.simps split: sum.splits)
qed (simp_all add: parse_format evaluate_range)

theorem folding_is_execution_witness:
  "evaluate_u32 ''add'' 0xFFFFFFFF 2 = Some 1 \<and> binary_result demo_host ''u32'' OpAdd 0xFFFFFFFF 2 = Inr 1 \<and>
   parse_immediate (format_constant (''u32'', 1)) = Some 1"
proof -
  have "evaluate_u32 ''add'' 0xFFFFFFFF 2 = Some 1" by (simp add: evaluate_u32_def and_mask32)
  with folding_is_execution [of "''add''" "0xFFFFFFFF" 2 1 demo_host] show ?thesis by simp
qed

end
