(* ===== verification/Pass_Limits.thy ===== *)
theory Pass_Limits
  imports Pass_Proofs
begin

text \<open>
  Programs on which a scalar pass changes the result. Each theorem runs the program and its
  rewriting on the reference semantics from the same state and compares the final memory.
\<close>

definition guarded_inst :: "string \<Rightarrow> string \<Rightarrow> string list \<Rightarrow> item" where
  "guarded_inst p op ops = Inst \<lparr>inst_opcode = op, operands = ops, guard = Some p, guard_negated = False,
     source_line = 0\<rparr>"

definition module_of :: "item list \<Rightarrow> ir_module" where
  "module_of its = module_from_program [] (demo_ptx\<lparr>items := its\<rparr>)"

definition stores_back :: "string \<Rightarrow> item list" where
  "stores_back r = [plain_inst ''ld.param.u64'' [''%rd1'', ''[A]''],
     plain_inst ''st.global.u32'' [''[%rd1]'', r], plain_inst ''ret'' []]"

text \<open>The word the kernel leaves in global memory.\<close>

definition stored :: "ir_module \<Rightarrow> byte list option" where
  "stored m = final_word (run_program demo_env (mod_program m) 40 demo_start)"

subsection \<open>Common subexpressions\<close>

definition self_reference :: ir_module where
  "self_reference = module_of
     ([plain_inst ''mov.u32'' [''%r1'', ''5''],
       plain_inst ''add.u32'' [''%r1'', ''%r1'', ''1''],
       plain_inst ''add.u32'' [''%r2'', ''%r1'', ''1''],
       plain_inst ''add.u32'' [''%r3'', ''%r2'', ''0'']] @ stores_back ''%r3'')"

definition loop_carried :: ir_module where
  "loop_carried = module_of
     ([plain_inst ''mov.u32'' [''%r2'', ''0''], plain_inst ''mov.u32'' [''%r4'', ''0''],
       plain_inst ''mov.u32'' [''%r5'', ''0''], Label ''L'',
       plain_inst ''add.u32'' [''%r3'', ''%r2'', ''0''],
       plain_inst ''add.u32'' [''%r1'', ''%r4'', ''7''],
       plain_inst ''add.u32'' [''%r2'', ''%r4'', ''7''],
       plain_inst ''add.u32'' [''%r5'', ''%r5'', ''1''],
       plain_inst ''setp.lt.u32'' [''%p1'', ''%r5'', ''2''],
       guarded_inst ''p1'' ''bra'' [''L'']] @ stores_back ''%r3'')"

text \<open>
  Common subexpression elimination records an expression under the operands it
  had before its own result overwrote one of them: after \<^verbatim>\<open>add r1, r1, 1\<close> it takes \<^verbatim>\<open>add r2, r1, 1\<close>
  for the same value and drops it, so the kernel stores 6 in place of 7. It also drops a
  definition that the next iteration of a loop reads, because that read is inside the same scope:
  there the kernel stores 0 in place of 7.
\<close>

theorem cse_self_reference:
  "stored self_reference = Some [7, 0, 0, 0] \<and> stored (fst (cse_run self_reference)) = Some [6, 0, 0, 0] \<and>
   stored loop_carried = Some [7, 0, 0, 0] \<and> stored (fst (cse_run loop_carried)) = Some [0, 0, 0, 0]"
proof -
  have "stored self_reference = Some [7, 0, 0, 0]" by code_simp
  moreover have "stored (fst (cse_run self_reference)) = Some [6, 0, 0, 0]" by code_simp
  moreover have "stored loop_carried = Some [7, 0, 0, 0]" by code_simp
  moreover have "stored (fst (cse_run loop_carried)) = Some [0, 0, 0, 0]" by code_simp
  ultimately show ?thesis by blast
qed

subsection \<open>Repeated loads\<close>

definition stale_load :: ir_module where
  "stale_load = module_of
     ([plain_inst ''ld.param.u64'' [''%rd1'', ''[A]''],
       plain_inst ''ld.global.u32'' [''%r1'', ''[%rd1]''],
       plain_inst ''mov.u32'' [''%r1'', ''9''],
       plain_inst ''ld.global.u32'' [''%r2'', ''[%rd1]'']] @ stores_back ''%r2'')"

text \<open>
  Load reuse keeps a cached load after the register that holds the loaded value
  is overwritten: the second load of the same word becomes a copy of the overwritten register, and
  the kernel stores 9 in place of the word it loaded.
\<close>

theorem load_reuse_stale:
  "stored stale_load = Some [0, 0, 0, 0] \<and>
   (case load_reuse_run stale_load of Inl _ \<Rightarrow> False | Inr (m, _) \<Rightarrow> stored m = Some [9, 0, 0, 0])"
proof
  show "stored stale_load = Some [0, 0, 0, 0]" by code_simp
  show "case load_reuse_run stale_load of Inl _ \<Rightarrow> False | Inr (m, _) \<Rightarrow> stored m = Some [9, 0, 0, 0]"
    by code_simp
qed

end
