(* ===== verification/Global_CP.thy ===== *)
theory Global_CP
  imports Local_Scalar
begin

unbundle bit_operations_syntax

text \<open>
  \<^verbatim>\<open>src/src/aec_compiler/passes/global_cp.py\<close>: forward propagation of constants over the control-flow
  graph, at most twenty rounds, then the rewriting of each instruction with the constants known at
  it. A dictionary of constants is an association list; the source compares two of them as
  mappings, which is \<open>same_constants\<close>.
\<close>

definition label_to_block :: "string \<Rightarrow> CFG \<Rightarrow> string option" where
  "label_to_block label g =
     (case filter (\<lambda>(name, b). label \<in> set (bb_labels b)) (cfg_blocks g) of
        [] \<Rightarrow> None | (name, _) # _ \<Rightarrow> Some name)"

type_synonym constants = "known_constant dict"

definition same_constants :: "constants \<Rightarrow> constants \<Rightarrow> bool" where
  "same_constants c d \<longleftrightarrow> list_all (\<lambda>(r, _). map_of c r = map_of d r) (c @ d)"

subsection \<open>Folding one instruction\<close>

definition gcp_base :: "string \<Rightarrow> bool" where
  "gcp_base b \<longleftrightarrow> local_constant_fold_base b \<or> b \<in> {''and'', ''or'', ''xor'', ''shl'', ''shr'', ''mad''}"

definition bitwise_value :: "string \<Rightarrow> int \<Rightarrow> int \<Rightarrow> int" where
  "bitwise_value base a b = (if base = ''and'' then a AND b else if base = ''or'' then a OR b else a XOR b)"

text \<open>The instruction with its known sources as immediates, and the constant it computes.\<close>

definition fold_with_constants :: "PTXInstruction \<Rightarrow> constants \<Rightarrow> PTXInstruction \<times> known_constant option" where
  "fold_with_constants inst constants =
     (let parts = opcode_parts (inst_opcode inst); base = hd parts;
          ptx_type = (if 2 \<le> length parts then last parts else []) in
      if guard inst \<noteq> None then (inst, None)
      else if \<not> gcp_base base then (inst, None)
      else (case destination_register inst of
        None \<Rightarrow> (inst, None)
      | Some dest \<Rightarrow>
          if starts_with dest ''%p'' then (inst, None)
          else
            (let sources = tl (operands inst);
                 resolved = map (\<lambda>src. resolve_constant src ptx_type constants) sources in
             if list_all (\<lambda>r. r = None) resolved then (inst, None)
             else
               (let dest_op = hd (operands inst);
                    new_inst = inst\<lparr>operands := dest_op #
                      map (\<lambda>(src, r). case r of None \<Rightarrow> src | Some k \<Rightarrow> format_constant k) (zip sources resolved)\<rparr>
                in case resolved of
                     [Some k] \<Rightarrow> (new_inst, if base = ''mov'' then Some k else None)
                   | [Some k, Some l] \<Rightarrow>
                       (if base \<in> {''add'', ''sub'', ''mul''} \<and> ptx_type = ''u32'' then
                          (new_inst, map_option (\<lambda>v. (ptx_type, v)) (evaluate_u32 base (snd k) (snd l)))
                        else if base \<in> {''and'', ''or'', ''xor''} then
                          (let result = (ptx_type, bitwise_value base (snd k) (snd l) AND 0xFFFFFFFF) in
                           (new_inst\<lparr>inst_opcode := ''mov.'' @ ptx_type,
                                     operands := [dest_op, format_constant result]\<rparr>, Some result))
                        else (new_inst, None))
                   | _ \<Rightarrow> (new_inst, None)))))"

text \<open>\<^verbatim>\<open>local[dest] = new_const\<close> or \<^verbatim>\<open>local.pop(dest, None)\<close>, for a destination that is no predicate.\<close>

definition define_constant :: "PTXInstruction \<Rightarrow> known_constant option \<Rightarrow> constants \<Rightarrow> constants" where
  "define_constant inst known c = (case destination_register inst of
     None \<Rightarrow> c
   | Some d \<Rightarrow> if starts_with d ''%p'' then c
              else (case known of None \<Rightarrow> AList.delete d c | Some k \<Rightarrow> AList.update d k c))"

subsection \<open>The dataflow\<close>

definition out_of :: "constants dict \<Rightarrow> string \<Rightarrow> constants" where
  "out_of outs n = (case map_of outs n of None \<Rightarrow> [] | Some c \<Rightarrow> c)"

text \<open>The constants all predecessors agree on.\<close>

definition merge_constants :: "constants list \<Rightarrow> constants" where
  "merge_constants cs = (case cs of [] \<Rightarrow> []
     | c # rest \<Rightarrow> filter (\<lambda>(r, k). list_all (\<lambda>d. map_of d r = Some k) rest) c)"

definition block_entry_constants :: "string \<Rightarrow> CFG \<Rightarrow> constants dict \<Rightarrow> constants" where
  "block_entry_constants n g outs =
     (if n \<notin> fst ` set (cfg_blocks g) then []
      else merge_constants (map (out_of outs)
        (filter (\<lambda>q. q \<in> fst ` set outs) (predecessors (block_of g n)))))"

definition flow_instruction :: "PTXInstruction \<Rightarrow> constants \<Rightarrow> constants" where
  "flow_instruction inst c =
     (if guard inst \<noteq> None then c
      else if contains (inst_opcode inst) ''.cc'' then c
      else define_constant inst (snd (fold_with_constants inst c)) c)"

definition block_instructions :: "PTXProgram \<Rightarrow> CFG \<Rightarrow> string \<Rightarrow> PTXInstruction list" where
  "block_instructions p g n = concat (map (\<lambda>k. case items p ! k of Label _ \<Rightarrow> [] | Inst i \<Rightarrow> [i])
     (item_indices (block_of g n)))"

definition flow_block :: "PTXProgram \<Rightarrow> CFG \<Rightarrow> string \<Rightarrow> constants dict \<times> bool \<Rightarrow> constants dict \<times> bool" where
  "flow_block p g n st = (case st of (outs, changed) \<Rightarrow>
     (let loc = fold flow_instruction (block_instructions p g n) (block_entry_constants n g outs) in
      if same_constants loc (out_of outs n) then (outs, changed)
      else (AList.update n loc outs, True)))"

text \<open>\<^verbatim>\<open>while changed and iteration < max_iterations\<close>: the exit constants, the rounds and the flag.\<close>

fun flow_loop :: "nat \<Rightarrow> PTXProgram \<Rightarrow> CFG \<Rightarrow> constants dict \<Rightarrow> nat \<Rightarrow> constants dict \<times> nat \<times> bool" where
  "flow_loop 0 p g outs iteration = (outs, iteration, True)"
| "flow_loop (Suc k) p g outs iteration =
     (case fold (flow_block p g) (block_order g) (outs, False) of (outs', changed) \<Rightarrow>
        if changed then flow_loop k p g outs' (Suc iteration) else (outs', Suc iteration, False))"

definition constants_out :: "PTXProgram \<Rightarrow> CFG \<Rightarrow> constants dict \<times> nat \<times> bool" where
  "constants_out p g = flow_loop 20 p g (map (\<lambda>(n, b). (n, [])) (cfg_blocks g)) 0"

subsection \<open>Rewriting\<close>

text \<open>The block and the constants the scan of the items is at.\<close>

type_synonym gcp_position = "string option \<times> constants"

definition enter_block :: "CFG \<Rightarrow> constants dict \<Rightarrow> string \<Rightarrow> gcp_position" where
  "enter_block g outs n = (Some n, block_entry_constants n g outs)"

definition block_at :: "CFG \<Rightarrow> nat \<Rightarrow> string option" where
  "block_at g k = map_of (rev (concat (map (\<lambda>(n, b). map (\<lambda>i. (i, n)) (item_indices b)) (cfg_blocks g)))) k"

definition gcp_item :: "CFG \<Rightarrow> constants dict \<Rightarrow> nat \<times> item \<Rightarrow> gcp_position \<Rightarrow> item \<times> gcp_position" where
  "gcp_item g outs indexed pos = (case indexed of (k, it) \<Rightarrow>
     (case it of
        Label l \<Rightarrow> (it, case label_to_block l g of None \<Rightarrow> pos
           | Some n \<Rightarrow> if n = [] then pos else enter_block g outs n)
      | Inst inst \<Rightarrow>
         (case (case block_at g k of
                  None \<Rightarrow> pos
                | Some n \<Rightarrow> if Some n \<noteq> fst pos then enter_block g outs n else pos) of
            (prev, c) \<Rightarrow>
              (case fold_with_constants inst c of (folded, known) \<Rightarrow>
                 (Inst folded, prev, define_constant inst known c)))))"

fun gcp_items :: "CFG \<Rightarrow> constants dict \<Rightarrow> (nat \<times> item) list \<Rightarrow> gcp_position \<Rightarrow> item list" where
  "gcp_items g outs [] pos = []"
| "gcp_items g outs (x # xs) pos =
     (case gcp_item g outs x pos of (it, pos') \<Rightarrow> it # gcp_items g outs xs pos')"

definition gcp_run :: pass_run where
  "gcp_run m am = bind_r (get_cfg m am) (\<lambda>(g, am').
     case constants_out (mod_program m) g of (outs, iteration, changed) \<Rightarrow>
     (let its = items (mod_program m);
          kept = gcp_items g outs (enumerate 0 its) (None, []);
          folded = concat (map folded_destination (zip its kept)); n = int (length folded);
          diverged = (if changed \<and> 20 \<le> iteration then [''<global-cp-did-not-converge>''] else []);
          details = [(''folded_instruction_count'', DInt n),
                     (''folded_destinations'', DList (map DStr (sort (folded @ diverged)))),
                     (''transforms_applied'', DInt n),
                     (''dataflow_iterations'', DInt (int iteration)), (''converged'', DBool (\<not> changed))]
      in Inr (if folded = [] then (m, am', unchanged_result details)
              else case rewritten kept details cfg_and_uniformity m of (m', r) \<Rightarrow> (m', am', r))))"

end
