(* ===== verification/Loop_Motion.thy ===== *)
theory Loop_Motion
  imports Local_Scalar
begin

text \<open>
  The passes that move code out of a natural loop: \<^verbatim>\<open>passes/licm.py\<close> (invariant pure computations)
  and \<^verbatim>\<open>passes/memory.py\<close> (invariant global loads). Both take the moved items out of the program
  and insert them before the last instruction of the only block that enters the loop.
\<close>

type_synonym def_info = "(nat \<times> string) dict"

text \<open>The instructions of a list of blocks with their positions and blocks.\<close>

definition placed_instructions :: "PTXProgram \<Rightarrow> CFG \<Rightarrow> string list \<Rightarrow> (nat \<times> string \<times> PTXInstruction) list" where
  "placed_instructions p g names = concat (map (\<lambda>n. concat (map (\<lambda>k. case items p ! k of
       Label _ \<Rightarrow> [] | Inst i \<Rightarrow> [(k, n, i)]) (item_indices (block_of g n)))) names)"

definition index_to_block :: "CFG \<Rightarrow> (nat \<times> string) list" where
  "index_to_block g = fold (\<lambda>(n, b). fold (\<lambda>k. AList.update k n) (item_indices b)) (cfg_blocks g) []"

definition record_definition :: "nat \<times> string \<times> PTXInstruction \<Rightarrow> def_info \<Rightarrow> def_info" where
  "record_definition pi d = (case pi of (k, n, i) \<Rightarrow>
     (case destination_register i of None \<Rightarrow> d | Some r \<Rightarrow> AList.update r (k, n) d))"

text \<open>The number of definitions of a register among the instructions of a loop.\<close>

definition definition_count :: "(nat \<times> string \<times> PTXInstruction) list \<Rightarrow> string \<Rightarrow> nat" where
  "definition_count body r = length (filter (\<lambda>(k, n, i). destination_register i = Some r) body)"

text \<open>The position in front of which a loop's items go, when the loop has one entering block.\<close>

definition insertion_point :: "CFG \<Rightarrow> NaturalLoop \<Rightarrow> nat option" where
  "insertion_point g l =
     (case filter (\<lambda>q. q \<notin> set (loop_blocks l)) (predecessors (block_of g (loop_header l))) of
        [pre] \<Rightarrow> (case item_indices (block_of g pre) of [] \<Rightarrow> None | ks \<Rightarrow> Some (last ks))
      | _ \<Rightarrow> None)"

text \<open>Items taken out, and items to insert by position.\<close>

record motion =
  moved :: "nat list"
  insertions :: "(nat \<times> item list) list"
  hoist_count :: nat

definition no_motion :: motion where
  "no_motion = \<lparr>moved = [], insertions = [], hoist_count = 0\<rparr>"

definition inserted_at :: "motion \<Rightarrow> nat \<Rightarrow> item list" where
  "inserted_at mo k = (case map_of (insertions mo) k of None \<Rightarrow> [] | Some is \<Rightarrow> is)"

definition hoist :: "PTXProgram \<Rightarrow> nat \<Rightarrow> nat \<Rightarrow> motion \<Rightarrow> motion" where
  "hoist p point k mo = mo\<lparr>moved := k # moved mo,
     insertions := AList.update point (inserted_at mo point @ [items p ! k]) (insertions mo),
     hoist_count := hoist_count mo + 1\<rparr>"

definition apply_motion :: "motion \<Rightarrow> item list \<Rightarrow> item list" where
  "apply_motion mo its = concat (map (\<lambda>(k, it).
     inserted_at mo k @ (if k \<in> set (moved mo) then [] else [it])) (enumerate 0 its))"

subsection \<open>Loop-invariant code motion\<close>

text \<open>The last definition of each register in program order, with its block.\<close>

definition licm_def_map :: "PTXProgram \<Rightarrow> CFG \<Rightarrow> def_info" where
  "licm_def_map p g = fold (\<lambda>(k, it) d. case it of Label _ \<Rightarrow> d
     | Inst i \<Rightarrow> (case map_of (index_to_block g) k of None \<Rightarrow> d | Some n \<Rightarrow> record_definition (k, n, i) d))
     (enumerate 0 (items p)) []"

definition operand_register :: "string \<Rightarrow> string" where
  "operand_register op0 = unbracket (py_strip op0)"

definition operand_invariant :: "def_info \<Rightarrow> string list \<Rightarrow> string list \<Rightarrow> nat list \<Rightarrow> string \<Rightarrow> bool" where
  "operand_invariant defs blocks header_doms marked op0 =
     (let op = operand_register op0 in
      if is_immediate op then True
      else if starts_with op ''%'' then
        (case map_of defs op of
           None \<Rightarrow> True
         | Some (k, n) \<Rightarrow> if n \<notin> set blocks then n \<in> set header_doms else k \<in> set marked)
      else True)"

definition licm_candidate :: "PTXInstruction \<Rightarrow> bool" where
  "licm_candidate i \<longleftrightarrow> guard i = None \<and> pure_result_base (opcode_base (inst_opcode i)) \<and>
     \<not> contains (inst_opcode i) ''.cc''"

definition licm_operands :: "PTXInstruction \<Rightarrow> string list" where
  "licm_operands i = (if destination_register i \<noteq> None then tl (operands i) else operands i)"

definition licm_mark :: "def_info \<Rightarrow> string list \<Rightarrow> string list \<Rightarrow> nat \<times> string \<times> PTXInstruction
    \<Rightarrow> nat list \<Rightarrow> nat list" where
  "licm_mark defs blocks header_doms pi marked = (case pi of (k, n, i) \<Rightarrow>
     if k \<notin> set marked \<and> licm_candidate i \<and>
        list_all (operand_invariant defs blocks header_doms marked) (licm_operands i)
     then k # marked else marked)"

text \<open>One round over the loop, and rounds until nothing is added.\<close>

definition licm_round :: "def_info \<Rightarrow> string list \<Rightarrow> string list \<Rightarrow> (nat \<times> string \<times> PTXInstruction) list
    \<Rightarrow> nat list \<Rightarrow> nat list" where
  "licm_round defs blocks doms body marked = fold (licm_mark defs blocks doms) body marked"

lemma licm_mark_cases: "licm_mark defs blocks doms pi marked = marked \<or>
    (licm_mark defs blocks doms pi marked = fst pi # marked \<and> fst pi \<notin> set marked)"
  by (cases pi) (simp add: licm_mark_def)

lemma licm_round_grows:
  "set marked \<subseteq> set (licm_round defs blocks doms body marked) \<and>
   set (licm_round defs blocks doms body marked) \<subseteq> set marked \<union> fst ` set body \<and>
   (licm_round defs blocks doms body marked \<noteq> marked \<longrightarrow>
      set marked \<subset> set (licm_round defs blocks doms body marked))"
  unfolding licm_round_def
proof (induction body arbitrary: marked)
  case (Cons pi body)
  show ?case using Cons [of "licm_mark defs blocks doms pi marked"] licm_mark_cases [of defs blocks doms pi marked]
    by (cases "licm_mark defs blocks doms pi marked = marked") auto
qed simp

function licm_invariant :: "def_info \<Rightarrow> string list \<Rightarrow> string list \<Rightarrow> (nat \<times> string \<times> PTXInstruction) list
    \<Rightarrow> nat list \<Rightarrow> nat list" where
  "licm_invariant defs blocks doms body marked =
     (let marked' = licm_round defs blocks doms body marked in
      if marked' = marked then marked else licm_invariant defs blocks doms body marked')"
  by pat_completeness auto
termination
proof (relation "measure (\<lambda>(defs, blocks, doms, body, marked). card (fst ` set body - set marked))", goal_cases)
  case (2 defs blocks doms body marked marked')
  then have "set marked \<subset> set marked'" "set marked' \<subseteq> set marked \<union> fst ` set body"
    using licm_round_grows [of marked defs blocks doms body] by auto
  then have "fst ` set body - set marked' \<subset> fst ` set body - set marked" by auto
  then show ?case by (simp add: psubset_card_mono)
qed simp

declare licm_invariant.simps [simp del]

definition licm_safe :: "(nat \<times> string \<times> PTXInstruction) list \<Rightarrow> nat \<times> string \<times> PTXInstruction \<Rightarrow> bool" where
  "licm_safe body pi = (case pi of (k, n, i) \<Rightarrow>
     (case destination_register i of None \<Rightarrow> True | Some r \<Rightarrow> definition_count body r = 1))"

text \<open>The positions a loop gives up, in increasing order.\<close>

definition licm_hoisted :: "PTXProgram \<Rightarrow> CFG \<Rightarrow> NaturalLoop \<Rightarrow> nat list" where
  "licm_hoisted p g l =
     (let body = placed_instructions p g (sort (loop_blocks l));
          marked = licm_invariant (licm_def_map p g) (loop_blocks l)
            (doms_of (dominators g) (loop_header l)) body []
      in filter (\<lambda>k. list_ex (\<lambda>pi. fst pi = k \<and> licm_safe body pi) body) (sort marked))"

definition licm_loop :: "PTXProgram \<Rightarrow> CFG \<Rightarrow> NaturalLoop \<Rightarrow> motion \<Rightarrow> motion" where
  "licm_loop p g l mo = (case insertion_point g l of
     None \<Rightarrow> mo
   | Some point \<Rightarrow> fold (hoist p point) (licm_hoisted p g l) mo)"

definition licm_run :: pass_run where
  "licm_run m am = bind_r (get_cfg m am) (\<lambda>(g, am').
     let p = mod_program m; loops = natural_loops g;
         mo = fold (licm_loop p g) loops no_motion; n = int (hoist_count mo);
         details = [(''hoisted_count'', DInt n), (''loops_found'', DInt (int (length loops))),
                    (''transforms_applied'', DInt n)]
     in Inr (if hoist_count mo = 0 then (m, am', unchanged_result details)
             else case rewritten (apply_motion mo (items p)) details cfg_and_uniformity m of
                    (m', r) \<Rightarrow> (m', am', r)))"

subsection \<open>Load hoisting\<close>

definition load_def_map :: "PTXProgram \<Rightarrow> CFG \<Rightarrow> def_info" where
  "load_def_map p g = fold record_definition (placed_instructions p g (map fst (cfg_blocks g))) []"

definition loop_latch :: "CFG \<Rightarrow> string \<Rightarrow> string" where
  "loop_latch g header = (case filter (\<lambda>(t, h). h = header) (backedges g) of
     [] \<Rightarrow> header | (t, _) # _ \<Rightarrow> t)"

definition has_store :: "(nat \<times> string \<times> PTXInstruction) list \<Rightarrow> bool" where
  "has_store body \<longleftrightarrow> list_ex (\<lambda>(k, n, i). opcode_base (inst_opcode i) = ''st'') body"

text \<open>Whether one instruction of the loop is a load to move.\<close>

definition hoistable_load :: "def_info \<Rightarrow> string list \<Rightarrow> string list \<Rightarrow> (nat \<times> string \<times> PTXInstruction) list
    \<Rightarrow> nat \<times> string \<times> PTXInstruction \<Rightarrow> pass_error + bool" where
  "hoistable_load defs blocks latch_doms body pi = (case pi of (k, n, i) \<Rightarrow>
     if guard i \<noteq> None \<or> \<not> starts_with (inst_opcode i) ''ld.global'' \<or> n \<notin> set latch_doms then Inr False
     else if (case destination_register i of None \<Rightarrow> False | Some r \<Rightarrow> 1 < definition_count body r)
       then Inr False
     else (case operands i of
       _ # a # _ \<Rightarrow>
         (let addr = operand_register a in
          Inr (starts_with addr ''%'' \<and>
            (case map_of defs addr of None \<Rightarrow> True | Some (_, dn) \<Rightarrow> dn \<notin> set blocks)))
     | _ \<Rightarrow> Inl PassIndexError))"

definition hoist_load :: "PTXProgram \<Rightarrow> nat \<Rightarrow> (nat \<times> string \<times> PTXInstruction \<Rightarrow> pass_error + bool)
    \<Rightarrow> nat \<times> string \<times> PTXInstruction \<Rightarrow> motion \<Rightarrow> pass_error + motion" where
  "hoist_load p point ok pi mo = bind_r (ok pi) (\<lambda>b. Inr (if b then hoist p point (fst pi) mo else mo))"

definition load_loop :: "PTXProgram \<Rightarrow> CFG \<Rightarrow> NaturalLoop \<Rightarrow> motion \<Rightarrow> pass_error + motion" where
  "load_loop p g l mo = (case insertion_point g l of
     None \<Rightarrow> Inr mo
   | Some point \<Rightarrow>
      (let body = placed_instructions p g (loop_blocks l) in
       if has_store body then Inr mo
       else fold_r (hoist_load p point (hoistable_load (load_def_map p g) (loop_blocks l)
              (doms_of (dominators g) (loop_latch g (loop_header l))) body)) body mo))"

definition load_hoist_run :: pass_run where
  "load_hoist_run m am = bind_r (get_cfg m am) (\<lambda>(g, am').
     let p = mod_program m; loops = natural_loops g in
     bind_r (fold_r (load_loop p g) loops no_motion) (\<lambda>mo.
       let n = int (hoist_count mo);
           details = [(''hoisted'', DInt n), (''loops'', DInt (int (length loops))),
                      (''transforms_applied'', DInt n)]
       in Inr (if hoist_count mo = 0 then (m, am', unchanged_result details)
               else case rewritten (apply_motion mo (items p)) details
                      [''cfg'', ''uniformity'', ''loops''] m of (m', r) \<Rightarrow> (m', am', r))))"

end
