(* ===== verification/Loop_Unroll.thy ===== *)
theory Loop_Unroll
  imports Loop_Motion
begin

text \<open>
  \<^verbatim>\<open>src/src/aec_compiler/passes/gemm.py\<close>: unrolling the first counted loop by two. The body is
  copied with fresh register names in front of the branch back, and the counter's step becomes two.
\<close>

definition UNROLL_FACTOR :: int where "UNROLL_FACTOR = 2"

definition is_const_one :: "string \<Rightarrow> bool" where
  "is_const_one op \<longleftrightarrow> py_strip op \<in> {''1'', ''0x1'', ''0x01''}"

definition is_hex_digit :: "char \<Rightarrow> bool" where
  "is_hex_digit c \<longleftrightarrow> (case char_digit c of None \<Rightarrow> False | Some d \<Rightarrow> d < 16)"

definition is_immediate_const :: "string \<Rightarrow> bool" where
  "is_immediate_const op0 =
     (let op = py_strip op0 in
      if op = [] then False
      else if starts_with op ''0x'' \<or> starts_with op ''0X'' then list_all is_hex_digit (drop 2 op)
      else if starts_with op ''-'' then all_digits (tl op)
      else all_digits op)"

subsection \<open>Register numbers\<close>

definition is_lower :: "char \<Rightarrow> bool" where
  "is_lower c \<longleftrightarrow> (let n = of_char c :: nat in 97 \<le> n \<and> n \<le> 122)"

text \<open>\<^verbatim>\<open>_REG_NUM_RE.match\<close>: the text before the number, and the number.\<close>

definition REG_NUM_RE :: "string \<Rightarrow> (string \<times> nat) option" where
  "REG_NUM_RE s = (case lit ''%'' s of None \<Rightarrow> None | Some t \<Rightarrow>
     (case run1 is_lower t of None \<Rightarrow> None | Some (w, u) \<Rightarrow>
        if u \<noteq> [] \<and> list_all is_digit u then map_option (\<lambda>n. (CHR ''%'' # w, n)) (digits_value 10 0 u)
        else None))"

text \<open>\<^verbatim>\<open>op.strip().lstrip("[").rstrip("]")\<close>.\<close>

definition trim_brackets :: "string \<Rightarrow> string" where
  "trim_brackets op = rev (dropWhile (\<lambda>c. c = CHR '']'') (rev (dropWhile (\<lambda>c. c = CHR ''['') (py_strip op))))"

definition collect_reg_nums :: "PTXInstruction \<Rightarrow> nat list" where
  "collect_reg_nums i = concat (map (\<lambda>op. case REG_NUM_RE (trim_brackets op) of
     None \<Rightarrow> [] | Some (_, n) \<Rightarrow> [n]) (operands i))"

definition used_reg_nums :: "PTXProgram \<Rightarrow> nat list" where
  "used_reg_nums p = concat (map (\<lambda>it. case it of Label _ \<Rightarrow> [] | Inst i \<Rightarrow> collect_reg_nums i) (items p))"

definition fresh_name_safe :: "string \<Rightarrow> nat list \<Rightarrow> string option" where
  "fresh_name_safe rname used = (case REG_NUM_RE rname of
     None \<Rightarrow> None
   | Some (base, num) \<Rightarrow>
       (case filter (\<lambda>c. c \<notin> set used) [num + 50..<256] of
          [] \<Rightarrow> None | c # _ \<Rightarrow> Some (base @ py_str (int c))))"

subsection \<open>Renaming\<close>

definition rename_source :: "string dict \<Rightarrow> string list \<Rightarrow> string \<Rightarrow> string" where
  "rename_source names skip op0 =
     (let op1 = py_strip op0; bracket = (starts_with op1 ''['' \<and> ends_with op1 '']'');
          op = (if bracket then py_strip (butlast (tl op1)) else op1) in
      case (if op \<in> set skip then None else map_of names op) of
        None \<Rightarrow> op0
      | Some r \<Rightarrow> if bracket then ''['' @ r @ '']'' else r)"

text \<open>The renamed instruction with the names and numbers in use, or \<open>None\<close>.\<close>

definition rename_instruction_safe :: "PTXInstruction \<Rightarrow> string dict \<Rightarrow> string list \<Rightarrow> nat list
    \<Rightarrow> (PTXInstruction \<times> string dict \<times> nat list) option" where
  "rename_instruction_safe i names skip used =
     (if opcode_base (inst_opcode i) \<in> {''setp'', ''bra'', ''ret''} then None
      else
        (let rename = (\<lambda>d names used.
               (i\<lparr>operands := (case operands i of [] \<Rightarrow> []
                    | op # ops \<Rightarrow> (case d of None \<Rightarrow> op | Some r \<Rightarrow> r) # map (rename_source names skip) ops)\<rparr>,
                names, used)) in
         case destination_register i of
           None \<Rightarrow> Some (rename None names used)
         | Some d \<Rightarrow>
             if d \<in> set skip then Some (rename None names used)
             else (case fresh_name_safe d used of
               None \<Rightarrow> None
             | Some r \<Rightarrow> Some (rename (Some r) (AList.update d r names)
                 (case REG_NUM_RE r of None \<Rightarrow> used | Some (_, n) \<Rightarrow> n # used)))))"

text \<open>The copy of the body: \<open>None\<close> when no safe name is left.\<close>

fun renamed_body :: "string \<Rightarrow> string list \<Rightarrow> PTXInstruction list \<Rightarrow> string dict \<Rightarrow> nat list
    \<Rightarrow> PTXInstruction list option" where
  "renamed_body counter skip [] names used = Some []"
| "renamed_body counter skip (i # is) names used =
     (let base = opcode_base (inst_opcode i) in
      if guard i \<noteq> None \<or> \<not> (pure_result_base base \<or> base \<in> {''setp'', ''ld'', ''st''}) \<or>
         destination_register i = Some counter
      then renamed_body counter skip is names used
      else (case rename_instruction_safe i names skip used of
        None \<Rightarrow> if base \<in> {''setp'', ''bra'', ''ret''} then renamed_body counter skip is names used else None
      | Some (j, names', used') \<Rightarrow>
          map_option ((#) j) (renamed_body counter skip is names' (collect_reg_nums j @ used'))))"

subsection \<open>Recognising a counted loop\<close>

definition first_of :: "('a \<Rightarrow> 'b option) \<Rightarrow> 'a list \<Rightarrow> 'b option" where
  "first_of f xs = (case filter (\<lambda>r. r \<noteq> None) (map f xs) of [] \<Rightarrow> None | r # _ \<Rightarrow> r)"

definition counter_step :: "PTXInstruction \<Rightarrow> string option" where
  "counter_step i = (case operands i of
     [d, s1, s2] \<Rightarrow>
       if opcode_base (inst_opcode i) = ''add'' \<and> py_strip d = py_strip s1 \<and> is_const_one s2
       then Some (py_strip d) else None
   | _ \<Rightarrow> None)"

definition compared_bound :: "string \<Rightarrow> PTXInstruction \<Rightarrow> int option" where
  "compared_bound counter i =
     (if opcode_base (inst_opcode i) = ''setp'' \<and> 3 \<le> length (operands i) then
        (case filter (\<lambda>op. py_strip op \<noteq> counter \<and> is_immediate_const (py_strip op)) (tl (operands i)) of
           [] \<Rightarrow> None | op # _ \<Rightarrow> py_int 0 (py_strip op))
      else None)"

definition carried_register :: "PTXInstruction \<Rightarrow> string list" where
  "carried_register i =
     (if guard i \<noteq> None \<or> opcode_base (inst_opcode i) \<in> {''setp'', ''bra'', ''ret''} then []
      else (case destination_register i of
        None \<Rightarrow> []
      | Some d \<Rightarrow> if list_ex (\<lambda>op. trim_brackets op = d) (tl (operands i)) then [d] else []))"

text \<open>The first step of the counter, now by two.\<close>

definition is_step_of :: "string \<Rightarrow> PTXInstruction \<Rightarrow> bool" where
  "is_step_of counter i = (case operands i of
     [d, s1, s2] \<Rightarrow> starts_with (inst_opcode i) ''add'' \<and> py_strip d = counter \<and>
       py_strip s1 = counter \<and> is_const_one s2
   | _ \<Rightarrow> False)"

definition adjust_counter :: "string \<Rightarrow> (nat \<times> string \<times> PTXInstruction) list \<Rightarrow> item list \<Rightarrow> item list" where
  "adjust_counter counter body its = (case filter (\<lambda>(k, n, i). is_step_of counter i) body of
     [] \<Rightarrow> its
   | (k, n, i) # _ \<Rightarrow> its[k := Inst (i\<lparr>operands := take 2 (operands i) @ [py_str UNROLL_FACTOR]\<rparr>)])"

definition insert_at :: "nat \<Rightarrow> item list \<Rightarrow> item list \<Rightarrow> item list" where
  "insert_at k new its = take k its @ new @ drop k its"

text \<open>The items of the program with the loop unrolled, or \<open>None\<close> when the loop is skipped.\<close>

definition unroll_loop :: "PTXProgram \<Rightarrow> CFG \<Rightarrow> NaturalLoop \<Rightarrow> item list option" where
  "unroll_loop p g l =
     (let body = placed_instructions p g (sort (loop_blocks l)); insts = map (snd \<circ> snd) body in
      if has_store body then None
      else if list_ex (\<lambda>i. guard i \<noteq> None \<and> opcode_base (inst_opcode i) \<noteq> ''bra'') insts then None
      else (case first_of counter_step insts of
        None \<Rightarrow> None
      | Some counter \<Rightarrow>
         (case first_of (compared_bound counter) insts of
            None \<Rightarrow> None
          | Some bound \<Rightarrow>
              if bound mod UNROLL_FACTOR \<noteq> 0 then None
              else (case rev (filter (\<lambda>(k, n, i). opcode_base (inst_opcode i) = ''bra'') body) of
                [] \<Rightarrow> None
              | (backedge, _, _) # _ \<Rightarrow>
                  map_option (\<lambda>copy. insert_at backedge (map Inst copy) (adjust_counter counter body (items p)))
                    (renamed_body counter (counter # concat (map carried_register insts)) insts []
                       (used_reg_nums p))))))"

definition unroll_run :: pass_run where
  "unroll_run m am = bind_r (get_cfg m am) (\<lambda>(g, am').
     let p = mod_program m; loops = natural_loops g; result = first_of (unroll_loop p g) loops;
         n = (if result = None then 0 else 1);
         details = [(''unrolled'', DInt n), (''loops'', DInt (int (length loops))),
                    (''transforms_applied'', DInt n)]
     in Inr (case result of
          None \<Rightarrow> (m, am', unchanged_result details)
        | Some its \<Rightarrow> (case rewritten its details [''cfg'', ''uniformity'', ''loops''] m of
            (m', r) \<Rightarrow> (m', am', r))))"

end
