(* ===== verification/Block_Simplify.thy ===== *)
theory Block_Simplify
  imports Local_Scalar
begin

text \<open>
  \<^verbatim>\<open>src/src/aec_compiler/passes/block_simplify.py\<close>: removing unreachable blocks, empty blocks and
  blocks that only jump, with the branches to them sent on to where they lead.
\<close>

definition block_label_map :: "CFG \<Rightarrow> string dict" where
  "block_label_map g = fold (\<lambda>(n, b). fold (\<lambda>l. AList.update l n) (bb_labels b)) (cfg_blocks g) []"

definition reachable_blocks :: "CFG \<Rightarrow> string list" where
  "reachable_blocks g = worklist (map fst (cfg_blocks g)) (\<lambda>n. successors (block_of g n)) [cfg_entry g] [cfg_entry g]"

definition block_has_side_effect :: "CFG \<Rightarrow> string \<Rightarrow> bool" where
  "block_has_side_effect g n = list_ex is_side_effecting (bb_instructions (block_of g n))"

definition unreachable_blocks :: "CFG \<Rightarrow> string list" where
  "unreachable_blocks g = filter (\<lambda>n. n \<notin> set (reachable_blocks g) \<and> \<not> block_has_side_effect g n)
     (map fst (cfg_blocks g))"

subsection \<open>Blocks to step over\<close>

text \<open>Where a block that does nothing leads: the only successor of an empty one, the target of a jump.\<close>

definition empty_target :: "CFG \<Rightarrow> string \<times> BasicBlock \<Rightarrow> string option" where
  "empty_target g nb = (case nb of (n, b) \<Rightarrow>
     if n \<noteq> cfg_entry g \<and> bb_instructions b = [] then
       (case successors b of [s] \<Rightarrow> Some s | _ \<Rightarrow> None)
     else None)"

definition jump_target :: "CFG \<Rightarrow> string \<times> BasicBlock \<Rightarrow> pass_error + string option" where
  "jump_target g nb = (case nb of (n, b) \<Rightarrow>
     if n = cfg_entry g \<or> length (bb_instructions b) \<noteq> 1 then Inr None
     else (case bb_terminator b of
        None \<Rightarrow> Inr None
      | Some t \<Rightarrow>
          if terminator_kind (Some t) \<noteq> ''unconditional_branch'' then Inr None
          else (case operands t of
             [] \<Rightarrow> Inl PassIndexError
           | l # _ \<Rightarrow> (case map_of (block_label_map g) l of
               None \<Rightarrow> Inr None
             | Some tb \<Rightarrow> Inr (if tb \<noteq> [] \<and> tb \<noteq> n then Some tb else None)))))"

definition optional_entry :: "string \<Rightarrow> string option \<Rightarrow> string dict" where
  "optional_entry n t = (case t of None \<Rightarrow> [] | Some s \<Rightarrow> [(n, s)])"

definition empty_blocks :: "CFG \<Rightarrow> string dict" where
  "empty_blocks g = concat (map (\<lambda>nb. optional_entry (fst nb) (empty_target g nb)) (cfg_blocks g))"

definition jump_blocks :: "CFG \<Rightarrow> pass_error + string dict" where
  "jump_blocks g = bind_r (map_r (\<lambda>nb. bind_r (jump_target g nb) (\<lambda>t. Inr (optional_entry (fst nb) t)))
     (cfg_blocks g)) (\<lambda>ds. Inr (concat ds))"

subsection \<open>Redirection\<close>

text \<open>
  \<^verbatim>\<open>resolve_chain\<close>, with the table it fills: a block on the current chain ends it. The steps are
  those of the jump blocks first, then of the empty ones.
\<close>

function resolve_chain :: "string dict \<Rightarrow> string list \<Rightarrow> string dict \<Rightarrow> string \<Rightarrow> string \<times> string dict" where
  "resolve_chain step visited redirect n =
     (if n \<in> set visited then (n, redirect)
      else case map_of redirect n of
        Some t \<Rightarrow> (t, redirect)
      | None \<Rightarrow>
          (case map_of step n of
             None \<Rightarrow> (n, redirect)
           | Some nxt \<Rightarrow>
               (case resolve_chain step (n # visited) redirect nxt of
                  (t, redirect') \<Rightarrow> (t, AList.update n t redirect'))))"
  by pat_completeness auto
termination
proof (relation "measure (\<lambda>(step, visited, redirect, n). card (fst ` set step - set visited))", goal_cases)
  case (2 step visited redirect n nxt)
  then have "n \<in> fst ` set step - set visited" by (auto simp: in_dict_iff)
  then have "fst ` set step - set (n # visited) \<subset> fst ` set step - set visited" by auto
  then show ?case by (simp add: psubset_card_mono)
qed simp

declare resolve_chain.simps [simp del]

definition redirect_map :: "CFG \<Rightarrow> pass_error + string dict" where
  "redirect_map g = bind_r (jump_blocks g) (\<lambda>jumps.
     Inr (filter (\<lambda>(k, v). v \<noteq> k)
       (fold (\<lambda>(n, b) r. snd (resolve_chain (jumps @ empty_blocks g) [] r n)) (cfg_blocks g) [])))"

definition find_block_label :: "string \<Rightarrow> CFG \<Rightarrow> string option" where
  "find_block_label n g = (case map_of (cfg_blocks g) n of
     None \<Rightarrow> None
   | Some b \<Rightarrow> (case bb_labels b of
       l # _ \<Rightarrow> Some l
     | [] \<Rightarrow> if n = ''entry'' then None else Some n))"

definition retarget :: "CFG \<Rightarrow> string dict \<Rightarrow> PTXInstruction \<Rightarrow> PTXInstruction" where
  "retarget g redirect i =
     (if opcode_base (inst_opcode i) \<noteq> ''bra'' then i
      else (case operands i of
        [] \<Rightarrow> i
      | target # ops \<Rightarrow>
          (case Option.bind (map_of (block_label_map g) target)
                  (\<lambda>tb. if tb = [] then None else map_of redirect tb) of
             None \<Rightarrow> i
           | Some new_block \<Rightarrow>
               (case find_block_label new_block g of
                  None \<Rightarrow> i
                | Some new_target \<Rightarrow> if new_target = [] then i else i\<lparr>operands := new_target # ops\<rparr>))))"

subsection \<open>The pass\<close>

record simplify_state =
  sp_kept :: "item list"
  sp_labels :: "string list"
  sp_skip :: bool

definition simplify_item :: "CFG \<Rightarrow> string dict \<Rightarrow> string list \<Rightarrow> item \<Rightarrow> simplify_state \<Rightarrow> simplify_state" where
  "simplify_item g redirect gone it s = (case it of
     Label l \<Rightarrow>
       (if (case map_of (block_label_map g) l of None \<Rightarrow> False | Some n \<Rightarrow> n \<in> set gone)
        then s\<lparr>sp_labels := sp_labels s @ [l], sp_skip := True\<rparr>
        else s\<lparr>sp_kept := sp_kept s @ [it], sp_skip := False\<rparr>)
   | Inst i \<Rightarrow> if sp_skip s then s else s\<lparr>sp_kept := sp_kept s @ [Inst (retarget g redirect i)]\<rparr>)"

definition simplify_items :: "CFG \<Rightarrow> string dict \<Rightarrow> string list \<Rightarrow> item list \<Rightarrow> simplify_state" where
  "simplify_items g redirect gone its = fold (simplify_item g redirect gone) its
     \<lparr>sp_kept = [], sp_labels = [], sp_skip = False\<rparr>"

definition simplify_details :: "int \<Rightarrow> string list \<Rightarrow> int \<Rightarrow> detail dict" where
  "simplify_details redirected labels removed =
     [(''redirected_blocks'', DInt redirected), (''removed_labels'', DInt (int (length labels))),
      (''redirected_labels'', DList (map DStr (sort (remdups labels)))),
      (''unreachable_blocks_removed'', DInt removed), (''transforms_applied'', DInt (redirected + removed))]"

definition block_simplify_run :: pass_run where
  "block_simplify_run m am = bind_r (get_cfg m am) (\<lambda>(g, am').
     bind_r (redirect_map g) (\<lambda>redirect.
     let gone = filter (\<lambda>n. n \<noteq> cfg_entry g) (unreachable_blocks g @ map fst redirect) in
     if gone = [] then
       Inr (m, am', unchanged_result [(''redirected_blocks'', DInt 0), (''removed_labels'', DInt 0),
         (''unreachable_blocks_removed'', DInt 0), (''transforms_applied'', DInt 0)])
     else
       (let s = simplify_items g redirect gone (items (mod_program m));
            removed = length (filter (\<lambda>n. n \<notin> fst ` set redirect) (unreachable_blocks g));
            details = simplify_details (int (length redirect)) (sp_labels s) (int removed)
        in Inr (if sp_labels s = [] \<and> removed = 0 then (m, am', unchanged_result details)
                else case rewritten (sp_kept s) details [''cfg'', ''uniformity'', ''loops''] m of
                       (m', r) \<Rightarrow> (m', am', r)))))"

end
