(* ===== verification/RegAlloc.thy ===== *)
theory RegAlloc
  imports Pass_Base
begin

text \<open>
  \<^verbatim>\<open>src/src/aec_compiler/passes/register_allocation.py\<close>: linear-scan allocation over the merged live
  ranges, register pairs at an even base, the fall-back path for pairs, and the separate scan for
  predicates. The result is left in the metadata of the module.
\<close>

definition MAX_GPR :: int where "MAX_GPR = 239"
definition MAX_PRED :: int where "MAX_PRED = 7"

text \<open>\<^verbatim>\<open>name.split("#")[0]\<close>.\<close>

definition range_base :: "string \<Rightarrow> string" where
  "range_base name = before_first (CHR ''#'') name"

type_synonym live_interval = "int \<times> int"

definition merge_range :: "string \<times> LiveRange \<Rightarrow> live_interval dict \<Rightarrow> live_interval dict" where
  "merge_range nr merged = (case nr of (name, lr) \<Rightarrow>
     (let base = range_base name in
      case map_of merged base of
        Some (fd, lu) \<Rightarrow> AList.update base (min fd (first_def lr), max lu (last_use lr)) merged
      | None \<Rightarrow> AList.update base (first_def lr, last_use lr) merged))"

definition gpr_ranges :: "LivenessFacts \<Rightarrow> LivenessFacts" where
  "gpr_ranges facts = filter (\<lambda>(name, lr). is_live lr \<and> \<not> starts_with name ''%p'') facts"

definition pred_ranges :: "LivenessFacts \<Rightarrow> LivenessFacts" where
  "pred_ranges facts = filter (\<lambda>(name, lr). is_live lr \<and> starts_with name ''%p'') facts"

definition has_use_in_range :: "LivenessFacts \<Rightarrow> string \<Rightarrow> int \<Rightarrow> int \<Rightarrow> bool" where
  "has_use_in_range facts base a b \<longleftrightarrow> list_ex (\<lambda>(name, lr).
     range_base name = base \<and> is_live lr \<and> list_ex (\<lambda>u. a \<le> u \<and> u \<le> b) (use_indices lr)) facts"

definition extend_to_loop :: "LivenessFacts \<Rightarrow> live_interval option \<Rightarrow> live_interval dict \<Rightarrow> live_interval dict" where
  "extend_to_loop facts loop_range merged = (case loop_range of
     None \<Rightarrow> merged
   | Some (a, b) \<Rightarrow> map (\<lambda>(base, fd, lu).
        if has_use_in_range facts base a b \<and> lu < b then (base, fd, b) else (base, fd, lu)) merged)"

definition loop_item_indices :: "PTXProgram \<Rightarrow> CFG \<Rightarrow> nat list" where
  "loop_item_indices p g = concat (map (\<lambda>l. concat (map (\<lambda>n. case map_of (cfg_blocks g) n of
       None \<Rightarrow> []
     | Some b \<Rightarrow> filter (\<lambda>k. case items p ! k of Label _ \<Rightarrow> False | Inst _ \<Rightarrow> True) (item_indices b))
     (loop_blocks l))) (natural_loops g))"

definition compute_loop_range :: "PTXProgram \<Rightarrow> CFG \<Rightarrow> live_interval option" where
  "compute_loop_range p g = (case loop_item_indices p g of
     [] \<Rightarrow> None
   | k # ks \<Rightarrow> Some (int (foldl min k ks), int (foldl max k ks)))"

subsection \<open>The scan\<close>

record scan_state =
  sc_mapping :: "int dict"
  sc_active :: "(int \<times> int) list"
  sc_free :: "int list"

text \<open>Registers whose range has ended go back to the end of the free list.\<close>

definition expire :: "int \<Rightarrow> scan_state \<Rightarrow> scan_state" where
  "expire fd s = s\<lparr>sc_free := sc_free s @ map snd (filter (\<lambda>(e, _). e < fd) (sc_active s)),
                   sc_active := filter (\<lambda>(e, _). \<not> e < fd) (sc_active s)\<rparr>"

definition is_pair_vreg :: "string \<Rightarrow> bool" where
  "is_pair_vreg v \<longleftrightarrow> starts_with v ''%rd'' \<or> starts_with v ''%bd''"

text \<open>
  The search for an even register whose successor is free too, from the end of the free list, as
  the positions of the two; register 0 is refused after both were taken out.
\<close>

definition index_of :: "int list \<Rightarrow> int \<Rightarrow> nat" where
  "index_of xs v = length (takeWhile (\<lambda>x. x \<noteq> v) xs)"

fun find_pair :: "int list \<Rightarrow> nat \<Rightarrow> (nat \<times> nat) option" where
  "find_pair free 0 = None"
| "find_pair free (Suc i) =
     (if free ! i mod 2 = 0 \<and> free ! i + 1 \<in> set free then Some (i, index_of free (free ! i + 1))
      else find_pair free i)"

definition remove_at :: "nat \<Rightarrow> int list \<Rightarrow> int list" where
  "remove_at i xs = take i xs @ drop (Suc i) xs"

definition take_pair :: "int list \<Rightarrow> int option \<times> int list" where
  "take_pair free = (case find_pair free (length free) of
     None \<Rightarrow> (None, free)
   | Some (i, j) \<Rightarrow>
       (if free ! i = 0 then None else Some (free ! i),
        if j < i then remove_at j (remove_at i free) else remove_at i (remove_at j free)))"

definition assign_pair :: "string \<Rightarrow> int \<Rightarrow> int \<Rightarrow> scan_state \<Rightarrow> scan_state" where
  "assign_pair vreg lu r s = s\<lparr>sc_mapping := AList.update vreg r (sc_mapping s),
     sc_active := sc_active s @ [(lu, r), (lu, r + 1)]\<rparr>"

text \<open>The fall-back path: the last free register, rounded down to an even one.\<close>

definition pair_fallback :: "string \<Rightarrow> int \<Rightarrow> scan_state \<Rightarrow> scan_state" where
  "pair_fallback vreg lu s =
     (let p0 = last (sc_free s); rest = butlast (sc_free s);
          phys = (if p0 mod 2 = 1 \<and> 0 < p0 then p0 - 1 else p0) in
      if phys + 1 \<in> set rest then
        (let s1 = s\<lparr>sc_free := remove1 (phys + 1) rest\<rparr> in
         if 0 < phys \<and> phys mod 2 = 0 \<and> phys + 1 \<le> MAX_GPR then assign_pair vreg lu phys s1 else s1)
      else s\<lparr>sc_free := rest @ [phys]\<rparr>)"

definition allocate_pair :: "string \<Rightarrow> int \<Rightarrow> scan_state \<Rightarrow> scan_state" where
  "allocate_pair vreg lu s = (case take_pair (sc_free s) of (assigned, free') \<Rightarrow>
     (let s1 = s\<lparr>sc_free := free'\<rparr> in
      case assigned of
        Some r \<Rightarrow> assign_pair vreg lu r s1
      | None \<Rightarrow> if 2 \<le> length free' then pair_fallback vreg lu s1 else s1))"

definition allocate_single :: "string \<Rightarrow> int \<Rightarrow> scan_state \<Rightarrow> scan_state" where
  "allocate_single vreg lu s =
     (if sc_free s = [] then s
      else s\<lparr>sc_free := butlast (sc_free s),
             sc_mapping := AList.update vreg (last (sc_free s)) (sc_mapping s),
             sc_active := sc_active s @ [(lu, last (sc_free s))]\<rparr>)"

definition scan_step :: "string \<times> live_interval \<Rightarrow> scan_state \<Rightarrow> scan_state" where
  "scan_step r s = (case r of (vreg, fd, lu) \<Rightarrow>
     (let s1 = expire fd s in
      if is_pair_vreg vreg then allocate_pair vreg lu s1 else allocate_single vreg lu s1))"

definition initial_scan :: scan_state where
  "initial_scan = \<lparr>sc_mapping = [], sc_active = [], sc_free = rev (map int [1..<nat (MAX_GPR + 1)])\<rparr>"

definition merged_ranges :: "LivenessFacts \<Rightarrow> live_interval option \<Rightarrow> live_interval dict" where
  "merged_ranges facts loop_range =
     extend_to_loop facts loop_range (fold merge_range (gpr_ranges facts) [])"

definition gpr_scan :: "LivenessFacts \<Rightarrow> live_interval option \<Rightarrow> int dict" where
  "gpr_scan facts loop_range =
     sc_mapping (fold scan_step (sort_key (fst \<circ> snd) (merged_ranges facts loop_range)) initial_scan)"

subsection \<open>Predicates\<close>

definition pred_step :: "string \<times> LiveRange \<Rightarrow> scan_state \<Rightarrow> scan_state" where
  "pred_step r s = (case r of (name, lr) \<Rightarrow>
     allocate_single (range_base name) (last_use lr) (expire (first_def lr) s))"

definition pred_scan :: "LivenessFacts \<Rightarrow> int dict" where
  "pred_scan facts = sc_mapping (fold pred_step (sort_key (first_def \<circ> snd) (pred_ranges facts))
     \<lparr>sc_mapping = [], sc_active = [], sc_free = map int [0..<nat (MAX_PRED + 1)]\<rparr>)"

subsection \<open>The pass\<close>

definition max_or_zero :: "int list \<Rightarrow> int" where
  "max_or_zero xs = (case xs of [] \<Rightarrow> 0 | x # ys \<Rightarrow> foldl max x ys)"

definition mapping_detail :: "int dict \<Rightarrow> detail" where
  "mapping_detail d = DDict (map (\<lambda>(k, v). (k, DInt v)) d)"

text \<open>\<^verbatim>\<open>except (KeyError, ValueError)\<close>: the errors of control flow are \<^verbatim>\<open>ValueError\<close>s.\<close>

definition caught :: "pass_error \<Rightarrow> bool" where
  "caught e = (case e of PassCFGError _ \<Rightarrow> True | PassValueError _ \<Rightarrow> True | _ \<Rightarrow> False)"

definition loop_range_of :: "ir_module \<Rightarrow> AnalysisManager \<Rightarrow> pass_error + live_interval option \<times> AnalysisManager" where
  "loop_range_of m am = (case get_cfg m am of
     Inl e \<Rightarrow> if caught e then Inr (None, am) else Inl e
   | Inr (g, am') \<Rightarrow> Inr (compute_loop_range (mod_program m) g, am'))"

definition ra_run :: pass_run where
  "ra_run m am = bind_r (get_liveness m am) (\<lambda>(facts, am1).
     bind_r (loop_range_of m am1) (\<lambda>(loop_range, am2).
     if gpr_ranges facts = [] then
       Inr (m, am2, unchanged_result [(''allocated'', DInt 0), (''pressure'', DInt 0)])
     else
       (let mapping = gpr_scan facts loop_range; preds = pred_scan facts;
            n = int (length mapping) in
        Inr (m\<lparr>metadata := AList.update ''predicate_mapping'' (mapping_detail preds)
                 (AList.update ''register_mapping'' (mapping_detail mapping) (metadata m))\<rparr>, am2,
             \<lparr>res_changed = True, res_details =
                [(''allocated_gprs'', DInt n), (''allocated_preds'', DInt (int (length preds))),
                 (''total_virtual_regs'', DInt (int (length (gpr_ranges facts)))),
                 (''register_pressure'', DInt n), (''max_gpr'', DInt (max_or_zero (map snd mapping))),
                 (''transforms_applied'', DInt 0), (''loop_extended'', DBool (loop_range \<noteq> None))],
              res_invalidated = []\<rparr>))))"

end
