(* ===== verification/Lowering.thy ===== *)
theory Lowering
  imports PTX_Sem Scheduler CFG Uniformity
begin

text \<open>
  \<^verbatim>\<open>src/src/aec_compiler/legacy_lowering.py\<close>: the register allocator of the lowering, the control
  plan that decides how each conditional branch is emitted, the translation of each PTX instruction
  to AEC instructions, and branch patching. The mutable fields of \<^verbatim>\<open>Lowerer\<close> are the record
  \<open>lower_state\<close>, passed along; what its constructor fixes is \<open>lower_env\<close>. An operation is a
  function of the state that returns \<open>Inl\<close> of the exception or a result with the new state, and
  \<open>lbind\<close> sequences two of them.
\<close>

datatype compile_error =
    UnsupportedParameterType string
  | UnknownParameter nat string
  | UnsupportedPTXOpcode nat string
  | OperandCount nat string nat nat
  | MalformedSetp nat string
  | MalformedCvt nat string
  | BranchNotUniform nat
  | UnknownBranchLabel string
  | OutOfRegisters
  | OutOfTemporaries int
  | InvalidPredicate string
  | PredicateOutOfRange string
  | ControlFlow cfg_error
  | LowerValueError
  | LowerKeyError string
  | LowerIndexError

definition TYPE_SIZE :: "int dict" where
  "TYPE_SIZE = [(''u64'', 8), (''b64'', 8), (''f64'', 8), (''u32'', 4), (''b32'', 4), (''s32'', 4),
     (''f32'', 4), (''u16'', 2), (''f16'', 2)]"

definition PTX_TO_AEC_TYPE :: "string dict" where
  "PTX_TO_AEC_TYPE = [(''u64'', ''b64''), (''b64'', ''b64''), (''u32'', ''u32''), (''b32'', ''b32''),
     (''s32'', ''s32''), (''f32'', ''f32''), (''f16'', ''f16''), (''pred'', ''none'')]"

definition SPECIAL_MOVE_TYPE :: "string dict" where
  "SPECIAL_MOVE_TYPE = map (\<lambda>r. (r, ''u32''))
     [''%tid'', ''%tid.x'', ''%tid.y'', ''%tid.z'', ''%ntid'', ''%ntid.x'', ''%ntid.y'', ''%ntid.z'',
      ''%ctaid'', ''%ctaid.x'', ''%ctaid.y'', ''%ctaid.z'', ''%nctaid'', ''%nctaid.x'', ''%nctaid.y'',
      ''%nctaid.z'', ''%laneid'', ''%warpid'']"

definition is_pair_register_name :: "string \<Rightarrow> bool" where
  "is_pair_register_name token0 =
     (let token = py_strip token0 in starts_with token ''%rd'' \<or> starts_with token ''%bd'')"

subsection \<open>The register allocator\<close>

record RegisterAllocator =
  ra_next :: int
  ra_mapping :: "int dict"
  ra_temp_next :: int
  ra_reserved :: "int list"

definition reserved_by :: "int dict \<Rightarrow> int list" where
  "reserved_by pre = concat (map (\<lambda>(v, r). if is_pair_register_name v then [r, r + 1] else [r]) pre)"

definition new_allocator :: "int dict \<Rightarrow> RegisterAllocator" where
  "new_allocator pre = \<lparr>ra_next = 1, ra_mapping = pre, ra_temp_next = 240, ra_reserved = reserved_by pre\<rparr>"

definition needed_registers :: "nat \<Rightarrow> int \<Rightarrow> int list" where
  "needed_registers width base = (if width = 1 then [base] else [base, base + 1])"

text \<open>The search loop of \<^verbatim>\<open>_allocate\<close> from \<open>base\<close> on.\<close>

function find_free :: "int list \<Rightarrow> nat \<Rightarrow> int \<Rightarrow> compile_error + int" where
  "find_free reserved width base0 =
     (let base = (if width = 2 \<and> base0 mod 2 = 1 then base0 + 1 else base0);
          needed = needed_registers width base in
      if list_all (\<lambda>r. r \<notin> set reserved) needed \<and> last needed < 240 then Inr base
      else if 240 \<le> base + 1 then Inl OutOfRegisters
      else find_free reserved width (base + 1))"
  by pat_completeness auto
termination
proof (relation "measure (\<lambda>(reserved, width, base). nat (240 - base))", goal_cases)
  case (2 reserved width base0 base needed)
  then have "base0 \<le> base" "base + 1 < 240" by simp_all
  then show ?case by simp
qed simp

declare find_free.simps [simp del]

definition ra_allocate :: "nat \<Rightarrow> RegisterAllocator \<Rightarrow> compile_error + int \<times> RegisterAllocator" where
  "ra_allocate width a = bind_r (find_free (ra_reserved a) width (ra_next a)) (\<lambda>base.
     Inr (base, a\<lparr>ra_reserved := needed_registers width base @ ra_reserved a,
                  ra_next := base + int width\<rparr>))"

definition ra_reg :: "string \<Rightarrow> bool \<Rightarrow> RegisterAllocator \<Rightarrow> compile_error + int \<times> RegisterAllocator" where
  "ra_reg token0 is_pair a =
     (let token = py_strip token0 in
      case map_of (ra_mapping a) token of
        Some r \<Rightarrow> Inr (r, a)
      | None \<Rightarrow> bind_r (ra_allocate (if is_pair then 2 else 1) a) (\<lambda>(r, a').
          Inr (r, a'\<lparr>ra_mapping := AList.update token r (ra_mapping a')\<rparr>)))"

definition ra_temp :: "RegisterAllocator \<Rightarrow> compile_error + int \<times> RegisterAllocator" where
  "ra_temp a = (let v = ra_temp_next a in
     if 255 < v then Inl (OutOfTemporaries v) else Inr (v, a\<lparr>ra_temp_next := v + 1\<rparr>))"

definition reset_temps :: "RegisterAllocator \<Rightarrow> RegisterAllocator" where
  "reset_temps a = a\<lparr>ra_temp_next := 240\<rparr>"

subsection \<open>Parameters and operands\<close>

definition layout_step :: "Parameter \<Rightarrow> int dict \<times> int \<Rightarrow> compile_error + int dict \<times> int" where
  "layout_step param st = (case st of (offsets, offset) \<Rightarrow>
     (case map_of TYPE_SIZE (param_dtype param) of
        None \<Rightarrow> Inl (UnsupportedParameterType (param_dtype param))
      | Some sz \<Rightarrow>
          (let alignment = min sz 8;
               start = (if offset mod alignment \<noteq> 0 then offset + (alignment - offset mod alignment)
                        else offset)
           in Inr (AList.update (param_name param) start offsets, start + sz))))"

definition layout_parameters :: "PTXProgram \<Rightarrow> compile_error + int dict" where
  "layout_parameters p = bind_r (fold_r layout_step (parameters p) ([], 0)) (\<lambda>(offsets, _). Inr offsets)"

text \<open>\<^verbatim>\<open>_is_register\<close>: the expression is that of \<open>is_register_name\<close>, anchored at both ends.\<close>

definition is_register_token :: "string \<Rightarrow> bool" where
  "is_register_token token = is_register_name (py_strip token)"

definition predicate_number :: "string \<Rightarrow> compile_error + int" where
  "predicate_number token0 =
     (let t0 = py_strip token0; token = (if starts_with t0 ''%'' then tl t0 else t0) in
      if token = ''p'' then Inr 0
      else if \<not> (starts_with token ''p'' \<and> all_digits (tl token)) then Inl (InvalidPredicate token)
      else (case digits_value 10 0 (tl token) of
              None \<Rightarrow> Inl (InvalidPredicate token)
            | Some n \<Rightarrow> if n \<le> 7 then Inr (int n) else Inl (PredicateOutOfRange token)))"

definition immediate_r :: "string \<Rightarrow> compile_error + int" where
  "immediate_r token = (case parse_immediate token of None \<Rightarrow> Inl LowerValueError | Some v \<Rightarrow> Inr v)"

definition conversion_opcode :: "string \<Rightarrow> string \<Rightarrow> string" where
  "conversion_opcode dest_type src_type =
     (let dest_is_float = (starts_with dest_type ''f'' \<or> dest_type = ''bf16'');
          src_is_float = (starts_with src_type ''f'' \<or> src_type = ''bf16'') in
      if dest_is_float \<and> src_is_float then ''CVTFF''
      else if \<not> dest_is_float \<and> src_is_float then ''CVTFI''
      else if dest_is_float \<and> \<not> src_is_float then ''CVTIF''
      else ''CVTII'')"

definition aec_type_of :: "string \<Rightarrow> compile_error + string" where
  "aec_type_of t = (case map_of PTX_TO_AEC_TYPE t of None \<Rightarrow> Inl (LowerKeyError t) | Some a \<Rightarrow> Inr a)"

definition aec_type_or :: "string \<Rightarrow> string" where
  "aec_type_or t = (case map_of PTX_TO_AEC_TYPE t of None \<Rightarrow> t | Some a \<Rightarrow> a)"

definition wide_type :: "string \<Rightarrow> bool" where
  "wide_type t \<longleftrightarrow> t = ''u64'' \<or> t = ''b64''"

subsection \<open>The control plan\<close>

record InstructionGuard =
  ig_predicate :: int
  ig_negated :: bool

record ControlPlan =
  skip_items :: "nat list"
  item_guards :: "(nat \<times> InstructionGuard) list"
  uniform_branch_items :: "nat list"
  loop_backedge_branch_items :: "nat list"
  legacy_varying_branch_items :: "nat list"

definition label_indices :: "PTXProgram \<Rightarrow> nat dict" where
  "label_indices p = fold (\<lambda>(index, it) d. case it of Label l \<Rightarrow> AList.update l index d | Inst _ \<Rightarrow> d)
     (enumerate 0 (items p)) []"

definition loop_backedge_branches :: "CFG \<Rightarrow> nat list" where
  "loop_backedge_branches g = concat (map (\<lambda>(t, h).
     (let b = block_of g t in
      if h \<notin> set (branch_successors b) \<or> item_indices b = [] then [] else [last (item_indices b)]))
     (backedges g))"

definition uses_of :: "UniformityFacts \<Rightarrow> nat \<Rightarrow> string list" where
  "uses_of f k = (case map_of (uni_uses f) k of None \<Rightarrow> [] | Some us \<Rightarrow> us)"

definition defs_of :: "UniformityFacts \<Rightarrow> string \<Rightarrow> nat list" where
  "defs_of f r = (case map_of (uni_definitions f) r of None \<Rightarrow> [] | Some ds \<Rightarrow> ds)"

text \<open>
  The recursive slice: a position not yet in \<open>control\<close> is added, then the definitions of its
  operands inside the region. Every level of the recursion adds a position of the region, whose
  size therefore bounds its depth.
\<close>

fun collect_uniform_slice :: "nat \<Rightarrow> nat list \<Rightarrow> UniformityFacts \<Rightarrow> nat \<Rightarrow> nat list \<Rightarrow> nat list" where
  "collect_uniform_slice 0 region f index control = control"
| "collect_uniform_slice (Suc k) region f index control =
     (if index \<in> set control then control
      else fold (\<lambda>operand. fold (\<lambda>d c. if d \<in> set region then collect_uniform_slice k region f d c else c)
             (defs_of f operand)) (uses_of f index) (index # control))"

definition uniform_control_indices :: "nat list \<Rightarrow> UniformityFacts \<Rightarrow> nat list \<Rightarrow> nat list" where
  "uniform_control_indices region f backs =
     fold (collect_uniform_slice (Suc (length region)) region f)
       (filter (\<lambda>b. b \<in> set backs) (sort region)) []"

definition region_of :: "PTXProgram \<Rightarrow> nat \<Rightarrow> nat \<Rightarrow> nat list" where
  "region_of p a b = filter (\<lambda>k. case items p ! k of Label _ \<Rightarrow> False | Inst _ \<Rightarrow> True) [Suc a..<b]"

definition is_bra_at :: "PTXProgram \<Rightarrow> nat \<Rightarrow> bool" where
  "is_bra_at p k = (case items p ! k of Label _ \<Rightarrow> False
     | Inst i \<Rightarrow> hd (opcode_parts (inst_opcode i)) = ''bra'')"

text \<open>The plan with the branch legalised, or \<open>None\<close> when it cannot be.\<close>

definition try_legalize_forward_exit :: "PTXProgram \<Rightarrow> nat dict \<Rightarrow> nat \<Rightarrow> UniformityFacts
    \<Rightarrow> ControlPlan \<Rightarrow> compile_error + ControlPlan option" where
  "try_legalize_forward_exit p labels branch_index f plan = (case items p ! branch_index of
     Label _ \<Rightarrow> Inr None
   | Inst i \<Rightarrow>
      (case (guard i, operands i) of
         (Some pr, [target]) \<Rightarrow>
           if hd (opcode_parts (inst_opcode i)) \<noteq> ''bra'' then Inr None
           else (case map_of labels target of
             None \<Rightarrow> Inr None
           | Some target_index \<Rightarrow>
               if target_index \<le> branch_index then Inr None
               else
                 (let region = region_of p branch_index target_index;
                      control = uniform_control_indices region f (loop_backedge_branch_items plan) in
                  if region = [] then Inr None
                  else if list_ex (\<lambda>k. is_bra_at p k \<and> k \<notin> set control) region then Inr None
                  else bind_r (predicate_number pr) (\<lambda>n.
                    (let g = \<lparr>ig_predicate = n, ig_negated = (\<not> guard_negated i)\<rparr>;
                         guarded = filter (\<lambda>k. k \<notin> set control) region in
                     if list_ex (\<lambda>k. case map_of (item_guards plan) k of None \<Rightarrow> False
                                     | Some e \<Rightarrow> e \<noteq> g) guarded then Inr None
                     else Inr (Some (plan\<lparr>skip_items := List.insert branch_index (skip_items plan),
                            item_guards := fold (\<lambda>k. AList.update k g) guarded (item_guards plan)\<rparr>))))))
       | _ \<Rightarrow> Inr None))"

definition plan_branch :: "PTXProgram \<Rightarrow> nat dict \<Rightarrow> UniformityFacts \<Rightarrow> nat \<times> BranchUniformity
    \<Rightarrow> ControlPlan \<Rightarrow> compile_error + ControlPlan" where
  "plan_branch p labels f branch plan = (case branch of (k, b) \<Rightarrow>
     if bu_state b = Uniform then Inr plan
     else bind_r (try_legalize_forward_exit p labels k f plan) (\<lambda>r. Inr (case r of
       Some plan' \<Rightarrow> plan'
     | None \<Rightarrow> if bu_state b = Varying
               then plan\<lparr>legacy_varying_branch_items := List.insert k (legacy_varying_branch_items plan)\<rparr>
               else plan)))"

definition build_control_plan :: "PTXProgram \<Rightarrow> CFG \<Rightarrow> UniformityFacts \<Rightarrow> compile_error + ControlPlan" where
  "build_control_plan p g f =
     fold_r (plan_branch p (label_indices p) f) (branch_states f)
       \<lparr>skip_items = [], item_guards = [],
        uniform_branch_items = map fst (filter (\<lambda>(_, b). bu_state b = Uniform) (branch_states f)),
        loop_backedge_branch_items = loop_backedge_branches g, legacy_varying_branch_items = []\<rparr>"

subsection \<open>The lowering state\<close>

record lower_env =
  le_program :: PTXProgram
  le_profile :: ISAProfile
  le_offsets :: "int dict"
  le_plan :: ControlPlan

record lower_state =
  ls_regs :: RegisterAllocator
  ls_out :: "AECInstruction list"
  ls_labels :: "int dict"
  ls_pending :: "(nat \<times> string) list"

type_synonym 'a lowering = "lower_state \<Rightarrow> compile_error + 'a \<times> lower_state"

definition lbind :: "'a lowering \<Rightarrow> ('a \<Rightarrow> 'b lowering) \<Rightarrow> 'b lowering" where
  "lbind m f s = bind_r (m s) (\<lambda>(x, s'). f x s')"

definition lift_l :: "compile_error + 'a \<Rightarrow> 'a lowering" where
  "lift_l r s = bind_r r (\<lambda>x. Inr (x, s))"

definition on_regs :: "(RegisterAllocator \<Rightarrow> compile_error + 'a \<times> RegisterAllocator) \<Rightarrow> 'a lowering" where
  "on_regs f s = bind_r (f (ls_regs s)) (\<lambda>(x, a). Inr (x, s\<lparr>ls_regs := a\<rparr>))"

definition emit :: "lower_env \<Rightarrow> nat \<Rightarrow> AECInstruction \<Rightarrow> unit lowering" where
  "emit env k inst s =
     (let inst' = (case map_of (item_guards (le_plan env)) k of
            None \<Rightarrow> inst
          | Some g \<Rightarrow> if predicate inst = None
                      then inst\<lparr>predicate := Some (ig_predicate g), predicate_negated := ig_negated g\<rparr>
                      else inst)
      in Inr ((), s\<lparr>ls_out := ls_out s @ [inst']\<rparr>))"

definition ptx_reg :: "string \<Rightarrow> bool \<Rightarrow> int lowering" where
  "ptx_reg token0 is_pair =
     (let token = py_strip token0 in on_regs (ra_reg token (is_pair \<or> starts_with token ''%rd'')))"

definition load_imm :: "lower_env \<Rightarrow> nat \<Rightarrow> int \<Rightarrow> int lowering" where
  "load_imm env k value = lbind (on_regs ra_temp) (\<lambda>r.
     lbind (emit env k ((aec ''LOADI'')\<lparr>dest := r, imm := value\<rparr>)) (\<lambda>_. lift_l (Inr r)))"

definition operand_reg :: "lower_env \<Rightarrow> nat \<Rightarrow> string \<Rightarrow> bool \<Rightarrow> int lowering" where
  "operand_reg env k token is_pair =
     (if is_register_token token then ptx_reg token is_pair
      else lbind (lift_l (immediate_r token)) (load_imm env k))"

definition with_guard :: "PTXInstruction \<Rightarrow> AECInstruction \<Rightarrow> compile_error + AECInstruction" where
  "with_guard i inst = (case guard i of None \<Rightarrow> Inr inst
     | Some p \<Rightarrow> bind_r (predicate_number p) (\<lambda>n.
         Inr (inst\<lparr>predicate := Some n, predicate_negated := guard_negated i\<rparr>)))"

definition emit_guarded :: "lower_env \<Rightarrow> nat \<Rightarrow> PTXInstruction \<Rightarrow> AECInstruction \<Rightarrow> unit lowering" where
  "emit_guarded env k i inst = lbind (lift_l (with_guard i inst)) (emit env k)"

definition require_operands :: "PTXInstruction \<Rightarrow> nat \<Rightarrow> unit lowering" where
  "require_operands i n = lift_l (if length (operands i) \<noteq> n
     then Inl (OperandCount (source_line i) (inst_opcode i) n (length (operands i))) else Inr ())"

subsection \<open>Instructions\<close>

definition lower_ld_param :: "lower_env \<Rightarrow> nat \<Rightarrow> PTXInstruction \<Rightarrow> string \<Rightarrow> unit lowering" where
  "lower_ld_param env k i ptx_type = lbind (require_operands i 2) (\<lambda>_.
     let d = operands i ! 0; param_nm = strip_brackets (operands i ! 1) in
     case map_of (le_offsets env) param_nm of
       None \<Rightarrow> lift_l (Inl (UnknownParameter (source_line i) param_nm))
     | Some base_offset \<Rightarrow>
         lbind (ptx_reg d (wide_type ptx_type)) (\<lambda>dest_reg.
         if wide_type ptx_type then
           lbind (on_regs ra_temp) (\<lambda>tmp_lo.
           lbind (emit env k ((aec ''LOADI'')\<lparr>dest := tmp_lo, imm := base_offset\<rparr>)) (\<lambda>_.
           lbind (emit env k ((aec ''LD'')\<lparr>dtype := ''u32'', dest := dest_reg, src1 := tmp_lo,
                                memory_space := Some ''pmem''\<rparr>)) (\<lambda>_.
           lbind (on_regs ra_temp) (\<lambda>tmp_hi.
           lbind (emit env k ((aec ''LOADI'')\<lparr>dest := tmp_hi, imm := base_offset + 4\<rparr>)) (\<lambda>_.
           emit env k ((aec ''LD'')\<lparr>dtype := ''u32'', dest := dest_reg + 1, src1 := tmp_hi,
                         memory_space := Some ''pmem''\<rparr>))))))
         else
           lbind (on_regs ra_temp) (\<lambda>tmp.
           lbind (emit env k ((aec ''LOADI'')\<lparr>dest := tmp, imm := base_offset\<rparr>)) (\<lambda>_.
           lbind (lift_l (aec_type_of ptx_type)) (\<lambda>dt.
           emit env k ((aec ''LD'')\<lparr>dtype := dt, dest := dest_reg, src1 := tmp,
                         memory_space := Some ''pmem''\<rparr>))))))"

definition lower_ld_global :: "lower_env \<Rightarrow> nat \<Rightarrow> PTXInstruction \<Rightarrow> string \<Rightarrow> unit lowering" where
  "lower_ld_global env k i ptx_type = lbind (require_operands i 2) (\<lambda>_.
     lbind (ptx_reg (strip_brackets (operands i ! 1)) True) (\<lambda>addr_reg.
     lbind (lift_l (aec_type_of ptx_type)) (\<lambda>dt.
     lbind (ptx_reg (operands i ! 0) False) (\<lambda>dest_reg.
     emit_guarded env k i ((aec ''LD'')\<lparr>dtype := dt, dest := dest_reg, src1 := addr_reg,
       memory_space := Some ''gmem''\<rparr>)))))"

definition lower_st_global :: "lower_env \<Rightarrow> nat \<Rightarrow> PTXInstruction \<Rightarrow> string \<Rightarrow> unit lowering" where
  "lower_st_global env k i ptx_type = lbind (require_operands i 2) (\<lambda>_.
     lbind (lift_l (aec_type_of ptx_type)) (\<lambda>dt.
     lbind (ptx_reg (strip_brackets (operands i ! 0)) True) (\<lambda>addr_reg.
     lbind (ptx_reg (operands i ! 1) False) (\<lambda>src_reg.
     emit_guarded env k i ((aec ''ST'')\<lparr>dtype := dt, src1 := addr_reg, src2 := src_reg,
       memory_space := Some ''gmem''\<rparr>)))))"

definition lower_mov :: "lower_env \<Rightarrow> nat \<Rightarrow> PTXInstruction \<Rightarrow> string \<Rightarrow> unit lowering" where
  "lower_mov env k i ptx_type = lbind (require_operands i 2) (\<lambda>_.
     let source = operands i ! 1 in
     lbind (ptx_reg (operands i ! 0) (wide_type ptx_type)) (\<lambda>dest_reg.
     case map_of (special_registers (le_profile env)) source of
       Some sel \<Rightarrow>
         (case map_of SPECIAL_MOVE_TYPE source of
            None \<Rightarrow> lift_l (Inl (LowerKeyError source))
          | Some dt \<Rightarrow> emit_guarded env k i ((aec ''CPY'')\<lparr>dtype := dt, dest := dest_reg, src1 := sel\<rparr>))
     | None \<Rightarrow>
         if is_register_token source then
           lbind (ptx_reg source (wide_type ptx_type)) (\<lambda>r.
           emit_guarded env k i ((aec ''CPY'')\<lparr>dtype := aec_type_or ptx_type, dest := dest_reg, src1 := r\<rparr>))
         else
           lbind (lift_l (immediate_r source)) (\<lambda>v.
           emit_guarded env k i ((aec (if wide_type ptx_type then ''LOADI64'' else ''LOADI''))
             \<lparr>dest := dest_reg, imm := v\<rparr>))))"

definition lower_setp :: "lower_env \<Rightarrow> nat \<Rightarrow> PTXInstruction \<Rightarrow> string list \<Rightarrow> unit lowering" where
  "lower_setp env k i parts = lbind (require_operands i 3) (\<lambda>_.
     if length parts \<noteq> 3 then lift_l (Inl (MalformedSetp (source_line i) (inst_opcode i)))
     else
       lbind (lift_l (aec_type_of (parts ! 2))) (\<lambda>dt.
       lbind (lift_l (predicate_number (operands i ! 0))) (\<lambda>d.
       lbind (operand_reg env k (operands i ! 1) False) (\<lambda>a.
       lbind (operand_reg env k (operands i ! 2) False) (\<lambda>b.
       emit_guarded env k i ((aec ''CMPP'')\<lparr>dtype := dt, dest := d, src1 := a, src2 := b,
         compare := Some (parts ! 1)\<rparr>))))))"

definition add_pending :: "string \<Rightarrow> unit lowering" where
  "add_pending target s = Inr ((), s\<lparr>ls_pending := ls_pending s @ [(length (ls_out s), target)]\<rparr>)"

definition lower_bra :: "lower_env \<Rightarrow> nat \<Rightarrow> PTXInstruction \<Rightarrow> unit lowering" where
  "lower_bra env k i = lbind (require_operands i 1) (\<lambda>_.
     lbind (lift_l (case guard i of
         None \<Rightarrow> Inr (aec ''BR'')
       | Some p \<Rightarrow>
           if k \<notin> set (uniform_branch_items (le_plan env)) \<and>
              k \<notin> set (legacy_varying_branch_items (le_plan env))
           then Inl (BranchNotUniform (source_line i))
           else bind_r (predicate_number p) (\<lambda>n.
             Inr ((aec ''BRX'')\<lparr>predicate := Some n, predicate_negated := guard_negated i\<rparr>)))) (\<lambda>branch.
     lbind (add_pending (operands i ! 0)) (\<lambda>_. emit env k branch)))"

definition wide_cvt_type :: "string \<Rightarrow> bool" where
  "wide_cvt_type t \<longleftrightarrow> t = ''u64'' \<or> t = ''b64'' \<or> t = ''f64''"

definition lower_cvt :: "lower_env \<Rightarrow> nat \<Rightarrow> PTXInstruction \<Rightarrow> string list \<Rightarrow> unit lowering" where
  "lower_cvt env k i parts = lbind (require_operands i 2) (\<lambda>_.
     if length parts \<noteq> 3 then lift_l (Inl (MalformedCvt (source_line i) (inst_opcode i)))
     else
       lbind (lift_l (aec_type_of (parts ! 1))) (\<lambda>dt.
       lbind (lift_l (aec_type_of (parts ! 2))) (\<lambda>st.
       lbind (ptx_reg (operands i ! 0) (wide_cvt_type (parts ! 1))) (\<lambda>d.
       lbind (ptx_reg (operands i ! 1) (wide_cvt_type (parts ! 2))) (\<lambda>a.
       emit_guarded env k i ((aec (conversion_opcode (parts ! 1) (parts ! 2)))
         \<lparr>dtype := dt, cvt_src_type := Some st, dest := d, src1 := a\<rparr>))))))"

definition ALU_OPCODES :: "string dict" where
  "ALU_OPCODES = [(''add'', ''ADD''), (''sub'', ''SUB''), (''mul'', ''MUL''), (''mad'', ''MAD''),
     (''and'', ''AND''), (''or'', ''OR''), (''xor'', ''XOR''), (''shl'', ''SHL''), (''shr'', ''SHR''),
     (''fma'', ''FMA'')]"

text \<open>The pair with a zero high word: \<^verbatim>\<open>mul.wide\<close> and the 64-bit \<^verbatim>\<open>add\<close>.\<close>

definition emit_wide :: "lower_env \<Rightarrow> nat \<Rightarrow> PTXInstruction \<Rightarrow> string \<Rightarrow> bool \<Rightarrow> unit lowering" where
  "emit_wide env k i op pair_sources =
     lbind (ptx_reg (operands i ! 0) True) (\<lambda>dest_low.
     lbind (operand_reg env k (operands i ! 1) pair_sources) (\<lambda>a.
     lbind (operand_reg env k (operands i ! 2) pair_sources) (\<lambda>b.
     lbind (emit_guarded env k i ((aec op)\<lparr>dtype := ''u32'', dest := dest_low, src1 := a, src2 := b\<rparr>)) (\<lambda>_.
     emit_guarded env k i ((aec ''LOADI'')\<lparr>dtype := ''u32'', dest := dest_low + 1, imm := 0\<rparr>)))))"

definition lower_alu :: "lower_env \<Rightarrow> nat \<Rightarrow> PTXInstruction \<Rightarrow> string list \<Rightarrow> unit lowering" where
  "lower_alu env k i parts =
     (let base = hd parts; ptx_type = last parts;
          opc = (case map_of ALU_OPCODES base of None \<Rightarrow> [] | Some o' \<Rightarrow> o');
          aec_ty = (if base = ''shl'' then ''u32'' else aec_type_or ptx_type) in
      lbind (require_operands i (if base = ''mad'' \<or> base = ''fma'' then 4 else 3)) (\<lambda>_.
      if base = ''mul'' \<and> 3 \<le> length parts \<and> parts ! 1 = ''wide'' then emit_wide env k i ''MUL'' False
      else if base = ''mad'' \<or> base = ''fma'' then
        lbind (ptx_reg (operands i ! 0) False) (\<lambda>d.
        lbind (operand_reg env k (operands i ! 1) False) (\<lambda>a.
        lbind (operand_reg env k (operands i ! 2) False) (\<lambda>b.
        lbind (operand_reg env k (operands i ! 3) False) (\<lambda>c.
        emit_guarded env k i ((aec opc)\<lparr>dtype := aec_ty, dest := d, src1 := a, src2 := b, src3 := c\<rparr>)))))
      else if base = ''add'' \<and> wide_type ptx_type then emit_wide env k i ''ADD'' True
      else
        lbind (ptx_reg (operands i ! 0) False) (\<lambda>d.
        lbind (operand_reg env k (operands i ! 1) False) (\<lambda>a.
        lbind (operand_reg env k (operands i ! 2) False) (\<lambda>b.
        emit_guarded env k i ((aec opc)\<lparr>dtype := aec_ty, dest := d, src1 := a, src2 := b\<rparr>))))))"

definition lower_instruction :: "lower_env \<Rightarrow> nat \<Rightarrow> PTXInstruction \<Rightarrow> unit lowering" where
  "lower_instruction env k i =
     (let parts = opcode_parts (inst_opcode i); base = hd parts in
      if base = ''ld'' \<and> 3 \<le> length parts \<and> parts ! 1 = ''param'' then lower_ld_param env k i (parts ! 2)
      else if base = ''ld'' \<and> 3 \<le> length parts \<and> parts ! 1 = ''global'' then lower_ld_global env k i (parts ! 2)
      else if base = ''st'' \<and> 3 \<le> length parts \<and> parts ! 1 = ''global'' then lower_st_global env k i (parts ! 2)
      else if base = ''mov'' then
        (if length parts < 2 then lift_l (Inl LowerIndexError) else lower_mov env k i (parts ! 1))
      else if base = ''setp'' then lower_setp env k i parts
      else if base = ''bra'' then lower_bra env k i
      else if base = ''ret'' then emit env k (aec ''HALT'')
      else if base = ''cvt'' then lower_cvt env k i parts
      else if base \<in> fst ` set ALU_OPCODES then lower_alu env k i parts
      else lift_l (Inl (UnsupportedPTXOpcode (source_line i) (inst_opcode i))))"

subsection \<open>The program\<close>

definition lower_item :: "lower_env \<Rightarrow> nat \<times> item \<Rightarrow> lower_state \<Rightarrow> compile_error + lower_state" where
  "lower_item env indexed s = (case indexed of (k, it) \<Rightarrow>
     (case it of
        Label l \<Rightarrow> Inr (s\<lparr>ls_labels := AList.update l (int (length (ls_out s))) (ls_labels s)\<rparr>)
      | Inst i \<Rightarrow>
          if k \<in> set (skip_items (le_plan env)) then Inr s
          else bind_r (lower_instruction env k i (s\<lparr>ls_regs := reset_temps (ls_regs s)\<rparr>)) (\<lambda>(_, s'). Inr s')))"

definition patch_branch :: "int dict \<Rightarrow> nat \<times> string \<Rightarrow> AECInstruction list
    \<Rightarrow> compile_error + AECInstruction list" where
  "patch_branch labels pb out = (case pb of (index, label) \<Rightarrow>
     (case map_of labels label of
        None \<Rightarrow> Inl (UnknownBranchLabel label)
      | Some target \<Rightarrow> Inr (out[index := (out ! index)\<lparr>imm := target\<rparr>])))"

definition new_lower_state :: "int dict \<Rightarrow> lower_state" where
  "new_lower_state mapping =
     \<lparr>ls_regs = new_allocator mapping, ls_out = [], ls_labels = [], ls_pending = []\<rparr>"

definition new_lower_env :: "PTXProgram \<Rightarrow> ISAProfile \<Rightarrow> compile_error + lower_env" where
  "new_lower_env p prof =
     bind_r (layout_parameters p) (\<lambda>offsets.
     bind_r (case build_cfg p of Inl e \<Rightarrow> Inl (ControlFlow e) | Inr g \<Rightarrow> Inr g) (\<lambda>g.
     bind_r (build_control_plan p g (analyze_uniformity p)) (\<lambda>plan.
     Inr \<lparr>le_program = p, le_profile = prof, le_offsets = offsets, le_plan = plan\<rparr>)))"

definition lower_program :: "PTXProgram \<Rightarrow> ISAProfile \<Rightarrow> int dict \<Rightarrow> compile_error + LoweredProgram" where
  "lower_program p prof mapping =
     bind_r (new_lower_env p prof) (\<lambda>env.
     bind_r (fold_r (lower_item env) (enumerate 0 (items p)) (new_lower_state mapping)) (\<lambda>s.
     bind_r (fold_r (patch_branch (ls_labels s)) (ls_pending s) (ls_out s)) (\<lambda>out.
     Inr \<lparr>lowered_instructions = out, parameter_offsets = le_offsets env\<rparr>)))"

end
