(* ===== verification/Reports.thy ===== *)
theory Reports
  imports Pass_Base Scheduler
begin

text \<open>
  The metrics of \<^verbatim>\<open>src/src/aec_compiler/reports/compilation.py\<close>: what the compiler reports of the
  source program, the lowered instructions and the passes that ran.
\<close>

definition WARP_LANES :: int where "WARP_LANES = 32"
definition MEMORY_SERVICE_BYTES :: int where "MEMORY_SERVICE_BYTES = 128"

definition CYCLE_MODEL_METRIC_KEYS :: "string list" where
  "CYCLE_MODEL_METRIC_KEYS =
     [''total_cycles'', ''spill_count'', ''dual_issue_rate'', ''memory_transactions'', ''stall_cycles'']"

definition PERFORMANCE_TARGETS :: "string list" where
  "PERFORMANCE_TARGETS =
     [''aec_slide_constraints'', ''track_c_hint_platform_a'', ''track_c_hint_platform_b'']"

definition DATA_TYPE_BYTES :: "int dict" where
  "DATA_TYPE_BYTES = [(''u8'', 1), (''s8'', 1), (''u16'', 2), (''s16'', 2), (''f16'', 2), (''bf16'', 2),
     (''b32'', 4), (''u32'', 4), (''s32'', 4), (''f32'', 4), (''b64'', 8), (''u64'', 8), (''s64'', 8),
     (''f64'', 8), (''none'', 0)]"

definition null_cycle_model_metrics :: "detail dict" where
  "null_cycle_model_metrics = map (\<lambda>k. (k, DNone)) CYCLE_MODEL_METRIC_KEYS"

subsection \<open>Static metrics\<close>

definition memory_instruction_bytes :: "AECInstruction \<Rightarrow> int" where
  "memory_instruction_bytes inst =
     (if opcode inst \<notin> {''LD'', ''ST'', ''ATOM''} then 0
      else case map_of DATA_TYPE_BYTES (dtype inst) of None \<Rightarrow> 0 | Some n \<Rightarrow> n)"

definition ceil_div :: "int \<Rightarrow> int \<Rightarrow> int" where
  "ceil_div v divisor = (if v \<le> 0 then 0 else (v + divisor - 1) div divisor)"

definition count_of :: "('a \<Rightarrow> bool) \<Rightarrow> 'a list \<Rightarrow> detail" where
  "count_of P xs = DInt (int (length (filter P xs)))"

text \<open>\<^verbatim>\<open>dict(sorted(Counter(keys).items()))\<close>.\<close>

definition counter_detail :: "string list \<Rightarrow> detail" where
  "counter_detail ks = DDict (map (\<lambda>k. (k, count_of (\<lambda>l. l = k) ks)) (sort (remdups ks)))"

definition is_branch_opcode :: "AECInstruction \<Rightarrow> bool" where
  "is_branch_opcode i \<longleftrightarrow> opcode i \<in> {''BR'', ''BRX'', ''CALL'', ''RET''}"

definition gmem_instructions :: "AECInstruction list \<Rightarrow> AECInstruction list" where
  "gmem_instructions insts = filter (\<lambda>i. memory_space i = Some ''gmem'' \<and>
     opcode i \<in> {''LD'', ''ST'', ''ATOM''}) insts"

definition gmem_bytes_per_warp :: "AECInstruction list \<Rightarrow> int" where
  "gmem_bytes_per_warp insts =
     sum_list (map (\<lambda>i. memory_instruction_bytes i * WARP_LANES) (gmem_instructions insts))"

definition gmem_services_per_warp :: "AECInstruction list \<Rightarrow> int" where
  "gmem_services_per_warp insts =
     sum_list (map (\<lambda>i. ceil_div (memory_instruction_bytes i * WARP_LANES) MEMORY_SERVICE_BYTES)
       (gmem_instructions insts))"

definition option_list :: "'a option \<Rightarrow> 'a list" where
  "option_list o' = (case o' of None \<Rightarrow> [] | Some x \<Rightarrow> [x])"

definition build_static_metrics :: "LoweredProgram \<Rightarrow> detail dict" where
  "build_static_metrics lowered =
     (let insts = lowered_instructions lowered in
      [(''assumed_warp_lanes'', DInt WARP_LANES),
       (''branch_count'', count_of is_branch_opcode insts),
       (''estimated_arithmetic_intensity'', DNone), (''estimated_dependency_depth'', DNone),
       (''estimated_gmem_128b_services_per_warp'', DInt (gmem_services_per_warp insts)),
       (''estimated_gmem_bytes_per_warp'', DInt (gmem_bytes_per_warp insts)),
       (''estimated_lmem_bytes_per_thread'', DNone), (''estimated_register_pressure'', DNone),
       (''estimated_smem_bytes_per_cta'', DNone),
       (''gmem_loads'', count_of (\<lambda>i. opcode i = ''LD'' \<and> memory_space i = Some ''gmem'') insts),
       (''gmem_stores'', count_of (\<lambda>i. opcode i = ''ST'' \<and> memory_space i = Some ''gmem'') insts),
       (''instruction_count'', DInt (int (length insts))),
       (''instruction_mix'', counter_detail (map opcode insts)),
       (''memory_service_bytes'', DInt MEMORY_SERVICE_BYTES),
       (''memory_space_ops'', counter_detail (concat (map (option_list \<circ> memory_space) insts))),
       (''smem_ops'', count_of (\<lambda>i. memory_space i = Some ''smem'') insts)])"

subsection \<open>The metrics of a compilation\<close>

definition instruction_registers :: "AECInstruction \<Rightarrow> int list" where
  "instruction_registers i = filter (\<lambda>r. 0 \<le> r \<and> r \<le> 255) [dest i, src1 i, src2 i, src3 i]"

definition operand_virtual_register :: "string \<Rightarrow> string list" where
  "operand_virtual_register op =
     (let op_s = dropWhile (\<lambda>c. c = CHR ''['') (py_strip op) in
      if starts_with op_s ''%'' \<and> \<not> starts_with op_s ''%p''
      then [py_strip (before_first (CHR ''['') op_s)] else [])"

definition virtual_registers :: "PTXProgram \<Rightarrow> string list" where
  "virtual_registers p = remdups (concat (map (\<lambda>it. case it of Label _ \<Rightarrow> []
     | Inst i \<Rightarrow> concat (map operand_virtual_register (operands i))) (items p)))"

text \<open>\<^verbatim>\<open>int(record.details.get("transforms_applied", 0))\<close>.\<close>

definition detail_int :: "detail option \<Rightarrow> pass_error + int" where
  "detail_int d = (case d of
     None \<Rightarrow> Inr 0
   | Some (DInt n) \<Rightarrow> Inr n
   | Some (DBool b) \<Rightarrow> Inr (if b then 1 else 0)
   | Some (DStr s) \<Rightarrow> (case py_int 10 s of None \<Rightarrow> Inl (PassValueError ''int'') | Some n \<Rightarrow> Inr n)
   | Some _ \<Rightarrow> Inl PassTypeError)"

definition transforms_applied :: "PassRecord list \<Rightarrow> pass_error + int" where
  "transforms_applied recs = bind_r (map_r (\<lambda>r. detail_int (map_of (rec_details r) ''transforms_applied'')) recs)
     (\<lambda>ns. Inr (sum_list ns))"

definition is_inst :: "item \<Rightarrow> bool" where
  "is_inst it = (case it of Label _ \<Rightarrow> False | Inst _ \<Rightarrow> True)"

definition build_metrics :: "ir_module \<Rightarrow> LoweredProgram \<Rightarrow> PassRecord list \<Rightarrow> pass_error + detail dict" where
  "build_metrics m lowered recs = bind_r (transforms_applied recs) (\<lambda>transforms.
     let insts = lowered_instructions lowered; regs = concat (map instruction_registers insts) in
     Inr [(''basic_block_count'', DInt (int (length (fn_blocks (ir_function m))))),
          (''branch_count'', count_of is_branch_opcode insts),
          (''code_size_bytes'', DInt (int (length insts) * 16)),
          (''highest_encoded_register_index'', DInt (foldl max 0 regs)),
          (''machine_instruction_count'', DInt (int (length insts))),
          (''memory_instruction_count'', count_of (\<lambda>i. opcode i \<in> {''LD'', ''ST'', ''ATOM''}) insts),
          (''optimization_transforms_applied'', DInt transforms),
          (''source_instruction_count'', count_of is_inst (items (mod_program m))),
          (''virtual_register_count'', DInt (int (length (virtual_registers (mod_program m))))),
          (''physical_register_count'', DInt (int (length (remdups regs)))),
          (''predicate_count'', DInt (int (length (remdups (concat (map (option_list \<circ> predicate) insts)))))),
          (''spill_loads'', DInt 0), (''spill_stores'', DInt 0),
          (''static_metrics'', DDict (build_static_metrics lowered)),
          (''cycle_model_metrics'', DDict null_cycle_model_metrics)])"

end
