(* ===== verification/Compiler.thy ===== *)
theory Compiler
  imports Global_DCE Global_CP Loop_Unroll Block_Simplify RegAlloc Lowering Reports
begin

text \<open>
  \<^verbatim>\<open>src/src/aec_compiler/passes/pipelines.py\<close> and \<^verbatim>\<open>compiler.py\<close>: the pass pipelines of the
  optimisation levels and the compiler from PTX text to the bytes of a binary. Reading the input
  file and writing the output file are not part of the model.
\<close>

subsection \<open>The passes\<close>

definition validate_pass :: compiler_pass where
  "validate_pass = \<lparr>pass_name = ''validate-program'', pass_fun = plain_pass validate_program\<rparr>"

definition materialize_cfg_pass :: compiler_pass where
  "materialize_cfg_pass = \<lparr>pass_name = ''materialize-cfg'', pass_fun = materialize_cfg\<rparr>"

definition record_uniformity_pass :: compiler_pass where
  "record_uniformity_pass = \<lparr>pass_name = ''record-uniformity'', pass_fun = record_uniformity\<rparr>"

definition record_loop_analysis_pass :: compiler_pass where
  "record_loop_analysis_pass = \<lparr>pass_name = ''record-loop-analysis'', pass_fun = record_loop_analysis\<rparr>"

definition dre_pass :: compiler_pass where
  "dre_pass = \<lparr>pass_name = ''conservative-dead-result-elimination'',
     pass_fun = plain_pass (\<lambda>m. Inr (dre_run m))\<rparr>"

definition cse_pass :: compiler_pass where
  "cse_pass = \<lparr>pass_name = ''basic-block-local-cse'', pass_fun = plain_pass (\<lambda>m. Inr (cse_run m))\<rparr>"

definition lcf_pass :: "float_host \<Rightarrow> compiler_pass" where
  "lcf_pass h = \<lparr>pass_name = ''local-constant-folding'', pass_fun = plain_pass (\<lambda>m. Inr (lcf_run h m))\<rparr>"

definition gcp_pass :: compiler_pass where
  "gcp_pass = \<lparr>pass_name = ''global-constant-propagation'', pass_fun = gcp_run\<rparr>"

definition load_reuse_pass :: compiler_pass where
  "load_reuse_pass = \<lparr>pass_name = ''repeated-global-load-reuse'', pass_fun = plain_pass load_reuse_run\<rparr>"

definition gdce_pass :: compiler_pass where
  "gdce_pass = \<lparr>pass_name = ''global-dead-code-elimination'', pass_fun = plain_pass (\<lambda>m. Inr (gdce_run m))\<rparr>"

definition licm_pass :: compiler_pass where
  "licm_pass = \<lparr>pass_name = ''loop-invariant-code-motion'', pass_fun = licm_run\<rparr>"

definition block_simplify_pass :: compiler_pass where
  "block_simplify_pass = \<lparr>pass_name = ''block-simplification'', pass_fun = block_simplify_run\<rparr>"

definition load_hoist_pass :: compiler_pass where
  "load_hoist_pass = \<lparr>pass_name = ''load-hoisting'', pass_fun = load_hoist_run\<rparr>"

definition unroll_pass :: compiler_pass where
  "unroll_pass = \<lparr>pass_name = ''loop-unrolling'', pass_fun = unroll_run\<rparr>"

definition ra_pass :: compiler_pass where
  "ra_pass = \<lparr>pass_name = ''linear-scan-register-allocation'', pass_fun = ra_run\<rparr>"

subsection \<open>Pipelines\<close>

definition O0_passes :: "compiler_pass list" where
  "O0_passes = [validate_pass, materialize_cfg_pass]"

definition O2_passes :: "float_host \<Rightarrow> compiler_pass list" where
  "O2_passes h =
     [validate_pass, dre_pass, cse_pass, lcf_pass h, gcp_pass, load_reuse_pass,
      materialize_cfg_pass, record_uniformity_pass, gdce_pass, record_loop_analysis_pass, licm_pass,
      materialize_cfg_pass, record_uniformity_pass, block_simplify_pass,
      materialize_cfg_pass, record_uniformity_pass, load_hoist_pass,
      materialize_cfg_pass, record_uniformity_pass, unroll_pass,
      materialize_cfg_pass, record_uniformity_pass, ra_pass,
      materialize_cfg_pass, record_uniformity_pass]"

definition O3_passes :: "float_host \<Rightarrow> compiler_pass list" where
  "O3_passes h =
     [validate_pass, dre_pass, cse_pass, lcf_pass h, load_reuse_pass,
      materialize_cfg_pass, record_uniformity_pass, gcp_pass, gdce_pass,
      materialize_cfg_pass, record_uniformity_pass, record_loop_analysis_pass, block_simplify_pass,
      licm_pass, load_hoist_pass, ra_pass, unroll_pass,
      materialize_cfg_pass, record_uniformity_pass]"

text \<open>The passes level 3 must contain: those of level 2 but the two that only record facts.\<close>

definition o2_required :: "float_host \<Rightarrow> string list" where
  "o2_required h = map pass_name
     [validate_pass, dre_pass, cse_pass, lcf_pass h, gcp_pass, load_reuse_pass, gdce_pass,
      record_loop_analysis_pass, licm_pass, block_simplify_pass, load_hoist_pass, unroll_pass, ra_pass]"

datatype front_error =
    UnsupportedTarget string
  | UnsupportedLevel string
  | MissingPasses "string list"
  | ParseFailed ptx_error
  | PassFailed pass_error
  | LoweringFailed compile_error
  | SchedulingFailed sched_error
  | EncodingFailed encode_error

definition build_pipeline :: "float_host \<Rightarrow> string \<Rightarrow> front_error + PassManager" where
  "build_pipeline h opt_level =
     (if opt_level = ''0'' then Inr \<lparr>pm_name = ''O0-foundation'', pm_passes = O0_passes\<rparr>
      else if opt_level = ''2'' then Inr \<lparr>pm_name = ''O2-conservative-scalar'', pm_passes = O2_passes h\<rparr>
      else if opt_level = ''3'' then
        (let missing = filter (\<lambda>n. n \<notin> pass_name ` set (O3_passes h)) (o2_required h) in
         if missing \<noteq> [] then Inl (MissingPasses (sort missing))
         else Inr \<lparr>pm_name = ''O3-experimental'', pm_passes = O3_passes h\<rparr>)
      else Inl (UnsupportedLevel opt_level))"

subsection \<open>The compiler\<close>

definition map_error :: "('e \<Rightarrow> 'f) \<Rightarrow> 'e + 'a \<Rightarrow> 'f + 'a" where
  "map_error w r = (case r of Inl e \<Rightarrow> Inl (w e) | Inr x \<Rightarrow> Inr x)"

record CompilationReport =
  rep_input :: string
  rep_optimization :: string
  rep_profile :: string
  rep_pipeline :: string
  rep_passes :: "PassRecord list"
  rep_metrics :: "detail dict"
  rep_output :: string
  rep_target :: string
  rep_scheduler_warning :: "string option"

record CompilationResult =
  res_lowered :: LoweredProgram
  res_report :: CompilationReport

text \<open>\<^verbatim>\<open>module.metadata.get("register_mapping")\<close>.\<close>

definition register_mapping_of :: "ir_module \<Rightarrow> int dict" where
  "register_mapping_of m = (case map_of (metadata m) ''register_mapping'' of
     Some (DDict d) \<Rightarrow> concat (map (\<lambda>(k, v). case v of DInt n \<Rightarrow> [(k, n)] | _ \<Rightarrow> []) d)
   | _ \<Rightarrow> [])"

definition lower_and_schedule :: "string \<Rightarrow> ISAProfile \<Rightarrow> ir_module \<Rightarrow> front_error + LoweredProgram" where
  "lower_and_schedule opt_level prof m =
     bind_r (map_error LoweringFailed (lower_program (mod_program m) prof (register_mapping_of m)))
       (\<lambda>lowered. if opt_level \<in> {''2'', ''3''} then map_error SchedulingFailed (schedule_lowered lowered)
                  else Inr lowered)"

definition compile_ptx_detailed :: "float_host \<Rightarrow> string \<Rightarrow> ISAProfile \<Rightarrow> string \<Rightarrow> string \<Rightarrow> string \<Rightarrow> string
    \<Rightarrow> front_error + CompilationResult" where
  "compile_ptx_detailed h text prof opt_level input_name output_name target =
     (if target \<notin> set PERFORMANCE_TARGETS then Inl (UnsupportedTarget target)
      else bind_r (map_error ParseFailed (parse_ptx text)) (\<lambda>p.
        bind_r (build_pipeline h opt_level) (\<lambda>pm.
        bind_r (map_error PassFailed (pm_run pm (module_from_program text p) build_default_analysis_manager))
          (\<lambda>(m, _, recs).
        bind_r (lower_and_schedule opt_level prof m) (\<lambda>lowered.
        bind_r (map_error PassFailed (build_metrics m lowered recs)) (\<lambda>metrics.
        Inr \<lparr>res_lowered = lowered, res_report =
          \<lparr>rep_input = input_name, rep_optimization = opt_level, rep_profile = profile_name prof,
           rep_pipeline = pm_name pm, rep_passes = recs, rep_metrics = metrics, rep_output = output_name,
           rep_target = target, rep_scheduler_warning = None\<rparr>\<rparr>))))))"

definition compile_ptx :: "float_host \<Rightarrow> string \<Rightarrow> ISAProfile \<Rightarrow> string \<Rightarrow> front_error + LoweredProgram" where
  "compile_ptx h text prof opt_level =
     bind_r (compile_ptx_detailed h text prof opt_level ''<memory>'' [] ''aec_slide_constraints'')
       (\<lambda>r. Inr (res_lowered r))"

text \<open>The bytes \<^verbatim>\<open>write_binary\<close> puts in the file.\<close>

definition write_binary :: "LoweredProgram \<Rightarrow> ISAProfile \<Rightarrow> front_error + byte list" where
  "write_binary lowered prof =
     map_error EncodingFailed (instructions_to_bytes prof (lowered_instructions lowered))"

end
