(* ===== verification/Loop_Limits.thy ===== *)
theory Loop_Limits
  imports Pass_Limits Compiler
begin

text \<open>
  Programs on which a control-flow pass changes the result. As in \<open>Pass_Limits\<close>, each program is run
  before and after the pass, from the same state.
\<close>

text \<open>A pass run alone on a module, with fresh analyses.\<close>

definition alone :: "pass_run \<Rightarrow> ir_module \<Rightarrow> ir_module option" where
  "alone f m = (case f m build_default_analysis_manager of Inl _ \<Rightarrow> None | Inr (m', _, _) \<Rightarrow> Some m')"

definition stored_after :: "pass_run \<Rightarrow> ir_module \<Rightarrow> byte list option" where
  "stored_after f m = Option.bind (alone f m) stored"

text \<open>The end of a loop that counts \<^verbatim>\<open>%r5\<close> up to a bound.\<close>

definition count_to :: "string \<Rightarrow> item list" where
  "count_to bound = [plain_inst ''add.u32'' [''%r5'', ''%r5'', ''1''],
     plain_inst ''setp.lt.u32'' [''%p1'', ''%r5'', bound], guarded_inst ''p1'' ''bra'' [''L'']]"

subsection \<open>Global constant propagation\<close>

definition guarded_definition :: ir_module where
  "guarded_definition = module_of
     ([plain_inst ''mov.u32'' [''%r1'', ''5''], plain_inst ''setp.eq.u32'' [''%p1'', ''%r1'', ''5''],
       guarded_inst ''p1'' ''mov.u32'' [''%r1'', ''9''], Label ''L'',
       plain_inst ''add.u32'' [''%r2'', ''%r1'', ''0'']] @ stores_back ''%r2'')"

text \<open>
  Global constant propagation skips a guarded instruction when it computes
  the constants at the end of a block, and so keeps the constant its destination had before: the
  next block uses 5 for a register that holds 9.
\<close>

theorem gcp_guarded_definition:
  "stored guarded_definition = Some [9, 0, 0, 0] \<and> stored_after gcp_run guarded_definition = Some [5, 0, 0, 0]"
proof
  show "stored guarded_definition = Some [9, 0, 0, 0]" by code_simp
  show "stored_after gcp_run guarded_definition = Some [5, 0, 0, 0]" by code_simp
qed

subsection \<open>Code motion\<close>

definition last_definition :: ir_module where
  "last_definition = module_of
     ([plain_inst ''mov.u32'' [''%r5'', ''0''], plain_inst ''mov.u32'' [''%r4'', ''7''], Label ''L'',
       plain_inst ''add.u32'' [''%r1'', ''%r4'', ''1'']] @ count_to ''2'' @ stores_back ''%r1'')"

text \<open>
  Code motion inserts what it moves in front of the last instruction of
  the preheader, also when that instruction is no branch: an invariant sum of a register that the
  last instruction of the preheader defines is then computed before the register has its value.
  The kernel stores 1 in place of 8.
\<close>

theorem licm_before_definition:
  "stored last_definition = Some [8, 0, 0, 0] \<and> stored_after licm_run last_definition = Some [1, 0, 0, 0]"
proof
  show "stored last_definition = Some [8, 0, 0, 0]" by code_simp
  show "stored_after licm_run last_definition = Some [1, 0, 0, 0]" by code_simp
qed

definition stored_then_loaded :: ir_module where
  "stored_then_loaded = module_of
     ([plain_inst ''ld.param.u64'' [''%rd1'', ''[A]''], plain_inst ''mov.u32'' [''%r5'', ''0''],
       plain_inst ''mov.u32'' [''%r2'', ''7''], plain_inst ''st.global.u32'' [''[%rd1]'', ''%r2''], Label ''L'',
       plain_inst ''ld.global.u32'' [''%r1'', ''[%rd1]'']] @ count_to ''2'' @
      [plain_inst ''add.u32'' [''%r3'', ''%r1'', ''1'']] @ stores_back ''%r3'')"

text \<open>
  Load hoisting has the same insertion point: a load of the loop is moved
  in front of a store that ends the preheader, to the address it stores to. The kernel loads 0 in
  place of 7.
\<close>

theorem load_hoist_before_store:
  "stored stored_then_loaded = Some [8, 0, 0, 0] \<and> stored_after load_hoist_run stored_then_loaded = Some [1, 0, 0, 0]"
proof
  show "stored stored_then_loaded = Some [8, 0, 0, 0]" by code_simp
  show "stored_after load_hoist_run stored_then_loaded = Some [1, 0, 0, 0]" by code_simp
qed

subsection \<open>Loop unrolling\<close>

definition counter_sum :: ir_module where
  "counter_sum = module_of
     ([plain_inst ''mov.u32'' [''%r5'', ''0''], plain_inst ''mov.u32'' [''%r3'', ''0''], Label ''L'',
       plain_inst ''add.u32'' [''%r3'', ''%r3'', ''%r5'']] @ count_to ''4'' @ stores_back ''%r3'')"

text \<open>
  Unrolling puts the copy of the body behind the counter's step, which it
  makes a step of two: a body that reads the counter sees 2 and 4 in the copy where the original
  saw 1 and 3, and the sum of the counter over the loop becomes 8 in place of 6.
\<close>

theorem unroll_counter_step:
  "stored counter_sum = Some [6, 0, 0, 0] \<and> stored_after unroll_run counter_sum = Some [8, 0, 0, 0]"
proof
  show "stored counter_sum = Some [6, 0, 0, 0]" by code_simp
  show "stored_after unroll_run counter_sum = Some [8, 0, 0, 0]" by code_simp
qed

subsection \<open>Block simplification\<close>

definition falls_into_jump :: ir_module where
  "falls_into_jump = module_of
     ([plain_inst ''mov.u32'' [''%r1'', ''1''], plain_inst ''setp.eq.u32'' [''%p1'', ''%r1'', ''0''],
       guarded_inst ''p1'' ''bra'' [''N''], Label ''J'', plain_inst ''bra'' [''T''],
       Label ''N'', plain_inst ''mov.u32'' [''%r1'', ''5''], Label ''T''] @ stores_back ''%r1'')"

text \<open>
  Block simplification removes a block that only jumps and redirects the
  branches to it, and not the block above that runs into it: after the removal that block runs
  into the next one instead. The kernel stores 5 in place of 1.
\<close>

theorem simplify_fall_through:
  "stored falls_into_jump = Some [1, 0, 0, 0] \<and>
   stored_after block_simplify_run falls_into_jump = Some [5, 0, 0, 0]"
proof
  show "stored falls_into_jump = Some [1, 0, 0, 0]" by code_simp
  show "stored_after block_simplify_run falls_into_jump = Some [5, 0, 0, 0]" by code_simp
qed

end
