(* ===== verification/Lower_Limits.thy ===== *)
theory Lower_Limits
  imports Pass_Limits Compiler
begin

text \<open>
  Programs that the lowering changes. The program is run on the reference semantics, and its
  lowering in the simulator with one thread, from the same memory.
\<close>

definition lowered_config :: "LoweredProgram \<Rightarrow> sim_config" where
  "lowered_config p = \<lparr>host = demo_host, instructions = lowered_instructions p, cfg_block_dim = (1, 1, 1),
     cfg_grid_dim = (1, 1, 1), cfg_warp_size = 32, max_steps = 100\<rparr>"

datatype outcome = Rejected compile_error | Failed sim_error | Ended "byte list"

definition lowered_outcome :: "ir_module \<Rightarrow> outcome" where
  "lowered_outcome m = (case lower_program (mod_program m) TRACK_B_V1 [] of
     Inl e \<Rightarrow> Rejected e
   | Inr p \<Rightarrow> (case sim_run (lowered_config p) (vmem demo_start) of
       Inl (e, _) \<Rightarrow> Failed e | Inr s \<Rightarrow> Ended (gmem s)))"

definition guarded_return :: ir_module where
  "guarded_return = module_of
     ([plain_inst ''mov.u32'' [''%r1'', ''5''], plain_inst ''setp.eq.u32'' [''%p1'', ''%r1'', ''0''],
       guarded_inst ''p1'' ''ret'' []] @ stores_back ''%r1'')"

definition guarded_parameter :: ir_module where
  "guarded_parameter = module_of
     ([plain_inst ''mov.u32'' [''%r1'', ''5''], plain_inst ''setp.eq.u32'' [''%p1'', ''%r1'', ''0''],
       guarded_inst ''p1'' ''ld.param.u32'' [''%r1'', ''[A]'']] @ stores_back ''%r1'')"

definition redefined_guard :: ir_module where
  "redefined_guard = module_of
     ([plain_inst ''mov.u32'' [''%r1'', ''%tid.x''], plain_inst ''setp.ne.u32'' [''%p1'', ''%r1'', ''0''],
       plain_inst ''ld.param.u64'' [''%rd1'', ''[A]''], plain_inst ''mov.u32'' [''%r2'', ''7''],
       guarded_inst ''p1'' ''bra'' [''DONE''],
       plain_inst ''setp.eq.u32'' [''%p1'', ''%r1'', ''0''],
       plain_inst ''st.global.u32'' [''[%rd1]'', ''%r2''], Label ''DONE'', plain_inst ''ret'' []])"

text \<open>
  The lowering emits a return and a parameter load without their guard: a
  return under a false guard ends the thread before it stores, and a parameter load under a false
  guard overwrites its register.
\<close>

theorem guard_not_lowered:
  "stored guarded_return = Some [5, 0, 0, 0] \<and> lowered_outcome guarded_return = Ended [0, 0, 0, 0] \<and>
   stored guarded_parameter = Some [5, 0, 0, 0] \<and> lowered_outcome guarded_parameter = Ended [0, 0, 0, 0]"
proof -
  have "stored guarded_return = Some [5, 0, 0, 0]" by code_simp
  moreover have "lowered_outcome guarded_return = Ended [0, 0, 0, 0]" by code_simp
  moreover have "stored guarded_parameter = Some [5, 0, 0, 0]" by code_simp
  moreover have "lowered_outcome guarded_parameter = Ended [0, 0, 0, 0]" by code_simp
  ultimately show ?thesis by blast
qed

text \<open>
  A branch that is not uniform is replaced by guards on the instructions
  it jumps over, without a check that they leave the guard alone: when the first of them computes
  the same predicate again, the others run under the new value, and the store is lost.
\<close>

theorem region_guard_redefined:
  "stored redefined_guard = Some [7, 0, 0, 0] \<and> lowered_outcome redefined_guard = Ended [0, 0, 0, 0]"
proof
  show "stored redefined_guard = Some [7, 0, 0, 0]" by code_simp
  show "lowered_outcome redefined_guard = Ended [0, 0, 0, 0]" by code_simp
qed

end
