(* ===== verification/Pass_Framework.thy ===== *)
theory Pass_Framework
  imports Pass_Proofs Compiler
begin

text \<open>
  The contract between the passes and the manager that runs them. A pass is honest when the facts
  it leaves in the cache belong to the program it was given, and when it changes the program only
  with the facts about control flow and uniformity invalidated. The locale proves once that the
  manager then keeps the cache in step with the program; each pass of the pipelines is an instance.
\<close>

subsection \<open>Facts in step with the program\<close>

definition default_provider :: "string \<Rightarrow> provider option" where
  "default_provider = map_of (am_providers build_default_analysis_manager)"

definition fresh :: "ir_module \<Rightarrow> AnalysisManager \<Rightarrow> bool" where
  "fresh m am \<longleftrightarrow> am_providers am = am_providers build_default_analysis_manager \<and>
     (\<forall>n f. n \<in> set cfg_and_uniformity \<longrightarrow> map_of (am_cache am) n = Some f \<longrightarrow>
        (\<exists>p. default_provider n = Some p \<and> p m = Inr f))"

lemma provider_cong:
  assumes "default_provider n = Some p" and "mod_program m = mod_program m'"
  shows "p m = p m'"
  using assms unfolding default_provider_def build_default_analysis_manager_def
  by (auto simp: cfg_provider_def liveness_provider_def uniformity_provider_def split: if_splits)

lemma fresh_cong: "fresh m am \<Longrightarrow> mod_program m = mod_program m' \<Longrightarrow> fresh m' am"
  unfolding fresh_def using provider_cong by metis

lemma fresh_default: "fresh m build_default_analysis_manager"
  by (simp add: fresh_def build_default_analysis_manager_def)

lemma fresh_get:
  assumes "fresh m am" and "am_get n m am = Inr (f, am')"
  shows "fresh m am'" "n \<in> set cfg_and_uniformity \<Longrightarrow> \<exists>p. default_provider n = Some p \<and> p m = Inr f"
proof -
  obtain p where p: "default_provider n = Some p"
    using assms by (auto simp: am_get_def fresh_def default_provider_def split: option.splits)
  consider "am' = am" "map_of (am_cache am) n = Some f"
    | "am' = am\<lparr>am_cache := AList.update n f (am_cache am)\<rparr>" "p m = Inr f"
    using assms p by (auto simp: am_get_def fresh_def default_provider_def split: option.splits)
  then have "fresh m am' \<and> (n \<in> set cfg_and_uniformity \<longrightarrow> (\<exists>p. default_provider n = Some p \<and> p m = Inr f))"
  proof cases
    case 1
    then show ?thesis using assms(1) unfolding fresh_def by metis
  next
    case 2
    then show ?thesis using assms(1) p by (auto simp: fresh_def update_conv split: if_splits)
  qed
  then show "fresh m am'" "n \<in> set cfg_and_uniformity \<Longrightarrow> \<exists>p. default_provider n = Some p \<and> p m = Inr f"
    by blast+
qed

lemma map_of_deletes: "map_of (fold AList.delete ns d) n = (if n \<in> set ns then None else map_of d n)"
  by (induction ns arbitrary: d) (auto simp: delete_conv' fun_upd_def delete_conv)

lemma fresh_invalidate:
  assumes "fresh m am" and "mod_program m' = mod_program m \<or> set cfg_and_uniformity \<subseteq> set ns"
  shows "fresh m' (am_invalidate (Some ns) am)"
  using assms(2)
proof
  assume "mod_program m' = mod_program m"
  then have "fresh m' am" using fresh_cong [OF assms(1)] by simp
  then show ?thesis by (auto simp: fresh_def am_invalidate_def map_of_deletes)
next
  assume "set cfg_and_uniformity \<subseteq> set ns"
  then show ?thesis using assms(1) by (auto simp: fresh_def am_invalidate_def map_of_deletes)
qed

lemma fresh_get_cfg:
  assumes "fresh m am" and "get_cfg m am = Inr (g, am')"
  shows "fresh m am' \<and> build_cfg (mod_program m) = Inr g"
proof -
  obtain x where x: "am_get ''cfg'' m am = Inr x"
    "(case x of (f, am') \<Rightarrow> case f of CfgFacts g \<Rightarrow> Inr (g, am') | _ \<Rightarrow> Inl PassTypeError) = Inr (g, am')"
    using assms(2) unfolding get_cfg_def bind_r_Inr by blast
  then obtain f where f: "am_get ''cfg'' m am = Inr (f, am')" "f = CfgFacts g"
    by (cases x, cases "fst x") simp_all
  then show ?thesis using fresh_get [OF assms(1) f(1)]
    by (auto simp: default_provider_def build_default_analysis_manager_def cfg_provider_def split: sum.splits)
qed

subsection \<open>Honest passes\<close>

definition reports_change :: "ir_module \<Rightarrow> ir_module \<times> PassResult \<Rightarrow> bool" where
  "reports_change m out \<longleftrightarrow> mod_program (fst out) = mod_program m \<or>
     set cfg_and_uniformity \<subseteq> set (res_invalidated (snd out))"

locale honest_pass =
  fixes f :: pass_run
  assumes cache_fresh: "fresh m am \<Longrightarrow> f m am = Inr (m', am', r) \<Longrightarrow> fresh m am'"
    and change_reported: "f m am = Inr (m', am', r) \<Longrightarrow> reports_change m (m', r)"
begin

lemma run_fresh:
  assumes "fresh m am" and "run_pass cp (m, am, recs) = Inr (m', am', recs')" and "pass_fun cp = f"
  shows "fresh m' am'"
proof -
  obtain am1 r where run: "f m am = Inr (m', am1, r)"
    and am': "am' = (if sort (res_invalidated r) \<noteq> [] then am_invalidate (Some (sort (res_invalidated r))) am1 else am1)"
    using assms(2,3) by (auto simp: run_pass_def Let_def)
  have "fresh m am1" using cache_fresh [OF assms(1) run] .
  moreover have "mod_program m' = mod_program m \<or> set cfg_and_uniformity \<subseteq> set (sort (res_invalidated r))"
    using change_reported [OF run] by (simp add: reports_change_def)
  ultimately show ?thesis using fresh_invalidate [of m am1 m' "sort (res_invalidated r)"] fresh_cong [of m am1 m']
    unfolding am' by (cases "sort (res_invalidated r) = []") auto
qed

end

definition honest :: "compiler_pass \<Rightarrow> bool" where
  "honest cp \<longleftrightarrow> honest_pass (pass_fun cp)"

lemma honest_run:
  assumes "\<forall>cp \<in> set ps. honest cp" and "fresh m am" and "fold_r run_pass ps (m, am, recs) = Inr (m', am', recs')"
  shows "fresh m' am'"
  using assms
proof (induction ps arbitrary: m am recs)
  case (Cons cp ps)
  obtain m1 am1 recs1 where s: "run_pass cp (m, am, recs) = Inr (m1, am1, recs1)"
    "fold_r run_pass ps (m1, am1, recs1) = Inr (m', am', recs')"
    using Cons.prems(3) by (auto simp: bind_r_def split: sum.splits)
  have "fresh m1 am1"
    using honest_pass.run_fresh [of "pass_fun cp" m am cp] Cons.prems s(1) by (simp add: honest_def)
  then show ?case using Cons s(2) by simp
qed simp

subsection \<open>The passes are honest\<close>

lemma reports_unchanged [simp]: "reports_change m (m, r)"
  by (simp add: reports_change_def)

lemma reports_rewritten [simp]:
  "set cfg_and_uniformity \<subseteq> set ns \<Longrightarrow> reports_change m (rewritten kept d ns m)"
  by (simp add: reports_change_def rewritten_def)

lemma rewritten_reports:
  "rewritten kept d ns m = (m', r) \<Longrightarrow> set cfg_and_uniformity \<subseteq> set ns \<Longrightarrow> reports_change m (m', r)"
  by (metis reports_rewritten)

lemma reports_metadata [simp]: "reports_change m (record_metadata key v m)"
  by (simp add: reports_change_def record_metadata_def)

lemma plain_honest:
  assumes "\<And>m out. g m = Inr out \<Longrightarrow> reports_change m out"
  shows "honest_pass (plain_pass g)"
  by unfold_locales (auto simp: plain_pass_def assms)

text \<open>A pass that asks for one fact and then only reads it.\<close>

definition with_facts :: "(ir_module \<Rightarrow> AnalysisManager \<Rightarrow> pass_error + 'g \<times> AnalysisManager)
    \<Rightarrow> (ir_module \<Rightarrow> 'g \<Rightarrow> AnalysisManager \<Rightarrow> pass_error + ir_module \<times> AnalysisManager \<times> PassResult) \<Rightarrow> pass_run" where
  "with_facts get k m am = bind_r (get m am) (\<lambda>(g, am'). k m g am')"

lemma with_facts_honest:
  assumes "\<And>m am g am'. fresh m am \<Longrightarrow> get m am = Inr (g, am') \<Longrightarrow> fresh m am'"
    and "\<And>m g am m' am' r. k m g am = Inr (m', am', r) \<Longrightarrow> am' = am \<and> reports_change m (m', r)"
  shows "honest_pass (with_facts get k)"
proof
  fix m am m' am' r
  assume "with_facts get k m am = Inr (m', am', r)"
  then obtain g am1 where "get m am = Inr (g, am1)" "k m g am1 = Inr (m', am', r)"
    by (auto simp: with_facts_def)
  then show "reports_change m (m', r)" "fresh m am \<Longrightarrow> fresh m am'" using assms by blast+
qed

lemma facts_case_InrD:
  "(case f of CfgFacts g \<Rightarrow> A g | LivenessFact l \<Rightarrow> B l | UniformityFact u \<Rightarrow> C u) = Inr y \<Longrightarrow>
   (\<exists>g. f = CfgFacts g \<and> A g = Inr y) \<or> (\<exists>l. f = LivenessFact l \<and> B l = Inr y) \<or>
   (\<exists>u. f = UniformityFact u \<and> C u = Inr y)"
  by (cases f) auto

lemma get_fresh:
  assumes "fresh m am"
  shows "get_cfg m am = Inr (g, am') \<Longrightarrow> fresh m am'" "get_liveness m am = Inr (l, am') \<Longrightarrow> fresh m am'"
    "get_uniformity m am = Inr (u, am') \<Longrightarrow> fresh m am'"
  using fresh_get(1) [OF assms] unfolding get_cfg_def get_liveness_def get_uniformity_def
  by (fastforce dest!: facts_case_InrD)+

lemmas pass_defs = materialize_cfg_def record_uniformity_def record_loop_analysis_def gcp_run_def licm_run_def
  load_hoist_run_def unroll_run_def block_simplify_run_def

lemma pair_result: "(case x of (m', r) \<Rightarrow> (m', am, r)) = (m1, am1, r1) \<longleftrightarrow> am = am1 \<and> x = (m1, r1)"
  by (cases x) auto

interpretation validate_honest: honest_pass "plain_pass validate_program"
  by (rule plain_honest) (auto simp: validate_program_def split: if_splits)

interpretation dre_honest: honest_pass "plain_pass (\<lambda>m. Inr (dre_run m))"
  by (rule plain_honest) (auto simp: dre_run_def Let_def)

interpretation cse_honest: honest_pass "plain_pass (\<lambda>m. Inr (cse_run m))"
  by (rule plain_honest) (auto simp: cse_run_def Let_def split: prod.split)

interpretation lcf_honest: honest_pass "plain_pass (\<lambda>m. Inr (lcf_run h m))" for h
  by (rule plain_honest) (auto simp: lcf_run_def Let_def)

interpretation gdce_honest: honest_pass "plain_pass (\<lambda>m. Inr (gdce_run m))"
  by (rule plain_honest) (auto simp: gdce_run_def Let_def)

interpretation load_reuse_honest: honest_pass "plain_pass load_reuse_run"
  by (rule plain_honest) (auto simp: load_reuse_run_def Let_def dest: rewritten_reports split: if_splits)

lemma cfg_honest:
  assumes "\<And>m g am m' am' r. k m g am = Inr (m', am', r) \<Longrightarrow> am' = am \<and> reports_change m (m', r)"
  shows "honest_pass (\<lambda>m am. bind_r (get_cfg m am) (\<lambda>(g, am'). k m g am'))"
  using with_facts_honest [of get_cfg k] get_fresh(1) assms unfolding with_facts_def [abs_def] by blast

lemma pass_as_cfg:
  assumes "honest_pass g" and "\<And>m am. f m am = g m am"
  shows "honest_pass f"
  using assms by (metis ext)

interpretation materialize_honest: honest_pass materialize_cfg
  by (rule pass_as_cfg [OF cfg_honest materialize_cfg_def]) (auto simp: Let_def reports_change_def)

interpretation gcp_honest: honest_pass gcp_run
  by (rule pass_as_cfg [OF cfg_honest gcp_run_def])
     (auto simp: Let_def dest: rewritten_reports split: prod.splits if_splits)

interpretation licm_honest: honest_pass licm_run
  by (rule pass_as_cfg [OF cfg_honest licm_run_def])
     (auto simp: Let_def pair_result dest: rewritten_reports split: if_splits)

interpretation load_hoist_honest: honest_pass load_hoist_run
  by (rule pass_as_cfg [OF cfg_honest load_hoist_run_def])
     (auto simp: Let_def pair_result dest: rewritten_reports split: if_splits)

interpretation unroll_honest: honest_pass unroll_run
  by (rule pass_as_cfg [OF cfg_honest unroll_run_def])
     (auto simp: Let_def pair_result dest: rewritten_reports split: if_splits option.splits)

interpretation block_simplify_honest: honest_pass block_simplify_run
  by (rule pass_as_cfg [OF cfg_honest block_simplify_run_def])
     (auto simp: Let_def pair_result dest: rewritten_reports split: if_splits)

interpretation record_loops_honest: honest_pass record_loop_analysis
  by (rule pass_as_cfg [OF cfg_honest record_loop_analysis_def])
     (auto simp: Let_def record_metadata_def reports_change_def)

interpretation record_uniformity_honest: honest_pass record_uniformity
proof (rule pass_as_cfg)
  show "honest_pass (with_facts get_uniformity (\<lambda>m f am.
      case record_metadata ''uniformity''
       [(''branches'', DInt (int (length (branch_states f)))), (''unknown'', DInt (state_count f Unknown)),
        (''uniform'', DInt (state_count f Uniform)), (''varying'', DInt (state_count f Varying))] m of
       (m', r) \<Rightarrow> Inr (m', am, r)))"
    by (rule with_facts_honest, erule (1) get_fresh(3)) (auto simp: record_metadata_def reports_change_def)
qed (simp add: record_uniformity_def with_facts_def)

lemma loop_range_fresh:
  assumes "fresh m am" and "loop_range_of m am = Inr (lr, am')"
  shows "fresh m am'"
  using assms get_fresh(1) [OF assms(1)] by (auto simp: loop_range_of_def split: sum.splits if_splits)

interpretation ra_honest: honest_pass ra_run
proof
  fix m am m' am' r
  assume run: "ra_run m am = Inr (m', am', r)"
  then show "reports_change m (m', r)"
    by (auto simp: ra_run_def Let_def reports_change_def split: if_splits)
  obtain facts am1 lr where "get_liveness m am = Inr (facts, am1)" "loop_range_of m am1 = Inr (lr, am')"
    using run by (auto simp: ra_run_def Let_def split: if_splits)
  then show "fresh m am \<Longrightarrow> fresh m am'" using get_fresh(2) loop_range_fresh by blast
qed

lemmas pass_fun_defs = validate_pass_def dre_pass_def cse_pass_def lcf_pass_def gcp_pass_def load_reuse_pass_def
  materialize_cfg_pass_def record_uniformity_pass_def gdce_pass_def record_loop_analysis_pass_def licm_pass_def
  block_simplify_pass_def load_hoist_pass_def unroll_pass_def ra_pass_def

lemmas honest_passes = validate_honest.honest_pass_axioms dre_honest.honest_pass_axioms
  cse_honest.honest_pass_axioms lcf_honest.honest_pass_axioms gcp_honest.honest_pass_axioms
  load_reuse_honest.honest_pass_axioms materialize_honest.honest_pass_axioms
  record_uniformity_honest.honest_pass_axioms gdce_honest.honest_pass_axioms
  record_loops_honest.honest_pass_axioms licm_honest.honest_pass_axioms
  block_simplify_honest.honest_pass_axioms load_hoist_honest.honest_pass_axioms
  unroll_honest.honest_pass_axioms ra_honest.honest_pass_axioms

lemma pipeline_honest:
  assumes "build_pipeline h lvl = Inr pm"
  shows "\<forall>cp \<in> set (pm_passes pm). honest cp"
proof -
  have "pm_passes pm \<in> {O0_passes, O2_passes h, O3_passes h}"
    using assms by (auto simp: build_pipeline_def Let_def split: if_splits)
  moreover have "\<forall>cp \<in> set O0_passes \<union> set (O2_passes h) \<union> set (O3_passes h). honest cp"
    using honest_passes by (simp add: O0_passes_def O2_passes_def O3_passes_def honest_def pass_fun_defs)
  ultimately show ?thesis by auto
qed

subsection \<open>Whole pipelines\<close>

text \<open>The passes at the end of every pipeline: the blocks are recorded, then nothing rewrites.\<close>

lemma materialize_result:
  assumes "fresh m am" and "run_pass materialize_cfg_pass (m, am, recs) = Inr (m', am', recs')"
  shows "\<exists>g. build_cfg (mod_program m') = Inr g \<and>
    fn_blocks (ir_function m') = map (materialized_block g) (block_order g) \<and> mod_program m' = mod_program m"
proof -
  obtain g am1 where "get_cfg m am = Inr (g, am1)"
    "m' = m\<lparr>ir_function := (ir_function m)\<lparr>fn_blocks := map (materialized_block g) (block_order g)\<rparr>\<rparr>"
    using assms(2) by (auto simp: run_pass_def materialize_cfg_pass_def materialize_cfg_def Let_def)
  then show ?thesis using fresh_get_cfg [OF assms(1)] by auto
qed

lemma record_uniformity_keeps:
  assumes "run_pass record_uniformity_pass (m, am, recs) = Inr (m', am', recs')"
  shows "ir_function m' = ir_function m"
  using assms by (auto simp: run_pass_def record_uniformity_pass_def record_uniformity_def record_metadata_def Let_def)

definition blocks_match :: "ir_module \<Rightarrow> bool" where
  "blocks_match m \<longleftrightarrow> (\<exists>g. build_cfg (mod_program m) = Inr g \<and>
     fn_blocks (ir_function m) = map (materialized_block g) (block_order g))"

lemma ends_with_materialize:
  assumes "\<forall>cp \<in> set ps. honest cp" and "fresh m am"
    and "fold_r run_pass (ps @ [materialize_cfg_pass]) (m, am, recs) = Inr (m', am', recs')"
  shows "blocks_match m'"
proof -
  obtain m1 am1 recs1 where s: "fold_r run_pass ps (m, am, recs) = Inr (m1, am1, recs1)"
    "run_pass materialize_cfg_pass (m1, am1, recs1) = Inr (m', am', recs')"
    using assms(3) by (auto simp: fold_r_append bind_r_def split: sum.splits)
  show ?thesis using materialize_result [OF honest_run [OF assms(1,2) s(1)] s(2)]
    by (auto simp: blocks_match_def)
qed

lemma ends_with_uniformity:
  assumes "\<forall>cp \<in> set ps. honest cp" and "fresh m am"
    and "fold_r run_pass ((ps @ [materialize_cfg_pass]) @ [record_uniformity_pass]) (m, am, recs) = Inr (m', am', recs')"
  shows "blocks_match m'"
proof -
  obtain m1 am1 recs1 where s: "fold_r run_pass (ps @ [materialize_cfg_pass]) (m, am, recs) = Inr (m1, am1, recs1)"
    "run_pass record_uniformity_pass (m1, am1, recs1) = Inr (m', am', recs')"
    using assms(3) unfolding fold_r_append [of run_pass "ps @ [materialize_cfg_pass]"]
    by (auto simp: bind_r_def split: sum.splits)
  show ?thesis using ends_with_materialize [OF assms(1,2) s(1)] record_uniformity_keeps [OF s(2)]
    by (simp add: blocks_match_def)
qed

text \<open>
  C25. Whatever a pipeline of levels 0, 2 or 3 does to a module, the facts on
  control flow and uniformity that the manager still holds at its end are those of the program it
  produced, and the basic blocks recorded in the module are those of that program: no pass leaves a
  stale fact behind for the lowering or the report.
\<close>

theorem pipeline_consistent:
  assumes "build_pipeline h lvl = Inr pm"
    and "pm_run pm m build_default_analysis_manager = Inr (m', am', recs)"
  shows "fresh m' am' \<and> blocks_match m'"
proof
  have hon: "\<forall>cp \<in> set (pm_passes pm). honest cp" using pipeline_honest [OF assms(1)] .
  have run: "fold_r run_pass (pm_passes pm) (m, build_default_analysis_manager, []) = Inr (m', am', recs)"
    using assms(2) by (simp add: pm_run_def)
  show "fresh m' am'" using honest_run [OF hon fresh_default run] .
  have "\<exists>ps. pm_passes pm = ps @ [materialize_cfg_pass] \<or>
      pm_passes pm = (ps @ [materialize_cfg_pass]) @ [record_uniformity_pass]"
    using assms(1) by (auto simp: build_pipeline_def Let_def O0_passes_def O2_passes_def O3_passes_def split: if_splits)
  then obtain ps where ps: "pm_passes pm = ps @ [materialize_cfg_pass] \<or>
      pm_passes pm = (ps @ [materialize_cfg_pass]) @ [record_uniformity_pass]" by blast
  then have "\<forall>cp \<in> set ps. honest cp" using hon by auto
  then show "blocks_match m'"
    using ps run ends_with_materialize [OF _ fresh_default] ends_with_uniformity [OF _ fresh_default] by metis
qed

definition level_2 :: PassManager where
  "level_2 = \<lparr>pm_name = ''O2-conservative-scalar'', pm_passes = O2_passes demo_host\<rparr>"

definition tiny_module :: ir_module where
  "tiny_module = module_from_program []
     (demo_ptx\<lparr>items := [plain_inst ''mov.u32'' [''%r1'', ''5''], plain_inst ''ret'' []]\<rparr>)"

lemma level_2_runs: "\<not> isl (pm_run level_2 tiny_module build_default_analysis_manager)"
  by code_simp

theorem pipeline_consistent_witness:
  "\<exists>m' am' recs. pm_run level_2 tiny_module build_default_analysis_manager = Inr (m', am', recs) \<and>
     fresh m' am' \<and> blocks_match m'"
proof -
  have "build_pipeline demo_host ''2'' = Inr level_2" by (simp add: build_pipeline_def level_2_def)
  moreover obtain m' am' recs where "pm_run level_2 tiny_module build_default_analysis_manager = Inr (m', am', recs)"
    using level_2_runs by (cases "pm_run level_2 tiny_module build_default_analysis_manager") auto
  ultimately show ?thesis using pipeline_consistent by blast
qed

text \<open>
  The passes that rewrite the program name control flow and uniformity
  as invalid, and not liveness: a manager that computed live ranges keeps them through dead result
  elimination, and hands the ranges of the old program to the next pass that asks.
\<close>

theorem liveness_not_invalidated:
  "(case fold_r run_pass [ra_pass, dre_pass] (tiny_module, build_default_analysis_manager, []) of
      Inl _ \<Rightarrow> False
    | Inr (m, am, _) \<Rightarrow> (case get_liveness m am of Inl _ \<Rightarrow> False
        | Inr (facts, _) \<Rightarrow> facts = analyze_liveness (mod_program tiny_module) \<and>
                           facts \<noteq> analyze_liveness (mod_program m)))"
  by code_simp

end
