(* ===== verification/Alloc_Proofs.thy ===== *)
theory Alloc_Proofs
  imports Lowering
begin

text \<open>
  The register allocator of the lowering and the layout of the parameters. The states of the
  allocator are those reachable by its operations, with the width each name was given; every one
  of them keeps the registers of different names apart from each other and from the temporaries.
\<close>

subsection \<open>The search for a free register\<close>

lemma find_free_found:
  "find_free reserved width base = Inr r \<Longrightarrow>
   base \<le> r \<and> (\<forall>x \<in> set (needed_registers width r). x \<notin> set reserved \<and> x < 240) \<and> (width = 2 \<longrightarrow> even r)"
proof (induction reserved width base rule: find_free.induct)
  case (1 reserved width base0)
  define base where "base = (if width = 2 \<and> base0 mod 2 = 1 then base0 + 1 else base0)"
  have even: "width = 2 \<longrightarrow> even base" "base0 \<le> base" by (auto simp: base_def)
  show ?case
  proof (cases "list_all (\<lambda>r. r \<notin> set reserved) (needed_registers width base) \<and> last (needed_registers width base) < 240")
    case True
    then have "find_free reserved width base0 = Inr base"
      unfolding find_free.simps [of reserved width base0] Let_def base_def [symmetric] by simp
    then show ?thesis using 1(2) True even by (auto simp: needed_registers_def list_all_iff split: if_splits)
  next
    case False
    have "find_free reserved width base0 =
        (if 240 \<le> base + 1 then Inl OutOfRegisters else find_free reserved width (base + 1))"
      unfolding find_free.simps [of reserved width base0] Let_def base_def [symmetric] if_not_P [OF False]
      by (rule refl)
    then show ?thesis using 1(1) [OF base_def refl False] 1(2) even by (auto split: if_splits)
  qed
qed

subsection \<open>Reachable states\<close>

definition block_regs :: "int \<Rightarrow> int \<Rightarrow> int set" where
  "block_regs r w = {r..<r + w}"

lemma needed_block: "w \<in> {1, 2} \<Longrightarrow> set (needed_registers w r) = block_regs r (int w)"
  by (auto simp: needed_registers_def block_regs_def)

definition pre_width :: "string \<Rightarrow> int" where
  "pre_width v = (if is_pair_register_name v then 2 else 1)"

text \<open>Two names that are not both in the mapping the allocator was given have disjoint registers.\<close>

definition kept_apart :: "int dict \<Rightarrow> int dict \<Rightarrow> (string \<Rightarrow> int) \<Rightarrow> bool" where
  "kept_apart pre d w \<longleftrightarrow> (\<forall>u v r s. map_of d u = Some r \<longrightarrow> map_of d v = Some s \<longrightarrow> u \<noteq> v \<longrightarrow>
     map_of pre u = None \<or> map_of pre v = None \<longrightarrow> block_regs r (w u) \<inter> block_regs s (w v) = {})"

definition in_range :: "int dict \<Rightarrow> (string \<Rightarrow> int) \<Rightarrow> bool" where
  "in_range d w \<longleftrightarrow> (\<forall>v r. map_of d v = Some r \<longrightarrow> block_regs r (w v) \<subseteq> {1..239})"

lemma kept_apart_update:
  assumes "kept_apart pre d w"
    and "\<And>v s. map_of d v = Some s \<Longrightarrow> v \<noteq> u \<Longrightarrow> block_regs r n \<inter> block_regs s (w v) = {}"
  shows "kept_apart pre (AList.update u r d) (w(u := n))"
  unfolding kept_apart_def
proof (intro allI impI)
  fix x y a b
  assume "map_of (AList.update u r d) x = Some a" "map_of (AList.update u r d) y = Some b" "x \<noteq> y"
    "map_of pre x = None \<or> map_of pre y = None"
  then show "block_regs a ((w(u := n)) x) \<inter> block_regs b ((w(u := n)) y) = {}"
    using assms(1) [unfolded kept_apart_def, rule_format, of x a y b] assms(2) [of x a] assms(2) [of y b]
    by (cases "x = u"; cases "y = u") (simp_all add: update_conv' Int_commute)
qed

lemma in_range_update:
  "in_range d w \<Longrightarrow> block_regs r n \<subseteq> {1..239} \<Longrightarrow> in_range (AList.update u r d) (w(u := n))"
  by (auto simp: in_range_def update_conv')

inductive allocator_reach :: "int dict \<Rightarrow> RegisterAllocator \<Rightarrow> (string \<Rightarrow> int) \<Rightarrow> bool" for pre where
  start: "in_range pre pre_width \<Longrightarrow> allocator_reach pre (new_allocator pre) pre_width"
| known: "allocator_reach pre a w \<Longrightarrow> ra_reg t is_pair a = Inr (r, a') \<Longrightarrow>
    map_of (ra_mapping a) (py_strip t) \<noteq> None \<Longrightarrow> allocator_reach pre a' w"
| fresh: "allocator_reach pre a w \<Longrightarrow> ra_reg t is_pair a = Inr (r, a') \<Longrightarrow>
    map_of (ra_mapping a) (py_strip t) = None \<Longrightarrow>
    allocator_reach pre a' (w(py_strip t := (if is_pair then 2 else 1)))"
| temporary: "allocator_reach pre a w \<Longrightarrow> ra_temp a = Inr (r, a') \<Longrightarrow> allocator_reach pre a' w"
| reset: "allocator_reach pre a w \<Longrightarrow> allocator_reach pre (reset_temps a) w"

definition allocator_inv :: "int dict \<Rightarrow> RegisterAllocator \<Rightarrow> (string \<Rightarrow> int) \<Rightarrow> bool" where
  "allocator_inv pre a w \<longleftrightarrow> kept_apart pre (ra_mapping a) w \<and> in_range (ra_mapping a) w \<and>
     (\<forall>v r. map_of (ra_mapping a) v = Some r \<longrightarrow> block_regs r (w v) \<subseteq> set (ra_reserved a)) \<and>
     1 \<le> ra_next a \<and> 240 \<le> ra_temp_next a \<and> ra_temp_next a \<le> 256"

lemma reserved_by_block:
  assumes "map_of pre v = Some r"
  shows "block_regs r (pre_width v) \<subseteq> set (reserved_by pre)"
proof -
  have "set (case (v, r) of (v, r) \<Rightarrow> if is_pair_register_name v then [r, r + 1] else [r]) \<subseteq> set (reserved_by pre)"
    unfolding reserved_by_def set_concat set_map image_image using map_of_SomeD [OF assms] by (rule UN_upper)
  moreover have "block_regs r (pre_width v) =
      set (case (v, r) of (v, r) \<Rightarrow> if is_pair_register_name v then [r, r + 1] else [r])"
    by (auto simp: pre_width_def block_regs_def)
  ultimately show ?thesis by simp
qed

lemma allocated:
  assumes "ra_allocate width a = Inr (r, a')" and "width \<in> {1, 2}" and "allocator_inv pre a w"
  shows "block_regs r (int width) \<inter> set (ra_reserved a) = {}" "block_regs r (int width) \<subseteq> {1..239}"
    "a' = a\<lparr>ra_reserved := needed_registers width r @ ra_reserved a, ra_next := r + int width\<rparr>"
    "ra_next a \<le> r"
proof -
  have f: "find_free (ra_reserved a) width (ra_next a) = Inr r"
    and a': "a' = a\<lparr>ra_reserved := needed_registers width r @ ra_reserved a, ra_next := r + int width\<rparr>"
    using assms(1) by (auto simp: ra_allocate_def)
  note n = find_free_found [OF f]
  show "block_regs r (int width) \<inter> set (ra_reserved a) = {}"
    using n needed_block [OF assms(2), of r] by blast
  show "ra_next a \<le> r" using n by blast
  have "1 \<le> r" using n assms(3) unfolding allocator_inv_def by linarith
  moreover have "\<forall>x \<in> block_regs r (int width). x < 240" using n needed_block [OF assms(2), of r] by blast
  ultimately show "block_regs r (int width) \<subseteq> {1..239}" by (fastforce simp: block_regs_def)
  show "a' = a\<lparr>ra_reserved := needed_registers width r @ ra_reserved a, ra_next := r + int width\<rparr>"
    by (rule a')
qed

lemma allocator_invariant: "allocator_reach pre a w \<Longrightarrow> allocator_inv pre a w"
proof (induction rule: allocator_reach.induct)
  case start
  then show ?case using reserved_by_block by (auto simp: allocator_inv_def new_allocator_def kept_apart_def)
next
  case (known a w t is_pair r a')
  then show ?case by (auto simp: ra_reg_def Let_def)
next
  case (fresh a w t is_pair r a')
  let ?v = "py_strip t" and ?n = "if is_pair then 2 else 1 :: nat"
  obtain a1 where al: "ra_allocate ?n a = Inr (r, a1)"
    and a': "a' = a1\<lparr>ra_mapping := AList.update ?v r (ra_mapping a1)\<rparr>"
    using fresh by (auto simp: ra_reg_def Let_def)
  have "?n \<in> {1, 2}" by simp
  note f = allocated [OF al this fresh.IH]
  have w: "(if is_pair then 2 else 1 :: int) = int ?n" by simp
  have m: "ra_mapping a' = AList.update ?v r (ra_mapping a)" using f(3) a' by simp
  have inv: "kept_apart pre (ra_mapping a) w" "in_range (ra_mapping a) w"
    "\<And>v r. map_of (ra_mapping a) v = Some r \<Longrightarrow> block_regs r (w v) \<subseteq> set (ra_reserved a)"
    using fresh.IH unfolding allocator_inv_def by blast+
  have "block_regs r (int ?n) \<inter> block_regs s (w v) = {}" if "map_of (ra_mapping a) v = Some s" for v s
    using inv(3) [OF that] f(1) by (cases is_pair; simp; blast)
  then have "kept_apart pre (ra_mapping a') (w(?v := int ?n))"
    unfolding m by (intro kept_apart_update inv)
  moreover have "in_range (ra_mapping a') (w(?v := int ?n))"
    unfolding m by (intro in_range_update inv f(2))
  moreover have "block_regs s ((w(?v := int ?n)) v) \<subseteq> set (ra_reserved a')"
    if "map_of (ra_mapping a') v = Some s" for v s
    using that inv(3) [of v s] f(3) a' needed_block [of ?n r] by (cases "v = ?v") (auto simp: m update_conv')
  ultimately show ?case
    using f(3,4) a' fresh.IH unfolding w allocator_inv_def by (cases is_pair) simp_all
next
  case (temporary a w r a')
  then have "\<not> 255 < ra_temp_next a" "a' = a\<lparr>ra_temp_next := ra_temp_next a + 1\<rparr>"
    by (auto simp: ra_temp_def Let_def split: if_splits)
  then show ?case using temporary.IH by (simp add: allocator_inv_def)
next
  case (reset a w)
  then show ?case by (simp add: reset_temps_def allocator_inv_def)
qed

text \<open>
  C34. In every state the register allocator can reach from a mapping with registers within 1 to 239 (that
  of a register allocation pass, or none), all registers are within 1 to 239, a temporary is within 240
  to 255, and the registers of two different names are disjoint, a pair counting both of its registers,
  whenever at least one of the two names was allocated by the lowering itself. Two names that both come
  from the given mapping keep the registers it gives them, which may be shared.
\<close>

theorem allocator_keeps_apart:
  assumes "allocator_reach pre a w"
  shows "(\<forall>u v r s. map_of (ra_mapping a) u = Some r \<and> map_of (ra_mapping a) v = Some s \<and> u \<noteq> v \<and>
      (map_of pre u = None \<or> map_of pre v = None) \<longrightarrow> {r..<r + w u} \<inter> {s..<s + w v} = {}) \<and>
    (\<forall>v r. map_of (ra_mapping a) v = Some r \<longrightarrow> {r..<r + w v} \<subseteq> {1..239}) \<and>
    (\<forall>t a'. ra_temp a = Inr (t, a') \<longrightarrow> 240 \<le> t \<and> t \<le> 255)"
  using allocator_invariant [OF assms] unfolding allocator_inv_def kept_apart_def in_range_def block_regs_def
  by (auto simp: ra_temp_def Let_def split: if_splits)

definition demo_allocator :: "RegisterAllocator" where
  "demo_allocator = \<lparr>ra_next = 4, ra_mapping = [(''%r1'', 1), (''%rd1'', 2)], ra_temp_next = 240, ra_reserved = [2, 3, 1]\<rparr>"

lemma demo_allocator_reach: "allocator_reach [] demo_allocator (pre_width(''%r1'' := 1, ''%rd1'' := 2))"
proof -
  have "allocator_reach [] (new_allocator []) pre_width"
    by (rule allocator_reach.start) (simp add: in_range_def)
  moreover have "ra_reg ''%r1'' False (new_allocator []) =
      Inr (1, \<lparr>ra_next = 2, ra_mapping = [(''%r1'', 1)], ra_temp_next = 240, ra_reserved = [1]\<rparr>)"
    by code_simp
  moreover have "map_of (ra_mapping (new_allocator [])) (py_strip ''%r1'') = None" by code_simp
  ultimately have "allocator_reach [] \<lparr>ra_next = 2, ra_mapping = [(''%r1'', 1)], ra_temp_next = 240, ra_reserved = [1]\<rparr>
      (pre_width(py_strip ''%r1'' := (if False then 2 else 1)))" by (rule allocator_reach.fresh)
  moreover have "ra_reg ''%rd1'' True \<lparr>ra_next = 2, ra_mapping = [(''%r1'', 1)], ra_temp_next = 240, ra_reserved = [1]\<rparr> =
      Inr (2, demo_allocator)"
    by code_simp
  moreover have "map_of (ra_mapping \<lparr>ra_next = 2, ra_mapping = [(''%r1'', 1 :: int)], ra_temp_next = 240, ra_reserved = [1]\<rparr>)
      (py_strip ''%rd1'') = None" by code_simp
  ultimately have "allocator_reach [] demo_allocator
      (pre_width(py_strip ''%r1'' := (if False then 2 else 1), py_strip ''%rd1'' := (if True then 2 else 1)))"
    by (rule allocator_reach.fresh)
  moreover have "py_strip ''%r1'' = ''%r1''" "py_strip ''%rd1'' = ''%rd1''" by code_simp+
  ultimately show ?thesis by simp
qed

theorem allocator_keeps_apart_witness:
  "map_of (ra_mapping demo_allocator) ''%r1'' = Some 1 \<and> map_of (ra_mapping demo_allocator) ''%rd1'' = Some 2 \<and>
   {1..<1 + 1} \<inter> {2..<2 + 2::int} = {}"
proof -
  have m: "map_of (ra_mapping demo_allocator) ''%r1'' = Some 1" "map_of (ra_mapping demo_allocator) ''%rd1'' = Some 2"
    by code_simp+
  have "{1..<1 + (pre_width(''%r1'' := 1, ''%rd1'' := 2)) ''%r1''} \<inter>
      {2..<2 + (pre_width(''%r1'' := 1, ''%rd1'' := 2)) ''%rd1''} = {}"
    using allocator_keeps_apart [OF demo_allocator_reach] m by simp
  then show ?thesis using m by simp
qed

subsection \<open>Parameters\<close>

definition param_size :: "Parameter \<Rightarrow> int" where
  "param_size q = (case map_of TYPE_SIZE (param_dtype q) of None \<Rightarrow> 0 | Some sz \<Rightarrow> sz)"

definition param_offset :: "int dict \<Rightarrow> Parameter \<Rightarrow> int" where
  "param_offset offs q = (case map_of offs (param_name q) of None \<Rightarrow> - 1 | Some o' \<Rightarrow> o')"

lemma param_size_cases: "map_of TYPE_SIZE t = Some sz \<Longrightarrow> sz \<in> {2, 4, 8}"
  by (auto simp: TYPE_SIZE_def split: if_splits)

definition laid_out :: "int dict \<Rightarrow> Parameter list \<Rightarrow> int \<Rightarrow> bool" where
  "laid_out offs qs e \<longleftrightarrow> 0 \<le> e \<and>
     (\<forall>q \<in> set qs. 0 \<le> param_offset offs q \<and> param_size q dvd param_offset offs q \<and>
        0 < param_size q \<and> param_offset offs q + param_size q \<le> e) \<and>
     sorted_wrt (\<lambda>q r. param_offset offs q + param_size q \<le> param_offset offs r) qs"

lemma align_up:
  fixes n a :: int
  assumes "0 < a" and "0 \<le> n"
  shows "a dvd (if n mod a \<noteq> 0 then n + (a - n mod a) else n)" "n \<le> (if n mod a \<noteq> 0 then n + (a - n mod a) else n)"
proof -
  have "n + (a - n mod a) = a * (n div a + 1)" using minus_mod_eq_mult_div [of n a] by (simp add: algebra_simps)
  then show "a dvd (if n mod a \<noteq> 0 then n + (a - n mod a) else n)" by auto
  show "n \<le> (if n mod a \<noteq> 0 then n + (a - n mod a) else n)" using assms pos_mod_bound [of a n] by (simp add: less_imp_le)
qed

lemma layout_step_keeps:
  assumes "laid_out offs qs e" and "layout_step q (offs, e) = Inr (offs', e')" and "param_name q \<notin> param_name ` set qs"
  shows "laid_out offs' (qs @ [q]) e'"
proof -
  obtain sz where sz: "map_of TYPE_SIZE (param_dtype q) = Some sz"
    using assms(2) by (auto simp: layout_step_def split: option.splits)
  define start where "start = (if e mod min sz 8 \<noteq> 0 then e + (min sz 8 - e mod min sz 8) else e)"
  have s: "offs' = AList.update (param_name q) start offs" "e' = start + sz"
    using assms(2) sz by (auto simp: layout_step_def Let_def start_def)
  have "sz \<in> {2, 4, 8}" using param_size_cases [OF sz] .
  then have m: "min sz 8 = sz" "0 < sz" by auto
  have start: "sz dvd start" "e \<le> start" "0 \<le> e"
    using align_up [of sz e] assms(1) m unfolding start_def laid_out_def by auto
  have off: "param_offset offs' r = param_offset offs r" if "r \<in> set qs" for r
    using imageI [OF that, of param_name] assms(3) by (auto simp: param_offset_def s update_conv')
  have q: "param_offset offs' q = start" "param_size q = sz"
    by (simp_all add: param_offset_def param_size_def s sz update_conv')
  have "sorted_wrt (\<lambda>q r. param_offset offs' q + param_size q \<le> param_offset offs' r) qs"
    using assms(1) off unfolding laid_out_def by (auto intro: sorted_wrt_mono_rel [rotated])
  then show ?thesis
    using assms(1) start m off q unfolding laid_out_def s(2)
    by (fastforce simp: sorted_wrt_append)
qed

lemma layout_fold:
  assumes "fold_r layout_step qs (offs, e) = Inr (offs', e')" and "laid_out offs done e"
    and "distinct (map param_name (done @ qs))"
  shows "laid_out offs' (done @ qs) e'"
  using assms
proof (induction qs arbitrary: offs e "done")
  case (Cons q qs)
  obtain o1 e1 where s: "layout_step q (offs, e) = Inr (o1, e1)" "fold_r layout_step qs (o1, e1) = Inr (offs', e')"
    using Cons.prems(1) by (auto simp: bind_r_def split: sum.splits)
  have "laid_out o1 (done @ [q]) e1"
    using layout_step_keeps [OF Cons.prems(2) s(1)] Cons.prems(3) by auto
  from Cons.IH [OF s(2) this] show ?case using Cons.prems(3) by simp
qed simp

text \<open>
  C36. The parameters of a kernel with distinct names are laid out in order: each, the last one included,
  is at a non-negative multiple of its positive size, and ends before any later one begins; so no two of
  them share a byte of parameter memory.
\<close>

theorem parameters_laid_out:
  assumes "layout_parameters p = Inr offs" and "distinct (map param_name (parameters p))"
  shows "(\<forall>q \<in> set (parameters p). 0 < param_size q \<and> 0 \<le> param_offset offs q \<and> param_size q dvd param_offset offs q) \<and>
    (\<forall>i j. i < j \<and> j < length (parameters p) \<longrightarrow>
       param_offset offs (parameters p ! i) + param_size (parameters p ! i) \<le> param_offset offs (parameters p ! j))"
proof -
  obtain e where "fold_r layout_step (parameters p) ([], 0) = Inr (offs, e)"
    using assms(1) by (auto simp: layout_parameters_def)
  moreover have "laid_out [] [] 0" by (simp add: laid_out_def)
  ultimately have "laid_out offs ([] @ parameters p) e" using layout_fold assms(2) by fastforce
  then show ?thesis by (auto simp: laid_out_def sorted_wrt_iff_nth_less)
qed

theorem parameters_laid_out_witness:
  "\<exists>offs. layout_parameters \<lparr>kernel_name = ''k'', parameters = [\<lparr>param_name = ''n'', param_dtype = ''u32''\<rparr>,
       \<lparr>param_name = ''A'', param_dtype = ''u64''\<rparr>], reg_decls = [], items = []\<rparr> = Inr offs \<and>
     8 dvd param_offset offs \<lparr>param_name = ''A'', param_dtype = ''u64''\<rparr> \<and>
     param_offset offs \<lparr>param_name = ''n'', param_dtype = ''u32''\<rparr> + 4 \<le>
     param_offset offs \<lparr>param_name = ''A'', param_dtype = ''u64''\<rparr>"
proof -
  let ?n = "\<lparr>param_name = ''n'', param_dtype = ''u32''\<rparr>" and ?A = "\<lparr>param_name = ''A'', param_dtype = ''u64''\<rparr>"
  let ?p = "\<lparr>kernel_name = ''k'', parameters = [?n, ?A], reg_decls = [], items = []\<rparr>"
  have l: "layout_parameters ?p = Inr [(''n'', 0), (''A'', 8)]" by code_simp
  have sz: "param_size ?n = 4" "param_size ?A = 8" by code_simp+
  show ?thesis using l parameters_laid_out [OF l] sz by fastforce
qed

end
