(* ===== verification/RA_Proofs.thy ===== *)
theory RA_Proofs
  imports Alloc_Proofs RegAlloc Pass_Proofs "HOL-Library.Multiset"
begin

text \<open>
  The linear scan of the register allocation pass. As long as an aligned pair of free registers is
  always left, the scan never takes its fall-back path and gives disjoint registers to ranges that
  are live together; with at most 118 ranges one is always left. The fall-back path itself can hand
  out a register that is in use.
\<close>

subsection \<open>Lists of registers\<close>

lemma mset_remove_at: "i < length xs \<Longrightarrow> mset xs = add_mset (xs ! i) (mset (remove_at i xs))"
  by (subst id_take_nth_drop [of i xs]) (simp_all add: remove_at_def)

lemma index_of_nth: "v \<in> set xs \<Longrightarrow> index_of xs v < length xs \<and> xs ! index_of xs v = v"
  by (induction xs) (auto simp: index_of_def)

lemma find_pair_sound:
  "find_pair free n = Some (i, j) \<Longrightarrow> n \<le> length free \<Longrightarrow>
   i < length free \<and> j < length free \<and> even (free ! i) \<and> free ! j = free ! i + 1"
  by (induction free n rule: find_pair.induct) (auto simp: index_of_nth split: if_splits)

lemma find_pair_complete:
  "k < n \<Longrightarrow> even (free ! k) \<Longrightarrow> free ! k + 1 \<in> set free \<Longrightarrow> find_pair free n \<noteq> None"
  by (induction free n rule: find_pair.induct) (auto simp: less_Suc_eq even_iff_mod_2_eq_zero)

lemma nth_remove_at: "j < i \<Longrightarrow> i < length xs \<Longrightarrow> remove_at i xs ! j = xs ! j"
  by (simp add: remove_at_def nth_append)

lemma nth_remove_at': "i < j \<Longrightarrow> j < length xs \<Longrightarrow> remove_at j xs ! i = xs ! i"
  by (simp add: remove_at_def nth_append)

lemma length_remove_at: "i < length xs \<Longrightarrow> length (remove_at i xs) = length xs - 1"
  by (simp add: remove_at_def)

lemma take_pair_some:
  assumes "even r" "r \<in> set free" "r + 1 \<in> set free" "0 \<notin> set free"
  shows "\<exists>b rest. take_pair free = (Some b, rest) \<and> even b \<and> mset free = add_mset b (add_mset (b + 1) (mset rest))"
proof -
  obtain k where k: "k < length free" "free ! k = r" using assms(2) by (auto simp: in_set_conv_nth)
  then obtain i j where f: "find_pair free (length free) = Some (i, j)"
    using find_pair_complete [of k "length free" free] assms by force
  note p = find_pair_sound [OF f order.refl]
  let ?rest = "if j < i then remove_at j (remove_at i free) else remove_at i (remove_at j free)"
  have "free ! i \<noteq> 0" using p assms(4) nth_mem by metis
  then have t: "take_pair free = (Some (free ! i), ?rest)" using f by (simp add: take_pair_def)
  have "i \<noteq> j" using p by auto
  then have "mset free = add_mset (free ! i) (add_mset (free ! j) (mset ?rest))"
    using p mset_remove_at [of i free] mset_remove_at [of j free] mset_remove_at [of j "remove_at i free"]
      mset_remove_at [of i "remove_at j free"] nth_remove_at [of j i free] nth_remove_at [of i j free]
    by (cases "j < i") (auto simp: length_remove_at add_mset_commute)
  then show ?thesis using t p by auto
qed

subsection \<open>The state of the scan\<close>

definition vreg_width :: "string \<Rightarrow> int" where
  "vreg_width v = (if is_pair_vreg v then 2 else 1)"

definition regs_at :: "int dict \<Rightarrow> string \<Rightarrow> int set" where
  "regs_at d v = (case map_of d v of None \<Rightarrow> {} | Some r \<Rightarrow> block_regs r (vreg_width v))"

definition placed :: "int dict \<Rightarrow> string \<Rightarrow> bool" where
  "placed d v \<longleftrightarrow> (\<exists>r. map_of d v = Some r \<and> regs_at d v \<subseteq> {1..239} \<and> (is_pair_vreg v \<longrightarrow> even r))"

definition scan_regs :: "scan_state \<Rightarrow> int list" where
  "scan_regs s = sc_free s @ map snd (sc_active s)"

text \<open>Every range so far has its registers, and holds them as active while it is live.\<close>

definition holds_regs :: "int \<Rightarrow> scan_state \<Rightarrow> string \<times> live_interval \<Rightarrow> bool" where
  "holds_regs t s e \<longleftrightarrow> placed (sc_mapping s) (fst e) \<and> (t \<le> snd (snd e) \<longrightarrow>
     (\<forall>x \<in> regs_at (sc_mapping s) (fst e). (snd (snd e), x) \<in> set (sc_active s)))"

definition owned :: "(string \<times> live_interval) list \<Rightarrow> scan_state \<Rightarrow> int \<Rightarrow> bool" where
  "owned done s x \<longleftrightarrow> (\<exists>e \<in> set done. x \<in> regs_at (sc_mapping s) (fst e))"

definition apart :: "int dict \<Rightarrow> string \<times> live_interval \<Rightarrow> string \<times> live_interval \<Rightarrow> bool" where
  "apart d e e' \<longleftrightarrow> (fst (snd e') \<le> snd (snd e) \<longrightarrow> regs_at d (fst e) \<inter> regs_at d (fst e') = {})"

definition scan_inv :: "int \<Rightarrow> (string \<times> live_interval) list \<Rightarrow> scan_state \<Rightarrow> bool" where
  "scan_inv t done s \<longleftrightarrow> distinct (scan_regs s) \<and> set (scan_regs s) = {1..239} \<and>
     list_all (holds_regs t s) done \<and> (\<forall>x \<in> snd ` set (sc_active s). owned done s x) \<and>
     sorted_wrt (apart (sc_mapping s)) done"

lemma scan_invD:
  assumes "scan_inv t done s"
  shows "distinct (scan_regs s)" "set (scan_regs s) = {1..239}" "e \<in> set done \<Longrightarrow> holds_regs t s e"
    "x \<in> snd ` set (sc_active s) \<Longrightarrow> owned done s x" "sorted_wrt (apart (sc_mapping s)) done"
  using assms by (auto simp: scan_inv_def list_all_iff)

lemma scan_inv_mset:
  assumes "mset (scan_regs s') = mset (scan_regs s)"
  shows "distinct (scan_regs s') = distinct (scan_regs s)" "set (scan_regs s') = set (scan_regs s)"
  using mset_eq_imp_distinct_iff [OF assms] mset_eq_setD [OF assms] by blast+

lemma expire_regs: "mset (scan_regs (expire t s)) = mset (scan_regs s)"
proof -
  have "mset (map snd (filter P xs)) + mset (map snd (filter (\<lambda>x. \<not> P x) xs)) = mset (map snd xs)"
    for P and xs :: "(int \<times> int) list"
    by (induction xs) auto
  from this [of "\<lambda>(e, _). e < t" "sc_active s"] show ?thesis
    by (simp add: scan_regs_def expire_def case_prod_unfold add.assoc)
qed

lemma expire_inv:
  assumes "scan_inv t0 done s" and "t0 \<le> t"
  shows "scan_inv t done (expire t s)"
proof -
  note i = scan_invD [OF assms(1)]
  have m: "sc_mapping (expire t s) = sc_mapping s" by (simp add: expire_def)
  have a: "set (sc_active (expire t s)) = {p \<in> set (sc_active s). t \<le> fst p}" by (auto simp: expire_def)
  have "holds_regs t (expire t s) e" if "e \<in> set done" for e
    using i(3) [OF that] assms(2) by (auto simp: holds_regs_def m a)
  moreover have "owned done (expire t s) x" if "x \<in> snd ` set (sc_active (expire t s))" for x
    using i(4) [of x] that by (auto simp: owned_def m a)
  ultimately show ?thesis using i(1,2,5) scan_inv_mset [OF expire_regs]
    by (simp add: scan_inv_def list_all_iff m)
qed

subsection \<open>A free pair is left\<close>

lemma regs_at_div:
  assumes "placed d v" and "x \<in> regs_at d v"
  shows "x div 2 = the (map_of d v) div 2"
proof -
  obtain r where r: "map_of d v = Some r" "is_pair_vreg v \<longrightarrow> even r" using assms(1) by (auto simp: placed_def)
  then have "x = r \<or> (is_pair_vreg v \<and> x = r + 1)"
    using assms(2) by (auto simp: regs_at_def block_regs_def vreg_width_def split: if_splits)
  then show ?thesis using r by (auto elim!: evenE)
qed

lemma free_pair:
  assumes "scan_inv t done s" and "length done \<le> 118"
  shows "\<exists>r. even r \<and> r \<in> set (sc_free s) \<and> r + 1 \<in> set (sc_free s)"
proof -
  let ?base = "\<lambda>v. the (map_of (sc_mapping s) v) div 2"
  let ?used = "(\<lambda>x. x div 2) ` snd ` set (sc_active s)"
  have "?used \<subseteq> ?base ` fst ` set done"
  proof
    fix k assume "k \<in> ?used"
    then obtain x where x: "x \<in> snd ` set (sc_active s)" "k = x div 2" by blast
    then obtain e where e: "e \<in> set done" "x \<in> regs_at (sc_mapping s) (fst e)"
      using scan_invD(4) [OF assms(1)] unfolding owned_def by blast
    then have "placed (sc_mapping s) (fst e)"
      using scan_invD(3) [OF assms(1)] unfolding holds_regs_def by blast
    then show "k \<in> ?base ` fst ` set done" using regs_at_div [OF _ e(2)] e(1) x(2) by blast
  qed
  then have "card ?used \<le> card (?base ` fst ` set done)" by (rule card_mono [rotated]) simp
  also have "\<dots> \<le> length done"
    using card_image_le [of "fst ` set done" ?base] card_image_le [of "set done" fst] card_length [of "done"] by simp
  also have "\<dots> < card {1..119 :: int}" using assms(2) by simp
  finally have "\<not> {1..119} \<subseteq> ?used" using card_mono [of ?used "{1..119 :: int}"] by fastforce
  then obtain k where "k \<in> {1..119}" and k3: "k \<notin> ?used" by (metis subsetI)
  then have k: "1 \<le> k" "k \<le> 119" by auto
  have "x \<in> set (sc_free s)" if "x div 2 = k" for x
  proof -
    have "x \<in> {1..239}" using that k by auto
    then have "x \<in> set (scan_regs s)" using scan_invD(2) [OF assms(1)] by blast
    then show ?thesis using that k3 by (auto simp: scan_regs_def)
  qed
  then show ?thesis by (intro exI [of _ "2 * k"]) simp
qed

subsection \<open>Assigning a register\<close>

definition vreg_list :: "string \<Rightarrow> int \<Rightarrow> int list" where
  "vreg_list v r = (if is_pair_vreg v then [r, r + 1] else [r])"

lemma set_vreg_list: "set (vreg_list v r) = block_regs r (vreg_width v)"
  by (auto simp: vreg_list_def block_regs_def vreg_width_def)

definition assign :: "string \<Rightarrow> int \<Rightarrow> int \<Rightarrow> int list \<Rightarrow> scan_state \<Rightarrow> scan_state" where
  "assign v l r rest s = s\<lparr>sc_mapping := AList.update v r (sc_mapping s),
     sc_active := sc_active s @ map (Pair l) (vreg_list v r), sc_free := rest\<rparr>"

lemma regs_at_update: "regs_at (AList.update v r d) u = (if u = v then set (vreg_list v r) else regs_at d u)"
  by (simp add: regs_at_def update_conv' set_vreg_list)

lemma assign_inv:
  assumes inv: "scan_inv t done s" and "v \<notin> fst ` set done" and "is_pair_vreg v \<longrightarrow> even r"
    and "mset (sc_free s) = mset rest + mset (vreg_list v r)"
  shows "scan_inv t (done @ [(v, t, l)]) (assign v l r rest s)"
proof -
  let ?s = "assign v l r rest s" and ?d = "sc_mapping (assign v l r rest s)"
  note i = scan_invD [OF inv]
  have regs: "mset (scan_regs ?s) = mset (scan_regs s)"
    using assms(4) by (simp add: scan_regs_def assign_def comp_def)
  have "set (sc_free s) = set rest \<union> set (vreg_list v r)" using assms(4) by (metis set_mset_mset set_mset_union)
  then have free: "set (vreg_list v r) \<subseteq> set (sc_free s)" by simp
  then have disj: "set (vreg_list v r) \<inter> snd ` set (sc_active s) = {}" using i(1) by (auto simp: scan_regs_def)
  have at_v: "regs_at ?d v = set (vreg_list v r)" by (simp add: assign_def regs_at_update)
  have new: "placed ?d v"
    using assms(3) free i(2) unfolding placed_def at_v by (auto simp: assign_def update_conv' scan_regs_def)
  have old: "regs_at ?d (fst e) = regs_at (sc_mapping s) (fst e)" "placed ?d (fst e) = placed (sc_mapping s) (fst e)"
    if "e \<in> set done" for e
  proof -
    have "fst e \<noteq> v" using imageI [OF that, of fst] assms(2) by metis
    then show "regs_at ?d (fst e) = regs_at (sc_mapping s) (fst e)" "placed ?d (fst e) = placed (sc_mapping s) (fst e)"
      by (simp_all add: assign_def regs_at_update placed_def update_conv')
  qed
  have act: "set (sc_active ?s) = set (sc_active s) \<union> Pair l ` set (vreg_list v r)" by (simp add: assign_def)
  have h: "holds_regs t ?s e" if "e \<in> set done" for e
    using i(3) [OF that] by (simp add: holds_regs_def old [OF that] act)
  have "holds_regs t ?s (v, t, l)" using new by (simp add: holds_regs_def at_v act)
  moreover have "owned (done @ [(v, t, l)]) ?s x" if "x \<in> snd ` set (sc_active ?s)" for x
  proof (cases "x \<in> set (vreg_list v r)")
    case False
    then have "x \<in> snd ` set (sc_active s)" using that unfolding act by auto
    then obtain e where "e \<in> set done" "x \<in> regs_at (sc_mapping s) (fst e)" using i(4) unfolding owned_def by blast
    then show ?thesis unfolding owned_def using old(1) by (intro bexI [of _ e]) simp_all
  qed (simp add: owned_def at_v)
  moreover have "sorted_wrt (apart ?d) done"
    using i(5) by (rule sorted_wrt_mono_rel [rotated]) (simp add: apart_def old)
  moreover have "apart ?d e (v, t, l)" if "e \<in> set done" for e
    unfolding apart_def fst_conv snd_conv old [OF that] at_v
  proof
    assume "t \<le> snd (snd e)"
    then have "\<forall>x \<in> regs_at (sc_mapping s) (fst e). (snd (snd e), x) \<in> set (sc_active s)"
      using i(3) [OF that] unfolding holds_regs_def by blast
    then show "regs_at (sc_mapping s) (fst e) \<inter> set (vreg_list v r) = {}" using disj by force
  qed
  ultimately show ?thesis using i(1,2) scan_inv_mset [OF regs] h
    by (simp add: scan_inv_def list_all_iff sorted_wrt_append)
qed

subsection \<open>The whole scan\<close>

lemma scan_step_inv:
  assumes "scan_inv t0 done s" and "t0 \<le> fd" and "v \<notin> fst ` set done" and "length done \<le> 118"
  shows "scan_inv fd (done @ [(v, fd, lu)]) (scan_step (v, fd, lu) s)"
proof -
  let ?s = "expire fd s"
  have inv: "scan_inv fd done ?s" using expire_inv assms(1,2) .
  obtain r where r: "even r" "r \<in> set (sc_free ?s)" "r + 1 \<in> set (sc_free ?s)" using free_pair [OF inv assms(4)] by blast
  have "set (sc_free ?s) \<subseteq> {1..239}" using scan_invD(2) [OF inv] by (auto simp: scan_regs_def)
  then have no0: "0 \<notin> set (sc_free ?s)" by auto
  show ?thesis
  proof (cases "is_pair_vreg v")
    case True
    obtain b rest where b: "take_pair (sc_free ?s) = (Some b, rest)" "even b"
      "mset (sc_free ?s) = add_mset b (add_mset (b + 1) (mset rest))"
      using take_pair_some [OF r no0] by blast
    have "scan_step (v, fd, lu) s = assign v lu b rest ?s"
      using True b(1) by (simp add: scan_step_def Let_def allocate_pair_def assign_pair_def assign_def vreg_list_def)
    moreover have "mset (sc_free ?s) = mset rest + mset (vreg_list v b)" using b(3) True by (simp add: vreg_list_def)
    ultimately show ?thesis using assign_inv [OF inv assms(3)] b(2) by simp
  next
    case False
    have ne: "sc_free ?s \<noteq> []" using r(2) by auto
    have "scan_step (v, fd, lu) s = assign v lu (last (sc_free ?s)) (butlast (sc_free ?s)) ?s"
      using False ne by (simp add: scan_step_def Let_def allocate_single_def assign_def vreg_list_def)
    moreover have "mset (sc_free ?s) = mset (butlast (sc_free ?s)) + mset (vreg_list v (last (sc_free ?s)))"
      using False ne append_butlast_last_id [OF ne] by (metis mset_append vreg_list_def)
    ultimately show ?thesis using assign_inv [OF inv assms(3)] False by simp
  qed
qed

lemma scan_fold_inv:
  assumes "scan_inv t done s" and "sorted (map (fst \<circ> snd) es)" and "\<forall>e \<in> set es. t \<le> fst (snd e)"
    and "distinct (map fst (done @ es))" and "length (done @ es) \<le> 119"
  shows "\<exists>t'. scan_inv t' (done @ es) (fold scan_step es s)"
  using assms
proof (induction es arbitrary: t "done" s)
  case (Cons e es)
  obtain v fd lu where e: "e = (v, fd, lu)" by (cases e) auto
  have "scan_inv fd (done @ [e]) (scan_step e s)"
    unfolding e by (rule scan_step_inv [OF Cons.prems(1)]) (use Cons.prems e in auto)
  then have "\<exists>t'. scan_inv t' ((done @ [e]) @ es) (fold scan_step es (scan_step e s))"
    by (rule Cons.IH) (use Cons.prems e in auto)
  then show ?case by simp
qed auto

lemma initial_scan_inv: "scan_inv t [] initial_scan"
proof -
  have "set (map int [1..<nat (MAX_GPR + 1)]) = {1..239}"
    by (force simp: MAX_GPR_def image_iff intro: bexI [of _ "nat _"])
  then show ?thesis
    by (simp add: scan_inv_def scan_regs_def initial_scan_def distinct_map inj_on_def)
qed

lemma merged_keys_distinct: "distinct (map fst (merged_ranges facts lr))"
proof -
  have "distinct (map fst (fold merge_range xs d))" if "distinct (map fst d)" for xs d
    using that by (induction xs arbitrary: d)
      (auto simp: merge_range_def Let_def distinct_update split: option.split)
  then have "distinct (map fst (fold merge_range (gpr_ranges facts) []))" by simp
  moreover have "map fst (extend_to_loop facts lr d) = map fst d" for d
    by (cases lr) (auto simp: extend_to_loop_def)
  ultimately show ?thesis by (simp add: merged_ranges_def)
qed

lemma scan_sound:
  assumes "length (merged_ranges facts loop_range) \<le> 119"
    and "(u, fu, lu) \<in> set (merged_ranges facts loop_range)"
    and "(v, fv, lv) \<in> set (merged_ranges facts loop_range)"
  shows "placed (gpr_scan facts loop_range) u \<and>
    (u \<noteq> v \<and> fu \<le> lv \<and> fv \<le> lu \<longrightarrow>
      regs_at (gpr_scan facts loop_range) u \<inter> regs_at (gpr_scan facts loop_range) v = {})"
proof -
  let ?es = "sort_key (fst \<circ> snd) (merged_ranges facts loop_range)"
  let ?t = "Min (insert 0 ((fst \<circ> snd) ` set ?es))"
  have "\<exists>t'. scan_inv t' ([] @ ?es) (fold scan_step ?es initial_scan)"
  proof (rule scan_fold_inv [OF initial_scan_inv [of ?t]])
    show "distinct (map fst ([] @ ?es))"
      using merged_keys_distinct [of facts loop_range] by (simp add: distinct_map)
  qed (use assms(1) in auto)
  then obtain t' where inv: "scan_inv t' ?es (fold scan_step ?es initial_scan)" by auto
  have d: "sc_mapping (fold scan_step ?es initial_scan) = gpr_scan facts loop_range"
    by (simp add: gpr_scan_def)
  have mem: "(u, fu, lu) \<in> set ?es" "(v, fv, lv) \<in> set ?es" using assms(2,3) by simp_all
  have "placed (gpr_scan facts loop_range) u"
    using scan_invD(3) [OF inv mem(1)] by (simp add: holds_regs_def d)
  moreover have "regs_at (gpr_scan facts loop_range) u \<inter> regs_at (gpr_scan facts loop_range) v = {}"
    if c: "u \<noteq> v" "fu \<le> lv" "fv \<le> lu"
  proof -
    have "apart (gpr_scan facts loop_range) (u, fu, lu) (v, fv, lv) \<or> apart (gpr_scan facts loop_range) (v, fv, lv) (u, fu, lu)"
      using scan_invD(5) [OF inv] mem c(1) unfolding d sorted_wrt_iff_nth_less in_set_conv_nth
      by (metis linorder_neqE_nat prod.inject)
    then show ?thesis using c by (auto simp: apart_def)
  qed
  ultimately show ?thesis by blast
qed

text \<open>
  C33. With at most 119 merged live ranges, the linear scan gives every range a
  register, an even one with its successor for a 64-bit name, all within 1 to 239, and two ranges
  that overlap have no register in common.
\<close>

theorem linear_scan_sound:
  assumes "length (merged_ranges facts loop_range) \<le> 119"
    and "(u, fu, lu) \<in> set (merged_ranges facts loop_range)"
    and "(v, fv, lv) \<in> set (merged_ranges facts loop_range)"
  shows "placed (gpr_scan facts loop_range) u \<and>
    (u \<noteq> v \<and> fu \<le> lv \<and> fv \<le> lu \<longrightarrow>
      regs_at (gpr_scan facts loop_range) u \<inter> regs_at (gpr_scan facts loop_range) v = {})"
  using assms by (rule scan_sound)

text \<open>
  The fall-back path for pairs rounds an odd free register down to the even
  one below it and puts that register on the free list when it cannot use it, although it is in use
  and the odd one is not put back. With every register but 3 and 7 taken, asking for a pair makes
  register 6 free while it is still active, and the next range is given it too.
\<close>

definition fragmented :: scan_state where
  "fragmented = \<lparr>sc_mapping = [], sc_active = map (Pair 10) ([1, 2, 4, 5, 6] @ [8..239]), sc_free = [3, 7]\<rparr>"

theorem pair_fallback_reuses:
  "distinct (scan_regs fragmented) \<and> set (scan_regs fragmented) = {1..239} \<and>
   (let s = allocate_single ''%r9'' 5 (allocate_pair ''%rd1'' 5 fragmented)
    in map_of (sc_mapping s) ''%r9'' = Some 6 \<and> (10, 6) \<in> set (sc_active fragmented) \<and>
       (10, 6) \<in> set (sc_active s) \<and> 7 \<notin> set (scan_regs s))"
proof -
  have regs: "scan_regs fragmented = [3, 7] @ [1, 2, 4, 5, 6] @ [8..239]"
    by (simp add: scan_regs_def fragmented_def comp_def)
  have "find_pair [3, 7] 2 = None" by code_simp
  then have "take_pair [3, 7] = (None, [3, 7])" by (simp add: take_pair_def numeral_eq_Suc)
  then have "allocate_pair ''%rd1'' 5 fragmented = fragmented\<lparr>sc_free := [3, 6]\<rparr>"
    by (simp add: allocate_pair_def fragmented_def pair_fallback_def Let_def)
  then have s: "allocate_single ''%r9'' 5 (allocate_pair ''%rd1'' 5 fragmented) =
      fragmented\<lparr>sc_free := [3], sc_mapping := [(''%r9'', 6)], sc_active := sc_active fragmented @ [(5, 6)]\<rparr>"
    by (simp add: allocate_single_def fragmented_def)
  have "distinct (scan_regs fragmented)" unfolding regs by (simp del: upto_rec_numeral)
  moreover have "set (scan_regs fragmented) = {1..239}" unfolding regs
    by (auto simp del: upto_rec_numeral)
  ultimately show ?thesis unfolding s Let_def
    by (auto simp: fragmented_def scan_regs_def image_iff simp del: upto_rec_numeral)
qed

theorem linear_scan_sound_witness:
  "placed (gpr_scan (analyze_liveness demo_ptx) None) ''%r1'' \<and>
   regs_at (gpr_scan (analyze_liveness demo_ptx) None) ''%r1'' \<inter>
   regs_at (gpr_scan (analyze_liveness demo_ptx) None) ''%r2'' = {}"
proof -
  have m: "merged_ranges (analyze_liveness demo_ptx) None =
      [(''%r1'', 0, 3), (''%r9'', 1, 2), (''%r8'', 2, 2), (''%r2'', 3, 5), (''%rd1'', 4, 5)]"
    by code_simp
  show ?thesis using linear_scan_sound [of "analyze_liveness demo_ptx" None "''%r1''" 0 3 "''%r2''" 3 5]
    unfolding m by simp
qed

end
