(* ===== verification/CFG_Order.thy ===== *)
theory CFG_Order
  imports CFG
begin

text \<open>
  The graph a built control-flow graph stands for, and the order in which \<^verbatim>\<open>reverse_postorder\<close>
  lists its blocks: what is reachable from the entry, each block once, and every edge forward
  unless it closes a cycle.
\<close>

subsection \<open>The graph\<close>

definition edge :: "CFG \<Rightarrow> string \<Rightarrow> string \<Rightarrow> bool" where
  "edge g a b \<longleftrightarrow> b \<in> set (successors (block_of g a))"

definition cfg_names :: "CFG \<Rightarrow> string list" where
  "cfg_names g = map fst (cfg_blocks g)"

definition leads_to :: "CFG \<Rightarrow> string \<Rightarrow> bool" where
  "leads_to g n \<longleftrightarrow> (edge g)\<^sup>*\<^sup>* (cfg_entry g) n"

definition cfg_wf :: "CFG \<Rightarrow> bool" where
  "cfg_wf g \<longleftrightarrow> distinct (cfg_names g) \<and> cfg_entry g \<in> set (cfg_names g) \<and>
     (\<forall>a b. edge g a b \<longrightarrow> a \<in> set (cfg_names g) \<and> b \<in> set (cfg_names g)) \<and>
     (\<forall>a b. a \<in> set (predecessors (block_of g b)) \<longleftrightarrow> edge g a b)"

lemma cfg_wfD:
  assumes "cfg_wf g"
  shows "distinct (cfg_names g)" "cfg_entry g \<in> set (cfg_names g)"
    "edge g a b \<Longrightarrow> a \<in> set (cfg_names g)" "edge g a b \<Longrightarrow> b \<in> set (cfg_names g)"
    "a \<in> set (predecessors (block_of g b)) \<longleftrightarrow> edge g a b"
  using assms unfolding cfg_wf_def by blast+

lemma leads_to_names: "cfg_wf g \<Longrightarrow> leads_to g n \<Longrightarrow> n \<in> set (cfg_names g)"
  unfolding leads_to_def by (erule rtranclp.cases) (auto simp: cfg_wfD)

subsection \<open>A built graph is well formed\<close>

text \<open>The names of the blocks built so far: distinct, in order, and the targets of all labels.\<close>

definition build_ok :: "cfg_build \<Rightarrow> bool" where
  "build_ok b \<longleftrightarrow> map fst (b_blocks b) = b_order b \<and> distinct (b_order b) \<and>
     snd ` set (b_label_block b) \<subseteq> set (b_order b) \<and>
     (\<forall>(n, c) \<in> set (b_blocks b). bb_name c = n \<and> successors c = [])"

lemma update_new: "k \<notin> fst ` set d \<Longrightarrow> AList.update k v d = d @ [(k, v)]"
  by (induction d) auto

lemma update_snds: "snd ` set (AList.update k v d) \<subseteq> insert v (snd ` set d)"
  by (induction d) auto

lemma add_block_ok:
  assumes "add_block its rng b = Inr b'" "build_ok b"
  shows "build_ok b'"
proof -
  obtain leader e where rng: "rng = (leader, e)" by (cases rng)
  let ?name = "block_name_of leader (slice_labels its leader e) (synthetic_index b)"
  let ?lab = "\<lambda>l d. if l \<in> fst ` set d then Inl (DuplicateLabel l) else Inr (AList.update l ?name d)"
  obtain lb where fresh: "?name \<notin> fst ` set (b_blocks b)"
    and lb: "fold_r ?lab (slice_labels its leader e) (b_label_block b) = Inr lb"
    and blocks: "b_order b' = b_order b @ [?name]" "b_label_block b' = lb"
      "b_blocks b' = AList.update ?name \<lparr>bb_name = ?name, bb_instructions = slice_instructions its leader e,
                item_indices = slice_indices its leader e, bb_labels = slice_labels its leader e, predecessors = [],
                successors = [], branch_successors = [], fallthrough_successor = None\<rparr> (b_blocks b)"
    using assms(1) unfolding rng add_block_def by (auto simp: Let_def bind_r_def split: if_splits sum.splits)
  have "snd ` set lb \<subseteq> insert ?name (snd ` set (b_label_block b))"
  proof (rule fold_r_keeps [OF lb])
    show "snd ` set d' \<subseteq> insert ?name (snd ` set (b_label_block b))"
      if "?lab l d = Inr d'" "snd ` set d \<subseteq> insert ?name (snd ` set (b_label_block b))" for l d d'
      using that update_snds [of l ?name d] by (simp split: if_splits) blast
  qed auto
  moreover have "?name \<notin> set (b_order b)" using fresh assms(2) by (metis build_ok_def list.set_map)
  ultimately show ?thesis using assms(2) fresh unfolding build_ok_def by (auto simp: blocks update_new)
qed

lemma make_blocks_ok:
  assumes "make_blocks p leaders = Inr b"
  shows "build_ok b"
  using assms unfolding make_blocks_def
  by (rule fold_r_keeps) (simp add: build_ok_def, blast intro: add_block_ok)

lemma next_block_mem:
  assumes "map_of (zip xs (tl xs)) n = Some m"
  shows "m \<in> set xs"
  using map_of_SomeD [OF assms] set_zip_rightD list.set_sel(2) by (metis list.sel(2))

lemma connect_block_successors:
  assumes "connect_block lb next_block b = Inr c" "successors b = []" "s \<in> set (successors c)"
  shows "s \<in> snd ` set lb \<or> map_of next_block (bb_name b) = Some s"
proof -
  have "s \<in> snd ` set lb" if "map_of lb l = Some s" for l using map_of_SomeD [OF that] by force
  then show ?thesis using assms unfolding connect_block_def Let_def by (auto split: option.splits if_splits)
qed

lemma connect_block_name: "connect_block lb next_block b = Inr c \<Longrightarrow> bb_name c = bb_name b"
  unfolding connect_block_def by (auto simp: Let_def split: option.splits if_splits)

lemma map_r_mem: "map_r f xs = Inr ys \<Longrightarrow> y \<in> set ys \<Longrightarrow> \<exists>x \<in> set xs. f x = Inr y"
  by (induction xs arbitrary: ys) (auto simp: bind_r_def split: sum.splits)

lemma map_r_map: "map_r f xs = Inr ys \<Longrightarrow> (\<And>x y. f x = Inr y \<Longrightarrow> h y = g x) \<Longrightarrow> map h ys = map g xs"
  by (induction xs arbitrary: ys) (auto simp: bind_r_def split: sum.splits)

theorem build_cfg_wf:
  assumes "build_cfg p = Inr g"
  shows "cfg_wf g"
proof -
  obtain labels leaders b bs where b: "make_blocks p leaders = Inr b" "b_blocks b \<noteq> []"
    and bs: "connect_edges (b_blocks b) (b_order b) (b_label_block b) = Inr bs"
    and g: "cfg_blocks g = with_predecessors bs"
      "cfg_entry g = (if ''entry'' \<in> fst ` set (b_blocks b) then ''entry'' else hd (b_order b))"
    using assms unfolding build_cfg_def by (force split: if_split_asm)
  have ok: "build_ok b" using make_blocks_ok [OF b(1)] .
  have "map fst bs = map fst (b_blocks b)"
    by (rule map_r_map [OF bs [unfolded connect_edges_def]]) auto
  then have names: "map fst bs = b_order b" "map fst (b_blocks b) = b_order b"
    using ok by (simp_all add: build_ok_def)
  then have gnames: "cfg_names g = b_order b"
    by (simp add: cfg_names_def g with_predecessors_def comp_def case_prod_unfold)
  have dist: "distinct (map fst bs)" using ok names by (simp add: build_ok_def)
  have "map_of (map (\<lambda>(n, b). (n, F n b)) bs) n = map_option (F n) (map_of bs n)" for F :: "string \<Rightarrow> BasicBlock \<Rightarrow> BasicBlock" and n
    by (induction bs) auto
  then have look: "map_of (cfg_blocks g) n = map_option (\<lambda>c. c\<lparr>predecessors := map fst (filter (\<lambda>(m, c). n \<in> set (successors c)) bs)\<rparr>) (map_of bs n)" for n
    unfolding g with_predecessors_def .
  have edge: "edge g a s \<longleftrightarrow> (\<exists>c. map_of bs a = Some c \<and> s \<in> set (successors c))" for a s
    by (auto simp: edge_def block_of_def empty_block_def look split: option.splits)
  have mem: "s \<in> set (b_order b)" if ac: "(a, c) \<in> set bs" "s \<in> set (successors c)" for a c s
  proof -
    obtain b0 where "(a, b0) \<in> set (b_blocks b)"
      "connect_block (b_label_block b) (zip (b_order b) (tl (b_order b))) b0 = Inr c"
      using map_r_mem [OF bs [unfolded connect_edges_def] ac(1)] by auto
    moreover from this have "successors b0 = []" using ok unfolding build_ok_def by blast
    ultimately have "s \<in> snd ` set (b_label_block b) \<or> map_of (zip (b_order b) (tl (b_order b))) (bb_name b0) = Some s"
      using connect_block_successors ac(2) by blast
    then show ?thesis
    proof
      assume "s \<in> snd ` set (b_label_block b)"
      then show ?thesis using ok unfolding build_ok_def by (elim conjE) (rule subsetD)
    qed (rule next_block_mem)
  qed
  have set_names: "fst ` set bs = set (b_order b)" using names(1) by (metis list.set_map)
  have edge_names: "a \<in> set (b_order b) \<and> s \<in> set (b_order b)" if "edge g a s" for a s
  proof -
    obtain c where c: "map_of bs a = Some c" "s \<in> set (successors c)"
      using \<open>edge g a s\<close> unfolding edge by (elim exE conjE)
    have "a \<in> fst ` set bs" using map_of_SomeD [OF c(1)] by force
    then show ?thesis using mem [OF map_of_SomeD [OF c(1)] c(2)] set_names by simp
  qed
  have preds: "a \<in> set (predecessors (block_of g s)) \<longleftrightarrow> edge g a s" for a s
  proof (cases "map_of bs s")
    case None
    then have "s \<notin> set (b_order b)" using set_names by (simp add: map_of_eq_None_iff)
    then show ?thesis using None edge_names by (auto simp: block_of_def look empty_block_def)
  next
    case (Some c)
    then show ?thesis using dist unfolding edge by (force simp: block_of_def look)
  qed
  have "cfg_entry g \<in> set (cfg_names g)"
  proof -
    have "fst ` set (b_blocks b) = set (b_order b)" using names(2) by (metis list.set_map)
    moreover have "b_order b \<noteq> []" using b(2) names(2) by auto
    ultimately show ?thesis by (simp add: gnames g(2))
  qed
  then show ?thesis
    unfolding cfg_wf_def using ok edge_names preds gnames by (simp add: build_ok_def)
qed

subsection \<open>The search\<close>

definition listed_before :: "'a list \<Rightarrow> 'a \<Rightarrow> 'a \<Rightarrow> bool" where
  "listed_before xs y x \<longleftrightarrow> (\<exists>us vs. xs = us @ x # vs \<and> y \<in> set us)"

lemma listed_before_append: "listed_before xs y x \<Longrightarrow> listed_before (xs @ zs) y x"
  unfolding listed_before_def by force

lemma listed_before_snoc: "y \<in> set xs \<Longrightarrow> listed_before (xs @ [x]) y x"
  unfolding listed_before_def by force

text \<open>
  What a search from the names \<open>R\<close> adds: each name it finishes is reached from \<open>R\<close>, and its
  successors are marked, and finished earlier unless they lead back to it.
\<close>

definition explored :: "CFG \<Rightarrow> string set \<Rightarrow> string list \<times> string list \<Rightarrow> string list \<times> string list \<Rightarrow> bool" where
  "explored g R s s' \<longleftrightarrow> (\<exists>new. snd s' = snd s @ new \<and> set (fst s') = set (fst s) \<union> set new \<and>
     distinct new \<and> set new \<inter> set (fst s) = {} \<and> R \<subseteq> set (fst s') \<and>
     (\<forall>x \<in> set new. (\<exists>r \<in> R. (edge g)\<^sup>*\<^sup>* r x) \<and>
        (\<forall>y. edge g x y \<longrightarrow> y \<in> set (fst s') \<and> (listed_before (snd s') y x \<or> (edge g)\<^sup>*\<^sup>* y x))))"

text \<open>The names marked and not finished are those the search is inside of; they lead to \<open>R\<close>.\<close>

definition search_at :: "CFG \<Rightarrow> nat \<Rightarrow> string set \<Rightarrow> string list \<times> string list \<Rightarrow> bool" where
  "search_at g k R s \<longleftrightarrow> set (snd s) \<subseteq> set (fst s) \<and> R \<subseteq> set (cfg_names g) \<and>
     (\<forall>y \<in> set (fst s) - set (snd s). \<forall>r \<in> R. (edge g)\<^sup>*\<^sup>* y r) \<and> card (set (cfg_names g) - set (fst s)) < k"

lemma explored_refl: "R \<subseteq> set (fst s) \<Longrightarrow> explored g R s s"
  unfolding explored_def by (intro exI [of _ "[]"]) simp

lemma exploredE:
  assumes "explored g R s s'"
  obtains m where "snd s' = snd s @ m" "set (fst s') = set (fst s) \<union> set m" "distinct m" "set m \<inter> set (fst s) = {}"
    "R \<subseteq> set (fst s')" "\<And>x. x \<in> set m \<Longrightarrow> \<exists>r \<in> R. (edge g)\<^sup>*\<^sup>* r x"
    "\<And>x y. x \<in> set m \<Longrightarrow> edge g x y \<Longrightarrow> y \<in> set (fst s') \<and> (listed_before (snd s') y x \<or> (edge g)\<^sup>*\<^sup>* y x)"
proof -
  from assms obtain m where "snd s' = snd s @ m \<and> set (fst s') = set (fst s) \<union> set m \<and>
     distinct m \<and> set m \<inter> set (fst s) = {} \<and> R \<subseteq> set (fst s') \<and>
     (\<forall>x \<in> set m. (\<exists>r \<in> R. (edge g)\<^sup>*\<^sup>* r x) \<and>
        (\<forall>y. edge g x y \<longrightarrow> y \<in> set (fst s') \<and> (listed_before (snd s') y x \<or> (edge g)\<^sup>*\<^sup>* y x)))"
    unfolding explored_def by blast
  then show ?thesis by (elim conjE) (rule that [of m], assumption+, blast+)
qed

lemma explored_marks: "explored g R s s' \<Longrightarrow> set (fst s) \<subseteq> set (fst s')"
  unfolding explored_def by blast

lemma explored_trans:
  assumes "explored g R s t" "explored g S t u"
  shows "explored g (R \<union> S) s u"
proof -
  obtain m where m: "snd t = snd s @ m" "set (fst t) = set (fst s) \<union> set m" "distinct m" "set m \<inter> set (fst s) = {}"
      "R \<subseteq> set (fst t)" "\<And>x. x \<in> set m \<Longrightarrow> (\<exists>r \<in> R. (edge g)\<^sup>*\<^sup>* r x)"
      "\<And>x y. x \<in> set m \<Longrightarrow> edge g x y \<Longrightarrow> y \<in> set (fst t) \<and> (listed_before (snd t) y x \<or> (edge g)\<^sup>*\<^sup>* y x)"
    using assms(1) by (rule exploredE) (rule that)
  obtain n where n: "snd u = snd t @ n" "set (fst u) = set (fst t) \<union> set n" "distinct n" "set n \<inter> set (fst t) = {}"
      "S \<subseteq> set (fst u)" "\<And>x. x \<in> set n \<Longrightarrow> (\<exists>r \<in> S. (edge g)\<^sup>*\<^sup>* r x)"
      "\<And>x y. x \<in> set n \<Longrightarrow> edge g x y \<Longrightarrow> y \<in> set (fst u) \<and> (listed_before (snd u) y x \<or> (edge g)\<^sup>*\<^sup>* y x)"
    using assms(2) by (rule exploredE) (rule that)
  have "y \<in> set (fst u) \<and> (listed_before (snd u) y x \<or> (edge g)\<^sup>*\<^sup>* y x)" if "x \<in> set (m @ n)" "edge g x y" for x y
    using that m(7) [of x y] n(7) [of x y] listed_before_append [of "snd t" y x n] n(1,2) by auto
  moreover have "\<exists>r \<in> R \<union> S. (edge g)\<^sup>*\<^sup>* r x" if "x \<in> set (m @ n)" for x
    using that m(6) [of x] n(6) [of x] by auto
  ultimately show ?thesis
    unfolding explored_def by (intro exI [of _ "m @ n"]) (use m(1-5) n(1-5) in auto)
qed

lemma search_at_next:
  assumes "search_at g k R s" "explored g S s t"
  shows "search_at g k R t"
proof -
  obtain m where m: "snd t = snd s @ m" "set (fst t) = set (fst s) \<union> set m" "set m \<inter> set (fst s) = {}"
    using assms(2) unfolding explored_def by blast
  have "card (set (cfg_names g) - set (fst t)) \<le> card (set (cfg_names g) - set (fst s))"
    using m(2) by (intro card_mono) auto
  then show ?thesis using assms(1) m unfolding search_at_def by auto
qed

lemma search_at_mono: "search_at g k R s \<Longrightarrow> S \<subseteq> R \<Longrightarrow> search_at g k S s"
  unfolding search_at_def by blast

lemma fold_explored:
  assumes "\<And>n s. n \<in> set ns \<Longrightarrow> search_at g k {n} s \<Longrightarrow> explored g {n} s (f n s)"
    and "search_at g k (set ns) s"
  shows "explored g (set ns) s (fold f ns s)"
  using assms
proof (induction ns arbitrary: s)
  case (Cons n ns)
  have 1: "explored g {n} s (f n s)" using Cons.prems search_at_mono [of g k _ s "{n}"] by simp
  have "search_at g k (set ns) (f n s)"
    using search_at_mono [OF search_at_next [OF Cons.prems(2) 1], of "set ns"] by auto
  then have "explored g (set ns) (f n s) (fold f ns (f n s))" using Cons.IH Cons.prems(1) by simp
  from explored_trans [OF 1 this] show ?case by simp
qed (simp add: explored_refl)

lemma dfs_visit_explored:
  assumes "cfg_wf g"
  shows "search_at g k {n} s \<Longrightarrow> explored g {n} s (dfs_visit k g n s)"
proof (induction k arbitrary: n s)
  case 0
  then show ?case by (simp add: search_at_def)
next
  case (Suc k)
  obtain seen post where s: "s = (seen, post)" by (cases s)
  show ?case
  proof (cases "n \<in> set seen")
    case True
    then show ?thesis by (simp add: s explored_refl)
  next
    case False
    let ?ns = "sort (successors (block_of g n))"
    have n: "n \<in> set (cfg_names g)" using Suc.prems by (simp add: search_at_def)
    have card: "card (set (cfg_names g) - set (n # seen)) < card (set (cfg_names g) - set seen)"
      using n False by (intro psubset_card_mono) auto
    have ns: "y \<in> set ?ns \<longleftrightarrow> edge g n y" for y by (simp add: edge_def)
    have gray: "(edge g)\<^sup>*\<^sup>* y n" if "y \<in> insert n (set seen - set post)" for y
      using Suc.prems that by (auto simp: search_at_def s)
    have "(edge g)\<^sup>*\<^sup>* y x" if "y \<in> insert n (set seen - set post)" "x \<in> set ?ns" for x y
      using gray [OF that(1)] that(2) ns by (blast intro: rtranclp.rtrancl_into_rtrancl)
    then have "search_at g k (set ?ns) (n # seen, post)"
      using Suc.prems card cfg_wfD(4) [OF assms] ns by (fastforce simp: s search_at_def)
    then have ex: "explored g (set ?ns) (n # seen, post) (fold (dfs_visit k g) ?ns (n # seen, post))"
      using Suc.IH by (intro fold_explored)
    obtain t where t: "t = fold (dfs_visit k g) ?ns (n # seen, post)" by simp
    obtain m where m: "snd t = post @ m" "set (fst t) = insert n (set seen) \<union> set m" "distinct m" "set m \<inter> set (n # seen) = {}"
      "set ?ns \<subseteq> set (fst t)" "\<And>x. x \<in> set m \<Longrightarrow> \<exists>r \<in> set ?ns. (edge g)\<^sup>*\<^sup>* r x"
      "\<And>x y. x \<in> set m \<Longrightarrow> edge g x y \<Longrightarrow> y \<in> set (fst t) \<and> (listed_before (snd t) y x \<or> (edge g)\<^sup>*\<^sup>* y x)"
      using ex unfolding t [symmetric] by (rule exploredE) simp
    have step: "dfs_visit (Suc k) g n s = (fst t, snd t @ [n])"
      using False by (simp add: s t case_prod_unfold)
    have "(edge g)\<^sup>*\<^sup>* n x" if "x \<in> set (m @ [n])" for x
      using that m(6) [of x] ns by (auto intro: converse_rtranclp_into_rtranclp)
    moreover have "y \<in> set (fst t) \<and> (listed_before (snd t @ [n]) y x \<or> (edge g)\<^sup>*\<^sup>* y x)" if "x \<in> set (m @ [n])" "edge g x y" for x y
    proof (cases "x = n")
      case True
      then have "y \<in> set (fst t)" using m(5) ns that(2) by auto
      then consider "y \<in> set (snd t)" | "y \<in> insert n (set seen - set post)" using m(1,2) by auto
      then show ?thesis using \<open>y \<in> set (fst t)\<close> True gray [of y] listed_before_snoc [of y "snd t" n] by cases auto
    next
      case False
      then show ?thesis using that m(7) [of x y] listed_before_append [of "snd t" y x "[n]"] by auto
    qed
    ultimately show ?thesis
      unfolding explored_def step by (intro exI [of _ "m @ [n]"]) (use m(1-5) False in \<open>auto simp: s\<close>)
  qed
qed

subsection \<open>Reverse postorder\<close>

lemma reverse_postorder_explored:
  assumes "cfg_wf g"
  obtains seen where "explored g {cfg_entry g} ([], []) (seen, rev (reverse_postorder g))"
proof -
  have "search_at g (Suc (length (cfg_blocks g))) {cfg_entry g} ([], [])"
    using cfg_wfD(2) [OF assms] card_length [of "cfg_names g"] by (simp add: search_at_def cfg_names_def)
  from dfs_visit_explored [OF assms this] that show ?thesis
    by (metis prod.collapse reverse_postorder_def rev_rev_ident)
qed

lemma reverse_postorder_distinct: "cfg_wf g \<Longrightarrow> distinct (reverse_postorder g)"
  by (erule reverse_postorder_explored) (auto simp: explored_def)

lemma reverse_postorder_iff:
  assumes "cfg_wf g"
  shows "n \<in> set (reverse_postorder g) \<longleftrightarrow> leads_to g n"
proof -
  obtain seen where e: "explored g {cfg_entry g} ([], []) (seen, rev (reverse_postorder g))"
    using reverse_postorder_explored [OF assms] .
  have closed: "y \<in> set (reverse_postorder g)" if "x \<in> set (reverse_postorder g)" "edge g x y" for x y
    using e that unfolding explored_def by fastforce
  have "n \<in> set (reverse_postorder g)" if "leads_to g n"
    using that unfolding leads_to_def
    by (induction rule: rtranclp_induct) (use e in \<open>auto simp: explored_def intro: closed\<close>)
  moreover have "leads_to g n" if "n \<in> set (reverse_postorder g)"
    using e that unfolding explored_def leads_to_def by fastforce
  ultimately show ?thesis by blast
qed

lemma reverse_postorder_forward:
  assumes "cfg_wf g" "leads_to g a" "edge g a b"
  shows "listed_before (reverse_postorder g) a b \<or> (edge g)\<^sup>*\<^sup>* b a"
proof -
  obtain seen where e: "explored g {cfg_entry g} ([], []) (seen, rev (reverse_postorder g))"
    using reverse_postorder_explored [OF assms(1)] .
  have "a \<in> set (reverse_postorder g)" using reverse_postorder_iff [OF assms(1)] assms(2) by blast
  then consider "listed_before (rev (reverse_postorder g)) b a" | "(edge g)\<^sup>*\<^sup>* b a"
    using e assms(3) unfolding explored_def by fastforce
  then show ?thesis
  proof cases
    case 1
    then obtain us vs where uv: "rev (reverse_postorder g) = us @ a # vs" "b \<in> set us" unfolding listed_before_def by blast
    then obtain xs ys where "us = xs @ b # ys" using split_list by fastforce
    then have "reverse_postorder g = (rev vs @ a # rev ys) @ b # rev xs" using uv(1) by (simp add: rev_swap)
    then show ?thesis unfolding listed_before_def by fastforce
  qed simp
qed

text \<open>
  C30. The depth-first order of a built graph lists the blocks that can be reached from the entry, each
  once and the entry first, and an edge that does not go forward in the list closes a cycle.
\<close>

theorem reverse_postorder_order:
  assumes "build_cfg p = Inr g"
  shows "distinct (reverse_postorder g) \<and>
    set (reverse_postorder g) = {n. (edge g)\<^sup>*\<^sup>* (cfg_entry g) n} \<and>
    hd (reverse_postorder g) = cfg_entry g \<and>
    (\<forall>a \<in> set (reverse_postorder g). \<forall>b. edge g a b \<longrightarrow> listed_before (reverse_postorder g) a b \<or> (edge g)\<^sup>*\<^sup>* b a)"
proof -
  have wf: "cfg_wf g" using build_cfg_wf [OF assms] .
  have "hd (reverse_postorder g) = cfg_entry g"
    by (simp add: reverse_postorder_def case_prod_unfold)
  moreover have "set (reverse_postorder g) = {n. (edge g)\<^sup>*\<^sup>* (cfg_entry g) n}"
    using reverse_postorder_iff [OF wf] unfolding leads_to_def by blast
  ultimately show ?thesis
    using reverse_postorder_distinct [OF wf] reverse_postorder_forward [OF wf] reverse_postorder_iff [OF wf] by blast
qed

text \<open>A loop with a branch inside.\<close>

definition branchy_loop :: PTXProgram where
  "branchy_loop = \<lparr>kernel_name = ''k'', parameters = [], reg_decls = [],
     items = [
       Inst \<lparr>inst_opcode = ''mov.u32'', operands = [''%r1'', ''0''], guard = None, guard_negated = False, source_line = 1\<rparr>,
       Label ''HEAD'',
       Inst \<lparr>inst_opcode = ''bra'', operands = [''ODD''], guard = Some ''%p1'', guard_negated = False, source_line = 3\<rparr>,
       Inst \<lparr>inst_opcode = ''bra'', operands = [''NEXT''], guard = None, guard_negated = False, source_line = 4\<rparr>,
       Label ''ODD'',
       Inst \<lparr>inst_opcode = ''add.u32'', operands = [''%r1'', ''%r1'', ''1''], guard = None, guard_negated = False, source_line = 6\<rparr>,
       Label ''NEXT'',
       Inst \<lparr>inst_opcode = ''bra'', operands = [''HEAD''], guard = Some ''%p2'', guard_negated = False, source_line = 8\<rparr>,
       Inst \<lparr>inst_opcode = ''ret'', operands = [], guard = None, guard_negated = False, source_line = 9\<rparr>]\<rparr>"

lemma branchy_loop_order:
  "case build_cfg branchy_loop of Inl _ \<Rightarrow> False
   | Inr g \<Rightarrow> reverse_postorder g = [''entry'', ''HEAD'', ''block_0'', ''ODD'', ''NEXT'', ''block_1'']"
  by code_simp

theorem reverse_postorder_order_witness:
  "\<exists>g. build_cfg branchy_loop = Inr g \<and> reverse_postorder g = [''entry'', ''HEAD'', ''block_0'', ''ODD'', ''NEXT'', ''block_1''] \<and>
     (edge g)\<^sup>*\<^sup>* (cfg_entry g) ''ODD'' \<and> \<not> (edge g)\<^sup>*\<^sup>* (cfg_entry g) ''block_2''"
proof -
  obtain g where g: "build_cfg branchy_loop = Inr g"
    "reverse_postorder g = [''entry'', ''HEAD'', ''block_0'', ''ODD'', ''NEXT'', ''block_1'']"
    using branchy_loop_order by (auto split: sum.splits)
  have "set (reverse_postorder g) = {n. (edge g)\<^sup>*\<^sup>* (cfg_entry g) n}"
    using reverse_postorder_order [OF g(1)] by blast
  moreover have "''ODD'' \<in> set (reverse_postorder g)" "''block_2'' \<notin> set (reverse_postorder g)"
    by (simp_all add: g(2))
  ultimately show ?thesis using g by blast
qed

end
