(* ===== verification/CFG_Doms.thy ===== *)
theory CFG_Doms
  imports CFG_Order
begin

text \<open>
  Dominators and natural loops. A block dominates another when every path from the entry goes
  through it; the iteration of \<^verbatim>\<open>dominators\<close> ends and computes exactly this relation. The loop of a
  back edge is entered through its header only.
\<close>

subsection \<open>Paths and dominance\<close>

inductive entry_path :: "CFG \<Rightarrow> string list \<Rightarrow> string \<Rightarrow> bool" for g where
  start: "entry_path g [cfg_entry g] (cfg_entry g)"
| step: "entry_path g xs a \<Longrightarrow> edge g a b \<Longrightarrow> entry_path g (xs @ [b]) b"

definition dominates :: "CFG \<Rightarrow> string \<Rightarrow> string \<Rightarrow> bool" where
  "dominates g d n \<longleftrightarrow> (\<forall>xs. entry_path g xs n \<longrightarrow> d \<in> set xs)"

lemma entry_path_leads: "entry_path g xs n \<Longrightarrow> x \<in> set xs \<Longrightarrow> leads_to g x"
proof (induction arbitrary: x rule: entry_path.induct)
  case (step xs a b)
  have "a \<in> set xs" using step.hyps(1) by (cases rule: entry_path.cases) auto
  then have "leads_to g b" using step.IH step.hyps(2) unfolding leads_to_def by (metis rtranclp.rtrancl_into_rtrancl)
  then show ?case using step by auto
qed (simp add: leads_to_def)

lemma entry_path_last: "entry_path g xs n \<Longrightarrow> n \<in> set xs"
  by (cases rule: entry_path.cases) auto

lemma leads_to_path: "leads_to g n \<Longrightarrow> \<exists>xs. entry_path g xs n"
  unfolding leads_to_def by (induction rule: rtranclp_induct) (blast intro: entry_path.intros)+

lemma leads_to_entry [simp]: "leads_to g (cfg_entry g)"
  by (simp add: leads_to_def)

lemma leads_to_step: "leads_to g a \<Longrightarrow> edge g a b \<Longrightarrow> leads_to g b"
  unfolding leads_to_def by (rule rtranclp.rtrancl_into_rtrancl)

lemma leads_to_pred: "leads_to g n \<Longrightarrow> n \<noteq> cfg_entry g \<Longrightarrow> \<exists>q. leads_to g q \<and> edge g q n"
  unfolding leads_to_def by (erule rtranclp.cases) auto

lemma dominates_self [simp]: "dominates g n n"
  by (simp add: dominates_def entry_path_last)

lemma dominates_entry: "dominates g x (cfg_entry g) \<longleftrightarrow> x = cfg_entry g"
proof
  assume "dominates g x (cfg_entry g)"
  then have "x \<in> set [cfg_entry g]" using entry_path.start unfolding dominates_def by blast
  then show "x = cfg_entry g" by simp
qed simp

lemma dominates_step:
  assumes "dominates g x n" "edge g q n"
  shows "x = n \<or> dominates g x q"
proof -
  have "x \<in> set (xs @ [n])" if "entry_path g xs q" for xs
    using entry_path.step [OF that assms(2)] assms(1) unfolding dominates_def by blast
  then show ?thesis unfolding dominates_def by auto
qed

lemma dominates_leads: "leads_to g n \<Longrightarrow> dominates g x n \<Longrightarrow> leads_to g x"
  using leads_to_path entry_path_leads unfolding dominates_def by blast

subsection \<open>One update\<close>

lemma doms_of_update [simp]: "doms_of (AList.update n s d) m = (if m = n then s else doms_of d m)"
  by (simp add: doms_of_def update_conv')

lemma keys_update: "fst ` set (AList.update n s d) = insert n (fst ` set d)"
  by (induction d) auto

lemma set_intersect_all: "xs \<noteq> [] \<Longrightarrow> set (intersect_all xs) = {x. \<forall>s \<in> set xs. x \<in> set s}"
  by (cases xs) (auto simp: intersect_all_def list_all_iff)

definition dom_keys :: "CFG \<Rightarrow> dom_sets \<Rightarrow> bool" where
  "dom_keys g d \<longleftrightarrow> fst ` set d = {n. leads_to g n}"

lemma set_new_dom:
  assumes "cfg_wf g" "dom_keys g d" "leads_to g n" "n \<noteq> cfg_entry g"
  shows "set (new_dom g d n) = insert n {x. \<forall>q. leads_to g q \<and> edge g q n \<longrightarrow> x \<in> set (doms_of d q)}"
proof -
  let ?preds = "filter (\<lambda>q. q \<in> fst ` set d) (predecessors (block_of g n))"
  have preds: "q \<in> set ?preds \<longleftrightarrow> leads_to g q \<and> edge g q n" for q
    using assms(2) cfg_wfD(5) [OF assms(1)] by (auto simp: dom_keys_def)
  have "?preds \<noteq> []" using leads_to_pred [OF assms(3,4)] preds by (metis empty_iff list.set(1))
  then show ?thesis by (simp add: new_dom_def Let_def set_intersect_all preds) (auto simp: preds [simplified])
qed

definition dom_inv :: "CFG \<Rightarrow> dom_sets \<Rightarrow> bool" where
  "dom_inv g d \<longleftrightarrow> dom_keys g d \<and> set (doms_of d (cfg_entry g)) = {cfg_entry g} \<and>
     (\<forall>n. leads_to g n \<longrightarrow> {x. dominates g x n} \<subseteq> set (doms_of d n) \<and> set (doms_of d n) \<subseteq> {x. leads_to g x} \<and>
        (n \<noteq> cfg_entry g \<longrightarrow> set (new_dom g d n) \<subseteq> set (doms_of d n)))"

lemma dom_invD:
  assumes "dom_inv g d"
  shows "dom_keys g d" "set (doms_of d (cfg_entry g)) = {cfg_entry g}"
    "leads_to g n \<Longrightarrow> dominates g x n \<Longrightarrow> x \<in> set (doms_of d n)"
    "leads_to g n \<Longrightarrow> x \<in> set (doms_of d n) \<Longrightarrow> leads_to g x"
    "leads_to g n \<Longrightarrow> n \<noteq> cfg_entry g \<Longrightarrow> set (new_dom g d n) \<subseteq> set (doms_of d n)"
  using assms unfolding dom_inv_def by blast+

lemma dom_invI:
  assumes "dom_keys g d" "set (doms_of d (cfg_entry g)) = {cfg_entry g}"
    and "\<And>n x. leads_to g n \<Longrightarrow> dominates g x n \<Longrightarrow> x \<in> set (doms_of d n)"
    and "\<And>n x. leads_to g n \<Longrightarrow> x \<in> set (doms_of d n) \<Longrightarrow> leads_to g x"
    and "\<And>n. leads_to g n \<Longrightarrow> n \<noteq> cfg_entry g \<Longrightarrow> set (new_dom g d n) \<subseteq> set (doms_of d n)"
  shows "dom_inv g d"
  unfolding dom_inv_def by (intro conjI allI impI subsetI CollectI; (elim CollectE)?; (rule assms; assumption)?)
    (erule (1) assms(5) [THEN subsetD, rotated -1])

text \<open>The sets only shrink, stay above dominance, and stay above what the next update makes of them.\<close>

lemma dom_inv_update:
  assumes "cfg_wf g" "dom_inv g d" "leads_to g n" "n \<noteq> cfg_entry g"
  shows "dom_inv g (AList.update n (new_dom g d n) d)"
proof -
  let ?d = "AList.update n (new_dom g d n) d"
  note inv = dom_invD [OF assms(2)]
  have keys: "dom_keys g ?d" using inv(1) assms(3) by (auto simp: dom_keys_def keys_update)
  have less: "set (doms_of ?d m) \<subseteq> set (doms_of d m)" for m using inv(5) [OF assms(3,4)] by simp
  have shrink: "set (new_dom g ?d m) \<subseteq> set (new_dom g d m)" if "leads_to g m" "m \<noteq> cfg_entry g" for m
    unfolding set_new_dom [OF assms(1) keys that] set_new_dom [OF assms(1) inv(1) that] using less by blast
  have "x \<in> set (new_dom g d n)" if "dominates g x n" for x
    unfolding set_new_dom [OF assms(1) inv(1) assms(3,4)] using dominates_step [OF that] inv(3) by blast
  then have above: "x \<in> set (doms_of ?d m)" if "leads_to g m" "dominates g x m" for x m
    by (cases "m = n") (use that inv(3) [OF that] \<open>\<And>x. dominates g x n \<Longrightarrow> x \<in> set (new_dom g d n)\<close> in simp_all)
  have pre: "set (new_dom g ?d m) \<subseteq> set (doms_of ?d m)" if "leads_to g m" "m \<noteq> cfg_entry g" for m
    using shrink [OF that] inv(5) [OF that] by auto
  show ?thesis
  proof (rule dom_invI [OF keys _ above _ pre])
    show "set (doms_of ?d (cfg_entry g)) = {cfg_entry g}" using inv(2) assms(4) by simp
    show "leads_to g x" if "leads_to g m" "x \<in> set (doms_of ?d m)" for m x
      using inv(4) [OF that(1)] less that(2) by blast
  qed
qed

subsection \<open>Rounds\<close>

definition weight :: "CFG \<Rightarrow> dom_sets \<Rightarrow> nat" where
  "weight g d = (\<Sum>n \<in> {n. leads_to g n}. card (set (doms_of d n)))"

lemma leads_to_finite: "cfg_wf g \<Longrightarrow> finite {n. leads_to g n}"
  using leads_to_names by (metis finite_set finite_subset mem_Collect_eq subsetI)

lemma weight_update:
  assumes "cfg_wf g" "dom_inv g d" "leads_to g n" "n \<noteq> cfg_entry g" "set (new_dom g d n) \<noteq> set (doms_of d n)"
  shows "weight g (AList.update n (new_dom g d n) d) < weight g d"
proof -
  have "set (new_dom g d n) \<subset> set (doms_of d n)" using dom_invD(5) [OF assms(2-4)] assms(5) by blast
  then have less: "card (set (new_dom g d n)) < card (set (doms_of d n))" by (intro psubset_card_mono) auto
  show ?thesis
    unfolding weight_def by (rule sum_strict_mono_ex1) (use less leads_to_finite [OF assms(1)] assms(3) in \<open>auto intro!: exI [of _ n]\<close>)
qed

definition stable_at :: "CFG \<Rightarrow> dom_sets \<Rightarrow> string \<Rightarrow> bool" where
  "stable_at g d n \<longleftrightarrow> n = cfg_entry g \<or> set (new_dom g d n) = set (doms_of d n)"

lemma fold_dom_update:
  assumes "cfg_wf g"
  shows "dom_inv g d \<Longrightarrow> \<forall>n \<in> set ns. leads_to g n \<Longrightarrow> fold (dom_update g) ns (d, c) = (d', c') \<Longrightarrow>
    dom_inv g d' \<and> weight g d' \<le> weight g d \<and> (c \<longrightarrow> c') \<and> (c' \<and> \<not> c \<longrightarrow> weight g d' < weight g d) \<and>
    (\<not> c' \<longrightarrow> d' = d \<and> (\<forall>n \<in> set ns. stable_at g d n))"
proof (induction ns arbitrary: d c)
  case (Cons n ns)
  show ?case
  proof (cases "stable_at g d n")
    case True
    then have "dom_update g n (d, c) = (d, c)" by (auto simp: dom_update_def stable_at_def)
    then have "fold (dom_update g) ns (d, c) = (d', c')" using Cons.prems(3) by simp
    from Cons.IH [OF Cons.prems(1) _ this] show ?thesis using Cons.prems(2) True by simp
  next
    case False
    let ?d = "AList.update n (new_dom g d n) d"
    have n: "leads_to g n" "n \<noteq> cfg_entry g" "set (new_dom g d n) \<noteq> set (doms_of d n)"
      using False Cons.prems(2) by (simp_all add: stable_at_def)
    have step: "dom_update g n (d, c) = (?d, True)" using n by (simp add: dom_update_def)
    have "dom_inv g d' \<and> weight g d' \<le> weight g ?d \<and> c'"
      using Cons.IH [OF dom_inv_update [OF assms Cons.prems(1) n(1,2)], of True] Cons.prems(2,3) step by simp
    then show ?thesis using weight_update [OF assms Cons.prems(1) n] by simp
  qed
qed simp

lemma dom_loop_stable:
  assumes "cfg_wf g"
  shows "dom_inv g d \<Longrightarrow> weight g d < k \<Longrightarrow>
    \<exists>d'. dom_loop k g (reverse_postorder g) d = Some d' \<and> dom_inv g d' \<and> (\<forall>n. leads_to g n \<longrightarrow> stable_at g d' n)"
proof (induction k arbitrary: d)
  case (Suc k)
  obtain d' c where r: "dom_round g (reverse_postorder g) d = (d', c)" by fastforce
  have "\<forall>n \<in> set (reverse_postorder g). leads_to g n" using reverse_postorder_iff [OF assms] by blast
  from fold_dom_update [OF assms Suc.prems(1) this r [unfolded dom_round_def]]
  have "dom_inv g d'" "c \<Longrightarrow> weight g d' < k" "\<not> c \<Longrightarrow> \<forall>n. leads_to g n \<longrightarrow> stable_at g d' n"
    using Suc.prems(2) reverse_postorder_iff [OF assms] by auto
  then show ?case using Suc.IH r by (cases c) auto
qed simp

subsection \<open>The start and the end\<close>

lemma doms_of_initial:
  "doms_of (initial_doms g reach) n = (if n = cfg_entry g then [n] else if n \<in> set reach then reach else [])"
proof -
  have "map_of (map (\<lambda>n. (n, reach)) ns) n = (if n \<in> set ns then Some reach else None)" for ns
    by (induction ns) auto
  then show ?thesis by (simp add: initial_doms_def) (simp add: doms_of_def)
qed

lemma initial_inv:
  assumes "cfg_wf g"
  shows "dom_inv g (initial_doms g (reverse_postorder g))"
proof -
  let ?d = "initial_doms g (reverse_postorder g)"
  have r: "set (reverse_postorder g) = {n. leads_to g n}" using reverse_postorder_iff [OF assms] by blast
  have doms: "set (doms_of ?d n) = (if n = cfg_entry g then {n} else {n. leads_to g n})" if "leads_to g n" for n
    using that r by (simp add: doms_of_initial)
  have keys: "dom_keys g ?d"
    using r leads_to_entry by (simp add: dom_keys_def initial_doms_def keys_update image_comp comp_def insert_absorb)
  have "set (new_dom g ?d n) \<subseteq> {x. leads_to g x}" if "leads_to g n" "n \<noteq> cfg_entry g" for n
  proof -
    have "\<exists>q. leads_to g q \<and> edge g q n" using leads_to_pred [OF that] .
    then obtain q where "leads_to g q" "edge g q n" by blast
    then have "x \<in> insert n (set (doms_of ?d q))" if "x \<in> set (new_dom g ?d n)" for x
      using that unfolding set_new_dom [OF assms keys \<open>leads_to g n\<close> \<open>n \<noteq> cfg_entry g\<close>] by blast
    then show ?thesis using doms [OF \<open>leads_to g q\<close>] \<open>leads_to g n\<close> by (fastforce split: if_splits)
  qed
  then show ?thesis
    by (intro dom_invI keys) (auto simp: doms dominates_entry dest: dominates_leads split: if_splits)
qed

lemma initial_weight:
  assumes "cfg_wf g"
  shows "weight g (initial_doms g (reverse_postorder g)) \<le> length (reverse_postorder g) * length (reverse_postorder g)"
proof -
  let ?R = "reverse_postorder g"
  have r: "{n. leads_to g n} = set ?R" using reverse_postorder_iff [OF assms] by blast
  have c: "card (set ?R) = length ?R" using reverse_postorder_distinct [OF assms] by (rule distinct_card)
  have "?R \<noteq> []" using reverse_postorder_iff [OF assms, of "cfg_entry g"] by (auto simp: leads_to_def)
  then have "card (set (doms_of (initial_doms g ?R) n)) \<le> length ?R" for n
    unfolding doms_of_initial using card_length [of ?R] by (cases "n \<in> set ?R") (simp_all add: Suc_le_eq)
  then have "weight g (initial_doms g ?R) \<le> of_nat (card (set ?R)) * length ?R"
    unfolding weight_def r by (rule sum_bounded_above)
  then show ?thesis using c by simp
qed

lemma stable_dominates:
  assumes "cfg_wf g" "dom_inv g d" "\<And>n. leads_to g n \<Longrightarrow> stable_at g d n"
  shows "entry_path g xs n \<Longrightarrow> x \<in> set (doms_of d n) \<Longrightarrow> x \<in> set xs"
proof (induction rule: entry_path.induct)
  case start
  then show ?case using dom_invD(2) [OF assms(2)] by simp
next
  case (step xs a b)
  have a: "leads_to g a" using entry_path_leads [OF step.hyps(1) entry_path_last [OF step.hyps(1)]] .
  then have b: "leads_to g b" using leads_to_step step.hyps(2) by blast
  show ?case
  proof (cases "b = cfg_entry g")
    case True
    then show ?thesis using step.prems dom_invD(2) [OF assms(2)] by simp
  next
    case False
    then have "x \<in> set (new_dom g d b)" using assms(3) [OF b] step.prems by (simp add: stable_at_def)
    then show ?thesis
      unfolding set_new_dom [OF assms(1) dom_invD(1) [OF assms(2)] b False] using a step by auto
  qed
qed

lemma dominators_spec:
  assumes "cfg_wf g"
  shows "dom_keys g (dominators g)" "leads_to g n \<Longrightarrow> set (doms_of (dominators g) n) = {d. dominates g d n}"
proof -
  obtain d where d: "dominators g = d" "dom_inv g d" "\<And>n. leads_to g n \<Longrightarrow> stable_at g d n"
    using dom_loop_stable [OF assms initial_inv [OF assms]] initial_weight [OF assms]
    unfolding dominators_def Let_def by (metis less_Suc_eq_le option.simps(5))
  show "dom_keys g (dominators g)" using dom_invD(1) d by simp
  show "set (doms_of (dominators g) n) = {d. dominates g d n}" if "leads_to g n"
    using stable_dominates [OF assms d(2,3)] dom_invD(3) [OF d(2) that] unfolding d(1) dominates_def by blast
qed

text \<open>
  C26. The iteration for the dominators ends within the square of the number of
  reachable blocks and one more round, and gives to each reachable block exactly the blocks that
  every path from the entry to it goes through.
\<close>

theorem dominators_exact:
  assumes "build_cfg p = Inr g"
  shows "(\<exists>d. dom_loop (Suc (length (reverse_postorder g) * length (reverse_postorder g))) g (reverse_postorder g)
        (initial_doms g (reverse_postorder g)) = Some d \<and> dominators g = d) \<and>
    fst ` set (dominators g) = {n. (edge g)\<^sup>*\<^sup>* (cfg_entry g) n} \<and>
    (\<forall>n. (edge g)\<^sup>*\<^sup>* (cfg_entry g) n \<longrightarrow> set (doms_of (dominators g) n) = {d. dominates g d n})"
proof -
  have wf: "cfg_wf g" using build_cfg_wf [OF assms] .
  have "\<exists>d. dom_loop (Suc (length (reverse_postorder g) * length (reverse_postorder g))) g (reverse_postorder g)
        (initial_doms g (reverse_postorder g)) = Some d \<and> dominators g = d"
    using dom_loop_stable [OF wf initial_inv [OF wf]] initial_weight [OF wf]
    unfolding dominators_def Let_def by (metis less_Suc_eq_le option.simps(5))
  then show ?thesis
    using dominators_spec [OF wf] unfolding dom_keys_def leads_to_def by blast
qed

lemma branchy_loop_doms:
  "case build_cfg branchy_loop of Inl _ \<Rightarrow> False
   | Inr g \<Rightarrow> cfg_entry g = ''entry'' \<and> sort (doms_of (dominators g) ''NEXT'') = [''HEAD'', ''NEXT'', ''entry''] \<and>
       map_of (dominators g) ''NEXT'' \<noteq> None"
  by code_simp

theorem dominators_exact_witness:
  "\<exists>g. build_cfg branchy_loop = Inr g \<and> dominates g ''HEAD'' ''NEXT'' \<and> \<not> dominates g ''ODD'' ''NEXT''"
proof -
  obtain g where g: "build_cfg branchy_loop = Inr g" "map_of (dominators g) ''NEXT'' \<noteq> None"
    "sort (doms_of (dominators g) ''NEXT'') = [''HEAD'', ''NEXT'', ''entry'']"
    using branchy_loop_doms by (auto split: sum.splits)
  have "''NEXT'' \<in> fst ` set (dominators g)" using g(2) by (metis map_of_eq_None_iff)
  then have "set (doms_of (dominators g) ''NEXT'') = {d. dominates g d ''NEXT''}"
    using dominators_exact [OF g(1)] by blast
  moreover have "set (sort (doms_of (dominators g) ''NEXT'')) = {''HEAD'', ''NEXT'', ''entry''}"
    unfolding g(3) by simp
  ultimately have "{d. dominates g d ''NEXT''} = {''HEAD'', ''NEXT'', ''entry''}" by simp
  then have "dominates g d ''NEXT'' \<longleftrightarrow> d \<in> {''HEAD'', ''NEXT'', ''entry''}" for d by blast
  then have "dominates g ''HEAD'' ''NEXT''" "\<not> dominates g ''ODD'' ''NEXT''" by simp_all
  with g(1) show ?thesis by blast
qed

subsection \<open>Natural loops\<close>

lemma backedge_dominates:
  assumes "cfg_wf g" "(t, h) \<in> set (backedges g)"
  shows "edge g t h" "leads_to g t" "dominates g h t"
proof -
  obtain b where b: "(t, b) \<in> set (cfg_blocks g)" "h \<in> set (successors b)" "h \<in> set (doms_of (dominators g) t)"
    using assms(2) unfolding backedges_def Let_def by auto
  have "map_of (cfg_blocks g) t = Some b"
    using cfg_wfD(1) [OF assms(1)] b(1) by (simp add: cfg_names_def)
  then show "edge g t h" using b(2) by (simp add: edge_def block_of_def)
  have "map_of (dominators g) t \<noteq> None" using b(3) unfolding doms_of_def by (cases "map_of (dominators g) t") simp_all
  then show t: "leads_to g t"
    using dominators_spec(1) [OF assms(1)] unfolding dom_keys_def by (metis map_of_eq_None_iff mem_Collect_eq)
  show "dominates g h t" using dominators_spec(2) [OF assms(1) t] b(3) by simp
qed

lemma worklist_cong:
  assumes "\<And>x. x \<in> S \<Longrightarrow> f x = f' x \<and> set (f x) \<subseteq> S" "set todo \<subseteq> S"
  shows "worklist U f seen todo = worklist U f' seen todo"
  using assms
proof (induction U f seen todo rule: worklist.induct)
  case (1 U f seen todo)
  show ?case
  proof (cases "todo = []")
    case False
    let ?new = "fresh_of U seen (f (last todo))"
    have last: "last todo \<in> S" using False 1(3) last_in_set by blast
    then have "set ?new \<subseteq> S" using 1(2) unfolding fresh_of_def by fastforce
    then have "set (butlast todo @ ?new) \<subseteq> S" using 1(3) by (auto dest: in_set_butlastD)
    from 1(1) [OF False refl 1(2) this] show ?thesis
      using False 1(2) [OF last] by (simp add: worklist.simps [of U f seen] worklist.simps [of U f' seen] Let_def)
  qed simp
qed

text \<open>The blocks from which the tail is reached without coming back through the header.\<close>

abbreviation avoiding :: "CFG \<Rightarrow> string \<Rightarrow> string \<Rightarrow> string \<Rightarrow> bool" where
  "avoiding g h \<equiv> (\<lambda>a b. edge g a b \<and> b \<noteq> h)\<^sup>*\<^sup>*"

lemma natural_loop_blocks:
  assumes "cfg_wf g" "t \<noteq> h" "t \<in> set (cfg_names g)"
  shows "set (loop_blocks (natural_loop g (t, h))) = {n. n = h \<or> n \<noteq> h \<and> avoiding g h n t}"
proof -
  let ?f = "\<lambda>x. if x = h then [] else loop_preds g h x"
  have preds: "q \<in> set (loop_preds g h n) \<longleftrightarrow> edge g q n \<and> q \<noteq> h" for q n
    using cfg_wfD(5) [OF assms(1)] by (auto simp: loop_preds_def)
  have eq: "loop_blocks (natural_loop g (t, h)) = worklist (cfg_names g) ?f [h, t] [t]" (is "_ = ?w")
    using assms(2) unfolding natural_loop_def cfg_names_def
    by (simp, intro worklist_cong [where S = "{x. x \<noteq> h}"]) (auto simp: preds)
  have "set ?w \<subseteq> {n. n = h \<or> n \<noteq> h \<and> avoiding g h n t}"
    by (rule worklist_least) (use assms(2) in \<open>auto simp: preds intro: converse_rtranclp_into_rtranclp split: if_splits\<close>)
  moreover have closed: "q \<in> set ?w" if "n \<in> set ?w" "n \<noteq> h" "edge g q n" "q \<noteq> h" for n q
  proof -
    have "set (?f n) \<inter> set (cfg_names g) \<subseteq> set ?w"
      by (rule worklist_closed) (use that(1) in auto)
    then show ?thesis using that(2-4) cfg_wfD(3) [OF assms(1) that(3)] preds [of q n] by auto
  qed
  moreover have "n \<in> set ?w" if "avoiding g h n t" "n \<noteq> h" for n
    using that
  proof (induction rule: converse_rtranclp_induct)
    case base
    then show ?case using worklist_mono [of "[h, t]"] by force
  qed (use closed in blast)
  moreover have "h \<in> set ?w" using worklist_mono [of "[h, t]"] by force
  ultimately show ?thesis unfolding eq by blast
qed

text \<open>
  C27. A natural loop has its back edge, every block of it other than the
  header reaches the tail without going through the header, the header dominates its blocks, and an
  edge from outside leads to the header only.
\<close>

theorem natural_loop_single_entry:
  assumes "build_cfg p = Inr g" "l \<in> set (natural_loops g)"
  shows "edge g (loop_tail l) (loop_header l) \<and> {loop_header l, loop_tail l} \<subseteq> set (loop_blocks l) \<and>
    (\<forall>n \<in> set (loop_blocks l). dominates g (loop_header l) n \<and>
       (n \<noteq> loop_header l \<longrightarrow> avoiding g (loop_header l) n (loop_tail l))) \<and>
    (\<forall>a b. edge g a b \<and> a \<notin> set (loop_blocks l) \<and> b \<in> set (loop_blocks l) \<longrightarrow> b = loop_header l)"
proof -
  have wf: "cfg_wf g" using build_cfg_wf [OF assms(1)] .
  obtain t h where l: "l = natural_loop g (t, h)" "(t, h) \<in> set (backedges g)"
    using assms(2) unfolding natural_loops_def by auto
  have th: "loop_tail l = t" "loop_header l = h" by (simp_all add: l natural_loop_def)
  note tail_edge = backedge_dominates [OF wf l(2)]
  show ?thesis
  proof (cases "t = h")
    case True
    then have "loop_blocks l = [h]" by (simp add: l natural_loop_def)
    then show ?thesis using tail_edge True th by simp
  next
    case False
    have blocks: "set (loop_blocks l) = {n. n = h \<or> n \<noteq> h \<and> avoiding g h n t}"
      unfolding l using natural_loop_blocks [OF wf False cfg_wfD(3) [OF wf tail_edge(1)]] .
    have dom: "dominates g h n" if "avoiding g h n t" for n
      using that
    proof (induction rule: converse_rtranclp_induct)
      case (step a b)
      then show ?case using dominates_step by blast
    qed (use tail_edge in simp)
    have "a \<in> set (loop_blocks l)" if "edge g a b" "b \<in> set (loop_blocks l)" "b \<noteq> h" for a b
      using that unfolding blocks by (auto intro: converse_rtranclp_into_rtranclp)
    then show ?thesis using tail_edge(1) False dom unfolding th blocks by auto
  qed
qed

lemma branchy_loop_found:
  "case build_cfg branchy_loop of Inl _ \<Rightarrow> False
   | Inr g \<Rightarrow> map (\<lambda>l. (loop_header l, loop_tail l, loop_blocks l)) (natural_loops g) =
       [(''HEAD'', ''NEXT'', [''HEAD'', ''NEXT'', ''block_0'', ''ODD''])]"
  by code_simp

theorem natural_loop_single_entry_witness:
  "\<exists>g l. build_cfg branchy_loop = Inr g \<and> l \<in> set (natural_loops g) \<and>
     loop_blocks l = [''HEAD'', ''NEXT'', ''block_0'', ''ODD''] \<and>
     (\<forall>a b. edge g a b \<and> a \<notin> set (loop_blocks l) \<and> b \<in> set (loop_blocks l) \<longrightarrow> b = ''HEAD'') \<and>
     dominates g ''HEAD'' ''ODD''"
proof -
  obtain g where g: "build_cfg branchy_loop = Inr g"
    "map (\<lambda>l. (loop_header l, loop_tail l, loop_blocks l)) (natural_loops g) =
       [(''HEAD'', ''NEXT'', [''HEAD'', ''NEXT'', ''block_0'', ''ODD''])]"
    using branchy_loop_found by (auto split: sum.splits)
  then obtain l where "natural_loops g = [l]" "loop_header l = ''HEAD''" and l: "l \<in> set (natural_loops g)"
    "loop_blocks l = [''HEAD'', ''NEXT'', ''block_0'', ''ODD'']"
    by (cases "natural_loops g") (simp_all only: list.simps prod.simps, simp)
  from natural_loop_single_entry [OF g(1) l(1)]
  have "\<forall>n \<in> set (loop_blocks l). dominates g (loop_header l) n"
    "\<forall>a b. edge g a b \<and> a \<notin> set (loop_blocks l) \<and> b \<in> set (loop_blocks l) \<longrightarrow> b = loop_header l" by blast+
  moreover have "''ODD'' \<in> set (loop_blocks l)" by (simp add: l(2))
  ultimately show ?thesis using g(1) l \<open>loop_header l = ''HEAD''\<close> by metis
qed

end
