(* ===== verification/Lower_Rel.thy ===== *)
theory Lower_Rel
  imports Alloc_Proofs Pass_Proofs Sched_Prog
begin

unbundle bit_operations_syntax

text \<open>
  When a thread of the simulator stands for a state of the reference semantics: the register file
  holds the virtual registers at the places the lowering gave them, the predicates are the same,
  and so are memory, the log of accesses and the position in the grid.
\<close>

declare ptx_run.simps(2) [simp del]

subsection \<open>One lane, one instruction\<close>

definition lane_step :: "float_host \<Rightarrow> AECInstruction \<Rightarrow> LaneState \<times> sim_state
    \<Rightarrow> (LaneState \<times> sim_state) option" where
  "lane_step h inst st = (case st of (l, s) \<Rightarrow>
     if inst_kind inst = CONTROL then None
     else Option.bind (result_option (guard_passes inst l)) (\<lambda>go.
       if go then result_option (execute_lane h inst l (bump s)) else Some (l, bump s)))"

lemma upper_opcodes [simp]:
  "py_upper ''LOADI'' = ''LOADI''" "py_upper ''LOADI64'' = ''LOADI64''" "py_upper ''CPY'' = ''CPY''"
  "py_upper ''LD'' = ''LD''" "py_upper ''ST'' = ''ST''" "py_upper ''ADD'' = ''ADD''" "py_upper ''SUB'' = ''SUB''"
  "py_upper ''MUL'' = ''MUL''" "py_upper ''MAD'' = ''MAD''" "py_upper ''FMA'' = ''FMA''" "py_upper ''AND'' = ''AND''"
  "py_upper ''OR'' = ''OR''" "py_upper ''XOR'' = ''XOR''" "py_upper ''SHL'' = ''SHL''" "py_upper ''SHR'' = ''SHR''"
  "py_upper ''CMPP'' = ''CMPP''" "py_upper ''BR'' = ''BR''" "py_upper ''BRX'' = ''BRX''" "py_upper ''HALT'' = ''HALT''"
  by code_simp+

lemma warp_step_single:
  "warp_step h inst ([l], s) = map_option (\<lambda>(l', s'). ([l'], s')) (lane_step h inst (l, s))"
  by (auto simp: warp_step_def lane_step_def result_option_def split: sum.splits)

lemma run_steps_single:
  "run_steps (lane_step h) xs (l, s) = Some (l', s') \<Longrightarrow> run_steps (warp_step h) xs ([l], s) = Some ([l'], s')"
  by (induction xs arbitrary: l s) (auto simp: warp_step_single split: option.splits)

lemma result_option_Some: "result_option q = Some v \<longleftrightarrow> q = Inr v"
  by (cases q) simp_all

lemma run_steps_compose:
  "run_steps step xs s = Some t \<Longrightarrow> run_steps step ys t = Some u \<Longrightarrow> run_steps step (xs @ ys) s = Some u"
  by (simp add: run_steps_append)

lemma word_val_mask: "word_val v \<Longrightarrow> v AND 0xFFFFFFFF = v"
  by (simp add: word_val_def and_mask32)

definition reg_at :: "LaneState \<Rightarrow> int \<Rightarrow> int" where
  "reg_at l r = registers l ! nat r"

definition put_reg :: "LaneState \<Rightarrow> int \<Rightarrow> int \<Rightarrow> LaneState" where
  "put_reg l r v = l\<lparr>registers := (registers l)[nat r := v]\<rparr>"

lemma get_reg_at: "lane_ok l \<Longrightarrow> 0 \<le> r \<Longrightarrow> r < 256 \<Longrightarrow> get_reg l r = Inr (reg_at l r)"
  by (simp add: get_reg_def py_get_def py_index_nonneg lane_ok_def reg_at_def)

lemma set_reg_put: "lane_ok l \<Longrightarrow> 0 \<le> r \<Longrightarrow> r < 256 \<Longrightarrow> set_reg l r v = Inr (put_reg l r v)"
  by (simp add: set_reg_def py_set_def py_index_nonneg lane_ok_def put_reg_def)

lemma put_reg_ok: "lane_ok l \<Longrightarrow> word_val v \<Longrightarrow> 0 \<le> r \<Longrightarrow> r < 256 \<Longrightarrow> lane_ok (put_reg l r v)"
  using set_reg_ok set_reg_put by blast

lemma reg_at_word: "lane_ok l \<Longrightarrow> 0 \<le> r \<Longrightarrow> r < 256 \<Longrightarrow> word_val (reg_at l r)"
  using get_reg_word get_reg_at by blast

lemma reg_at_put:
  "lane_ok l \<Longrightarrow> 0 \<le> r \<Longrightarrow> r < 256 \<Longrightarrow> 0 \<le> q \<Longrightarrow> reg_at (put_reg l r v) q = (if q = r then v else reg_at l q)"
  by (auto simp: reg_at_def put_reg_def lane_ok_def nth_list_update)

lemma put_reg_fields [simp]:
  "predicates (put_reg l r v) = predicates l" "block (put_reg l r v) = block l"
  "thread (put_reg l r v) = thread l" "block_dim (put_reg l r v) = block_dim l"
  "grid_dim (put_reg l r v) = grid_dim l" "warp_size (put_reg l r v) = warp_size l"
  by (simp_all add: put_reg_def)

lemma bump_fields [simp]:
  "gmem (bump s) = gmem s" "pmem (bump s) = pmem s" "accesses (bump s) = accesses s"
  by (simp_all add: bump_def)

subsection \<open>The relation\<close>

definition PRED_NAMES :: "string list" where
  "PRED_NAMES = [''%p0'', ''%p1'', ''%p2'', ''%p3'', ''%p4'', ''%p5'', ''%p6'', ''%p7'']"

lemma PRED_NAMES_length [simp]: "length PRED_NAMES = 8"
  by (simp add: PRED_NAMES_def)

definition same_world :: "sim_state \<Rightarrow> sim_state \<Rightarrow> bool" where
  "same_world s t \<longleftrightarrow> gmem s = gmem t \<and> pmem s = pmem t \<and> accesses s = accesses t"

lemma same_world_bump [simp]: "same_world s (bump t) = same_world s t"
  by (simp add: same_world_def)

text \<open>The position of a lane in the grid; all that its identity fields are read for.\<close>

definition same_place :: "LaneState \<Rightarrow> LaneState \<Rightarrow> bool" where
  "same_place k l \<longleftrightarrow> block k = block l \<and> thread k = thread l \<and> block_dim k = block_dim l \<and>
     grid_dim k = grid_dim l \<and> warp_size k = warp_size l"

type_synonym placement = "string \<Rightarrow> int option"

text \<open>
  Different names have different registers, within 1 to 239; a name of the 64-bit class owns the
  next register, too.
\<close>

definition apart_placement :: "placement \<Rightarrow> bool" where
  "apart_placement M \<longleftrightarrow>
     (\<forall>v r. M v = Some r \<longrightarrow> 1 \<le> r \<and> r \<le> 239 \<and>
        (starts_with v ''%rd'' \<longrightarrow> r \<le> 238 \<and> (\<forall>u. M u \<noteq> Some (r + 1)))) \<and>
     (\<forall>u v r. M u = Some r \<longrightarrow> M v = Some r \<longrightarrow> u = v)"

lemma apart_placementD:
  assumes "apart_placement M" "M v = Some r"
  shows "1 \<le> r" "r \<le> 239" "starts_with v ''%rd'' \<Longrightarrow> r \<le> 238 \<and> (\<forall>u. M u \<noteq> Some (r + 1))"
    "M u = Some r \<Longrightarrow> u = v"
  using assms unfolding apart_placement_def by blast+

definition simulates :: "placement \<Rightarrow> pstate \<Rightarrow> LaneState \<Rightarrow> sim_state \<Rightarrow> bool" where
  "simulates M \<sigma> l s \<longleftrightarrow> lane_ok l \<and> (\<forall>v r. M v = Some r \<longrightarrow> reg_at l r = vregs \<sigma> v) \<and>
     (\<forall>n < 8. predicates l ! n = vpreds \<sigma> (PRED_NAMES ! n)) \<and>
     same_place (vlane \<sigma>) l \<and> same_world (vmem \<sigma>) s"

lemma simulates_bump [simp]: "simulates M \<sigma> l (bump s) = simulates M \<sigma> l s"
  by (simp add: simulates_def)

lemma simulatesD:
  assumes "simulates M \<sigma> l s"
  shows "lane_ok l" "M v = Some r \<Longrightarrow> reg_at l r = vregs \<sigma> v" "same_place (vlane \<sigma>) l" "same_world (vmem \<sigma>) s"
  using assms by (simp_all add: simulates_def)

lemma special_value_place: "same_place k l \<Longrightarrow> special_value sel k = special_value sel l"
  by (simp add: same_place_def special_value_def thread_x_def thread_y_def thread_z_def block_x_def
      block_y_def block_z_def)

text \<open>A temporary, or a register that stands for no name, can be overwritten.\<close>

lemma simulates_put_other:
  assumes "simulates M \<sigma> l s" "word_val v" "0 \<le> r" "r < 256" "\<And>u. M u \<noteq> Some r" "apart_placement M"
  shows "simulates M \<sigma> (put_reg l r v) s"
proof -
  have "reg_at (put_reg l r v) q = vregs \<sigma> u" if "M u = Some q" for u q
    using apart_placementD(1) [OF assms(6) that] assms(5) [of u] that assms(1,3,4)
    by (auto simp: simulates_def reg_at_put)
  then show ?thesis using assms(1-4) by (simp add: simulates_def put_reg_ok same_place_def)
qed

lemma simulates_put_reg:
  assumes "simulates M \<sigma> l s" "word_val v" "M u = Some r" "apart_placement M" "same_world t s'"
  shows "simulates M (set_reg_v \<sigma> u v t) (put_reg l r v) s'"
proof -
  have r: "1 \<le> r" "r \<le> 239" and inj: "\<And>x. M x = Some r \<Longrightarrow> x = u"
    using assms(3,4) unfolding apart_placement_def by blast+
  have ok: "lane_ok (put_reg l r v)" using assms(1,2) r by (intro put_reg_ok) (auto simp: simulates_def)
  have "reg_at (put_reg l r v) q = (if x = u then v else vregs \<sigma> x)" if "M x = Some q" for x q
    using that inj [of x] assms(1,3,4) r reg_at_put [of l r q v]
    by (fastforce simp: simulates_def apart_placement_def)
  then show ?thesis using assms(1,5) ok by (simp add: simulates_def set_reg_v_def same_place_def)
qed

lemma simulates_temp:
  "simulates M \<sigma> l s \<Longrightarrow> apart_placement M \<Longrightarrow> word_val v \<Longrightarrow> 240 \<le> r \<Longrightarrow> r < 256 \<Longrightarrow> simulates M \<sigma> (put_reg l r v) s"
  by (rule simulates_put_other) (auto dest: apart_placementD(2))

lemma simulates_high:
  assumes "simulates M \<sigma> l s" "apart_placement M" "word_val v" "M u = Some r" "starts_with u ''%rd''"
  shows "simulates M \<sigma> (put_reg l (r + 1) v) s"
proof (rule simulates_put_other [OF assms(1,3)])
  show "M u' \<noteq> Some (r + 1)" for u' using apart_placementD(3) [OF assms(2,4,5)] by blast
  show "0 \<le> r + 1" "r + 1 < 256" using apart_placementD(1,2) [OF assms(2,4)] by simp_all
qed (rule assms(2))

subsection \<open>Guards\<close>

lemma pred_name_numbers:
  "map (\<lambda>q. case predicate_number q of Inl _ \<Rightarrow> - 1 | Inr k \<Rightarrow> k) PRED_NAMES = map int [0..<8]"
  by code_simp

lemma predicate_number_name:
  assumes "n < 8"
  shows "predicate_number (PRED_NAMES ! n) = Inr (int n)"
proof -
  have "(case predicate_number (PRED_NAMES ! n) of Inl _ \<Rightarrow> - 1 | Inr k \<Rightarrow> k) = map int [0..<8] ! n"
    using assms by (simp flip: pred_name_numbers)
  then show ?thesis using assms by (simp split: sum.splits)
qed

lemma percent_no_space: "\<not> is_space (CHR ''%'')"
  by code_simp

lemma predicate_number_register: "predicate_number (guard_register p) = predicate_number p"
proof (cases "starts_with (py_strip p) ''%''")
  case True
  then show ?thesis by (simp add: guard_register_def predicate_number_def Let_def)
next
  case False
  have "py_strip (CHR ''%'' # py_strip p) = CHR ''%'' # py_strip p"
    using strip_last [of p] rstrip_id [of "CHR ''%'' # py_strip p"]
    by (auto simp: py_strip_def [of "CHR ''%'' # py_strip p"] lstrip_id percent_no_space simp del: strip_strip)
  then show ?thesis using False by (simp add: guard_register_def predicate_number_def Let_def cong del: if_weak_cong option.case_cong_weak)
qed

lemma predicate_number_canonical:
  "n < 8 \<Longrightarrow> guard_register p = PRED_NAMES ! n \<Longrightarrow> predicate_number p = Inr (int n)"
  using predicate_number_name predicate_number_register by metis

lemma guard_agrees:
  assumes "with_guard i inst = Inr x" "simulates M \<sigma> l s" "predicate inst = None"
    and "\<And>p. guard i = Some p \<Longrightarrow> guard_register p \<in> set PRED_NAMES"
  shows "guard_passes x l = Inr (guard_holds i \<sigma>)"
proof (cases "guard i")
  case None
  then show ?thesis using assms(1,3) by (simp add: with_guard_def guard_passes_def guard_holds_def)
next
  case (Some p)
  then obtain n where n: "n < 8" "guard_register p = PRED_NAMES ! n"
    using assms(4) [of p] by (auto simp: in_set_conv_nth)
  then have "predicate x = Some (int n)" "predicate_negated x = guard_negated i"
    using assms(1) Some predicate_number_canonical [OF n] by (auto simp: with_guard_def)
  moreover have "get_pred l (int n) = Inr (vpreds \<sigma> (PRED_NAMES ! n))"
    using assms(2) n(1) by (simp add: get_pred_def py_get_def py_index_nonneg simulates_def lane_ok_def)
  ultimately show ?thesis using Some n(2) by (auto simp: guard_passes_def guard_holds_def)
qed

lemma execute_lane_guard: "execute_lane h (x\<lparr>predicate := p, predicate_negated := b\<rparr>) l s = execute_lane h x l s"
  by (cases x) (simp add: execute_lane_def execute_load_def execute_store_def require_space_def reg2_def reg3_def
      copy_value_def cong del: if_weak_cong)

lemma with_guard_fields:
  assumes "with_guard i inst = Inr x"
  shows "execute_lane h x l s = execute_lane h inst l s" "opcode x = opcode inst"
  using assms execute_lane_guard by (auto simp: with_guard_def split: option.splits)

text \<open>A guarded instruction does nothing, or what the instruction does.\<close>

lemma guarded_step:
  assumes "with_guard i inst = Inr x" "simulates M \<sigma> l s" "predicate inst = None"
    and "\<And>p. guard i = Some p \<Longrightarrow> guard_register p \<in> set PRED_NAMES" "inst_kind inst \<noteq> CONTROL"
  shows "lane_step h x (l, s) = (if guard_holds i \<sigma> then result_option (execute_lane h inst l (bump s))
    else Some (l, bump s))"
proof -
  have "inst_kind x \<noteq> CONTROL" using assms(5) with_guard_fields(2) [OF assms(1)] by (simp add: inst_kind_def)
  then show ?thesis
    using guard_agrees [OF assms(1-4)] with_guard_fields(1) [OF assms(1)] by (simp add: lane_step_def)
qed

end
