(* ===== verification/Lower_Operands.thy ===== *)
theory Lower_Operands
  imports Lower_Rel
begin

unbundle bit_operations_syntax

text \<open>
  What the building blocks of the lowering emit: a register for a name, a constant in a temporary,
  and the sequences of operands in front of the instruction that uses them.
\<close>

subsection \<open>The lowering state\<close>

definition placement_of :: "lower_state \<Rightarrow> placement" where
  "placement_of s = map_of (ra_mapping (ls_regs s))"

definition fits :: "placement \<Rightarrow> lower_state \<Rightarrow> bool" where
  "fits M s \<longleftrightarrow> placement_of s \<subseteq>\<^sub>m M"

definition temp_of :: "lower_state \<Rightarrow> int" where
  "temp_of s = ra_temp_next (ls_regs s)"

text \<open>The same output so far, labels and branches.\<close>

definition extends :: "lower_state \<Rightarrow> AECInstruction list \<Rightarrow> lower_state \<Rightarrow> bool" where
  "extends s xs s' \<longleftrightarrow> ls_out s' = ls_out s @ xs \<and> ls_labels s' = ls_labels s \<and>
     ls_pending s' = ls_pending s \<and> placement_of s \<subseteq>\<^sub>m placement_of s'"

lemma extends_refl: "extends s [] s"
  by (simp add: extends_def)

lemma extends_trans: "extends s xs s1 \<Longrightarrow> extends s1 ys s2 \<Longrightarrow> extends s (xs @ ys) s2"
  by (auto simp: extends_def intro: map_le_trans)

lemma fits_extends: "extends s xs s' \<Longrightarrow> fits M s' \<Longrightarrow> fits M s"
  by (auto simp: extends_def fits_def intro: map_le_trans)

lemma lbind_Inr [simp]:
  "lbind m f s = Inr (y, s'') \<longleftrightarrow> (\<exists>x s'. m s = Inr (x, s') \<and> f x s' = Inr (y, s''))"
  by (auto simp: lbind_def)

lemma lift_l_Inr [simp]: "lift_l r s = Inr (x, s') \<longleftrightarrow> r = Inr x \<and> s' = s"
  by (auto simp: lift_l_def)

lemma require_operands_Inr [simp]:
  "require_operands i n s = Inr (u, s') \<longleftrightarrow> length (operands i) = n \<and> s' = s"
  by (auto simp: require_operands_def)

lemma emit_plain:
  "map_of (item_guards (le_plan env)) k = None \<Longrightarrow>
   emit env k x s = Inr ((), s\<lparr>ls_out := ls_out s @ [x]\<rparr>)"
  by (simp add: emit_def)

lemma emitted_extends: "extends s [x] (s\<lparr>ls_out := ls_out s @ [x]\<rparr>)"
  by (simp add: extends_def placement_of_def)

lemma ra_reg_result:
  assumes "ra_reg t p a = Inr (r, a')"
  shows "map_of (ra_mapping a) \<subseteq>\<^sub>m map_of (ra_mapping a')" "map_of (ra_mapping a') (py_strip t) = Some r"
    "ra_temp_next a' = ra_temp_next a"
  using assms by (auto simp: ra_reg_def ra_allocate_def Let_def map_le_def update_conv' split: option.splits)

lemma ptx_reg_result:
  assumes "ptx_reg t p s = Inr (r, s')"
  shows "extends s [] s'" "temp_of s' = temp_of s" "placement_of s' (py_strip t) = Some r"
proof -
  obtain a where a: "ra_reg (py_strip t) (p \<or> starts_with (py_strip t) ''%rd'') (ls_regs s) = Inr (r, a)"
    and s': "s' = s\<lparr>ls_regs := a\<rparr>"
    using assms by (auto simp: ptx_reg_def Let_def on_regs_def)
  show "extends s [] s'" "temp_of s' = temp_of s" "placement_of s' (py_strip t) = Some r"
    using ra_reg_result [OF a] by (simp_all add: s' extends_def temp_of_def placement_of_def)
qed

lemma fits_placed: "ptx_reg t p s = Inr (r, s') \<Longrightarrow> fits M s' \<Longrightarrow> M (py_strip t) = Some r"
  using ptx_reg_result(3) [of t p s r s'] unfolding fits_def map_le_def by (metis domI)

lemma ra_temp_result:
  assumes "on_regs ra_temp s = Inr (r, s')"
  shows "extends s [] s'" "r = temp_of s" "r \<le> 255" "temp_of s' = r + 1"
  using assms by (auto simp: on_regs_def ra_temp_def Let_def extends_def temp_of_def placement_of_def split: if_splits)

subsection \<open>Operands\<close>

text \<open>
  The code before the instruction proper leaves the relation as it is, and puts the value of each
  operand in the register the lowering named for it.
\<close>

type_synonym delivery = "(pstate \<Rightarrow> int option) \<times> int"

definition holds :: "pstate \<Rightarrow> LaneState \<Rightarrow> delivery list \<Rightarrow> bool" where
  "holds \<sigma> l vs \<longleftrightarrow> (\<forall>(f, r) \<in> set vs. \<forall>v. f \<sigma> = Some v \<longrightarrow> reg_at l r = v)"

abbreviation value_of :: "string \<Rightarrow> pstate \<Rightarrow> int option" where
  "value_of tok \<equiv> \<lambda>\<sigma>. operand_value \<sigma> tok"

definition delivers :: "float_host \<Rightarrow> placement \<Rightarrow> AECInstruction list \<Rightarrow> delivery list \<Rightarrow> bool" where
  "delivers h M xs vs \<longleftrightarrow> (\<forall>\<sigma> l t. simulates M \<sigma> l t \<longrightarrow>
     (\<exists>l' t'. run_steps (lane_step h) xs (l, t) = Some (l', t') \<and> simulates M \<sigma> l' t' \<and> holds \<sigma> l' vs))"

definition ready :: "float_host \<Rightarrow> placement \<Rightarrow> lower_state \<Rightarrow> lower_state \<Rightarrow> AECInstruction list
    \<Rightarrow> delivery list \<Rightarrow> bool" where
  "ready h M s0 s xs vs \<longleftrightarrow> extends s0 xs s \<and> 240 \<le> temp_of s \<and> temp_of s \<le> 256 \<and>
     (\<forall>(f, r) \<in> set vs. 1 \<le> r \<and> r < temp_of s) \<and> delivers h M xs vs"

lemma ready_start: "temp_of s = 240 \<Longrightarrow> ready h M s s [] []"
  by (auto simp: ready_def extends_refl delivers_def holds_def)

lemma ready_reg:
  "ready h M s0 s xs vs \<Longrightarrow> ptx_reg t p s = Inr (r, s') \<Longrightarrow> ready h M s0 s' xs vs"
  using ptx_reg_result [of t p s r s'] extends_trans [of s0 xs s "[]" s'] by (auto simp: ready_def)

lemma lane_step_loadi:
  assumes "lane_ok l" "0 \<le> r" "r < 256"
  shows "lane_step h ((aec ''LOADI'')\<lparr>dest := r, imm := v\<rparr>) (l, t) = Some (put_reg l r (v AND 0xFFFFFFFF), bump t)"
  using assms by (simp add: lane_step_def inst_kind_def aec_def guard_passes_def execute_lane_def
      upd_reg_def set_reg_put Let_def)

lemma lane_step_loadi_typed:
  assumes "lane_ok l" "0 \<le> r" "r < 256"
  shows "lane_step h ((aec ''LOADI'')\<lparr>dtype := ty, dest := r, imm := v\<rparr>) (l, t) = Some (put_reg l r (v AND 0xFFFFFFFF), bump t)"
  using assms by (simp add: lane_step_def inst_kind_def aec_def guard_passes_def execute_lane_def
      upd_reg_def set_reg_put Let_def)

text \<open>A constant in a fresh temporary; the registers below it keep their values.\<close>

lemma ready_load:
  assumes rdy: "ready h M s0 s xs vs" and M: "apart_placement M"
    and plan: "map_of (item_guards (le_plan env)) k = None"
    and load: "load_imm env k v s = Inr (r, s')"
    and val: "\<And>\<sigma> w. f \<sigma> = Some w \<Longrightarrow> w = v AND 0xFFFFFFFF"
  shows "\<exists>x. ready h M s0 s' (xs @ [x]) (vs @ [(f, r)])"
proof -
  let ?x = "(aec ''LOADI'')\<lparr>dest := r, imm := v\<rparr>"
  obtain s1 where t: "on_regs ra_temp s = Inr (r, s1)" and s': "s' = s1\<lparr>ls_out := ls_out s1 @ [?x]\<rparr>"
    using load by (auto simp: load_imm_def emit_plain [OF plan])
  note tr = ra_temp_result [OF t]
  have r: "240 \<le> r" "r < 256" using tr rdy by (auto simp: ready_def)
  have ext: "extends s0 (xs @ [?x]) s'"
    using rdy extends_trans [OF extends_trans [OF _ tr(1)] emitted_extends, of s0 xs ?x]
    by (simp add: ready_def s')
  have temp: "temp_of s' = r + 1" using tr(4) by (simp add: s' temp_of_def)
  have "delivers h M (xs @ [?x]) (vs @ [(f, r)])"
    unfolding delivers_def
  proof (intro allI impI)
    fix \<sigma> l t assume "simulates M \<sigma> l t"
    then obtain l1 t1 where 1: "run_steps (lane_step h) xs (l, t) = Some (l1, t1)" "simulates M \<sigma> l1 t1" "holds \<sigma> l1 vs"
      using rdy unfolding ready_def delivers_def by blast
    let ?l = "put_reg l1 r (v AND 0xFFFFFFFF)"
    have ok: "lane_ok l1" using 1(2) by (rule simulatesD)
    have "run_steps (lane_step h) [?x] (l1, t1) = Some (?l, bump t1)"
      using lane_step_loadi [OF ok, of r h v t1] r by simp
    then have "run_steps (lane_step h) (xs @ [?x]) (l, t) = Some (?l, bump t1)"
      using run_steps_compose [OF 1(1)] by blast
    moreover have "simulates M \<sigma> ?l (bump t1)" using simulates_temp [OF 1(2) M _ r] by simp
    moreover have "holds \<sigma> ?l (vs @ [(f, r)])"
      using 1(3) val r rdy tr(2) reg_at_put [OF ok, of r] unfolding holds_def ready_def by fastforce
    ultimately show "\<exists>l' t'. run_steps (lane_step h) (xs @ [?x]) (l, t) = Some (l', t') \<and>
        simulates M \<sigma> l' t' \<and> holds \<sigma> l' (vs @ [(f, r)])" by blast
  qed
  then have "ready h M s0 s' (xs @ [?x]) (vs @ [(f, r)])"
    using rdy ext temp r tr(2) unfolding ready_def by fastforce
  then show ?thesis by blast
qed

text \<open>An operand is a register or a constant.\<close>

lemma ready_operand:
  assumes rdy: "ready h M s0 s xs vs" and M: "apart_placement M"
    and plan: "map_of (item_guards (le_plan env)) k = None"
    and op: "operand_reg env k tok p s = Inr (r, s')" and fit: "fits M s'"
  shows "\<exists>ys. ready h M s0 s' ys (vs @ [(value_of tok, r)])"
proof (cases "is_register_token tok")
  case True
  then have reg: "ptx_reg tok p s = Inr (r, s')" using op by (simp add: operand_reg_def)
  have place: "M (py_strip tok) = Some r" using fits_placed [OF reg fit] .
  have rdy': "ready h M s0 s' xs vs" using ready_reg [OF rdy reg] .
  have val: "operand_value \<sigma> tok = Some (vregs \<sigma> (py_strip tok))" for \<sigma>
    using True by (simp add: operand_value_def Let_def is_register_token_def)
  have "delivers h M xs (vs @ [(value_of tok, r)])"
    unfolding delivers_def
  proof (intro allI impI)
    fix \<sigma> l t assume "simulates M \<sigma> l t"
    then obtain l1 t1 where 1: "run_steps (lane_step h) xs (l, t) = Some (l1, t1)" "simulates M \<sigma> l1 t1" "holds \<sigma> l1 vs"
      using rdy unfolding ready_def delivers_def by blast
    have "holds \<sigma> l1 (vs @ [(value_of tok, r)])" using 1(3) simulatesD(2) [OF 1(2) place] by (simp add: holds_def val)
    then show "\<exists>l' t'. run_steps (lane_step h) xs (l, t) = Some (l', t') \<and> simulates M \<sigma> l' t' \<and> holds \<sigma> l' (vs @ [(value_of tok, r)])"
      using 1 by blast
  qed
  then have "ready h M s0 s' xs (vs @ [(value_of tok, r)])"
    using rdy' apart_placementD(1,2) [OF M place] unfolding ready_def by fastforce
  then show ?thesis by blast
next
  case False
  then obtain v where v: "parse_immediate tok = Some v" and load: "load_imm env k v s = Inr (r, s')"
    using op by (auto simp: operand_reg_def immediate_r_def split: option.splits)
  have "operand_value \<sigma> tok = Some w \<Longrightarrow> w = v AND 0xFFFFFFFF" for \<sigma> w
    using False v by (auto simp: operand_value_def Let_def is_register_token_def parse_immediate_def)
  then show ?thesis using ready_load [OF rdy M plan load, of "value_of tok"] by blast
qed

lemma operand_reg_extends:
  assumes "operand_reg env k tok p s = Inr (r, s')" "map_of (item_guards (le_plan env)) k = None"
  shows "\<exists>xs. extends s xs s'"
proof (cases "is_register_token tok")
  case True
  then show ?thesis using assms ptx_reg_result(1) by (fastforce simp: operand_reg_def)
next
  case False
  then obtain v s1 where "on_regs ra_temp s = Inr (r, s1)"
    "s' = s1\<lparr>ls_out := ls_out s1 @ [(aec ''LOADI'')\<lparr>dest := r, imm := v\<rparr>]\<rparr>"
    using assms by (auto simp: operand_reg_def load_imm_def emit_plain [OF assms(2)])
  then show ?thesis using extends_trans [OF ra_temp_result(1) emitted_extends] by blast
qed

end
