(* ===== verification/Lower_Insts.thy ===== *)
theory Lower_Insts
  imports Lower_Operands
begin

unbundle bit_operations_syntax

text \<open>
  Every instruction of the lowering, guarded or not, does to the lane and the memory what the PTX
  instruction does to the virtual state.
\<close>

subsection \<open>The effects, by operation\<close>

lemma parts_head: "opcode_parts op = b # xs \<Longrightarrow> opcode_base op = b"
  using opcode_base_hd [of op] by (simp del: opcode_base_hd)

lemma effect_mov:
  assumes "inst_effect E i \<sigma> = Some e" "opcode_base (inst_opcode i) = ''mov''"
  shows "\<exists>t d a v. opcode_parts (inst_opcode i) = [''mov'', t] \<and> operands i = [d, a] \<and>
    is_register_name (py_strip d) \<and> mov_value \<sigma> a = Some v \<and> e = SetReg (py_strip d) v (vmem \<sigma>)"
  using assms unfolding inst_effect_def Let_def opcode_base_hd
  by (auto split: list.splits dest!: set_dest_Some dest: parts_head)

lemma effect_ld:
  assumes "inst_effect E i \<sigma> = Some e" "opcode_base (inst_opcode i) = ''ld''"
  shows "\<exists>sp t d a v s addr. opcode_parts (inst_opcode i) = [''ld'', sp, t] \<and> operands i = [d, a] \<and>
    is_register_name (py_strip d) \<and> e = SetReg (py_strip d) v s \<and>
    (sp = ''param'' \<and> (word_type t \<or> wide_type t) \<and> map_of (env_params E) (strip_brackets a) = Some addr \<and>
       load_word \<sigma> ''pmem'' addr = Some (v, s) \<or>
     sp = ''global'' \<and> word_type t \<and> address_value \<sigma> a = Some addr \<and> load_word \<sigma> ''gmem'' addr = Some (v, s))"
  using assms unfolding inst_effect_def Let_def opcode_base_hd wide_type_def
  by (auto split: list.splits if_splits simp: set_dest_load_def register_dest_def Let_def bind_eq_Some_conv
      dest: parts_head)

lemma effect_st:
  assumes "inst_effect E i \<sigma> = Some e" "opcode_base (inst_opcode i) = ''st''"
  shows "\<exists>t a v s addr. opcode_parts (inst_opcode i) = [''st'', ''global'', t] \<and> operands i = [a, v] \<and>
    word_type t \<and> is_register_name (py_strip v) \<and> address_value \<sigma> a = Some addr \<and>
    store_word \<sigma> addr (vregs \<sigma> (py_strip v)) = Some s \<and> e = SetMem s"
  using assms unfolding inst_effect_def Let_def opcode_base_hd
  by (auto split: list.splits if_splits simp: bind_eq_Some_conv dest: parts_head)

lemma effect_setp:
  assumes "inst_effect E i \<sigma> = Some e" "opcode_base (inst_opcode i) = ''setp''"
  shows "\<exists>cmp t d a b x y v. opcode_parts (inst_opcode i) = [''setp'', cmp, t] \<and> operands i = [d, a, b] \<and>
    operand_value \<sigma> a = Some x \<and> operand_value \<sigma> b = Some y \<and>
    sim_compare (env_host E) (Some cmp) (aec_type t) x y = Inr v \<and> e = SetPred (py_strip d) v"
  using assms unfolding inst_effect_def Let_def opcode_base_hd
  by (auto split: list.splits option.splits simp: operand_values_def result_option_def
      split: sum.splits dest: parts_head)

abbreviation alu_bases :: "string set" where
  "alu_bases \<equiv> {''add'', ''sub'', ''mul'', ''mad'', ''fma'', ''and'', ''or'', ''xor'', ''shl'', ''shr''}"

lemma effect_alu:
  assumes "inst_effect E i \<sigma> = Some e" "opcode_base (inst_opcode i) \<in> alu_bases"
  shows "\<exists>d srcs vs v. operands i = d # srcs \<and> is_register_name (py_strip d) \<and> operand_values \<sigma> srcs = Some vs \<and>
    alu_value (env_host E) (opcode_base (inst_opcode i)) (last (opcode_parts (inst_opcode i))) vs = Some v \<and>
    plain_modifiers (butlast (tl (opcode_parts (inst_opcode i)))) \<and>
    e = SetReg (py_strip d) v (vmem \<sigma>)"
  using assms unfolding inst_effect_def Let_def opcode_base_hd
  by (auto split: list.splits if_splits simp: bind_eq_Some_conv dest!: set_dest_Some)

lemma effect_bases:
  assumes "inst_effect E i \<sigma> = Some e"
  shows "opcode_base (inst_opcode i) \<in> {''bra'', ''ret'', ''mov'', ''ld'', ''st'', ''setp''} \<union> alu_bases"
  using assms unfolding inst_effect_def Let_def opcode_base_hd by (auto split: if_splits)

lemma effect_no_flow:
  assumes "inst_effect E i \<sigma> = Some e" "opcode_base (inst_opcode i) \<notin> {''bra'', ''ret''}"
  shows "\<not> is_flow e"
  using effect_bases [OF assms(1)] assms(2) effect_mov [OF assms(1)] effect_ld [OF assms(1)] effect_st [OF assms(1)]
    effect_setp [OF assms(1)] effect_alu [OF assms(1)]
  by (auto simp: is_flow_def)

subsection \<open>Loads and stores\<close>

lemma world_read: "same_world s t \<Longrightarrow> sim_read s space addr n = sim_read t space addr n"
  by (simp add: same_world_def sim_read_def sim_memory_def)

lemma place_access: "same_place k l \<Longrightarrow> same_world s t \<Longrightarrow>
  same_world (record_access op space k addr n s) (record_access op space l addr n t)"
  by (simp add: same_place_def same_world_def record_access_def global_thread_def total_threads_def)

lemma loaded_word: "sim_read s space addr 4 = Inr bs \<Longrightarrow> word_val (from_bytes_le bs)"
  by (auto simp: sim_read_def intro!: from_bytes_word split: if_splits)

text \<open>A word of memory in a register.\<close>

lemma execute_ld:
  assumes sim: "simulates M \<sigma> l t" and M: "apart_placement M" and d: "M u = Some d"
    and a: "0 \<le> a" "a < 256" "reg_at l a = addr" and ty: "word_type ty"
    and ld: "load_word \<sigma> space addr = Some (v, s)"
  shows "\<exists>l' t'. execute_lane h ((aec ''LD'')\<lparr>dtype := ty, dest := d, src1 := a, memory_space := Some space\<rparr>) l t = Inr (l', t') \<and>
    simulates M (set_reg_v \<sigma> u v s) l' t'"
proof -
  note ok = simulatesD(1) [OF sim] and place = simulatesD(3) [OF sim] and world = simulatesD(4) [OF sim]
  have dr: "0 \<le> d" "d < 256" using apart_placementD(1,2) [OF M d] by simp_all
  obtain bs where bs: "sim_read t space addr 4 = Inr bs" "v = from_bytes_le bs"
    "s = record_access ''LD'' space (vlane \<sigma>) addr 4 (vmem \<sigma>)"
    using ld world_read [OF world] by (auto simp: load_word_def result_option_def split: sum.splits)
  have addr: "addr AND 0xFFFFFFFF = addr" using reg_at_word [OF ok a(1,2)] a(3) word_val_mask by simp
  have sz: "type_size ty = Inr 4" "ty \<noteq> ''b64''" using ty by (auto simp: word_type_def type_size_def)
  have "execute_lane h ((aec ''LD'')\<lparr>dtype := ty, dest := d, src1 := a, memory_space := Some space\<rparr>) l t =
      Inr (put_reg l d v, record_access ''LD'' space l addr 4 t)"
    using get_reg_at [OF ok a(1,2)] set_reg_put [OF ok dr] bs addr sz a(3)
    by (simp add: execute_lane_def aec_def execute_load_def require_space_def option_r_def Let_def)
  moreover have "simulates M (set_reg_v \<sigma> u v s) (put_reg l d v) (record_access ''LD'' space l addr 4 t)"
    unfolding bs(3) using simulates_put_reg [OF sim _ d M] loaded_word [OF bs(1)] bs(2) place_access [OF place world]
    by blast
  ultimately show ?thesis by blast
qed

lemma execute_st:
  assumes sim: "simulates M \<sigma> l t" and a: "0 \<le> a" "a < 256" "reg_at l a = addr" and ty: "word_type ty"
    and b: "0 \<le> b" "b < 256" "reg_at l b = v" and st: "store_word \<sigma> addr v = Some s"
  shows "\<exists>t'. execute_lane h ((aec ''ST'')\<lparr>dtype := ty, src1 := a, src2 := b, memory_space := Some ''gmem''\<rparr>) l t = Inr (l, t') \<and>
    simulates M (\<sigma>\<lparr>vmem := s\<rparr>) l t'"
proof -
  note ok = simulatesD(1) [OF sim] and place = simulatesD(3) [OF sim] and world = simulatesD(4) [OF sim]
  let ?bs = "to_bytes_le 4 (v AND 0xFFFFFFFF)"
  obtain s0 where w: "sim_write (vmem \<sigma>) ''gmem'' addr ?bs = Inr s0" "s = record_access ''ST'' ''gmem'' (vlane \<sigma>) addr 4 s0"
    using st by (auto simp: store_word_def result_option_def split: sum.splits)
  obtain t0 where t0: "sim_write t ''gmem'' addr ?bs = Inr t0" "same_world s0 t0"
    using w(1) world by (fastforce simp: sim_write_def sim_memory_def same_world_def Let_def split: if_splits)
  have addr: "addr AND 0xFFFFFFFF = addr" using reg_at_word [OF ok a(1,2)] a(3) word_val_mask by simp
  have sz: "type_size ty = Inr 4" using ty by (auto simp: word_type_def type_size_def)
  have "execute_lane h ((aec ''ST'')\<lparr>dtype := ty, src1 := a, src2 := b, memory_space := Some ''gmem''\<rparr>) l t =
      Inr (l, record_access ''ST'' ''gmem'' l addr 4 t0)"
    using get_reg_at [OF ok a(1,2)] get_reg_at [OF ok b(1,2)] t0(1) addr sz a(3) b(3)
    by (simp add: execute_lane_def aec_def execute_store_def require_space_def option_r_def Let_def)
  moreover have "simulates M (\<sigma>\<lparr>vmem := s\<rparr>) l (record_access ''ST'' ''gmem'' l addr 4 t0)"
    using sim place_access [OF place t0(2)] by (simp add: simulates_def w(2))
  ultimately show ?thesis by blast
qed

subsection \<open>Arithmetic\<close>

lemma binary_result_type:
  "(dt = ''f32'') = (dt' = ''f32'') \<Longrightarrow> binary_result h dt op a b = binary_result h dt' op a b"
  by (cases "dt = ''f32''") simp_all

lemma mad_fma_type:
  "(dt = ''f32'') = (dt' = ''f32'') \<Longrightarrow> mad_result h dt a b c = mad_result h dt' a b c"
  "(dt = ''f32'') = (dt' = ''f32'') \<Longrightarrow> fma_result h dt a b c = fma_result h dt' a b c"
  by (simp_all add: mad_result_def fma_result_def)

lemma alu_value_word: "alu_value h base t vs = Some v \<Longrightarrow> word_val v"
  by (auto simp: alu_value_def result_option_def alu_words simp del: binary_result.simps
      split: list.splits if_splits sum.splits)

text \<open>The two-operand instructions as one function.\<close>

definition alu_word :: "float_host \<Rightarrow> string \<Rightarrow> string \<Rightarrow> int \<Rightarrow> int \<Rightarrow> sim_error + int" where
  "alu_word h opc ty a b =
     (if opc = ''ADD'' then binary_result h ty OpAdd a b
      else if opc = ''SUB'' then binary_result h ty OpSub a b
      else if opc = ''MUL'' then binary_result h ty OpMul a b
      else if opc = ''AND'' then Inr ((a AND b) AND 0xFFFFFFFF)
      else if opc = ''OR'' then Inr ((a OR b) AND 0xFFFFFFFF)
      else if opc = ''XOR'' then Inr ((a XOR b) AND 0xFFFFFFFF)
      else if opc = ''SHL'' then Inr (push_bit (nat (b AND 31)) a AND 0xFFFFFFFF)
      else Inr (drop_bit (nat (b AND 31)) a AND 0xFFFFFFFF))"

lemma alu2_opcodes:
  assumes "base \<in> alu_bases - {''mad'', ''fma''}" "map_of ALU_OPCODES base = Some opc"
  shows "(base, opc) \<in> {(''add'', ''ADD''), (''sub'', ''SUB''), (''mul'', ''MUL''), (''and'', ''AND''),
    (''or'', ''OR''), (''xor'', ''XOR''), (''shl'', ''SHL''), (''shr'', ''SHR'')}"
    "opc \<in> {''ADD'', ''SUB'', ''MUL'', ''AND'', ''OR'', ''XOR'', ''SHL'', ''SHR''}"
  using map_of_SomeD [OF assms(2)] assms(1) by (auto simp: ALU_OPCODES_def)

lemma execute_lane_alu2:
  assumes "opc \<in> {''ADD'', ''SUB'', ''MUL'', ''AND'', ''OR'', ''XOR'', ''SHL'', ''SHR''}"
  shows "execute_lane h ((aec opc)\<lparr>dtype := ty, dest := d, src1 := a, src2 := b\<rparr>) l s =
    upd_reg l s d (bind_r (get_reg l a) (\<lambda>x. bind_r (get_reg l b) (alu_word h opc ty x)))"
  using assms
  by (elim insertE emptyE)
    (simp_all add: execute_lane_def aec_def reg2_def alu_word_def [abs_def] Let_def del: binary_result.simps)

lemma alu_word_value:
  assumes "base \<in> alu_bases - {''mad'', ''fma''}" "map_of ALU_OPCODES base = Some opc"
    and "base \<noteq> ''shl'' \<Longrightarrow> (ty = ''f32'') = (aec_type t = ''f32'')" "alu_value h base t [x, y] = Some v"
  shows "alu_word h opc ty x y = Inr v"
proof (cases "base \<in> {''add'', ''sub'', ''mul''}")
  case True
  then have t: "(ty = ''f32'') = (aec_type t = ''f32'')" using assms(3) by auto
  show ?thesis using alu2_opcodes(1) [OF assms(1,2)] True assms(4)
    by (elim insertE emptyE)
      (simp_all add: alu_word_def alu_value_def binary_result_type [OF t] result_option_Some del: binary_result.simps)
next
  case False
  then show ?thesis using alu2_opcodes(1) [OF assms(1,2)] assms(4)
    by (elim insertE emptyE) (simp_all add: alu_word_def alu_value_def)
qed

lemma execute_alu2:
  assumes ok: "lane_ok l" and base: "base \<in> alu_bases - {''mad'', ''fma''}" and opc: "map_of ALU_OPCODES base = Some opc"
    and ty: "base \<noteq> ''shl'' \<Longrightarrow> (ty = ''f32'') = (aec_type t = ''f32'')"
    and d: "0 \<le> d" "d < 256" and a: "0 \<le> a" "a < 256" and b: "0 \<le> b" "b < 256"
    and v: "alu_value h base t [reg_at l a, reg_at l b] = Some v"
  shows "execute_lane h ((aec opc)\<lparr>dtype := ty, dest := d, src1 := a, src2 := b\<rparr>) l s = Inr (put_reg l d v, s)"
proof -
  have o: "opc \<in> {''ADD'', ''SUB'', ''MUL'', ''AND'', ''OR'', ''XOR'', ''SHL'', ''SHR''}"
    using alu2_opcodes(2) [OF base opc] .
  have "alu_word h opc ty (reg_at l a) (reg_at l b) = Inr v"
    by (rule alu_word_value [OF base opc ty v])
  then show ?thesis unfolding execute_lane_alu2 [OF o]
    by (simp add: upd_reg_def get_reg_at [OF ok a] get_reg_at [OF ok b] set_reg_put [OF ok d])
qed

lemma execute_alu3:
  assumes ok: "lane_ok l" and base: "base \<in> {''mad'', ''fma''}" and opc: "map_of ALU_OPCODES base = Some opc"
    and ty: "(ty = ''f32'') = (aec_type t = ''f32'')"
    and d: "0 \<le> d" "d < 256" and a: "0 \<le> a" "a < 256" and b: "0 \<le> b" "b < 256" and c: "0 \<le> c" "c < 256"
    and v: "alu_value h base t [reg_at l a, reg_at l b, reg_at l c] = Some v"
  shows "execute_lane h ((aec opc)\<lparr>dtype := ty, dest := d, src1 := a, src2 := b, src3 := c\<rparr>) l s = Inr (put_reg l d v, s)"
proof -
  have "(base, opc) \<in> {(''mad'', ''MAD''), (''fma'', ''FMA'')}"
    using base map_of_SomeD [OF opc] by (auto simp: ALU_OPCODES_def)
  then show ?thesis using v
    by (elim insertE emptyE)
      (simp_all add: alu_value_def execute_lane_def aec_def upd_reg_def reg2_def reg3_def Let_def
        get_reg_at [OF ok] set_reg_put [OF ok] assms mad_fma_type [OF ty] result_option_Some)
qed

end
