(* ===== verification/Lower_Steps.thy ===== *)
theory Lower_Steps
  imports Lower_Insts
begin

unbundle bit_operations_syntax

text \<open>
  One instruction of the program at a time: the code the lowering emits for it implements its
  effect in the reference semantics. \<open>lowerable\<close> is what the instruction has to satisfy, most of
  which a PTX assembler would have checked.
\<close>

definition canonical_guard :: "PTXInstruction \<Rightarrow> bool" where
  "canonical_guard i = (case guard i of None \<Rightarrow> True | Some p \<Rightarrow> guard_register p \<in> set PRED_NAMES)"

definition implements :: "float_host \<Rightarrow> placement \<Rightarrow> ptx_env \<Rightarrow> (pstate \<Rightarrow> bool) \<Rightarrow> PTXInstruction \<Rightarrow> lower_state \<Rightarrow> lower_state \<Rightarrow> bool" where
  "implements h M E I i s s' \<longleftrightarrow> (\<exists>xs. extends s xs s' \<and>
     (\<forall>\<sigma> l t e. simulates M \<sigma> l t \<longrightarrow> I \<sigma> \<longrightarrow> step_effect E i \<sigma> = Some e \<longrightarrow> \<not> is_flow e \<and>
       (\<exists>l' t'. run_steps (lane_step h) xs (l, t) = Some (l', t') \<and> simulates M (next_state e \<sigma>) l' t')))"

lemma step_no_flow:
  "step_effect E i \<sigma> = Some e \<Longrightarrow> opcode_base (inst_opcode i) \<notin> {''bra'', ''ret''} \<Longrightarrow> \<not> is_flow e"
  using effect_no_flow by (auto simp: step_effect_def is_flow_def split: if_splits)

lemma implements_by:
  assumes rdy: "ready h M s0 s xs vs" and ys: "extends s ys s'"
    and base: "opcode_base (inst_opcode i) \<notin> {''bra'', ''ret''}"
    and fin: "\<And>\<sigma> l t e. simulates M \<sigma> l t \<Longrightarrow> I \<sigma> \<Longrightarrow> holds \<sigma> l vs \<Longrightarrow> step_effect E i \<sigma> = Some e \<Longrightarrow>
      \<exists>l' t'. run_steps (lane_step h) ys (l, t) = Some (l', t') \<and> simulates M (next_state e \<sigma>) l' t'"
  shows "implements h M E I i s0 s'"
proof -
  have "extends s0 (xs @ ys) s'" using rdy extends_trans [OF _ ys] by (simp add: ready_def)
  moreover have "\<exists>l' t'. run_steps (lane_step h) (xs @ ys) (l, t) = Some (l', t') \<and> simulates M (next_state e \<sigma>) l' t'"
    if "simulates M \<sigma> l t" "I \<sigma>" "step_effect E i \<sigma> = Some e" for \<sigma> l t e
  proof -
    obtain l1 t1 where 1: "run_steps (lane_step h) xs (l, t) = Some (l1, t1)" "simulates M \<sigma> l1 t1" "holds \<sigma> l1 vs"
      using rdy \<open>simulates M \<sigma> l t\<close> unfolding ready_def delivers_def by blast
    then show ?thesis using fin [OF 1(2) that(2) 1(3) that(3)] run_steps_compose [OF 1(1)] by blast
  qed
  ultimately show ?thesis using step_no_flow [OF _ base] unfolding implements_def by blast
qed

lemma emit_guarded_Inr:
  assumes "map_of (item_guards (le_plan env)) k = None"
  shows "emit_guarded env k i inst s = Inr (u, s') \<longleftrightarrow>
    (\<exists>x. with_guard i inst = Inr x \<and> s' = s\<lparr>ls_out := ls_out s @ [x]\<rparr>)"
  by (auto simp: emit_guarded_def emit_plain [OF assms])

lemma emit_Inr:
  assumes "map_of (item_guards (le_plan env)) k = None"
  shows "emit env k x s = Inr (u, s') \<longleftrightarrow> s' = s\<lparr>ls_out := ls_out s @ [x]\<rparr>"
  by (auto simp: emit_plain [OF assms])

text \<open>The guarded instruction at the end of the sequence.\<close>

lemma guarded_effect:
  assumes x: "with_guard i inst = Inr x" and inst: "predicate inst = None" "inst_kind inst \<noteq> CONTROL"
    and can: "canonical_guard i" and sim: "simulates M \<sigma> l t" and e: "step_effect E i \<sigma> = Some e"
    and exe: "\<And>t. simulates M \<sigma> l t \<Longrightarrow> inst_effect E i \<sigma> = Some e \<Longrightarrow>
      \<exists>l' t'. execute_lane h inst l t = Inr (l', t') \<and> simulates M (next_state e \<sigma>) l' t'"
  shows "\<exists>l' t'. run_steps (lane_step h) [x] (l, t) = Some (l', t') \<and> simulates M (next_state e \<sigma>) l' t'"
proof -
  have st: "lane_step h x (l, t) = (if guard_holds i \<sigma> then result_option (execute_lane h inst l (bump t))
      else Some (l, bump t))"
  proof (rule guarded_step [OF x sim inst(1) _ inst(2)])
    show "guard_register p \<in> set PRED_NAMES" if "guard i = Some p" for p
      using can that by (simp add: canonical_guard_def)
  qed
  show ?thesis
  proof (cases "guard_holds i \<sigma>")
    case True
    then have "inst_effect E i \<sigma> = Some e" using e by (simp add: step_effect_def)
    then obtain l' t' where "execute_lane h inst l (bump t) = Inr (l', t')" "simulates M (next_state e \<sigma>) l' t'"
      using exe [of "bump t"] sim by auto
    then show ?thesis using st True by simp
  next
    case False
    then show ?thesis using e st sim by (auto simp: step_effect_def)
  qed
qed

lemma aec_type_word: "word_type t \<Longrightarrow> aec_type_of t = Inr t"
  by (auto simp: word_type_def aec_type_of_def PTX_TO_AEC_TYPE_def)

subsection \<open>Stores and loads of global memory\<close>

lemma address_strip: "strip_brackets a = py_strip (strip_brackets a)"
  by (simp add: strip_brackets_def Let_def)

text \<open>An address register, and the address it holds.\<close>

lemma address_in_reg:
  assumes "address_value \<sigma> a = Some addr" "M (py_strip (strip_brackets a)) = Some r"
    and "simulates M \<sigma> l t" "apart_placement M"
  shows "reg_at l r = addr" "0 \<le> r" "r < 256"
proof -
  note range = apart_placementD(1,2) [OF assms(4,2)]
  have "addr = vregs \<sigma> (strip_brackets a) AND 0xFFFFFFFF" "reg_at l r = vregs \<sigma> (strip_brackets a)"
    using assms(1) simulatesD(2) [OF assms(3,2)] address_strip [of a] by (auto simp: address_value_def Let_def split: if_splits)
  then show "reg_at l r = addr" using reg_at_word [OF simulatesD(1) [OF assms(3)], of r] range word_val_mask by simp
  show "0 \<le> r" "r < 256" using range by simp_all
qed

lemma lower_st_implements:
  assumes low: "lower_st_global env k i (opcode_parts (inst_opcode i) ! 2) s = Inr ((), s')"
    and plan: "map_of (item_guards (le_plan env)) k = None" and M: "apart_placement M" and fit: "fits M s'"
    and temp: "temp_of s = 240" and can: "canonical_guard i" and base: "opcode_base (inst_opcode i) = ''st''"
  shows "implements h M E I i s s'"
proof -
  obtain dt a s1 b s2 x where ty: "aec_type_of (opcode_parts (inst_opcode i) ! 2) = Inr dt"
    and a: "ptx_reg (strip_brackets (operands i ! 0)) True s = Inr (a, s1)"
    and b: "ptx_reg (operands i ! 1) False s1 = Inr (b, s2)"
    and x: "with_guard i ((aec ''ST'')\<lparr>dtype := dt, src1 := a, src2 := b, memory_space := Some ''gmem''\<rparr>) = Inr x"
    and s': "s' = s2\<lparr>ls_out := ls_out s2 @ [x]\<rparr>"
    using low by (auto simp: lower_st_global_def emit_guarded_Inr [OF plan])
  have ext: "extends s2 [x] s'" unfolding s' by (rule emitted_extends)
  have fit2: "fits M s2" using fits_extends [OF ext fit] .
  have fit1: "fits M s1" using fits_extends [OF ptx_reg_result(1) [OF b] fit2] .
  have rdy: "ready h M s s2 [] []" using ready_reg [OF ready_reg [OF ready_start [OF temp] a] b] .
  show ?thesis
  proof (rule implements_by [OF rdy ext])
    show "opcode_base (inst_opcode i) \<notin> {''bra'', ''ret''}" using base by simp
  next
    fix \<sigma> l t e assume sim: "simulates M \<sigma> l t" and e: "step_effect E i \<sigma> = Some e"
    show "\<exists>l' t'. run_steps (lane_step h) [x] (l, t) = Some (l', t') \<and> simulates M (next_state e \<sigma>) l' t'"
    proof (rule guarded_effect [OF x _ _ can sim e])
      fix t assume sim: "simulates M \<sigma> l t" and "inst_effect E i \<sigma> = Some e"
      from effect_st [OF this(2) base] obtain ty' p v u addr where
        st: "opcode_parts (inst_opcode i) = [''st'', ''global'', ty']" "operands i = [p, v]" "word_type ty'"
          "address_value \<sigma> p = Some addr" "store_word \<sigma> addr (vregs \<sigma> (py_strip v)) = Some u" "e = SetMem u"
        by blast
      have pa: "M (py_strip (strip_brackets p)) = Some a" using fits_placed [OF a fit1] st(2) by simp
      have pb: "M (py_strip v) = Some b" using fits_placed [OF b fit2] st(2) by simp
      have "dt = ty'" using ty aec_type_word [OF st(3)] st(1) by simp
      then show "\<exists>l' t'. execute_lane h ((aec ''ST'')\<lparr>dtype := dt, src1 := a, src2 := b, memory_space := Some ''gmem''\<rparr>) l t = Inr (l', t') \<and>
          simulates M (next_state e \<sigma>) l' t'"
        using execute_st [OF sim address_in_reg(2,3,1) [OF st(4) pa sim M] st(3) _ _ simulatesD(2) [OF sim pb] st(5)]
          apart_placementD(1,2) [OF M pb] st(6) by fastforce
    qed (simp_all add: aec_def inst_kind_def)
  qed
qed

lemma lower_ld_global_implements:
  assumes low: "lower_ld_global env k i (opcode_parts (inst_opcode i) ! 2) s = Inr ((), s')"
    and plan: "map_of (item_guards (le_plan env)) k = None" and M: "apart_placement M" and fit: "fits M s'"
    and temp: "temp_of s = 240" and can: "canonical_guard i" and base: "opcode_base (inst_opcode i) = ''ld''"
    and glob: "opcode_parts (inst_opcode i) ! 1 = ''global''"
  shows "implements h M E I i s s'"
proof -
  obtain dt a s1 d s2 x where ty: "aec_type_of (opcode_parts (inst_opcode i) ! 2) = Inr dt"
    and a: "ptx_reg (strip_brackets (operands i ! 1)) True s = Inr (a, s1)"
    and d: "ptx_reg (operands i ! 0) False s1 = Inr (d, s2)"
    and x: "with_guard i ((aec ''LD'')\<lparr>dtype := dt, dest := d, src1 := a, memory_space := Some ''gmem''\<rparr>) = Inr x"
    and s': "s' = s2\<lparr>ls_out := ls_out s2 @ [x]\<rparr>"
    using low by (auto simp: lower_ld_global_def emit_guarded_Inr [OF plan])
  have ext: "extends s2 [x] s'" unfolding s' by (rule emitted_extends)
  have fit2: "fits M s2" using fits_extends [OF ext fit] .
  have fit1: "fits M s1" using fits_extends [OF ptx_reg_result(1) [OF d] fit2] .
  have rdy: "ready h M s s2 [] []" using ready_reg [OF ready_reg [OF ready_start [OF temp] a] d] .
  show ?thesis
  proof (rule implements_by [OF rdy ext])
    show "opcode_base (inst_opcode i) \<notin> {''bra'', ''ret''}" using base by simp
  next
    fix \<sigma> l t e assume sim: "simulates M \<sigma> l t" and e: "step_effect E i \<sigma> = Some e"
    show "\<exists>l' t'. run_steps (lane_step h) [x] (l, t) = Some (l', t') \<and> simulates M (next_state e \<sigma>) l' t'"
    proof (rule guarded_effect [OF x _ _ can sim e])
      fix t assume sim: "simulates M \<sigma> l t" and "inst_effect E i \<sigma> = Some e"
      from effect_ld [OF this(2) base] glob obtain ty' p v u r addr where
        ld: "opcode_parts (inst_opcode i) = [''ld'', ''global'', ty']" "operands i = [r, p]" "word_type ty'"
          "address_value \<sigma> p = Some addr" "load_word \<sigma> ''gmem'' addr = Some (v, u)" "e = SetReg (py_strip r) v u"
        by auto
      have pa: "M (py_strip (strip_brackets p)) = Some a" using fits_placed [OF a fit1] ld(2) by simp
      have pd: "M (py_strip r) = Some d" using fits_placed [OF d fit2] ld(2) by simp
      have "dt = ty'" using ty aec_type_word [OF ld(3)] ld(1) by simp
      then show "\<exists>l' t'. execute_lane h ((aec ''LD'')\<lparr>dtype := dt, dest := d, src1 := a, memory_space := Some ''gmem''\<rparr>) l t = Inr (l', t') \<and>
          simulates M (next_state e \<sigma>) l' t'"
        using execute_ld [OF sim M pd address_in_reg(2,3,1) [OF ld(4) pa sim M] ld(3,5)] ld(6) by simp
    qed (simp_all add: aec_def inst_kind_def)
  qed
qed

subsection \<open>Parameters\<close>

lemma load_imm_Inr:
  assumes "map_of (item_guards (le_plan env)) k = None"
  shows "load_imm env k v s = Inr (r, s') \<longleftrightarrow> (\<exists>s1. on_regs ra_temp s = Inr (r, s1) \<and>
    s' = s1\<lparr>ls_out := ls_out s1 @ [(aec ''LOADI'')\<lparr>dest := r, imm := v\<rparr>]\<rparr>)"
  by (auto simp: load_imm_def emit_Inr [OF assms] emit_plain [OF assms])

text \<open>A parameter lies in the parameter memory, both words of a wide load included.\<close>

definition param_fits :: "int dict \<Rightarrow> nat \<Rightarrow> PTXInstruction \<Rightarrow> bool" where
  "param_fits ps n i = (case operands i of
     [_, a] \<Rightarrow> (case map_of ps (strip_brackets a) of
        None \<Rightarrow> True
      | Some off \<Rightarrow> 0 \<le> off \<and> off + 4 < 2 ^ 32 \<and>
          (wide_type (last (opcode_parts (inst_opcode i))) \<longrightarrow> off + 8 \<le> int n))
   | _ \<Rightarrow> True)"

lemma lane_step_ld:
  assumes "execute_lane h ((aec ''LD'')\<lparr>dtype := ty, dest := d, src1 := a, memory_space := Some sp\<rparr>) l (bump t) = Inr (l', t')"
  shows "lane_step h ((aec ''LD'')\<lparr>dtype := ty, dest := d, src1 := a, memory_space := Some sp\<rparr>) (l, t) = Some (l', t')"
  using assms by (simp add: lane_step_def inst_kind_def aec_def guard_passes_def)

text \<open>The high word of a wide load.\<close>

lemma load_high_word:
  assumes sim: "simulates M \<sigma> l t" and M: "apart_placement M" and d: "M u = Some d" "starts_with u ''%rd''"
    and r: "240 \<le> r" "r < 256" and addr: "0 \<le> addr" "addr < 2 ^ 32" "addr + 4 \<le> int (length (pmem (vmem \<sigma>)))"
  shows "\<exists>l' t'. run_steps (lane_step h)
      [(aec ''LOADI'')\<lparr>dest := r, imm := addr\<rparr>,
       (aec ''LD'')\<lparr>dtype := ''u32'', dest := d + 1, src1 := r, memory_space := Some ''pmem''\<rparr>] (l, t) = Some (l', t') \<and>
    simulates M \<sigma> l' t'"
proof -
  have aw: "addr AND 0xFFFFFFFF = addr" using addr(1,2) by (simp add: and_mask32)
  let ?l = "put_reg l r addr"
  note ok = simulatesD(1) [OF sim]
  have s1: "lane_step h ((aec ''LOADI'')\<lparr>dest := r, imm := addr\<rparr>) (l, t) = Some (?l, bump t)"
    using lane_step_loadi [OF ok, of r h addr t] r aw by simp
  have "word_val addr" using addr by (simp add: word_val_def)
  then have sim1: "simulates M \<sigma> ?l (bump t)" using simulates_temp [OF sim M _ r] by simp
  note ok1 = simulatesD(1) [OF sim1] and world = simulatesD(4) [OF sim1]
  have dr: "0 \<le> d + 1" "d + 1 < 256" using apart_placementD(1,2) [OF M d(1)] by simp_all
  have ra: "get_reg ?l r = Inr addr" using get_reg_at [OF ok1, of r] reg_at_put [OF ok, of r r addr] r by simp
  obtain bs where bs: "sim_read (bump (bump t)) ''pmem'' addr 4 = Inr bs"
    using world addr(3) by (simp add: same_world_def sim_read_def sim_memory_def)
  let ?l' = "put_reg ?l (d + 1) (from_bytes_le bs)"
  have s2: "lane_step h ((aec ''LD'')\<lparr>dtype := ''u32'', dest := d + 1, src1 := r, memory_space := Some ''pmem''\<rparr>) (?l, bump t) =
      Some (?l', bump (bump t))"
    using ra set_reg_put [OF ok1 dr] bs aw
    by (intro lane_step_ld)
      (simp add: execute_lane_def aec_def execute_load_def require_space_def option_r_def Let_def type_size_def record_access_def)
  have "simulates M \<sigma> ?l' (bump (bump t))"
    using simulates_high [OF sim1 M loaded_word [OF bs] d] by simp
  then show ?thesis using s1 s2 by simp
qed

lemma lower_ld_param_implements:
  assumes low: "lower_ld_param env k i (opcode_parts (inst_opcode i) ! 2) s = Inr ((), s')"
    and plan: "map_of (item_guards (le_plan env)) k = None" and M: "apart_placement M" and fit: "fits M s'"
    and temp: "temp_of s = 240" and grd: "guard i = None" and base: "opcode_base (inst_opcode i) = ''ld''"
    and par: "opcode_parts (inst_opcode i) ! 1 = ''param''" and env: "le_offsets env = env_params E"
    and fits: "param_fits (env_params E) n i" and I: "\<And>\<sigma>. I \<sigma> \<Longrightarrow> length (pmem (vmem \<sigma>)) = n"
    and wide: "wide_type (opcode_parts (inst_opcode i) ! 2) \<Longrightarrow> starts_with (py_strip (operands i ! 0)) ''%rd''"
  shows "implements h M E I i s s'"
proof -
  let ?ty = "opcode_parts (inst_opcode i) ! 2" and ?u = "py_strip (operands i ! 0)"
  have nf: "opcode_base (inst_opcode i) \<notin> {''bra'', ''ret''}" using base by simp
  obtain off d s1 where off: "map_of (env_params E) (strip_brackets (operands i ! 1)) = Some off"
    and d: "ptx_reg (operands i ! 0) (wide_type ?ty) s = Inr (d, s1)" and len: "length (operands i) = 2"
    using low env by (auto simp: lower_ld_param_def Let_def split: option.splits)
  have rdy1: "ready h M s s1 [] []" using ready_reg [OF ready_start [OF temp] d] .
  have eff: "\<exists>v u. load_word \<sigma> ''pmem'' off = Some (v, u) \<and> e = SetReg ?u v u \<and> (word_type ?ty \<or> wide_type ?ty) \<and>
      last (opcode_parts (inst_opcode i)) = ?ty"
    if "step_effect E i \<sigma> = Some e" for \<sigma> e
  proof -
    have "inst_effect E i \<sigma> = Some e" using that grd by (simp add: step_effect_def guard_holds_def)
    from effect_ld [OF this base] show ?thesis using par off by auto
  qed
  have fo: "0 \<le> off \<and> off + 4 < 2 ^ 32 \<and> (wide_type (last (opcode_parts (inst_opcode i))) \<longrightarrow> off + 8 \<le> int n)"
  proof -
    obtain p q where "operands i = [p, q]" using len by (auto simp: numeral_2_eq_2 length_Suc_conv)
    then show ?thesis using fits off by (simp add: param_fits_def)
  qed
  have ow: "off AND 0xFFFFFFFF = off" using fo by (simp add: and_mask32)
  let ?f = "\<lambda>\<sigma> :: pstate. Some off"
  show ?thesis
  proof (cases "wide_type ?ty")
    case False
    obtain r s2 dt where load: "load_imm env k off s1 = Inr (r, s2)" and dt: "aec_type_of ?ty = Inr dt"
      and s': "s' = s2\<lparr>ls_out := ls_out s2 @ [(aec ''LD'')\<lparr>dtype := dt, dest := d, src1 := r, memory_space := Some ''pmem''\<rparr>]\<rparr>"
      (is "s' = s2\<lparr>ls_out := ls_out s2 @ [?ld]\<rparr>")
      using low env off d False
      by (auto simp: lower_ld_param_def Let_def emit_Inr [OF plan] load_imm_Inr [OF plan])
    have ext: "extends s2 [?ld] s'" unfolding s' by (rule emitted_extends)
    have "extends s1 [(aec ''LOADI'')\<lparr>dest := r, imm := off\<rparr>] s2"
      using load extends_trans [OF ra_temp_result(1) emitted_extends] by (auto simp: load_imm_Inr [OF plan])
    then have pd: "M ?u = Some d" using fits_placed [OF d] fits_extends [OF _ fits_extends [OF ext fit]] by blast
    obtain x where rdy: "ready h M s s2 ([] @ [x]) ([] @ [(?f, r)])"
      using ready_load [OF rdy1 M plan load, of ?f] ow by auto
    show ?thesis
    proof (rule implements_by [OF rdy ext nf])
      fix \<sigma> l t e assume sim: "simulates M \<sigma> l t" and hold: "holds \<sigma> l ([] @ [(?f, r)])" and e: "step_effect E i \<sigma> = Some e"
      have ra: "reg_at l r = off" "0 \<le> r" "r < 256" using hold rdy by (auto simp: holds_def ready_def)
      obtain v u where ld: "load_word \<sigma> ''pmem'' off = Some (v, u)" "e = SetReg ?u v u" "word_type ?ty"
        using eff [OF e] False by blast
      have "dt = ?ty" using dt aec_type_word [OF ld(3)] by simp
      then show "\<exists>l' t'. run_steps (lane_step h) [?ld] (l, t) = Some (l', t') \<and> simulates M (next_state e \<sigma>) l' t'"
        using execute_ld [of M \<sigma> l "bump t" ?u d r off ?ty "''pmem''" v u h] sim M pd ra ld lane_step_ld by fastforce
    qed
  next
    case True
    obtain r s2 r' s3 where load: "load_imm env k off s1 = Inr (r, s2)"
      and t2: "on_regs ra_temp (s2\<lparr>ls_out := ls_out s2 @ [(aec ''LD'')\<lparr>dtype := ''u32'', dest := d, src1 := r, memory_space := Some ''pmem''\<rparr>]\<rparr>) = Inr (r', s3)"
      (is "on_regs ra_temp (s2\<lparr>ls_out := ls_out s2 @ [?ld]\<rparr>) = _")
      and s': "s' = s3\<lparr>ls_out := ls_out s3 @ [(aec ''LOADI'')\<lparr>dest := r', imm := off + 4\<rparr>] @
          [(aec ''LD'')\<lparr>dtype := ''u32'', dest := d + 1, src1 := r', memory_space := Some ''pmem''\<rparr>]\<rparr>"
      (is "s' = s3\<lparr>ls_out := ls_out s3 @ [?li] @ [?lh]\<rparr>")
      using low env off d True
      by (auto simp: lower_ld_param_def Let_def emit_Inr [OF plan] load_imm_Inr [OF plan])
    have ext: "extends s2 ([?ld] @ [?li, ?lh]) s'"
    proof -
      have "extends s2 ([?ld] @ []) s3" using extends_trans [OF emitted_extends ra_temp_result(1) [OF t2]] .
      moreover have "extends s3 [?li, ?lh] s'" by (simp add: s' extends_def placement_of_def)
      ultimately show ?thesis using extends_trans by fastforce
    qed
    have e1: "extends s1 [(aec ''LOADI'')\<lparr>dest := r, imm := off\<rparr>] s2"
      using load extends_trans [OF ra_temp_result(1) emitted_extends] by (auto simp: load_imm_Inr [OF plan])
    then have pd: "M ?u = Some d" using fits_placed [OF d] fits_extends [OF _ fits_extends [OF ext fit]] by blast
    obtain x where rdy: "ready h M s s2 ([] @ [x]) ([] @ [(?f, r)])"
      using ready_load [OF rdy1 M plan load, of ?f] ow by auto
    have r': "240 \<le> r'" "r' < 256" using ra_temp_result(2,3) [OF t2] rdy by (auto simp: ready_def temp_of_def)
    show ?thesis
    proof (rule implements_by [OF rdy ext nf])
      fix \<sigma> l t e assume sim: "simulates M \<sigma> l t" and inv: "I \<sigma>" and hold: "holds \<sigma> l ([] @ [(?f, r)])"
        and e: "step_effect E i \<sigma> = Some e"
      have ra: "reg_at l r = off" "0 \<le> r" "r < 256" using hold rdy by (auto simp: holds_def ready_def)
      obtain v u where ld: "load_word \<sigma> ''pmem'' off = Some (v, u)" "e = SetReg ?u v u"
        "last (opcode_parts (inst_opcode i)) = ?ty" using eff [OF e] by blast
      have u: "pmem u = pmem (vmem \<sigma>)" using ld(1) by (auto simp: load_word_def record_access_def)
      have "word_type ''u32''" by (simp add: word_type_def)
      then obtain l1 t1 where 1: "lane_step h ?ld (l, t) = Some (l1, t1)" "simulates M (next_state e \<sigma>) l1 t1"
        using execute_ld [of M \<sigma> l "bump t" ?u d r off "''u32''" "''pmem''" v u h] sim M pd ra ld lane_step_ld by fastforce
      have "length (pmem (vmem (next_state e \<sigma>))) = n" using I [OF inv] u by (simp add: ld(2) set_reg_v_def)
      then have "\<exists>l' t'. run_steps (lane_step h) [?li, ?lh] (l1, t1) = Some (l', t') \<and> simulates M (next_state e \<sigma>) l' t'"
        using load_high_word [OF 1(2) M pd wide [OF True] r', of "off + 4" h] fo True ld(3) by simp
      then show "\<exists>l' t'. run_steps (lane_step h) ([?ld] @ [?li, ?lh]) (l, t) = Some (l', t') \<and> simulates M (next_state e \<sigma>) l' t'"
        using 1(1) by simp
    qed
  qed
qed

end
