(* ===== verification/Lower_Alu.thy ===== *)
theory Lower_Alu
  imports Lower_Steps
begin

unbundle bit_operations_syntax

text \<open>Moves, comparisons and arithmetic.\<close>

subsection \<open>Moves\<close>

lemma special_facts:
  "list_all (\<lambda>(s, sel). 256 \<le> sel \<and> parse_immediate s = None \<and> \<not> is_register_name s) (special_registers TRACK_B_V1)"
  by code_simp

lemma special_fact:
  assumes "map_of (special_registers TRACK_B_V1) s = Some sel"
  shows "256 \<le> sel" "parse_immediate s = None" "\<not> is_register_name s"
  using map_of_SomeD [OF assms] special_facts unfolding list_all_iff by auto

lemma execute_cpy_special:
  assumes sim: "simulates M \<sigma> l t" and M: "apart_placement M" and d: "M u = Some d"
    and sel: "256 \<le> sel" and v: "special_value sel (vlane \<sigma>) = Inr v"
  shows "\<exists>l' t'. execute_lane h ((aec ''CPY'')\<lparr>dtype := ''u32'', dest := d, src1 := sel\<rparr>) l t = Inr (l', t') \<and>
    simulates M (set_reg_v \<sigma> u v (vmem \<sigma>)) l' t'"
proof -
  note ok = simulatesD(1) [OF sim] and place = simulatesD(3) [OF sim] and world = simulatesD(4) [OF sim]
  have dr: "0 \<le> d" "d < 256" using apart_placementD(1,2) [OF M d] by simp_all
  have c: "copy_value ((aec ''CPY'')\<lparr>dtype := ''u32'', dest := d, src1 := sel\<rparr>) l = Inr v"
    using sel v special_value_place [OF place, of sel] by (simp add: copy_value_def)
  then have "word_val v" using copy_value_word ok by blast
  then have "simulates M (set_reg_v \<sigma> u v (vmem \<sigma>)) (put_reg l d v) t"
    using simulates_put_reg [OF sim _ d M world] by blast
  moreover have "execute_lane h ((aec ''CPY'')\<lparr>dtype := ''u32'', dest := d, src1 := sel\<rparr>) l t = Inr (put_reg l d v, t)"
    using c set_reg_put [OF ok dr] by (simp add: execute_lane_def aec_def Let_def)
  ultimately show ?thesis by blast
qed

lemma execute_cpy_reg:
  assumes sim: "simulates M \<sigma> l t" and M: "apart_placement M" and d: "M u = Some d" and r: "M w = Some r"
    and wide: "ty \<in> {''b64'', ''f64''} \<Longrightarrow> starts_with u ''%rd''"
  shows "\<exists>l' t'. execute_lane h ((aec ''CPY'')\<lparr>dtype := ty, dest := d, src1 := r\<rparr>) l t = Inr (l', t') \<and>
    simulates M (set_reg_v \<sigma> u (vregs \<sigma> w) (vmem \<sigma>)) l' t'"
proof -
  let ?v = "vregs \<sigma> w"
  note ok = simulatesD(1) [OF sim] and world = simulatesD(4) [OF sim]
  have dr: "0 \<le> d" "d \<le> 239" and rr: "0 \<le> r" "r \<le> 239"
    using apart_placementD(1,2) [OF M d] apart_placementD(1,2) [OF M r] by simp_all
  have rv: "reg_at l r = ?v" using simulatesD(2) [OF sim r] .
  have word: "word_val ?v" using reg_at_word [OF ok, of r] rr rv by simp
  have c: "copy_value ((aec ''CPY'')\<lparr>dtype := ty, dest := d, src1 := r\<rparr>) l = Inr ?v"
    using rr get_reg_at [OF ok, of r] rv word_val_mask [OF word] by (simp add: copy_value_def)
  have sim1: "simulates M (set_reg_v \<sigma> u ?v (vmem \<sigma>)) (put_reg l d ?v) t"
    using simulates_put_reg [OF sim word d M world] .
  note ok1 = simulatesD(1) [OF sim1]
  have s1: "set_reg l d ?v = Inr (put_reg l d ?v)" using set_reg_put [OF ok, of d] dr by simp
  show ?thesis
  proof (cases "ty \<in> {''b64'', ''f64''}")
    case False
    then have "execute_lane h ((aec ''CPY'')\<lparr>dtype := ty, dest := d, src1 := r\<rparr>) l t = Inr (put_reg l d ?v, t)"
      using c s1 by (simp add: execute_lane_def aec_def Let_def)
    then show ?thesis using sim1 by blast
  next
    case True
    let ?w = "reg_at (put_reg l d ?v) (r + 1)"
    have g: "get_reg (put_reg l d ?v) (r + 1) = Inr ?w" "word_val ?w"
      using get_reg_at [OF ok1, of "r + 1"] reg_at_word [OF ok1, of "r + 1"] rr by simp_all
    have "execute_lane h ((aec ''CPY'')\<lparr>dtype := ty, dest := d, src1 := r\<rparr>) l t =
        Inr (put_reg (put_reg l d ?v) (d + 1) ?w, t)"
      using True c s1 g dr rr set_reg_put [OF ok1, of "d + 1"] by (auto simp: execute_lane_def aec_def Let_def upd_reg_def)
    moreover have "simulates M (set_reg_v \<sigma> u ?v (vmem \<sigma>)) (put_reg (put_reg l d ?v) (d + 1) ?w) t"
      using simulates_high [OF sim1 M g(2) d wide [OF True]] .
    ultimately show ?thesis by blast
  qed
qed

lemma execute_loadi:
  assumes sim: "simulates M \<sigma> l t" and M: "apart_placement M" and d: "M u = Some d"
    and wide: "b \<Longrightarrow> starts_with u ''%rd''"
  shows "\<exists>l' t'. execute_lane h ((aec (if b then ''LOADI64'' else ''LOADI''))\<lparr>dest := d, imm := v\<rparr>) l t = Inr (l', t') \<and>
    simulates M (set_reg_v \<sigma> u (v AND 0xFFFFFFFF) (vmem \<sigma>)) l' t'"
proof -
  let ?v = "v AND 0xFFFFFFFF"
  note ok = simulatesD(1) [OF sim]
  have dr: "0 \<le> d" "d \<le> 239" using apart_placementD(1,2) [OF M d] by simp_all
  have sim1: "simulates M (set_reg_v \<sigma> u ?v (vmem \<sigma>)) (put_reg l d ?v) t"
    using simulates_put_reg [OF sim _ d M simulatesD(4) [OF sim]] by simp
  note ok1 = simulatesD(1) [OF sim1]
  have s1: "set_reg l d ?v = Inr (put_reg l d ?v)" using set_reg_put [OF ok, of d] dr by simp
  show ?thesis
  proof (cases b)
    case False
    then have "execute_lane h ((aec (if b then ''LOADI64'' else ''LOADI''))\<lparr>dest := d, imm := v\<rparr>) l t = Inr (put_reg l d ?v, t)"
      using s1 by (simp add: execute_lane_def aec_def Let_def upd_reg_def)
    then show ?thesis using sim1 by blast
  next
    case True
    let ?w = "drop_bit 32 v AND 0xFFFFFFFF"
    have "execute_lane h ((aec (if b then ''LOADI64'' else ''LOADI''))\<lparr>dest := d, imm := v\<rparr>) l t =
        Inr (put_reg (put_reg l d ?v) (d + 1) ?w, t)"
      using True s1 dr set_reg_put [OF ok1, of "d + 1"] by (simp add: execute_lane_def aec_def Let_def upd_reg_def)
    moreover have "simulates M (set_reg_v \<sigma> u ?v (vmem \<sigma>)) (put_reg (put_reg l d ?v) (d + 1) ?w) t"
      using simulates_high [OF sim1 M _ d wide [OF True]] by simp
    ultimately show ?thesis by blast
  qed
qed

lemma aec_type_or_wide: "aec_type_or t \<in> {''b64'', ''f64''} \<Longrightarrow> wide_type t \<or> t = ''f64''"
  by (auto simp: aec_type_or_def PTX_TO_AEC_TYPE_def wide_type_def split: if_splits option.splits)

lemma special_move_u32: "map_of SPECIAL_MOVE_TYPE s = Some dt \<Longrightarrow> dt = ''u32''"
  unfolding SPECIAL_MOVE_TYPE_def by (drule map_of_SomeD) auto

text \<open>What the three shapes of a move emit last.\<close>

lemma lower_mov_implements:
  assumes low: "lower_mov env k i (opcode_parts (inst_opcode i) ! 1) s = Inr ((), s')"
    and plan: "map_of (item_guards (le_plan env)) k = None" and M: "apart_placement M" and fit: "fits M s'"
    and temp: "temp_of s = 240" and can: "canonical_guard i" and base: "opcode_base (inst_opcode i) = ''mov''"
    and prof: "map_of (special_registers (le_profile env)) \<subseteq>\<^sub>m map_of (special_registers TRACK_B_V1)"
    and strip: "py_strip (operands i ! 1) = operands i ! 1"
    and wide: "wide_type (opcode_parts (inst_opcode i) ! 1) \<or> opcode_parts (inst_opcode i) ! 1 = ''f64'' \<Longrightarrow>
      starts_with (py_strip (operands i ! 0)) ''%rd''"
  shows "implements h M E I i s s'"
proof -
  let ?ty = "opcode_parts (inst_opcode i) ! 1" and ?u = "py_strip (operands i ! 0)" and ?a = "operands i ! 1"
  let ?wide = "wide_type ?ty"
  have nf: "opcode_base (inst_opcode i) \<notin> {''bra'', ''ret''}" using base by simp
  obtain d s1 where d: "ptx_reg (operands i ! 0) ?wide s = Inr (d, s1)"
    using low by (auto simp: lower_mov_def Let_def)
  have rdy1: "ready h M s s1 [] []" using ready_reg [OF ready_start [OF temp] d] .
  have eff: "\<exists>v. mov_value \<sigma> ?a = Some v \<and> e = SetReg ?u v (vmem \<sigma>)" if "inst_effect E i \<sigma> = Some e" for \<sigma> e
    using effect_mov [OF that base] by auto
  have fin: "implements h M E I i s s'"
    if x: "with_guard i inst = Inr x" "predicate inst = None" "inst_kind inst \<noteq> CONTROL"
      and s2: "ptx_reg w b s1 = Inr (r, s2) \<or> s2 = s1" and s': "s' = s2\<lparr>ls_out := ls_out s2 @ [x]\<rparr>"
      and exe: "\<And>\<sigma> l t v. simulates M \<sigma> l t \<Longrightarrow> M ?u = Some d \<Longrightarrow> mov_value \<sigma> ?a = Some v \<Longrightarrow>
        \<exists>l' t'. execute_lane h inst l t = Inr (l', t') \<and> simulates M (set_reg_v \<sigma> ?u v (vmem \<sigma>)) l' t'"
    for inst x w b r s2
  proof -
    have ext: "extends s2 [x] s'" unfolding s' by (rule emitted_extends)
    have "fits M s1" using s2 fits_extends [OF ptx_reg_result(1)] fits_extends [OF ext fit] by blast
    then have pd: "M ?u = Some d" using fits_placed [OF d] by blast
    have rdy: "ready h M s s2 [] []" using s2 rdy1 ready_reg [OF rdy1] by blast
    show ?thesis
    proof (rule implements_by [OF rdy ext nf])
      fix \<sigma> l t e assume sim: "simulates M \<sigma> l t" and e: "step_effect E i \<sigma> = Some e"
      show "\<exists>l' t'. run_steps (lane_step h) [x] (l, t) = Some (l', t') \<and> simulates M (next_state e \<sigma>) l' t'"
      proof (rule guarded_effect [OF x can sim e])
        fix t assume sim: "simulates M \<sigma> l t" and "inst_effect E i \<sigma> = Some e"
        then obtain v where "mov_value \<sigma> ?a = Some v" "e = SetReg ?u v (vmem \<sigma>)" using eff by blast
        then show "\<exists>l' t'. execute_lane h inst l t = Inr (l', t') \<and> simulates M (next_state e \<sigma>) l' t'"
          using exe [OF sim pd] by auto
      qed
    qed
  qed
  show ?thesis
  proof (cases "map_of (special_registers (le_profile env)) ?a")
    case (Some sel)
    then have sel: "map_of (special_registers TRACK_B_V1) ?a = Some sel" using prof unfolding map_le_def by (metis domI)
    obtain x where x: "with_guard i ((aec ''CPY'')\<lparr>dtype := ''u32'', dest := d, src1 := sel\<rparr>) = Inr x"
      "s' = s1\<lparr>ls_out := ls_out s1 @ [x]\<rparr>"
      using low d Some special_move_u32
      by (auto simp: lower_mov_def Let_def emit_guarded_Inr [OF plan] split: option.splits)
    show ?thesis
    proof (rule fin [OF x(1) _ _ disjI2 [OF refl] x(2)])
      fix \<sigma> l t v assume sim: "simulates M \<sigma> l t" and pd: "M ?u = Some d" and "mov_value \<sigma> ?a = Some v"
      then have "special_value sel (vlane \<sigma>) = Inr v" using sel strip by (simp add: mov_value_def result_option_Some)
      then show "\<exists>l' t'. execute_lane h ((aec ''CPY'')\<lparr>dtype := ''u32'', dest := d, src1 := sel\<rparr>) l t = Inr (l', t') \<and>
          simulates M (set_reg_v \<sigma> ?u v (vmem \<sigma>)) l' t'"
        using execute_cpy_special [OF sim M pd special_fact(1) [OF sel]] by blast
    qed (simp_all add: aec_def inst_kind_def)
  next
    case None
    show ?thesis
    proof (cases "is_register_token ?a")
      case True
      obtain r s2 x where r: "ptx_reg ?a ?wide s1 = Inr (r, s2)"
        and x: "with_guard i ((aec ''CPY'')\<lparr>dtype := aec_type_or ?ty, dest := d, src1 := r\<rparr>) = Inr x"
          "s' = s2\<lparr>ls_out := ls_out s2 @ [x]\<rparr>"
        using low d None True by (auto simp: lower_mov_def Let_def emit_guarded_Inr [OF plan])
      have "fits M s2" using fits_extends [OF _ fit] emitted_extends [of s2 x] x(2) by blast
      then have pr: "M ?a = Some r" using fits_placed [OF r] strip by simp
      show ?thesis
      proof (rule fin [OF x(1) _ _ disjI1 [OF r] x(2)])
        fix \<sigma> l t v assume sim: "simulates M \<sigma> l t" and pd: "M ?u = Some d" and "mov_value \<sigma> ?a = Some v"
        moreover have "map_of (special_registers TRACK_B_V1) ?a = None"
          using True strip special_fact(3) by (cases "map_of (special_registers TRACK_B_V1) ?a") (auto simp: is_register_token_def)
        ultimately have "v = vregs \<sigma> ?a"
          using True strip by (simp add: mov_value_def operand_value_def is_register_token_def Let_def)
        moreover have "starts_with ?u ''%rd''" if "aec_type_or ?ty \<in> {''b64'', ''f64''}"
          using aec_type_or_wide [OF that] wide by blast
        ultimately show "\<exists>l' t'. execute_lane h ((aec ''CPY'')\<lparr>dtype := aec_type_or ?ty, dest := d, src1 := r\<rparr>) l t = Inr (l', t') \<and>
            simulates M (set_reg_v \<sigma> ?u v (vmem \<sigma>)) l' t'"
          using execute_cpy_reg [OF sim M pd pr, of "aec_type_or ?ty" h] by blast
      qed (simp_all add: aec_def inst_kind_def)
    next
      case False
      obtain v x where v: "parse_immediate ?a = Some v"
        and x: "with_guard i ((aec (if ?wide then ''LOADI64'' else ''LOADI''))\<lparr>dest := d, imm := v\<rparr>) = Inr x"
          "s' = s1\<lparr>ls_out := ls_out s1 @ [x]\<rparr>"
        using low d None False
        by (auto simp: lower_mov_def Let_def emit_guarded_Inr [OF plan] immediate_r_def split: option.splits)
      show ?thesis
      proof (rule fin [OF x(1) _ _ disjI2 [OF refl] x(2)])
        fix \<sigma> l t v' assume sim: "simulates M \<sigma> l t" and pd: "M ?u = Some d" and "mov_value \<sigma> ?a = Some v'"
        moreover have "map_of (special_registers TRACK_B_V1) ?a = None"
          using v special_fact(2) by (cases "map_of (special_registers TRACK_B_V1) ?a") auto
        ultimately have "v' = v AND 0xFFFFFFFF"
          using False strip v by (auto simp: mov_value_def operand_value_def is_register_token_def Let_def)
        then show "\<exists>l' t'. execute_lane h ((aec (if ?wide then ''LOADI64'' else ''LOADI''))\<lparr>dest := d, imm := v\<rparr>) l t = Inr (l', t') \<and>
            simulates M (set_reg_v \<sigma> ?u v' (vmem \<sigma>)) l' t'"
          using execute_loadi [OF sim M pd, of ?wide h v] wide by blast
      qed (simp_all add: aec_def inst_kind_def)
    qed
  qed
qed

subsection \<open>Comparisons\<close>

lemma set_pred_at: "lane_ok l \<Longrightarrow> n < 8 \<Longrightarrow> set_pred l (int n) v = Inr (l\<lparr>predicates := (predicates l)[n := v]\<rparr>)"
  by (simp add: set_pred_def py_set_def py_index_nonneg lane_ok_def)

lemma PRED_NAMES_distinct: "distinct PRED_NAMES"
  by code_simp

lemma simulates_pred:
  assumes "simulates M \<sigma> l s" "n < 8"
  shows "simulates M (\<sigma>\<lparr>vpreds := (vpreds \<sigma>)(PRED_NAMES ! n := v)\<rparr>) (l\<lparr>predicates := (predicates l)[n := v]\<rparr>) s"
  using assms PRED_NAMES_distinct
  by (auto simp: simulates_def reg_at_def same_place_def lane_ok_def nth_list_update nth_eq_iff_index_eq)

lemma compare_type: "aec_type_of t = Inr dt \<Longrightarrow> sim_compare h cmp dt a b = sim_compare h cmp (aec_type t) a b"
  by (auto simp: aec_type_of_def PTX_TO_AEC_TYPE_def aec_type_def sim_compare_def split: if_splits option.splits)

lemma two_delivered:
  assumes "ready h M s0 s xs [(f, a), (g, b)]" "holds \<sigma> l [(f, a), (g, b)]" "f \<sigma> = Some x" "g \<sigma> = Some y"
  shows "reg_at l a = x" "reg_at l b = y" "0 \<le> a" "a < 256" "0 \<le> b" "b < 256"
  using assms by (auto simp: ready_def holds_def)

lemma ready_two:
  assumes rdy: "ready h M s0 s xs []" and M: "apart_placement M" and plan: "map_of (item_guards (le_plan env)) k = None"
    and a: "operand_reg env k t1 p s = Inr (a, s1)" and b: "operand_reg env k t2 q s1 = Inr (b, s2)" and fit: "fits M s2"
  shows "\<exists>ys. ready h M s0 s2 ys [(value_of t1, a), (value_of t2, b)]" "fits M s"
proof -
  have f1: "fits M s1" using operand_reg_extends [OF b plan] fits_extends fit by blast
  then show "fits M s" using operand_reg_extends [OF a plan] fits_extends by blast
  obtain ys where "ready h M s0 s1 ys ([] @ [(value_of t1, a)])"
    using ready_operand [OF rdy M plan a f1] by blast
  from ready_operand [OF this M plan b fit] show "\<exists>ys. ready h M s0 s2 ys [(value_of t1, a), (value_of t2, b)]" by simp
qed

lemma lower_setp_implements:
  assumes low: "lower_setp env k i (opcode_parts (inst_opcode i)) s = Inr ((), s')"
    and plan: "map_of (item_guards (le_plan env)) k = None" and M: "apart_placement M" and fit: "fits M s'"
    and temp: "temp_of s = 240" and can: "canonical_guard i" and base: "opcode_base (inst_opcode i) = ''setp''"
    and pr: "py_strip (operands i ! 0) \<in> set PRED_NAMES" and host: "env_host E = h"
  shows "implements h M E I i s s'"
proof -
  let ?parts = "opcode_parts (inst_opcode i)"
  have nf: "opcode_base (inst_opcode i) \<notin> {''bra'', ''ret''}" using base by simp
  obtain n where n: "n < 8" "py_strip (operands i ! 0) = PRED_NAMES ! n" using pr by (auto simp: in_set_conv_nth)
  have pn: "predicate_number (operands i ! 0) = Inr (int n)"
    using predicate_number_name [OF n(1)] by (simp add: predicate_number_def n(2) [symmetric])
  obtain dt a s1 b s2 x where ty: "aec_type_of (?parts ! 2) = Inr dt"
    and a: "operand_reg env k (operands i ! 1) False s = Inr (a, s1)"
    and b: "operand_reg env k (operands i ! 2) False s1 = Inr (b, s2)"
    and x: "with_guard i ((aec ''CMPP'')\<lparr>dtype := dt, dest := int n, src1 := a, src2 := b, compare := Some (?parts ! 1)\<rparr>) = Inr x"
      (is "with_guard i ?inst = _")
    and s': "s' = s2\<lparr>ls_out := ls_out s2 @ [x]\<rparr>"
    using low pn by (auto simp: lower_setp_def Let_def emit_guarded_Inr [OF plan] split: if_splits)
  have ext: "extends s2 [x] s'" unfolding s' by (rule emitted_extends)
  obtain ys where rdy: "ready h M s s2 ys [(value_of (operands i ! 1), a), (value_of (operands i ! 2), b)]"
    using ready_two(1) [OF ready_start [OF temp] M plan a b fits_extends [OF ext fit]] by blast
  show ?thesis
  proof (rule implements_by [OF rdy ext nf])
    fix \<sigma> l t e assume sim: "simulates M \<sigma> l t"
      and hold: "holds \<sigma> l [(value_of (operands i ! 1), a), (value_of (operands i ! 2), b)]"
      and e: "step_effect E i \<sigma> = Some e"
    show "\<exists>l' t'. run_steps (lane_step h) [x] (l, t) = Some (l', t') \<and> simulates M (next_state e \<sigma>) l' t'"
    proof (rule guarded_effect [OF x _ _ can sim e])
      fix t assume sim: "simulates M \<sigma> l t" and "inst_effect E i \<sigma> = Some e"
      from effect_setp [OF this(2) base] obtain u w v where
        c: "operand_value \<sigma> (operands i ! 1) = Some u" "operand_value \<sigma> (operands i ! 2) = Some w"
          "sim_compare h (Some (?parts ! 1)) (aec_type (?parts ! 2)) u w = Inr v"
          "e = SetPred (py_strip (operands i ! 0)) v" using host by auto
      note dl = two_delivered [OF rdy hold c(1,2)]
      note ok = simulatesD(1) [OF sim]
      have "execute_lane h ?inst l t = Inr (l\<lparr>predicates := (predicates l)[n := v]\<rparr>, t)"
        using get_reg_at [OF ok dl(3,4)] get_reg_at [OF ok dl(5,6)] dl(1,2) c(3) compare_type [OF ty, of h] set_pred_at [OF ok n(1)]
        by (simp add: execute_lane_def aec_def reg2_def Let_def)
      then show "\<exists>l' t'. execute_lane h ?inst l t = Inr (l', t') \<and> simulates M (next_state e \<sigma>) l' t'"
        using simulates_pred [OF sim n(1)] by (simp add: c(4) n(2))
    qed (simp_all add: aec_def inst_kind_def)
  qed
qed

subsection \<open>Arithmetic\<close>

lemma aec_type_or_f32: "(aec_type_or t = ''f32'') = (aec_type t = ''f32'')"
  by (auto simp: aec_type_or_def PTX_TO_AEC_TYPE_def aec_type_def)

text \<open>A value computed from delivered operands, into the destination.\<close>

lemma alu_final:
  assumes rdy: "ready h M s0 s xs vs" and s': "s' = s\<lparr>ls_out := ls_out s @ [x]\<rparr>"
    and base: "opcode_base (inst_opcode i) \<in> alu_bases"
    and x: "with_guard i inst = Inr x" "predicate inst = None" "inst_kind inst \<noteq> CONTROL"
    and can: "canonical_guard i" and M: "apart_placement M" and pd: "M (py_strip (operands i ! 0)) = Some d"
    and exe: "\<And>\<sigma> l t w v. simulates M \<sigma> l t \<Longrightarrow> holds \<sigma> l vs \<Longrightarrow> operand_values \<sigma> (tl (operands i)) = Some w \<Longrightarrow>
      alu_value (env_host E) (opcode_base (inst_opcode i)) (last (opcode_parts (inst_opcode i))) w = Some v \<Longrightarrow>
      execute_lane h inst l t = Inr (put_reg l d v, t)"
  shows "implements h M E I i s0 s'"
proof -
  have ext: "extends s [x] s'" unfolding s' by (rule emitted_extends)
  have nf: "opcode_base (inst_opcode i) \<notin> {''bra'', ''ret''}" using base by auto
  show ?thesis
  proof (rule implements_by [OF rdy ext nf])
    fix \<sigma> l t e assume sim: "simulates M \<sigma> l t" and hold: "holds \<sigma> l vs" and e: "step_effect E i \<sigma> = Some e"
    show "\<exists>l' t'. run_steps (lane_step h) [x] (l, t) = Some (l', t') \<and> simulates M (next_state e \<sigma>) l' t'"
    proof (rule guarded_effect [OF x can sim e])
      fix t assume sim: "simulates M \<sigma> l t" and "inst_effect E i \<sigma> = Some e"
      from effect_alu [OF this(2) base] obtain w v where
        c: "operand_values \<sigma> (tl (operands i)) = Some w"
          "alu_value (env_host E) (opcode_base (inst_opcode i)) (last (opcode_parts (inst_opcode i))) w = Some v"
          "e = SetReg (py_strip (operands i ! 0)) v (vmem \<sigma>)" by auto
      show "\<exists>l' t'. execute_lane h inst l t = Inr (l', t') \<and> simulates M (next_state e \<sigma>) l' t'"
        using exe [OF sim hold c(1,2)] simulates_put_reg [OF sim alu_value_word [OF c(2)] pd M simulatesD(4) [OF sim]]
        by (simp add: c(3))
    qed
  qed
qed

lemma operand_values_two:
  "operand_values \<sigma> [a, b] = Some w \<longleftrightarrow> (\<exists>x y. operand_value \<sigma> a = Some x \<and> operand_value \<sigma> b = Some y \<and> w = [x, y])"
  by (auto simp: operand_values_def split: option.splits)

lemma operand_values_three:
  "operand_values \<sigma> [a, b, c] = Some w \<longleftrightarrow> (\<exists>x y z. operand_value \<sigma> a = Some x \<and> operand_value \<sigma> b = Some y \<and>
     operand_value \<sigma> c = Some z \<and> w = [x, y, z])"
  by (auto simp: operand_values_def split: option.splits)

lemma alu_opcode_mem:
  "map_of ALU_OPCODES base = Some opc \<Longrightarrow>
   opc \<in> {''ADD'', ''SUB'', ''MUL'', ''MAD'', ''AND'', ''OR'', ''XOR'', ''SHL'', ''SHR'', ''FMA''}"
  unfolding ALU_OPCODES_def by (drule map_of_SomeD) auto

lemma guard_holds_set [simp]: "guard_holds i (set_reg_v \<sigma> u v s) = guard_holds i \<sigma>"
  by (simp add: guard_holds_def set_reg_v_def split: option.split)

lemma alu_opcode_kind:
  "map_of ALU_OPCODES base = Some opc \<Longrightarrow> inst_kind ((aec opc)\<lparr>dtype := ty, dest := d, src1 := a, src2 := b\<rparr>) \<noteq> CONTROL"
  "map_of ALU_OPCODES base = Some opc \<Longrightarrow> inst_kind ((aec opc)\<lparr>dtype := ty, dest := d, src1 := a, src2 := b, src3 := c\<rparr>) \<noteq> CONTROL"
  by (drule alu_opcode_mem, elim insertE emptyE, simp_all add: inst_kind_def aec_def Let_def)+

text \<open>Two operands.\<close>

lemma alu2_implements:
  assumes d: "ptx_reg (operands i ! 0) False s = Inr (d, s1)"
    and a: "operand_reg env k (operands i ! 1) False s1 = Inr (a, s2)"
    and b: "operand_reg env k (operands i ! 2) False s2 = Inr (b, s3)"
    and x: "emit_guarded env k i ((aec opc)\<lparr>dtype := ty, dest := d, src1 := a, src2 := b\<rparr>) s3 = Inr ((), s')"
    and len: "length (operands i) = 3" and opc: "map_of ALU_OPCODES (opcode_base (inst_opcode i)) = Some opc"
    and base: "opcode_base (inst_opcode i) \<in> alu_bases - {''mad'', ''fma''}"
    and ty: "opcode_base (inst_opcode i) \<noteq> ''shl'' \<Longrightarrow> (ty = ''f32'') = (aec_type (last (opcode_parts (inst_opcode i))) = ''f32'')"
    and plan: "map_of (item_guards (le_plan env)) k = None" and M: "apart_placement M" and fit: "fits M s'"
    and temp: "temp_of s = 240" and can: "canonical_guard i" and host: "env_host E = h"
  shows "implements h M E I i s s'"
proof -
  obtain y where y: "with_guard i ((aec opc)\<lparr>dtype := ty, dest := d, src1 := a, src2 := b\<rparr>) = Inr y"
    and s': "s' = s3\<lparr>ls_out := ls_out s3 @ [y]\<rparr>"
    using x by (auto simp: emit_guarded_Inr [OF plan])
  have fit3: "fits M s3" using fits_extends [OF emitted_extends fit [unfolded s']] .
  obtain ys where rdy: "ready h M s s3 ys [(value_of (operands i ! 1), a), (value_of (operands i ! 2), b)]"
    and "fits M s1" using ready_two [OF ready_reg [OF ready_start [OF temp] d] M plan a b fit3] by blast
  then have pd: "M (py_strip (operands i ! 0)) = Some d" using fits_placed [OF d] by blast
  have dr: "0 \<le> d" "d < 256" using apart_placementD(1,2) [OF M pd] by simp_all
  have ops: "tl (operands i) = [operands i ! 1, operands i ! 2]"
    using len by (auto simp: numeral_3_eq_3 length_Suc_conv)
  have bas: "opcode_base (inst_opcode i) \<in> alu_bases" using base by blast
  show ?thesis
  proof (rule alu_final [OF rdy s' bas y _ alu_opcode_kind(1) [OF opc] can M pd])
    fix \<sigma> l t w v
    assume sim: "simulates M \<sigma> l t" and hold: "holds \<sigma> l [(value_of (operands i ! 1), a), (value_of (operands i ! 2), b)]"
      and w: "operand_values \<sigma> (tl (operands i)) = Some w"
      and v: "alu_value (env_host E) (opcode_base (inst_opcode i)) (last (opcode_parts (inst_opcode i))) w = Some v"
    obtain p q where pq: "operand_value \<sigma> (operands i ! 1) = Some p" "operand_value \<sigma> (operands i ! 2) = Some q" "w = [p, q]"
      using w by (auto simp: ops operand_values_two)
    note dl = two_delivered [OF rdy hold pq(1,2)]
    show "execute_lane h ((aec opc)\<lparr>dtype := ty, dest := d, src1 := a, src2 := b\<rparr>) l t = Inr (put_reg l d v, t)"
      by (rule execute_alu2 [OF simulatesD(1) [OF sim] base opc ty dr dl(3-6)])
        (use v dl(1,2) pq(3) host in simp_all)
  qed (simp add: aec_def)
qed

text \<open>Three operands.\<close>

lemma alu3_implements:
  assumes d: "ptx_reg (operands i ! 0) False s = Inr (d, s1)"
    and a: "operand_reg env k (operands i ! 1) False s1 = Inr (a, s2)"
    and b: "operand_reg env k (operands i ! 2) False s2 = Inr (b, s3)"
    and c: "operand_reg env k (operands i ! 3) False s3 = Inr (c, s4)"
    and x: "emit_guarded env k i ((aec opc)\<lparr>dtype := ty, dest := d, src1 := a, src2 := b, src3 := c\<rparr>) s4 = Inr ((), s')"
    and len: "length (operands i) = 4" and opc: "map_of ALU_OPCODES (opcode_base (inst_opcode i)) = Some opc"
    and base: "opcode_base (inst_opcode i) \<in> {''mad'', ''fma''}"
    and ty: "(ty = ''f32'') = (aec_type (last (opcode_parts (inst_opcode i))) = ''f32'')"
    and plan: "map_of (item_guards (le_plan env)) k = None" and M: "apart_placement M" and fit: "fits M s'"
    and temp: "temp_of s = 240" and can: "canonical_guard i" and host: "env_host E = h"
  shows "implements h M E I i s s'"
proof -
  obtain y where y: "with_guard i ((aec opc)\<lparr>dtype := ty, dest := d, src1 := a, src2 := b, src3 := c\<rparr>) = Inr y"
    and s': "s' = s4\<lparr>ls_out := ls_out s4 @ [y]\<rparr>"
    using x by (auto simp: emit_guarded_Inr [OF plan])
  have fit4: "fits M s4" using fits_extends [OF emitted_extends fit [unfolded s']] .
  then have fit3: "fits M s3" using operand_reg_extends [OF c plan] fits_extends by blast
  obtain xs where rdy3: "ready h M s s3 xs [(value_of (operands i ! 1), a), (value_of (operands i ! 2), b)]"
    and "fits M s1" using ready_two [OF ready_reg [OF ready_start [OF temp] d] M plan a b fit3] by blast
  then have pd: "M (py_strip (operands i ! 0)) = Some d" using fits_placed [OF d] by blast
  let ?vs = "[(value_of (operands i ! 1), a), (value_of (operands i ! 2), b), (value_of (operands i ! 3), c)]"
  obtain ys where rdy: "ready h M s s4 ys ?vs"
    using ready_operand [OF rdy3 M plan c fit4] by auto
  have dr: "0 \<le> d" "d < 256" using apart_placementD(1,2) [OF M pd] by simp_all
  have ops: "tl (operands i) = [operands i ! 1, operands i ! 2, operands i ! 3]"
    using len by (auto simp: eval_nat_numeral length_Suc_conv)
  have bas: "opcode_base (inst_opcode i) \<in> alu_bases" using base by blast
  show ?thesis
  proof (rule alu_final [OF rdy s' bas y _ alu_opcode_kind(2) [OF opc] can M pd])
    fix \<sigma> l t w v
    assume sim: "simulates M \<sigma> l t" and hold: "holds \<sigma> l ?vs"
      and w: "operand_values \<sigma> (tl (operands i)) = Some w"
      and v: "alu_value (env_host E) (opcode_base (inst_opcode i)) (last (opcode_parts (inst_opcode i))) w = Some v"
    obtain p q r where pq: "operand_value \<sigma> (operands i ! 1) = Some p" "operand_value \<sigma> (operands i ! 2) = Some q"
        "operand_value \<sigma> (operands i ! 3) = Some r" "w = [p, q, r]"
      using w by (auto simp: ops operand_values_three)
    have dl: "reg_at l a = p" "reg_at l b = q" "reg_at l c = r" "0 \<le> a" "a < 256" "0 \<le> b" "b < 256" "0 \<le> c" "c < 256"
      using rdy hold pq by (auto simp: ready_def holds_def)
    show "execute_lane h ((aec opc)\<lparr>dtype := ty, dest := d, src1 := a, src2 := b, src3 := c\<rparr>) l t = Inr (put_reg l d v, t)"
      by (rule execute_alu3 [OF simulatesD(1) [OF sim] base opc ty dr dl(4-9)])
        (use v dl(1-3) pq(4) host in simp_all)
  qed (simp add: aec_def)
qed

text \<open>A result whose high word is zero.\<close>

lemma wide_implements:
  assumes low: "emit_wide env k i opc p s = Inr ((), s')"
    and len: "length (operands i) = 3" and opc: "map_of ALU_OPCODES (opcode_base (inst_opcode i)) = Some opc"
    and base: "opcode_base (inst_opcode i) \<in> {''mul'', ''add''}"
    and ty: "aec_type (last (opcode_parts (inst_opcode i))) \<noteq> ''f32''"
    and wide: "starts_with (py_strip (operands i ! 0)) ''%rd''"
    and plan: "map_of (item_guards (le_plan env)) k = None" and M: "apart_placement M" and fit: "fits M s'"
    and temp: "temp_of s = 240" and can: "canonical_guard i" and host: "env_host E = h"
  shows "implements h M E I i s s'"
proof -
  let ?u = "py_strip (operands i ! 0)"
  have bas: "opcode_base (inst_opcode i) \<in> alu_bases" "opcode_base (inst_opcode i) \<in> alu_bases - {''mad'', ''fma''}"
    and nf: "opcode_base (inst_opcode i) \<notin> {''bra'', ''ret''}"
    using base by auto
  obtain d s1 a s2 b s3 x y where d: "ptx_reg (operands i ! 0) True s = Inr (d, s1)"
    and a: "operand_reg env k (operands i ! 1) p s1 = Inr (a, s2)"
    and b: "operand_reg env k (operands i ! 2) p s2 = Inr (b, s3)"
    and x: "with_guard i ((aec opc)\<lparr>dtype := ''u32'', dest := d, src1 := a, src2 := b\<rparr>) = Inr x" (is "with_guard i ?op = _")
    and y: "with_guard i ((aec ''LOADI'')\<lparr>dtype := ''u32'', dest := d + 1, imm := 0\<rparr>) = Inr y" (is "with_guard i ?li = _")
    and s': "s' = s3\<lparr>ls_out := ls_out s3 @ [x] @ [y]\<rparr>"
    using low by (auto simp: emit_wide_def emit_guarded_Inr [OF plan])
  have ext: "extends s3 [x, y] s'" by (simp add: s' extends_def placement_of_def)
  obtain ys where rdy: "ready h M s s3 ys [(value_of (operands i ! 1), a), (value_of (operands i ! 2), b)]"
    and "fits M s1"
    using ready_two [OF ready_reg [OF ready_start [OF temp] d] M plan a b fits_extends [OF ext fit]] by blast
  then have pd: "M ?u = Some d" using fits_placed [OF d] by blast
  have dr: "0 \<le> d" "d < 255" using apart_placementD(1,2) [OF M pd] by simp_all
  have ops: "tl (operands i) = [operands i ! 1, operands i ! 2]"
    using len by (auto simp: numeral_3_eq_3 length_Suc_conv)
  have cg: "guard_register p \<in> set PRED_NAMES" if "guard i = Some p" for p
    using can that by (simp add: canonical_guard_def)
  note gs = guarded_step [OF x _ _ cg alu_opcode_kind(1) [OF opc]] guarded_step [OF y _ _ cg]
  show ?thesis
  proof (rule implements_by [OF rdy ext nf])
    fix \<sigma> l t e assume sim: "simulates M \<sigma> l t"
      and hold: "holds \<sigma> l [(value_of (operands i ! 1), a), (value_of (operands i ! 2), b)]"
      and e: "step_effect E i \<sigma> = Some e"
    show "\<exists>l' t'. run_steps (lane_step h) [x, y] (l, t) = Some (l', t') \<and> simulates M (next_state e \<sigma>) l' t'"
    proof (cases "guard_holds i \<sigma>")
      case False
      then show ?thesis using gs [of M \<sigma> l] sim e by (auto simp: step_effect_def aec_def inst_kind_def)
    next
      case True
      then have "inst_effect E i \<sigma> = Some e" using e by (simp add: step_effect_def)
      from effect_alu [OF this bas(1)] obtain w v where
        c: "operand_values \<sigma> (tl (operands i)) = Some w"
          "alu_value h (opcode_base (inst_opcode i)) (last (opcode_parts (inst_opcode i))) w = Some v"
          "e = SetReg ?u v (vmem \<sigma>)" using host by auto
      obtain p q where pq: "operand_value \<sigma> (operands i ! 1) = Some p" "operand_value \<sigma> (operands i ! 2) = Some q" "w = [p, q]"
        using c(1) by (auto simp: ops operand_values_two)
      note dl = two_delivered [OF rdy hold pq(1,2)]
      have "execute_lane h ?op l (bump t) = Inr (put_reg l d v, bump t)"
        by (rule execute_alu2 [OF simulatesD(1) [OF sim] bas(2) opc, where t = "last (opcode_parts (inst_opcode i))"])
          (use ty dr dl c(2) pq(3) in simp_all)
      then have x1: "lane_step h x (l, t) = Some (put_reg l d v, bump t)"
        using gs(1) [of M \<sigma> l t] sim True by (simp add: aec_def)
      have sim1: "simulates M (set_reg_v \<sigma> ?u v (vmem \<sigma>)) (put_reg l d v) (bump t)"
        using simulates_put_reg [OF sim alu_value_word [OF c(2)] pd M simulatesD(4) [OF sim]] by simp
      have "execute_lane h ?li (put_reg l d v) (bump (bump t)) = Inr (put_reg (put_reg l d v) (d + 1) 0, bump (bump t))"
        using set_reg_put [OF simulatesD(1) [OF sim1], of "d + 1"] dr by (simp add: execute_lane_def aec_def upd_reg_def Let_def)
      then have y1: "lane_step h y (put_reg l d v, bump t) = Some (put_reg (put_reg l d v) (d + 1) 0, bump (bump t))"
        using gs(2) [OF sim1, of h] True by (simp add: inst_kind_def aec_def)
      have "simulates M (set_reg_v \<sigma> ?u v (vmem \<sigma>)) (put_reg (put_reg l d v) (d + 1) 0) (bump (bump t))"
        using simulates_high [OF sim1 M _ pd wide, of 0] by (simp add: word_val_def)
      then show ?thesis using x1 y1 by (simp add: c(3))
    qed
  qed
qed

end
