(* ===== verification/Lower_Code.thy ===== *)
theory Lower_Code
  imports Lower_Alu
begin

unbundle bit_operations_syntax

text \<open>
  What an instruction has to satisfy for the lowering to be right about it, the code of every
  instruction, and the registers the allocator hands out meanwhile.
\<close>

subsection \<open>Lowerable instructions\<close>

text \<open>Results that fill a pair of registers.\<close>

definition pair_result :: "PTXInstruction \<Rightarrow> bool" where
  "pair_result i = (let parts = opcode_parts (inst_opcode i); base = hd parts in
     if base = ''mov'' then 2 \<le> length parts \<and> (wide_type (parts ! 1) \<or> parts ! 1 = ''f64'')
     else if base = ''ld'' then 3 \<le> length parts \<and> parts ! 1 = ''param'' \<and> wide_type (parts ! 2)
     else if base = ''mul'' then 3 \<le> length parts \<and> parts ! 1 = ''wide''
     else base = ''add'' \<and> wide_type (last parts))"

definition drops_guard :: "PTXInstruction \<Rightarrow> bool" where
  "drops_guard i = (let parts = opcode_parts (inst_opcode i) in
     hd parts = ''ret'' \<or> hd parts = ''ld'' \<and> 3 \<le> length parts \<and> parts ! 1 = ''param'')"

definition lowerable :: "PTXInstruction \<Rightarrow> bool" where
  "lowerable i = (let parts = opcode_parts (inst_opcode i); base = hd parts; ops = operands i in
     canonical_guard i \<and>
     (if drops_guard i then guard i = None else True) \<and>
     (if pair_result i \<and> ops \<noteq> [] then starts_with (py_strip (ops ! 0)) ''%rd'' else True) \<and>
     (if base = ''setp'' \<and> ops \<noteq> [] then py_strip (ops ! 0) \<in> set PRED_NAMES else True) \<and>
     (if base = ''mov'' \<and> 2 \<le> length ops then py_strip (ops ! 1) = ops ! 1 else True) \<and>
     (if base = ''mul'' \<and> pair_result i then last parts \<noteq> ''f32'' else True) \<and>
     base \<noteq> ''cvt'')"

lemma lower_alu_implements:
  assumes low: "lower_alu env k i (opcode_parts (inst_opcode i)) s = Inr ((), s')"
    and plan: "map_of (item_guards (le_plan env)) k = None" and M: "apart_placement M" and fit: "fits M s'"
    and temp: "temp_of s = 240" and ok: "lowerable i" and base: "opcode_base (inst_opcode i) \<in> alu_bases"
    and host: "env_host E = h"
  shows "implements h M E I i s s'"
proof -
  let ?parts = "opcode_parts (inst_opcode i)" and ?b = "opcode_base (inst_opcode i)"
  have can: "canonical_guard i" using ok by (simp add: lowerable_def Let_def)
  obtain opc where opc: "map_of ALU_OPCODES ?b = Some opc" using base by (auto simp: ALU_OPCODES_def)
  have low': "lower_alu env k i ?parts s = Inr ((), s')" by (rule low)
  have len: "length (operands i) = (if ?b = ''mad'' \<or> ?b = ''fma'' then 4 else 3)"
    using low by (auto simp: lower_alu_def Let_def)
  consider (wide_mul) "?b = ''mul''" "3 \<le> length ?parts" "?parts ! 1 = ''wide''"
    | (three) "?b \<in> {''mad'', ''fma''}"
    | (wide_add) "?b = ''add''" "wide_type (last ?parts)"
    | (two) "?b \<notin> {''mad'', ''fma''}" "\<not> (?b = ''mul'' \<and> 3 \<le> length ?parts \<and> ?parts ! 1 = ''wide'')"
        "\<not> (?b = ''add'' \<and> wide_type (last ?parts))"
    by blast
  then show ?thesis
  proof cases
    case wide_mul
    then have "pair_result i" by (simp add: pair_result_def Let_def)
    then have w: "starts_with (py_strip (operands i ! 0)) ''%rd''" "last ?parts \<noteq> ''f32''"
      using ok wide_mul(1) len by (auto simp: lowerable_def Let_def split: if_splits)
    have "emit_wide env k i opc False s = Inr ((), s')"
      using low wide_mul opc by (simp add: lower_alu_def Let_def ALU_OPCODES_def)
    then show ?thesis
      using wide_implements [OF _ _ opc _ _ w(1) plan M fit temp can host] len wide_mul(1) w(2)
      by (simp add: aec_type_def)
  next
    case three
    then obtain d s1 a s2 b s3 c s4 where
      "ptx_reg (operands i ! 0) False s = Inr (d, s1)"
      "operand_reg env k (operands i ! 1) False s1 = Inr (a, s2)"
      "operand_reg env k (operands i ! 2) False s2 = Inr (b, s3)"
      "operand_reg env k (operands i ! 3) False s3 = Inr (c, s4)"
      "emit_guarded env k i ((aec opc)\<lparr>dtype := aec_type_or (last ?parts), dest := d, src1 := a, src2 := b, src3 := c\<rparr>) s4 = Inr ((), s')"
      using low opc by (auto simp: lower_alu_def Let_def)
    then show ?thesis
      using alu3_implements [OF _ _ _ _ _ _ opc three aec_type_or_f32 plan M fit temp can host] len three by auto
  next
    case wide_add
    then have "pair_result i" by (simp add: pair_result_def Let_def)
    then have w: "starts_with (py_strip (operands i ! 0)) ''%rd''"
      using ok wide_add(1) len by (auto simp: lowerable_def Let_def split: if_splits)
    have "emit_wide env k i opc True s = Inr ((), s')"
      using low wide_add opc by (simp add: lower_alu_def Let_def ALU_OPCODES_def)
    moreover have "aec_type (last ?parts) \<noteq> ''f32''" using wide_add(2) by (auto simp: wide_type_def aec_type_def)
    ultimately show ?thesis
      using wide_implements [OF _ _ opc _ _ w plan M fit temp can host] len wide_add(1) by simp
  next
    case two
    then obtain d s1 a s2 b s3 where
      c: "ptx_reg (operands i ! 0) False s = Inr (d, s1)"
      "operand_reg env k (operands i ! 1) False s1 = Inr (a, s2)"
      "operand_reg env k (operands i ! 2) False s2 = Inr (b, s3)"
      "emit_guarded env k i ((aec opc)\<lparr>dtype := (if ?b = ''shl'' then ''u32'' else aec_type_or (last ?parts)),
         dest := d, src1 := a, src2 := b\<rparr>) s3 = Inr ((), s')"
      using low opc by (auto simp: lower_alu_def Let_def)
    have b2: "?b \<in> alu_bases - {''mad'', ''fma''}" using base two(1) by blast
    show ?thesis
      by (rule alu2_implements [OF c _ opc b2 _ plan M fit temp can host])
        (use len two(1) aec_type_or_f32 in simp_all)
  qed
qed

subsection \<open>Every instruction\<close>

lemma lower_instruction_implements:
  assumes low: "lower_instruction env k i s = Inr ((), s')"
    and base: "opcode_base (inst_opcode i) \<notin> {''bra'', ''ret''}" and ok: "lowerable i"
    and plan: "map_of (item_guards (le_plan env)) k = None" and M: "apart_placement M" and fit: "fits M s'"
    and temp: "temp_of s = 240"
    and prof: "map_of (special_registers (le_profile env)) \<subseteq>\<^sub>m map_of (special_registers TRACK_B_V1)"
    and env: "le_offsets env = env_params E" "env_host E = h"
    and par: "drops_guard i \<Longrightarrow> param_fits (env_params E) n i" and I: "\<And>\<sigma>. I \<sigma> \<Longrightarrow> length (pmem (vmem \<sigma>)) = n"
  shows "implements h M E I i s s'"
proof -
  let ?parts = "opcode_parts (inst_opcode i)" and ?b = "opcode_base (inst_opcode i)"
  have can: "canonical_guard i" using ok by (simp add: lowerable_def Let_def)
  have len2: "length (operands i) = 2" if "lower_ld_param env k i t s = Inr ((), s') \<or> lower_mov env k i t s = Inr ((), s')" for t
    using that by (auto simp: lower_ld_param_def lower_mov_def)
  consider (param) "?b = ''ld''" "3 \<le> length ?parts" "?parts ! 1 = ''param''"
    | (global) "?b = ''ld''" "3 \<le> length ?parts" "?parts ! 1 = ''global''"
    | (store) "?b = ''st''" "3 \<le> length ?parts" "?parts ! 1 = ''global''"
    | (mov) "?b = ''mov''" "2 \<le> length ?parts"
    | (setp) "?b = ''setp''"
    | (alu) "?b \<in> alu_bases"
  proof -
    have "?b \<noteq> ''cvt''" using ok by (simp add: lowerable_def Let_def)
    moreover have "fst ` set ALU_OPCODES = alu_bases" by (auto simp: ALU_OPCODES_def)
    ultimately show thesis using low base that
      by (auto simp: lower_instruction_def Let_def split: if_splits)
  qed
  then show ?thesis
  proof cases
    case param
    have l: "lower_ld_param env k i (?parts ! 2) s = Inr ((), s')"
      using low param by (simp add: lower_instruction_def Let_def)
    have dg: "drops_guard i" using param by (simp add: drops_guard_def Let_def)
    then have g: "guard i = None" using ok by (simp add: lowerable_def Let_def)
    have "starts_with (py_strip (operands i ! 0)) ''%rd''" if "wide_type (?parts ! 2)"
      using ok that param len2 [OF disjI1 [OF l]] by (auto simp: lowerable_def pair_result_def Let_def split: if_splits)
    then show ?thesis
      using lower_ld_param_implements [OF l plan M fit temp g param(1) param(3) env(1) par [OF dg] I] by blast
  next
    case global
    then show ?thesis
      using lower_ld_global_implements [OF _ plan M fit temp can] low by (simp add: lower_instruction_def Let_def)
  next
    case store
    then show ?thesis
      using lower_st_implements [OF _ plan M fit temp can] low by (simp add: lower_instruction_def Let_def)
  next
    case mov
    have l: "lower_mov env k i (?parts ! 1) s = Inr ((), s')"
      using low mov by (simp add: lower_instruction_def Let_def)
    have "py_strip (operands i ! 1) = operands i ! 1"
      using ok mov len2 [OF disjI2 [OF l]] by (simp add: lowerable_def Let_def)
    moreover have "starts_with (py_strip (operands i ! 0)) ''%rd''" if "wide_type (?parts ! 1) \<or> ?parts ! 1 = ''f64''"
      using ok that mov len2 [OF disjI2 [OF l]] by (auto simp: lowerable_def pair_result_def Let_def split: if_splits)
    ultimately show ?thesis using lower_mov_implements [OF l plan M fit temp can mov(1) prof] by blast
  next
    case setp
    have l: "lower_setp env k i ?parts s = Inr ((), s')"
      using low setp by (simp add: lower_instruction_def Let_def)
    then have "operands i \<noteq> []" by (auto simp: lower_setp_def)
    then have "py_strip (operands i ! 0) \<in> set PRED_NAMES" using ok setp by (simp add: lowerable_def Let_def)
    then show ?thesis using lower_setp_implements [OF l plan M fit temp can setp _ env(2)] by blast
  next
    case alu
    then have "lower_alu env k i ?parts s = Inr ((), s')"
      using low by (auto simp: lower_instruction_def Let_def ALU_OPCODES_def)
    then show ?thesis using lower_alu_implements [OF _ plan M fit temp ok alu env(2)] by blast
  qed
qed

end
