(* ===== verification/Lower_Regs.thy ===== *)
theory Lower_Regs
  imports Lower_Code
begin

text \<open>
  The registers of a lowered program. Every step of the lowering uses the allocator through its
  operations only, so its states are reachable ones, and the placement at the end keeps names apart.
\<close>

definition well_placed :: "lower_state \<Rightarrow> bool" where
  "well_placed s \<longleftrightarrow> (\<exists>w. allocator_reach [] (ls_regs s) w \<and> (\<forall>v. w v = 1 \<or> w v = 2) \<and>
     (\<forall>v. placement_of s v \<noteq> None \<longrightarrow> starts_with v ''%rd'' \<longrightarrow> w v = 2))"

text \<open>Actions of the lowering that keep the allocator well placed.\<close>

definition places :: "'a lowering \<Rightarrow> bool" where
  "places m \<longleftrightarrow> (\<forall>s x s'. m s = Inr (x, s') \<longrightarrow> well_placed s \<longrightarrow> well_placed s')"

named_theorems places_intros

lemma placesD: "places m \<Longrightarrow> m s = Inr (x, s') \<Longrightarrow> well_placed s \<Longrightarrow> well_placed s'"
  by (simp add: places_def)

lemma places_lbind [places_intros]: "places m \<Longrightarrow> (\<And>x. places (f x)) \<Longrightarrow> places (lbind m f)"
  unfolding places_def by (auto; blast)

lemma places_lift [places_intros]: "places (lift_l r)"
  by (auto simp: places_def)

lemma places_if [places_intros]: "places a \<Longrightarrow> places b \<Longrightarrow> places (if c then a else b)"
  by simp

lemma places_option [places_intros]:
  "places a \<Longrightarrow> (\<And>x. places (f x)) \<Longrightarrow> places (case z of None \<Rightarrow> a | Some x \<Rightarrow> f x)"
  by (cases z) simp_all

lemma places_emit [places_intros]: "places (emit env k x)"
  by (auto simp: places_def emit_def well_placed_def placement_of_def Let_def)

lemma places_pending [places_intros]: "places (add_pending t)"
  by (auto simp: places_def add_pending_def well_placed_def placement_of_def)

lemma places_require [places_intros]: "places (require_operands i n)"
  unfolding require_operands_def by (rule places_lift)

lemma places_temp [places_intros]: "places (on_regs ra_temp)"
  unfolding places_def
proof (intro allI impI)
  fix s x s' assume "on_regs ra_temp s = Inr (x, s')" "well_placed s"
  then obtain a w where t: "ra_temp (ls_regs s) = Inr (x, a)" "s' = s\<lparr>ls_regs := a\<rparr>"
    and w: "allocator_reach [] (ls_regs s) w" "\<forall>v. w v = 1 \<or> w v = 2"
      "\<forall>v. placement_of s v \<noteq> None \<longrightarrow> starts_with v ''%rd'' \<longrightarrow> w v = 2"
    by (auto simp: on_regs_def well_placed_def)
  have "ra_mapping a = ra_mapping (ls_regs s)" using t(1) by (auto simp: ra_temp_def Let_def split: if_splits)
  then show "well_placed s'"
    using allocator_reach.temporary [OF w(1) t(1)] w(2,3) unfolding well_placed_def t(2)
    by (auto simp: placement_of_def)
qed

lemma places_reg [places_intros]: "places (ptx_reg t p)"
  unfolding places_def
proof (intro allI impI)
  fix s r s' assume reg: "ptx_reg t p s = Inr (r, s')" and "well_placed s"
  let ?v = "py_strip t" and ?p = "p \<or> starts_with (py_strip t) ''%rd''"
  obtain a where a: "ra_reg ?v ?p (ls_regs s) = Inr (r, a)" and s': "s' = s\<lparr>ls_regs := a\<rparr>"
    using reg by (auto simp: ptx_reg_def Let_def on_regs_def)
  obtain w where w: "allocator_reach [] (ls_regs s) w" "\<forall>v. w v = 1 \<or> w v = 2"
      "\<forall>v. placement_of s v \<noteq> None \<longrightarrow> starts_with v ''%rd'' \<longrightarrow> w v = 2"
    using \<open>well_placed s\<close> by (auto simp: well_placed_def)
  show "well_placed s'"
  proof (cases "map_of (ra_mapping (ls_regs s)) ?v")
    case (Some q)
    then have "a = ls_regs s" using a by (simp add: ra_reg_def Let_def)
    then show ?thesis using \<open>well_placed s\<close> by (simp add: s')
  next
    case None
    let ?w = "w(?v := if ?p then 2 else 1)"
    have "allocator_reach [] a ?w" using allocator_reach.fresh [OF w(1) a] None by simp
    moreover have "map_of (ra_mapping a) = (map_of (ra_mapping (ls_regs s)))(?v \<mapsto> r)"
      using a None by (auto simp: ra_reg_def ra_allocate_def Let_def update_conv')
    then have "\<forall>v. placement_of s' v \<noteq> None \<longrightarrow> starts_with v ''%rd'' \<longrightarrow> ?w v = 2"
      using w(3) by (auto simp: s' placement_of_def)
    ultimately show ?thesis using w(2) unfolding well_placed_def s' by (intro exI [of _ ?w]) auto
  qed
qed

lemma places_load [places_intros]: "places (load_imm env k v)"
  unfolding load_imm_def by (intro places_intros)

lemma places_operand [places_intros]: "places (operand_reg env k t p)"
  unfolding operand_reg_def by (intro places_intros)

lemma places_guarded [places_intros]: "places (emit_guarded env k i inst)"
  unfolding emit_guarded_def by (intro places_intros)

lemma places_wide [places_intros]: "places (emit_wide env k i op p)"
  unfolding emit_wide_def by (intro places_intros)

lemma places_handlers [places_intros]:
  "places (lower_ld_param env k i t)" "places (lower_ld_global env k i t)" "places (lower_st_global env k i t)"
  "places (lower_mov env k i t)" "places (lower_setp env k i parts)" "places (lower_bra env k i)"
  "places (lower_cvt env k i parts)" "places (lower_alu env k i parts)"
  unfolding lower_ld_param_def lower_ld_global_def lower_st_global_def lower_mov_def lower_setp_def lower_bra_def
    lower_cvt_def lower_alu_def Let_def
  by (intro places_intros)+

lemma places_instruction [places_intros]: "places (lower_instruction env k i)"
  unfolding lower_instruction_def Let_def by (intro places_intros)

lemma well_placed_reset: "well_placed s \<Longrightarrow> well_placed (s\<lparr>ls_regs := reset_temps (ls_regs s)\<rparr>)"
  unfolding well_placed_def
  by (auto simp: placement_of_def reset_temps_def intro: allocator_reach.reset [unfolded reset_temps_def])

lemma well_placed_item:
  assumes "lower_item env (k, it) s = Inr s'" "well_placed s"
  shows "well_placed s'"
proof (cases it)
  case (Label l)
  then show ?thesis using assms by (auto simp: lower_item_def well_placed_def placement_of_def)
next
  case (Inst i)
  then have "s' = s \<or> (\<exists>u. lower_instruction env k i (s\<lparr>ls_regs := reset_temps (ls_regs s)\<rparr>) = Inr (u, s'))"
    using assms(1) by (auto simp: lower_item_def split: if_splits)
  then show ?thesis using placesD [OF places_instruction _ well_placed_reset [OF assms(2)]] assms(2) by blast
qed

lemma well_placed_new: "well_placed (new_lower_state [])"
  unfolding well_placed_def
proof (intro exI conjI)
  show "allocator_reach [] (ls_regs (new_lower_state [])) pre_width"
    using allocator_reach.start [of "[]"] by (simp add: new_lower_state_def in_range_def)
qed (auto simp: pre_width_def new_lower_state_def placement_of_def new_allocator_def)

lemma well_placed_run: "fold_r (lower_item env) xs s = Inr s' \<Longrightarrow> well_placed s \<Longrightarrow> well_placed s'"
  by (induction xs arbitrary: s) (auto split: prod.splits dest: well_placed_item)

text \<open>The placement a well-placed state has.\<close>

lemma well_placed_apart:
  assumes "well_placed s"
  shows "apart_placement (placement_of s)"
proof -
  obtain w where w: "allocator_reach [] (ls_regs s) w" "\<forall>v. w v = 1 \<or> w v = 2"
      "\<forall>v. placement_of s v \<noteq> None \<longrightarrow> starts_with v ''%rd'' \<longrightarrow> w v = 2"
    using assms by (auto simp: well_placed_def)
  have inv: "kept_apart [] (ra_mapping (ls_regs s)) w" "in_range (ra_mapping (ls_regs s)) w"
    using allocator_invariant [OF w(1)] by (auto simp: allocator_inv_def)
  have range: "block_regs r (w v) \<subseteq> {1..239}" if "placement_of s v = Some r" for v r
    using inv(2) that by (auto simp: in_range_def placement_of_def)
  have apart: "block_regs r (w u) \<inter> block_regs q (w v) = {}"
    if "placement_of s u = Some r" "placement_of s v = Some q" "u \<noteq> v" for u v r q
    using inv(1) that by (auto simp: kept_apart_def placement_of_def)
  have own: "r \<in> block_regs r (w v)" "w v = 2 \<Longrightarrow> r + 1 \<in> block_regs r (w v)" for r v
    using w(2) [rule_format, of v] by (auto simp: block_regs_def)
  show ?thesis
    unfolding apart_placement_def
  proof (intro conjI allI impI)
    fix v r assume v: "placement_of s v = Some r"
    show "1 \<le> r" "r \<le> 239" using range [OF v] own(1) [of r v] by auto
    assume rd: "starts_with v ''%rd''"
    then have two: "w v = 2" using w(3) v by simp
    then show "r \<le> 238" using range [OF v] own(2) [of v r] by auto
    show "placement_of s u \<noteq> Some (r + 1)" for u
    proof
      assume u: "placement_of s u = Some (r + 1)"
      show False
        using apart [OF u v] own(1) [of "r + 1" u] own(2) [OF two, of r] u v by (cases "u = v") auto
    qed
  next
    fix u v r assume "placement_of s u = Some r" "placement_of s v = Some r"
    then show "u = v" using apart [of u r v r] own(1) by blast
  qed
qed

end
