(* ===== verification/Lower_Proofs.thy ===== *)
theory Lower_Proofs
  imports Lower_Regs
begin

unbundle bit_operations_syntax

text \<open>
  The lowering of a whole program: where the code of every item lies, where the branches go, and
  that a thread of the simulator does on the code what the program does in the reference semantics.
\<close>

subsection \<open>What is asked of a program\<close>

definition labels_in :: "item list \<Rightarrow> string list" where
  "labels_in its = concat (map (\<lambda>it. case it of Label l \<Rightarrow> [l] | Inst _ \<Rightarrow> []) its)"

definition lowering_ok :: "lower_env \<Rightarrow> ptx_env \<Rightarrow> nat \<Rightarrow> item list \<Rightarrow> bool" where
  "lowering_ok env E n P \<longleftrightarrow> skip_items (le_plan env) = [] \<and> item_guards (le_plan env) = [] \<and>
     map_of (special_registers (le_profile env)) \<subseteq>\<^sub>m map_of (special_registers TRACK_B_V1) \<and>
     le_offsets env = env_params E \<and> distinct (labels_in P) \<and>
     (\<forall>i. Inst i \<in> set P \<longrightarrow> lowerable i \<and> (drops_guard i \<longrightarrow> param_fits (env_params E) n i))"

lemma labels_in_simps [simp]:
  "labels_in [] = []" "labels_in (Label l # its) = l # labels_in its" "labels_in (Inst i # its) = labels_in its"
  "labels_in (xs @ ys) = labels_in xs @ labels_in ys"
  by (simp_all add: labels_in_def)

subsection \<open>The code of one item\<close>

definition resets :: "lower_state \<Rightarrow> lower_state" where
  "resets s = s\<lparr>ls_regs := reset_temps (ls_regs s)\<rparr>"

lemma resets_fields [simp]:
  "ls_out (resets s) = ls_out s" "ls_labels (resets s) = ls_labels s" "ls_pending (resets s) = ls_pending s"
  "placement_of (resets s) = placement_of s" "temp_of (resets s) = 240"
  by (simp_all add: resets_def placement_of_def temp_of_def reset_temps_def)

definition branch_code :: "PTXInstruction \<Rightarrow> AECInstruction \<Rightarrow> bool" where
  "branch_code i br \<longleftrightarrow> (case guard i of None \<Rightarrow> br = aec ''BR''
     | Some p \<Rightarrow> \<exists>n. predicate_number p = Inr n \<and>
         br = (aec ''BRX'')\<lparr>predicate := Some n, predicate_negated := guard_negated i\<rparr>)"

lemma lower_bra_code:
  assumes "lower_bra env k i s = Inr ((), s')" "map_of (item_guards (le_plan env)) k = None"
  shows "\<exists>l br. operands i = [l] \<and> branch_code i br \<and>
    s' = s\<lparr>ls_pending := ls_pending s @ [(length (ls_out s), l)], ls_out := ls_out s @ [br]\<rparr>"
proof -
  obtain l where l: "operands i = [l]"
    using assms(1) by (auto simp: lower_bra_def length_Suc_conv)
  obtain br where "branch_code i br" "s' = s\<lparr>ls_pending := ls_pending s @ [(length (ls_out s), l)], ls_out := ls_out s @ [br]\<rparr>"
    using assms(1) l
    by (auto simp: lower_bra_def add_pending_def emit_plain [OF assms(2)] branch_code_def split: option.splits if_splits)
  then show ?thesis using l by blast
qed

datatype item_code = AtLabel string | Plain PTXInstruction | Return PTXInstruction | Branch PTXInstruction string AECInstruction

text \<open>
  A relation between the reference semantics and a lane; the code of an item takes one relation to
  another. It sees at least the predicates and the memory, and does not see the counters.
\<close>

type_synonym lane_rel = "pstate \<Rightarrow> LaneState \<Rightarrow> sim_state \<Rightarrow> bool"

definition stands :: "lane_rel \<Rightarrow> bool" where
  "stands R \<longleftrightarrow> (\<forall>\<sigma> l t. R \<sigma> l t \<longrightarrow> simulates Map.empty \<sigma> l t) \<and>
     (\<forall>\<sigma> l t t'. R \<sigma> l t \<longrightarrow> same_world t t' \<longrightarrow> R \<sigma> l t')"

definition carries :: "float_host \<Rightarrow> lane_rel \<Rightarrow> lane_rel \<Rightarrow> ptx_env \<Rightarrow> (pstate \<Rightarrow> bool) \<Rightarrow> PTXInstruction
    \<Rightarrow> lower_state \<Rightarrow> lower_state \<Rightarrow> bool" where
  "carries h R R' E I i s s' \<longleftrightarrow> (\<exists>xs. extends s xs s' \<and>
     (\<forall>\<sigma> l t e. R \<sigma> l t \<longrightarrow> I \<sigma> \<longrightarrow> step_effect E i \<sigma> = Some e \<longrightarrow> \<not> is_flow e \<and>
       (\<exists>l' t'. run_steps (lane_step h) xs (l, t) = Some (l', t') \<and> R' (next_state e \<sigma>) l' t')))"

lemma implements_carries: "implements h M E I i s s' \<longleftrightarrow> carries h (simulates M) (simulates M) E I i s s'"
  by (simp add: implements_def carries_def)

lemma carries_reset: "carries h R R' E I i (resets s) s' \<Longrightarrow> carries h R R' E I i s s'"
  by (simp add: carries_def extends_def)

lemma simulates_less: "simulates M \<sigma> l t \<Longrightarrow> K \<subseteq>\<^sub>m M \<Longrightarrow> simulates K \<sigma> l t"
  by (force simp: simulates_def map_le_def)

lemma same_world_trans: "same_world s t \<Longrightarrow> same_world t u \<Longrightarrow> same_world s u"
  by (simp add: same_world_def)

lemma stands_simulates: "stands (simulates M)"
  unfolding stands_def using simulates_less [of M _ _ _ Map.empty] same_world_trans by (auto simp: simulates_def)

text \<open>What an item did to the state of the lowering.\<close>

definition coded :: "lane_rel \<Rightarrow> lane_rel \<Rightarrow> ptx_env \<Rightarrow> nat \<Rightarrow> item \<Rightarrow> lower_state \<Rightarrow> lower_state \<Rightarrow> item_code \<Rightarrow> bool" where
  "coded R R' E n it s s' c \<longleftrightarrow> (case c of
     AtLabel l \<Rightarrow> it = Label l \<and> s' = s\<lparr>ls_labels := AList.update l (int (length (ls_out s))) (ls_labels s)\<rparr>
   | Plain i \<Rightarrow> it = Inst i \<and> carries (env_host E) R R' E (\<lambda>\<sigma>. length (pmem (vmem \<sigma>)) = n) i s s'
   | Return i \<Rightarrow> it = Inst i \<and> opcode_base (inst_opcode i) = ''ret'' \<and> guard i = None \<and>
       s' = (resets s)\<lparr>ls_out := ls_out s @ [aec ''HALT'']\<rparr>
   | Branch i l br \<Rightarrow> it = Inst i \<and> opcode_base (inst_opcode i) = ''bra'' \<and> operands i = [l] \<and> branch_code i br \<and>
       canonical_guard i \<and>
       s' = (resets s)\<lparr>ls_pending := ls_pending s @ [(length (ls_out s), l)], ls_out := ls_out s @ [br]\<rparr>)"

lemma item_coded:
  assumes ok: "lowering_ok env E n P" "it \<in> set P" and low: "lower_item env (k, it) s = Inr s'"
    and plain: "\<And>i. it = Inst i \<Longrightarrow> opcode_base (inst_opcode i) \<notin> {''bra'', ''ret''} \<Longrightarrow>
      carries (env_host E) R R' E (\<lambda>\<sigma>. length (pmem (vmem \<sigma>)) = n) i s s'"
  shows "\<exists>c. coded R R' E n it s s' c"
proof (cases it)
  case (Label l)
  then show ?thesis using low by (intro exI [of _ "AtLabel l"]) (simp add: coded_def lower_item_def)
next
  case (Inst i)
  have plan: "map_of (item_guards (le_plan env)) k = None" and low_i: "lowerable i"
    using ok Inst by (auto simp: lowering_ok_def)
  have inst: "lower_instruction env k i (resets s) = Inr ((), s')"
    using low ok(1) Inst by (auto simp: lower_item_def lowering_ok_def resets_def)
  consider "opcode_base (inst_opcode i) = ''ret''" | "opcode_base (inst_opcode i) = ''bra''"
    | "opcode_base (inst_opcode i) \<notin> {''bra'', ''ret''}" by blast
  then show ?thesis
  proof cases
    case 1
    then have "guard i = None" using low_i by (simp add: lowerable_def drops_guard_def Let_def)
    moreover have "s' = (resets s)\<lparr>ls_out := ls_out s @ [aec ''HALT'']\<rparr>"
      using inst 1 by (simp add: lower_instruction_def Let_def emit_plain [OF plan])
    ultimately show ?thesis using 1 Inst by (intro exI [of _ "Return i"]) (simp add: coded_def)
  next
    case 2
    then have "lower_bra env k i (resets s) = Inr ((), s')" using inst by (simp add: lower_instruction_def Let_def)
    from lower_bra_code [OF this plan] obtain l br where "operands i = [l]" "branch_code i br"
      "s' = (resets s)\<lparr>ls_pending := ls_pending s @ [(length (ls_out s), l)], ls_out := ls_out s @ [br]\<rparr>" by auto
    moreover have "canonical_guard i" using low_i by (simp add: lowerable_def Let_def)
    ultimately show ?thesis using 2 Inst by (intro exI [of _ "Branch i l br"]) (simp add: coded_def)
  next
    case 3
    then show ?thesis using plain Inst by (intro exI [of _ "Plain i"]) (simp add: coded_def)
  qed
qed

text \<open>One placement for the whole program.\<close>

lemma item_carries:
  assumes ok: "lowering_ok env E n P" "Inst i \<in> set P" and low: "lower_item env (k, Inst i) s = Inr s'"
    and M: "apart_placement M" and fit: "fits M s'" and base: "opcode_base (inst_opcode i) \<notin> {''bra'', ''ret''}"
  shows "carries (env_host E) (simulates M) (simulates M) E (\<lambda>\<sigma>. length (pmem (vmem \<sigma>)) = n) i s s'"
proof -
  have plan: "map_of (item_guards (le_plan env)) k = None" and low_i: "lowerable i"
    and par: "drops_guard i \<Longrightarrow> param_fits (env_params E) n i"
    and prof: "map_of (special_registers (le_profile env)) \<subseteq>\<^sub>m map_of (special_registers TRACK_B_V1)"
    and off: "le_offsets env = env_params E"
    using ok by (auto simp: lowering_ok_def)
  have inst: "lower_instruction env k i (resets s) = Inr ((), s')"
    using low ok(1) by (auto simp: lower_item_def lowering_ok_def resets_def)
  have "implements (env_host E) M E (\<lambda>\<sigma>. length (pmem (vmem \<sigma>)) = n) i (resets s) s'"
    using lower_instruction_implements [OF inst base low_i plan M fit _ prof off refl par] by simp
  then show ?thesis unfolding implements_carries by (rule carries_reset)
qed

subsection \<open>The code of a list of items\<close>

text \<open>The output and the branches only grow; new branches lie in the new output.\<close>

definition ahead :: "lower_state \<Rightarrow> lower_state \<Rightarrow> bool" where
  "ahead s s' \<longleftrightarrow> (\<exists>xs. ls_out s' = ls_out s @ xs) \<and>
     (\<exists>ps. ls_pending s' = ls_pending s @ ps \<and> distinct (map fst ps) \<and>
        (\<forall>j \<in> set (map fst ps). length (ls_out s) \<le> j \<and> j < length (ls_out s'))) \<and>
     placement_of s \<subseteq>\<^sub>m placement_of s'"

lemma ahead_refl: "ahead s s"
  by (simp add: ahead_def)

lemma ahead_length: "ahead s s' \<Longrightarrow> length (ls_out s) \<le> length (ls_out s')"
  by (auto simp: ahead_def)

lemma ahead_trans:
  assumes "ahead s s1" "ahead s1 s2"
  shows "ahead s s2"
proof -
  obtain xs ps where 1: "ls_out s1 = ls_out s @ xs" "ls_pending s1 = ls_pending s @ ps" "distinct (map fst ps)"
    "\<forall>j \<in> set (map fst ps). length (ls_out s) \<le> j \<and> j < length (ls_out s1)" "placement_of s \<subseteq>\<^sub>m placement_of s1"
    using assms(1) unfolding ahead_def by blast
  obtain ys qs where 2: "ls_out s2 = ls_out s1 @ ys" "ls_pending s2 = ls_pending s1 @ qs" "distinct (map fst qs)"
    "\<forall>j \<in> set (map fst qs). length (ls_out s1) \<le> j \<and> j < length (ls_out s2)" "placement_of s1 \<subseteq>\<^sub>m placement_of s2"
    using assms(2) unfolding ahead_def by blast
  have "set (map fst ps) \<inter> set (map fst qs) = {}"
  proof (rule ccontr)
    assume "set (map fst ps) \<inter> set (map fst qs) \<noteq> {}"
    then obtain j where "j \<in> set (map fst ps)" "j \<in> set (map fst qs)" by blast
    then show False using 1(4) 2(4) by fastforce
  qed
  then have "distinct (map fst (ps @ qs))" using 1(3) 2(3) by simp
  moreover have "\<forall>j \<in> set (map fst (ps @ qs)). length (ls_out s) \<le> j \<and> j < length (ls_out s2)"
  proof
    fix j assume "j \<in> set (map fst (ps @ qs))"
    then have "j \<in> set (map fst ps) \<or> j \<in> set (map fst qs)" by simp
    then show "length (ls_out s) \<le> j \<and> j < length (ls_out s2)" using 1(1,4) 2(1,4) by fastforce
  qed
  moreover have "ls_pending s2 = ls_pending s @ (ps @ qs)" using 1(2) 2(2) by simp
  moreover have "ls_out s2 = ls_out s @ (xs @ ys)" using 1(1) 2(1) by simp
  ultimately show ?thesis using map_le_trans [OF 1(5) 2(5)] unfolding ahead_def by blast
qed

lemma coded_ahead: "coded R R' E n it s s' c \<Longrightarrow> ahead s s'"
  by (cases c) (auto simp: coded_def ahead_def carries_def extends_def placement_of_def resets_def reset_temps_def)

lemma fits_ahead: "ahead s s' \<Longrightarrow> fits M s' \<Longrightarrow> fits M s"
  unfolding ahead_def fits_def by (blast intro: map_le_trans)

text \<open>
  A family of relations, one for each position of the program, that the code of every item respects:
  a label and a branch that falls through pass the relation on, a branch taken gives the relation of
  its label, and the code of any other instruction carries it over the effect.
\<close>

definition code_relation :: "lower_env \<Rightarrow> ptx_env \<Rightarrow> nat \<Rightarrow> item list \<Rightarrow> lower_state \<Rightarrow> lower_state
    \<Rightarrow> (nat \<Rightarrow> lane_rel) \<Rightarrow> bool" where
  "code_relation env E n P s0 sN R \<longleftrightarrow> (\<forall>k. stands (R k)) \<and>
     (\<forall>pre lb its. P = pre @ Label lb # its \<longrightarrow> R (length pre) \<le> R (Suc (length pre))) \<and>
     (\<forall>pre i its. P = pre @ Inst i # its \<longrightarrow> opcode_base (inst_opcode i) = ''bra'' \<longrightarrow>
        R (length pre) \<le> R (Suc (length pre)) \<and>
        (\<forall>lb pre' its'. operands i = [lb] \<longrightarrow> P = pre' @ Label lb # its' \<longrightarrow> R (length pre) \<le> R (length pre'))) \<and>
     (\<forall>pre i its s s'. P = pre @ Inst i # its \<longrightarrow> opcode_base (inst_opcode i) \<notin> {''bra'', ''ret''} \<longrightarrow>
        fold_r (lower_item env) (enumerate 0 pre) s0 = Inr s \<longrightarrow> lower_item env (length pre, Inst i) s = Inr s' \<longrightarrow>
        ahead s' sN \<longrightarrow>
        carries (env_host E) (R (length pre)) (R (Suc (length pre))) E (\<lambda>\<sigma>. length (pmem (vmem \<sigma>)) = n) i s s')"

lemma relation_stands: "code_relation env E n P s0 sN R \<Longrightarrow> stands (R k)"
  by (simp add: code_relation_def)

lemma relation_code:
  assumes "lowering_ok env E n P" "code_relation env E n P s0 sN R" "P = pre @ it # its"
    and "fold_r (lower_item env) (enumerate 0 pre) s0 = Inr s" "lower_item env (length pre, it) s = Inr s'" "ahead s' sN"
  shows "\<exists>c. coded (R (length pre)) (R (Suc (length pre))) E n it s s' c"
proof (rule item_coded [OF assms(1) _ assms(5)])
  show "it \<in> set P" using assms(3) by simp
  fix i assume "it = Inst i" "opcode_base (inst_opcode i) \<notin> {''bra'', ''ret''}"
  then show "carries (env_host E) (R (length pre)) (R (Suc (length pre))) E (\<lambda>\<sigma>. length (pmem (vmem \<sigma>)) = n) i s s'"
    using assms(2-6) unfolding code_relation_def by blast
qed

text \<open>The items between two positions: the state only grows, and a label is where its item was.\<close>

lemma items_ahead:
  assumes ok: "lowering_ok env E n P" and rel: "code_relation env E n P s0 sN R"
  shows "P = pre @ its @ post \<Longrightarrow> fold_r (lower_item env) (enumerate 0 pre) s0 = Inr s \<Longrightarrow>
    fold_r (lower_item env) (enumerate (length pre) its) s = Inr s' \<Longrightarrow> ahead s' sN \<Longrightarrow>
    ahead s s' \<and> (\<forall>l. l \<notin> set (labels_in its) \<longrightarrow> map_of (ls_labels s') l = map_of (ls_labels s) l)"
proof (induction its arbitrary: pre s)
  case (Cons it its)
  then obtain s1 where s1: "lower_item env (length pre, it) s = Inr s1"
    "fold_r (lower_item env) (enumerate (length (pre @ [it])) its) s1 = Inr s'" by auto
  have pre1: "fold_r (lower_item env) (enumerate 0 (pre @ [it])) s0 = Inr s1"
    using Cons.prems(2) s1(1) by (simp add: enumerate_append_eq fold_r_append)
  have IH: "ahead s1 s'" "l \<notin> set (labels_in its) \<Longrightarrow> map_of (ls_labels s') l = map_of (ls_labels s1) l" for l
    using Cons.IH [OF _ pre1 s1(2) Cons.prems(4)] Cons.prems(1) by simp_all
  obtain c where c: "coded (R (length pre)) (R (Suc (length pre))) E n it s s1 c"
    using relation_code [OF ok rel _ Cons.prems(2) s1(1) ahead_trans [OF IH(1) Cons.prems(4)]] Cons.prems(1) by auto
  have "map_of (ls_labels s') l = map_of (ls_labels s) l" if "l \<notin> set (labels_in (it # its))" for l
  proof -
    have "l \<notin> set (labels_in its)" using that by (cases it) simp_all
    then have "map_of (ls_labels s') l = map_of (ls_labels s1) l" by (rule IH(2))
    also have "\<dots> = map_of (ls_labels s) l"
      using c that by (cases c) (auto simp: coded_def carries_def extends_def update_conv')
    finally show ?thesis .
  qed
  then show ?case using ahead_trans [OF coded_ahead [OF c] IH(1)] by blast
qed (simp add: ahead_refl)

subsection \<open>Patching the branches\<close>

lemma patched:
  assumes "fold_r (patch_branch labels) ps out = Inr out'" "distinct (map fst ps)" "\<forall>j \<in> set (map fst ps). j < length out"
  shows "length out' = length out \<and> (\<forall>j. j \<notin> set (map fst ps) \<longrightarrow> out' ! j = out ! j) \<and>
    (\<forall>(j, l) \<in> set ps. \<exists>t. map_of labels l = Some t \<and> out' ! j = (out ! j)\<lparr>imm := t\<rparr>)"
  using assms
proof (induction ps arbitrary: out)
  case (Cons p ps)
  obtain j l where p: "p = (j, l)" by (cases p)
  obtain t where t: "map_of labels l = Some t" and
    rest: "fold_r (patch_branch labels) ps (out[j := (out ! j)\<lparr>imm := t\<rparr>]) = Inr out'"
    using Cons.prems(1) by (auto simp: p patch_branch_def [of labels "(j, l)" out] split: option.splits)
  have j: "j < length out" "j \<notin> set (map fst ps)" using Cons.prems(2,3) by (auto simp: p)
  have "\<forall>k \<in> set (map fst ps). k < length (out[j := (out ! j)\<lparr>imm := t\<rparr>])" "distinct (map fst ps)"
    using Cons.prems(2,3) by auto
  note IH = Cons.IH [OF rest this(2,1)]
  have "out' ! j = (out ! j)\<lparr>imm := t\<rparr>" using IH j by simp
  moreover have "\<exists>t. map_of labels l' = Some t \<and> out' ! k = (out ! k)\<lparr>imm := t\<rparr>" if "(k, l') \<in> set ps" for k l'
  proof -
    have "k \<noteq> j" using that j(2) by force
    then show ?thesis using IH that by fastforce
  qed
  ultimately show ?case using IH j t by (auto simp: p)
qed simp

subsection \<open>The program\<close>

text \<open>What the patched code has where an item's code lies.\<close>

lemma code_slice:
  assumes "fold_r (patch_branch (ls_labels sN)) (ls_pending sN) (ls_out sN) = Inr OUT"
    and "ahead s0 s" "ls_pending s0 = []" "ls_out s' = ls_out s @ xs" "ls_pending s' = ls_pending s" "ahead s' sN"
    and total: "ahead s0 sN"
  shows "\<exists>Q. OUT = take (length (ls_out s)) OUT @ xs @ Q"
proof -
  obtain ps where ps: "ls_pending s = ps" "distinct (map fst ps)" "\<forall>j \<in> set (map fst ps). j < length (ls_out s)"
    using assms(2,3) by (auto simp: ahead_def)
  obtain zs qs where z: "ls_out sN = ls_out s' @ zs" "ls_pending sN = ls_pending s' @ qs" "distinct (map fst qs)"
    "\<forall>j \<in> set (map fst qs). length (ls_out s') \<le> j \<and> j < length (ls_out sN)"
    using assms(6) by (auto simp: ahead_def)
  have all: "distinct (map fst (ls_pending sN)) \<and> (\<forall>j \<in> set (map fst (ls_pending sN)). j < length (ls_out sN))"
    using total assms(3) by (auto simp: ahead_def)
  note pt = patched [OF assms(1) conjunct1 [OF all] conjunct2 [OF all]]
  have "OUT ! j = ls_out sN ! j" if "length (ls_out s) \<le> j" "j < length (ls_out s')" for j
  proof -
    have "j \<notin> set (map fst (ls_pending sN))" using ps z assms(5) that by fastforce
    then show ?thesis using pt by blast
  qed
  then have "take (length xs) (drop (length (ls_out s)) OUT) = xs"
    using pt z(1) assms(4) by (intro nth_equalityI) (auto simp: nth_append)
  then show ?thesis by (metis append_take_drop_id)
qed

text \<open>The branch of a \<^verbatim>\<open>bra\<close>, with its target.\<close>

lemma code_branch:
  assumes "fold_r (patch_branch (ls_labels sN)) (ls_pending sN) (ls_out sN) = Inr OUT" and "ls_pending s0 = []"
    and "ls_out s' = ls_out s @ [br]" "ls_pending s' = ls_pending s @ [(length (ls_out s), tgt)]" "ahead s' sN"
    and total: "ahead s0 sN"
  shows "\<exists>pos. map_of (ls_labels sN) tgt = Some pos \<and> length (ls_out s) < length OUT \<and>
    OUT ! length (ls_out s) = br\<lparr>imm := pos\<rparr>"
proof -
  have all: "distinct (map fst (ls_pending sN)) \<and> (\<forall>j \<in> set (map fst (ls_pending sN)). j < length (ls_out sN))"
    using total assms(2) by (auto simp: ahead_def)
  note pt = patched [OF assms(1) conjunct1 [OF all] conjunct2 [OF all]]
  obtain zs qs where z: "ls_out sN = ls_out s' @ zs" "ls_pending sN = ls_pending s' @ qs"
    using assms(5) by (auto simp: ahead_def)
  have "(length (ls_out s), tgt) \<in> set (ls_pending sN)" using z assms(4) by simp
  then obtain pos where "map_of (ls_labels sN) tgt = Some pos"
    "OUT ! length (ls_out s) = (ls_out sN ! length (ls_out s))\<lparr>imm := pos\<rparr>" using pt by fastforce
  then show ?thesis using pt z assms(3) by (simp add: nth_append)
qed

lemma step_pmem:
  assumes "step_effect E i \<sigma> = Some e"
  shows "pmem (vmem (next_state e \<sigma>)) = pmem (vmem \<sigma>)"
proof (cases "guard_holds i \<sigma>")
  case True
  then have e: "inst_effect E i \<sigma> = Some e" using assms by (simp add: step_effect_def)
  have ld: "load_word \<sigma> sp addr = Some (v, s) \<Longrightarrow> pmem s = pmem (vmem \<sigma>)" for sp addr v s
    by (auto simp: load_word_def record_access_def)
  have st: "store_word \<sigma> addr v = Some s \<Longrightarrow> pmem s = pmem (vmem \<sigma>)" for addr v s
    by (auto simp: store_word_def record_access_def result_option_def sim_write_def sim_memory_def Let_def split: if_splits)
  consider "opcode_base (inst_opcode i) \<in> {''bra'', ''ret''}" | "opcode_base (inst_opcode i) = ''mov''"
    | "opcode_base (inst_opcode i) = ''ld''" | "opcode_base (inst_opcode i) = ''st''"
    | "opcode_base (inst_opcode i) = ''setp''" | "opcode_base (inst_opcode i) \<in> alu_bases"
    using effect_bases [OF e] by blast
  then show ?thesis
  proof cases
    case 1
    then show ?thesis using e unfolding inst_effect_def Let_def opcode_base_hd by (auto split: list.splits)
  next
    case 2
    then show ?thesis using effect_mov [OF e] by (auto simp: set_reg_v_def)
  next
    case 3
    then show ?thesis using effect_ld [OF e] ld by (auto simp: set_reg_v_def)
  next
    case 4
    then show ?thesis using effect_st [OF e] st by auto
  next
    case 5
    then show ?thesis using effect_setp [OF e] by auto
  next
    case 6
    then show ?thesis using effect_alu [OF e] by (auto simp: set_reg_v_def)
  qed
next
  case False
  then show ?thesis using assms by (auto simp: step_effect_def)
qed

lemma after_label_split:
  "after_label l P = it # its \<Longrightarrow> it = Label l \<and> (\<exists>pre. P = pre @ Label l # its)"
proof (induction P)
  case (Cons x P)
  then show ?case by (cases "x = Label l") (auto intro: exI [of _ "x # _"] dest: Cons_eq_appendI)
qed simp

lemma fold_items_split:
  assumes "fold_r (lower_item env) (enumerate 0 (pre @ its)) s0 = Inr sN"
  shows "\<exists>s. fold_r (lower_item env) (enumerate 0 pre) s0 = Inr s \<and>
    fold_r (lower_item env) (enumerate (length pre) its) s = Inr sN"
  using assms by (auto simp: enumerate_append_eq fold_r_append)

text \<open>One branch instruction of the simulator, on one lane.\<close>

lemma run_branch:
  assumes "branch_code i br" "canonical_guard i" "simulates M \<sigma> l t"
    and "pc < length prog" "prog ! pc = br\<lparr>imm := pos\<rparr>"
  shows "\<exists>t'. (\<forall>fuel. run_warp_loop h prog (Suc fuel) (int pc) [l] t =
      run_warp_loop h prog fuel (if guard_holds i \<sigma> then pos else int pc + 1) [l] t') \<and> same_world t t'"
proof (cases "guard i")
  case None
  then have "br = aec ''BR''" "guard_holds i \<sigma>" using assms(1) by (simp_all add: branch_code_def guard_holds_def)
  then have "run_warp_loop h prog (Suc fuel) (int pc) [l] t =
      run_warp_loop h prog fuel (if guard_holds i \<sigma> then pos else int pc + 1) [l] (bump t)" for fuel
    using assms(4,5) by (subst run_warp_loop.simps) (simp add: aec_def Let_def bump_def)
  then show ?thesis by (intro exI [of _ "bump t"]) (simp add: same_world_def)
next
  case (Some p)
  then obtain n where n: "n < 8" "guard_register p = PRED_NAMES ! n"
    using assms(2) by (auto simp: canonical_guard_def in_set_conv_nth)
  then have br: "br = (aec ''BRX'')\<lparr>predicate := Some (int n), predicate_negated := guard_negated i\<rparr>"
    using assms(1) Some predicate_number_canonical [OF n] by (auto simp: branch_code_def)
  have gp: "get_pred l (int n) = Inr (vpreds \<sigma> (PRED_NAMES ! n))"
    using assms(3) n(1) by (simp add: get_pred_def py_get_def py_index_nonneg simulates_def lane_ok_def)
  let ?d = "if guard_negated i then \<not> vpreds \<sigma> (PRED_NAMES ! n) else vpreds \<sigma> (PRED_NAMES ! n)"
  have d: "guard_holds i \<sigma> = ?d" using Some n(2) by (auto simp: guard_holds_def)
  obtain t' where t': "branchx_next_pc (br\<lparr>imm := pos\<rparr>) [l] (int pc) (bump t) = Inr (if ?d then pos else int pc + 1, t')"
    "same_world (bump t) t'"
    using gp by (auto simp: branchx_next_pc_def br aec_def Let_def same_world_def)
  have "run_warp_loop h prog (Suc fuel) (int pc) [l] t =
      run_warp_loop h prog fuel (if guard_holds i \<sigma> then pos else int pc + 1) [l] t'" for fuel
    using assms(4,5) t'(1) d by (subst run_warp_loop.simps) (simp add: br aec_def Let_def bump_def)
  moreover have "same_world t t'" using t'(2) by (auto simp: same_world_def)
  ultimately show ?thesis by blast
qed

text \<open>The simulator ends normally from a position, in a state that stands for \<open>\<sigma>\<close>.\<close>

definition ends :: "float_host \<Rightarrow> AECInstruction list \<Rightarrow> pstate \<Rightarrow> int \<Rightarrow> LaneState \<Rightarrow> sim_state \<Rightarrow> bool" where
  "ends h prog \<sigma> pc l t \<longleftrightarrow> (\<exists>N l' t'. (\<forall>fuel \<ge> N. run_warp_loop h prog fuel pc [l] t = Inr ([l'], t')) \<and>
     simulates Map.empty \<sigma> l' t')"

lemma ends_straight:
  assumes "ends h prog \<sigma> (int (pc + length xs)) l1 t1" "run_steps (lane_step h) xs (l, t) = Some (l1, t1)"
    and "prog = take pc prog @ xs @ Q" "pc \<le> length prog"
  shows "ends h prog \<sigma> (int pc) l t"
proof -
  obtain N l' t' where N: "\<And>fuel. fuel \<ge> N \<Longrightarrow> run_warp_loop h prog fuel (int (pc + length xs)) [l1] t1 = Inr ([l'], t')"
    and "simulates Map.empty \<sigma> l' t'" using assms(1) unfolding ends_def by blast
  moreover have "run_warp_loop h prog fuel (int pc) [l] t = Inr ([l'], t')" if "fuel \<ge> N + length xs" for fuel
    using run_straight_conv [OF assms(3) _ run_steps_single [OF assms(2)], of fuel] that N [of "fuel - length xs"] assms(4)
    by simp
  ultimately show ?thesis unfolding ends_def by blast
qed

lemma ends_halt:
  assumes "pc < length prog" "prog ! pc = aec ''HALT''" "simulates Map.empty \<sigma> l t"
  shows "ends h prog \<sigma> (int pc) l t"
proof -
  have "run_warp_loop h prog fuel (int pc) [l] t = Inr ([l], bump t)" if "fuel \<ge> 1" for fuel
    using that assms(1,2) by (cases fuel) (simp_all add: run_warp_loop.simps aec_def Let_def bump_def)
  moreover have "simulates Map.empty \<sigma> l (bump t)" using assms(3) by simp
  ultimately show ?thesis unfolding ends_def by blast
qed

lemma ends_branch:
  assumes "branch_code i br" "canonical_guard i" "simulates Map.empty \<sigma> l t" "pc < length prog" "prog ! pc = br\<lparr>imm := pos\<rparr>"
    and "\<And>t'. same_world t t' \<Longrightarrow> ends h prog \<sigma>' (if guard_holds i \<sigma> then pos else int pc + 1) l t'"
  shows "ends h prog \<sigma>' (int pc) l t"
proof -
  obtain t1 where t1: "\<And>fuel. run_warp_loop h prog (Suc fuel) (int pc) [l] t =
      run_warp_loop h prog fuel (if guard_holds i \<sigma> then pos else int pc + 1) [l] t1" "same_world t t1"
    using run_branch [OF assms(1-5), of h] by blast
  obtain N l' t' where N: "\<And>fuel. fuel \<ge> N \<Longrightarrow>
      run_warp_loop h prog fuel (if guard_holds i \<sigma> then pos else int pc + 1) [l] t1 = Inr ([l'], t')"
    and "simulates Map.empty \<sigma>' l' t'" using assms(6) [OF t1(2)] unfolding ends_def by blast
  moreover have "run_warp_loop h prog fuel (int pc) [l] t = Inr ([l'], t')" if "fuel \<ge> Suc N" for fuel
    using that t1(1) N by (cases fuel) simp_all
  ultimately show ?thesis unfolding ends_def by blast
qed

text \<open>
  The simulation: from the items behind a prefix, and the code behind the prefix's code, the
  simulator ends in a state that stands for the one the reference semantics ends in.
\<close>

lemma simulation_run:
  assumes ok: "lowering_ok env E n P" and all: "fold_r (lower_item env) (enumerate 0 P) s0 = Inr sN"
    and s0: "ls_pending s0 = []"
    and out: "fold_r (patch_branch (ls_labels sN)) (ls_pending sN) (ls_out sN) = Inr OUT"
    and rel: "code_relation env E n P s0 sN R"
  shows "P = pre @ its \<Longrightarrow> fold_r (lower_item env) (enumerate 0 pre) s0 = Inr s \<Longrightarrow>
    fold_r (lower_item env) (enumerate (length pre) its) s = Inr sN \<Longrightarrow> R (length pre) \<sigma> l t \<Longrightarrow>
    length (pmem (vmem \<sigma>)) = n \<Longrightarrow> ptx_run E P m its \<sigma> = Some \<sigma>' \<Longrightarrow>
    ends (env_host E) OUT \<sigma>' (int (length (ls_out s))) l t"
proof (induction m arbitrary: pre its s \<sigma> l t)
  case (Suc m)
  obtain it rest where its: "its = it # rest" using Suc.prems(6) by (cases its) auto
  obtain s1 where s1: "lower_item env (length pre, it) s = Inr s1"
    and rest: "fold_r (lower_item env) (enumerate (length (pre @ [it])) rest) s1 = Inr sN"
    using Suc.prems(3) by (auto simp: its)
  have pre1: "fold_r (lower_item env) (enumerate 0 (pre @ [it])) s0 = Inr s1"
    using Suc.prems(2) s1 by (simp add: enumerate_append_eq fold_r_append)
  have P1: "P = pre @ it # rest" "P = (pre @ [it]) @ rest @ []" using Suc.prems(1) its by simp_all
  have st: "\<And>k \<sigma> l t. R k \<sigma> l t \<Longrightarrow> simulates Map.empty \<sigma> l t" "\<And>k \<sigma> l t t'. R k \<sigma> l t \<Longrightarrow> same_world t t' \<Longrightarrow> R k \<sigma> l t'"
    using relation_stands [OF rel] unfolding stands_def by blast+
  have a1: "ahead s1 sN" using items_ahead [OF ok rel P1(2) pre1 rest ahead_refl] by blast
  have total: "ahead s0 sN" using items_ahead [OF ok rel, of "[]" P "[]" s0 sN] all by (simp add: ahead_refl)
  obtain c where c: "coded (R (length pre)) (R (Suc (length pre))) E n it s s1 c"
    using relation_code [OF ok rel P1(1) Suc.prems(2) s1 a1] by blast
  have a0: "ahead s0 s"
    using items_ahead [OF ok rel, of "[]" pre "it # rest" s0 s] Suc.prems(2) P1(1) ahead_trans [OF coded_ahead [OF c] a1] by simp
  have "length OUT = length (ls_out sN)"
    using patched [OF out] total s0 by (auto simp: ahead_def)
  moreover have "length (ls_out s) \<le> length (ls_out s1)" "length (ls_out s1) \<le> length (ls_out sN)"
    using ahead_length [OF coded_ahead [OF c]] ahead_length [OF a1] by simp_all
  ultimately have len: "length (ls_out s1) \<le> length OUT" "length (ls_out s) \<le> length OUT" by simp_all
  have go: "ends (env_host E) OUT \<sigma>' (int (length (ls_out s1))) l' t'"
    if "R (Suc (length pre)) \<tau> l' t'" "length (pmem (vmem \<tau>)) = n" "ptx_run E P m rest \<tau> = Some \<sigma>'" for \<tau> l' t'
    using Suc.IH [of "pre @ [it]" rest s1 \<tau> l' t'] P1 pre1 rest that by simp
  show ?case
  proof (cases c)
    case (AtLabel lb)
    then have it: "it = Label lb" "ls_out s1 = ls_out s" and run: "ptx_run E P m rest \<sigma> = Some \<sigma>'"
      using c Suc.prems(6) its by (auto simp: coded_def)
    have "R (length pre) \<le> R (Suc (length pre))" using rel P1(1) it(1) unfolding code_relation_def by blast
    then have "R (Suc (length pre)) \<sigma> l t" using Suc.prems(4) by (auto simp: le_fun_def)
    then show ?thesis using go [OF _ Suc.prems(5) run] it(2) by simp
  next
    case (Plain i)
    then have it: "it = Inst i"
      and car: "carries (env_host E) (R (length pre)) (R (Suc (length pre))) E (\<lambda>\<sigma>. length (pmem (vmem \<sigma>)) = n) i s s1"
      using c by (simp_all add: coded_def)
    obtain e where e: "step_effect E i \<sigma> = Some e"
      using Suc.prems(6) its it by (auto simp: ptx_run_Inst split: option.splits)
    obtain xs l1 t1 where xs: "extends s xs s1" and nf: "\<not> is_flow e"
      and r1: "run_steps (lane_step (env_host E)) xs (l, t) = Some (l1, t1)" and sim1: "R (Suc (length pre)) (next_state e \<sigma>) l1 t1"
      using car Suc.prems(4,5) e unfolding carries_def by blast
    have "ptx_run E P m rest (next_state e \<sigma>) = Some \<sigma>'" using Suc.prems(6) its it e nf by (simp add: ptx_run_Inst)
    then have "ends (env_host E) OUT \<sigma>' (int (length (ls_out s) + length xs)) l1 t1"
      using go [OF sim1] step_pmem [OF e] Suc.prems(5) xs by (simp add: extends_def)
    moreover obtain Q where "OUT = take (length (ls_out s)) OUT @ xs @ Q"
      using code_slice [OF out a0 s0 _ _ a1 total] xs by (auto simp: extends_def)
    ultimately show ?thesis using ends_straight [OF _ r1] len by simp
  next
    case (Return i)
    then have it: "it = Inst i" "opcode_base (inst_opcode i) = ''ret''" "guard i = None"
      "ls_out s1 = ls_out s @ [aec ''HALT'']" "ls_pending s1 = ls_pending s"
      using c by (simp_all add: coded_def)
    then have "step_effect E i \<sigma> = Some Exit"
      by (simp add: step_effect_def guard_holds_def inst_effect_def Let_def)
    then have fin: "\<sigma>' = \<sigma>" using Suc.prems(6) its it(1) by (simp add: ptx_run_Inst is_flow_def)
    obtain Q where Q: "OUT = take (length (ls_out s)) OUT @ [aec ''HALT''] @ Q"
      using code_slice [OF out a0 s0 it(4,5) a1 total] by blast
    have pc: "length (ls_out s) < length OUT" using len it(4) by simp
    then have "OUT ! length (ls_out s) = aec ''HALT''" by (subst Q) (simp add: nth_append)
    then show ?thesis using ends_halt [OF pc] st(1) [OF Suc.prems(4)] fin by simp
  next
    case (Branch i lb br)
    then have it: "it = Inst i" "opcode_base (inst_opcode i) = ''bra''" "operands i = [lb]" "branch_code i br"
      "canonical_guard i" "ls_out s1 = ls_out s @ [br]" "ls_pending s1 = ls_pending s @ [(length (ls_out s), lb)]"
      using c by (simp_all add: coded_def)
    have R: "R (length pre) \<le> R (Suc (length pre))" "P = pre' @ Label lb # its' \<Longrightarrow> R (length pre) \<le> R (length pre')" for pre' its'
      using rel P1(1) it(1-3) unfolding code_relation_def by blast+
    obtain pos where pos: "map_of (ls_labels sN) lb = Some pos" "length (ls_out s) < length OUT"
      "OUT ! length (ls_out s) = br\<lparr>imm := pos\<rparr>"
      using code_branch [OF out s0 it(6,7) a1 total] by blast
    show ?thesis
    proof (rule ends_branch [OF it(4,5) st(1) [OF Suc.prems(4)] pos(2,3)])
      fix t' assume "same_world t t'"
      then have sim1: "R (length pre) \<sigma> l t'" by (rule st(2) [OF Suc.prems(4)])
      show "ends (env_host E) OUT \<sigma>' (if guard_holds i \<sigma> then pos else int (length (ls_out s)) + 1) l t'"
      proof (cases "guard_holds i \<sigma>")
        case False
        then have "step_effect E i \<sigma> = Some Skip" by (simp add: step_effect_def)
        then have "ptx_run E P m rest \<sigma> = Some \<sigma>'" using Suc.prems(6) its it(1) by (simp add: ptx_run_Inst is_flow_def)
        moreover have "R (Suc (length pre)) \<sigma> l t'" using R(1) sim1 by (auto simp: le_fun_def)
        ultimately show ?thesis using go [OF _ Suc.prems(5)] it(6) False by (simp add: add.commute)
      next
        case True
        then have "step_effect E i \<sigma> = Some (Goto lb)"
          using it(2,3) by (simp add: step_effect_def inst_effect_def Let_def)
        then have jmp: "ptx_run E P m (after_label lb P) \<sigma> = Some \<sigma>'"
          using Suc.prems(6) its it(1) by (simp add: ptx_run_Inst is_flow_def)
        then obtain it' its' where al: "after_label lb P = it' # its'" by (cases "after_label lb P") auto
        obtain pre' where P': "P = pre' @ Label lb # its'" and it': "it' = Label lb"
          using after_label_split [OF al] by blast
        obtain s2 where s2: "fold_r (lower_item env) (enumerate 0 pre') s0 = Inr s2"
          "fold_r (lower_item env) (enumerate (length pre') (Label lb # its')) s2 = Inr sN"
          using fold_items_split all unfolding P' by blast
        obtain s3 where s3: "lower_item env (length pre', Label lb) s2 = Inr s3"
          "fold_r (lower_item env) (enumerate (length (pre' @ [Label lb])) its') s3 = Inr sN" using s2(2) by auto
        have pre3: "fold_r (lower_item env) (enumerate 0 (pre' @ [Label lb])) s0 = Inr s3"
          using s2(1) s3(1) by (simp add: enumerate_append_eq fold_r_append)
        have "lb \<notin> set (labels_in its')" using ok P' by (auto simp: lowering_ok_def)
        then have "map_of (ls_labels sN) lb = map_of (ls_labels s3) lb"
          using items_ahead [OF ok rel, of "pre' @ [Label lb]" its' "[]" s3 sN] P' pre3 s3(2) by (simp add: ahead_refl)
        also have "\<dots> = Some (int (length (ls_out s2)))" using s3(1) by (auto simp: lower_item_def update_conv')
        finally have "map_of (ls_labels sN) lb = Some (int (length (ls_out s2)))" .
        moreover have "R (length pre') \<sigma> l t'" using R(2) [OF P'] sim1 by (auto simp: le_fun_def)
        ultimately show ?thesis using Suc.IH [OF P' s2 _ Suc.prems(5)] jmp al it' True pos(1) by simp
      qed
    qed
  qed
qed simp

subsection \<open>One placement throughout\<close>

lemma fixed_relation:
  assumes ok: "lowering_ok env E n P" and M: "apart_placement M" "fits M sN"
  shows "code_relation env E n P s0 sN (\<lambda>_. simulates M)"
proof -
  have "carries (env_host E) (simulates M) (simulates M) E (\<lambda>\<sigma>. length (pmem (vmem \<sigma>)) = n) i s s'"
    if "P = pre @ Inst i # its" "opcode_base (inst_opcode i) \<notin> {''bra'', ''ret''}"
      "lower_item env (length pre, Inst i) s = Inr s'" "ahead s' sN" for pre i its s s'
    using item_carries [OF ok _ that(3) M(1) fits_ahead [OF that(4) M(2)] that(2)] that(1) by simp
  then show ?thesis unfolding code_relation_def using stands_simulates by auto
qed

end
