(* ===== verification/Lower_Correct.thy ===== *)
theory Lower_Correct
  imports Lower_Proofs Pass_Limits
begin

unbundle bit_operations_syntax

text \<open>
  The correctness of the lowering. Threads that run one after the other, which is how the
  simulator executes warps of one lane, are the reference semantics run thread by thread on the
  memory the previous one left.
\<close>

subsection \<open>Threads of the reference semantics\<close>

definition thread_start :: "LaneState \<Rightarrow> sim_state \<Rightarrow> pstate" where
  "thread_start l s = \<lparr>vregs = (\<lambda>_. 0), vpreds = (\<lambda>_. False), vlane = l, vmem = s\<rparr>"

definition ptx_thread :: "ptx_env \<Rightarrow> PTXProgram \<Rightarrow> nat \<Rightarrow> LaneState \<Rightarrow> sim_state \<Rightarrow> sim_state option" where
  "ptx_thread E p n l s = map_option vmem (run_program E p n (thread_start l s))"

fun ptx_threads :: "ptx_env \<Rightarrow> PTXProgram \<Rightarrow> nat \<Rightarrow> LaneState list \<Rightarrow> sim_state \<Rightarrow> sim_state option" where
  "ptx_threads E p n [] s = Some s"
| "ptx_threads E p n (l # ls) s = Option.bind (ptx_thread E p n l s) (ptx_threads E p n ls)"

text \<open>The threads of a grid, in the order the simulator runs warps of one lane.\<close>

definition grid_lanes :: "dim3 \<Rightarrow> dim3 \<Rightarrow> int \<Rightarrow> LaneState list" where
  "grid_lanes bd gd ws = map (\<lambda>(b, t). new_lane b t bd gd ws)
     (List.product (map int [0..<nat (dim_count gd)]) (map int [0..<nat (dim_count bd)]))"

definition ptx_grid :: "ptx_env \<Rightarrow> PTXProgram \<Rightarrow> nat \<Rightarrow> dim3 \<Rightarrow> dim3 \<Rightarrow> int \<Rightarrow> sim_state \<Rightarrow> sim_state option" where
  "ptx_grid E p n bd gd ws s = ptx_threads E p n (grid_lanes bd gd ws) s"

lemma ptx_run_pmem: "ptx_run E P n its \<sigma> = Some \<sigma>' \<Longrightarrow> pmem (vmem \<sigma>') = pmem (vmem \<sigma>)"
proof (induction n arbitrary: its \<sigma>)
  case (Suc n)
  obtain it rest where its: "its = it # rest" using Suc.prems by (cases its) auto
  show ?case
  proof (cases it)
    case (Label l)
    then show ?thesis using Suc its by simp
  next
    case (Inst i)
    obtain e where e: "step_effect E i \<sigma> = Some e"
      using Suc.prems its Inst by (auto simp: ptx_run_Inst split: option.splits)
    have "(\<exists>l. e = Goto l \<and> ptx_run E P n (after_label l P) \<sigma> = Some \<sigma>') \<or> (e = Exit \<and> \<sigma>' = \<sigma>) \<or>
        ptx_run E P n rest (next_state e \<sigma>) = Some \<sigma>'"
      using Suc.prems its Inst e by (cases e) (simp_all add: ptx_run_Inst is_flow_def)
    then show ?thesis using Suc.IH step_pmem [OF e] by fastforce
  qed
qed simp

subsection \<open>What is asked of the program, as a check\<close>

definition lowerable_program :: "ISAProfile \<Rightarrow> nat \<Rightarrow> PTXProgram \<Rightarrow> bool" where
  "lowerable_program prof n p = (case new_lower_env p prof of
     Inl _ \<Rightarrow> False
   | Inr env \<Rightarrow> skip_items (le_plan env) = [] \<and> item_guards (le_plan env) = [] \<and> distinct (labels_in (items p)) \<and>
       list_all (\<lambda>it. case it of Label _ \<Rightarrow> True
         | Inst i \<Rightarrow> lowerable i \<and> (if drops_guard i then param_fits (le_offsets env) n i else True)) (items p))"

lemma c1_specials:
  "list_all (\<lambda>(k, v). map_of (special_registers TRACK_B_V1) k = Some v) (special_registers C1_DEFAULT)"
  by code_simp

lemma profile_specials:
  assumes "prof \<in> {C1_DEFAULT, TRACK_B_V1}"
  shows "map_of (special_registers prof) \<subseteq>\<^sub>m map_of (special_registers TRACK_B_V1)"
proof (cases "prof = TRACK_B_V1")
  case False
  then have "prof = C1_DEFAULT" using assms by simp
  have "map_of (special_registers TRACK_B_V1) k = Some v" if "map_of (special_registers C1_DEFAULT) k = Some v" for k v
    using c1_specials map_of_SomeD [OF that] unfolding list_all_iff by auto
  then show ?thesis unfolding \<open>prof = C1_DEFAULT\<close> map_le_def by force
qed simp

lemma lowerable_ok:
  assumes "lowerable_program prof n p" "new_lower_env p prof = Inr env" "prof \<in> {C1_DEFAULT, TRACK_B_V1}"
    and "env_params E = le_offsets env"
  shows "lowering_ok env E n (items p)"
proof -
  have "le_profile env = prof" using assms(2) by (auto simp: new_lower_env_def)
  then show ?thesis
    using assms profile_specials [OF assms(3)] by (fastforce simp: lowerable_program_def lowering_ok_def list_all_iff)
qed

subsection \<open>One thread\<close>

lemma new_lane_simulates:
  assumes "apart_placement M" "lane_ok (new_lane b t bd gd ws)" "same_world s u"
  shows "simulates M (thread_start (new_lane b t bd gd ws) s) (new_lane b t bd gd ws) u"
proof -
  have "reg_at (new_lane b t bd gd ws) r = 0" if "M v = Some r" for v r
    using apart_placementD(1,2) [OF assms(1) that] by (simp add: reg_at_def new_lane_def)
  then show ?thesis using assms(2,3) by (simp add: simulates_def thread_start_def same_place_def new_lane_def)
qed

text \<open>
  A kernel with a given register mapping is simulated when its code respects a family of relations
  that a fresh thread satisfies.
\<close>

definition simulated :: "ISAProfile \<Rightarrow> int dict \<Rightarrow> ptx_env \<Rightarrow> nat \<Rightarrow> PTXProgram \<Rightarrow> bool" where
  "simulated prof mapping E n p \<longleftrightarrow> (\<forall>env sN. new_lower_env p prof = Inr env \<longrightarrow> env_params E = le_offsets env \<longrightarrow>
     fold_r (lower_item env) (enumerate 0 (items p)) (new_lower_state mapping) = Inr sN \<longrightarrow>
     lowering_ok env E n (items p) \<and>
     (\<exists>R. code_relation env E n (items p) (new_lower_state mapping) sN R \<and>
       (\<forall>b t bd gd ws s u. lane_ok (new_lane b t bd gd ws) \<longrightarrow> same_world s u \<longrightarrow>
          R 0 (thread_start (new_lane b t bd gd ws) s) (new_lane b t bd gd ws) u)))"

lemma plain_simulated:
  assumes "lowerable_program prof n p" "prof \<in> {C1_DEFAULT, TRACK_B_V1}"
  shows "simulated prof [] E n p"
  unfolding simulated_def
proof (intro allI impI)
  fix env sN
  assume env: "new_lower_env p prof = Inr env" "env_params E = le_offsets env"
    and all: "fold_r (lower_item env) (enumerate 0 (items p)) (new_lower_state []) = Inr sN"
  have ok: "lowering_ok env E n (items p)" using lowerable_ok [OF assms(1) env(1) assms(2) env(2)] .
  have M: "apart_placement (placement_of sN)" using well_placed_apart [OF well_placed_run [OF all well_placed_new]] .
  have "code_relation env E n (items p) (new_lower_state []) sN (\<lambda>_. simulates (placement_of sN))"
    by (rule fixed_relation [OF ok M]) (simp add: fits_def)
  then show "lowering_ok env E n (items p) \<and> (\<exists>R. code_relation env E n (items p) (new_lower_state []) sN R \<and>
      (\<forall>b t bd gd ws s u. lane_ok (new_lane b t bd gd ws) \<longrightarrow> same_world s u \<longrightarrow>
         R 0 (thread_start (new_lane b t bd gd ws) s) (new_lane b t bd gd ws) u))"
    using ok new_lane_simulates [OF M] by blast
qed

lemma thread_lowered:
  assumes low: "lower_program p prof mapping = Inr lp" and ok: "simulated prof mapping E (length (pmem s)) p"
    and lane: "lane_ok (new_lane b t bd gd ws)" and world: "same_world s u"
    and E: "env_params E = parameter_offsets lp"
    and run: "ptx_thread E p n (new_lane b t bd gd ws) s = Some s'"
  shows "\<exists>N ls u'. (\<forall>fuel \<ge> N. run_warp_loop (env_host E) (lowered_instructions lp) fuel 0 [new_lane b t bd gd ws] u = Inr (ls, u')) \<and>
    same_world s' u' \<and> length (pmem s') = length (pmem s)"
proof -
  let ?l = "new_lane b t bd gd ws"
  obtain env sN OUT where env: "new_lower_env p prof = Inr env"
    and all: "fold_r (lower_item env) (enumerate 0 (items p)) (new_lower_state mapping) = Inr sN"
    and out: "fold_r (patch_branch (ls_labels sN)) (ls_pending sN) (ls_out sN) = Inr OUT"
    and lp: "lp = \<lparr>lowered_instructions = OUT, parameter_offsets = le_offsets env\<rparr>"
    using low by (auto simp: lower_program_def)
  have "env_params E = le_offsets env" using E lp by simp
  then obtain R where lok: "lowering_ok env E (length (pmem s)) (items p)"
    and R: "code_relation env E (length (pmem s)) (items p) (new_lower_state mapping) sN R" "R 0 (thread_start ?l s) ?l u"
    using ok env all lane world unfolding simulated_def by blast
  obtain \<sigma>' where r: "ptx_run E (items p) n (items p) (thread_start ?l s) = Some \<sigma>'" "s' = vmem \<sigma>'"
    using run by (auto simp: ptx_thread_def run_program_def)
  have "ends (env_host E) OUT \<sigma>' (int (length (ls_out (new_lower_state mapping)))) ?l u"
    by (rule simulation_run [OF lok all _ out R(1) _ _ _ _ _ r(1), of "[]"])
      (use all R(2) in \<open>simp_all add: new_lower_state_def thread_start_def\<close>)
  then show ?thesis using r(2) ptx_run_pmem [OF r(1)] simulatesD(4) lp
    by (fastforce simp: new_lower_state_def thread_start_def ends_def)
qed

subsection \<open>The grid\<close>

lemma threads_lowered:
  assumes low: "lower_program p prof mapping = Inr lp" and E: "env_params E = parameter_offsets lp"
  shows "\<forall>l \<in> set ls. lane_ok l \<and> (\<exists>b t. l = new_lane b t bd gd ws) \<Longrightarrow> simulated prof mapping E (length (pmem s)) p \<Longrightarrow>
    same_world s u \<Longrightarrow> ptx_threads E p n ls s = Some s' \<Longrightarrow>
    \<exists>N u'. (\<forall>fuel \<ge> N. fold_r (\<lambda>l s. bind_r (run_warp_loop (env_host E) (lowered_instructions lp) fuel 0 [l] s)
        (\<lambda>(_, s'). Inr s')) ls u = Inr u') \<and> same_world s' u'"
proof (induction ls arbitrary: s u)
  case (Cons l ls)
  obtain s1 where s1: "ptx_thread E p n l s = Some s1" "ptx_threads E p n ls s1 = Some s'"
    using Cons.prems(4) by (auto simp: bind_eq_Some_conv)
  obtain b t where l: "l = new_lane b t bd gd ws" "lane_ok l" using Cons.prems(1) by auto
  obtain N1 ks u1 where 1: "\<And>fuel. fuel \<ge> N1 \<Longrightarrow> run_warp_loop (env_host E) (lowered_instructions lp) fuel 0 [l] u = Inr (ks, u1)"
    "same_world s1 u1" "length (pmem s1) = length (pmem s)"
    using thread_lowered [OF low Cons.prems(2) _ Cons.prems(3) E, of b t bd gd ws n s1] s1(1) l by auto
  obtain N2 u' where 2: "\<And>fuel. fuel \<ge> N2 \<Longrightarrow> fold_r (\<lambda>l s. bind_r (run_warp_loop (env_host E) (lowered_instructions lp) fuel 0 [l] s)
        (\<lambda>(_, s'). Inr s')) ls u1 = Inr u'" "same_world s' u'"
    using Cons.IH [OF _ _ 1(2) s1(2)] Cons.prems(1,2) 1(3) by auto
  have "fold_r (\<lambda>l s. bind_r (run_warp_loop (env_host E) (lowered_instructions lp) fuel 0 [l] s) (\<lambda>(_, s'). Inr s'))
      (l # ls) u = Inr u'" if "fuel \<ge> max N1 N2" for fuel
    using 1(1) [of fuel] 2(1) [of fuel] that by simp
  then show ?case using 2(2) by blast
qed (auto intro: exI [of _ 0])

lemma fold_r_nested:
  "fold_r (\<lambda>b. fold_r (g b) ws) bs s = fold_r (\<lambda>(b, w). g b w) (List.product bs ws) s"
proof (induction bs arbitrary: s)
  case (Cons b bs)
  have "fold_r (\<lambda>(b, w). g b w) (map (Pair b) ws) s = fold_r (g b) ws s" for s
    by (induction ws arbitrary: s) (simp_all add: bind_r_def split: sum.splits)
  then show ?case using Cons by (auto simp: fold_r_append bind_r_def split: sum.splits)
qed simp

lemma fold_r_map: "fold_r f (map g xs) s = fold_r (\<lambda>x. f (g x)) xs s"
  by (induction xs arbitrary: s) (simp_all add: bind_r_def split: sum.splits)

lemma fold_r_cong:
  "(\<And>x s. x \<in> set xs \<Longrightarrow> f x s = g x s) \<Longrightarrow> fold_r f xs s = fold_r g xs s"
  by (induction xs arbitrary: s) (auto simp: bind_r_def split: sum.splits)

text \<open>The simulator runs warps of one lane one after the other.\<close>

definition single_lanes :: "dim3 \<Rightarrow> int \<Rightarrow> bool" where
  "single_lanes bd ws \<longleftrightarrow> ws = 1 \<or> dim_count bd = 1 \<and> 0 < ws"

lemma single_warps:
  assumes "single_lanes bd ws" "0 < dim_count bd"
  shows "py_range3 (dim_count bd) ws = map int [0..<nat (dim_count bd)]"
    "w \<in> set (py_range3 (dim_count bd) ws) \<Longrightarrow>
     warp_lanes \<lparr>host = h, instructions = prog, cfg_block_dim = bd, cfg_grid_dim = gd, cfg_warp_size = ws, max_steps = k\<rparr> b w =
       [new_lane b w bd gd ws]"
proof -
  show r: "py_range3 (dim_count bd) ws = map int [0..<nat (dim_count bd)]"
  proof (cases "ws = 1")
    case False
    then have "dim_count bd = 1" "0 < ws" using assms(1) by (auto simp: single_lanes_def)
    then show ?thesis by (simp add: py_range3_def)
  qed (simp add: py_range3_def)
  show "warp_lanes \<lparr>host = h, instructions = prog, cfg_block_dim = bd, cfg_grid_dim = gd, cfg_warp_size = ws, max_steps = k\<rparr> b w =
       [new_lane b w bd gd ws]" if "w \<in> set (py_range3 (dim_count bd) ws)"
  proof -
    have "min ws (dim_count bd - w) = 1" "0 \<le> w"
      using that assms by (auto simp: r single_lanes_def min_def)
    then show ?thesis by (simp add: warp_lanes_def)
  qed
qed

lemma sim_run_single:
  assumes "single_lanes bd ws" "0 < dim_count bd"
  shows "sim_run \<lparr>host = h, instructions = prog, cfg_block_dim = bd, cfg_grid_dim = gd, cfg_warp_size = ws, max_steps = k\<rparr> s =
    fold_r (\<lambda>l s. bind_r (run_warp_loop h prog (nat k) 0 [l] s) (\<lambda>(_, s'). Inr s')) (grid_lanes bd gd ws) s"
proof -
  have ws: "ws \<noteq> 0" using assms(1) by (auto simp: single_lanes_def)
  let ?c = "\<lparr>host = h, instructions = prog, cfg_block_dim = bd, cfg_grid_dim = gd, cfg_warp_size = ws, max_steps = k\<rparr>"
  have "sim_run ?c s = fold_r (\<lambda>b. fold_r (\<lambda>w s. bind_r (run_warp ?c (warp_lanes ?c b w) s) (\<lambda>(_, s'). Inr s'))
      (py_range3 (dim_count bd) ws)) (map int [0..<nat (dim_count gd)]) s"
    using ws by (simp add: sim_run_def)
  also have "\<dots> = fold_r (\<lambda>b. fold_r (\<lambda>w s. bind_r (run_warp_loop h prog (nat k) 0 [new_lane b w bd gd ws] s) (\<lambda>(_, s'). Inr s'))
      (py_range3 (dim_count bd) ws)) (map int [0..<nat (dim_count gd)]) s"
    using single_warps(2) [OF assms] by (intro fold_r_cong) (simp add: run_warp_def)
  finally show ?thesis
    by (simp add: fold_r_nested grid_lanes_def fold_r_map single_warps(1) [OF assms] case_prod_unfold)
qed

lemma grid_lanes_ok:
  assumes "dim_ok bd" "dim_ok gd" "single_lanes bd ws"
  shows "\<forall>l \<in> set (grid_lanes bd gd ws). lane_ok l \<and> (\<exists>b t. l = new_lane b t bd gd ws)"
proof -
  have "0 < ws" using assms(3) by (auto simp: single_lanes_def)
  then show ?thesis using assms(1,2)
    by (auto simp: grid_lanes_def lane_ok_def new_lane_def list_all_iff word_val_def nat_less_iff)
qed

lemma dim_ok_count: "dim_ok d \<Longrightarrow> 0 < dim_count d"
  by (cases d) simp

lemma grid_lowered:
  assumes "lower_program p prof mapping = Inr lp"
    and "simulated prof mapping \<lparr>env_host = h, env_params = parameter_offsets lp\<rparr> (length (pmem s)) p"
    and "dim_ok bd" "dim_ok gd" "single_lanes bd ws"
    and "ptx_grid \<lparr>env_host = h, env_params = parameter_offsets lp\<rparr> p n bd gd ws s = Some s'"
  shows "\<exists>N. \<forall>k \<ge> N. \<exists>t. sim_run \<lparr>host = h, instructions = lowered_instructions lp, cfg_block_dim = bd,
      cfg_grid_dim = gd, cfg_warp_size = ws, max_steps = int k\<rparr> s = Inr t \<and>
    gmem t = gmem s' \<and> pmem t = pmem s' \<and> accesses t = accesses s'"
proof -
  have "same_world s s" by (simp add: same_world_def)
  from threads_lowered [OF assms(1) _ grid_lanes_ok [OF assms(3-5)] assms(2) this assms(6) [unfolded ptx_grid_def]]
  obtain N t where "\<And>fuel. fuel \<ge> N \<Longrightarrow> fold_r (\<lambda>l s. bind_r (run_warp_loop h (lowered_instructions lp) fuel 0 [l] s)
        (\<lambda>(_, s'). Inr s')) (grid_lanes bd gd ws) s = Inr t" "same_world s' t" by auto
  then show ?thesis
    unfolding sim_run_single [OF assms(5) dim_ok_count [OF assms(3)]] same_world_def by (intro exI [of _ N]) auto
qed

lemma lowered_grid:
  assumes "lower_program p prof [] = Inr lp" "prof \<in> {C1_DEFAULT, TRACK_B_V1}"
    and "lowerable_program prof (length (pmem s)) p"
    and "dim_ok bd" "dim_ok gd" "single_lanes bd ws"
    and "ptx_grid \<lparr>env_host = h, env_params = parameter_offsets lp\<rparr> p n bd gd ws s = Some s'"
  shows "\<exists>N. \<forall>k \<ge> N. \<exists>t. sim_run \<lparr>host = h, instructions = lowered_instructions lp, cfg_block_dim = bd,
      cfg_grid_dim = gd, cfg_warp_size = ws, max_steps = int k\<rparr> s = Inr t \<and>
    gmem t = gmem s' \<and> pmem t = pmem s' \<and> accesses t = accesses s'"
  using grid_lowered [OF assms(1) plain_simulated [OF assms(3,2)] assms(4-7)] .

text \<open>
  C2. The lowering without a given register mapping is correct on lowerable kernels (as in the
  correctness of level 0: distinct labels, no branch turned into guards, no guard on \<^verbatim>\<open>ret\<close> or
  \<^verbatim>\<open>ld.param\<close>, no \<^verbatim>\<open>cvt\<close>, predicates \<^verbatim>\<open>%p0\<close> to \<^verbatim>\<open>%p7\<close>, 64-bit results in \<^verbatim>\<open>%rd\<close> registers, parameters
  inside parameter memory) and warps of one lane (warp size 1, or one thread per block): when such a
  kernel, run thread by thread in the reference semantics, ends with some memory, the simulator ends on
  the lowered program with the same memory and the same log of accesses, given enough steps.
\<close>

theorem lowering_correct:
  assumes "lower_program p prof [] = Inr lp" "prof \<in> {C1_DEFAULT, TRACK_B_V1}"
    and "lowerable_program prof (length (pmem s)) p"
    and "dim_ok bd" "dim_ok gd" "single_lanes bd ws"
    and "ptx_grid \<lparr>env_host = h, env_params = parameter_offsets lp\<rparr> p n bd gd ws s = Some s'"
  shows "\<exists>N. \<forall>k \<ge> N. \<exists>t. sim_run \<lparr>host = h, instructions = lowered_instructions lp, cfg_block_dim = bd,
      cfg_grid_dim = gd, cfg_warp_size = ws, max_steps = int k\<rparr> s = Inr t \<and>
    gmem t = gmem s' \<and> pmem t = pmem s' \<and> accesses t = accesses s'"
  using assms by (rule lowered_grid)

text \<open>A loop, a guarded move, an address computed from the thread index, and two threads.\<close>

definition loop_ptx :: PTXProgram where
  "loop_ptx = demo_ptx\<lparr>items :=
     [plain_inst ''mov.u32'' [''%r1'', ''%tid.x''], plain_inst ''mov.u32'' [''%r2'', ''0''],
      Label ''LOOP'',
      plain_inst ''add.u32'' [''%r2'', ''%r2'', ''1''],
      plain_inst ''setp.lt.u32'' [''%p1'', ''%r2'', ''3''],
      guarded_inst ''%p1'' ''bra'' [''LOOP''],
      plain_inst ''ld.param.u64'' [''%rd1'', ''[A]''],
      plain_inst ''mul.wide.u32'' [''%rd2'', ''%r1'', ''4''],
      plain_inst ''add.u64'' [''%rd3'', ''%rd1'', ''%rd2''],
      plain_inst ''mad.lo.u32'' [''%r3'', ''%r2'', ''2'', ''%r1''],
      guarded_inst ''%p1'' ''mov.u32'' [''%r3'', ''0''],
      plain_inst ''st.global.u32'' [''[%rd3]'', ''%r3''],
      plain_inst ''ret'' []]\<rparr>"

definition loop_start :: sim_state where
  "loop_start = new_sim_state (replicate 8 0) (replicate 8 0)"

lemma loop_lowerable: "lowerable_program TRACK_B_V1 8 loop_ptx"
  by code_simp

lemma loop_offsets:
  "case lower_program loop_ptx TRACK_B_V1 [] of Inl _ \<Rightarrow> False | Inr lp \<Rightarrow> parameter_offsets lp = [(''A'', 0)]"
  by code_simp

lemma loop_runs:
  "map_option gmem (ptx_grid \<lparr>env_host = demo_host, env_params = [(''A'', 0)]\<rparr> loop_ptx 40 (2, 1, 1) (1, 1, 1) 1 loop_start) =
     Some [6, 0, 0, 0, 7, 0, 0, 0]"
  by code_simp

theorem lowering_correct_witness:
  "\<exists>lp N. lower_program loop_ptx TRACK_B_V1 [] = Inr lp \<and>
     (\<forall>k \<ge> N. \<exists>t. sim_run \<lparr>host = demo_host, instructions = lowered_instructions lp, cfg_block_dim = (2, 1, 1),
        cfg_grid_dim = (1, 1, 1), cfg_warp_size = 1, max_steps = int k\<rparr> loop_start = Inr t \<and>
        gmem t = [6, 0, 0, 0, 7, 0, 0, 0])"
proof -
  obtain lp where lp: "lower_program loop_ptx TRACK_B_V1 [] = Inr lp" "parameter_offsets lp = [(''A'', 0)]"
    using loop_offsets by (auto split: sum.splits)
  obtain s' where s': "ptx_grid \<lparr>env_host = demo_host, env_params = parameter_offsets lp\<rparr> loop_ptx 40 (2, 1, 1) (1, 1, 1) 1
      loop_start = Some s'" "gmem s' = [6, 0, 0, 0, 7, 0, 0, 0]"
    using loop_runs lp(2) by auto
  have "lowerable_program TRACK_B_V1 (length (pmem loop_start)) loop_ptx"
    using loop_lowerable by (simp add: loop_start_def new_sim_state_def)
  then have "\<exists>N. \<forall>k \<ge> N. \<exists>t. sim_run \<lparr>host = demo_host, instructions = lowered_instructions lp, cfg_block_dim = (2, 1, 1),
        cfg_grid_dim = (1, 1, 1), cfg_warp_size = 1, max_steps = int k\<rparr> loop_start = Inr t \<and>
      gmem t = gmem s' \<and> pmem t = pmem s' \<and> accesses t = accesses s'"
    by (intro lowering_correct [OF lp(1) _ _ _ _ _ s'(1)]) (simp_all add: single_lanes_def)
  then show ?thesis using lp(1) s'(2) by metis
qed

end
