(* ===== verification/Binary_Run.thy ===== *)
theory Binary_Run
  imports Sim_Inv
begin

unbundle bit_operations_syntax

text \<open>
  The simulator on a binary. An instruction that survives encoding comes back with the fields its
  opcode does not use cleared; the simulator does not look at those, so that running the decoded
  binary is running the instructions it was made of.
\<close>

subsection \<open>Instructions as they are stored\<close>

text \<open>Operands within their fields, and the optional fields the opcode has.\<close>

definition storable :: "AECInstruction \<Rightarrow> bool" where
  "storable i \<longleftrightarrow> py_upper (opcode i) = opcode i \<and>
     0 \<le> dest i \<and> dest i < 2 ^ 16 \<and> 0 \<le> src1 i \<and> src1 i < 2 ^ 16 \<and>
     0 \<le> src2 i \<and> src2 i < 2 ^ 32 \<and> 0 \<le> src3 i \<and> src3 i < 2 ^ 32 \<and>
     (case predicate i of None \<Rightarrow> True | Some p \<Rightarrow> 0 \<le> p \<and> p < 8) \<and>
     (if opcode i = ''BR'' \<or> opcode i = ''BRX'' then 0 \<le> imm i \<and> imm i < 2 ^ 32 else True) \<and>
     (if opcode i \<in> {''CMP'', ''CMPP''} then truthy (compare i) \<and> memory_space i = None \<and> cvt_src_type i = None
      else if opcode i \<in> {''LD'', ''ST'', ''LDC''} then
        compare i = None \<and> truthy (memory_space i) \<and> cvt_src_type i = None
      else compare i = None \<and> memory_space i = None \<and>
        (if starts_with (opcode i) ''CVT'' then truthy (cvt_src_type i) else cvt_src_type i = None)) \<and>
     family i = 0"

definition stored :: "AECInstruction \<Rightarrow> AECInstruction" where
  "stored i = i\<lparr>dtype := instruction_encoding_type (opcode i) (dtype i),
     src2 := (if opcode i = ''LOADI64'' then 0 else src2 i),
     src3 := (if uses_immediate (opcode i) then 0 else src3 i),
     imm := (if opcode i = ''LOADI64'' then take_bit 64 (imm i)
             else if uses_immediate (opcode i) then take_bit 32 (imm i) else 0)\<rparr>"

lemma stored_simps [simp]:
  "opcode (stored i) = opcode i" "dest (stored i) = dest i" "src1 (stored i) = src1 i"
  "predicate (stored i) = predicate i" "predicate_negated (stored i) = predicate_negated i"
  "compare (stored i) = compare i" "memory_space (stored i) = memory_space i"
  "cvt_src_type (stored i) = cvt_src_type i" "family (stored i) = family i"
  by (simp_all add: stored_def)

lemma encoding_type_idem:
  "instruction_encoding_type op (instruction_encoding_type op dt) = instruction_encoding_type op dt"
  by (simp add: instruction_encoding_type_def)

lemma encode_stored:
  assumes "py_upper (opcode i) = opcode i"
  shows "encode_instruction prof (stored i) = encode_instruction prof i"
proof -
  have high: "drop_bit 32 (take_bit 64 x) AND 0xFFFFFFFF = drop_bit 32 x AND 0xFFFFFFFF"
    and low: "take_bit 64 x AND 0xFFFFFFFF = x AND 0xFFFFFFFF"
      "take_bit 32 x AND 0xFFFFFFFF = x AND 0xFFFFFFFF" for x :: int
    unfolding and_masks by (rule bit_eqI, auto simp: bit_simps)+
  have dt: "dtype (stored i) = instruction_encoding_type (opcode i) (dtype i)" by (simp add: stored_def)
  have words: "(if opcode i = ''LOADI64'' then imm (stored i) AND 0xFFFFFFFF
      else if uses_immediate (opcode i) then imm (stored i) AND 0xFFFFFFFF else src3 (stored i) AND 0xFFFFFFFF) =
      (if opcode i = ''LOADI64'' then imm i AND 0xFFFFFFFF
      else if uses_immediate (opcode i) then imm i AND 0xFFFFFFFF else src3 i AND 0xFFFFFFFF)"
    "(if opcode i = ''LOADI64'' then drop_bit 32 (imm (stored i)) AND 0xFFFFFFFF else src2 (stored i) AND 0xFFFFFFFF) =
      (if opcode i = ''LOADI64'' then drop_bit 32 (imm i) AND 0xFFFFFFFF else src2 i AND 0xFFFFFFFF)"
    unfolding stored_def by (simp_all add: low high)
  have subop: "ctrl_subop prof (stored i) = ctrl_subop prof i" unfolding ctrl_subop_def stored_simps ..
  show ?thesis
    unfolding encode_instruction_def Let_def stored_simps assms dt encoding_type_idem words subop ..
qed

lemma stored_canonical:
  assumes "storable i" "encode_instruction prof i = Inr w"
  shows "canonical prof (stored i)"
proof -
  have up: "py_upper (opcode i) = opcode i" using assms(1) by (simp add: storable_def)
  have enc: "encodable prof i" using assms(2) encode_succeeds_iff by blast
  then have names: "opcode i \<in> fst ` set (opcodes prof)"
    "instruction_encoding_type (opcode i) (dtype i) \<in> fst ` set (types prof)"
    by (simp_all add: encodable_def up Let_def)
  have words: "0 \<le> take_bit n (x::int) \<and> take_bit n x < 2 ^ n" for n x
    by (simp add: take_bit_int_less_exp)
  have cmp: "c \<in> Some ` fst ` set d" if "truthy c" "the c \<in> fst ` set d" for c and d :: "int dict"
    using that by (cases c) (auto simp: truthy_def)
  have wide: "uses_immediate ''LOADI64''" by (simp add: uses_immediate_def)
  have sub: "if opcode i \<in> {''CMP'', ''CMPP''} then
        compare i \<in> Some ` fst ` set (compare_ops prof) \<and> memory_space i = None \<and> cvt_src_type i = None
      else if opcode i \<in> {''LD'', ''ST'', ''LDC''} then
        compare i = None \<and> memory_space i \<in> Some ` fst ` set (memory_spaces prof) \<and> cvt_src_type i = None
      else compare i = None \<and> memory_space i = None \<and>
        (if starts_with (opcode i) ''CVT'' then cvt_src_type i \<in> Some ` fst ` set (types prof)
         else cvt_src_type i = None)"
  proof -
    consider (c) "opcode i \<in> {''CMP'', ''CMPP''}" | (m) "opcode i \<notin> {''CMP'', ''CMPP''}" "opcode i \<in> {''LD'', ''ST'', ''LDC''}"
      | (o) "opcode i \<notin> {''CMP'', ''CMPP''}" "opcode i \<notin> {''LD'', ''ST'', ''LDC''}" by blast
    then show ?thesis
    proof cases
      case c
      then have "truthy (compare i)" "memory_space i = None" "cvt_src_type i = None"
        using assms(1) unfolding storable_def by auto
      moreover from this have "the (compare i) \<in> fst ` set (compare_ops prof)"
        using enc unfolding encodable_def Let_def by blast
      ultimately show ?thesis using c cmp by (simp only: if_True)
    next
      case m
      then have "truthy (memory_space i)" "compare i = None" "cvt_src_type i = None"
        using assms(1) unfolding storable_def by auto
      moreover from this have "the (memory_space i) \<in> fst ` set (memory_spaces prof)"
        using enc unfolding encodable_def Let_def truthy_def by simp
      ultimately show ?thesis using m cmp by (simp only: if_True if_False)
    next
      case o
      then have "compare i = None" "memory_space i = None"
        "if starts_with (opcode i) ''CVT'' then truthy (cvt_src_type i) else cvt_src_type i = None"
        using assms(1) unfolding storable_def by simp_all
      moreover have "starts_with (opcode i) ''CVT'' \<and> truthy (cvt_src_type i) \<Longrightarrow> the (cvt_src_type i) \<in> fst ` set (types prof)"
        using enc unfolding encodable_def Let_def up by blast
      ultimately show ?thesis using o cmp by (simp only: if_False) (cases "starts_with (opcode i) ''CVT''", simp_all)
    qed
  qed
  show ?thesis
    unfolding canonical_def stored_simps
    using assms(1) enc names words [of 64 "imm i"] words [of 32 "imm i"] sub
    unfolding storable_def
    by (auto simp: stored_def encoding_type_idem encodable_def up Let_def wide split: option.splits)
qed

subsection \<open>The simulator does not see the difference\<close>

lemma sources_imm: "reg2 l (i\<lparr>imm := v\<rparr>) = reg2 l i" "reg3 l (i\<lparr>imm := v\<rparr>) = reg3 l i"
  unfolding reg2_def reg3_def by simp_all

lemma execute_stored:
  assumes "py_upper (opcode i) = opcode i"
  shows "execute_lane h (stored i) l s = execute_lane h i l s"
proof -
  have low: "take_bit 64 x AND 0xFFFFFFFF = x AND 0xFFFFFFFF" "take_bit 32 x AND 0xFFFFFFFF = x AND 0xFFFFFFFF"
    and high: "drop_bit 32 (take_bit 64 x) AND 0xFFFFFFFF = drop_bit 32 x AND 0xFFFFFFFF" for x :: int
    unfolding and_masks by (rule bit_eqI, auto simp: bit_simps)+
  consider (loadi) "opcode i = ''LOADI''" | (loadi64) "opcode i = ''LOADI64''" | (shl) "opcode i = ''SHL''"
    | (flow) "opcode i \<in> {''BR'', ''BRX'', ''CALL''}"
    | (same) "opcode i \<notin> {''LOADI'', ''LOADI64'', ''SHL'', ''BR'', ''BRX'', ''CALL''}" by blast
  then show ?thesis
  proof cases
    case loadi
    then show ?thesis using assms by (simp add: execute_lane_def stored_def uses_immediate_def low)
  next
    case loadi64
    then show ?thesis using assms by (simp add: execute_lane_def stored_def uses_immediate_def low high Let_def)
  next
    case shl
    then show ?thesis using assms by (simp add: execute_lane_def stored_def uses_immediate_def reg2_def)
  next
    case flow
    then show ?thesis using assms by (auto simp: execute_lane_def)
  next
    case same
    then have "stored i = i\<lparr>imm := 0\<rparr>"
      by (simp add: stored_def uses_immediate_def instruction_encoding_type_def)
    moreover have "opcode (i\<lparr>imm := 0\<rparr>) = opcode i" "dtype (i\<lparr>imm := 0\<rparr>) = dtype i" "dest (i\<lparr>imm := 0\<rparr>) = dest i"
      "src1 (i\<lparr>imm := 0\<rparr>) = src1 i" "src2 (i\<lparr>imm := 0\<rparr>) = src2 i" "src3 (i\<lparr>imm := 0\<rparr>) = src3 i"
      "compare (i\<lparr>imm := 0\<rparr>) = compare i" "memory_space (i\<lparr>imm := 0\<rparr>) = memory_space i" by simp_all
    note fields = this
    moreover have "execute_load (i\<lparr>imm := 0\<rparr>) l s = execute_load i l s" "execute_store (i\<lparr>imm := 0\<rparr>) l s = execute_store i l s"
      "copy_value (i\<lparr>imm := 0\<rparr>) l = copy_value i l"
      unfolding execute_load_def execute_store_def require_space_def copy_value_def fields by (rule refl)+
    ultimately show ?thesis using same unfolding execute_lane_def assms Let_def
      by (simp only: assms fields sources_imm de_Morgan_disj insert_iff empty_iff if_False simp_thms)
  qed
qed

lemma exec_lanes_stored:
  "py_upper (opcode i) = opcode i \<Longrightarrow> exec_lanes h (stored i) ls s = exec_lanes h i ls s"
proof (induction ls arbitrary: s)
  case (Cons l ls)
  have "guard_passes (stored i) l = guard_passes i l" unfolding guard_passes_def stored_simps ..
  then show ?case using Cons by (simp add: execute_stored [OF Cons.prems] cong del: if_weak_cong sum.case_cong_weak)
qed simp

lemma run_warp_loop_stored:
  assumes "list_all storable prog"
  shows "run_warp_loop h (map stored prog) k pc lanes s = run_warp_loop h prog k pc lanes s"
proof (induction k arbitrary: pc lanes s)
  case 0
  then show ?case by (subst (1 2) run_warp_loop.simps) simp
next
  case (Suc k)
  show ?case
  proof (cases "0 \<le> pc \<and> pc < int (length prog)")
    case False
    then show ?thesis by (subst (1 2) run_warp_loop.simps) simp
  next
    case True
    let ?i = "prog ! nat pc"
    have n: "nat pc < length prog" using True by auto
    have "storable ?i" using assms n by (simp add: list_all_length)
    then have target: "imm (stored ?i) = imm ?i" if "opcode ?i = ''BR'' \<or> opcode ?i = ''BRX''"
      using that by (auto simp: storable_def stored_def uses_immediate_def take_bit_int_eq_self)
    have up: "py_upper (opcode ?i) = opcode ?i" using \<open>storable ?i\<close> by (simp add: storable_def)
    have brx: "branchx_next_pc (stored ?i) lanes pc t = branchx_next_pc ?i lanes pc t" if "opcode ?i = ''BRX''" for t
      unfolding branchx_next_pc_def stored_simps target [OF disjI2 [OF that]] ..
    show ?thesis
      using True n Suc.IH target up brx exec_lanes_stored [OF up]
      by (subst (1 2) run_warp_loop.simps) (simp add: Let_def split: sum.splits prod.splits)
  qed
qed

lemma sim_run_stored:
  assumes "list_all storable prog"
  shows "sim_run (c\<lparr>instructions := map stored prog\<rparr>) s = sim_run (c\<lparr>instructions := prog\<rparr>) s"
proof -
  have "run_warp (c\<lparr>instructions := map stored prog\<rparr>) lanes s = run_warp (c\<lparr>instructions := prog\<rparr>) lanes s" for lanes s
    by (simp add: run_warp_def run_warp_loop_stored [OF assms])
  moreover have "warp_lanes (c\<lparr>instructions := map stored prog\<rparr>) = warp_lanes (c\<lparr>instructions := prog\<rparr>)"
    by (intro ext) (simp add: warp_lanes_def)
  ultimately show ?thesis by (simp add: sim_run_def cong del: if_weak_cong)
qed

subsection \<open>Binaries\<close>

lemma stored_words:
  assumes "prof \<in> {C1_DEFAULT, TRACK_B_V1}" "list_all storable prog" "instructions_to_bytes prof prog = Inr bs"
  shows "\<exists>ws. bytes_to_words bs = Inr ws \<and> map_r (decode_words_to_instruction prof) ws = Inr (map stored prog)"
proof -
  have up: "py_upper (opcode i) = opcode i" if "i \<in> set prog" for i
    using assms(2) that by (auto simp: list_all_iff storable_def)
  have bytes: "instructions_to_bytes prof (map stored xs) = instructions_to_bytes prof xs" if "set xs \<subseteq> set prog" for xs
    using that by (induction xs) (simp_all add: encode_stored up)
  have encoded: "\<exists>w. encode_instruction prof i = Inr w" if "i \<in> set xs" "instructions_to_bytes prof xs = Inr cs" for i xs cs
    using that by (induction xs arbitrary: cs) auto
  have can: "list_all (canonical prof) (map stored prog)"
    unfolding list_all_iff set_map
  proof
    fix j assume "j \<in> stored ` set prog"
    then obtain i where i: "i \<in> set prog" "j = stored i" by blast
    then show "canonical prof j"
      using assms(2) encoded [OF i(1) assms(3)] stored_canonical [of i prof] unfolding list_all_iff by blast
  qed
  have "\<exists>bs ws. instructions_to_bytes prof (map stored prog) = Inr bs \<and> bytes_to_words bs = Inr ws \<and>
      map_r (decode_words_to_instruction prof) ws = Inr (map stored prog)"
    using c1.binary_round_trip [of "map stored prog"] track_b.binary_round_trip [of "map stored prog"] can assms(1) by blast
  then show ?thesis using bytes [of prog] assms(3) by auto
qed

text \<open>
  C6. The simulator does the same on the binary of a program, decoded, as on the program: the same final
  state, or the same exception in the same state, for every configuration and start. The instructions
  must be storable, that is each field within the bits it is encoded in and the optional fields those of
  the opcode.
\<close>

theorem binary_same_run:
  assumes "prof \<in> {C1_DEFAULT, TRACK_B_V1}" "list_all storable prog" "instructions_to_bytes prof prog = Inr bs"
  shows "\<exists>ws decoded. bytes_to_words bs = Inr ws \<and> map_r (decode_words_to_instruction prof) ws = Inr decoded \<and>
    (\<forall>c s. sim_run (c\<lparr>instructions := decoded\<rparr>) s = sim_run (c\<lparr>instructions := prog\<rparr>) s)"
  using stored_words [OF assms] sim_run_stored [OF assms(2)] by blast

text \<open>An immediate that does not fit, a shift by its \<^verbatim>\<open>b32\<close> type, and operands the opcode ignores.\<close>

definition loose_program :: "AECInstruction list" where
  "loose_program =
     [(aec ''LOADI'')\<lparr>dtype := ''u32'', dest := 1, imm := - 1, src3 := 7\<rparr>,
      (aec ''SHL'')\<lparr>dtype := ''b32'', dest := 2, src1 := 1, src2 := 1, imm := 9\<rparr>,
      aec ''HALT'']"

theorem binary_same_run_witness:
  "\<exists>bs ws decoded. instructions_to_bytes TRACK_B_V1 loose_program = Inr bs \<and> bytes_to_words bs = Inr ws \<and>
     map_r (decode_words_to_instruction TRACK_B_V1) ws = Inr decoded \<and> decoded \<noteq> loose_program \<and>
     (\<forall>c s. sim_run (c\<lparr>instructions := decoded\<rparr>) s = sim_run (c\<lparr>instructions := loose_program\<rparr>) s)"
proof -
  have "case instructions_to_bytes TRACK_B_V1 loose_program of Inl _ \<Rightarrow> False | Inr bs \<Rightarrow>
      case bytes_to_words bs of Inl _ \<Rightarrow> False | Inr ws \<Rightarrow>
      case map_r (decode_words_to_instruction TRACK_B_V1) ws of Inl _ \<Rightarrow> False | Inr is \<Rightarrow> is \<noteq> loose_program"
    by code_simp
  then obtain bs ws "is" where b: "instructions_to_bytes TRACK_B_V1 loose_program = Inr bs" "bytes_to_words bs = Inr ws"
    "map_r (decode_words_to_instruction TRACK_B_V1) ws = Inr is" "is \<noteq> loose_program"
    by (auto split: sum.splits)
  have "list_all storable loose_program" by code_simp
  from binary_same_run [OF _ this b(1)] show ?thesis using b by auto
qed

end
