(* ===== verification/Lower_Typed.thy ===== *)
theory Lower_Typed
  imports Lower_Correct Binary_Run
begin

unbundle bit_operations_syntax

text \<open>
  The instructions a lowered program is made of: registers of the file, predicates that exist,
  branch targets inside the program, and exactly the optional fields the opcode has. Every step of
  the lowering keeps this, given that its operands are what the steps before it delivered.
\<close>

subsection \<open>Well-typed instructions\<close>

text \<open>\<open>n\<close> bounds the branch targets.\<close>

definition well_typed :: "ISAProfile \<Rightarrow> int \<Rightarrow> AECInstruction \<Rightarrow> bool" where
  "well_typed prof n i \<longleftrightarrow> storable i \<and> dest i \<le> 255 \<and> src2 i \<le> 255 \<and> src3 i \<le> 255 \<and>
     (src1 i \<le> 255 \<or> opcode i = ''CPY'' \<and> src1 i \<in> snd ` set (special_registers prof)) \<and>
     (if opcode i = ''CMPP'' then dest i \<le> 7 else True) \<and>
     (if opcode i = ''BRX'' then predicate i \<noteq> None else True) \<and>
     (if opcode i = ''BR'' \<or> opcode i = ''BRX'' then imm i \<le> n else True)"

definition in_file :: "int \<Rightarrow> bool" where
  "in_file r \<longleftrightarrow> 0 \<le> r \<and> r \<le> 255"

definition is_predicate :: "int \<Rightarrow> bool" where
  "is_predicate p \<longleftrightarrow> 0 \<le> p \<and> p < 8"

lemma predicate_number_range: "predicate_number t = Inr n \<Longrightarrow> is_predicate n"
  by (auto simp: predicate_number_def is_predicate_def Let_def split: if_splits option.splits)

text \<open>What the lowering relies on in the profile, and in the plan.\<close>

definition specials_fit :: "ISAProfile \<Rightarrow> bool" where
  "specials_fit prof \<longleftrightarrow> list_all (\<lambda>(k, v). 0 \<le> v \<and> v < 2 ^ 16) (special_registers prof)"

definition guards_fit :: "ControlPlan \<Rightarrow> bool" where
  "guards_fit plan \<longleftrightarrow> (\<forall>k g. map_of (item_guards plan) k = Some g \<longrightarrow> is_predicate (ig_predicate g))"

text \<open>A guard and a branch target may be put in.\<close>

lemma well_typed_guard:
  assumes "well_typed prof n i" "is_predicate p"
  shows "well_typed prof n (i\<lparr>predicate := Some p, predicate_negated := neg\<rparr>)"
proof -
  let ?j = "i\<lparr>predicate := Some p, predicate_negated := neg\<rparr>"
  have fields: "opcode ?j = opcode i" "dest ?j = dest i" "src1 ?j = src1 i" "src2 ?j = src2 i" "src3 ?j = src3 i"
    "imm ?j = imm i" "compare ?j = compare i" "memory_space ?j = memory_space i" "cvt_src_type ?j = cvt_src_type i"
    "family ?j = family i" "predicate ?j = Some p" by simp_all
  show ?thesis
    using assms unfolding well_typed_def storable_def is_predicate_def fields option.case by (elim conjE, intro conjI) simp_all
qed

lemma well_typed_target:
  assumes "well_typed prof n i" "0 \<le> t" "t \<le> n" "n < 2 ^ 32"
  shows "well_typed prof n (i\<lparr>imm := t\<rparr>)"
proof -
  let ?j = "i\<lparr>imm := t\<rparr>"
  have fields: "opcode ?j = opcode i" "dest ?j = dest i" "src1 ?j = src1 i" "src2 ?j = src2 i" "src3 ?j = src3 i"
    "predicate ?j = predicate i" "compare ?j = compare i" "memory_space ?j = memory_space i" "cvt_src_type ?j = cvt_src_type i"
    "family ?j = family i" "imm ?j = t" by simp_all
  have "t < 2 ^ 32" using assms(3,4) by simp
  then show ?thesis
    using assms unfolding well_typed_def storable_def fields by (elim conjE, intro conjI) simp_all
qed

text \<open>The forms the lowering emits.\<close>

definition PLAIN_OPCODES :: "string list" where
  "PLAIN_OPCODES = [''LOADI'', ''LOADI64'', ''CPY'', ''HALT'', ''ADD'', ''SUB'', ''MUL'', ''MAD'', ''AND'', ''OR'', ''XOR'',
     ''SHL'', ''SHR'', ''FMA'']"

lemma in_file_small [simp]: "in_file 0" by (simp add: in_file_def)

lemma plain_opcode:
  assumes "op \<in> set PLAIN_OPCODES"
  shows "py_upper op = op" "op \<notin> {''BR'', ''BRX'', ''CMP'', ''CMPP'', ''LD'', ''ST'', ''LDC''}" "\<not> starts_with op ''CVT''"
proof -
  have "list_all (\<lambda>op. py_upper op = op \<and> op \<notin> {''BR'', ''BRX'', ''CMP'', ''CMPP'', ''LD'', ''ST'', ''LDC''} \<and>
      \<not> starts_with op ''CVT'') PLAIN_OPCODES" by code_simp
  then show "py_upper op = op" "op \<notin> {''BR'', ''BRX'', ''CMP'', ''CMPP'', ''LD'', ''ST'', ''LDC''}" "\<not> starts_with op ''CVT''"
    using assms unfolding list_all_iff by blast+
qed

lemma typed_plain:
  assumes "op \<in> set PLAIN_OPCODES" "in_file d" "in_file a" "in_file b" "in_file c"
  shows "well_typed prof n \<lparr>opcode = op, dtype = t, dest = d, src1 = a, src2 = b, src3 = c, imm = v,
      predicate = None, predicate_negated = False, compare = None, memory_space = None, cvt_src_type = None, family = 0\<rparr>"
  using assms(2-5) plain_opcode [OF assms(1)] unfolding well_typed_def storable_def aec_def in_file_def by simp

lemma typed_special:
  assumes "in_file d" "0 \<le> v" "v < 65536" "v \<in> snd ` set (special_registers prof)"
  shows "well_typed prof n \<lparr>opcode = ''CPY'', dtype = t, dest = d, src1 = v, src2 = 0, src3 = 0, imm = 0,
      predicate = None, predicate_negated = False, compare = None, memory_space = None, cvt_src_type = None, family = 0\<rparr>"
  using assms plain_opcode [of "''CPY''"] unfolding well_typed_def storable_def aec_def in_file_def by (simp add: PLAIN_OPCODES_def)

lemma upper_conversions:
  "py_upper ''CVTFF'' = ''CVTFF''" "py_upper ''CVTFI'' = ''CVTFI''" "py_upper ''CVTIF'' = ''CVTIF''" "py_upper ''CVTII'' = ''CVTII''"
  by code_simp+

lemma typed_memory:
  assumes "op \<in> {''LD'', ''ST''}" "in_file d" "in_file a" "in_file b" "m \<noteq> []"
  shows "well_typed prof n \<lparr>opcode = op, dtype = t, dest = d, src1 = a, src2 = b, src3 = 0, imm = 0,
      predicate = None, predicate_negated = False, compare = None, memory_space = Some m, cvt_src_type = None, family = 0\<rparr>"
  using assms unfolding well_typed_def storable_def aec_def in_file_def truthy_def by auto

lemma typed_compare:
  assumes "is_predicate d" "in_file a" "in_file b" "m \<noteq> []"
  shows "well_typed prof n \<lparr>opcode = ''CMPP'', dtype = t, dest = d, src1 = a, src2 = b, src3 = 0, imm = 0,
      predicate = None, predicate_negated = False, compare = Some m, memory_space = None, cvt_src_type = None, family = 0\<rparr>"
  using assms unfolding well_typed_def storable_def aec_def in_file_def is_predicate_def truthy_def by auto

lemma typed_branch:
  "0 \<le> n \<Longrightarrow> well_typed prof n \<lparr>opcode = ''BR'', dtype = ''none'', dest = 0, src1 = 0, src2 = 0, src3 = 0, imm = 0,
      predicate = None, predicate_negated = False, compare = None, memory_space = None, cvt_src_type = None, family = 0\<rparr>"
  "0 \<le> n \<Longrightarrow> is_predicate p \<Longrightarrow> well_typed prof n \<lparr>opcode = ''BRX'', dtype = ''none'', dest = 0, src1 = 0, src2 = 0, src3 = 0, imm = 0,
      predicate = Some p, predicate_negated = neg, compare = None, memory_space = None, cvt_src_type = None, family = 0\<rparr>"
  unfolding well_typed_def storable_def aec_def is_predicate_def by auto

lemma typed_convert:
  assumes "op \<in> {''CVTFF'', ''CVTFI'', ''CVTIF'', ''CVTII''}" "in_file d" "in_file a" "m \<noteq> []"
  shows "well_typed prof n \<lparr>opcode = op, dtype = t, dest = d, src1 = a, src2 = 0, src3 = 0, imm = 0,
      predicate = None, predicate_negated = False, compare = None, memory_space = None, cvt_src_type = Some m, family = 0\<rparr>"
proof -
  have op: "py_upper op = op" "op \<notin> {''BR'', ''BRX'', ''CMP'', ''CMPP'', ''LD'', ''ST'', ''LDC''}" "starts_with op ''CVT''"
    using assms(1) upper_conversions by auto
  show ?thesis using op assms(2-4) unfolding well_typed_def storable_def in_file_def truthy_def by simp
qed

lemmas typed_forms = aec_def PLAIN_OPCODES_def typed_plain typed_special typed_memory typed_compare typed_branch typed_convert

subsection \<open>Actions of the lowering\<close>

text \<open>The registers the allocator knows or can hand out next are in the register file.\<close>

definition bounded :: "lower_state \<Rightarrow> bool" where
  "bounded s \<longleftrightarrow> (\<forall>v r. placement_of s v = Some r \<longrightarrow> 1 \<le> r \<and> r \<le> 239) \<and> 1 \<le> ra_next (ls_regs s) \<and>
     240 \<le> ra_temp_next (ls_regs s)"

lemma boundedI:
  "bounded s \<Longrightarrow> ls_regs s' = ls_regs s \<Longrightarrow> bounded s'"
  by (simp add: bounded_def placement_of_def)

lemma bounded_reset: "bounded s \<Longrightarrow> bounded (s\<lparr>ls_regs := reset_temps (ls_regs s)\<rparr>)"
  by (simp add: bounded_def placement_of_def reset_temps_def)

lemma bounded_temp: "on_regs ra_temp s = Inr (r, s') \<Longrightarrow> bounded s \<Longrightarrow> bounded s'"
  by (auto simp: on_regs_def ra_temp_def Let_def bounded_def placement_of_def split: if_splits)

lemma bounded_reg:
  assumes "ptx_reg t p s = Inr (r, s')" "bounded s"
  shows "bounded s'"
proof -
  obtain q a where a: "ra_reg (py_strip t) q (ls_regs s) = Inr (r, a)" "s' = s\<lparr>ls_regs := a\<rparr>"
    using assms(1) by (auto simp: ptx_reg_def Let_def on_regs_def)
  show ?thesis
  proof (cases "map_of (ra_mapping (ls_regs s)) (py_strip t)")
    case None
    then obtain b where b: "ra_allocate (if q then 2 else 1) (ls_regs s) = Inr (r, b)"
      "a = b\<lparr>ra_mapping := AList.update (py_strip t) r (ra_mapping b)\<rparr>"
      using a(1) by (auto simp: ra_reg_def Let_def)
    let ?n = "if q then 2 else 1 :: nat"
    have f: "find_free (ra_reserved (ls_regs s)) ?n (ra_next (ls_regs s)) = Inr r"
      and "b = (ls_regs s)\<lparr>ra_reserved := needed_registers ?n r @ ra_reserved (ls_regs s), ra_next := r + int ?n\<rparr>"
      using b(1) by (auto simp: ra_allocate_def)
    moreover have "r \<in> set (needed_registers ?n r)" using needed_block [of ?n r] by (auto simp: block_regs_def)
    then have "ra_next (ls_regs s) \<le> r" "r < 240" using find_free_found [OF f] by auto
    ultimately show ?thesis using assms(2) by (auto simp: bounded_def placement_of_def a(2) b(2) update_conv')
  qed (use a assms(2) in \<open>auto simp: ra_reg_def Let_def bounded_def placement_of_def\<close>)
qed

definition tidy :: "lower_env \<Rightarrow> int \<Rightarrow> lower_state \<Rightarrow> bool" where
  "tidy env n s \<longleftrightarrow> bounded s \<and> list_all (well_typed (le_profile env) n) (ls_out s) \<and>
     (\<forall>l v. map_of (ls_labels s) l = Some v \<longrightarrow> 0 \<le> v \<and> v \<le> int (length (ls_out s)))"

lemma tidyI:
  "tidy env n s \<Longrightarrow> bounded s' \<Longrightarrow> ls_out s' = ls_out s \<Longrightarrow> ls_labels s' = ls_labels s \<Longrightarrow> tidy env n s'"
  by (simp add: tidy_def)

definition yields :: "lower_env \<Rightarrow> int \<Rightarrow> 'a lowering \<Rightarrow> ('a \<Rightarrow> bool) \<Rightarrow> bool" where
  "yields env n m Q \<longleftrightarrow> (\<forall>s x s'. m s = Inr (x, s') \<longrightarrow> tidy env n s \<longrightarrow> tidy env n s' \<and> Q x)"

named_theorems yields_intros

lemma yieldsD: "yields env n m Q \<Longrightarrow> m s = Inr (x, s') \<Longrightarrow> tidy env n s \<Longrightarrow> tidy env n s' \<and> Q x"
  by (simp add: yields_def)

lemma yields_weaken: "yields env n m P \<Longrightarrow> (\<And>x. P x \<Longrightarrow> Q x) \<Longrightarrow> yields env n m Q"
  unfolding yields_def by blast

lemma yields_lbind:
  "yields env n m P \<Longrightarrow> (\<And>x. P x \<Longrightarrow> yields env n (f x) Q) \<Longrightarrow> yields env n (lbind m f) Q"
  unfolding yields_def by (auto; blast)

lemma yields_lift: "yields env n (lift_l r) (\<lambda>x. r = Inr x)"
  by (auto simp: yields_def)

lemma yields_fail [yields_intros]: "yields env n (lift_l (Inl e)) Q"
  by (auto simp: yields_def)

lemma yields_if [yields_intros]:
  "(c \<Longrightarrow> yields env n a Q) \<Longrightarrow> (\<not> c \<Longrightarrow> yields env n b Q) \<Longrightarrow> yields env n (if c then a else b) Q"
  by simp

lemma yields_option [yields_intros]:
  "(z = None \<Longrightarrow> yields env n a Q) \<Longrightarrow> (\<And>x. z = Some x \<Longrightarrow> yields env n (f x) Q) \<Longrightarrow>
    yields env n (case z of None \<Rightarrow> a | Some x \<Rightarrow> f x) Q"
  by (cases z) simp_all

lemma yields_require: "yields env n (require_operands i k) (\<lambda>_. length (operands i) = k)"
  unfolding require_operands_def by (auto simp: yields_def)

lemma yields_pending: "yields env n (add_pending t) (\<lambda>_. True)"
  unfolding yields_def
proof (intro allI impI)
  fix s u s' assume m: "add_pending t s = Inr (u, s')" and t: "tidy env n s"
  have "bounded s'" using boundedI m t by (auto simp: tidy_def add_pending_def)
  then show "tidy env n s' \<and> True" using tidyI [OF t] m by (auto simp: add_pending_def)
qed

lemma yields_reg: "yields env n (ptx_reg t p) (\<lambda>r. in_file r \<and> in_file (r + 1))"
  unfolding yields_def
proof (intro allI impI)
  fix s r s' assume m: "ptx_reg t p s = Inr (r, s')" and "tidy env n s"
  then have "bounded s'" using bounded_reg by (simp add: tidy_def)
  moreover have "placement_of s' (py_strip t) = Some r" using ptx_reg_result(3) [OF m] .
  moreover have "ls_out s' = ls_out s" "ls_labels s' = ls_labels s" using m by (auto simp: ptx_reg_def Let_def on_regs_def)
  ultimately show "tidy env n s' \<and> in_file r \<and> in_file (r + 1)"
    using tidyI [OF \<open>tidy env n s\<close>] by (fastforce simp: in_file_def bounded_def)
qed

lemma yields_temp: "yields env n (on_regs ra_temp) in_file"
  unfolding yields_def
proof (intro allI impI)
  fix s r s' assume m: "on_regs ra_temp s = Inr (r, s')" and t: "tidy env n s"
  have "bounded s'" using bounded_temp [OF m] t by (simp add: tidy_def)
  moreover have "ls_out s' = ls_out s" "ls_labels s' = ls_labels s" "r = ra_temp_next (ls_regs s)" "r \<le> 255"
    using m by (auto simp: on_regs_def ra_temp_def Let_def split: if_splits)
  ultimately show "tidy env n s' \<and> in_file r"
    using tidyI [OF t] t by (simp add: tidy_def in_file_def bounded_def)
qed

lemma yields_emit [yields_intros]:
  assumes "guards_fit (le_plan env)" "well_typed (le_profile env) n x"
  shows "yields env n (emit env k x) (\<lambda>_. True)"
  unfolding yields_def
proof (intro allI impI)
  fix s u s' assume m: "emit env k x s = Inr (u, s')" and t: "tidy env n s"
  have "bounded s'" using boundedI m t by (auto simp: tidy_def emit_def Let_def)
  moreover have "ls_labels s' = ls_labels s" using m by (auto simp: emit_def Let_def)
  moreover have "\<exists>y. ls_out s' = ls_out s @ [y] \<and> well_typed (le_profile env) n y"
    using m assms well_typed_guard [OF assms(2)] by (auto simp: emit_def Let_def guards_fit_def split: option.splits)
  ultimately show "tidy env n s' \<and> True" using t by (fastforce simp: tidy_def)
qed

lemma yields_guarded [yields_intros]:
  assumes "guards_fit (le_plan env)" "well_typed (le_profile env) n x"
  shows "yields env n (emit_guarded env k i x) (\<lambda>_. True)"
  unfolding emit_guarded_def
proof (rule yields_lbind [OF yields_lift])
  fix y assume "with_guard i x = Inr y"
  then have "well_typed (le_profile env) n y"
    using assms(2) well_typed_guard predicate_number_range by (auto simp: with_guard_def split: option.splits)
  then show "yields env n (emit env k y) (\<lambda>_. True)" using assms(1) yields_emit by blast
qed

lemma yields_load:
  assumes "guards_fit (le_plan env)"
  shows "yields env n (load_imm env k v) in_file"
  unfolding load_imm_def
proof (rule yields_lbind [OF yields_temp])
  fix r assume r: "in_file r"
  have "yields env n (emit env k ((aec ''LOADI'')\<lparr>dest := r, imm := v\<rparr>)) (\<lambda>_. True)"
    using assms r by (intro yields_emit) (simp_all add: typed_forms)
  moreover have "yields env n (lift_l (Inr r)) in_file" using r by (auto simp: yields_def)
  ultimately show "yields env n (lbind (emit env k ((aec ''LOADI'')\<lparr>dest := r, imm := v\<rparr>)) (\<lambda>_. lift_l (Inr r))) in_file"
    by (rule yields_lbind)
qed

lemma yields_operand:
  assumes "guards_fit (le_plan env)"
  shows "yields env n (operand_reg env k t p) in_file"
proof -
  have "yields env n (ptx_reg t p) in_file" by (rule yields_weaken [OF yields_reg]) simp
  moreover have "yields env n (lbind (lift_l (immediate_r t)) (load_imm env k)) in_file"
    by (rule yields_lbind [OF yields_lift]) (rule yields_load [OF assms])
  ultimately show ?thesis by (simp add: operand_reg_def)
qed

lemmas yields_binds [yields_intros] =
  yields_lbind [OF yields_require] yields_lbind [OF yields_lift] yields_lbind [OF yields_reg] yields_lbind [OF yields_temp]
  yields_lbind [OF yields_operand] yields_lbind [OF yields_emit] yields_lbind [OF yields_guarded] yields_lbind [OF yields_pending]

subsection \<open>The handlers\<close>

lemma conversion_opcodes: "conversion_opcode d s \<in> {''CVTFF'', ''CVTFI'', ''CVTIF'', ''CVTII''}"
  by (simp add: conversion_opcode_def Let_def)

lemma aec_type_truthy: "aec_type_of t = Inr a \<Longrightarrow> a \<noteq> []"
  by (auto simp: aec_type_of_def PTX_TO_AEC_TYPE_def split: if_splits)

lemma special_range: "specials_fit prof \<Longrightarrow> map_of (special_registers prof) t = Some v \<Longrightarrow> 0 \<le> v \<and> v < 65536 \<and> v \<in> snd ` set (special_registers prof)"
  unfolding specials_fit_def list_all_iff by (force dest: map_of_SomeD)

lemma yields_cvt:
  assumes "guards_fit (le_plan env)"
  shows "yields env n (lower_cvt env k i parts) (\<lambda>_. True)"
  unfolding lower_cvt_def
  by (intro yields_intros assms)
    (use conversion_opcodes [of "parts ! 1" "parts ! 2"] in \<open>simp add: typed_forms aec_type_truthy\<close>)

lemma yields_setp:
  assumes "guards_fit (le_plan env)" "3 \<le> length parts \<Longrightarrow> parts ! 1 \<noteq> []"
  shows "yields env n (lower_setp env k i parts) (\<lambda>_. True)"
  unfolding lower_setp_def
  by (intro yields_intros assms(1)) (use assms(2) in \<open>simp add: typed_forms predicate_number_range\<close>)

lemma yields_bra:
  assumes "guards_fit (le_plan env)" "0 \<le> n"
  shows "yields env n (lower_bra env k i) (\<lambda>_. True)"
  unfolding lower_bra_def
  by (intro yields_intros assms(1))
    (use assms(2) in \<open>auto simp: typed_forms predicate_number_range split: option.splits if_splits\<close>)

lemma yields_wide:
  assumes "guards_fit (le_plan env)" "op \<in> {''ADD'', ''MUL''}"
  shows "yields env n (emit_wide env k i op p) (\<lambda>_. True)"
  unfolding emit_wide_def by (intro yields_intros assms(1)) (use assms(2) in \<open>auto simp: typed_forms\<close>)

lemma yields_alu:
  assumes "guards_fit (le_plan env)" "hd parts \<in> fst ` set ALU_OPCODES"
  shows "yields env n (lower_alu env k i parts) (\<lambda>_. True)"
proof -
  obtain opc where opc: "map_of ALU_OPCODES (hd parts) = Some opc" "opc \<in> set PLAIN_OPCODES"
    using assms(2) by (auto simp: ALU_OPCODES_def PLAIN_OPCODES_def)
  show ?thesis
    unfolding lower_alu_def Let_def opc(1) option.case
    by (intro yields_intros yields_wide assms(1)) (simp_all add: aec_def typed_plain opc(2))
qed

lemma yields_ld_param:
  assumes "guards_fit (le_plan env)"
  shows "yields env n (lower_ld_param env k i t) (\<lambda>_. True)"
  unfolding lower_ld_param_def Let_def by (intro yields_intros assms) (simp_all add: typed_forms)

lemma yields_ld_global:
  assumes "guards_fit (le_plan env)"
  shows "yields env n (lower_ld_global env k i t) (\<lambda>_. True)"
  unfolding lower_ld_global_def by (intro yields_intros assms) (simp_all add: typed_forms)

lemma yields_st_global:
  assumes "guards_fit (le_plan env)"
  shows "yields env n (lower_st_global env k i t) (\<lambda>_. True)"
  unfolding lower_st_global_def by (intro yields_intros assms) (simp_all add: typed_forms)

lemma yields_mov:
  assumes "guards_fit (le_plan env)" "specials_fit (le_profile env)"
  shows "yields env n (lower_mov env k i t) (\<lambda>_. True)"
  unfolding lower_mov_def Let_def
  by (intro yields_intros assms(1)) (simp_all add: typed_forms special_range [OF assms(2)])

text \<open>A comparison needs a name; \<^verbatim>\<open>setp..u32\<close> has an empty one.\<close>

definition names_comparison :: "PTXInstruction \<Rightarrow> bool" where
  "names_comparison i = (let parts = opcode_parts (inst_opcode i) in
     if hd parts = ''setp'' \<and> 3 \<le> length parts then parts ! 1 \<noteq> [] else True)"

lemma yields_instruction:
  assumes "guards_fit (le_plan env)" "specials_fit (le_profile env)" "0 \<le> n" "names_comparison i"
  shows "yields env n (lower_instruction env k i) (\<lambda>_. True)"
  unfolding lower_instruction_def Let_def
  by (intro yields_if yields_fail yields_ld_param yields_ld_global yields_st_global yields_mov yields_setp yields_bra
      yields_emit yields_cvt yields_alu assms(1-3))
    (use assms(4) in \<open>auto simp: names_comparison_def Let_def typed_forms\<close>)

subsection \<open>The control plan\<close>

lemma fold_update_guards:
  "map_of (fold (\<lambda>k. AList.update k g) ks d) k = Some x \<Longrightarrow> x = g \<or> map_of d k = Some x"
  by (induction ks arbitrary: d) (force simp: update_conv' split: if_splits)+

lemma legalized_guards:
  assumes "try_legalize_forward_exit p labels k f plan = Inr (Some plan')" "guards_fit plan"
  shows "guards_fit plan'"
proof -
  obtain t m ks neg where "predicate_number t = Inr m"
    "item_guards plan' = fold (\<lambda>k. AList.update k \<lparr>ig_predicate = m, ig_negated = neg\<rparr>) ks (item_guards plan)"
    using assms(1) unfolding try_legalize_forward_exit_def Let_def
    by (auto split: item.splits option.splits list.splits if_splits)
  then show ?thesis
    using assms(2) predicate_number_range fold_update_guards unfolding guards_fit_def by fastforce
qed

lemma plan_guards:
  assumes "build_control_plan p g f = Inr plan"
  shows "guards_fit plan"
  using assms unfolding build_control_plan_def
proof (rule fold_r_keeps)
  fix b plan plan' assume "plan_branch p (label_indices p) f b plan = Inr plan'" "guards_fit plan"
  then show "guards_fit plan'"
    using legalized_guards by (auto simp: plan_branch_def guards_fit_def split: prod.splits option.splits if_splits)
qed (simp add: guards_fit_def)

subsection \<open>Programs\<close>

lemma tidy_item:
  assumes "lower_item env (k, it) s = Inr s'" "tidy env n s"
    and "guards_fit (le_plan env)" "specials_fit (le_profile env)" "0 \<le> n"
    and "case it of Label _ \<Rightarrow> True | Inst i \<Rightarrow> names_comparison i"
  shows "tidy env n s'"
proof (cases it)
  case (Label l)
  then have "s' = s\<lparr>ls_labels := AList.update l (int (length (ls_out s))) (ls_labels s)\<rparr>"
    using assms(1) by (simp add: lower_item_def)
  then show ?thesis using assms(2) by (auto simp: tidy_def bounded_def placement_of_def update_conv' split: if_splits)
next
  case (Inst i)
  have reset: "tidy env n (s\<lparr>ls_regs := reset_temps (ls_regs s)\<rparr>)"
    using tidyI [OF assms(2) bounded_reset] assms(2) by (simp add: tidy_def)
  have "s' = s \<or> (\<exists>u. lower_instruction env k i (s\<lparr>ls_regs := reset_temps (ls_regs s)\<rparr>) = Inr (u, s'))"
    using assms(1) Inst by (auto simp: lower_item_def split: if_splits)
  then show ?thesis
    using yieldsD [OF yields_instruction _ reset] assms Inst by auto
qed

lemma tidy_run:
  assumes "fold_r (lower_item env) xs s = Inr s'" "tidy env n s"
    and "guards_fit (le_plan env)" "specials_fit (le_profile env)" "0 \<le> n"
    and "\<forall>(k, it) \<in> set xs. case it of Label _ \<Rightarrow> True | Inst i \<Rightarrow> names_comparison i"
  shows "tidy env n s'"
  using assms(1,2,6)
proof (induction xs arbitrary: s)
  case (Cons x xs)
  obtain t where t: "lower_item env x s = Inr t" "fold_r (lower_item env) xs t = Inr s'"
    using Cons.prems(1) by auto
  have "tidy env n t"
    using tidy_item [of env "fst x" "snd x" s t n] t(1) Cons.prems assms(3-5) by (cases x) auto
  then show ?case using Cons.IH t(2) Cons.prems(3) by simp
qed simp

lemma patched_typed:
  assumes "fold_r (patch_branch labels) ps out = Inr out'" "list_all (well_typed prof n) out" "n < 2 ^ 32"
    and "\<And>l v. map_of labels l = Some v \<Longrightarrow> 0 \<le> v \<and> v \<le> n"
  shows "list_all (well_typed prof n) out' \<and> length out' = length out"
  using assms(1)
proof (rule fold_r_keeps)
  fix pb xs ys assume step: "patch_branch labels pb xs = Inr ys" and "list_all (well_typed prof n) xs \<and> length xs = length out"
  obtain k l v where "pb = (k, l)" "map_of labels l = Some v" "ys = xs[k := (xs ! k)\<lparr>imm := v\<rparr>]"
    using step by (auto simp: patch_branch_def split: prod.splits option.splits)
  moreover from this have "k < length xs \<Longrightarrow> well_typed prof n ((xs ! k)\<lparr>imm := v\<rparr>)"
    using \<open>list_all (well_typed prof n) xs \<and> length xs = length out\<close> well_typed_target assms(3,4)
    by (simp add: list_all_length)
  ultimately show "list_all (well_typed prof n) ys \<and> length ys = length out"
    using \<open>list_all (well_typed prof n) xs \<and> length xs = length out\<close>
    by (cases "k < length xs") (auto simp: list_all_length nth_list_update)
qed (use assms(2) in simp)

definition comparisons_named :: "PTXProgram \<Rightarrow> bool" where
  "comparisons_named p = list_all (\<lambda>it. case it of Label _ \<Rightarrow> True | Inst i \<Rightarrow> names_comparison i) (items p)"

lemma c1_specials_fit: "specials_fit C1_DEFAULT"
  by code_simp

lemma track_b_specials_fit: "specials_fit TRACK_B_V1"
  by code_simp

lemma program_typed:
  assumes "lower_program p prof mapping = Inr lp" "prof \<in> {C1_DEFAULT, TRACK_B_V1}" "comparisons_named p"
    and "length (lowered_instructions lp) < 2 ^ 32" "\<And>v r. map_of mapping v = Some r \<Longrightarrow> 1 \<le> r \<and> r \<le> 239"
  shows "list_all (well_typed prof (int (length (lowered_instructions lp)))) (lowered_instructions lp)"
proof -
  obtain env s out where env: "new_lower_env p prof = Inr env"
    and all: "fold_r (lower_item env) (enumerate 0 (items p)) (new_lower_state mapping) = Inr s"
    and out: "fold_r (patch_branch (ls_labels s)) (ls_pending s) (ls_out s) = Inr out"
    and lp: "lowered_instructions lp = out"
    using assms(1) by (auto simp: lower_program_def)
  have plan: "guards_fit (le_plan env)" "le_profile env = prof"
    using env plan_guards by (auto simp: new_lower_env_def)
  have "specials_fit prof" using assms(2) c1_specials_fit track_b_specials_fit by auto
  moreover have "\<forall>(k, it) \<in> set (enumerate 0 (items p)). case it of Label _ \<Rightarrow> True | Inst i \<Rightarrow> names_comparison i"
    using assms(3) by (auto simp: comparisons_named_def list_all_length in_set_enumerate_eq)
  moreover have "tidy env (int (length out)) (new_lower_state mapping)"
    using assms(5) by (simp add: tidy_def bounded_def placement_of_def new_lower_state_def new_allocator_def)
  ultimately have t: "tidy env (int (length out)) s"
    using tidy_run [OF all _ plan(1)] plan(2) by simp
  have "length out = length (ls_out s)"
    using out by (rule fold_r_keeps) (auto simp: patch_branch_def split: prod.splits option.splits)
  then show ?thesis
    using patched_typed [OF out] t assms(4) plan(2) unfolding lp tidy_def by auto
qed

text \<open>
  C7. For any register mapping within 1 to 239 (none, or the one of the register allocation pass) and a
  kernel whose \<^verbatim>\<open>setp\<close> instructions name a comparison, every instruction of the lowered program, below
  \<open>2^32\<close> of them, is well typed: its registers are in the register file, its predicates exist, its
  optional fields are those of its opcode, and a branch goes to an instruction of the program or to its
  end.
\<close>

theorem lower_program_typed:
  assumes "lower_program p prof mapping = Inr lp" "prof \<in> {C1_DEFAULT, TRACK_B_V1}" "comparisons_named p"
    and "length (lowered_instructions lp) < 2 ^ 32" "list_all (\<lambda>(v, r). 1 \<le> r \<and> r \<le> 239) mapping"
  shows "list_all (well_typed prof (int (length (lowered_instructions lp)))) (lowered_instructions lp)"
proof (rule program_typed [OF assms(1-4)])
  fix v r
  assume "map_of mapping v = Some r"
  from map_of_SomeD [OF this] show "1 \<le> r \<and> r \<le> 239" using assms(5) by (auto simp: list_all_iff)
qed

lemma loop_compares: "comparisons_named loop_ptx"
  by code_simp

lemma loop_length:
  "case lower_program loop_ptx TRACK_B_V1 [(''%r1'', 7)] of Inl _ \<Rightarrow> False | Inr lp \<Rightarrow> length (lowered_instructions lp) = 21"
  by code_simp

theorem lower_program_typed_witness:
  "\<exists>lp. lower_program loop_ptx TRACK_B_V1 [(''%r1'', 7)] = Inr lp \<and> lowered_instructions lp \<noteq> [] \<and>
     list_all (well_typed TRACK_B_V1 21) (lowered_instructions lp)"
proof -
  obtain lp where lp: "lower_program loop_ptx TRACK_B_V1 [(''%r1'', 7)] = Inr lp" "length (lowered_instructions lp) = 21"
    using loop_length by (auto split: sum.splits)
  then show ?thesis using lower_program_typed [OF lp(1) _ loop_compares] by fastforce
qed

end
