(* ===== verification/Compiler_Correct.thy ===== *)
theory Compiler_Correct
  imports Lower_Typed Compiler
begin

text \<open>
  The compiler as a whole, at the level that transforms nothing: what the text of a kernel means in
  the reference semantics is what the simulator makes of the bytes of the binary.
\<close>

subsection \<open>The pipeline of level 0\<close>

lemma map_error_Inr [simp]: "map_error w r = Inr x \<longleftrightarrow> r = Inr x"
  by (simp add: map_error_def split: sum.split)

lemma validate_unchanged: "validate_program m = Inr (m', r) \<Longrightarrow> m' = m"
  by (auto simp: validate_program_def split: if_splits)

lemma materialize_unchanged:
  "materialize_cfg m am = Inr (m', am', r) \<Longrightarrow> mod_program m' = mod_program m \<and> metadata m' = metadata m"
  by (auto simp: materialize_cfg_def Let_def)

lemma O0_unchanged:
  assumes "pm_run \<lparr>pm_name = nm, pm_passes = O0_passes\<rparr> m am = Inr (m', am', recs)"
  shows "mod_program m' = mod_program m \<and> metadata m' = metadata m"
  using assms validate_unchanged materialize_unchanged
  by (fastforce simp: pm_run_def O0_passes_def run_pass_def validate_pass_def materialize_cfg_pass_def plain_pass_def Let_def)

text \<open>At level 0 the compiler lowers the program it parsed, and nothing else.\<close>

lemma compile_level_0:
  assumes "compile_ptx h text prof ''0'' = Inr lp"
  shows "\<exists>p. parse_ptx text = Inr p \<and> lower_program p prof [] = Inr lp"
proof -
  obtain p m am recs where p: "parse_ptx text = Inr p"
    and m: "pm_run \<lparr>pm_name = ''O0-foundation'', pm_passes = O0_passes\<rparr> (module_from_program text p)
        build_default_analysis_manager = Inr (m, am, recs)"
    and low: "lower_and_schedule ''0'' prof m = Inr lp"
    using assms by (auto simp: compile_ptx_def compile_ptx_detailed_def build_pipeline_def split: if_splits)
  have "mod_program m = p" "register_mapping_of m = []"
    using O0_unchanged [OF m] by (simp_all add: module_from_program_def register_mapping_of_def)
  then show ?thesis using p low by (simp add: lower_and_schedule_def)
qed

subsection \<open>From text to bytes\<close>

text \<open>The binary of a program that can be stored reads back as code that runs like it.\<close>

lemma binary_code:
  assumes "prof \<in> {C1_DEFAULT, TRACK_B_V1}" "list_all storable prog" "instructions_to_bytes prof prog = Inr bs"
  shows "\<exists>words code. bytes_to_words bs = Inr words \<and> map_r (decode_words_to_instruction prof) words = Inr code \<and>
    (\<forall>c s. sim_run (c\<lparr>instructions := code\<rparr>) s = sim_run (c\<lparr>instructions := prog\<rparr>) s)"
  using stored_words [OF assms] sim_run_stored [OF assms(2)] by blast

text \<open>
  C1. The compiler is correct at level 0 on lowerable kernels and warps of one lane. Let a kernel be
  accepted at level 0 and written as a binary below \<open>2^36\<close> bytes. It must be lowerable: its labels are
  distinct, the control plan turns no branch into guards, \<^verbatim>\<open>ret\<close> and \<^verbatim>\<open>ld.param\<close> have no guard, there
  is no \<^verbatim>\<open>cvt\<close>, guards and \<^verbatim>\<open>setp\<close> results are among \<^verbatim>\<open>%p0\<close> to \<^verbatim>\<open>%p7\<close>, 64-bit results go to \<^verbatim>\<open>%rd\<close>
  registers, its parameters lie inside parameter memory; and each \<^verbatim>\<open>setp\<close> names its comparison. If it
  ends in the reference semantics, thread by thread, on a grid of positive dimensions with one lane per
  warp (warp size 1, or one thread per block), then decoding the binary and simulating it gives the same
  memory and the same accesses in the same order, given enough steps.
\<close>

theorem o0_compiler_correct:
  assumes "compile_ptx h text prof ''0'' = Inr lp" "write_binary lp prof = Inr bs" "prof \<in> {C1_DEFAULT, TRACK_B_V1}"
    and "parse_ptx text = Inr p" "lowerable_program prof (length (pmem s)) p" "comparisons_named p" "length bs < 2 ^ 36"
    and "dim_ok bd" "dim_ok gd" "single_lanes bd ws"
    and "ptx_grid \<lparr>env_host = h, env_params = parameter_offsets lp\<rparr> p n bd gd ws s = Some s'"
  shows "\<exists>words code N. bytes_to_words bs = Inr words \<and> map_r (decode_words_to_instruction prof) words = Inr code \<and>
    (\<forall>k \<ge> N. \<exists>t. sim_run \<lparr>host = h, instructions = code, cfg_block_dim = bd, cfg_grid_dim = gd,
        cfg_warp_size = ws, max_steps = int k\<rparr> s = Inr t \<and>
      gmem t = gmem s' \<and> pmem t = pmem s' \<and> accesses t = accesses s')"
proof -
  have low: "lower_program p prof [] = Inr lp" using compile_level_0 [OF assms(1)] assms(4) by simp
  have bytes: "instructions_to_bytes prof (lowered_instructions lp) = Inr bs"
    using assms(2) by (simp add: write_binary_def)
  have "length (lowered_instructions lp) < 2 ^ 32" using instructions_to_bytes_words(1) [OF bytes] assms(7) by simp
  then have "list_all storable (lowered_instructions lp)"
    using program_typed [OF low assms(3,6)] by (auto simp: list_all_iff well_typed_def)
  then obtain words code where code: "bytes_to_words bs = Inr words" "map_r (decode_words_to_instruction prof) words = Inr code"
    "\<And>c s. sim_run (c\<lparr>instructions := code\<rparr>) s = sim_run (c\<lparr>instructions := lowered_instructions lp\<rparr>) s"
    using binary_code [OF assms(3) _ bytes] by metis
  from lowered_grid [OF low assms(3,5,8-11)]
  obtain N where N: "\<And>k. k \<ge> N \<Longrightarrow> \<exists>t. sim_run \<lparr>host = h, instructions = lowered_instructions lp, cfg_block_dim = bd,
      cfg_grid_dim = gd, cfg_warp_size = ws, max_steps = int k\<rparr> s = Inr t \<and>
    gmem t = gmem s' \<and> pmem t = pmem s' \<and> accesses t = accesses s'" by blast
  have "sim_run \<lparr>host = h, instructions = code, cfg_block_dim = bd, cfg_grid_dim = gd, cfg_warp_size = ws, max_steps = k\<rparr> s =
      sim_run \<lparr>host = h, instructions = lowered_instructions lp, cfg_block_dim = bd, cfg_grid_dim = gd,
        cfg_warp_size = ws, max_steps = k\<rparr> s" for k
    using code(3) [of "\<lparr>host = h, instructions = [], cfg_block_dim = bd, cfg_grid_dim = gd, cfg_warp_size = ws, max_steps = k\<rparr>"]
    by simp
  then show ?thesis using code(1,2) N by (intro exI conjI) auto
qed

text \<open>A kernel as a file holds it: two threads count to three and store a value each.\<close>

definition kernel_lines :: "string list" where
  "kernel_lines =
    [''.version 7.0'',
     ''.visible .entry count ('',
     ''  .param .u64 A'',
     '')'',
     ''{'',
     ''  .reg .pred %p<2>;'',
     ''  mov.u32 %r1, %tid.x;'',
     ''  mov.u32 %r2, 0;'',
     ''LOOP:'',
     ''  add.u32 %r2, %r2, 1;  // one more round'',
     ''  setp.lt.u32 %p1, %r2, 3;'',
     ''  @%p1 bra LOOP;'',
     ''  ld.param.u64 %rd1, [A];'',
     ''  mul.wide.u32 %rd2, %r1, 4;'',
     ''  add.u64 %rd3, %rd1, %rd2;'',
     ''  mad.lo.u32 %r3, %r2, 2, %r1;'',
     ''  st.global.u32 [%rd3], %r3;'',
     ''  ret;'',
     ''}'']"

definition kernel_text :: string where
  "kernel_text = concat (map (\<lambda>l. l @ [CHR 0x0A]) kernel_lines)"

lemma kernel_parsed:
  "case parse_ptx kernel_text of Inl _ \<Rightarrow> False | Inr p \<Rightarrow>
   lowerable_program TRACK_B_V1 8 p \<and> comparisons_named p \<and>
   map_option gmem (ptx_grid \<lparr>env_host = demo_host, env_params = [(''A'', 0)]\<rparr> p 40 (2, 1, 1) (1, 1, 1) 1 loop_start) =
     Some [6, 0, 0, 0, 7, 0, 0, 0]"
  by code_simp

lemma kernel_compiled:
  "case compile_ptx demo_host kernel_text TRACK_B_V1 ''0'' of Inl _ \<Rightarrow> False | Inr lp \<Rightarrow>
    parameter_offsets lp = [(''A'', 0)] \<and>
    (case write_binary lp TRACK_B_V1 of Inl _ \<Rightarrow> False | Inr bs \<Rightarrow> length bs = 320)"
  by code_simp

theorem o0_compiler_correct_witness:
  "\<exists>lp bs words code N. compile_ptx demo_host kernel_text TRACK_B_V1 ''0'' = Inr lp \<and>
     write_binary lp TRACK_B_V1 = Inr bs \<and> length bs = 320 \<and> bytes_to_words bs = Inr words \<and>
     map_r (decode_words_to_instruction TRACK_B_V1) words = Inr code \<and>
     (\<forall>k \<ge> N. \<exists>t. sim_run \<lparr>host = demo_host, instructions = code, cfg_block_dim = (2, 1, 1), cfg_grid_dim = (1, 1, 1),
         cfg_warp_size = 1, max_steps = int k\<rparr> loop_start = Inr t \<and> gmem t = [6, 0, 0, 0, 7, 0, 0, 0])"
proof -
  obtain lp bs where lp: "compile_ptx demo_host kernel_text TRACK_B_V1 ''0'' = Inr lp" "parameter_offsets lp = [(''A'', 0)]"
    "write_binary lp TRACK_B_V1 = Inr bs" "length bs = 320"
    using kernel_compiled by (auto split: sum.splits)
  obtain p where p: "parse_ptx kernel_text = Inr p" "lowerable_program TRACK_B_V1 8 p" "comparisons_named p"
    "map_option gmem (ptx_grid \<lparr>env_host = demo_host, env_params = [(''A'', 0)]\<rparr> p 40 (2, 1, 1) (1, 1, 1) 1 loop_start) =
       Some [6, 0, 0, 0, 7, 0, 0, 0]"
    using kernel_parsed by (auto split: sum.splits)
  then obtain s' where s': "ptx_grid \<lparr>env_host = demo_host, env_params = parameter_offsets lp\<rparr> p 40 (2, 1, 1) (1, 1, 1) 1
      loop_start = Some s'" "gmem s' = [6, 0, 0, 0, 7, 0, 0, 0]"
    using lp(2) by auto
  have "lowerable_program TRACK_B_V1 (length (pmem loop_start)) p"
    using p(2) by (simp add: loop_start_def new_sim_state_def)
  then obtain words code N where "bytes_to_words bs = Inr words" "map_r (decode_words_to_instruction TRACK_B_V1) words = Inr code"
    "\<forall>k \<ge> N. \<exists>t. sim_run \<lparr>host = demo_host, instructions = code, cfg_block_dim = (2, 1, 1), cfg_grid_dim = (1, 1, 1),
         cfg_warp_size = 1, max_steps = int k\<rparr> loop_start = Inr t \<and>
       gmem t = gmem s' \<and> pmem t = pmem s' \<and> accesses t = accesses s'"
    using o0_compiler_correct [OF lp(1,3) _ p(1) _ p(3) _ _ _ _ s'(1)] lp(4) by (auto simp: single_lanes_def)
  then show ?thesis using lp s'(2) by metis
qed

end
