(* ===== verification/Lower_Forward.thy ===== *)
theory Lower_Forward
  imports Lower_Correct
begin

unbundle bit_operations_syntax

text \<open>
  A kernel whose branches only go forward always comes to an end: the lowering keeps the direction
  of every branch, and the simulator then passes each instruction at most once.
\<close>

subsection \<open>Kernels without a backward branch\<close>

fun forward_items :: "string list \<Rightarrow> item list \<Rightarrow> bool" where
  "forward_items seen [] = True"
| "forward_items seen (Label l # its) = forward_items (l # seen) its"
| "forward_items seen (Inst i # its) =
     ((if opcode_base (inst_opcode i) = ''bra'' then list_all (\<lambda>l. l \<notin> set seen) (operands i) else True) \<and>
      forward_items seen its)"

definition forward_only :: "PTXProgram \<Rightarrow> bool" where
  "forward_only p = forward_items [] (items p)"

definition is_jump :: "AECInstruction \<Rightarrow> bool" where
  "is_jump i \<longleftrightarrow> py_upper (opcode i) = ''BR'' \<or> py_upper (opcode i) = ''BRX''"

definition forward_code :: "AECInstruction list \<Rightarrow> bool" where
  "forward_code prog \<longleftrightarrow> (\<forall>k < length prog. is_jump (prog ! k) \<longrightarrow> int k < imm (prog ! k))"

subsection \<open>Emitting no branch\<close>

text \<open>Every handler other than the one of \<^verbatim>\<open>bra\<close> adds plain instructions only.\<close>

definition jump_free :: "'a lowering \<Rightarrow> bool" where
  "jump_free m \<longleftrightarrow> (\<forall>s x s'. m s = Inr (x, s') \<longrightarrow> ls_pending s' = ls_pending s \<and> ls_labels s' = ls_labels s \<and>
     (\<exists>xs. ls_out s' = ls_out s @ xs \<and> list_all (\<lambda>i. \<not> is_jump i) xs))"

named_theorems jump_free_intros

lemma jump_freeI:
  "(\<And>s x s'. m s = Inr (x, s') \<Longrightarrow> ls_pending s' = ls_pending s \<and> ls_labels s' = ls_labels s \<and> ls_out s' = ls_out s) \<Longrightarrow>
    jump_free m"
  unfolding jump_free_def by fastforce

lemma jump_free_lbind [jump_free_intros]:
  assumes "jump_free m" "\<And>x. jump_free (f x)"
  shows "jump_free (lbind m f)"
  unfolding jump_free_def
proof (intro allI impI)
  fix s y s' assume "lbind m f s = Inr (y, s')"
  then obtain x t where "m s = Inr (x, t)" "f x t = Inr (y, s')" by auto
  then show "ls_pending s' = ls_pending s \<and> ls_labels s' = ls_labels s \<and>
     (\<exists>xs. ls_out s' = ls_out s @ xs \<and> list_all (\<lambda>i. \<not> is_jump i) xs)"
    using assms unfolding jump_free_def by fastforce
qed

lemma jump_free_lift [jump_free_intros]: "jump_free (lift_l r)"
  by (rule jump_freeI) auto

lemma jump_free_if [jump_free_intros]:
  "(c \<Longrightarrow> jump_free a) \<Longrightarrow> (\<not> c \<Longrightarrow> jump_free b) \<Longrightarrow> jump_free (if c then a else b)"
  by simp

lemma jump_free_option [jump_free_intros]:
  "jump_free a \<Longrightarrow> (\<And>x. jump_free (f x)) \<Longrightarrow> jump_free (case z of None \<Rightarrow> a | Some x \<Rightarrow> f x)"
  by (cases z) simp_all

lemma jump_free_require [jump_free_intros]: "jump_free (require_operands i n)"
  unfolding require_operands_def by (rule jump_free_lift)

lemma jump_free_regs [jump_free_intros]: "jump_free (on_regs f)"
  by (rule jump_freeI) (auto simp: on_regs_def)

lemma jump_free_reg [jump_free_intros]: "jump_free (ptx_reg t p)"
  unfolding ptx_reg_def Let_def by (rule jump_free_regs)

lemma jump_free_emit [jump_free_intros]: "\<not> is_jump x \<Longrightarrow> jump_free (emit env k x)"
  by (auto simp: jump_free_def emit_def Let_def is_jump_def split: option.splits)

lemma jump_free_guarded [jump_free_intros]:
  assumes "\<not> is_jump x"
  shows "jump_free (emit_guarded env k i x)"
proof -
  have "jump_free (lbind (lift_l (with_guard i x)) (emit env k))"
    using assms by (auto simp: jump_free_def emit_def Let_def is_jump_def with_guard_def split: option.splits)
  then show ?thesis by (simp add: emit_guarded_def)
qed

lemma jump_free_load [jump_free_intros]: "jump_free (load_imm env k v)"
  unfolding load_imm_def by (intro jump_free_intros) (simp add: is_jump_def aec_def)

lemma jump_free_operand [jump_free_intros]: "jump_free (operand_reg env k t p)"
  unfolding operand_reg_def by (intro jump_free_intros)

lemma conversion_no_jump: "py_upper (conversion_opcode d s) \<noteq> ''BR'' \<and> py_upper (conversion_opcode d s) \<noteq> ''BRX''"
proof -
  have "list_all (\<lambda>op. py_upper op \<noteq> ''BR'' \<and> py_upper op \<noteq> ''BRX'') [''CVTFF'', ''CVTFI'', ''CVTIF'', ''CVTII'']"
    by code_simp
  then show ?thesis by (simp add: conversion_opcode_def Let_def)
qed

lemma jump_free_wide [jump_free_intros]: "op \<in> {''ADD'', ''MUL''} \<Longrightarrow> jump_free (emit_wide env k i op p)"
  unfolding emit_wide_def by (intro jump_free_intros) (auto simp: is_jump_def aec_def)

lemma jump_free_alu:
  assumes "hd parts \<in> fst ` set ALU_OPCODES"
  shows "jump_free (lower_alu env k i parts)"
proof -
  obtain opc where opc: "map_of ALU_OPCODES (hd parts) = Some opc" "py_upper opc \<noteq> ''BR''" "py_upper opc \<noteq> ''BRX''"
    using assms by (auto simp: ALU_OPCODES_def)
  show ?thesis
    unfolding lower_alu_def Let_def opc(1) option.case
    by (intro jump_free_intros) (use opc(2,3) in \<open>simp_all add: is_jump_def aec_def\<close>)
qed

lemma jump_free_handlers:
  "jump_free (lower_ld_param env k i t)" "jump_free (lower_ld_global env k i t)" "jump_free (lower_st_global env k i t)"
  "jump_free (lower_mov env k i t)" "jump_free (lower_setp env k i parts)" "jump_free (lower_cvt env k i parts)"
  unfolding lower_ld_param_def lower_ld_global_def lower_st_global_def lower_mov_def lower_setp_def lower_cvt_def Let_def
  by (intro jump_free_intros; simp add: is_jump_def aec_def conversion_no_jump)+

lemma jump_free_instruction:
  assumes "opcode_base (inst_opcode i) \<noteq> ''bra''"
  shows "jump_free (lower_instruction env k i)"
  unfolding lower_instruction_def Let_def
  by (intro jump_free_if jump_free_handlers jump_free_alu jump_free_lift jump_free_emit)
    (use assms in \<open>simp_all add: is_jump_def aec_def\<close>)

subsection \<open>Where the branches go\<close>

definition facing :: "lower_state \<Rightarrow> bool" where
  "facing s \<longleftrightarrow> distinct (map fst (ls_pending s)) \<and>
     (\<forall>(j, l) \<in> set (ls_pending s). j < length (ls_out s) \<and> (\<forall>v. map_of (ls_labels s) l = Some v \<longrightarrow> int j < v)) \<and>
     (\<forall>j < length (ls_out s). is_jump (ls_out s ! j) \<longrightarrow> j \<in> fst ` set (ls_pending s))"

lemma facing_jump_free:
  assumes "jump_free m" "m s = Inr (x, s')" "facing s"
  shows "facing s' \<and> ls_labels s' = ls_labels s"
proof -
  obtain xs where xs: "ls_out s' = ls_out s @ xs" "list_all (\<lambda>i. \<not> is_jump i) xs" "ls_pending s' = ls_pending s"
    "ls_labels s' = ls_labels s"
    using assms(1,2) unfolding jump_free_def by blast
  have "\<not> is_jump ((ls_out s @ xs) ! j)" if "length (ls_out s) \<le> j" "j < length (ls_out s) + length xs" for j
    using xs(2) that by (simp add: nth_append list_all_length)
  then show ?thesis
    using assms(3) xs(1,3,4) unfolding facing_def by (force simp: nth_append)
qed

lemma facing_bra:
  assumes "lower_bra env k i s = Inr (x, s')" "facing s" "list_all (\<lambda>l. map_of (ls_labels s) l = None) (operands i)"
  shows "facing s' \<and> ls_labels s' = ls_labels s"
proof -
  obtain l y where l: "operands i = [l]"
    and s': "ls_pending s' = ls_pending s @ [(length (ls_out s), l)]" "ls_out s' = ls_out s @ [y]" "ls_labels s' = ls_labels s"
    using assms(1) by (auto simp: lower_bra_def add_pending_def emit_def Let_def length_Suc_conv)
  have "length (ls_out s) \<notin> fst ` set (ls_pending s)" using assms(2) by (force simp: facing_def)
  then show ?thesis
    using assms(2,3) l s' unfolding facing_def by (fastforce simp: nth_append less_Suc_eq)
qed

lemma facing_item:
  assumes "lower_item env (k, it) s = Inr s'" "facing s"
    and "case it of Label _ \<Rightarrow> True | Inst i \<Rightarrow>
      (if opcode_base (inst_opcode i) = ''bra'' then list_all (\<lambda>l. map_of (ls_labels s) l = None) (operands i) else True)"
  shows "facing s' \<and> fst ` set (ls_labels s') = (case it of Label l \<Rightarrow> {l} | Inst _ \<Rightarrow> {}) \<union> fst ` set (ls_labels s)"
proof (cases it)
  case (Label l)
  then have "s' = s\<lparr>ls_labels := AList.update l (int (length (ls_out s))) (ls_labels s)\<rparr>"
    using assms(1) by (simp add: lower_item_def)
  moreover have "fst ` set (AList.update l v d) = insert l (fst ` set d)" for v and d :: "int dict"
    by (induction d) auto
  ultimately show ?thesis using assms(2) Label by (auto simp: facing_def update_conv')
next
  case (Inst i)
  let ?s = "s\<lparr>ls_regs := reset_temps (ls_regs s)\<rparr>"
  have f: "facing ?s" using assms(2) by (simp add: facing_def)
  have "s' = s \<or> (\<exists>u. lower_instruction env k i ?s = Inr (u, s'))"
    using assms(1) Inst by (auto simp: lower_item_def split: if_splits)
  then have "facing s' \<and> ls_labels s' = ls_labels s"
  proof
    assume "\<exists>u. lower_instruction env k i ?s = Inr (u, s')"
    then obtain u where u: "lower_instruction env k i ?s = Inr (u, s')" by blast
    show ?thesis
    proof (cases "opcode_base (inst_opcode i) = ''bra''")
      case True
      then have "lower_bra env k i ?s = Inr (u, s')" using u by (simp add: lower_instruction_def Let_def)
      then show ?thesis using facing_bra [OF _ f] assms(3) Inst True by simp
    next
      case False
      then show ?thesis using facing_jump_free [OF jump_free_instruction u f] by simp
    qed
  qed (use assms(2) in simp)
  then show ?thesis using Inst by simp
qed

lemma facing_run:
  assumes "fold_r (lower_item env) (enumerate k its) s = Inr s'" "facing s" "forward_items seen its"
    "fst ` set (ls_labels s) = set seen"
  shows "facing s'"
  using assms
proof (induction its arbitrary: k s seen)
  case (Cons it its)
  obtain t where t: "lower_item env (k, it) s = Inr t" "fold_r (lower_item env) (enumerate (Suc k) its) t = Inr s'"
    using Cons.prems(1) by auto
  have none: "map_of (ls_labels s) l = None" if "l \<notin> set seen" for l
    using that Cons.prems(4) by (simp add: map_of_eq_None_iff)
  have step: "facing t \<and> fst ` set (ls_labels t) = (case it of Label l \<Rightarrow> {l} | Inst _ \<Rightarrow> {}) \<union> fst ` set (ls_labels s)"
    by (rule facing_item [OF t(1) Cons.prems(2)]) (use Cons.prems(3) none in \<open>auto simp: list_all_iff split: item.split\<close>)
  show ?case
  proof (cases it)
    case (Label l)
    then show ?thesis using Cons.IH [OF t(2), of "l # seen"] Cons.prems(3,4) step by simp
  next
    case (Inst i)
    then show ?thesis using Cons.IH [OF t(2), of seen] Cons.prems(3,4) step by simp
  qed
qed simp

lemma lowered_forward:
  assumes "lower_program p prof mapping = Inr lp" "forward_only p"
  shows "forward_code (lowered_instructions lp)"
proof -
  obtain env s out where all: "fold_r (lower_item env) (enumerate 0 (items p)) (new_lower_state mapping) = Inr s"
    and out: "fold_r (patch_branch (ls_labels s)) (ls_pending s) (ls_out s) = Inr out" and lp: "lowered_instructions lp = out"
    using assms(1) by (auto simp: lower_program_def)
  have "facing (new_lower_state mapping)" by (simp add: facing_def new_lower_state_def)
  then have f: "facing s" using facing_run [OF all] assms(2) by (auto simp: forward_only_def new_lower_state_def)
  then have "\<forall>j \<in> set (map fst (ls_pending s)). j < length (ls_out s)" "distinct (map fst (ls_pending s))"
    by (auto simp: facing_def)
  note pt = patched [OF out this(2,1)]
  show ?thesis
    unfolding forward_code_def lp
  proof (intro allI impI)
    fix j assume j: "j < length out" "is_jump (out ! j)"
    show "int j < imm (out ! j)"
    proof (cases "j \<in> fst ` set (ls_pending s)")
      case True
      then obtain l where l: "(j, l) \<in> set (ls_pending s)" by auto
      then obtain t where "map_of (ls_labels s) l = Some t" "out ! j = (ls_out s ! j)\<lparr>imm := t\<rparr>" using pt by blast
      then show ?thesis using f l by (auto simp: facing_def)
    next
      case False
      then have "is_jump (ls_out s ! j)" "j < length (ls_out s)" using pt j by auto
      then show ?thesis using f False by (simp add: facing_def)
    qed
  qed
qed

subsection \<open>Running forward\<close>

text \<open>No instruction raises the exception of the step limit.\<close>

definition limitless :: "sim_error + 'a \<Rightarrow> bool" where
  "limitless r \<longleftrightarrow> r \<noteq> Inl StepLimitExceeded"

lemma limitless_bind: "limitless r \<Longrightarrow> (\<And>x. limitless (f x)) \<Longrightarrow> limitless (bind_r r f)"
  by (cases r) (auto simp: limitless_def)

lemma limitless_basic:
  "limitless (Inr x)" "limitless (get_reg l i)" "limitless (set_reg l i v)" "limitless (set_pred l i q)" "limitless (get_pred l i)"
  "limitless (type_size t)" "limitless (sim_memory s sp)" "limitless (require_space inst)" "limitless (pack_f32 f)"
  "limitless (special_value sel l)" "limitless (sim_compare h c t a b)"
  by (auto simp: limitless_def get_reg_def set_reg_def set_pred_def get_pred_def option_r_def type_size_def sim_memory_def
    require_space_def pack_f32_def special_value_def sim_compare_def Let_def split: option.splits if_splits)

lemma limitless_if: "limitless a \<Longrightarrow> limitless b \<Longrightarrow> limitless (if c then a else b)"
  by simp

lemma limitless_fail: "e \<noteq> StepLimitExceeded \<Longrightarrow> limitless (Inl e)"
  by (simp add: limitless_def)

lemmas limitless_intros = limitless_bind limitless_basic limitless_if

lemma limitless_memory: "limitless (sim_read s sp a n)" "limitless (sim_write s sp a bs)"
  unfolding sim_read_def sim_write_def Let_def by (intro limitless_intros; simp add: limitless_def)+

lemma limitless_values:
  "limitless (copy_value inst l)" "limitless (mad_result h t a b c)" "limitless (fma_result h t a b c)"
  unfolding copy_value_def mad_result_def fma_result_def by (intro limitless_intros)+

lemma limitless_binary: "limitless (binary_result h t f a b)"
  by (cases f) (simp_all add: Let_def limitless_basic)

lemma limitless_reg: "(\<And>a b. limitless (f a b)) \<Longrightarrow> limitless (reg2 l inst f)"
  "(\<And>a b c. limitless (g a b c)) \<Longrightarrow> limitless (reg3 l inst g)"
  unfolding reg3_def reg2_def by (intro limitless_intros; simp)+

lemma limitless_upd: "limitless r \<Longrightarrow> limitless (upd_reg l s d r)"
  unfolding upd_reg_def by (intro limitless_intros)

lemma limitless_execute: "limitless (execute_lane h inst l s)"
  unfolding execute_lane_def execute_load_def execute_store_def Let_def
  by (intro limitless_intros limitless_upd limitless_reg limitless_memory limitless_values limitless_binary;
    simp add: limitless_def)

lemma exec_lanes_limitless: "exec_lanes h inst ls s = Inl (e, s') \<Longrightarrow> e \<noteq> StepLimitExceeded"
proof (induction ls arbitrary: s)
  case (Cons l ls)
  have "limitless (guard_passes inst l)"
    unfolding guard_passes_def by (cases "predicate inst") (auto intro!: limitless_intros)
  then show ?case
    using Cons limitless_execute [of h inst l s] by (auto simp: limitless_def split: sum.splits if_splits)
qed simp

lemma branchx_limitless:
  assumes "branchx_next_pc inst lanes pc s = Inl (e, s')"
  shows "e \<noteq> StepLimitExceeded"
proof -
  have "limitless (map_r (\<lambda>l. get_pred l p) lanes)" for p
    by (induction lanes) (auto intro!: limitless_intros)
  then show ?thesis
    using assms by (auto simp: branchx_next_pc_def limitless_def Let_def split: option.splits sum.splits list.splits if_splits)
qed

lemma branchx_target: "branchx_next_pc inst lanes pc s = Inr (pc', s') \<Longrightarrow> pc' = imm inst \<or> pc' = pc + 1"
  by (auto simp: branchx_next_pc_def Let_def split: option.splits sum.splits list.splits if_splits)

lemma forward_ends:
  assumes "forward_code prog"
  shows "0 \<le> pc \<Longrightarrow> int (length prog) \<le> pc + int fuel \<Longrightarrow> run_warp_loop h prog fuel pc lanes s = Inl (e, s') \<Longrightarrow>
    e \<noteq> StepLimitExceeded"
proof (induction fuel arbitrary: pc lanes s)
  case 0
  then show ?case by (subst (asm) run_warp_loop.simps) auto
next
  case (Suc k)
  show ?case
  proof (cases "pc < int (length prog)")
    case False
    then show ?thesis using Suc.prems(3) unfolding run_warp_loop.simps [of h prog "Suc k" pc] by auto
  next
    case True
    let ?i = "prog ! nat pc"
    have fwd: "pc < imm ?i" if "py_upper (opcode ?i) = ''BR'' \<or> py_upper (opcode ?i) = ''BRX''"
    proof -
      have "is_jump ?i" "nat pc < length prog" using that True Suc.prems(1) by (auto simp: is_jump_def)
      then show ?thesis using assms Suc.prems(1) unfolding forward_code_def by fastforce
    qed
    note run = Suc.prems(3) [unfolded run_warp_loop.simps [of h prog "Suc k" pc]]
    consider (halt) "py_upper (opcode ?i) = ''HALT''" | (br) "py_upper (opcode ?i) = ''BR''" | (brx) "py_upper (opcode ?i) = ''BRX''"
      | (plain) "py_upper (opcode ?i) \<notin> {''HALT'', ''BR'', ''BRX''}" by blast
    then show ?thesis
    proof cases
      case halt
      then show ?thesis using run True Suc.prems(1) by (auto simp: Let_def split: if_splits)
    next
      case br
      then show ?thesis
        using run True Suc.prems(1,2) fwd Suc.IH [of "imm ?i"] by (auto simp: Let_def split: if_splits)
    next
      case brx
      define t where "t = s\<lparr>dynamic_instruction_count := dynamic_instruction_count s + 1\<rparr>"
      have r: "(case branchx_next_pc ?i lanes pc t of Inl e \<Rightarrow> Inl e
          | Inr (pc', s2) \<Rightarrow> run_warp_loop h prog k pc' lanes s2) = Inl (e, s')"
        using run True Suc.prems(1) brx by (simp add: Let_def t_def)
      show ?thesis
      proof (cases "branchx_next_pc ?i lanes pc t")
        case (Inl q)
        then show ?thesis using r branchx_limitless [of ?i lanes pc t e s'] by simp
      next
        case (Inr q)
        then obtain pc' s2 where q: "branchx_next_pc ?i lanes pc t = Inr (pc', s2)" by (cases q) simp
        then have "pc < pc'" using branchx_target [OF q] fwd brx by auto
        then show ?thesis using r q Suc.IH [of pc' lanes s2] Suc.prems(1,2) by simp
      qed
    next
      case plain
      then show ?thesis
        using run True Suc.prems(1,2) Suc.IH [of "pc + 1"] exec_lanes_limitless
        by (auto simp: Let_def split: sum.splits prod.splits)
    qed
  qed
qed

lemma fold_r_error:
  "fold_r f xs s = Inl e \<Longrightarrow> \<exists>x s. f x s = Inl e"
  by (induction xs arbitrary: s) (auto simp: bind_r_def split: sum.splits)

text \<open>
  C8. A kernel without backward branches always comes to an end: whatever the
  grid, the memory and the divergence of its warps, a budget of one step for each lowered instruction
  is enough, and the simulation never stops at the step limit.
\<close>

theorem forward_kernels_end:
  assumes "lower_program p prof mapping = Inr lp" "forward_only p" "instructions c = lowered_instructions lp"
    and "int (length (lowered_instructions lp)) \<le> max_steps c"
  shows "\<nexists>t. sim_run c s = Inl (StepLimitExceeded, t)"
proof
  assume "\<exists>t. sim_run c s = Inl (StepLimitExceeded, t)"
  then obtain t where "sim_run c s = Inl (StepLimitExceeded, t)" by blast
  note blocks = this [unfolded sim_run_def Let_def]
  obtain b u where "(if cfg_warp_size c = 0 then Inl (PyValueError, u)
      else fold_r (\<lambda>w s. bind_r (run_warp c (warp_lanes c b w) s) (\<lambda>(_, s'). Inr s'))
                 (py_range3 (dim_count (cfg_block_dim c)) (cfg_warp_size c)) u) = Inl (StepLimitExceeded, t)"
    using fold_r_error [OF blocks] by blast
  then obtain w v where "bind_r (run_warp c (warp_lanes c b w) v) (\<lambda>(_, s'). Inr s') = Inl (StepLimitExceeded, t)"
    by (auto split: if_splits dest!: fold_r_error)
  then have "run_warp c (warp_lanes c b w) v = Inl (StepLimitExceeded, t)"
    by (auto simp: bind_r_def split: sum.splits prod.splits)
  then show False
    using forward_ends [OF lowered_forward [OF assms(1,2)], of 0 "nat (max_steps c)"] assms(3,4)
    unfolding run_warp_def by fastforce
qed

text \<open>A branch that the lanes of a warp do not agree on.\<close>

definition skip_ptx :: PTXProgram where
  "skip_ptx = demo_ptx\<lparr>items :=
     [plain_inst ''mov.u32'' [''%r1'', ''%tid.x''],
      plain_inst ''setp.lt.u32'' [''%p1'', ''%r1'', ''1''],
      plain_inst ''ld.param.u64'' [''%rd1'', ''[A]''],
      guarded_inst ''%p1'' ''bra'' [''DONE''],
      plain_inst ''st.global.u32'' [''[%rd1]'', ''%r1''],
      Label ''DONE'',
      plain_inst ''ret'' []]\<rparr>"

lemma skip_lowered:
  "case lower_program skip_ptx TRACK_B_V1 [] of Inl _ \<Rightarrow> False | Inr lp \<Rightarrow> length (lowered_instructions lp) \<le> 12"
  by code_simp

theorem forward_kernels_end_witness:
  "\<exists>lp. lower_program skip_ptx TRACK_B_V1 [] = Inr lp \<and>
     (\<nexists>t. sim_run \<lparr>host = demo_host, instructions = lowered_instructions lp, cfg_block_dim = (2, 1, 1),
        cfg_grid_dim = (3, 1, 1), cfg_warp_size = 2, max_steps = 12\<rparr> loop_start = Inl (StepLimitExceeded, t))"
proof -
  obtain lp where lp: "lower_program skip_ptx TRACK_B_V1 [] = Inr lp" "length (lowered_instructions lp) \<le> 12"
    using skip_lowered by (auto split: sum.splits)
  have "forward_only skip_ptx" by code_simp
  from forward_kernels_end [OF lp(1) this] show ?thesis using lp by fastforce
qed

end
