(* ===== verification/Uniform_Sound.thy ===== *)
theory Uniform_Sound
  imports Lower_Correct
begin

unbundle bit_operations_syntax

text \<open>
  What the uniformity analysis promises where it is right: on a stretch of a kernel that two lanes of
  a warp both fall through, without guarded definitions, a register marked uniform has one value in
  both lanes and a branch marked uniform is taken by both or by none.
\<close>

subsection \<open>The recorded facts\<close>

definition value_step :: "item \<Rightarrow> Uniformity dict \<Rightarrow> Uniformity dict" where
  "value_step it vals = (case it of
     Label _ \<Rightarrow> vals
   | Inst i \<Rightarrow> (case instruction_dest i of
        None \<Rightarrow> vals
      | Some d \<Rightarrow> AList.update d (result_uniformity i vals (instruction_uses i)) vals))"

lemma uni_step_values: "fst (uni_step (k, it) (vals, facts)) = value_step it vals"
  by (simp add: uni_step_def value_step_def Let_def split: item.split option.split bool.split)

lemma uni_step_branches:
  "branch_states (snd (uni_step (k, it) (vals, facts))) = branch_states facts @
     (case it of Inst i \<Rightarrow> (case (opcode_base (inst_opcode i) = ''bra'', guard i) of
         (True, Some q) \<Rightarrow> [(k, \<lparr>bu_item_index = k, bu_source_line = source_line i,
            bu_predicate = normalize_predicate q,
            bu_state = value_uniformity (value_step it vals) (normalize_predicate q)\<rparr>)]
       | _ \<Rightarrow> [])
     | _ \<Rightarrow> [])"
  by (simp add: uni_step_def value_step_def Let_def opcode_base_hd split: item.split option.split bool.split)

lemma recorded_branches:
  "(k, b) \<in> set (branch_states (snd (fold uni_step (enumerate n its) (vals, facts)))) \<Longrightarrow>
     (k, b) \<in> set (branch_states facts) \<or>
     (\<exists>j i q. k = n + j \<and> j < length its \<and> its ! j = Inst i \<and> opcode_base (inst_opcode i) = ''bra'' \<and> guard i = Some q \<and>
        bu_state b = value_uniformity (fold value_step (take (Suc j) its) vals) (normalize_predicate q))"
proof (induction its arbitrary: n vals facts)
  case (Cons it its)
  obtain facts' where st: "uni_step (n, it) (vals, facts) = (value_step it vals, facts')"
    using uni_step_values [of n it vals facts] by (metis prod.collapse)
  have "(k, b) \<in> set (branch_states (snd (fold uni_step (enumerate (Suc n) its) (value_step it vals, facts'))))"
    using Cons.prems st by simp
  from Cons.IH [OF this] show ?case
  proof (elim disjE exE conjE)
    assume "(k, b) \<in> set (branch_states facts')"
    then show ?thesis using uni_step_branches [of n it vals facts] st
      by (fastforce split: item.splits option.splits bool.splits)
  next
    fix j i q
    assume "k = Suc n + j" "j < length its" "its ! j = Inst i" "opcode_base (inst_opcode i) = ''bra''" "guard i = Some q"
      "bu_state b = value_uniformity (fold value_step (take (Suc j) its) (value_step it vals)) (normalize_predicate q)"
    then have "k = n + Suc j \<and> Suc j < length (it # its) \<and> (it # its) ! Suc j = Inst i \<and>
        opcode_base (inst_opcode i) = ''bra'' \<and> guard i = Some q \<and>
        bu_state b = value_uniformity (fold value_step (take (Suc (Suc j)) (it # its)) vals) (normalize_predicate q)"
      by simp
    then show ?thesis by blast
  qed
qed simp

lemma branch_value:
  assumes "map_of (branch_states (analyze_uniformity p)) k = Some b"
  shows "\<exists>i q. k < length (items p) \<and> items p ! k = Inst i \<and> guard i = Some q \<and>
    bu_state b = value_uniformity (fold value_step (take k (items p)) (initial_values p)) (normalize_predicate q)"
proof -
  have "(k, b) \<in> set (branch_states (snd (fold uni_step (enumerate 0 (items p)) (initial_values p, no_facts))))"
    using map_of_SomeD [OF assms] by (simp add: analyze_uniformity_def split: prod.splits)
  from recorded_branches [OF this] obtain i q where at: "k < length (items p)" "items p ! k = Inst i"
      "opcode_base (inst_opcode i) = ''bra''" "guard i = Some q"
    and st: "bu_state b = value_uniformity (fold value_step (take (Suc k) (items p)) (initial_values p)) (normalize_predicate q)"
    by (auto simp: no_facts_def)
  have "value_step (items p ! k) v = v" for v
    using at(2,3) by (simp add: value_step_def instruction_dest_def opcode_base_hd Let_def alu_bases_def)
  then show ?thesis using at st by (auto simp: take_Suc_conv_app_nth)
qed

subsection \<open>Operands of two lanes\<close>

definition lanes_agree :: "Uniformity dict \<Rightarrow> pstate \<Rightarrow> pstate \<Rightarrow> bool" where
  "lanes_agree vals \<sigma> \<tau> \<longleftrightarrow>
     (\<forall>r. value_uniformity vals r = Uniform \<or> starts_with r ''%p'' \<longrightarrow> vregs \<sigma> r = vregs \<tau> r) \<and>
     (\<forall>r. value_uniformity vals r = Uniform \<or> \<not> starts_with r ''%p'' \<longrightarrow> vpreds \<sigma> r = vpreds \<tau> r) \<and>
     pmem (vmem \<sigma>) = pmem (vmem \<tau>)"

definition same_warp :: "LaneState \<Rightarrow> LaneState \<Rightarrow> bool" where
  "same_warp k l \<longleftrightarrow> block k = block l \<and> block_dim k = block_dim l \<and> grid_dim k = grid_dim l \<and>
     warp_size k = warp_size l \<and> thread_x k div warp_size k = thread_x l div warp_size l"

lemma register_not_special:
  assumes "is_register_name t"
  shows "special_uniformity t = None" "\<exists>u. t = CHR ''%'' # u" "map_of (special_registers TRACK_B_V1) t = None"
proof -
  have no: "\<not> is_register_name s" if "s \<in> set [''%ctaid'', ''%ctaid.x'', ''%ctaid.y'', ''%ctaid.z'', ''%ntid'', ''%ntid.x'',
    ''%ntid.y'', ''%ntid.z'', ''%nctaid'', ''%nctaid.x'', ''%nctaid.y'', ''%nctaid.z'', ''%warpid'', ''%tid'', ''%tid.x'',
    ''%tid.y'', ''%tid.z'', ''%laneid''] \<union> set (map fst (special_registers TRACK_B_V1))" for s
  proof -
    have "list_all (\<lambda>s. \<not> is_register_name s) ([''%ctaid'', ''%ctaid.x'', ''%ctaid.y'', ''%ctaid.z'', ''%ntid'', ''%ntid.x'',
    ''%ntid.y'', ''%ntid.z'', ''%nctaid'', ''%nctaid.x'', ''%nctaid.y'', ''%nctaid.z'', ''%warpid'', ''%tid'', ''%tid.x'',
    ''%tid.y'', ''%tid.z'', ''%laneid''] @ map fst (special_registers TRACK_B_V1))" by code_simp
    then show ?thesis using that by (auto simp: list_all_iff)
  qed
  show "special_uniformity t = None" using assms no [of t] unfolding special_uniformity_def by (force split: if_splits)
  show "\<exists>u. t = CHR ''%'' # u" using assms by (auto simp: is_register_name_def split: list.splits)
  show "map_of (special_registers TRACK_B_V1) t = None" using assms no [of t] by (auto simp: map_of_eq_None_iff)
qed

lemma register_normal:
  assumes "is_register_name (py_strip op)"
  shows "normalize_operand op = py_strip op" "\<not> is_immediate (py_strip op)"
    "operand_uniformity (py_strip op) vals = value_uniformity vals (py_strip op)"
proof -
  obtain u where u: "py_strip op = CHR ''%'' # u" using register_not_special(2) [OF assms] by blast
  have st: "py_strip (py_strip op) = py_strip op" by simp
  show "normalize_operand op = py_strip op"
    using u st by (simp add: normalize_operand_def unbracket_def normalize_predicate_def normalize_register_def Let_def starts_with.simps)
  show ni: "\<not> is_immediate (py_strip op)"
    using u st by (simp add: is_immediate_def Let_def starts_with.simps all_digits_def is_digit_def)
  show "operand_uniformity (py_strip op) vals = value_uniformity vals (py_strip op)"
    using ni u st register_not_special(1) [OF assms]
    by (simp add: operand_uniformity_def unbracket_def source_uniformity_def normalize_register_def Let_def starts_with.simps)
qed

lemma operand_agree:
  assumes "lanes_agree vals \<sigma> \<tau>" "operand_uniformity (normalize_operand op) vals = Uniform"
  shows "operand_value \<sigma> op = operand_value \<tau> op"
proof (cases "is_register_name (py_strip op)")
  case True
  then show ?thesis using assms register_normal(1) [OF True] register_normal(3) [OF True, of vals]
    by (simp add: operand_value_def lanes_agree_def Let_def)
qed (simp add: operand_value_def Let_def)

lemma operands_agree:
  assumes "lanes_agree vals \<sigma> \<tau>"
    "merge_uniformity (map (\<lambda>op. operand_uniformity op vals) (map normalize_operand ops)) = Uniform"
  shows "operand_values \<sigma> ops = operand_values \<tau> ops"
proof -
  have "\<forall>op\<in>set ops. operand_uniformity (normalize_operand op) vals = Uniform"
    using assms(2) by (auto simp: merge_uniformity_def list_all_iff split: if_splits)
  then have "map (operand_value \<sigma>) ops = map (operand_value \<tau>) ops"
    using operand_agree [OF assms(1)] by simp
  then show ?thesis unfolding operand_values_def by (rule arg_cong)
qed

subsection \<open>One instruction in two lanes\<close>

lemma selectors:
  "special_selector ''%tid.x'' = 0x0100" "special_selector ''%tid.y'' = 0x0110" "special_selector ''%tid.z'' = 0x0120"
  "special_selector ''%ntid.x'' = 0x0101" "special_selector ''%ntid.y'' = 0x0111" "special_selector ''%ntid.z'' = 0x0121"
  "special_selector ''%ctaid.x'' = 0x0102" "special_selector ''%ctaid.y'' = 0x0112" "special_selector ''%ctaid.z'' = 0x0122"
  "special_selector ''%nctaid.x'' = 0x0103" "special_selector ''%nctaid.y'' = 0x0113"
  "special_selector ''%nctaid.z'' = 0x0123" "special_selector ''%laneid'' = 0x0104" "special_selector ''%warpid'' = 0x0105"
  by code_simp+

lemma special_agree:
  assumes "special_uniformity t = Some Uniform" "map_of (special_registers TRACK_B_V1) t = Some sel" "same_warp k l"
  shows "special_value sel k = special_value sel l"
proof -
  have "list_all (\<lambda>(t, sel). special_uniformity t = Some Uniform \<longrightarrow>
      sel \<in> {0x0101, 0x0102, 0x0103, 0x0105, 0x0111, 0x0112, 0x0113, 0x0121, 0x0122, 0x0123})
    (special_registers TRACK_B_V1)"
    by code_simp
  then have sel: "sel \<in> {0x0101, 0x0102, 0x0103, 0x0105, 0x0111, 0x0112, 0x0113, 0x0121, 0x0122, 0x0123}"
    using map_of_SomeD [OF assms(2)] assms(1) by (auto simp: list_all_iff)
  show ?thesis using sel assms(3) unfolding same_warp_def
    by (elim insertE emptyE conjE) (simp_all add: special_value_def selectors block_x_def block_y_def block_z_def)
qed

lemma mov_agree:
  assumes agree: "lanes_agree vals \<sigma> \<tau>" and warp: "same_warp (vlane \<sigma>) (vlane \<tau>)"
    and mov: "opcode_base (inst_opcode i) = ''mov''" "operands i = [d, a]"
    and uni: "result_uniformity i vals us = Uniform"
  shows "mov_value \<sigma> a = mov_value \<tau> a"
proof (cases "is_register_name (py_strip a)")
  case True
  then have "value_uniformity vals (py_strip a) = Uniform"
    using uni mov register_not_special(1) [OF True] register_normal(2) [OF True]
    by (auto simp: result_uniformity_def opcode_base_hd Let_def source_uniformity_def normalize_register_def is_immediate_def
        split: if_splits)
  then show ?thesis
    using agree True register_not_special(3) [OF True] by (simp add: mov_value_def operand_value_def lanes_agree_def Let_def)
next
  case False
  show ?thesis
  proof (cases "map_of (special_registers TRACK_B_V1) (py_strip a)")
    case None
    then show ?thesis using False by (simp add: mov_value_def operand_value_def Let_def)
  next
    case (Some sel)
    show ?thesis
    proof (cases "special_uniformity (py_strip a) = Some Uniform")
      case True
      then show ?thesis using special_agree [OF True Some warp] Some by (simp add: mov_value_def)
    next
      case F: False
      have "list_all (\<lambda>(t, sel). \<not> is_immediate t \<and> special_uniformity t \<noteq> None) (special_registers TRACK_B_V1)" by code_simp
      then have sp: "\<not> is_immediate (py_strip a)" "special_uniformity (py_strip a) \<noteq> None"
        using map_of_SomeD [OF Some] by (auto simp: list_all_iff)
      then have False
        using uni mov F
        by (auto simp: result_uniformity_def opcode_base_hd Let_def source_uniformity_def normalize_register_def is_immediate_def
            split: if_splits)
      then show ?thesis ..
    qed
  qed
qed

subsection \<open>Falling through\<close>

fun falls_through :: "ptx_env \<Rightarrow> item list \<Rightarrow> pstate \<Rightarrow> pstate option" where
  "falls_through E [] \<sigma> = Some \<sigma>"
| "falls_through E (Label l # its) \<sigma> = falls_through E its \<sigma>"
| "falls_through E (Inst i # its) \<sigma> =
     Option.bind (step_effect E i \<sigma>) (\<lambda>e. if is_flow e then None else falls_through E its (next_state e \<sigma>))"

text \<open>
  The definitions of the stretch are not guarded, and a name that starts with \<open>%p\<close> is a predicate.
\<close>

definition tracked :: "item \<Rightarrow> bool" where
  "tracked it = (case it of
     Label _ \<Rightarrow> True
   | Inst i \<Rightarrow> (case instruction_dest i of
        None \<Rightarrow> True
      | Some d \<Rightarrow> guard i = None \<and> (opcode_base (inst_opcode i) = ''setp'') = starts_with d ''%p''))"

lemma value_update:
  "value_uniformity (AList.update d u vals) r = (if r = d then u else value_uniformity vals r)"
  by (simp add: value_uniformity_def update_conv')

lemma agree_set_reg:
  assumes "lanes_agree vals \<sigma> \<tau>" "u = Uniform \<Longrightarrow> v = w" "\<not> starts_with d ''%p''" "pmem s = pmem (vmem \<sigma>)" "pmem t = pmem (vmem \<tau>)"
  shows "lanes_agree (AList.update d u vals) (set_reg_v \<sigma> d v s) (set_reg_v \<tau> d w t)"
  using assms by (auto simp: lanes_agree_def value_update set_reg_v_def)

lemma agree_set_pred:
  assumes "lanes_agree vals \<sigma> \<tau>" "u = Uniform \<Longrightarrow> v = w" "starts_with d ''%p''"
  shows "lanes_agree (AList.update d u vals) (\<sigma>\<lparr>vpreds := (vpreds \<sigma>)(d := v)\<rparr>) (\<tau>\<lparr>vpreds := (vpreds \<tau>)(d := w)\<rparr>)"
  using assms by (auto simp: lanes_agree_def value_update)

lemma load_word_agree:
  assumes "load_word \<sigma> space addr = Some (v, s)"
  shows "pmem s = pmem (vmem \<sigma>)"
    "space = ''pmem'' \<Longrightarrow> load_word \<tau> space addr = Some (w, t) \<Longrightarrow> pmem (vmem \<sigma>) = pmem (vmem \<tau>) \<Longrightarrow> v = w"
  using assms by (auto simp: load_word_def record_access_def result_option_def sim_read_def sim_memory_def bind_r_def
      split: sum.splits if_splits)

lemma store_word_params: "store_word \<sigma> addr v = Some s \<Longrightarrow> pmem s = pmem (vmem \<sigma>)"
  by (auto simp: store_word_def record_access_def result_option_def sim_write_def sim_memory_def bind_r_def Let_def
      split: sum.splits if_splits)

text \<open>Nothing happens to the lane, and to the parameter memory.\<close>

lemma effect_no_dest:
  assumes "inst_effect E i \<sigma> = Some e" "\<not> is_flow e" "instruction_dest i = None" "lanes_agree vals \<sigma> \<tau>"
  shows "lanes_agree vals (next_state e \<sigma>) \<tau>"
proof -
  have st: "opcode_base (inst_opcode i) = ''st''"
    using assms(1-3) effect_bases [OF assms(1)] effect_mov [OF assms(1)] effect_ld [OF assms(1)] effect_setp [OF assms(1)]
      effect_alu [OF assms(1)]
    by (auto simp: instruction_dest_def opcode_base_hd Let_def alu_bases_def inst_effect_def is_flow_def
        split: list.splits if_splits)
  then obtain addr v s where "store_word \<sigma> addr v = Some s" "e = SetMem s" using effect_st [OF assms(1)] by blast
  then show ?thesis using assms(4) store_word_params by (auto simp: lanes_agree_def)
qed

lemma agree_sym: "lanes_agree vals \<sigma> \<tau> \<Longrightarrow> lanes_agree vals \<tau> \<sigma>"
  by (simp add: lanes_agree_def)

lemma step_lane: "vlane (next_state e \<sigma>) = vlane \<sigma>"
  by (cases e) (auto simp: set_reg_v_def)

lemma dest_step:
  assumes e: "inst_effect E i \<sigma> = Some e" and f: "inst_effect E i \<tau> = Some f"
    and dest: "instruction_dest i = Some d" "(opcode_base (inst_opcode i) = ''setp'') = starts_with d ''%p''"
    and agree: "lanes_agree vals \<sigma> \<tau>" and warp: "same_warp (vlane \<sigma>) (vlane \<tau>)"
  shows "lanes_agree (AList.update d (result_uniformity i vals (instruction_uses i)) vals) (next_state e \<sigma>) (next_state f \<tau>)"
proof -
  let ?u = "result_uniformity i vals (instruction_uses i)"
  have params: "pmem (vmem \<sigma>) = pmem (vmem \<tau>)" using agree by (simp add: lanes_agree_def)
  have base: "opcode_base (inst_opcode i) \<in> {''mov'', ''ld'', ''setp''} \<union> Lower_Insts.alu_bases"
    using dest(1) effect_bases [OF e] by (auto simp: instruction_dest_def opcode_base_hd Let_def alu_bases_def split: if_splits)
  have d: "py_strip (hd (operands i)) = d"
    using dest(1) by (auto simp: instruction_dest_def normalize_register_def Let_def split: list.splits if_splits)
  consider (mov) "opcode_base (inst_opcode i) = ''mov''" | (ld) "opcode_base (inst_opcode i) = ''ld''"
    | (setp) "opcode_base (inst_opcode i) = ''setp''" | (alu) "opcode_base (inst_opcode i) \<in> Lower_Insts.alu_bases"
    using base by blast
  then show ?thesis
  proof cases
    case mov
    from effect_mov [OF e mov] obtain a v where op: "operands i = [hd (operands i), a]" "mov_value \<sigma> a = Some v"
      "e = SetReg d v (vmem \<sigma>)" using d by auto
    from effect_mov [OF f mov] obtain w where fw: "mov_value \<tau> a = Some w" "f = SetReg d w (vmem \<tau>)" using d op(1) by auto
    have "?u = Uniform \<Longrightarrow> v = w" using mov_agree [OF agree warp mov op(1)] op(2) fw(1) by auto
    from agree_set_reg [OF agree this] show ?thesis using mov dest(2) op(3) fw(2) by simp
  next
    case ld
    from effect_ld [OF e ld] obtain sp t a v s addr where parts: "opcode_parts (inst_opcode i) = [''ld'', sp, t]"
      and op: "operands i = [hd (operands i), a]" "e = SetReg d v s"
      and ldv: "sp = ''param'' \<and> map_of (env_params E) (strip_brackets a) = Some addr \<and>
          load_word \<sigma> ''pmem'' addr = Some (v, s) \<or> sp = ''global'' \<and> load_word \<sigma> ''gmem'' addr = Some (v, s)"
      using d by (smt (verit) list.sel(1))
    from effect_ld [OF f ld] obtain w s' addr' where fw: "f = SetReg d w s'"
      and ldw: "sp = ''param'' \<and> map_of (env_params E) (strip_brackets a) = Some addr' \<and>
          load_word \<tau> ''pmem'' addr' = Some (w, s') \<or> sp = ''global'' \<and> load_word \<tau> ''gmem'' addr' = Some (w, s')"
      using d parts op(1) by auto
    have pm: "pmem s = pmem (vmem \<sigma>)" "pmem s' = pmem (vmem \<tau>)" using ldv ldw load_word_agree(1) by auto
    have "?u = Uniform \<Longrightarrow> sp = ''param''" using parts ldv by (auto simp: result_uniformity_def)
    then have "?u = Uniform \<Longrightarrow> v = w" using ldv ldw load_word_agree(2) params by auto
    from agree_set_reg [OF agree this _ pm] show ?thesis using ld dest(2) op(2) fw by simp
  next
    case setp
    from effect_setp [OF e setp] obtain cmp t a b x y v where parts: "opcode_parts (inst_opcode i) = [''setp'', cmp, t]"
      and op: "operands i = [hd (operands i), a, b]" "operand_value \<sigma> a = Some x" "operand_value \<sigma> b = Some y"
        "sim_compare (env_host E) (Some cmp) (aec_type t) x y = Inr v" "e = SetPred d v"
      using d by (smt (verit) list.sel(1))
    from effect_setp [OF f setp] obtain x' y' w where fw: "operand_value \<tau> a = Some x'" "operand_value \<tau> b = Some y'"
        "sim_compare (env_host E) (Some cmp) (aec_type t) x' y' = Inr w" "f = SetPred d w"
      using d parts op(1) by auto
    have "?u = Uniform \<Longrightarrow> operand_values \<sigma> [a, b] = operand_values \<tau> [a, b]"
      using setp op(1) parts
      by (intro operands_agree [OF agree]) (auto simp: result_uniformity_def instruction_uses_def alu_bases_def dest: arg_cong [of _ _ "drop 1"])
    then have "?u = Uniform \<Longrightarrow> v = w" using op fw by (auto simp: operand_values_def)
    from agree_set_pred [OF agree this] show ?thesis using setp dest(2) op(5) fw(4) by simp
  next
    case alu
    from effect_alu [OF e alu] obtain srcs vs v where op: "operands i = hd (operands i) # srcs" "operand_values \<sigma> srcs = Some vs"
        "alu_value (env_host E) (opcode_base (inst_opcode i)) (last (opcode_parts (inst_opcode i))) vs = Some v"
        "e = SetReg d v (vmem \<sigma>)"
      using d by (smt (verit) list.sel(1))
    from effect_alu [OF f alu] obtain ws w where fw: "operand_values \<tau> srcs = Some ws"
        "alu_value (env_host E) (opcode_base (inst_opcode i)) (last (opcode_parts (inst_opcode i))) ws = Some w"
        "f = SetReg d w (vmem \<tau>)"
      using d op(1) by (smt (verit) list.inject)
    have "instruction_uses i = map normalize_operand (drop 1 (operands i))"
      using alu by (auto simp: instruction_uses_def opcode_base_hd alu_bases_def Let_def)
    then have uses: "instruction_uses i = map normalize_operand srcs" by (subst (asm) op(1)) simp
    have "?u = Uniform \<Longrightarrow> operand_values \<sigma> srcs = operand_values \<tau> srcs"
      using alu by (intro operands_agree [OF agree])
        (auto simp: result_uniformity_def opcode_base_hd uses alu_bases_def Let_def)
    then have "?u = Uniform \<Longrightarrow> v = w" using op fw by auto
    from agree_set_reg [OF agree this] show ?thesis using alu dest(2) op(4) fw(3) by auto
  qed
qed

lemma lane_step:
  assumes e: "step_effect E i \<sigma> = Some e" "\<not> is_flow e" and f: "step_effect E i \<tau> = Some f" "\<not> is_flow f"
    and tr: "tracked (Inst i)" and agree: "lanes_agree vals \<sigma> \<tau>" and warp: "same_warp (vlane \<sigma>) (vlane \<tau>)"
  shows "lanes_agree (value_step (Inst i) vals) (next_state e \<sigma>) (next_state f \<tau>)"
proof (cases "instruction_dest i")
  case None
  have skip: "lanes_agree vals (next_state g \<rho>) \<pi>"
    if "step_effect E i \<rho> = Some g" "\<not> is_flow g" "lanes_agree vals \<rho> \<pi>" for g \<rho> \<pi>
    using that effect_no_dest [OF _ _ None] by (auto simp: step_effect_def split: if_splits)
  have "lanes_agree vals (next_state e \<sigma>) (next_state f \<tau>)"
    using agree_sym skip [OF f agree_sym [OF skip [OF e agree]]] by blast
  then show ?thesis using None by (simp add: value_step_def)
next
  case (Some d)
  then have "guard i = None" "(opcode_base (inst_opcode i) = ''setp'') = starts_with d ''%p''" using tr by (simp_all add: tracked_def)
  then show ?thesis
    using dest_step [OF _ _ Some _ agree warp] e f Some by (simp add: value_step_def step_effect_def guard_holds_def)
qed

lemma lanes_fall:
  "\<lbrakk>falls_through E its \<sigma> = Some \<sigma>'; falls_through E its \<tau> = Some \<tau>'; list_all tracked its; lanes_agree vals \<sigma> \<tau>;
    same_warp (vlane \<sigma>) (vlane \<tau>)\<rbrakk> \<Longrightarrow> lanes_agree (fold value_step its vals) \<sigma>' \<tau>'"
proof (induction its arbitrary: \<sigma> \<tau> vals)
  case (Cons it its)
  show ?case
  proof (cases it)
    case (Label l)
    then show ?thesis using Cons by (simp add: value_step_def)
  next
    case (Inst i)
    obtain e where e: "step_effect E i \<sigma> = Some e" "\<not> is_flow e" "falls_through E its (next_state e \<sigma>) = Some \<sigma>'"
      using Cons.prems(1) Inst by (auto simp: bind_eq_Some_conv split: if_splits)
    obtain f where f: "step_effect E i \<tau> = Some f" "\<not> is_flow f" "falls_through E its (next_state f \<tau>) = Some \<tau>'"
      using Cons.prems(2) Inst by (auto simp: bind_eq_Some_conv split: if_splits)
    have "lanes_agree (value_step it vals) (next_state e \<sigma>) (next_state f \<tau>)"
      using lane_step [OF e(1,2) f(1,2) _ Cons.prems(4,5)] Cons.prems(3) Inst by simp
    then show ?thesis using Cons.IH [OF e(3) f(3)] Cons.prems(3,5) by (simp add: step_lane)
  qed
qed simp

subsection \<open>The lanes of a warp\<close>

text \<open>In a block of one dimension, the lanes the simulator puts into one warp are in one warp for the code.\<close>

lemma lane_of_warp:
  assumes "l \<in> set (warp_lanes c b w)" "cfg_block_dim c = (n, 1, 1)" "0 < cfg_warp_size c" "w \<in> set (py_range3 n (cfg_warp_size c))"
  shows "block l = b \<and> block_dim l = cfg_block_dim c \<and> grid_dim l = cfg_grid_dim c \<and> warp_size l = cfg_warp_size c \<and>
    thread_x l div cfg_warp_size c = w div cfg_warp_size c"
proof -
  obtain k where l: "l = new_lane b (w + int k) (cfg_block_dim c) (cfg_grid_dim c) (cfg_warp_size c)"
    and k: "int k < cfg_warp_size c" "w + int k < n"
    using assms(1,2) by (fastforce simp: warp_lanes_def Let_def)
  obtain m where m: "w = int m * cfg_warp_size c" using assms(3,4) by (auto simp: py_range3_def)
  have "thread_x l = w + int k" using l assms(2,3) k m by (simp add: thread_x_def new_lane_def)
  then show ?thesis using l k assms(3) m by (simp add: new_lane_def)
qed

lemma warp_mates:
  assumes "k \<in> set (warp_lanes c b w)" "l \<in> set (warp_lanes c b w)" "cfg_block_dim c = (n, 1, 1)" "0 < cfg_warp_size c"
    "w \<in> set (py_range3 n (cfg_warp_size c))"
  shows "same_warp k l"
  using lane_of_warp [OF assms(1,3-5)] lane_of_warp [OF assms(2,3-5)] by (simp add: same_warp_def)

text \<open>
  C9. Let a branch be recorded as uniform and let two threads of one warp, of a
  one-dimensional block, start with the same registers, the same predicates and the same parameter
  memory and fall through the items in front of the branch, whose definitions are unguarded and write a
  name with \<^verbatim>\<open>%p\<close> exactly when they are comparisons. Then both threads take the branch or neither does,
  whatever else global memory holds.
\<close>

theorem uniform_branches_agree:
  assumes "map_of (branch_states (analyze_uniformity p)) k = Some b" "bu_state b = Uniform" "items p ! k = Inst i"
    and "list_all tracked (take k (items p))"
    and "vlane \<sigma> \<in> set (warp_lanes c blk w)" "vlane \<tau> \<in> set (warp_lanes c blk w)"
    and "cfg_block_dim c = (n, 1, 1)" "0 < cfg_warp_size c" "w \<in> set (py_range3 n (cfg_warp_size c))"
    and "vregs \<sigma> = vregs \<tau>" "vpreds \<sigma> = vpreds \<tau>" "pmem (vmem \<sigma>) = pmem (vmem \<tau>)"
    and "falls_through E (take k (items p)) \<sigma> = Some \<sigma>'" "falls_through E (take k (items p)) \<tau> = Some \<tau>'"
  shows "guard_holds i \<sigma>' = guard_holds i \<tau>'"
proof -
  obtain q where q: "guard i = Some q" "Uniform = value_uniformity (fold value_step (take k (items p)) (initial_values p)) (normalize_predicate q)"
    using branch_value [OF assms(1)] assms(2,3) by auto
  have "lanes_agree (initial_values p) \<sigma> \<tau>" using assms(10-12) by (simp add: lanes_agree_def)
  from lanes_fall [OF assms(13,14,4) this warp_mates [OF assms(5-9)]]
  have "vpreds \<sigma>' (normalize_predicate q) = vpreds \<tau>' (normalize_predicate q)" using q(2) by (simp add: lanes_agree_def)
  then show ?thesis using q(1) by (simp add: guard_holds_def guard_register_def normalize_predicate_def Let_def)
qed

text \<open>A bound read from parameter memory against the block's index.\<close>

definition bound_ptx :: PTXProgram where
  "bound_ptx = demo_ptx\<lparr>items :=
     [plain_inst ''ld.param.u32'' [''%r1'', ''[A]''],
      plain_inst ''mov.u32'' [''%r2'', ''%ctaid.x''],
      plain_inst ''mov.u32'' [''%r3'', ''%tid.x''],
      plain_inst ''mul.lo.u32'' [''%r4'', ''%r2'', ''4''],
      plain_inst ''setp.lt.u32'' [''%p1'', ''%r4'', ''%r1''],
      guarded_inst ''%p1'' ''bra'' [''DONE''],
      Label ''DONE'',
      plain_inst ''ret'' []]\<rparr>"

definition bound_state :: "sim_config \<Rightarrow> nat \<Rightarrow> pstate" where
  "bound_state c k = \<lparr>vregs = \<lambda>_. 0, vpreds = \<lambda>_. False, vlane = warp_lanes c 0 0 ! k, vmem = loop_start\<rparr>"

definition bound_config :: sim_config where
  "bound_config = \<lparr>host = demo_host, instructions = [], cfg_block_dim = (2, 1, 1), cfg_grid_dim = (3, 1, 1),
     cfg_warp_size = 2, max_steps = 12\<rparr>"

lemma bound_runs:
  "map_option bu_state (map_of (branch_states (analyze_uniformity bound_ptx)) 5) = Some Uniform"
  "list_all tracked (take 5 (items bound_ptx))" "items bound_ptx ! 5 = guarded_inst ''%p1'' ''bra'' [''DONE'']"
  "length (warp_lanes bound_config 0 0) = 2" "set (py_range3 2 2) = {0}"
  "case falls_through \<lparr>env_host = demo_host, env_params = [(''A'', 0)]\<rparr> (take 5 (items bound_ptx)) (bound_state bound_config 0) of
     None \<Rightarrow> False | Some \<sigma> \<Rightarrow> True"
  "case falls_through \<lparr>env_host = demo_host, env_params = [(''A'', 0)]\<rparr> (take 5 (items bound_ptx)) (bound_state bound_config 1) of
     None \<Rightarrow> False | Some \<sigma> \<Rightarrow> vregs \<sigma> ''%r3'' = 1"
  by code_simp+

theorem uniform_branches_agree_witness:
  "\<exists>\<sigma> \<tau>. falls_through \<lparr>env_host = demo_host, env_params = [(''A'', 0)]\<rparr> (take 5 (items bound_ptx))
        (bound_state bound_config 0) = Some \<sigma> \<and>
     falls_through \<lparr>env_host = demo_host, env_params = [(''A'', 0)]\<rparr> (take 5 (items bound_ptx))
        (bound_state bound_config 1) = Some \<tau> \<and>
     (\<forall>i. items bound_ptx ! 5 = Inst i \<longrightarrow> guard_holds i \<sigma> = guard_holds i \<tau>)"
proof -
  obtain \<sigma> \<tau> where run: "falls_through \<lparr>env_host = demo_host, env_params = [(''A'', 0)]\<rparr> (take 5 (items bound_ptx))
        (bound_state bound_config 0) = Some \<sigma>"
     "falls_through \<lparr>env_host = demo_host, env_params = [(''A'', 0)]\<rparr> (take 5 (items bound_ptx))
        (bound_state bound_config 1) = Some \<tau>"
    using bound_runs(6,7) by (auto split: option.splits)
  obtain b where b: "map_of (branch_states (analyze_uniformity bound_ptx)) 5 = Some b" "bu_state b = Uniform"
    using bound_runs(1) by auto
  have "vlane (bound_state bound_config 0) \<in> set (warp_lanes bound_config 0 0)"
    "vlane (bound_state bound_config 1) \<in> set (warp_lanes bound_config 0 0)"
    using bound_runs(4) by (simp_all add: bound_state_def)
  from uniform_branches_agree [OF b _ bound_runs(2) this _ _ _ _ _ _ run] show ?thesis
    using run bound_runs(5) by (auto simp: bound_config_def bound_state_def)
qed

subsection \<open>Where the analysis is wrong\<close>

text \<open>
  A guarded definition counts as if it were unguarded: the branch behind it is recorded as uniform, is
  lowered without legalisation, and the warp fails.
\<close>

definition guarded_def_ptx :: PTXProgram where
  "guarded_def_ptx = demo_ptx\<lparr>items :=
     [plain_inst ''mov.u32'' [''%r1'', ''%tid.x''],
      plain_inst ''setp.lt.u32'' [''%p1'', ''%r1'', ''1''],
      plain_inst ''mov.u32'' [''%r2'', ''5''],
      guarded_inst ''%p1'' ''mov.u32'' [''%r2'', ''7''],
      plain_inst ''setp.eq.u32'' [''%p2'', ''%r2'', ''5''],
      plain_inst ''ld.param.u64'' [''%rd1'', ''[A]''],
      guarded_inst ''%p2'' ''bra'' [''DONE''],
      plain_inst ''st.global.u32'' [''[%rd1]'', ''%r1''],
      Label ''DONE'',
      plain_inst ''ret'' []]\<rparr>"

lemma guarded_definition_uniform:
  "map_option bu_state (map_of (branch_states (analyze_uniformity guarded_def_ptx)) 6) = Some Uniform \<and>
   (case lower_program guarded_def_ptx TRACK_B_V1 [] of Inl _ \<Rightarrow> False | Inr lp \<Rightarrow>
      (case sim_run (bound_config\<lparr>instructions := lowered_instructions lp, max_steps := 40\<rparr>) loop_start of
         Inl (NonUniformBrx _, _) \<Rightarrow> True | _ \<Rightarrow> False))"
  by code_simp

text \<open>
  \<open>%warpid\<close> is computed from the x coordinate alone: in a block of several rows, two lanes of one warp
  read different values.
\<close>

lemma warpid_varies:
  "special_uniformity ''%warpid'' = Some Uniform \<and>
   map (special_value (special_selector ''%warpid'')) (warp_lanes (bound_config\<lparr>cfg_block_dim := (3, 2, 1)\<rparr>) 0 2) = [Inr 1, Inr 0]"
  by code_simp

end
