(* ===== verification/Report_Dict.thy ===== *)
theory Report_Dict
  imports Compiler
begin

text \<open>
  The report a compilation writes (\<^verbatim>\<open>CompilationReport\<close> of \<^verbatim>\<open>reports/compilation.py\<close>): its fields, the
  notes in words, and its JSON text. Strings hold their UTF-8 bytes, which matters for the two notes
  with a character outside ASCII and for the escapes of the JSON text.
\<close>

subsection \<open>Sorted dictionaries\<close>

text \<open>\<^verbatim>\<open>dict(sorted(d.items()))\<close>; the keys of a dictionary are distinct.\<close>

definition sorted_items :: "(string \<times> 'a) list \<Rightarrow> (string \<times> 'a) list" where
  "sorted_items d = sort_key fst d"

fun sort_value :: "detail \<Rightarrow> detail" and sort_entries :: "detail dict \<Rightarrow> detail dict" where
  "sort_value (DDict d) = DDict (sorted_items (sort_entries d))"
| "sort_value v = v"
| "sort_entries [] = []"
| "sort_entries ((k, v) # d) = (k, sort_value v) # sort_entries d"

definition sort_mapping :: "detail dict \<Rightarrow> detail dict" where
  "sort_mapping d = sorted_items (sort_entries d)"

definition record_to_dict :: "PassRecord \<Rightarrow> detail" where
  "record_to_dict r = DDict
     [(''name'', DStr (rec_name r)), (''changed'', DBool (rec_changed r)),
      (''details'', DDict (sorted_items (rec_details r))),
      (''invalidated_analyses'', DList (map DStr (rec_invalidated r)))]"

subsection \<open>The passes a report names\<close>

definition spec_pass_step :: "PassRecord \<Rightarrow> detail dict \<Rightarrow> detail dict" where
  "spec_pass_step r d =
     (let name = rec_name r;
          put = (\<lambda>k. AList.update k (DBool True) d);
          setdefault = (\<lambda>k. if map_of d k = None then AList.update k (DBool True) d else d) in
      if name = ''global-dead-code-elimination'' then put ''dce''
      else if name = ''conservative-dead-result-elimination'' then setdefault ''dce''
      else if name = ''basic-block-local-cse'' then put ''cse''
      else if name = ''local-constant-folding'' then setdefault ''constant_folding''
      else if name = ''global-constant-propagation'' then put ''constant_folding''
      else if name = ''loop-invariant-code-motion'' then put ''licm''
      else if name = ''repeated-global-load-reuse'' then put ''load_reuse''
      else if name = ''load-hoisting'' then put ''load_hoisting''
      else if name = ''loop-unrolling'' then put ''loop_unrolling''
      else if name = ''block-simplification'' then put ''block_merge''
      else d)"

definition spec_passes :: "PassRecord list \<Rightarrow> string option \<Rightarrow> detail dict" where
  "spec_passes recs warning =
     fold spec_pass_step recs
       [(''scheduler'', DStr (if warning = None then ''post_lowering_list'' else ''failed''))]"

subsection \<open>Notes\<close>

definition em_dash :: string where "em_dash = [CHR 0xE2, CHR 0x80, CHR 0x94]"
definition right_arrow :: string where "right_arrow = [CHR 0xE2, CHR 0x86, CHR 0x92]"

definition pass_notes :: "(string \<times> string) list" where
  "pass_notes =
     [(''conservative-dead-result-elimination'',
       ''Conservative dead-result elimination (read-set based) is enabled.''),
      (''global-dead-code-elimination'',
       ''Worklist-based global dead-code elimination is enabled. '' @
       ''It preserves memory, control, predicate, carry, and predicated instructions.''),
      (''basic-block-local-cse'', ''Basic-block-local CSE is enabled.''),
      (''local-constant-folding'', ''Basic-block-local constant folding is enabled.''),
      (''global-constant-propagation'',
       ''Global constant propagation is enabled (O2 proven-safe). '' @
       ''Resets constants at every block boundary (labeled and unlabeled).''),
      (''loop-invariant-code-motion'',
       ''Loop-invariant code motion is enabled (O2 proven-safe). '' @
       ''Verifies domination and single-definition safety before hoisting.''),
      (''repeated-global-load-reuse'',
       ''Repeated global load reuse is enabled. '' @
       ''Uses conservative alias model: any store invalidates all cached loads.''),
      (''block-simplification'',
       ''Block simplification is enabled (O2 proven-safe). '' @
       ''Merges empty/jump blocks, removes unreachable blocks, preserves side-effecting blocks.''),
      (''load-hoisting'',
       ''Load hoisting is enabled (O2 proven-safe). '' @
       ''Hoists loop-invariant global loads with domination, single-def, and alias checks.''),
      (''loop-unrolling'',
       ''Loop unrolling is enabled (O2 proven-safe). '' @
       ''Unrolls counted loops with even trip counts and register renaming. '' @
       ''Loop-carried register values are protected by loop-aware RA liveness extension.''),
      (''linear-scan-register-allocation'',
       ''Linear-scan register allocation is enabled (O2 proven-safe). '' @
       ''Allocates GPRs with merged live-interval analysis. '' @
       ''Predicate allocation is handled by the Lowerer (not RA).'')]"

definition scheduler_note :: string where
  "scheduler_note = ''Post-lowering DDG list scheduler is enabled (O2 proven-safe). '' @
     ''Reorders AEC instructions within basic blocks; STORE'' @ right_arrow @ ''LOAD barrier '' @
     ''preserves memory ordering.''"

definition foundation_note :: string where
  "foundation_note = ''O0 contains validation and analysis foundation passes only.''"

definition cycle_model_note :: string where
  "cycle_model_note =
     ''Cycle Model metrics are not available '' @ em_dash @ '' no cycle-accurate model is configured.''"

text \<open>\<^verbatim>\<open>sep.join(xs)\<close>.\<close>

fun py_join :: "string \<Rightarrow> string list \<Rightarrow> string" where
  "py_join sep [] = []"
| "py_join sep [x] = x"
| "py_join sep (x # y # xs) = x @ sep @ py_join sep (y # xs)"

definition scalar_notes :: "string set \<Rightarrow> string option \<Rightarrow> string \<Rightarrow> string list" where
  "scalar_notes names warning opt_level =
     map snd (filter (\<lambda>(n, _). n \<in> names) pass_notes) @
     (if warning = None \<and> opt_level \<in> {''2'', ''3''} then [scheduler_note] else [])"

definition missing_passes :: "string set \<Rightarrow> string option \<Rightarrow> string \<Rightarrow> string list" where
  "missing_passes names warning opt_level =
     (if ''loop-invariant-code-motion'' \<notin> names then [''LICM''] else []) @
     (if ''linear-scan-register-allocation'' \<notin> names then [''register-allocation''] else []) @
     (if ''loop-unrolling'' \<notin> names then [''GEMM-loop-unrolling''] else []) @
     (if warning \<noteq> None \<or> opt_level = ''0'' then [''post-lowering-scheduling''] else [])"

definition report_notes :: "PassRecord list \<Rightarrow> string option \<Rightarrow> string \<Rightarrow> string list" where
  "report_notes recs warning opt_level =
     (let names = set (map rec_name recs); scalar = scalar_notes names warning opt_level;
          missing = missing_passes names warning opt_level in
      (case warning of None \<Rightarrow> [] | Some w \<Rightarrow> [w]) @
      (if scalar \<noteq> [] then scalar else [foundation_note]) @
      (if missing \<noteq> [] then [''Not enabled: '' @ py_join '', '' (sort missing) @ ''.''] else []) @
      [cycle_model_note])"

subsection \<open>The report as a dictionary\<close>

definition get_or :: "detail dict \<Rightarrow> string \<Rightarrow> detail \<Rightarrow> detail" where
  "get_or d k v = (case map_of d k of None \<Rightarrow> v | Some w \<Rightarrow> w)"

text \<open>The entries of a nested dictionary; \<open>None\<close> where \<^verbatim>\<open>.items()\<close> raises \<^verbatim>\<open>AttributeError\<close>.\<close>

definition entries_of :: "detail \<Rightarrow> detail dict option" where
  "entries_of v = (case v of DDict d \<Rightarrow> Some d | _ \<Rightarrow> None)"

definition report_validation :: "detail dict" where
  "report_validation =
     [(''local_simulator'', DStr ''not_run_by_compiler''),
      (''official_golden_model'', DStr ''available_not_integrated_not_run''),
      (''official_cycle_model'', DStr ''not_available_not_run'')]"

definition report_to_dict :: "CompilationReport \<Rightarrow> detail dict option" where
  "report_to_dict rep =
     (let static = get_or (rep_metrics rep) ''static_metrics'' (DDict []);
          cycle = get_or (rep_metrics rep) ''cycle_model_metrics'' (DDict null_cycle_model_metrics);
          metrics = AList.delete ''cycle_model_metrics'' (AList.delete ''static_metrics'' (rep_metrics rep));
          get = (\<lambda>k. get_or metrics k (DInt 0));
          opt_level = rep_optimization rep in
      Option.bind (entries_of static) (\<lambda>static_entries.
      Option.bind (entries_of cycle) (\<lambda>cycle_entries.
      Some
       [(''status'', DStr ''ok''),
        (''input'', DStr (rep_input rep)),
        (''output'', DStr (rep_output rep)),
        (''optimization'', DStr (''O'' @ opt_level)),
        (''opt_level'', DStr (''O'' @ opt_level)),
        (''num_ptx_instructions'', get ''source_instruction_count''),
        (''num_aec_instructions'', get ''machine_instruction_count''),
        (''num_basic_blocks'', get ''basic_block_count''),
        (''num_virtual_registers'',
           get_or metrics ''virtual_register_count'' (get ''highest_encoded_register_index'')),
        (''num_physical_registers'', get ''physical_register_count''),
        (''num_predicates'', get ''predicate_count''),
        (''spills'', DDict [(''loads'', get ''spill_loads''), (''stores'', get ''spill_stores'')]),
        (''passes'', DDict (sort_mapping (spec_passes (rep_passes rep) (rep_scheduler_warning rep)))),
        (''warnings'', DList (map DStr (report_notes (rep_passes rep) (rep_scheduler_warning rep) opt_level))),
        (''schema_version'', DInt 1),
        (''profile'', DStr (rep_profile rep)),
        (''pipeline'', DStr (rep_pipeline rep)),
        (''performance_target'', DStr (rep_target rep)),
        (''pass_records'', DList (map record_to_dict (rep_passes rep))),
        (''metrics'', DDict (sorted_items metrics)),
        (''static_metrics'', DDict (sort_mapping static_entries)),
        (''cycle_model_metrics'', DDict (sort_mapping cycle_entries)),
        (''validation'', DDict report_validation),
        (''notes'', DList (map DStr (report_notes (rep_passes rep) None opt_level)))])))"

subsection \<open>JSON\<close>

text \<open>The code points of a string of UTF-8 bytes.\<close>

fun utf8_codes :: "nat list \<Rightarrow> nat list" where
  "utf8_codes [] = []"
| "utf8_codes (a # bs) =
     (if a < 0x80 then a # utf8_codes bs
      else if a < 0xE0 then
        (case bs of b # cs \<Rightarrow> ((a - 0xC0) * 64 + (b - 0x80)) # utf8_codes cs | _ \<Rightarrow> [])
      else if a < 0xF0 then
        (case bs of b # c # ds \<Rightarrow> ((a - 0xE0) * 4096 + (b - 0x80) * 64 + (c - 0x80)) # utf8_codes ds | _ \<Rightarrow> [])
      else
        (case bs of b # c # d # es \<Rightarrow>
           ((a - 0xF0) * 262144 + (b - 0x80) * 4096 + (c - 0x80) * 64 + (d - 0x80)) # utf8_codes es
         | _ \<Rightarrow> []))"

text \<open>\<^verbatim>\<open>json.dumps\<close> with \<^verbatim>\<open>ensure_ascii\<close>: all but the printable ASCII characters is escaped.\<close>

definition json_u :: "nat \<Rightarrow> string" where
  "json_u n = [CHR 0x5C, CHR ''u''] @ py_hex_pad 4 (int n)"

definition json_escape :: "nat \<Rightarrow> string" where
  "json_escape n =
     (if n = 0x22 then [CHR 0x5C, CHR 0x22]
      else if n = 0x5C then [CHR 0x5C, CHR 0x5C]
      else if n = 0x0A then [CHR 0x5C, CHR ''n'']
      else if n = 0x0D then [CHR 0x5C, CHR ''r'']
      else if n = 0x09 then [CHR 0x5C, CHR ''t'']
      else if n = 0x0C then [CHR 0x5C, CHR ''f'']
      else if n = 0x08 then [CHR 0x5C, CHR ''b'']
      else if 0x20 \<le> n \<and> n \<le> 0x7E then [char_of n]
      else if n < 0x10000 then json_u n
      else json_u (0xD800 + (n - 0x10000) div 0x400) @ json_u (0xDC00 + (n - 0x10000) mod 0x400))"

definition json_string :: "string \<Rightarrow> string" where
  "json_string s = [CHR 0x22] @ concat (map json_escape (utf8_codes (map of_char s))) @ [CHR 0x22]"

definition newline :: "nat \<Rightarrow> string" where
  "newline level = CHR 0x0A # replicate (2 * level) (CHR 0x20)"

definition json_block :: "char \<Rightarrow> char \<Rightarrow> nat \<Rightarrow> string list \<Rightarrow> string" where
  "json_block op cl level parts =
     (if parts = [] then [op, cl]
      else [op] @ newline (Suc level) @ py_join ('','' @ newline (Suc level)) parts @ newline level @ [cl])"

fun json_value :: "nat \<Rightarrow> detail \<Rightarrow> string"
  and json_elements :: "nat \<Rightarrow> detail list \<Rightarrow> string list"
  and json_entries :: "nat \<Rightarrow> detail dict \<Rightarrow> (string \<times> string) list" where
  "json_value level DNone = ''null''"
| "json_value level (DInt n) = py_str n"
| "json_value level (DBool b) = (if b then ''true'' else ''false'')"
| "json_value level (DStr s) = json_string s"
| "json_value level (DList vs) = json_block (CHR ''['') (CHR '']'') level (json_elements (Suc level) vs)"
| "json_value level (DDict d) = json_block (CHR 0x7B) (CHR 0x7D) level
     (map (\<lambda>(k, t). json_string k @ '': '' @ t) (sorted_items (json_entries (Suc level) d)))"
| "json_elements level [] = []"
| "json_elements level (v # vs) = json_value level v # json_elements level vs"
| "json_entries level [] = []"
| "json_entries level ((k, v) # d) = (k, json_value level v) # json_entries level d"

definition report_to_json :: "CompilationReport \<Rightarrow> string option" where
  "report_to_json rep = map_option (\<lambda>d. json_value 0 (DDict d) @ [CHR 0x0A]) (report_to_dict rep)"

subsection \<open>What the report says\<close>

definition ascii :: "string \<Rightarrow> bool" where
  "ascii s \<longleftrightarrow> list_all (\<lambda>c. of_char c < (128 :: nat)) s"

lemma ascii_append [simp]: "ascii (s @ t) \<longleftrightarrow> ascii s \<and> ascii t"
  by (simp add: ascii_def)

lemma ascii_Cons [simp]: "ascii (c # s) \<longleftrightarrow> of_char c < (128 :: nat) \<and> ascii s"
  by (simp add: ascii_def)

lemma ascii_Nil [simp]: "ascii []"
  by (simp add: ascii_def)

lemma ascii_concat: "(\<And>s. s \<in> set ss \<Longrightarrow> ascii s) \<Longrightarrow> ascii (concat ss)"
  by (induction ss) auto

lemma ascii_digits: "2 \<le> b \<Longrightarrow> b \<le> 16 \<Longrightarrow> ascii (digits_base b n)"
proof (induction n rule: less_induct)
  case (less n)
  have small: "ascii [digit_char d]" if "d < 16" for d
    using that by (auto simp: digit_char_def)
  show ?case
  proof (cases "n < b")
    case True
    then show ?thesis using less.prems small [of n] by (simp add: digits_base.simps)
  next
    case False
    have "n mod b < b" using less.prems by (intro mod_less_divisor) simp
    then have "ascii [digit_char (n mod b)]" using less.prems by (intro small) linarith
    moreover have "ascii (digits_base b (n div b))" using less False by (intro less.IH) auto
    ultimately show ?thesis using less.prems False by (simp add: digits_base.simps [of b n])
  qed
qed

lemma ascii_numbers: "ascii (py_str i)" "ascii (py_hex_pad w i)"
  using ascii_digits [of 10] ascii_digits [of 16]
  by (auto simp: py_str_def py_hex_pad_def pad_zero_def py_hex_def ascii_def list_all_iff)

lemma ascii_escape: "ascii (json_escape n)"
  by (auto simp: json_escape_def json_u_def ascii_numbers)

lemma ascii_string: "ascii (json_string s)"
  by (auto simp: json_string_def intro!: ascii_concat ascii_escape)

lemma ascii_join: "ascii sep \<Longrightarrow> (\<And>x. x \<in> set xs \<Longrightarrow> ascii x) \<Longrightarrow> ascii (py_join sep xs)"
  by (induction sep xs rule: py_join.induct) auto

lemma ascii_newline: "ascii (newline n)"
  by (simp add: newline_def ascii_def list_all_iff)

lemma ascii_block:
  "ascii [op, cl] \<Longrightarrow> (\<And>x. x \<in> set parts \<Longrightarrow> ascii x) \<Longrightarrow> ascii (json_block op cl level parts)"
  by (simp add: json_block_def ascii_newline ascii_join)

lemma ascii_json:
  "ascii (json_value level v)"
  "x \<in> set (json_elements level vs) \<Longrightarrow> ascii x"
  "(k, x) \<in> set (json_entries level d) \<Longrightarrow> ascii x"
proof (induction level v and level vs and level d arbitrary: and x and k x
    rule: json_value_json_elements_json_entries.induct)
  case (6 level d)
  then show ?case by (auto simp: sorted_items_def ascii_string intro!: ascii_block)
qed (auto simp: ascii_numbers ascii_string intro!: ascii_block)

text \<open>Sorting a dictionary does not change what it holds.\<close>

lemma sorted_items_lookup: "distinct (map fst d) \<Longrightarrow> map_of (sorted_items d) = map_of d"
  unfolding sorted_items_def by (subst map_of_inject_set) (auto simp: distinct_map inj_on_def distinct_sort)

lemma build_metrics_dict:
  assumes "build_metrics m lowered recs = Inr ms"
  shows "map_of ms ''static_metrics'' = Some (DDict (build_static_metrics lowered))"
    "map_of ms ''cycle_model_metrics'' = Some (DDict null_cycle_model_metrics)"
    "map_of ms ''machine_instruction_count'' = Some (DInt (int (length (lowered_instructions lowered))))"
    "map_of ms ''code_size_bytes'' = Some (DInt (int (length (lowered_instructions lowered)) * 16))"
    "distinct (map fst ms)"
  using assms by (cases "transforms_applied recs"; force simp: build_metrics_def Let_def count_of_def)+

lemma report_counts:
  assumes "build_metrics m lowered recs = Inr (rep_metrics rep)"
  shows "\<exists>d md. report_to_dict rep = Some d \<and>
    map_of d ''output'' = Some (DStr (rep_output rep)) \<and>
    map_of d ''num_aec_instructions'' = Some (DInt (int (length (lowered_instructions lowered)))) \<and>
    map_of d ''metrics'' = Some (DDict md) \<and>
    map_of md ''code_size_bytes'' = Some (DInt (int (length (lowered_instructions lowered)) * 16))"
proof -
  note ms = build_metrics_dict [OF assms]
  have "distinct (map fst (AList.delete ''cycle_model_metrics'' (AList.delete ''static_metrics'' (rep_metrics rep))))"
    using ms(5) by (intro distinct_delete) 
  then show ?thesis
    using ms(1-4)
    by (simp add: report_to_dict_def Let_def get_or_def entries_of_def sorted_items_lookup delete_conv')
qed

end
