(* ===== verification/Command_Line.thy ===== *)
theory Command_Line
  imports Report_Dict Objdump Compiler_Correct
begin

text \<open>
  The two command lines, from the parsed arguments on: \<^verbatim>\<open>aec-cc\<close> (\<^verbatim>\<open>main\<close> of \<^verbatim>\<open>compiler.py\<close>) reads a
  kernel and writes the binary and, when asked, the report; \<^verbatim>\<open>aec-objdump\<close> (\<^verbatim>\<open>main\<close> of \<^verbatim>\<open>objdump.py\<close>)
  lists a binary. The files of the host are a map from paths to bytes; writing to a path may be refused.
\<close>

subsection \<open>The host\<close>

text \<open>
  The files there are, and the paths that can be written, which covers the making of the directories
  above them (\<^verbatim>\<open>mkdir(parents=True)\<close>).
\<close>

record host_files =
  contents :: "string \<Rightarrow> byte list option"
  writable :: "string \<Rightarrow> bool"

definition put_file :: "string \<Rightarrow> byte list \<Rightarrow> host_files \<Rightarrow> host_files" where
  "put_file path bs fs = fs\<lparr>contents := (contents fs)(path := Some bs)\<rparr>"

text \<open>\<open>Exit\<close> is the value \<^verbatim>\<open>main\<close> returns; \<open>Traceback\<close> an exception it does not catch.\<close>

datatype exit = Exit int | Traceback

text \<open>\<^verbatim>\<open>read_text(encoding="utf-8")\<close>: the bytes must be UTF-8, and every line end becomes a newline.\<close>

definition continues :: "nat \<Rightarrow> bool" where
  "continues b \<longleftrightarrow> 0x80 \<le> b \<and> b < 0xC0"

fun valid_utf8 :: "nat list \<Rightarrow> bool" where
  "valid_utf8 [] = True"
| "valid_utf8 (a # bs) =
     (if a < 0x80 then valid_utf8 bs
      else if a < 0xC2 then False
      else if a < 0xE0 then (case bs of b # cs \<Rightarrow> continues b \<and> valid_utf8 cs | _ \<Rightarrow> False)
      else if a < 0xF0 then
        (case bs of b # c # ds \<Rightarrow>
           continues b \<and> (a = 0xE0 \<longrightarrow> 0xA0 \<le> b) \<and> (a = 0xED \<longrightarrow> b < 0xA0) \<and> continues c \<and> valid_utf8 ds
         | _ \<Rightarrow> False)
      else if a < 0xF5 then
        (case bs of b # c # d # es \<Rightarrow>
           continues b \<and> (a = 0xF0 \<longrightarrow> 0x90 \<le> b) \<and> (a = 0xF4 \<longrightarrow> b < 0x90) \<and> continues c \<and> continues d \<and>
           valid_utf8 es
         | _ \<Rightarrow> False)
      else False)"

fun universal_newlines :: "string \<Rightarrow> string" where
  "universal_newlines [] = []"
| "universal_newlines (c # cs) =
     (if c = CHR 0x0D then
        (case cs of d # ds \<Rightarrow> if d = CHR 0x0A then CHR 0x0A # universal_newlines ds
                               else CHR 0x0A # universal_newlines cs
         | [] \<Rightarrow> [CHR 0x0A])
      else c # universal_newlines cs)"

definition read_text :: "byte list \<Rightarrow> string option" where
  "read_text bs = (let ns = map unat bs in
     if valid_utf8 ns then Some (universal_newlines (map char_of ns)) else None)"

definition text_bytes :: "string \<Rightarrow> byte list" where
  "text_bytes s = map (\<lambda>c. of_nat (of_char c)) s"

subsection \<open>\<^verbatim>\<open>aec-cc\<close>\<close>

record cc_args =
  arg_input :: string
  arg_output :: string
  arg_level :: string
  arg_profile :: string
  arg_target :: string
  arg_report :: "string option"

text \<open>The exceptions \<^verbatim>\<open>main\<close> catches: \<^verbatim>\<open>OSError\<close> and \<^verbatim>\<open>ValueError\<close> with its subclasses.\<close>

fun pass_caught :: "pass_error \<Rightarrow> bool" where
  "pass_caught (PassValueError _) = True"
| "pass_caught (PassCFGError _) = True"
| "pass_caught _ = False"

fun lowering_caught :: "compile_error \<Rightarrow> bool" where
  "lowering_caught (LowerKeyError _) = False"
| "lowering_caught LowerIndexError = False"
| "lowering_caught _ = True"

fun main_catches :: "front_error \<Rightarrow> bool" where
  "main_catches (MissingPasses _) = False"
| "main_catches (PassFailed e) = pass_caught e"
| "main_catches (LoweringFailed e) = lowering_caught e"
| "main_catches _ = True"

definition failure :: "front_error \<Rightarrow> exit" where
  "failure e = (if main_catches e then Exit 1 else Traceback)"

definition write_report :: "CompilationReport \<Rightarrow> string \<Rightarrow> host_files \<Rightarrow> exit \<times> host_files" where
  "write_report rep path fs = (case report_to_json rep of
     None \<Rightarrow> (Traceback, fs)
   | Some text \<Rightarrow> if writable fs path then (Exit 0, put_file path (text_bytes text) fs) else (Exit 1, fs))"

definition cc_main :: "float_host \<Rightarrow> cc_args \<Rightarrow> host_files \<Rightarrow> exit \<times> host_files" where
  "cc_main h args fs =
     (case map_of PROFILES (arg_profile args) of
        None \<Rightarrow> (Traceback, fs)
      | Some prof \<Rightarrow>
     (case Option.bind (contents fs (arg_input args)) read_text of
        None \<Rightarrow> (Exit 1, fs)
      | Some text \<Rightarrow>
     (case compile_ptx_detailed h text prof (arg_level args) (arg_input args) (arg_output args) (arg_target args) of
        Inl e \<Rightarrow> (failure e, fs)
      | Inr r \<Rightarrow>
     (case write_binary (res_lowered r) prof of
        Inl e \<Rightarrow> (failure e, fs)
      | Inr bs \<Rightarrow>
          if \<not> writable fs (arg_output args) then (Exit 1, fs)
          else
          let fs' = put_file (arg_output args) bs fs in
          (case arg_report args of
             None \<Rightarrow> (Exit 0, fs')
           | Some path \<Rightarrow> write_report (res_report r) path fs')))))"

subsection \<open>\<^verbatim>\<open>aec-objdump\<close>\<close>

text \<open>The exit value and the lines printed.\<close>

definition objdump_main :: "string \<Rightarrow> string \<Rightarrow> host_files \<Rightarrow> exit \<times> string list" where
  "objdump_main input profile fs =
     (case contents fs input of
        None \<Rightarrow> (Exit 1, [])
      | Some bs \<Rightarrow>
     (case disassemble bs profile of
        Inl (NoProfile _) \<Rightarrow> (Traceback, [])
      | Inl (Undecodable _) \<Rightarrow> (Exit 1, [])
      | Inr listing \<Rightarrow> (Exit 0, listing)))"

subsection \<open>What the two programs leave and print\<close>

lemma failure_no_zero: "failure e \<noteq> Exit 0"
  by (simp add: failure_def)

text \<open>A successful run of the compiler, inverted.\<close>

lemma cc_main_zero:
  assumes "cc_main h args fs = (Exit 0, fs')"
  obtains prof bytes src r bs where
    "map_of PROFILES (arg_profile args) = Some prof" "contents fs (arg_input args) = Some bytes" "read_text bytes = Some src"
    "compile_ptx_detailed h src prof (arg_level args) (arg_input args) (arg_output args) (arg_target args) = Inr r"
    "write_binary (res_lowered r) prof = Inr bs"
    "case arg_report args of None \<Rightarrow> fs' = put_file (arg_output args) bs fs
     | Some path \<Rightarrow> \<exists>t. report_to_json (res_report r) = Some t \<and>
         fs' = put_file path (text_bytes t) (put_file (arg_output args) bs fs)"
  using assms failure_no_zero
  by (auto simp: cc_main_def write_report_def Let_def bind_eq_Some_conv split: option.splits sum.splits if_splits)

lemma compiled_report:
  assumes "compile_ptx_detailed h text prof level input output target = Inr r"
  shows "rep_output (res_report r) = output" "\<exists>m recs. build_metrics m (res_lowered r) recs = Inr (rep_metrics (res_report r))"
  using assms unfolding compile_ptx_detailed_def
  by (auto simp: bind_r_def map_error_def split: if_splits sum.splits prod.splits) blast

lemma text_bytes_small: "ascii s \<Longrightarrow> list_all (\<lambda>b. b < 128) (text_bytes s)"
  by (auto simp: text_bytes_def ascii_def list_all_iff word_less_nat_alt unat_of_nat)

lemma read_written:
  assumes "ascii s" "CHR 0x0D \<notin> set s"
  shows "read_text (text_bytes s) = Some s"
proof -
  have nums: "map unat (text_bytes s) = map of_char s"
    using assms(1) by (auto simp: text_bytes_def ascii_def list_all_iff unat_of_nat)
  have "valid_utf8 (map of_char s)" using assms(1) by (induction s) auto
  moreover have "universal_newlines s = s" using assms(2) by (induction s) auto
  ultimately show ?thesis by (simp add: read_text_def nums comp_def Let_def)
qed

text \<open>
  C10. When the compiler exits with 0 and was asked for a report in another file than the
  binary, at any level and for any kernel, the two files agree: the binary has sixteen bytes for each of
  the instructions the report counts, the code size in the report is the size of the file, the report is
  ASCII text and names the binary. No other file changes. The disassembler then exits with 0 and prints
  one line for each instruction counted, provided the binary is not taken for one with a header: it has
  fewer than four instructions, or its first word is not the magic number.
\<close>

theorem command_line_agrees:
  assumes "cc_main h args fs = (Exit 0, fs')" "arg_report args = Some path" "path \<noteq> arg_output args"
  shows "\<exists>bs n d md json. contents fs' (arg_output args) = Some bs \<and> length bs = 16 * n \<and>
    contents fs' path = Some (text_bytes json) \<and> list_all (\<lambda>b. b < 128) (text_bytes json) \<and>
    json = json_value 0 (DDict d) @ [CHR 0x0A] \<and>
    map_of d ''output'' = Some (DStr (arg_output args)) \<and>
    map_of d ''num_aec_instructions'' = Some (DInt (int n)) \<and>
    map_of d ''metrics'' = Some (DDict md) \<and> map_of md ''code_size_bytes'' = Some (DInt (int (length bs))) \<and>
    (n < 4 \<or> unpack_u32 bs 0 \<noteq> AECI_MAGIC \<longrightarrow>
       (\<exists>lines. objdump_main (arg_output args) (arg_profile args) fs' = (Exit 0, lines) \<and> length lines = n)) \<and>
    (\<forall>q. q \<noteq> arg_output args \<longrightarrow> q \<noteq> path \<longrightarrow> contents fs' q = contents fs q)"
proof -
  obtain prof bytes src r bs where prof: "map_of PROFILES (arg_profile args) = Some prof"
    and comp: "compile_ptx_detailed h src prof (arg_level args) (arg_input args) (arg_output args) (arg_target args) = Inr r"
    and bs: "write_binary (res_lowered r) prof = Inr bs"
    and files: "case arg_report args of None \<Rightarrow> fs' = put_file (arg_output args) bs fs
     | Some path \<Rightarrow> \<exists>t. report_to_json (res_report r) = Some t \<and>
         fs' = put_file path (text_bytes t) (put_file (arg_output args) bs fs)"
    by (rule cc_main_zero [OF assms(1)])
  obtain json where json: "report_to_json (res_report r) = Some json"
    and fs': "fs' = put_file path (text_bytes json) (put_file (arg_output args) bs fs)"
    using files assms(2) by auto
  note r = compiled_report [OF comp]
  let ?n = "length (lowered_instructions (res_lowered r))"
  have enc: "instructions_to_bytes prof (lowered_instructions (res_lowered r)) = Inr bs"
    using bs by (auto simp: write_binary_def map_error_def split: sum.splits)
  have len: "length bs = 16 * ?n" using instructions_to_bytes_words(1) [OF enc] .
  obtain d md where d: "report_to_dict (res_report r) = Some d" "map_of d ''output'' = Some (DStr (arg_output args))"
      "map_of d ''num_aec_instructions'' = Some (DInt (int ?n))" "map_of d ''metrics'' = Some (DDict md)"
      "map_of md ''code_size_bytes'' = Some (DInt (int ?n * 16))"
    using report_counts r by metis
  have t: "json = json_value 0 (DDict d) @ [CHR 0x0A]" using json d(1) by (simp add: report_to_json_def)
  have "\<exists>lines. objdump_main (arg_output args) (arg_profile args) fs' = (Exit 0, lines) \<and> length lines = ?n"
    if "?n < 4 \<or> unpack_u32 bs 0 \<noteq> AECI_MAGIC"
    using raw_listing [OF prof enc that] fs' assms(3) by (auto simp: objdump_main_def put_file_def)
  moreover have "list_all (\<lambda>b. b < 128) (text_bytes json)"
    unfolding t by (intro text_bytes_small) (simp add: ascii_json del: json_value.simps)
  ultimately show ?thesis
    using d t len assms(3) fs' by (intro exI [of _ bs] exI [of _ ?n] exI [of _ d] exI [of _ md] exI [of _ json]) (simp add: put_file_def)
qed

text \<open>A kernel in a file, compiled with a report.\<close>

definition demo_files :: host_files where
  "demo_files = \<lparr>contents = [''k.ptx'' \<mapsto> text_bytes kernel_text], writable = \<lambda>_. True\<rparr>"

definition demo_args :: cc_args where
  "demo_args = \<lparr>arg_input = ''k.ptx'', arg_output = ''k.bin'', arg_level = ''0'', arg_profile = ''track_b_v1'',
     arg_target = ''aec_slide_constraints'', arg_report = Some ''k.json''\<rparr>"

lemma demo_compiled:
  "case compile_ptx_detailed demo_host kernel_text TRACK_B_V1 ''0'' ''k.ptx'' ''k.bin'' ''aec_slide_constraints'' of
     Inl _ \<Rightarrow> False
   | Inr r \<Rightarrow> (case write_binary (res_lowered r) TRACK_B_V1 of Inl _ \<Rightarrow> False
       | Inr bs \<Rightarrow> length bs = 320 \<and> unpack_u32 bs 0 \<noteq> AECI_MAGIC)"
  by code_simp

lemma demo_text: "ascii kernel_text \<and> CHR 0x0D \<notin> set kernel_text"
  by code_simp

lemma demo_command:
  "\<exists>fs' bs. cc_main demo_host demo_args demo_files = (Exit 0, fs') \<and> contents fs' ''k.bin'' = Some bs \<and>
     length bs = 320 \<and> unpack_u32 bs 0 \<noteq> AECI_MAGIC"
proof -
  obtain r bs where r: "compile_ptx_detailed demo_host kernel_text TRACK_B_V1 ''0'' ''k.ptx'' ''k.bin'' ''aec_slide_constraints'' = Inr r"
    and bs: "write_binary (res_lowered r) TRACK_B_V1 = Inr bs" "length bs = 320" "unpack_u32 bs 0 \<noteq> AECI_MAGIC"
    using demo_compiled by (auto split: sum.splits)
  obtain json where "report_to_json (res_report r) = Some json"
    using compiled_report(2) [OF r] report_counts unfolding report_to_json_def by blast
  moreover have "map_of PROFILES ''track_b_v1'' = Some TRACK_B_V1"
    using profile_names(1) by (simp add: TRACK_B_V1_def)
  ultimately show ?thesis
    using r bs demo_text read_written [of kernel_text]
    by (simp add: cc_main_def demo_args_def demo_files_def write_report_def put_file_def)
qed

theorem command_line_agrees_witness:
  "\<exists>fs' bs d lines. cc_main demo_host demo_args demo_files = (Exit 0, fs') \<and>
     contents fs' ''k.bin'' = Some bs \<and> length bs = 320 \<and>
     contents fs' ''k.json'' = Some (text_bytes (json_value 0 (DDict d) @ [CHR 0x0A])) \<and>
     map_of d ''num_aec_instructions'' = Some (DInt 20) \<and>
     objdump_main ''k.bin'' ''track_b_v1'' fs' = (Exit 0, lines) \<and> length lines = 20"
proof -
  obtain fs' bs where run: "cc_main demo_host demo_args demo_files = (Exit 0, fs')"
    "contents fs' ''k.bin'' = Some bs" "length bs = 320" "unpack_u32 bs 0 \<noteq> AECI_MAGIC"
    using demo_command by blast
  have args: "arg_report demo_args = Some ''k.json''" "arg_output demo_args = ''k.bin''" "arg_profile demo_args = ''track_b_v1''"
    by (simp_all add: demo_args_def)
  from command_line_agrees [OF run(1) args(1)] obtain n d where
    n: "length bs = 16 * n" "contents fs' ''k.json'' = Some (text_bytes (json_value 0 (DDict d) @ [CHR 0x0A]))"
      "map_of d ''num_aec_instructions'' = Some (DInt (int n))"
      "\<exists>lines. objdump_main ''k.bin'' ''track_b_v1'' fs' = (Exit 0, lines) \<and> length lines = n"
    unfolding args using run by auto
  have "n = 20" using n(1) run(3) by simp
  then show ?thesis using run n by auto
qed

subsection \<open>A first immediate that looks like a header\<close>

text \<open>
  The compiler writes binaries without a header, so the first word is the immediate or the third source
  of the first instruction. A kernel that starts by loading the magic number is listed as empty.
\<close>

definition magic_program :: "AECInstruction list" where
  "magic_program = (aec ''LOADI'')\<lparr>dest := 1, imm := AECI_MAGIC\<rparr> # replicate 3 (aec ''HALT'')"

lemma magic_bytes:
  "case instructions_to_bytes TRACK_B_V1 magic_program of Inl _ \<Rightarrow> False
   | Inr bs \<Rightarrow> length bs = 64 \<and> unpack_u32 bs 0 = AECI_MAGIC \<and> 64 \<le> unpack_u32 bs 12"
  by code_simp

lemma listing_lost:
  "\<exists>bs. instructions_to_bytes TRACK_B_V1 magic_program = Inr bs \<and> length bs = 64 \<and> disassemble bs ''track_b_v1'' = Inr []"
proof -
  obtain bs where bs: "instructions_to_bytes TRACK_B_V1 magic_program = Inr bs" "length bs = 64"
    "unpack_u32 bs 0 = AECI_MAGIC" "64 \<le> unpack_u32 bs 12"
    using magic_bytes by (auto split: sum.splits)
  have "64 \<le> nat (unpack_u32 bs 12)" using bs(4) by linarith
  then have "drop (code_offset bs) bs = []" using bs by (simp add: code_offset_def)
  moreover have "map_of PROFILES ''track_b_v1'' = Some TRACK_B_V1"
    using profile_names(1) by (simp add: TRACK_B_V1_def)
  ultimately show ?thesis using bs by (simp add: disassemble_def bytes_to_words_def iter_unpack_4I.simps)
qed

end
