(* ===== verification/Lower_Alloc.thy ===== *)
theory Lower_Alloc
  imports Lower_Correct RA_Proofs
begin

unbundle bit_operations_syntax

text \<open>
  The lowering with the registers of the register allocation pass, where names whose live ranges do not
  overlap share a register. An instruction only sees the names live at its position, which are kept
  apart; the relation with the reference semantics is about the names live into the position.
\<close>

subsection \<open>The names an instruction looks up\<close>

definition looked_up :: "PTXInstruction \<Rightarrow> string list" where
  "looked_up i = (let parts = opcode_parts (inst_opcode i); base = hd parts; ops = operands i in
     if base = ''bra'' \<or> base = ''ret'' then []
     else if base = ''ld'' then
       map py_strip (take 1 ops) @
       (if 2 \<le> length parts \<and> parts ! 1 = ''param'' then [] else map strip_brackets (drop 1 ops))
     else if base = ''st'' then map strip_brackets (take 1 ops) @ map py_strip (drop 1 ops)
     else if base = ''setp'' then filter is_register_name (map py_strip (drop 1 ops))
     else map py_strip (take 1 ops) @ filter is_register_name (map py_strip (drop 1 ops)))"

text \<open>
  The same state with another mapping. An action is \<open>in_place\<close> for two mappings when it leaves the
  first one as it is, and does the same with the second.
\<close>

definition swap :: "int dict \<Rightarrow> lower_state \<Rightarrow> lower_state" where
  "swap D s = s\<lparr>ls_regs := (ls_regs s)\<lparr>ra_mapping := D\<rparr>\<rparr>"

definition in_place :: "int dict \<Rightarrow> int dict \<Rightarrow> 'a lowering \<Rightarrow> bool" where
  "in_place A D m \<longleftrightarrow> (\<forall>s x s'. ra_mapping (ls_regs s) = A \<longrightarrow> m s = Inr (x, s') \<longrightarrow>
     ra_mapping (ls_regs s') = A \<and> m (swap D s) = Inr (x, swap D s'))"

definition found :: "int dict \<Rightarrow> int dict \<Rightarrow> string \<Rightarrow> bool" where
  "found A D v \<longleftrightarrow> map_of A v \<noteq> None \<and> map_of D v = map_of A v"

lemma in_place_lbind:
  "in_place A D m \<Longrightarrow> (\<And>x. in_place A D (f x)) \<Longrightarrow> in_place A D (lbind m f)"
  unfolding in_place_def lbind_Inr by blast

lemma in_place_lift: "in_place A D (lift_l r)"
  by (auto simp: in_place_def)

lemma in_place_require:
  assumes "length (operands i) = n \<Longrightarrow> in_place A D (f ())"
  shows "in_place A D (lbind (require_operands i n) f)"
proof (cases "length (operands i) = n")
  case True
  then have "lbind (require_operands i n) f = f ()" by (simp add: fun_eq_iff lbind_def require_operands_def lift_l_def)
  then show ?thesis using assms True by simp
qed (simp add: in_place_def)

lemma in_place_if: "(c \<Longrightarrow> in_place A D a) \<Longrightarrow> (\<not> c \<Longrightarrow> in_place A D b) \<Longrightarrow> in_place A D (if c then a else b)"
  by simp

lemma in_place_option:
  "in_place A D a \<Longrightarrow> (\<And>x. in_place A D (f x)) \<Longrightarrow> in_place A D (case z of None \<Rightarrow> a | Some x \<Rightarrow> f x)"
  by (cases z) simp_all

lemma in_place_emit: "in_place A D (emit env k x)"
  by (auto simp: in_place_def emit_def swap_def Let_def)

lemma in_place_temp: "in_place A D (on_regs ra_temp)"
  by (auto simp: in_place_def on_regs_def ra_temp_def swap_def Let_def split: if_splits)

lemma in_place_reg: "found A D (py_strip t) \<Longrightarrow> in_place A D (ptx_reg t p)"
  by (auto simp: in_place_def found_def ptx_reg_def on_regs_def ra_reg_def swap_def Let_def)

lemmas in_place_basics = in_place_lbind in_place_lift in_place_option in_place_emit in_place_temp

lemma in_place_load: "in_place A D (load_imm env k v)"
  unfolding load_imm_def by (intro in_place_basics)

lemma in_place_operand:
  "(is_register_name (py_strip t) \<Longrightarrow> found A D (py_strip t)) \<Longrightarrow> in_place A D (operand_reg env k t p)"
  unfolding operand_reg_def is_register_token_def
  by (intro in_place_if in_place_reg in_place_basics in_place_load)

lemma in_place_guarded: "in_place A D (emit_guarded env k i inst)"
  unfolding emit_guarded_def by (intro in_place_basics)

lemmas in_place_rules = in_place_basics in_place_load in_place_guarded

lemma in_place_instruction:
  assumes "\<And>v. v \<in> set (looked_up i) \<Longrightarrow> found A D v" "opcode_base (inst_opcode i) \<notin> {''bra'', ''ret'', ''cvt''}"
  shows "in_place A D (lower_instruction env k i)"
proof -
  let ?b = "opcode_base (inst_opcode i)" and ?ops = "operands i" and ?parts = "opcode_parts (inst_opcode i)"
  have ld: "found A D (py_strip (?ops ! 0))" "?parts ! 1 \<noteq> ''param'' \<Longrightarrow> found A D (strip_brackets (?ops ! 1))"
    if "?b = ''ld''" "3 \<le> length ?parts" "length ?ops = 2"
    using assms(1) that by (auto simp: looked_up_def Let_def length_Suc_conv numeral_2_eq_2)
  have st: "found A D (strip_brackets (?ops ! 0))" "found A D (py_strip (?ops ! 1))" if "?b = ''st''" "length ?ops = 2"
    using assms(1) that by (auto simp: looked_up_def Let_def length_Suc_conv numeral_2_eq_2)
  have src: "found A D (py_strip (?ops ! n))"
    if "?b \<notin> {''ld'', ''st''}" "0 < n" "n < length ?ops" "is_register_name (py_strip (?ops ! n))" for n
  proof -
    have "drop 1 ?ops ! (n - 1) = ?ops ! n" "n - 1 < length (drop 1 ?ops)" using that by auto
    then have "?ops ! n \<in> set (drop 1 ?ops)" by (metis nth_mem)
    then show ?thesis using assms that by (auto simp: looked_up_def Let_def)
  qed
  have dst: "found A D (py_strip (?ops ! 0))" if "?b \<notin> {''ld'', ''st'', ''setp''}" "?ops \<noteq> []"
    using assms that by (cases ?ops) (auto simp: looked_up_def Let_def)
  have strip: "py_strip (strip_brackets t) = strip_brackets t" for t using address_strip [of t] by simp
  have 1: "in_place A D (lower_ld_param env k i t)" if "?b = ''ld''" "3 \<le> length ?parts" for t
    unfolding lower_ld_param_def Let_def by (intro in_place_require in_place_if in_place_reg in_place_rules ld(1)) (use that in auto)
  have 2: "in_place A D (lower_ld_global env k i t)" if "?b = ''ld''" "3 \<le> length ?parts" "?parts ! 1 = ''global''" for t
    unfolding lower_ld_global_def
    by (intro in_place_require in_place_reg in_place_rules) (use that ld in \<open>auto simp: strip\<close>)
  have 3: "in_place A D (lower_st_global env k i t)" if "?b = ''st''" for t
    unfolding lower_st_global_def
    by (intro in_place_require in_place_reg in_place_rules) (use that st in \<open>auto simp: strip\<close>)
  have 4: "in_place A D (lower_mov env k i t)" if b: "?b = ''mov''" for t
    unfolding lower_mov_def Let_def is_register_token_def
    by (intro in_place_require in_place_if in_place_reg in_place_rules src dst) (use b in auto)
  have 5: "in_place A D (lower_setp env k i ?parts)" if "?b = ''setp''"
    unfolding lower_setp_def
    by (intro in_place_require in_place_if in_place_rules in_place_operand src) (use that in auto)
  have 6: "in_place A D (lower_alu env k i ?parts)" if "?b \<in> Lower_Insts.alu_bases"
  proof -
    have nb: "?b \<notin> {''ld'', ''st''}" "?b \<notin> {''ld'', ''st'', ''setp''}" using that by auto
    have srcs: "in_place A D (operand_reg env k (?ops ! n) p)" if "0 < n" "n < length ?ops" for n p
      using src [OF nb(1) that] by (rule in_place_operand)
    have dest: "in_place A D (ptx_reg (?ops ! 0) p)" if "0 < length ?ops" for p
      using dst [OF nb(2)] that by (intro in_place_reg) simp
    show ?thesis unfolding lower_alu_def Let_def emit_wide_def
      by (intro in_place_require in_place_if in_place_rules srcs dest) (simp_all split: if_splits)
  qed
  have alu: "?b \<in> fst ` set ALU_OPCODES \<Longrightarrow> ?b \<in> Lower_Insts.alu_bases" by (auto simp: ALU_OPCODES_def)
  show ?thesis
    unfolding lower_instruction_def Let_def opcode_base_hd
    by (intro in_place_if in_place_lift 1 2 3 4 5 6 alu) (use assms(2) in auto)
qed

subsection \<open>Live intervals\<close>

text \<open>A name is in its interval, both ends included, or is live into a position of it.\<close>

definition covers :: "live_interval dict \<Rightarrow> nat \<Rightarrow> string \<Rightarrow> bool" where
  "covers ivs k v \<longleftrightarrow> (case map_of ivs v of None \<Rightarrow> False | Some (a, b) \<Rightarrow> a \<le> int k \<and> int k \<le> b)"

definition live_into :: "live_interval dict \<Rightarrow> nat \<Rightarrow> string \<Rightarrow> bool" where
  "live_into ivs k v \<longleftrightarrow> (case map_of ivs v of None \<Rightarrow> False | Some (a, b) \<Rightarrow> a < int k \<and> int k \<le> b)"

definition starting :: "live_interval dict \<Rightarrow> nat \<Rightarrow> string list" where
  "starting ivs k = filter (\<lambda>v. covers ivs k v \<and> \<not> live_into ivs k v) (map fst ivs)"

definition written :: "PTXInstruction \<Rightarrow> string option" where
  "written i = (if guard i = None \<and> opcode_base (inst_opcode i) \<in> set (''mov'' # ''ld'' # map fst ALU_OPCODES)
     then (case operands i of [] \<Rightarrow> None | d # _ \<Rightarrow> Some (py_strip d)) else None)"

text \<open>
  What the intervals have to satisfy at an item, as a check: the names it looks up are in their
  intervals; an interval starts with an unguarded definition that does not read the name; what is live
  into the label of a branch is live into the branch.
\<close>

definition item_fits :: "live_interval dict \<Rightarrow> item list \<Rightarrow> nat \<Rightarrow> item \<Rightarrow> bool" where
  "item_fits ivs P k it = (case it of
     Label _ \<Rightarrow> starting ivs k = []
   | Inst i \<Rightarrow> list_all (covers ivs k) (looked_up i) \<and>
       list_all (\<lambda>v. written i = Some v \<and> v \<notin> set (instruction_read_registers i)) (starting ivs k) \<and>
       (if opcode_base (inst_opcode i) = ''bra'' then
          list_all (\<lambda>(j, jt). if (case jt of Label l \<Rightarrow> l \<in> set (operands i) | Inst _ \<Rightarrow> False)
            then list_all (\<lambda>v. if live_into ivs j v then live_into ivs k v else True) (map fst ivs) else True)
            (enumerate 0 P)
        else True))"

definition intervals_fit :: "live_interval dict \<Rightarrow> PTXProgram \<Rightarrow> bool" where
  "intervals_fit ivs p = list_all (\<lambda>(k, it). item_fits ivs (items p) k it) (enumerate 0 (items p))"

lemma covers_starting: "covers ivs k v \<longleftrightarrow> live_into ivs k v \<or> v \<in> set (starting ivs k)"
proof -
  have "v \<in> fst ` set ivs" if "covers ivs k v"
    using that by (auto simp: covers_def split: option.splits dest!: map_of_SomeD intro: rev_image_eqI)
  then show ?thesis by (auto simp: starting_def covers_def live_into_def split: option.splits)
qed

lemma live_into_Suc: "live_into ivs (Suc k) v \<Longrightarrow> covers ivs k v"
  by (auto simp: covers_def live_into_def split: option.splits)

lemma live_into_mem: "live_into ivs k v \<Longrightarrow> v \<in> set (map fst ivs)"
  by (auto simp: live_into_def split: option.splits dest!: map_of_SomeD intro: rev_image_eqI)

lemma intervals_fitD:
  assumes "intervals_fit ivs p" "items p = pre @ it # its"
  shows "item_fits ivs (items p) (length pre) it"
proof -
  have "(length pre, it) \<in> set (enumerate 0 (items p))"
    using assms(2) by (simp add: enumerate_append_eq)
  then show ?thesis using assms(1) by (auto simp: intervals_fit_def list_all_iff)
qed

text \<open>The placement at a position: the registers of the names that satisfy a condition.\<close>

definition restrict_to :: "(string \<Rightarrow> bool) \<Rightarrow> int dict \<Rightarrow> int dict" where
  "restrict_to c A = filter (\<lambda>(v, _). c v) A"

lemma map_of_restrict: "map_of (restrict_to c A) v = (if c v then map_of A v else None)"
  by (induction A) (auto simp: restrict_to_def)

definition placement_at :: "live_interval dict \<Rightarrow> int dict \<Rightarrow> nat \<Rightarrow> placement" where
  "placement_at ivs A k = map_of (restrict_to (covers ivs k) A)"

definition placement_into :: "live_interval dict \<Rightarrow> int dict \<Rightarrow> nat \<Rightarrow> placement" where
  "placement_into ivs A k = map_of (restrict_to (live_into ivs k) A)"

lemma placement_into_at: "placement_into ivs A k \<subseteq>\<^sub>m placement_at ivs A k"
  by (auto simp: placement_into_def placement_at_def map_le_def map_of_restrict covers_starting split: if_splits)

subsection \<open>One instruction with the registers of its position\<close>

lemma implements_swap: "implements h M E I i (swap D s) (swap D s') \<Longrightarrow>
  placement_of s \<subseteq>\<^sub>m placement_of s' \<Longrightarrow> implements h M E I i s s'"
  by (auto simp: implements_def extends_def swap_def)

lemma alloc_implements:
  assumes ok: "lowering_ok env E n P" "Inst i \<in> set P" and low: "lower_item env (k, Inst i) s = Inr s'"
    and base: "opcode_base (inst_opcode i) \<notin> {''bra'', ''ret''}"
    and A: "ra_mapping (ls_regs s) = A" "\<And>v. v \<in> set (looked_up i) \<Longrightarrow> covers ivs k v \<and> map_of A v \<noteq> None"
    and M: "apart_placement (placement_at ivs A k)"
  shows "implements (env_host E) (placement_at ivs A k) E (\<lambda>\<sigma>. length (pmem (vmem \<sigma>)) = n) i s s' \<and>
    ra_mapping (ls_regs s') = A"
proof -
  let ?M = "placement_at ivs A k" and ?D = "restrict_to (covers ivs k) A"
  have plan: "map_of (item_guards (le_plan env)) k = None" and low_i: "lowerable i"
    and par: "drops_guard i \<Longrightarrow> param_fits (env_params E) n i"
    and prof: "map_of (special_registers (le_profile env)) \<subseteq>\<^sub>m map_of (special_registers TRACK_B_V1)"
    and off: "le_offsets env = env_params E"
    using ok by (auto simp: lowering_ok_def)
  have inst: "lower_instruction env k i (resets s) = Inr ((), s')"
    using low ok(1) by (auto simp: lower_item_def lowering_ok_def resets_def)
  have "in_place A ?D (lower_instruction env k i)"
  proof (rule in_place_instruction)
    show "found A ?D v" if "v \<in> set (looked_up i)" for v using A(2) [OF that] by (auto simp: found_def map_of_restrict)
    show "opcode_base (inst_opcode i) \<notin> {''bra'', ''ret'', ''cvt''}" using base low_i by (auto simp: lowerable_def Let_def)
  qed
  moreover have "ra_mapping (ls_regs (resets s)) = A" using A(1) by (simp add: resets_def reset_temps_def)
  ultimately have keep: "ra_mapping (ls_regs s') = A"
    and sw: "lower_instruction env k i (swap ?D (resets s)) = Inr ((), swap ?D s')"
    using inst unfolding in_place_def by blast+
  have "fits ?M (swap ?D s')" "temp_of (swap ?D (resets s)) = 240"
    by (simp_all add: fits_def placement_of_def swap_def placement_at_def temp_of_def resets_def reset_temps_def)
  then have "implements (env_host E) ?M E (\<lambda>\<sigma>. length (pmem (vmem \<sigma>)) = n) i (swap ?D (resets s)) (swap ?D s')"
    using lower_instruction_implements [OF sw base low_i plan M _ _ prof off refl par] by simp
  then have "implements (env_host E) ?M E (\<lambda>\<sigma>. length (pmem (vmem \<sigma>)) = n) i (resets s) s'"
    by (rule implements_swap) (use A(1) keep in \<open>simp add: placement_of_def resets_def reset_temps_def\<close>)
  then show ?thesis using keep by (simp add: implements_def extends_def)
qed

text \<open>
  A name whose interval starts here gets the value its register happens to have; that changes neither
  what the instruction does nor, behind its definition, the relation.
\<close>

definition settle :: "placement \<Rightarrow> LaneState \<Rightarrow> pstate \<Rightarrow> pstate" where
  "settle M l \<sigma> = \<sigma>\<lparr>vregs := (\<lambda>v. case M v of None \<Rightarrow> vregs \<sigma> v | Some r \<Rightarrow> reg_at l r)\<rparr>"

lemma settle_simulates: "simulates K \<sigma> l t \<Longrightarrow> simulates M (settle M l \<sigma>) l t"
  by (auto simp: simulates_def settle_def)

lemma written_effect:
  assumes "step_effect E i \<sigma> = Some e" "written i = Some v"
  shows "\<exists>x s. e = SetReg v x s"
proof -
  have w: "guard i = None" "opcode_base (inst_opcode i) \<in> set (''mov'' # ''ld'' # map fst ALU_OPCODES)"
    "\<exists>d ds. operands i = d # ds \<and> v = py_strip d"
    using assms(2) by (auto simp: written_def split: if_splits list.splits)
  have e: "inst_effect E i \<sigma> = Some e" using assms(1) w(1) by (simp add: step_effect_def guard_holds_def)
  have "opcode_base (inst_opcode i) = ''mov'' \<or> opcode_base (inst_opcode i) = ''ld'' \<or>
      opcode_base (inst_opcode i) \<in> Lower_Insts.alu_bases"
    using w(2) by (auto simp: ALU_OPCODES_def)
  then show ?thesis using effect_mov [OF e] effect_ld [OF e] effect_alu [OF e] w(3) by auto
qed

lemma next_settled:
  assumes "\<And>v r. K v = Some r \<Longrightarrow> vregs \<sigma> v = vregs \<tau> v \<or> (\<exists>x s. e = SetReg v x s)"
    and "vpreds \<sigma> = vpreds \<tau>" "vlane \<sigma> = vlane \<tau>" "vmem \<sigma> = vmem \<tau>"
    and "simulates K (next_state e \<sigma>) l t"
  shows "simulates K (next_state e \<tau>) l t"
  using assms by (cases e) (auto simp: simulates_def set_reg_v_def split: if_splits)

lemma alloc_carries:
  assumes impl: "implements h (placement_at ivs A k) E (\<lambda>\<sigma>. length (pmem (vmem \<sigma>)) = n) i s s'"
    and fit: "item_fits ivs P k (Inst i)"
  shows "carries h (simulates (placement_into ivs A k)) (simulates (placement_into ivs A (Suc k))) E
    (\<lambda>\<sigma>. length (pmem (vmem \<sigma>)) = n) i s s'"
proof -
  let ?M = "placement_at ivs A k"
  obtain xs where xs: "extends s xs s'" and
    run: "\<And>\<sigma> l t e. simulates ?M \<sigma> l t \<Longrightarrow> length (pmem (vmem \<sigma>)) = n \<Longrightarrow> step_effect E i \<sigma> = Some e \<Longrightarrow>
      \<not> is_flow e \<and> (\<exists>l' t'. run_steps (lane_step h) xs (l, t) = Some (l', t') \<and> simulates ?M (next_state e \<sigma>) l' t')"
    using impl unfolding implements_def by blast
  have start: "written i = Some v \<and> v \<notin> set (instruction_read_registers i)" if "v \<in> set (starting ivs k)" for v
    using fit that by (simp add: item_fits_def list_all_iff)
  have "\<not> is_flow e \<and> (\<exists>l' t'. run_steps (lane_step h) xs (l, t) = Some (l', t') \<and>
      simulates (placement_into ivs A (Suc k)) (next_state e \<sigma>) l' t')"
    if sim: "simulates (placement_into ivs A k) \<sigma> l t" and pm: "length (pmem (vmem \<sigma>)) = n"
      and e: "step_effect E i \<sigma> = Some e" for \<sigma> l t e
  proof -
    let ?\<sigma> = "settle ?M l \<sigma>"
    have same: "vregs ?\<sigma> v = vregs \<sigma> v" if "v \<notin> set (starting ivs k)" for v
    proof (cases "?M v")
      case (Some r)
      then have "placement_into ivs A k v = Some r"
        using that by (auto simp: placement_at_def placement_into_def map_of_restrict covers_starting split: if_splits)
      then show ?thesis using simulatesD(2) [OF sim] Some by (simp add: settle_def)
    qed (simp add: settle_def)
    have parts: "vpreds ?\<sigma> = vpreds \<sigma>" "vlane ?\<sigma> = vlane \<sigma>" "vmem ?\<sigma> = vmem \<sigma>" by (simp_all add: settle_def)
    have "agree (set (instruction_read_registers i)) ?\<sigma> \<sigma>" using same start parts by (auto simp: agree_def)
    then have e': "step_effect E i ?\<sigma> = Some e" using step_effect_cong e by metis
    obtain l' t' where r: "\<not> is_flow e" "run_steps (lane_step h) xs (l, t) = Some (l', t')" "simulates ?M (next_state e ?\<sigma>) l' t'"
      using run [OF settle_simulates [OF sim] _ e'] pm parts by auto
    have "placement_into ivs A (Suc k) \<subseteq>\<^sub>m ?M"
      using live_into_Suc by (auto simp: placement_into_def placement_at_def map_le_def map_of_restrict split: if_splits)
    then have "simulates (placement_into ivs A (Suc k)) (next_state e ?\<sigma>) l' t'" by (rule simulates_less [OF r(3)])
    then have "simulates (placement_into ivs A (Suc k)) (next_state e \<sigma>) l' t'"
      using same written_effect [OF e] start parts by (intro next_settled [of _ ?\<sigma> \<sigma>]) blast+
    then show ?thesis using r by blast
  qed
  then show ?thesis unfolding carries_def using xs by blast
qed

subsection \<open>The whole program\<close>

definition mapped :: "live_interval dict \<Rightarrow> int dict \<Rightarrow> bool" where
  "mapped ivs A \<longleftrightarrow> (\<forall>v. map_of ivs v \<noteq> None \<longrightarrow> map_of A v \<noteq> None) \<and> (\<forall>k. apart_placement (placement_at ivs A k))"

lemma item_looks:
  assumes "item_fits ivs P k (Inst i)" "mapped ivs A" "v \<in> set (looked_up i)"
  shows "covers ivs k v \<and> map_of A v \<noteq> None"
  using assms by (auto simp: item_fits_def mapped_def list_all_iff covers_def split: option.splits)

lemma item_mapping:
  assumes ok: "lowering_ok env E n P" "it \<in> set P" and fit: "item_fits ivs P k it" and M: "mapped ivs A"
    and low: "lower_item env (k, it) s = Inr s'" and A: "ra_mapping (ls_regs s) = A"
  shows "ra_mapping (ls_regs s') = A"
proof (cases it)
  case (Inst i)
  have plan: "map_of (item_guards (le_plan env)) k = None" using ok(1) by (simp add: lowering_ok_def)
  have inst: "lower_instruction env k i (resets s) = Inr ((), s')"
    using low ok(1) Inst by (auto simp: lower_item_def lowering_ok_def resets_def)
  consider "opcode_base (inst_opcode i) = ''ret''" | "opcode_base (inst_opcode i) = ''bra''"
    | "opcode_base (inst_opcode i) \<notin> {''bra'', ''ret''}" by blast
  then show ?thesis
  proof cases
    case 1
    then show ?thesis using inst A
      by (auto simp: lower_instruction_def Let_def emit_plain [OF plan] resets_def reset_temps_def)
  next
    case 2
    then have "lower_bra env k i (resets s) = Inr ((), s')" using inst by (simp add: lower_instruction_def Let_def)
    then show ?thesis using lower_bra_code [OF _ plan] A by (fastforce simp: resets_def reset_temps_def)
  next
    case 3
    have looks: "covers ivs k v \<and> map_of A v \<noteq> None" if "v \<in> set (looked_up i)" for v
      using item_looks [OF _ M that, of P k] fit Inst by simp
    have apart: "apart_placement (placement_at ivs A k)" using M by (simp add: mapped_def)
    have "Inst i \<in> set P" "lower_item env (k, Inst i) s = Inr s'" using ok(2) low Inst by simp_all
    from alloc_implements [OF ok(1) this 3 A looks apart] show ?thesis by blast
  qed
qed (use low A in \<open>auto simp: lower_item_def\<close>)

lemma prefix_mapping:
  assumes ok: "lowering_ok env E n (items p)" and fit: "intervals_fit ivs p" and M: "mapped ivs A"
  shows "items p = pre @ its @ post \<Longrightarrow> ra_mapping (ls_regs s) = A \<Longrightarrow>
    fold_r (lower_item env) (enumerate (length pre) its) s = Inr s' \<Longrightarrow> ra_mapping (ls_regs s') = A"
proof (induction its arbitrary: pre s)
  case (Cons it its)
  then obtain s1 where s1: "lower_item env (length pre, it) s = Inr s1"
    "fold_r (lower_item env) (enumerate (length (pre @ [it])) its) s1 = Inr s'" by auto
  have "ra_mapping (ls_regs s1) = A"
    using item_mapping [OF ok _ intervals_fitD [OF fit] M s1(1) Cons.prems(2)] Cons.prems(1) by auto
  then show ?case using Cons.IH [OF _ _ s1(2)] Cons.prems(1) by simp
qed simp

lemma into_Suc:
  assumes "starting ivs k = []"
  shows "simulates (placement_into ivs A k) \<le> simulates (placement_into ivs A (Suc k))"
proof -
  have "placement_into ivs A (Suc k) \<subseteq>\<^sub>m placement_into ivs A k"
    using live_into_Suc [of ivs k] covers_starting [of ivs k] assms
    by (auto simp: placement_into_def map_le_def map_of_restrict split: if_splits)
  then show ?thesis using simulates_less by (auto simp: le_fun_def)
qed

lemma alloc_relation:
  assumes ok: "lowering_ok env E n (items p)" and fit: "intervals_fit ivs p" and M: "mapped ivs A"
    and s0: "ra_mapping (ls_regs s0) = A"
  shows "code_relation env E n (items p) s0 sN (\<lambda>k. simulates (placement_into ivs A k))"
  unfolding code_relation_def
proof (intro conjI allI impI stands_simulates)
  fix pre lb its assume "items p = pre @ Label lb # its"
  from intervals_fitD [OF fit this] show "simulates (placement_into ivs A (length pre)) \<le> simulates (placement_into ivs A (Suc (length pre)))"
    by (intro into_Suc) (simp add: item_fits_def)
next
  fix pre i its assume at: "items p = pre @ Inst i # its" and bra: "opcode_base (inst_opcode i) = ''bra''"
  note here = intervals_fitD [OF fit at]
  have "written i = None" using bra by (auto simp: written_def ALU_OPCODES_def)
  then have "starting ivs (length pre) = []"
    using here by (cases "starting ivs (length pre)") (auto simp: item_fits_def)
  then show "simulates (placement_into ivs A (length pre)) \<le> simulates (placement_into ivs A (Suc (length pre)))"
    by (rule into_Suc)
  fix lb pre' its' assume lb: "operands i = [lb]" and at': "items p = pre' @ Label lb # its'"
  have mem: "(length pre', Label lb) \<in> set (enumerate 0 (items p))" by (simp add: at' enumerate_append_eq)
  have "live_into ivs (length pre) v" if "live_into ivs (length pre') v" for v
    using here mem bra lb live_into_mem [OF that] that by (fastforce simp: item_fits_def list_all_iff)
  then have "placement_into ivs A (length pre') \<subseteq>\<^sub>m placement_into ivs A (length pre)"
    by (auto simp: placement_into_def map_le_def map_of_restrict split: if_splits)
  then show "simulates (placement_into ivs A (length pre)) \<le> simulates (placement_into ivs A (length pre'))"
    using simulates_less by (auto simp: le_fun_def)
next
  fix pre i its s s'
  assume at: "items p = pre @ Inst i # its" and base: "opcode_base (inst_opcode i) \<notin> {''bra'', ''ret''}"
    and pre: "fold_r (lower_item env) (enumerate 0 pre) s0 = Inr s"
    and low: "lower_item env (length pre, Inst i) s = Inr s'"
  note here = intervals_fitD [OF fit at]
  have A: "ra_mapping (ls_regs s) = A" using prefix_mapping [OF ok fit M, of "[]" pre "Inst i # its" s0 s] at s0 pre by simp
  have "apart_placement (placement_at ivs A (length pre))" using M by (simp add: mapped_def)
  from alloc_implements [OF ok _ low base A item_looks [OF here M] this] at
  have "implements (env_host E) (placement_at ivs A (length pre)) E (\<lambda>\<sigma>. length (pmem (vmem \<sigma>)) = n) i s s'" by auto
  then show "carries (env_host E) (simulates (placement_into ivs A (length pre)))
      (simulates (placement_into ivs A (Suc (length pre)))) E (\<lambda>\<sigma>. length (pmem (vmem \<sigma>)) = n) i s s'"
    by (rule alloc_carries [OF _ here])
qed

lemma alloc_simulated:
  assumes "lowerable_program prof n p" "prof \<in> {C1_DEFAULT, TRACK_B_V1}" "intervals_fit ivs p" "mapped ivs A"
  shows "simulated prof A E n p"
  unfolding simulated_def
proof (intro allI impI)
  fix env sN
  assume env: "new_lower_env p prof = Inr env" "env_params E = le_offsets env"
  have ok: "lowering_ok env E n (items p)" using lowerable_ok [OF assms(1) env(1) assms(2) env(2)] .
  have rel: "code_relation env E n (items p) (new_lower_state A) sN (\<lambda>k. simulates (placement_into ivs A k))"
    by (rule alloc_relation [OF ok assms(3,4)]) (simp add: new_lower_state_def new_allocator_def)
  have "simulates (placement_into ivs A 0) (thread_start (new_lane b t bd gd ws) s) (new_lane b t bd gd ws) u"
    if "lane_ok (new_lane b t bd gd ws)" "same_world s u" for b t bd gd ws s u
  proof (rule simulates_less [OF new_lane_simulates [OF _ that] placement_into_at])
    show "apart_placement (placement_at ivs A 0)" using assms(4) by (simp add: mapped_def)
  qed
  then show "lowering_ok env E n (items p) \<and> (\<exists>R. code_relation env E n (items p) (new_lower_state A) sN R \<and>
      (\<forall>b t bd gd ws s u. lane_ok (new_lane b t bd gd ws) \<longrightarrow> same_world s u \<longrightarrow>
         R 0 (thread_start (new_lane b t bd gd ws) s) (new_lane b t bd gd ws) u))"
    using ok rel by blast
qed

end
