(* ===== verification/Alloc_Correct.thy ===== *)
theory Alloc_Correct
  imports Lower_Alloc Compiler
begin

text \<open>
  The register allocation pass and the lowering together: the mapping of the linear scan keeps apart
  the names that are live at the same position, which is what the lowering needs of it.
\<close>

subsection \<open>The mapping of the scan\<close>

lemma scan_places:
  assumes "length (merged_ranges facts lr) \<le> 119" "map_of (merged_ranges facts lr) v = Some (a, b)"
  shows "\<exists>r. map_of (gpr_scan facts lr) v = Some r \<and> regs_at (gpr_scan facts lr) v = block_regs r (vreg_width v) \<and>
    block_regs r (vreg_width v) \<subseteq> {1..239}"
proof -
  have "placed (gpr_scan facts lr) v"
    using scan_sound [OF assms(1) map_of_SomeD [OF assms(2)] map_of_SomeD [OF assms(2)]] by simp
  then show ?thesis by (auto simp: placed_def regs_at_def)
qed

lemma own_registers: "r \<in> block_regs r (vreg_width v)" "starts_with v ''%rd'' \<Longrightarrow> r + 1 \<in> block_regs r (vreg_width v)"
  by (auto simp: block_regs_def vreg_width_def is_pair_vreg_def)

lemma scan_mapped:
  assumes n: "length (merged_ranges facts lr) \<le> 119"
  shows "mapped (merged_ranges facts lr) (gpr_scan facts lr)"
  unfolding mapped_def
proof (intro conjI allI impI)
  fix v assume "map_of (merged_ranges facts lr) v \<noteq> None"
  then show "map_of (gpr_scan facts lr) v \<noteq> None" using scan_places [OF n] by fastforce
next
  fix k
  let ?ivs = "merged_ranges facts lr" and ?A = "gpr_scan facts lr"
  let ?M = "placement_at ?ivs ?A k"
  have at: "\<exists>a b. map_of ?ivs v = Some (a, b) \<and> a \<le> int k \<and> int k \<le> b" "map_of ?A v = Some r"
    "regs_at ?A v = block_regs r (vreg_width v)" "block_regs r (vreg_width v) \<subseteq> {1..239}"
    if "?M v = Some r" for v r
  proof -
    show 1: "map_of ?A v = Some r" using that by (auto simp: placement_at_def map_of_restrict split: if_splits)
    have "covers ?ivs k v" using that by (auto simp: placement_at_def map_of_restrict split: if_splits)
    then show 2: "\<exists>a b. map_of ?ivs v = Some (a, b) \<and> a \<le> int k \<and> int k \<le> b"
      by (auto simp: covers_def split: option.splits)
    show "regs_at ?A v = block_regs r (vreg_width v)" "block_regs r (vreg_width v) \<subseteq> {1..239}"
      using 2 scan_places [OF n] 1 by fastforce+
  qed
  have disj: "block_regs r (vreg_width u) \<inter> block_regs q (vreg_width v) = {}"
    if M: "?M u = Some r" "?M v = Some q" "u \<noteq> v" for u v r q
  proof -
    obtain a b c d where "map_of ?ivs u = Some (a, b)" "map_of ?ivs v = Some (c, d)" "a \<le> d" "c \<le> b"
      using at(1) [OF M(1)] at(1) [OF M(2)] by fastforce
    then show ?thesis using scan_sound [OF n map_of_SomeD map_of_SomeD, of u a b v c d] M at(3) by fastforce
  qed
  show "apart_placement ?M"
    unfolding apart_placement_def
  proof (intro conjI allI impI)
    fix v r assume v: "?M v = Some r"
    show "1 \<le> r" "r \<le> 239" using at(4) [OF v] own_registers(1) [of r v] by auto
    assume rd: "starts_with v ''%rd''"
    show "r \<le> 238" using at(4) [OF v] own_registers(2) [OF rd, of r] by auto
    show "?M u \<noteq> Some (r + 1)" for u
    proof
      assume u: "?M u = Some (r + 1)"
      then have "u \<noteq> v" using v by auto
      then show False using disj [OF u v] own_registers(1) [of "r + 1" u] own_registers(2) [OF rd, of r] by blast
    qed
  next
    fix u v r assume "?M u = Some r" "?M v = Some r"
    then show "u = v" using disj [of u r v r] own_registers(1) [of r] by blast
  qed
qed

subsection \<open>The pass\<close>

lemma register_mapping_update:
  "register_mapping_of (m\<lparr>metadata := AList.update ''predicate_mapping'' x
     (AList.update ''register_mapping'' (mapping_detail d) (metadata m))\<rparr>) = d"
  by (induction d) (auto simp: register_mapping_of_def mapping_detail_def update_conv')

lemma no_ranges: "gpr_ranges facts = [] \<Longrightarrow> gpr_scan facts lr = []"
  by (cases lr) (simp_all add: gpr_scan_def merged_ranges_def extend_to_loop_def initial_scan_def)

text \<open>What the pass leaves for the lowering: the program as it was, and the mapping of the scan.\<close>

lemma ra_run_scans:
  assumes "ra_run m am = Inr (m', am', res)" "get_liveness m am = Inr (facts, am1)" "loop_range_of m am1 = Inr (lr, am2)"
    and "register_mapping_of m = []"
  shows "mod_program m' = mod_program m \<and> register_mapping_of m' = gpr_scan facts lr"
  using assms register_mapping_update no_ranges by (auto simp: ra_run_def Let_def split: if_splits)

lemma ra_run_total:
  assumes "get_liveness m am = Inr (facts, am1)" "loop_range_of m am1 = Inr (lr, am2)"
  shows "\<exists>m' am' res. ra_run m am = Inr (m', am', res)"
  using assms by (cases "gpr_ranges facts = []") (simp_all add: ra_run_def Let_def)

text \<open>The intervals the pass works with.\<close>

definition allocation_fits :: "LivenessFacts \<Rightarrow> live_interval option \<Rightarrow> PTXProgram \<Rightarrow> bool" where
  "allocation_fits facts lr p \<longleftrightarrow>
     length (merged_ranges facts lr) \<le> 119 \<and> intervals_fit (merged_ranges facts lr) p"

lemma allocated_simulated:
  assumes "ra_run m am = Inr (m', am', res)" "get_liveness m am = Inr (facts, am1)" "loop_range_of m am1 = Inr (lr, am2)"
    and "register_mapping_of m = []" "allocation_fits facts lr (mod_program m)"
    and "prof \<in> {C1_DEFAULT, TRACK_B_V1}" "lowerable_program prof n (mod_program m)"
  shows "simulated prof (register_mapping_of m') E n (mod_program m')"
proof -
  note ra = ra_run_scans [OF assms(1-4)]
  have "mapped (merged_ranges facts lr) (gpr_scan facts lr)" "intervals_fit (merged_ranges facts lr) (mod_program m)"
    using scan_mapped assms(5) by (simp_all add: allocation_fits_def)
  then show ?thesis using ra alloc_simulated [OF assms(7,6)] by simp
qed

lemma allocated_grid:
  assumes "ra_run m am = Inr (m', am', res)" "get_liveness m am = Inr (facts, am1)" "loop_range_of m am1 = Inr (lr, am2)"
    and "register_mapping_of m = []" "allocation_fits facts lr (mod_program m)"
    and "lower_program (mod_program m') prof (register_mapping_of m') = Inr lp"
    and "prof \<in> {C1_DEFAULT, TRACK_B_V1}" "lowerable_program prof (length (pmem s)) (mod_program m)"
    and "dim_ok bd" "dim_ok gd" "single_lanes bd ws"
    and "ptx_grid \<lparr>env_host = h, env_params = parameter_offsets lp\<rparr> (mod_program m) n bd gd ws s = Some s'"
  shows "\<exists>N. \<forall>k \<ge> N. \<exists>t. sim_run \<lparr>host = h, instructions = lowered_instructions lp, cfg_block_dim = bd,
      cfg_grid_dim = gd, cfg_warp_size = ws, max_steps = int k\<rparr> s = Inr t \<and>
    gmem t = gmem s' \<and> pmem t = pmem s' \<and> accesses t = accesses s'"
proof (rule grid_lowered [OF assms(6) allocated_simulated [OF assms(1-5,7,8)] assms(9-11)])
  show "ptx_grid \<lparr>env_host = h, env_params = parameter_offsets lp\<rparr> (mod_program m') n bd gd ws s = Some s'"
    using assms(12) ra_run_scans [OF assms(1-4)] by simp
qed

text \<open>
  C4. The lowering is correct with the registers of the allocation pass, where names that are not live
  together share registers: for lowerable kernels (as for level 0), warps of one lane, no mapping from
  an earlier pass, and live intervals that fit, that is at most 119 of them, each starting with a
  definition and holding the uses. Then a kernel that ends in the reference semantics ends with the same
  memory and the same accesses on the simulator, given enough steps.
\<close>

theorem allocated_lowering_correct:
  assumes "ra_run m am = Inr (m', am', res)" "get_liveness m am = Inr (facts, am1)" "loop_range_of m am1 = Inr (lr, am2)"
    and "register_mapping_of m = []" "allocation_fits facts lr (mod_program m)"
    and "lower_program (mod_program m') prof (register_mapping_of m') = Inr lp"
    and "prof \<in> {C1_DEFAULT, TRACK_B_V1}" "lowerable_program prof (length (pmem s)) (mod_program m)"
    and "dim_ok bd" "dim_ok gd" "single_lanes bd ws"
    and "ptx_grid \<lparr>env_host = h, env_params = parameter_offsets lp\<rparr> (mod_program m) n bd gd ws s = Some s'"
  shows "\<exists>N. \<forall>k \<ge> N. \<exists>t. sim_run \<lparr>host = h, instructions = lowered_instructions lp, cfg_block_dim = bd,
      cfg_grid_dim = gd, cfg_warp_size = ws, max_steps = int k\<rparr> s = Inr t \<and>
    gmem t = gmem s' \<and> pmem t = pmem s' \<and> accesses t = accesses s'"
  using assms by (rule allocated_grid)

text \<open>The loop again: the third value is kept in a register that was half of an address.\<close>

definition loop_module :: ir_module where
  "loop_module = module_from_program [] loop_ptx"

definition loop_facts :: LivenessFacts where
  "loop_facts = analyze_liveness loop_ptx"

lemma loop_liveness:
  "case get_liveness loop_module build_default_analysis_manager of Inl _ \<Rightarrow> False
   | Inr (facts, am1) \<Rightarrow> facts = loop_facts \<and>
      (case loop_range_of loop_module am1 of Inl _ \<Rightarrow> False | Inr (lr, _) \<Rightarrow> lr = Some (3, 5))"
  by code_simp

lemma loop_fits: "allocation_fits loop_facts (Some (3, 5)) loop_ptx"
  by code_simp

lemma loop_allocated:
  "case ra_run loop_module build_default_analysis_manager of Inl _ \<Rightarrow> False
   | Inr (m, _, _) \<Rightarrow> mod_program m = loop_ptx \<and> register_mapping_of m =
       [(''%r1'', 1), (''%r2'', 2), (''%rd1'', 4), (''%rd2'', 6), (''%rd3'', 8), (''%r3'', 7)] \<and>
      (case lower_program (mod_program m) TRACK_B_V1 (register_mapping_of m) of Inl _ \<Rightarrow> False
       | Inr lp \<Rightarrow> parameter_offsets lp = [(''A'', 0)])"
  by code_simp

theorem allocated_lowering_correct_witness:
  "\<exists>m' am' res lp N. ra_run loop_module build_default_analysis_manager = Inr (m', am', res) \<and>
     map_of (register_mapping_of m') ''%rd2'' = Some 6 \<and> map_of (register_mapping_of m') ''%r3'' = Some 7 \<and>
     lower_program (mod_program m') TRACK_B_V1 (register_mapping_of m') = Inr lp \<and>
     (\<forall>k \<ge> N. \<exists>t. sim_run \<lparr>host = demo_host, instructions = lowered_instructions lp, cfg_block_dim = (2, 1, 1),
        cfg_grid_dim = (1, 1, 1), cfg_warp_size = 1, max_steps = int k\<rparr> loop_start = Inr t \<and>
        gmem t = [6, 0, 0, 0, 7, 0, 0, 0])"
proof -
  obtain am1 where live: "get_liveness loop_module build_default_analysis_manager = Inr (loop_facts, am1)"
    "case loop_range_of loop_module am1 of Inl _ \<Rightarrow> False | Inr (lr, _) \<Rightarrow> lr = Some (3, 5)"
    using loop_liveness by (cases "get_liveness loop_module build_default_analysis_manager") auto
  obtain am2 where range: "loop_range_of loop_module am1 = Inr (Some (3, 5), am2)"
    using live(2) by (cases "loop_range_of loop_module am1") auto
  obtain m' am' res lp where ra: "ra_run loop_module build_default_analysis_manager = Inr (m', am', res)"
    "register_mapping_of m' = [(''%r1'', 1), (''%r2'', 2), (''%rd1'', 4), (''%rd2'', 6), (''%rd3'', 8), (''%r3'', 7)]"
    "lower_program (mod_program m') TRACK_B_V1 (register_mapping_of m') = Inr lp" "parameter_offsets lp = [(''A'', 0)]"
    using loop_allocated by (auto split: sum.splits prod.splits)
  have m: "mod_program loop_module = loop_ptx" "register_mapping_of loop_module = []"
    by (simp_all add: loop_module_def module_from_program_def register_mapping_of_def)
  obtain s' where s': "ptx_grid \<lparr>env_host = demo_host, env_params = parameter_offsets lp\<rparr> loop_ptx 40 (2, 1, 1) (1, 1, 1) 1
      loop_start = Some s'" "gmem s' = [6, 0, 0, 0, 7, 0, 0, 0]"
    using loop_runs ra(4) by auto
  have "\<exists>N. \<forall>k \<ge> N. \<exists>t. sim_run \<lparr>host = demo_host, instructions = lowered_instructions lp, cfg_block_dim = (2, 1, 1),
        cfg_grid_dim = (1, 1, 1), cfg_warp_size = 1, max_steps = int k\<rparr> loop_start = Inr t \<and>
      gmem t = gmem s' \<and> pmem t = pmem s' \<and> accesses t = accesses s'"
    by (rule allocated_lowering_correct [OF ra(1) live(1) range m(2) _ ra(3)])
      (use loop_fits loop_lowerable s'(1) in \<open>simp_all add: m single_lanes_def loop_start_def new_sim_state_def\<close>)
  then show ?thesis using ra s'(2) by fastforce
qed

subsection \<open>A value carried to the next round\<close>

text \<open>
  A value that one round of a loop leaves for the next, where its use stands before its definition.
  The range of a register with one definition starts there, so that its use is not in it.
\<close>

definition carried_ptx :: PTXProgram where
  "carried_ptx = demo_ptx\<lparr>items :=
     [plain_inst ''ld.param.u64'' [''%rd1'', ''[A]''],
      plain_inst ''mov.u32'' [''%r1'', ''0''],
      Label ''LOOP'',
      plain_inst ''setp.gt.u32'' [''%p1'', ''%r1'', ''0''],
      guarded_inst ''%p1'' ''st.global.u32'' [''[%rd1]'', ''%r2''],
      plain_inst ''mov.u32'' [''%r2'', ''5''],
      plain_inst ''add.u32'' [''%r3'', ''%r1'', ''1''],
      plain_inst ''mov.u32'' [''%r1'', ''%r3''],
      plain_inst ''setp.lt.u32'' [''%p2'', ''%r1'', ''2''],
      guarded_inst ''%p2'' ''bra'' [''LOOP''],
      plain_inst ''ret'' []]\<rparr>"

definition carried_module :: ir_module where
  "carried_module = module_from_program [] carried_ptx"

definition carried_facts :: LivenessFacts where
  "carried_facts = analyze_liveness carried_ptx"

lemma carried_liveness:
  "case get_liveness carried_module build_default_analysis_manager of Inl _ \<Rightarrow> False
   | Inr (facts, am1) \<Rightarrow> facts = carried_facts \<and>
      (case loop_range_of carried_module am1 of Inl _ \<Rightarrow> False | Inr (lr, _) \<Rightarrow> lr = Some (3, 9))"
  by code_simp

lemma carried_allocated:
  "map_of (merged_ranges carried_facts (Some (3, 9))) ''%r2'' = Some (5, 5) \<and>
   gpr_scan carried_facts (Some (3, 9)) = [(''%rd1'', 2), (''%r1'', 1), (''%r2'', 4), (''%r3'', 4)]"
  by code_simp

definition final_memory :: "PTXProgram \<Rightarrow> int dict \<Rightarrow> byte list option" where
  "final_memory p mapping = (case lower_program p TRACK_B_V1 mapping of Inl _ \<Rightarrow> None
     | Inr lp \<Rightarrow> (case sim_run \<lparr>host = demo_host, instructions = lowered_instructions lp, cfg_block_dim = (1, 1, 1),
         cfg_grid_dim = (1, 1, 1), cfg_warp_size = 1, max_steps = 100\<rparr> loop_start of
         Inl _ \<Rightarrow> None | Inr s \<Rightarrow> Some (gmem s)))"

lemma carried_lost:
  "final_memory carried_ptx [(''%rd1'', 2), (''%r1'', 1), (''%r2'', 4), (''%r3'', 4)] = Some [1, 0, 0, 0, 0, 0, 0, 0]"
  by code_simp

lemma carried_meaning:
  "map_option gmem (ptx_grid \<lparr>env_host = demo_host, env_params = [(''A'', 0)]\<rparr> carried_ptx 40 (1, 1, 1) (1, 1, 1) 1 loop_start) =
     Some [5, 0, 0, 0, 0, 0, 0, 0]"
  by code_simp

text \<open>
  The allocation pass loses a value that is carried around a loop. A register
  that is read above its definition, under a guard in all rounds but the first, gets a range that
  ends where it starts, although the comment of the pass promises that no register is shared across
  rounds; another value of the loop takes the register, and the kernel stores 1 instead of 5.
\<close>

theorem carried_value_lost:
  "\<exists>m' am' res. ra_run carried_module build_default_analysis_manager = Inr (m', am', res) \<and> mod_program m' = carried_ptx \<and>
     map_of (register_mapping_of m') ''%r2'' = map_of (register_mapping_of m') ''%r3'' \<and>
     map_option gmem (ptx_grid \<lparr>env_host = demo_host, env_params = [(''A'', 0)]\<rparr> carried_ptx 40 (1, 1, 1) (1, 1, 1) 1
       loop_start) = Some [5, 0, 0, 0, 0, 0, 0, 0] \<and>
     final_memory carried_ptx (register_mapping_of m') = Some [1, 0, 0, 0, 0, 0, 0, 0]"
proof -
  obtain am1 where live: "get_liveness carried_module build_default_analysis_manager = Inr (carried_facts, am1)"
    "case loop_range_of carried_module am1 of Inl _ \<Rightarrow> False | Inr (lr, _) \<Rightarrow> lr = Some (3, 9)"
    using carried_liveness by (cases "get_liveness carried_module build_default_analysis_manager") auto
  obtain am2 where range: "loop_range_of carried_module am1 = Inr (Some (3, 9), am2)"
    using live(2) by (cases "loop_range_of carried_module am1") auto
  have m: "mod_program carried_module = carried_ptx" "register_mapping_of carried_module = []"
    by (simp_all add: carried_module_def module_from_program_def register_mapping_of_def)
  obtain m' am' res where ra: "ra_run carried_module build_default_analysis_manager = Inr (m', am', res)"
    using ra_run_total [OF live(1) range] by blast
  show ?thesis
    using ra ra_run_scans [OF ra live(1) range m(2)] m(1) carried_allocated carried_meaning carried_lost by auto
qed
end
