(* ===== verification/Backend_Correct.thy ===== *)
theory Backend_Correct
  imports Alloc_Correct Compiler_Correct Sched_Prog
begin

text \<open>
  The back end of level 2: the allocation of registers, the lowering with them, the scheduling of the
  lowered code and the binary. What the program means that the optimizing passes made is what the
  simulator makes of the bytes.
\<close>

subsection \<open>The mapping\<close>

abbreviation scanned :: "scan_state \<Rightarrow> string set" where
  "scanned s \<equiv> fst ` set (sc_mapping s)"

lemma assign_pair_keys: "scanned (assign_pair v lu r s) = insert v (scanned s)"
  by (simp add: assign_pair_def dom_update)

lemma pair_fallback_keys: "scanned (pair_fallback v lu s) \<subseteq> insert v (scanned s)"
  by (simp add: pair_fallback_def Let_def assign_pair_keys subset_insertI)

lemma allocate_pair_keys: "scanned (allocate_pair v lu s) \<subseteq> insert v (scanned s)"
proof -
  obtain a free' where f: "take_pair (sc_free s) = (a, free')" by (cases "take_pair (sc_free s)")
  show ?thesis
    using pair_fallback_keys [of v lu "s\<lparr>sc_free := free'\<rparr>"]
    by (cases a) (auto simp: allocate_pair_def f Let_def assign_pair_keys)
qed

lemma allocate_single_keys: "scanned (allocate_single v lu s) \<subseteq> insert v (scanned s)"
  by (simp add: allocate_single_def dom_update subset_insertI)

lemma scan_step_keys: "scanned (scan_step e s) \<subseteq> insert (fst e) (scanned s)"
proof -
  obtain v fd lu where e: "e = (v, fd, lu)" by (cases e)
  have "scanned (expire fd s) = scanned s" by (simp add: expire_def)
  then show ?thesis
    using allocate_pair_keys [of v lu "expire fd s"] allocate_single_keys [of v lu "expire fd s"]
    by (simp add: scan_step_def Let_def e)
qed

lemma scan_keys: "fst ` set (sc_mapping (fold scan_step es s)) \<subseteq> fst ` set es \<union> fst ` set (sc_mapping s)"
proof (induction es arbitrary: s)
  case (Cons e es)
  show ?case using Cons [of "scan_step e s"] scan_step_keys [of e s] by auto
qed simp

lemma gpr_scan_file:
  assumes "length (merged_ranges facts lr) \<le> 119" "map_of (gpr_scan facts lr) v = Some r"
  shows "1 \<le> r \<and> r \<le> 239"
proof -
  have "v \<in> fst ` set (gpr_scan facts lr)" using map_of_SomeD [OF assms(2)] by (metis fst_conv image_eqI)
  then have "v \<in> fst ` set (merged_ranges facts lr)"
    using scan_keys [of "sort_key (fst \<circ> snd) (merged_ranges facts lr)" initial_scan]
    by (auto simp: gpr_scan_def initial_scan_def)
  then obtain i where "map_of (merged_ranges facts lr) v = Some i" by (metis map_of_eq_None_iff not_Some_eq)
  then show ?thesis using scan_places [OF assms(1)] own_registers(1) [of r v] assms(2) by (cases i) fastforce
qed

subsection \<open>The passes\<close>

lemma uniformity_unchanged:
  "record_uniformity m am = Inr (m', am', r) \<Longrightarrow> mod_program m' = mod_program m \<and>
     register_mapping_of m' = register_mapping_of m"
  by (auto simp: record_uniformity_def record_metadata_def register_mapping_of_def update_conv')

text \<open>The last three passes of level 2.\<close>

definition O2_tail :: "compiler_pass list" where
  "O2_tail = [ra_pass, materialize_cfg_pass, record_uniformity_pass]"

lemma O2_split: "O2_passes h = take 22 (O2_passes h) @ O2_tail"
  by (simp add: O2_passes_def O2_tail_def)

lemma tail_allocates:
  assumes "fold_r run_pass O2_tail (m, am, recs) = Inr (m2, am2, recs2)"
  shows "\<exists>m' am' r. ra_run m am = Inr (m', am', r) \<and> mod_program m2 = mod_program m' \<and>
    register_mapping_of m2 = register_mapping_of m'"
proof -
  obtain m1 am1 r1 m3 am3 r3 am1' am3' r4 am4 where r: "ra_run m am = Inr (m1, am1, r1)"
    "materialize_cfg m1 am1' = Inr (m3, am3, r3)" "record_uniformity m3 am3' = Inr (m2, am4, r4)"
    using assms by (auto simp: O2_tail_def run_pass_def ra_pass_def materialize_cfg_pass_def record_uniformity_pass_def Let_def)
  show ?thesis using r(1) materialize_unchanged [OF r(2)] uniformity_unchanged [OF r(3)]
    by (auto simp: register_mapping_of_def)
qed

text \<open>What level 2 lowers and schedules.\<close>

lemma compile_level_2:
  assumes "compile_ptx h text prof ''2'' = Inr lp" "parse_ptx text = Inr q"
    and "pm_run \<lparr>pm_name = nm, pm_passes = take 22 (O2_passes h)\<rparr> (module_from_program text q)
      build_default_analysis_manager = Inr (m, am, recs)"
  shows "\<exists>m' am' r low. ra_run m am = Inr (m', am', r) \<and>
    lower_program (mod_program m') prof (register_mapping_of m') = Inr low \<and> schedule_lowered low = Inr lp"
proof -
  obtain m2 am2 recs2 where
    run: "pm_run \<lparr>pm_name = ''O2-conservative-scalar'', pm_passes = O2_passes h\<rparr> (module_from_program text q)
        build_default_analysis_manager = Inr (m2, am2, recs2)"
    and low: "lower_and_schedule ''2'' prof m2 = Inr lp"
    using assms(1,2) by (auto simp: compile_ptx_def compile_ptx_detailed_def build_pipeline_def split: if_splits)
  have "fold_r run_pass (take 22 (O2_passes h) @ O2_tail) (module_from_program text q, build_default_analysis_manager, []) =
      Inr (m2, am2, recs2)"
    using run O2_split [of h] by (simp add: pm_run_def)
  then have "fold_r run_pass O2_tail (m, am, recs) = Inr (m2, am2, recs2)"
    using assms(3) by (simp add: fold_r_append pm_run_def)
  then obtain m' am' r where "ra_run m am = Inr (m', am', r)" "mod_program m2 = mod_program m'"
    "register_mapping_of m2 = register_mapping_of m'"
    using tail_allocates by blast
  then show ?thesis using low by (auto simp: lower_and_schedule_def)
qed

subsection \<open>The binary of a scheduled program\<close>

lemma scheduled_mset:
  assumes "schedule_lowered low = Inr lp"
  shows "mset (lowered_instructions lp) = mset (lowered_instructions low) \<and> parameter_offsets lp = parameter_offsets low"
proof (cases rule: schedule_lowered_cases [of low])
  case (2 bs')
  then show ?thesis using blocks_mset [OF 2(3)] assms by auto
qed (use assms in simp)

lemma schedule_exists: "\<exists>lp. schedule_lowered low = Inr lp"
  by (cases rule: schedule_lowered_cases [of low]) blast+

lemma bytes_encode: "(\<exists>bs. instructions_to_bytes prof is = Inr bs) \<longleftrightarrow> (\<forall>i \<in> set is. \<exists>w. encode_instruction prof i = Inr w)"
  by (induction "is") (auto simp: bind_r_def split: sum.splits)

text \<open>A scheduled program can be stored when the lowered one can, in as many bytes.\<close>

lemma scheduled_bytes:
  assumes "write_binary low prof = Inr bs" "schedule_lowered low = Inr lp"
  shows "\<exists>bs'. write_binary lp prof = Inr bs' \<and> length bs' = length bs"
proof -
  have same: "mset (lowered_instructions lp) = mset (lowered_instructions low)" using scheduled_mset [OF assms(2)] by blast
  have low: "instructions_to_bytes prof (lowered_instructions low) = Inr bs" using assms(1) by (simp add: write_binary_def)
  then obtain bs' where lp: "instructions_to_bytes prof (lowered_instructions lp) = Inr bs'"
    using bytes_encode [of prof] mset_eq_setD [OF same] by metis
  then show ?thesis
    using instructions_to_bytes_words(1) [OF low] instructions_to_bytes_words(1) [OF lp] mset_eq_length [OF same]
    by (simp add: write_binary_def)
qed

lemma mset_list_all: "mset xs = mset ys \<Longrightarrow> list_all P xs = list_all P ys"
  by (metis list_all_iff set_mset_mset)

text \<open>
  C3. The back end of level 2 is correct under the checks the passes need. Let \<open>m\<close> be what the passes of
  level 2 before register allocation make of the kernel, and let it be lowerable (as for level 0) with
  each \<^verbatim>\<open>setp\<close> naming its comparison; let its at most 119 live intervals start with a definition and
  hold the uses (\<open>allocation_fits\<close>); and let the lowered code be safe to schedule: no \<^verbatim>\<open>LOADI64\<close>, call,
  return or 64-bit type, and no basic block with both a comparison and an instruction, other than its
  last branch, guarded by the predicate it writes. On warps of one lane, when \<open>m\<close> ends in the reference
  semantics, the binary below \<open>2^36\<close> bytes that the compiler writes after allocation, lowering and
  scheduling ends, decoded and simulated with enough steps, with the same memory, and makes the same
  accesses up to their order.
\<close>

theorem o2_backend_correct:
  assumes "compile_ptx h text prof ''2'' = Inr lp" "write_binary lp prof = Inr bs" "length bs < 2 ^ 36"
    and "prof \<in> {C1_DEFAULT, TRACK_B_V1}" "parse_ptx text = Inr q"
    and "pm_run \<lparr>pm_name = nm, pm_passes = take 22 (O2_passes h)\<rparr> (module_from_program text q)
      build_default_analysis_manager = Inr (m, am, recs)"
    and "get_liveness m am = Inr (facts, am1)" "loop_range_of m am1 = Inr (lr, am2)"
    and "register_mapping_of m = []" "allocation_fits facts lr (mod_program m)"
    and "lowerable_program prof (length (pmem s)) (mod_program m)" "comparisons_named (mod_program m)"
    and "lower_program (mod_program m) prof (gpr_scan facts lr) = Inr low" "program_safe (lowered_instructions low)"
    and "dim_ok bd" "dim_ok gd" "single_lanes bd ws"
    and "ptx_grid \<lparr>env_host = h, env_params = parameter_offsets lp\<rparr> (mod_program m) n bd gd ws s = Some s'"
  shows "\<exists>words code N. bytes_to_words bs = Inr words \<and> map_r (decode_words_to_instruction prof) words = Inr code \<and>
    (\<forall>k \<ge> N. \<exists>t. sim_run \<lparr>host = h, instructions = code, cfg_block_dim = bd, cfg_grid_dim = gd,
        cfg_warp_size = ws, max_steps = int k\<rparr> s = Inr t \<and>
      gmem t = gmem s' \<and> pmem t = pmem s' \<and> mset (accesses t) = mset (accesses s'))"
proof -
  obtain m' am' r where ra: "ra_run m am = Inr (m', am', r)"
    and low: "lower_program (mod_program m') prof (register_mapping_of m') = Inr low" "schedule_lowered low = Inr lp"
    using compile_level_2 [OF assms(1,5,6)] ra_run_scans [OF _ assms(7-9)] assms(13) by fastforce
  note same = scheduled_mset [OF low(2)]
  have len: "length (lowered_instructions lp) = length (lowered_instructions low)"
    using same mset_eq_length by blast
  have bytes: "instructions_to_bytes prof (lowered_instructions lp) = Inr bs"
    using assms(2) by (simp add: write_binary_def)
  have "length (lowered_instructions low) < 2 ^ 32" using instructions_to_bytes_words(1) [OF bytes] assms(3) len by simp
  then have "list_all storable (lowered_instructions low)"
    using program_typed [OF assms(13,4,12)] gpr_scan_file assms(10)
    by (auto simp: list_all_iff well_typed_def allocation_fits_def)
  then have "list_all storable (lowered_instructions lp)" using mset_list_all same by blast
  then obtain words code where code: "bytes_to_words bs = Inr words" "map_r (decode_words_to_instruction prof) words = Inr code"
    "\<And>c s. sim_run (c\<lparr>instructions := code\<rparr>) s = sim_run (c\<lparr>instructions := lowered_instructions lp\<rparr>) s"
    using binary_code [OF assms(4) _ bytes] by metis
  have grid: "ptx_grid \<lparr>env_host = h, env_params = parameter_offsets low\<rparr> (mod_program m) n bd gd ws s = Some s'"
    using assms(18) same by simp
  let ?c = "\<lambda>code k. \<lparr>host = h, instructions = code, cfg_block_dim = bd, cfg_grid_dim = gd, cfg_warp_size = ws, max_steps = int k\<rparr>"
  from allocated_grid [OF ra assms(7-10) low(1) assms(4,11,15-17) grid]
  obtain N where N: "\<And>k. k \<ge> N \<Longrightarrow> \<exists>t. sim_run (?c (lowered_instructions low) k) s = Inr t \<and>
    gmem t = gmem s' \<and> pmem t = pmem s' \<and> accesses t = accesses s'" by blast
  have "\<exists>t. sim_run (?c code k) s = Inr t \<and> gmem t = gmem s' \<and> pmem t = pmem s' \<and>
      mset (accesses t) = mset (accesses s')" if k: "k \<ge> N" for k
  proof -
    obtain t where t: "sim_run (?c (lowered_instructions low) k) s = Inr t" "gmem t = gmem s'" "pmem t = pmem s'"
      "accesses t = accesses s'" using N [OF k] by blast
    obtain u where u: "sim_run (?c (lowered_instructions lp) k) s = Inr u" "log_eqv t u"
      using schedule_lowered_run [OF assms(14) low(2) _ t(1)] by auto
    have "sim_run (?c code k) s = Inr u" using code(3) [of "?c [] k" s] u(1) by simp
    moreover have "gmem u = gmem t" "pmem u = pmem t" "mset (accesses u) = mset (accesses t)"
      using u(2) log_eqv_mem [OF u(2)] by (simp_all add: log_eqv_def)
    ultimately show ?thesis using t by auto
  qed
  then show ?thesis using code(1,2) by blast
qed

text \<open>A kernel whose three values and its address share registers 1 to 3.\<close>

definition share_lines :: "string list" where
  "share_lines =
    [''.version 7.0'',
     ''.visible .entry share ('',
     ''  .param .u64 A'',
     '')'',
     ''{'',
     ''  mov.u32 %r1, %tid.x;'',
     ''  add.u32 %r2, %r1, 6;'',
     ''  mul.lo.u32 %r3, %r2, 3;'',
     ''  ld.param.u64 %rd1, [A];'',
     ''  st.global.u32 [%rd1], %r3;'',
     ''  ret;'',
     ''}'']"

definition share_text :: string where
  "share_text = concat (map (\<lambda>l. l @ [CHR 0x0A]) share_lines)"

definition line_inst :: "nat \<Rightarrow> string \<Rightarrow> string list \<Rightarrow> item" where
  "line_inst n op ops = Inst \<lparr>inst_opcode = op, operands = ops, guard = None, guard_negated = False, source_line = n\<rparr>"

definition share_ptx :: PTXProgram where
  "share_ptx = \<lparr>kernel_name = ''share'', parameters = [\<lparr>param_name = ''A'', param_dtype = ''u64''\<rparr>], reg_decls = [],
     items = [line_inst 6 ''mov.u32'' [''%r1'', ''%tid.x''], line_inst 7 ''add.u32'' [''%r2'', ''%r1'', ''6''],
       line_inst 8 ''mul.lo.u32'' [''%r3'', ''%r2'', ''3''], line_inst 9 ''ld.param.u64'' [''%rd1'', ''[A]''],
       line_inst 10 ''st.global.u32'' [''[%rd1]'', ''%r3''], line_inst 11 ''ret'' []]\<rparr>"

definition share_module :: ir_module where
  "share_module = module_from_program share_text share_ptx"

definition share_facts :: LivenessFacts where
  "share_facts = analyze_liveness share_ptx"

lemma share_parsed: "parse_ptx share_text = Inr share_ptx"
  by code_simp

lemma share_optimized:
  "case fold_r run_pass (take 22 (O2_passes demo_host)) (share_module, build_default_analysis_manager, []) of
     Inl _ \<Rightarrow> False
   | Inr (m, am, recs) \<Rightarrow> mod_program m = share_ptx \<and> register_mapping_of m = [] \<and>
      (case get_liveness m am of Inl _ \<Rightarrow> False
       | Inr (facts, am1) \<Rightarrow> facts = share_facts \<and>
          (case loop_range_of m am1 of Inl _ \<Rightarrow> False | Inr (lr, _) \<Rightarrow> lr = None)) \<and>
      (case fold_r run_pass O2_tail (m, am, recs) of Inl _ \<Rightarrow> False
       | Inr (_, _, recs') \<Rightarrow> \<not> isl (transforms_applied recs'))"
  by code_simp

lemma share_fits: "allocation_fits share_facts None share_ptx"
  by code_simp

lemma share_lowered:
  "gpr_scan share_facts None = [(''%r1'', 1), (''%r2'', 2), (''%r3'', 1), (''%rd1'', 2)] \<and>
   (case lower_program share_ptx TRACK_B_V1 (gpr_scan share_facts None) of Inl _ \<Rightarrow> False
    | Inr low \<Rightarrow> program_safe (lowered_instructions low) \<and> parameter_offsets low = [(''A'', 0)] \<and>
       (case write_binary low TRACK_B_V1 of Inl _ \<Rightarrow> False | Inr bs \<Rightarrow> length bs = 176))"
  by code_simp

lemma share_runs:
  "lowerable_program TRACK_B_V1 8 share_ptx \<and> comparisons_named share_ptx \<and>
   map_option gmem (ptx_grid \<lparr>env_host = demo_host, env_params = [(''A'', 0)]\<rparr> share_ptx 40 (2, 1, 1) (1, 1, 1) 1 loop_start) =
     Some [21, 0, 0, 0, 0, 0, 0, 0]"
  by code_simp

lemma metrics_total: "\<not> isl (transforms_applied recs) \<Longrightarrow> \<exists>metrics. build_metrics m lp recs = Inr metrics"
  by (cases "transforms_applied recs") (simp_all add: build_metrics_def Let_def)

lemma share_stages:
  obtains m am recs am1 am2 m2 am3 recs2 where
    "fold_r run_pass (take 22 (O2_passes demo_host)) (share_module, build_default_analysis_manager, []) = Inr (m, am, recs)"
    "mod_program m = share_ptx" "register_mapping_of m = []" "get_liveness m am = Inr (share_facts, am1)"
    "loop_range_of m am1 = Inr (None, am2)" "fold_r run_pass O2_tail (m, am, recs) = Inr (m2, am3, recs2)"
    "\<not> isl (transforms_applied recs2)"
proof -
  obtain m am recs where 1: "fold_r run_pass (take 22 (O2_passes demo_host)) (share_module, build_default_analysis_manager, []) =
      Inr (m, am, recs)"
    using share_optimized
    by (cases "fold_r run_pass (take 22 (O2_passes demo_host)) (share_module, build_default_analysis_manager, [])") auto
  note s = share_optimized [unfolded 1, simplified]
  obtain am1 where 2: "get_liveness m am = Inr (share_facts, am1)"
    "case loop_range_of m am1 of Inl _ \<Rightarrow> False | Inr (lr, _) \<Rightarrow> lr = None"
    using s by (cases "get_liveness m am") auto
  obtain am2 where 3: "loop_range_of m am1 = Inr (None, am2)" using 2(2) by (cases "loop_range_of m am1") auto
  obtain m2 am3 recs2 where "fold_r run_pass O2_tail (m, am, recs) = Inr (m2, am3, recs2)" "\<not> isl (transforms_applied recs2)"
    using s by (cases "fold_r run_pass O2_tail (m, am, recs)") auto
  then show ?thesis using that 1 2(1) 3 s by blast
qed

lemma share_binary:
  obtains low lp bs where "lower_program share_ptx TRACK_B_V1 (gpr_scan share_facts None) = Inr low"
    "program_safe (lowered_instructions low)" "schedule_lowered low = Inr lp" "parameter_offsets lp = [(''A'', 0)]"
    "write_binary lp TRACK_B_V1 = Inr bs" "length bs = 176"
proof -
  obtain low bs where low: "lower_program share_ptx TRACK_B_V1 (gpr_scan share_facts None) = Inr low"
    "program_safe (lowered_instructions low)" "parameter_offsets low = [(''A'', 0)]"
    "write_binary low TRACK_B_V1 = Inr bs" "length bs = 176"
    using share_lowered by (auto split: sum.splits)
  obtain lp where "schedule_lowered low = Inr lp" using schedule_exists by blast
  then show ?thesis using that low scheduled_bytes [OF low(4)] scheduled_mset by metis
qed

theorem o2_backend_correct_witness:
  "\<exists>lp bs words code N. compile_ptx demo_host share_text TRACK_B_V1 ''2'' = Inr lp \<and>
     write_binary lp TRACK_B_V1 = Inr bs \<and> length bs = 176 \<and> bytes_to_words bs = Inr words \<and>
     map_r (decode_words_to_instruction TRACK_B_V1) words = Inr code \<and>
     (\<forall>k \<ge> N. \<exists>t. sim_run \<lparr>host = demo_host, instructions = code, cfg_block_dim = (2, 1, 1), cfg_grid_dim = (1, 1, 1),
         cfg_warp_size = 1, max_steps = int k\<rparr> loop_start = Inr t \<and> gmem t = [21, 0, 0, 0, 0, 0, 0, 0])"
proof -
  obtain m am recs am1 am2 m2 am3 recs2 where
    m: "fold_r run_pass (take 22 (O2_passes demo_host)) (share_module, build_default_analysis_manager, []) = Inr (m, am, recs)"
      "mod_program m = share_ptx" "register_mapping_of m = []" "get_liveness m am = Inr (share_facts, am1)"
      "loop_range_of m am1 = Inr (None, am2)" "fold_r run_pass O2_tail (m, am, recs) = Inr (m2, am3, recs2)"
      "\<not> isl (transforms_applied recs2)"
    using share_stages by blast
  obtain low lp bs where lp: "lower_program share_ptx TRACK_B_V1 (gpr_scan share_facts None) = Inr low"
    "program_safe (lowered_instructions low)" "schedule_lowered low = Inr lp" "parameter_offsets lp = [(''A'', 0)]"
    "write_binary lp TRACK_B_V1 = Inr bs" "length bs = 176"
    using share_binary by blast
  obtain m' am' r where "ra_run m am = Inr (m', am', r)" "mod_program m2 = mod_program m'"
    "register_mapping_of m2 = register_mapping_of m'"
    using tail_allocates [OF m(6)] by blast
  then have "mod_program m2 = share_ptx" "register_mapping_of m2 = gpr_scan share_facts None"
    using ra_run_scans [OF _ m(4,5,3)] m(2) by auto
  then have "lower_and_schedule ''2'' TRACK_B_V1 m2 = Inr lp" using lp(1,3) by (simp add: lower_and_schedule_def)
  moreover have "fold_r run_pass (take 22 (O2_passes demo_host) @ O2_tail) (share_module, build_default_analysis_manager, []) =
      Inr (m2, am3, recs2)"
    using m(1,6) by (simp add: fold_r_append)
  then have "pm_run \<lparr>pm_name = ''O2-conservative-scalar'', pm_passes = O2_passes demo_host\<rparr> share_module
      build_default_analysis_manager = Inr (m2, am3, recs2)"
    by (simp add: pm_run_def flip: O2_split)
  moreover obtain metrics where "build_metrics m2 lp recs2 = Inr metrics"
    using metrics_total m(7) by blast
  ultimately have compiled: "compile_ptx demo_host share_text TRACK_B_V1 ''2'' = Inr lp"
    using share_parsed by (simp add: compile_ptx_def compile_ptx_detailed_def build_pipeline_def share_module_def
      PERFORMANCE_TARGETS_def map_error_def)
  obtain s' where s': "ptx_grid \<lparr>env_host = demo_host, env_params = parameter_offsets lp\<rparr> share_ptx 40 (2, 1, 1) (1, 1, 1) 1
      loop_start = Some s'" "gmem s' = [21, 0, 0, 0, 0, 0, 0, 0]"
    using share_runs lp(4) by auto
  have low: "lowerable_program TRACK_B_V1 (length (pmem loop_start)) share_ptx" "comparisons_named share_ptx"
    using share_runs by (simp_all add: loop_start_def new_sim_state_def)
  have run: "pm_run \<lparr>pm_name = [], pm_passes = take 22 (O2_passes demo_host)\<rparr> (module_from_program share_text share_ptx)
      build_default_analysis_manager = Inr (m, am, recs)"
    using m(1) by (simp add: pm_run_def share_module_def)
  obtain words code N where "bytes_to_words bs = Inr words" "map_r (decode_words_to_instruction TRACK_B_V1) words = Inr code"
    "\<forall>k \<ge> N. \<exists>t. sim_run \<lparr>host = demo_host, instructions = code, cfg_block_dim = (2, 1, 1), cfg_grid_dim = (1, 1, 1),
         cfg_warp_size = 1, max_steps = int k\<rparr> loop_start = Inr t \<and>
       gmem t = gmem s' \<and> pmem t = pmem s' \<and> mset (accesses t) = mset (accesses s')"
    using o2_backend_correct [OF compiled lp(5) _ _ share_parsed run m(4,5,3), unfolded m(2), OF _ _ share_fits low lp(1,2)
        _ _ _ s'(1)] lp(6) by (auto simp: single_lanes_def)
  then show ?thesis using compiled lp s'(2) by metis
qed

end
