(* ===== verification/Live_Cover.thy ===== *)
theory Live_Cover
  imports Alloc_Correct
begin

text \<open>
  What the liveness analysis and the merging of its ranges compute: for a register that is written
  somewhere, one interval from its first definition to a position behind all its definitions and all
  the uses that follow the first of them.
\<close>

subsection \<open>Definitions and uses\<close>

definition positions :: "(PTXInstruction \<Rightarrow> bool) \<Rightarrow> item list \<Rightarrow> int list" where
  "positions P its = map (\<lambda>(i, it). int i)
     (filter (\<lambda>(i, it). case it of Label _ \<Rightarrow> False | Inst inst \<Rightarrow> P inst) (enumerate 0 its))"

lemma positions_iff: "u \<in> set (positions P its) \<longleftrightarrow> (\<exists>k inst. u = int k \<and> k < length its \<and> its ! k = Inst inst \<and> P inst)"
  by (force simp: positions_def in_set_enumerate_eq split: item.splits)

lemma positions_sorted: "sorted_wrt (<) (positions P its)"
proof -
  have "sorted_wrt (<) (map fst (filter Q (enumerate n its)))" for Q n
  proof (induction its arbitrary: n)
    case (Cons it its)
    then show ?case by (auto simp: in_set_enumerate_eq)
  qed simp
  then have "sorted_wrt (<) (map int (map fst (filter (\<lambda>(i, it). case it of Label _ \<Rightarrow> False | Inst inst \<Rightarrow> P inst) (enumerate 0 its))))"
    by (simp add: sorted_wrt_map)
  then show ?thesis by (simp add: positions_def case_prod_unfold comp_def)
qed

lemma positions_snoc:
  "positions P (its @ [it]) = positions P its @
     (case it of Label _ \<Rightarrow> [] | Inst inst \<Rightarrow> if P inst then [int (length its)] else [])"
  by (simp add: positions_def enumerate_append_eq split: item.split)

definition entry_list :: "int list dict \<Rightarrow> string \<Rightarrow> int list" where
  "entry_list d r = (case map_of d r of None \<Rightarrow> [] | Some is \<Rightarrow> is)"

lemma entry_append: "entry_list (append_at k i d) r = (if r = k then entry_list d r @ [i] else entry_list d r)"
  by (simp add: entry_list_def append_at_def update_conv')

lemma keys_append: "map_of (append_at k i d) r = None \<longleftrightarrow> r \<noteq> k \<and> map_of d r = None"
  by (simp add: append_at_def update_conv')

lemma collect_defs_snoc:
  "collect_defs (its @ [it]) = (case it of Label _ \<Rightarrow> collect_defs its
     | Inst inst \<Rightarrow> (case dest_register inst of None \<Rightarrow> collect_defs its
         | Some r \<Rightarrow> append_at r (int (length its)) (collect_defs its)))"
  by (simp add: collect_defs_def enumerate_append_eq split: item.split option.split)

lemma collect_uses_snoc:
  "collect_uses (its @ [it]) = (case it of Label _ \<Rightarrow> collect_uses its
     | Inst inst \<Rightarrow> fold (\<lambda>r. append_at r (int (length its))) (source_registers inst) (collect_uses its))"
  by (simp add: collect_uses_def enumerate_append_eq split: item.split)

lemma collect_defs_entry:
  "entry_list (collect_defs its) r = positions (\<lambda>i. dest_register i = Some r) its \<and>
   (map_of (collect_defs its) r = None \<longleftrightarrow> positions (\<lambda>i. dest_register i = Some r) its = [])"
proof (induction its rule: rev_induct)
  case (snoc it its)
  then show ?case
    by (auto simp: collect_defs_snoc positions_snoc entry_append keys_append split: item.split option.split)
qed (simp add: collect_defs_def positions_def entry_list_def)

lemma fold_append_entry: "set (entry_list (fold (\<lambda>r. append_at r i) rs d) v) =
    set (entry_list d v) \<union> (if v \<in> set rs then {i} else {})"
  by (induction rs arbitrary: d) (auto simp: entry_append)

lemma collect_uses_entry:
  "set (entry_list (collect_uses its) r) = set (positions (\<lambda>i. r \<in> set (source_registers i)) its)"
proof (induction its rule: rev_induct)
  case (snoc it its)
  then show ?case by (auto simp: collect_uses_snoc positions_snoc fold_append_entry split: item.split)
qed (simp add: collect_uses_def positions_def entry_list_def)

lemma append_keys_distinct: "distinct (map fst d) \<Longrightarrow> distinct (map fst (append_at k i d))"
  by (simp add: append_at_def distinct_update)

lemma collect_defs_distinct: "distinct (map fst (collect_defs its))"
proof (induction its rule: rev_induct)
  case (snoc it its)
  then show ?case by (auto simp: collect_defs_snoc append_keys_distinct split: item.split option.split)
qed (simp add: collect_defs_def)

subsection \<open>The range of a definition\<close>

lemma foldl_max: "foldl max a xs = Max (insert a (set xs))" for a :: int
proof (induction xs arbitrary: a)
  case (Cons x xs)
  have "Max (insert (max a x) (set xs)) = Max (insert a (insert x (set xs)))"
    by (cases "xs = []") (simp_all add: max.assoc)
  then show ?case by (simp add: Cons)
qed simp

definition range_key :: "string \<Rightarrow> int list \<Rightarrow> nat \<Rightarrow> string" where
  "range_key reg ds n = (if 1 < length ds then reg @ ''#'' @ py_str (int n) else reg)"

lemma py_str_inj:
  assumes "py_str (int m) = py_str (int n)"
  shows "m = n"
proof -
  have "digits_base 10 m = digits_base 10 n" using assms unfolding py_str_def by simp
  moreover have "digits_value 10 0 (digits_base 10 k) = Some k" for k by (rule digits_value_digits_base) simp_all
  ultimately show ?thesis by (metis option.inject)
qed

lemma range_key_base: "CHR ''#'' \<notin> set reg \<Longrightarrow> range_base (range_key reg ds n) = reg"
proof -
  assume "CHR ''#'' \<notin> set reg"
  then have "\<forall>c \<in> set reg. c \<noteq> CHR ''#''" by auto
  then show ?thesis by (simp add: range_base_def range_key_def before_first_def takeWhile_append2)
qed

lemma range_key_inj:
  assumes "CHR ''#'' \<notin> set r" "CHR ''#'' \<notin> set r'" "range_key r ds n = range_key r' ds' n'"
    and "n < length ds" "n' < length ds'" "r = r' \<Longrightarrow> ds = ds'"
  shows "r = r' \<and> n = n'"
proof -
  have "r = r'" using range_key_base [OF assms(1)] range_key_base [OF assms(2)] assms(3) by metis
  then show ?thesis using assms(3-6) py_str_inj by (auto simp: range_key_def split: if_splits)
qed

lemma def_range_key: "fst (def_range reg ds n uses z) = range_key reg ds n"
  by (simp add: def_range_def range_key_def Let_def)

lemma def_range_first: "first_def (snd (def_range reg ds n uses z)) = ds ! n"
  by (simp add: def_range_def Let_def)

lemma def_range_bounds:
  assumes "0 \<le> ds ! n"
  shows "ds ! n \<le> last_use (snd (def_range reg ds n uses z)) \<and>
    (\<forall>u \<in> set (use_indices (snd (def_range reg ds n uses z))). u \<le> last_use (snd (def_range reg ds n uses z)))"
proof -
  let ?us = "use_indices (snd (def_range reg ds n uses z))"
  have lst: "last_use (snd (def_range reg ds n uses z)) = (if foldl max (- 1) ?us < 0 then ds ! n else foldl max (- 1) ?us)"
    by (simp add: def_range_def Let_def)
  have ge: "ds ! n \<le> u" if "u \<in> set ?us" for u using that by (auto simp: def_range_def Let_def split: if_splits)
  have le: "u \<le> foldl max (- 1) ?us" if "u \<in> set ?us" for u unfolding foldl_max using that by simp
  show ?thesis
  proof (cases "set ?us = {}")
    case False
    then obtain u where "u \<in> set ?us" by (metis ex_in_conv)
    then have "ds ! n \<le> foldl max (- 1) ?us" using ge [of u] le [of u] by simp
    then show ?thesis using le assms unfolding lst by auto
  qed (simp add: lst)
qed

text \<open>Some range of a register reaches a use that follows the first definition.\<close>

lemma def_range_reaches:
  assumes ds: "sorted_wrt (<) ds" "ds \<noteq> []" "\<forall>d \<in> set ds. 0 \<le> d" and u: "u \<in> set uses" "hd ds \<le> u" "u \<le> z"
  shows "\<exists>n < length ds. u \<le> last_use (snd (def_range reg ds n uses z))"
proof -
  let ?N = "{n. n < length ds \<and> ds ! n \<le> u}"
  have fin: "finite ?N" and "0 \<in> ?N" using ds u by (simp_all add: hd_conv_nth)
  then have N: "Max ?N \<in> ?N" using Max_in by blast
  define n where "n = Max ?N"
  have n: "n < length ds" "ds ! n \<le> u" using N by (simp_all add: n_def)
  have later: "u < ds ! (n + 1)" if "n + 1 < length ds"
  proof (rule ccontr)
    assume "\<not> u < ds ! (n + 1)"
    then have "n + 1 \<in> ?N" using that by simp
    then have "n + 1 \<le> n" unfolding n_def by (rule Max_ge [OF fin])
    then show False by simp
  qed
  have pos: "0 \<le> ds ! n" using ds(3) n(1) by simp
  note b = def_range_bounds [OF pos, of reg uses z]
  show ?thesis
  proof (cases "u = ds ! n")
    case False
    then have "u \<in> set (use_indices (snd (def_range reg ds n uses z)))"
      using n later u(1,3) by (auto simp: def_range_def Let_def)
    then show ?thesis using b n(1) by blast
  qed (use b n(1) in blast)
qed

subsection \<open>The facts of the analysis\<close>

definition put_all :: "(string \<times> 'a) list \<Rightarrow> 'a dict \<Rightarrow> 'a dict" where
  "put_all L d = fold (\<lambda>(k, v). AList.update k v) L d"

lemma put_all_mem: "x \<in> set (put_all L d) \<Longrightarrow> x \<in> set L \<or> x \<in> set d"
  unfolding put_all_def
proof (induction L arbitrary: d)
  case (Cons y L)
  obtain k v where "y = (k, v)" by (cases y)
  then show ?case using Cons.IH [of "AList.update k v d"] Cons.prems update_mem [of x k v d] by auto
qed simp

lemma put_all_map:
  assumes "\<And>v'. (k, v') \<in> set L \<Longrightarrow> v' = v" "(k, v) \<in> set L"
  shows "map_of (put_all L d) k = Some v"
  using assms
proof (induction L rule: rev_induct)
  case (snoc x L)
  obtain a b where x: "x = (a, b)" by (cases x)
  show ?case
  proof (cases "a = k")
    case True
    then have "b = v" using snoc.prems(1) [of b] x by simp
    then show ?thesis using True by (simp add: put_all_def update_conv' x)
  next
    case False
    have "map_of (put_all L d) k = Some v"
    proof (rule snoc.IH)
      show "v' = v" if "(k, v') \<in> set L" for v' using snoc.prems(1) that by simp
      show "(k, v) \<in> set L" using snoc.prems(2) False x by simp
    qed
    then show ?thesis using False by (simp add: put_all_def update_conv' x)
  qed
qed simp

definition all_ranges :: "int list dict \<Rightarrow> int \<Rightarrow> int list dict \<Rightarrow> LivenessFacts" where
  "all_ranges uses z defs = concat (map (\<lambda>(reg, ds). map (\<lambda>n. def_range reg ds n (sort (entry_list uses reg)) z)
     [0..<length ds]) defs)"

lemma register_ranges_put:
  "register_ranges uses z (reg, ds) d = put_all (map (\<lambda>n. def_range reg ds n (sort (entry_list uses reg)) z) [0..<length ds]) d"
  by (simp add: register_ranges_def put_all_def fold_map comp_def entry_list_def case_prod_unfold Let_def)

lemma fold_register_ranges: "fold (register_ranges uses z) defs d = put_all (all_ranges uses z defs) d"
proof (induction defs arbitrary: d)
  case (Cons x defs)
  obtain reg ds where "x = (reg, ds)" by (cases x)
  then show ?case by (simp add: Cons all_ranges_def register_ranges_put put_all_def)
qed (simp add: all_ranges_def put_all_def)

lemma all_ranges_mem: "(k, r) \<in> set (all_ranges uses z defs) \<longleftrightarrow>
    (\<exists>reg ds n. (reg, ds) \<in> set defs \<and> n < length ds \<and> (k, r) = def_range reg ds n (sort (entry_list uses reg)) z)"
proof -
  have "(k, r) \<in> set (all_ranges uses z defs) \<longleftrightarrow>
      (\<exists>x \<in> set defs. \<exists>n < length (snd x). (k, r) = def_range (fst x) (snd x) n (sort (entry_list uses (fst x))) z)"
    by (simp add: all_ranges_def case_prod_unfold image_iff atLeast0LessThan Bex_def) blast
  then show ?thesis by (simp add: Bex_def)
qed

lemma use_only_step:
  "map_of d k = Some r \<Longrightarrow> map_of (use_only_range defs x d) k = Some r"
  "(k, r) \<in> set (use_only_range defs x d) \<Longrightarrow> (k, r) \<in> set d \<or> first_def r = - 1"
proof -
  obtain reg us where x: "x = (reg, us)" by (cases x)
  show "map_of d k = Some r \<Longrightarrow> map_of (use_only_range defs x d) k = Some r"
    using map_of_SomeD [of d k r] by (auto simp: use_only_range_def x update_conv' rev_image_eqI)
  show "(k, r) \<in> set (use_only_range defs x d) \<Longrightarrow> (k, r) \<in> set d \<or> first_def r = - 1"
    using update_mem [of "(k, r)" reg] by (fastforce simp: use_only_range_def x split: if_splits)
qed

lemma use_only_map: "map_of d k = Some r \<Longrightarrow> map_of (fold (use_only_range defs) xs d) k = Some r"
  by (induction xs arbitrary: d) (simp_all add: use_only_step(1))

lemma use_only_mem: "(k, r) \<in> set (fold (use_only_range defs) xs d) \<Longrightarrow> (k, r) \<in> set d \<or> first_def r = - 1"
  by (induction xs arbitrary: d) (use use_only_step(2) in force)+

subsection \<open>Merging\<close>

lemma merge_step: "map_of (merge_range (name, lr) d) v =
    (if v = range_base name then
       (case map_of d v of None \<Rightarrow> Some (first_def lr, last_use lr)
        | Some (a, b) \<Rightarrow> Some (min a (first_def lr), max b (last_use lr)))
     else map_of d v)"
  by (auto simp: merge_range_def Let_def update_conv' split: option.split)

lemma merge_grows: "map_of d v = Some (a, b) \<Longrightarrow> \<exists>a' b'. map_of (fold merge_range xs d) v = Some (a', b') \<and> a' \<le> a \<and> b \<le> b'"
proof (induction xs arbitrary: d a b)
  case (Cons x xs)
  obtain name lr where x: "x = (name, lr)" by (cases x)
  have "\<exists>a1 b1. map_of (merge_range x d) v = Some (a1, b1) \<and> a1 \<le> a \<and> b \<le> b1"
    by (cases "v = range_base name") (use Cons.prems in \<open>auto simp: x merge_step\<close>)
  then obtain a1 b1 where 1: "map_of (merge_range x d) v = Some (a1, b1)" "a1 \<le> a" "b \<le> b1" by blast
  show ?case using Cons.IH [OF 1(1)] 1(2,3) by fastforce
qed simp

lemma merge_holds:
  assumes "(name, lr) \<in> set xs"
  shows "\<exists>a b. map_of (fold merge_range xs d) (range_base name) = Some (a, b) \<and> a \<le> first_def lr \<and> last_use lr \<le> b"
  using assms
proof (induction xs arbitrary: d)
  case (Cons x xs)
  show ?case
  proof (cases "(name, lr) \<in> set xs")
    case False
    then have x: "x = (name, lr)" using Cons.prems by simp
    have "\<exists>a1 b1. map_of (merge_range x d) (range_base name) = Some (a1, b1) \<and> a1 \<le> first_def lr \<and> last_use lr \<le> b1"
      by (simp add: x merge_step split: option.split)
    then obtain a1 b1 where 1: "map_of (merge_range x d) (range_base name) = Some (a1, b1)" "a1 \<le> first_def lr"
      "last_use lr \<le> b1" by blast
    show ?thesis using merge_grows [OF 1(1), of xs] 1(2,3) by fastforce
  qed (use Cons in simp)
qed simp

lemma merge_start:
  assumes "map_of (fold merge_range xs d) v = Some (a, b)"
  shows "(\<exists>name lr. (name, lr) \<in> set xs \<and> range_base name = v \<and> first_def lr = a) \<or> (\<exists>b0. map_of d v = Some (a, b0))"
  using assms
proof (induction xs arbitrary: d)
  case (Cons x xs)
  obtain name lr where x: "x = (name, lr)" by (cases x)
  show ?case
    using Cons.IH [of "merge_range x d"] Cons.prems
    by (fastforce simp: x merge_step min_def split: if_splits option.splits)
qed simp

subsection \<open>Intervals\<close>

abbreviation written_at :: "PTXProgram \<Rightarrow> string \<Rightarrow> int list" where
  "written_at p v \<equiv> positions (\<lambda>i. dest_register i = Some v) (items p)"

abbreviation read_at :: "PTXProgram \<Rightarrow> string \<Rightarrow> int list" where
  "read_at p v \<equiv> positions (\<lambda>i. v \<in> set (source_registers i)) (items p)"

text \<open>No register has the character in its name that separates the numbers of ranges.\<close>

definition clean_names :: "PTXProgram \<Rightarrow> bool" where
  "clean_names p = list_all (\<lambda>it. case it of Label _ \<Rightarrow> True
     | Inst i \<Rightarrow> (case dest_register i of None \<Rightarrow> True | Some r \<Rightarrow> CHR ''#'' \<notin> set r)) (items p)"

definition last_inst :: "PTXProgram \<Rightarrow> int" where
  "last_inst p = (case inst_indices_of (items p) of [] \<Rightarrow> - 1 | i # is \<Rightarrow> foldl max i is)"

definition range_of :: "PTXProgram \<Rightarrow> string \<Rightarrow> nat \<Rightarrow> LiveRange" where
  "range_of p v n = snd (def_range v (written_at p v) n (sort (entry_list (collect_uses (items p)) v)) (last_inst p))"

lemma position_last: "u \<in> set (positions P its) \<Longrightarrow> its = items p \<Longrightarrow> u \<le> last_inst p"
proof -
  assume u: "u \<in> set (positions P its)" "its = items p"
  then have "u \<in> set (inst_indices_of (items p))"
    by (force simp: positions_def inst_indices_of_def split: item.splits)
  then show "u \<le> last_inst p"
    by (cases "inst_indices_of (items p)") (simp_all add: last_inst_def foldl_max)
qed

lemma written_entry: "(v, ds) \<in> set (collect_defs (items p)) \<longleftrightarrow> written_at p v = ds \<and> ds \<noteq> []"
proof -
  have "(v, ds) \<in> set (collect_defs (items p)) \<longleftrightarrow> map_of (collect_defs (items p)) v = Some ds"
    using collect_defs_distinct by (simp add: map_of_eq_Some_iff)
  then show ?thesis using collect_defs_entry [of "items p" v] by (auto simp: entry_list_def split: option.splits)
qed

lemma written_clean: "clean_names p \<Longrightarrow> written_at p v \<noteq> [] \<Longrightarrow> CHR ''#'' \<notin> set v"
proof -
  assume c: "clean_names p" "written_at p v \<noteq> []"
  then obtain u where "u \<in> set (written_at p v)" by (metis list.set_intros(1) neq_Nil_conv)
  then obtain k i where "k < length (items p)" "items p ! k = Inst i" "dest_register i = Some v"
    by (auto simp: positions_iff)
  then show ?thesis using c(1) by (force simp: clean_names_def list_all_length)
qed

lemma facts_of: "analyze_liveness p = fold (use_only_range (collect_defs (items p))) (collect_uses (items p))
    (put_all (all_ranges (collect_uses (items p)) (last_inst p) (collect_defs (items p))) [])"
  by (simp add: analyze_liveness_def Let_def fold_register_ranges last_inst_def)

lemma all_ranges_iff: "(k, r) \<in> set (all_ranges (collect_uses (items p)) (last_inst p) (collect_defs (items p))) \<longleftrightarrow>
    (\<exists>v n. n < length (written_at p v) \<and> k = range_key v (written_at p v) n \<and> r = range_of p v n)"
proof -
  have "(k, r) = def_range v ds n us z \<longleftrightarrow> k = range_key v ds n \<and> r = snd (def_range v ds n us z)" for v ds n us z
    using def_range_key [of v ds n us z] by (cases "def_range v ds n us z") auto
  then show ?thesis unfolding all_ranges_mem written_entry range_of_def by (metis length_greater_0_conv less_zeroE list.size(3))
qed

lemma range_present:
  assumes "clean_names p" "n < length (written_at p v)"
  shows "(range_key v (written_at p v) n, range_of p v n) \<in> set (analyze_liveness p)"
proof -
  let ?L = "all_ranges (collect_uses (items p)) (last_inst p) (collect_defs (items p))"
  have "map_of (put_all ?L []) (range_key v (written_at p v) n) = Some (range_of p v n)"
  proof (rule put_all_map)
    show "(range_key v (written_at p v) n, range_of p v n) \<in> set ?L" using assms(2) all_ranges_iff by blast
  next
    fix r assume "(range_key v (written_at p v) n, r) \<in> set ?L"
    then obtain w m where w: "m < length (written_at p w)" "range_key v (written_at p v) n = range_key w (written_at p w) m"
      "r = range_of p w m" using all_ranges_iff by blast
    have "v = w \<and> n = m"
      by (rule range_key_inj [OF written_clean written_clean w(2) assms(2) w(1)]) (use assms w in auto)
    then show "r = range_of p v n" using w(3) by simp
  qed
  then show ?thesis unfolding facts_of by (rule map_of_SomeD [OF use_only_map])
qed

lemma range_origin:
  assumes "(k, r) \<in> set (analyze_liveness p)" "is_live r"
  shows "\<exists>v n. n < length (written_at p v) \<and> k = range_key v (written_at p v) n \<and> r = range_of p v n"
proof -
  have "first_def r \<noteq> - 1" using assms(2) by (auto simp: is_live_def)
  then have "(k, r) \<in> set (all_ranges (collect_uses (items p)) (last_inst p) (collect_defs (items p)))"
    using use_only_mem [OF assms(1) [unfolded facts_of]] put_all_mem by fastforce
  then show ?thesis using all_ranges_iff by blast
qed

lemma written_positive: "\<forall>d \<in> set (written_at p v). 0 \<le> d"
  by (auto simp: positions_iff)

lemma range_of_first: "n < length (written_at p v) \<Longrightarrow> first_def (range_of p v n) = written_at p v ! n"
  by (simp add: range_of_def def_range_first)

lemma range_of_last: "n < length (written_at p v) \<Longrightarrow> written_at p v ! n \<le> last_use (range_of p v n)"
  using def_range_bounds [of "written_at p v" n v] written_positive [of v p] by (simp add: range_of_def)

lemma range_of_live: "n < length (written_at p v) \<Longrightarrow> is_live (range_of p v n)"
  using range_of_first [of n v p] range_of_last [of n v p] written_positive [of v p] nth_mem [of n "written_at p v"]
  by (fastforce simp: is_live_def)

lemma key_predicate: "starts_with (range_key v ds n) ''%p'' \<longleftrightarrow> starts_with v ''%p''"
  by (cases v; cases "tl v") (auto simp: range_key_def)

lemma written_order:
  assumes "written_at p v \<noteq> []" "d \<in> set (written_at p v)"
  shows "hd (written_at p v) \<le> d"
  using assms positions_sorted [of "\<lambda>i. dest_register i = Some v" "items p"] by (cases "written_at p v") auto

lemma merged_unextended: "merged_ranges facts None = fold merge_range (gpr_ranges facts) []"
  by (simp add: merged_ranges_def extend_to_loop_def)

text \<open>Before it is extended to the loop.\<close>

lemma interval_covers:
  assumes "clean_names p" "written_at p v \<noteq> []" "\<not> starts_with v ''%p''"
  shows "\<exists>b. map_of (merged_ranges (analyze_liveness p) None) v = Some (hd (written_at p v), b) \<and>
    (\<forall>u \<in> set (written_at p v) \<union> set (read_at p v). hd (written_at p v) \<le> u \<longrightarrow> u \<le> b)"
proof -
  let ?ds = "written_at p v" and ?M = "merged_ranges (analyze_liveness p) None"
  note base = range_key_base [OF written_clean [OF assms(1,2)]]
  have inG: "(range_key v ?ds n, range_of p v n) \<in> set (gpr_ranges (analyze_liveness p))" if "n < length ?ds" for n
    using range_present [OF assms(1) that] range_of_live [OF that] assms(3) by (simp add: gpr_ranges_def key_predicate)
  have holds: "\<exists>a b. map_of ?M v = Some (a, b) \<and> a \<le> first_def (range_of p v n) \<and> last_use (range_of p v n) \<le> b"
    if "n < length ?ds" for n
    using merge_holds [OF inG [OF that], of "[]"] by (simp add: base merged_unextended)
  obtain a b where ab: "map_of ?M v = Some (a, b)" "a \<le> hd ?ds"
    using holds [of 0] range_of_first [of 0 v p] assms(2) by (auto simp: hd_conv_nth)
  obtain name r where r: "(name, r) \<in> set (gpr_ranges (analyze_liveness p))" "range_base name = v" "first_def r = a"
    using merge_start [of "gpr_ranges (analyze_liveness p)" "[]" v a b] ab(1) by (auto simp: merged_unextended)
  then obtain w m where w: "m < length (written_at p w)" "name = range_key w (written_at p w) m" "r = range_of p w m"
    using range_origin [of name r p] by (auto simp: gpr_ranges_def)
  then have "w = v" using r(2) range_key_base [of w] written_clean [OF assms(1), of w] by (cases "written_at p w") auto
  then have "a \<in> set ?ds" using r(3) w range_of_first by auto
  then have a: "a = hd ?ds" using written_order [OF assms(2)] ab(2) by fastforce
  have last: "last_use (range_of p v n) \<le> b" if "n < length ?ds" for n using holds [OF that] ab(1) by auto
  have "u \<le> b" if u: "u \<in> set ?ds \<union> set (read_at p v)" "hd ?ds \<le> u" for u
  proof (cases "u \<in> set ?ds")
    case True
    then obtain n where "n < length ?ds" "u = ?ds ! n" by (auto simp: in_set_conv_nth)
    then show ?thesis using range_of_last last by fastforce
  next
    case False
    then have read: "u \<in> set (read_at p v)" using u(1) by simp
    then have "u \<in> set (sort (entry_list (collect_uses (items p)) v))" using collect_uses_entry by simp
    then obtain n where "n < length ?ds" "u \<le> last_use (range_of p v n)"
      using def_range_reaches [OF positions_sorted assms(2) written_positive _ u(2) position_last [OF read]]
      unfolding range_of_def by blast
    then show ?thesis using last by fastforce
  qed
  then show ?thesis using ab(1) a by blast
qed

lemma interval_origin:
  assumes "clean_names p" "map_of (merged_ranges (analyze_liveness p) None) v = Some (a, b)"
  shows "written_at p v \<noteq> [] \<and> \<not> starts_with v ''%p''"
proof -
  obtain name r where r: "(name, r) \<in> set (gpr_ranges (analyze_liveness p))" "range_base name = v"
    using merge_start [of "gpr_ranges (analyze_liveness p)" "[]" v a b] assms(2) by (auto simp: merged_unextended)
  then obtain w m where w: "m < length (written_at p w)" "name = range_key w (written_at p w) m"
    using range_origin [of name r p] by (auto simp: gpr_ranges_def)
  then have "w = v" using r(2) range_key_base [of w] written_clean [OF assms(1), of w] by (cases "written_at p w") auto
  then show ?thesis using w r(1) by (auto simp: gpr_ranges_def key_predicate)
qed

text \<open>The extension to the loop moves ends only.\<close>

lemma extended: "map_of (extend_to_loop facts lr d) v = map_option (\<lambda>(a, b). (a, case lr of None \<Rightarrow> b
    | Some (x, y) \<Rightarrow> if has_use_in_range facts v x y \<and> b < y then y else b)) (map_of d v)"
proof (cases lr)
  case (Some xy)
  then show ?thesis by (induction d) (auto simp: extend_to_loop_def split: prod.splits)
qed (simp add: extend_to_loop_def option.map_id)

lemma merged_extended: "merged_ranges facts lr = extend_to_loop facts lr (merged_ranges facts None)"
  by (simp add: merged_ranges_def extend_to_loop_def)

lemma intervals_cover:
  assumes "clean_names p" "written_at p v \<noteq> []" "\<not> starts_with v ''%p''"
  shows "\<exists>b. map_of (merged_ranges (analyze_liveness p) lr) v = Some (hd (written_at p v), b) \<and>
    (\<forall>u \<in> set (written_at p v) \<union> set (read_at p v). hd (written_at p v) \<le> u \<longrightarrow> u \<le> b)"
proof -
  obtain b where b: "map_of (merged_ranges (analyze_liveness p) None) v = Some (hd (written_at p v), b)"
    "\<forall>u \<in> set (written_at p v) \<union> set (read_at p v). hd (written_at p v) \<le> u \<longrightarrow> u \<le> b"
    using interval_covers [OF assms] by blast
  have "\<exists>b' \<ge> b. map_of (merged_ranges (analyze_liveness p) lr) v = Some (hd (written_at p v), b')"
    unfolding merged_extended [of _ lr] extended b(1) by (auto split: option.split)
  then show ?thesis using b(2) by fastforce
qed

lemma intervals_origin:
  assumes "clean_names p" "map_of (merged_ranges (analyze_liveness p) lr) v = Some (a, b)"
  shows "written_at p v \<noteq> [] \<and> \<not> starts_with v ''%p''"
  using assms interval_origin unfolding merged_extended [of _ lr] extended by (auto split: option.splits)

subsection \<open>The first definition\<close>

definition defined_before :: "PTXProgram \<Rightarrow> nat \<Rightarrow> string \<Rightarrow> bool" where
  "defined_before p k v = list_ex (\<lambda>it. case it of Label _ \<Rightarrow> False | Inst d \<Rightarrow> dest_register d = Some v) (take k (items p))"

lemma list_ex_take: "list_ex P (take k xs) \<longleftrightarrow> (\<exists>j < k. j < length xs \<and> P (xs ! j))"
  by (auto simp: list_ex_length)

lemma defined_before_iff:
  "defined_before p k v \<longleftrightarrow> (\<exists>j < k. \<exists>d. j < length (items p) \<and> items p ! j = Inst d \<and> dest_register d = Some v)"
proof -
  have "(case it of Label _ \<Rightarrow> False | Inst d \<Rightarrow> Q d) \<longleftrightarrow> (\<exists>d. it = Inst d \<and> Q d)" for it Q by (cases it) simp_all
  then show ?thesis by (simp add: defined_before_def list_ex_take)
qed

lemma defined_written: "defined_before p k v \<Longrightarrow> \<exists>j. int j \<in> set (written_at p v)"
  by (auto simp: positions_iff defined_before_iff)

lemma first_written: "written_at p v \<noteq> [] \<Longrightarrow> defined_before p k v \<longleftrightarrow> hd (written_at p v) < int k"
proof
  assume ne: "written_at p v \<noteq> []" and "hd (written_at p v) < int k"
  then show "defined_before p k v"
    using list.set_sel(1) [OF ne] by (auto simp: positions_iff defined_before_iff)
next
  assume ne: "written_at p v \<noteq> []" and "defined_before p k v"
  then obtain j where "j < k" "int j \<in> set (written_at p v)" by (auto simp: positions_iff defined_before_iff)
  then show "hd (written_at p v) < int k" using written_order [OF ne] by fastforce
qed

lemma written_iff: "k < length (items p) \<Longrightarrow> items p ! k = Inst i \<Longrightarrow> int k \<in> set (written_at p v) \<longleftrightarrow> dest_register i = Some v"
  by (auto simp: positions_iff)

lemma read_iff: "k < length (items p) \<Longrightarrow> items p ! k = Inst i \<Longrightarrow> int k \<in> set (read_at p v) \<longleftrightarrow> v \<in> set (source_registers i)"
  by (auto simp: positions_iff)

text \<open>
  C32. The intervals the register allocation works with hold what the program does with its
  registers: the interval of a general register that some instruction writes starts at its first
  definition and reaches every later definition and every later use, and the extension to loops
  takes nothing away.
\<close>

theorem intervals_hold_uses:
  assumes "clean_names p" "written_at p v \<noteq> []" "\<not> starts_with v ''%p''"
  shows "\<exists>b. map_of (merged_ranges (analyze_liveness p) lr) v = Some (hd (written_at p v), b) \<and>
    (\<forall>u \<in> set (written_at p v) \<union> set (read_at p v). hd (written_at p v) \<le> u \<longrightarrow> u \<le> b)"
  using assms by (rule intervals_cover)

subsection \<open>Straight-line kernels\<close>

text \<open>No branches, and every register is defined, without a guard, before it is read.\<close>

fun defines_first :: "string list \<Rightarrow> item list \<Rightarrow> bool" where
  "defines_first D [] = True"
| "defines_first D (Label _ # its) = defines_first D its"
| "defines_first D (Inst i # its) =
     (opcode_base (inst_opcode i) \<noteq> ''bra'' \<and>
      list_all (\<lambda>v. (v \<in> set D \<or> dest_register i = Some v) \<and> \<not> starts_with v ''%p'' \<and>
        (v \<in> set (source_registers i) \<or> dest_register i = Some v)) (looked_up i) \<and>
      (case dest_register i of None \<Rightarrow> defines_first D its
       | Some v \<Rightarrow> (v \<in> set D \<or> starts_with v ''%p'' \<or>
            written i = Some v \<and> v \<notin> set (instruction_read_registers i)) \<and> defines_first (v # D) its))"

definition straight_line :: "PTXProgram \<Rightarrow> bool" where
  "straight_line p \<longleftrightarrow> clean_names p \<and> defines_first [] (items p)"

lemma defined_mono: "defined_before p k v \<Longrightarrow> k \<le> m \<Longrightarrow> defined_before p m v"
  unfolding defined_before_iff by (meson less_le_trans)

lemma defines_first_at:
  assumes "defines_first D its" "items p = pre @ its" "\<forall>v \<in> set D. defined_before p (length pre) v"
    and "items p ! k = Inst i" "length pre \<le> k" "k < length (items p)"
  shows "opcode_base (inst_opcode i) \<noteq> ''bra'' \<and>
    (\<forall>v \<in> set (looked_up i). (defined_before p k v \<or> dest_register i = Some v) \<and> \<not> starts_with v ''%p'' \<and>
       (v \<in> set (source_registers i) \<or> dest_register i = Some v)) \<and>
    (\<forall>v. dest_register i = Some v \<longrightarrow> defined_before p k v \<or> starts_with v ''%p'' \<or>
       written i = Some v \<and> v \<notin> set (instruction_read_registers i))"
  using assms
proof (induction D its arbitrary: pre rule: defines_first.induct)
  case (2 D l its)
  have "length pre \<noteq> k" using 2(3,5) by (auto simp: nth_append)
  then have "length (pre @ [Label l]) \<le> k" using 2(6) by simp
  moreover have "\<forall>v \<in> set D. defined_before p (length (pre @ [Label l])) v" using 2(4) defined_mono by fastforce
  ultimately show ?case using 2(1) [of "pre @ [Label l]"] 2(2,3,5,7) by simp
next
  case (3 D j its)
  have mono: "defined_before p (length pre) v \<Longrightarrow> defined_before p (Suc (length pre)) v" for v
    using defined_mono by (meson le_SucI order_refl)
  have here: "dest_register j = Some v \<Longrightarrow> defined_before p (Suc (length pre)) v" for v
    using 3(4) unfolding defined_before_iff by (intro exI [of _ "length pre"]) auto
  show ?case
  proof (cases "length pre = k")
    case True
    then have "i = j" using 3(4,6) by (auto simp: nth_append)
    then show ?thesis using 3(3,5) True by (auto simp: list_all_iff split: option.splits)
  next
    case False
    then have k: "length (pre @ [Inst j]) \<le> k" using 3(7) by simp
    show ?thesis
    proof (cases "dest_register j")
      case None
      then show ?thesis using 3(1) [OF None _ _ _ 3(6) k 3(8)] 3(3-5) mono by auto
    next
      case (Some v)
      then show ?thesis using 3(2) [OF Some _ _ _ 3(6) k 3(8)] 3(3-5) mono here by auto
    qed
  qed
qed simp

lemma starting_first:
  assumes "clean_names p" "v \<in> set (starting (merged_ranges (analyze_liveness p) lr) k)"
  shows "written_at p v \<noteq> [] \<and> hd (written_at p v) = int k \<and> \<not> starts_with v ''%p''"
proof -
  let ?ivs = "merged_ranges (analyze_liveness p) lr"
  have "covers ?ivs k v" "\<not> live_into ?ivs k v" using assms(2) by (simp_all add: starting_def)
  then obtain a b where ab: "map_of ?ivs v = Some (a, b)" "a \<le> int k" "\<not> (a < int k \<and> int k \<le> b)" "int k \<le> b"
    by (cases "map_of ?ivs v") (simp_all add: covers_def live_into_def split: prod.splits)
  note v = intervals_origin [OF assms(1) ab(1)]
  obtain c where "map_of ?ivs v = Some (hd (written_at p v), c)" using intervals_cover [OF assms(1)] v by blast
  then show ?thesis using ab v by simp
qed

lemma straight_line_item:
  assumes "straight_line p" "k < length (items p)"
  shows "item_fits (merged_ranges (analyze_liveness p) lr) (items p) k (items p ! k)"
proof -
  let ?ivs = "merged_ranges (analyze_liveness p) lr"
  have c: "clean_names p" using assms(1) by (simp add: straight_line_def)
  have start: "\<exists>i. items p ! k = Inst i \<and> dest_register i = Some v \<and> \<not> defined_before p k v \<and> \<not> starts_with v ''%p''"
    if "v \<in> set (starting ?ivs k)" for v
  proof -
    note f = starting_first [OF c that]
    then have "int k \<in> set (written_at p v)" by (metis list.set_sel(1))
    then show ?thesis using f first_written [of v p k] by (auto simp: positions_iff)
  qed
  show ?thesis
  proof (cases "items p ! k")
    case (Label l)
    then show ?thesis using start by (cases "starting ?ivs k") (auto simp: item_fits_def)
  next
    case (Inst i)
    have at: "opcode_base (inst_opcode i) \<noteq> ''bra''"
      "\<And>v. v \<in> set (looked_up i) \<Longrightarrow> (defined_before p k v \<or> dest_register i = Some v) \<and> \<not> starts_with v ''%p'' \<and>
         (v \<in> set (source_registers i) \<or> dest_register i = Some v)"
      "\<And>v. dest_register i = Some v \<Longrightarrow> defined_before p k v \<or> starts_with v ''%p'' \<or>
         written i = Some v \<and> v \<notin> set (instruction_read_registers i)"
      using defines_first_at [of "[]" "items p" p "[]" k i] assms Inst by (auto simp: straight_line_def)
    have "covers ?ivs k v" if "v \<in> set (looked_up i)" for v
    proof -
      have k: "int k \<in> set (written_at p v) \<union> set (read_at p v)"
        using at(2) [OF that] written_iff [OF assms(2) Inst] read_iff [OF assms(2) Inst] by auto
      have ne: "written_at p v \<noteq> []"
        using at(2) [OF that] written_iff [OF assms(2) Inst, of v] defined_written [of p k v] by fastforce
      have "hd (written_at p v) \<le> int k"
        using at(2) [OF that] first_written [OF ne, of k] written_order [OF ne] written_iff [OF assms(2) Inst] by fastforce
      then show ?thesis using intervals_cover [OF c ne, of lr] at(2) [OF that] k by (auto simp: covers_def)
    qed
    moreover have "written i = Some v \<and> v \<notin> set (instruction_read_registers i)" if "v \<in> set (starting ?ivs k)" for v
      using start [OF that] at(3) Inst by auto
    ultimately show ?thesis using at(1) by (simp add: item_fits_def Inst list_all_iff)
  qed
qed

lemma straight_line_fits: "straight_line p \<Longrightarrow> intervals_fit (merged_ranges (analyze_liveness p) lr) p"
  using straight_line_item by (auto simp: intervals_fit_def list_all_iff in_set_enumerate_eq)

text \<open>
  C31. In a straight-line kernel that is lowerable (as for level 0), has no \<^verbatim>\<open>#\<close> in its names and defines
  every register, unguarded, before it reads it, sharing registers by the intervals is right, whatever
  loop range the pass assumes: with at most 119 intervals and warps of one lane, a kernel that ends in
  the reference semantics ends on the simulator, lowered with the mapping of the linear scan, with the
  same memory and the same accesses.
\<close>

theorem straight_line_allocated:
  assumes "straight_line p" "length (merged_ranges (analyze_liveness p) lr) \<le> 119"
    and "lower_program p prof (gpr_scan (analyze_liveness p) lr) = Inr lp" "prof \<in> {C1_DEFAULT, TRACK_B_V1}"
    and "lowerable_program prof (length (pmem s)) p"
    and "dim_ok bd" "dim_ok gd" "single_lanes bd ws"
    and "ptx_grid \<lparr>env_host = h, env_params = parameter_offsets lp\<rparr> p n bd gd ws s = Some s'"
  shows "\<exists>N. \<forall>k \<ge> N. \<exists>t. sim_run \<lparr>host = h, instructions = lowered_instructions lp, cfg_block_dim = bd,
      cfg_grid_dim = gd, cfg_warp_size = ws, max_steps = int k\<rparr> s = Inr t \<and>
    gmem t = gmem s' \<and> pmem t = pmem s' \<and> accesses t = accesses s'"
  using grid_lowered [OF assms(3) alloc_simulated [OF assms(5,4) straight_line_fits [OF assms(1)] scan_mapped [OF assms(2)]]
    assms(6-9)] .

lemma loop_clean: "clean_names loop_ptx \<and> written_at loop_ptx ''%r2'' = [1, 3] \<and> read_at loop_ptx ''%r2'' = [3, 4, 9]"
  by code_simp

theorem intervals_hold_uses_witness:
  "\<exists>b. map_of (merged_ranges (analyze_liveness loop_ptx) None) ''%r2'' = Some (1, b) \<and> 9 \<le> b"
  using intervals_hold_uses [of loop_ptx "''%r2''" None] loop_clean by auto

text \<open>Three values and an address in three registers.\<close>

definition line_ptx :: PTXProgram where
  "line_ptx = demo_ptx\<lparr>items :=
     [plain_inst ''mov.u32'' [''%r1'', ''%tid.x''],
      plain_inst ''add.u32'' [''%r2'', ''%r1'', ''6''],
      plain_inst ''mul.lo.u32'' [''%r3'', ''%r2'', ''3''],
      plain_inst ''ld.param.u64'' [''%rd1'', ''[A]''],
      plain_inst ''st.global.u32'' [''[%rd1]'', ''%r3''],
      plain_inst ''ret'' []]\<rparr>"

lemma line_straight: "straight_line line_ptx \<and> lowerable_program TRACK_B_V1 8 line_ptx"
  by code_simp

lemma line_allocated:
  "length (merged_ranges (analyze_liveness line_ptx) None) = 4 \<and>
   gpr_scan (analyze_liveness line_ptx) None = [(''%r1'', 1), (''%r2'', 2), (''%r3'', 1), (''%rd1'', 2)] \<and>
   (case lower_program line_ptx TRACK_B_V1 (gpr_scan (analyze_liveness line_ptx) None) of Inl _ \<Rightarrow> False
    | Inr lp \<Rightarrow> parameter_offsets lp = [(''A'', 0)])"
  by code_simp

lemma line_runs:
  "map_option gmem (ptx_grid \<lparr>env_host = demo_host, env_params = [(''A'', 0)]\<rparr> line_ptx 40 (2, 1, 1) (1, 1, 1) 1 loop_start) =
     Some [21, 0, 0, 0, 0, 0, 0, 0]"
  by code_simp

theorem straight_line_allocated_witness:
  "\<exists>lp N. lower_program line_ptx TRACK_B_V1 [(''%r1'', 1), (''%r2'', 2), (''%r3'', 1), (''%rd1'', 2)] = Inr lp \<and>
     (\<forall>k \<ge> N. \<exists>t. sim_run \<lparr>host = demo_host, instructions = lowered_instructions lp, cfg_block_dim = (2, 1, 1),
        cfg_grid_dim = (1, 1, 1), cfg_warp_size = 1, max_steps = int k\<rparr> loop_start = Inr t \<and>
        gmem t = [21, 0, 0, 0, 0, 0, 0, 0])"
proof -
  note map = line_allocated [THEN conjunct2, THEN conjunct1]
  obtain lp where lp: "lower_program line_ptx TRACK_B_V1 (gpr_scan (analyze_liveness line_ptx) None) = Inr lp"
    "parameter_offsets lp = [(''A'', 0)]"
    using line_allocated by (auto split: sum.splits)
  obtain s' where s': "ptx_grid \<lparr>env_host = demo_host, env_params = parameter_offsets lp\<rparr> line_ptx 40 (2, 1, 1) (1, 1, 1) 1
      loop_start = Some s'" "gmem s' = [21, 0, 0, 0, 0, 0, 0, 0]"
    using line_runs lp(2) by auto
  have "lowerable_program TRACK_B_V1 (length (pmem loop_start)) line_ptx"
    using line_straight by (simp add: loop_start_def new_sim_state_def)
  then have "\<exists>N. \<forall>k \<ge> N. \<exists>t. sim_run \<lparr>host = demo_host, instructions = lowered_instructions lp, cfg_block_dim = (2, 1, 1),
        cfg_grid_dim = (1, 1, 1), cfg_warp_size = 1, max_steps = int k\<rparr> loop_start = Inr t \<and>
      gmem t = gmem s' \<and> pmem t = pmem s' \<and> accesses t = accesses s'"
    using straight_line_allocated [OF _ _ lp(1) _ _ _ _ _ s'(1)] line_straight line_allocated by (simp add: single_lanes_def)
  then show ?thesis using lp(1) s'(2) unfolding map by metis
qed

end
