(* ===== verification/CSE_Proofs.thy ===== *)
theory CSE_Proofs
  imports Pass_Proofs
begin

text \<open>
  Common subexpression elimination. Inside a straight-line scope a register whose definition is
  dropped stands for the register that already holds the value; outside it is not read. The pass
  is right when no expression is repeated through a register it mentions itself and no dropped register
  is read in its scope above the definition, which \<open>cse_safe\<close> checks.
\<close>

subsection \<open>Operands\<close>

lemma reg_name_split: "reg_name_at s = Some (m, t) \<Longrightarrow> s = m @ t"
  by (auto simp: reg_name_at_def Let_def split: list.splits dest!: filter_eq_ConsD)
    (metis append_take_drop_id starts_with_iff append_eq_conv_conj takeWhile_dropWhile_id)

lemma substitute_name: "is_register_name op \<Longrightarrow> substitute_references f op = f op"
  by (auto simp: is_register_name_def split: list.splits option.splits dest: reg_name_split)

lemma substitute_none: "register_references op = [] \<Longrightarrow> substitute_references f op = op"
  by (induction f op rule: substitute_references.induct) (auto split: option.splits if_splits prod.splits)

lemma substitute_same: "(\<And>m. f m = m) \<Longrightarrow> substitute_references f op = op"
proof (induction f op rule: substitute_references.induct)
  case (2 f c cs)
  show ?case
  proof (cases "if c = CHR ''%'' then reg_name_at cs else None")
    case (Some mt)
    then obtain m t where "mt = (m, t)" "cs = m @ t" using reg_name_split by (cases mt) (auto split: if_splits)
    then show ?thesis using 2 Some by auto
  qed (use 2 in auto)
qed simp

definition plain_operand :: "string \<Rightarrow> bool" where
  "plain_operand op \<longleftrightarrow> py_strip op = op \<and> (is_register_name op \<or> register_references op = [])"

lemma cse_special_names: "list_all (\<lambda>k. \<not> is_register_name k) (map fst (special_registers TRACK_B_V1))"
  by code_simp

lemma not_special: "is_register_name w \<Longrightarrow> map_of (special_registers TRACK_B_V1) w = None"
  using cse_special_names by (auto simp: list_all_iff map_of_eq_None_iff)

lemma operand_rewritten:
  assumes "plain_operand op" "vlane \<tau> = vlane \<sigma>"
    and "is_register_name op \<Longrightarrow> is_register_name (f op) \<and> py_strip (f op) = f op \<and> vregs \<tau> (f op) = vregs \<sigma> op"
  shows "operand_value \<tau> (substitute_references f op) = operand_value \<sigma> op"
    "mov_value \<tau> (substitute_references f op) = mov_value \<sigma> op"
    "py_strip (substitute_references f op) = substitute_references f op"
  using assms substitute_name [of op f] substitute_none [of op f] not_special [of op] not_special [of "f op"]
  by (cases "is_register_name op";
      simp add: plain_operand_def operand_value_def mov_value_def Let_def split: option.split)+

subsection \<open>Values\<close>

text \<open>The value a pure instruction computes from its source operands.\<close>

definition pure_value :: "ptx_env \<Rightarrow> string \<Rightarrow> string list \<Rightarrow> pstate \<Rightarrow> int option" where
  "pure_value E opc srcs \<sigma> =
     (let parts = opcode_parts opc; base = hd parts in
      if base = ''mov'' then
        (case (parts, srcs) of ([_, _], [a]) \<Rightarrow> mov_value \<sigma> a | _ \<Rightarrow> None)
      else if base \<in> {''add'', ''sub'', ''mul'', ''mad'', ''fma'', ''and'', ''or'', ''xor'', ''shl'', ''shr''} then
        (if plain_modifiers (butlast (tl parts)) \<and> tl parts \<noteq> []
         then Option.bind (operand_values \<sigma> srcs) (alu_value (env_host E) base (last parts)) else None)
      else None)"

lemma pure_effect_value:
  assumes "pure_result_base (opcode_base (inst_opcode i))" "operands i = d # srcs"
  shows "inst_effect E i \<sigma> = set_dest d (vmem \<sigma>) (pure_value E (inst_opcode i) srcs \<sigma>)"
proof -
  have none: "set_dest d s None = None" for s by (simp add: set_dest_def)
  let ?b = "opcode_base (inst_opcode i)"
  consider "?b = ''mov''" | "?b = ''cvt''"
    | "?b \<in> {''add'', ''sub'', ''mul'', ''mad'', ''fma'', ''and'', ''or'', ''xor'', ''shl'', ''shr''}"
    using pure_bases [OF assms(1)] by blast
  then show ?thesis
  proof cases
    case 1
    then show ?thesis by (simp add: inst_effect_def pure_value_def opcode_base_hd assms(2) none split: list.split)
  next
    case 2
    then show ?thesis by (simp add: inst_effect_def pure_value_def opcode_base_hd none)
  next
    case 3
    then have "inst_effect E i \<sigma> = (if plain_modifiers (butlast (tl (opcode_parts (inst_opcode i)))) \<and>
        tl (opcode_parts (inst_opcode i)) \<noteq> []
      then set_dest d (vmem \<sigma>) (Option.bind (operand_values \<sigma> srcs) (alu_value (env_host E) ?b (last (opcode_parts (inst_opcode i)))))
      else None)"
      unfolding inst_effect_def Let_def opcode_base_hd assms(2) by auto
    moreover have "pure_value E (inst_opcode i) srcs \<sigma> = (if plain_modifiers (butlast (tl (opcode_parts (inst_opcode i)))) \<and>
        tl (opcode_parts (inst_opcode i)) \<noteq> []
      then Option.bind (operand_values \<sigma> srcs) (alu_value (env_host E) ?b (last (opcode_parts (inst_opcode i))))
      else None)"
      using 3 unfolding pure_value_def Let_def opcode_base_hd by auto
    ultimately show ?thesis by (simp add: none)
  qed
qed

lemma pure_value_cong:
  assumes "\<And>op. op \<in> set srcs \<Longrightarrow> operand_value \<tau> (g op) = operand_value \<sigma> op \<and> mov_value \<tau> (g op) = mov_value \<sigma> op"
  shows "pure_value E opc (map g srcs) \<tau> = pure_value E opc srcs \<sigma>"
proof -
  have "operand_values \<tau> (map g srcs) = operand_values \<sigma> srcs"
    unfolding operand_values_def map_map comp_def using assms by (intro arg_cong [of _ _ those] map_cong) auto
  then show ?thesis using assms unfolding pure_value_def Let_def by (auto split: list.split)
qed

subsection \<open>One instruction of a scope\<close>

text \<open>The register a dropped instruction's destination stands for; \<open>None\<close> when it is kept.\<close>

definition cse_target :: "(string \<Rightarrow> bool) \<Rightarrow> PTXInstruction list \<Rightarrow> PTXInstruction \<Rightarrow> cse_state \<Rightarrow> string option" where
  "cse_target outside future i st =
     (let r = rewrite_sources i (cse_aliases st) in
      case (cse_expression_key r, destination_register r) of
        (Some key, Some d) \<Rightarrow>
          (case invalidate_for_definition d (expression_destinations st, cse_aliases st) of (exprs, al) \<Rightarrow>
             if outside d then None
             else case map_of exprs key of None \<Rightarrow> None
               | Some prior \<Rightarrow> if alias_read_after_redefinition False d (resolve_alias prior al) future then None
                   else Some (resolve_alias prior al))
      | _ \<Rightarrow> None)"

definition scope_inst :: "PTXInstruction \<Rightarrow> string \<Rightarrow> string list \<Rightarrow> bool" where
  "scope_inst i d0 srcs \<longleftrightarrow> operands i = d0 # srcs \<and> guard i = None \<and> pure_result_base (opcode_base (inst_opcode i)) \<and>
     is_register_name (py_strip d0) \<and>
     (\<forall>al. rewrite_sources i al = i\<lparr>operands := d0 # map (rewrite_operand al) srcs\<rparr> \<and>
       cse_expression_key (rewrite_sources i al) = Some (inst_opcode i, map (py_strip \<circ> rewrite_operand al) srcs) \<and>
       destination_register (rewrite_sources i al) = Some (py_strip d0))"

lemma resolve_none: "map_of al v = None \<Longrightarrow> resolve_alias v al = v"
  by (simp add: resolve_alias_def resolve_alias_from.simps)

lemma resolve_one: "map_of al v = Some t \<Longrightarrow> map_of al t = None \<Longrightarrow> resolve_alias v al = t"
  by (simp add: resolve_alias_def resolve_alias_from.simps [of al "[]"] resolve_alias_from.simps [of al "[v]"])

lemma rewrite_nothing: "rewrite_operand [] op = op"
  unfolding rewrite_operand_def by (rule substitute_same) (simp add: resolve_none)

lemma boundary_scope_inst:
  assumes "\<not> is_cse_scope_boundary i"
  shows "\<exists>d0 srcs. scope_inst i d0 srcs"
proof -
  have pure: "guard i = None" "pure_result_base (opcode_base (inst_opcode i))" "cse_expression_key i \<noteq> None"
    using assms by (auto simp: is_cse_scope_boundary_def Let_def opcode_base_hd split: if_splits)
  then obtain d0 srcs n where i: "operands i = d0 # srcs" "is_register_name (py_strip d0)" "\<not> starts_with (py_strip d0) ''%p''"
    "map_of PURE_RESULT_OPERAND_COUNTS (opcode_base (inst_opcode i)) = Some n" "Suc (length srcs) = n"
    "\<not> has_side_modifier (opcode_parts (inst_opcode i))"
    by (cases "operands i") (auto simp: cse_expression_key_def Let_def opcode_base_hd split: if_splits option.splits)
  have dest: "destination_base (opcode_base (inst_opcode i))" using pure(2) by (simp add: destination_base_def)
  have "rewrite_sources i al = i\<lparr>operands := d0 # map (rewrite_operand al) srcs\<rparr>" for al
  proof (cases "al = []")
    case True
    then have "rewrite_sources i al = i" "map (rewrite_operand al) srcs = srcs"
      by (simp_all add: rewrite_sources_def rewrite_nothing map_idI)
    then show ?thesis using i(1) by simp
  next
    case False
    then show ?thesis using i(1) dest by (simp add: rewrite_sources_def)
  qed
  then have "scope_inst i d0 srcs"
    using i pure dest by (simp add: scope_inst_def cse_expression_key_def Let_def opcode_base_hd destination_register_def)
  then show ?thesis by blast
qed

lemma scope_instD:
  assumes "scope_inst i d0 srcs"
  shows "destination_register i = Some (py_strip d0)"
    "instruction_read_registers i = remdups (concat (map register_references srcs))"
proof -
  have dest: "destination_base (opcode_base (inst_opcode i))" using assms by (simp add: scope_inst_def destination_base_def)
  then show "destination_register i = Some (py_strip d0)"
    using assms unfolding scope_inst_def destination_register_def by simp
  show "instruction_read_registers i = remdups (concat (map register_references srcs))"
    using assms dest by (simp add: scope_inst_def instruction_read_registers_def source_operands_def)
qed

lemma scope_inst_rewritten:
  assumes "scope_inst i d0 srcs"
  shows "rewrite_sources i al = i\<lparr>operands := d0 # map (rewrite_operand al) srcs\<rparr>"
    "cse_expression_key (rewrite_sources i al) = Some (inst_opcode i, map (py_strip \<circ> rewrite_operand al) srcs)"
    "destination_register (rewrite_sources i al) = Some (py_strip d0)"
  using assms unfolding scope_inst_def by blast+

text \<open>The state behind an instruction, whether it is dropped or kept.\<close>

definition live_exprs :: "string \<Rightarrow> cse_state \<Rightarrow> (expression \<times> string) list" where
  "live_exprs d st = filter (\<lambda>(key, v). \<not> (v = d \<or> expression_uses_register key d)) (expression_destinations st)"

lemma cse_step_dropped:
  assumes "scope_inst i d0 srcs" "cse_target outside future i st = Some t"
  defines "d \<equiv> py_strip d0"
  shows "expression_destinations (cse_instruction outside future i st) = live_exprs d st"
    "cse_aliases (cse_instruction outside future i st) = AList.update d t (AList.delete d (cse_aliases st))"
    "cse_optimized (cse_instruction outside future i st) = cse_optimized st"
    "cse_replacements (cse_instruction outside future i st) = AList.update d t (cse_replacements st)"
    "\<exists>prior. map_of (live_exprs d st) (inst_opcode i, map (py_strip \<circ> rewrite_operand (cse_aliases st)) srcs) = Some prior \<and>
       t = resolve_alias prior (AList.delete d (cse_aliases st))"
    "\<not> outside d" "\<not> alias_read_after_redefinition False d t future"
  using assms(2) unfolding cse_target_def cse_instruction_def Let_def scope_inst_rewritten(2,3) [OF assms(1)]
    invalidate_for_definition_def d_def
  by (auto simp: live_exprs_def split: if_splits option.splits)

lemma cse_step_kept:
  assumes "scope_inst i d0 srcs" "cse_target outside future i st = None"
  defines "d \<equiv> py_strip d0" and "key \<equiv> (inst_opcode i, map (py_strip \<circ> rewrite_operand (cse_aliases st)) srcs)"
  shows "expression_destinations (cse_instruction outside future i st) \<in> {live_exprs d st, AList.update key d (live_exprs d st)}"
    "cse_aliases (cse_instruction outside future i st) = AList.delete d (cse_aliases st)"
    "cse_optimized (cse_instruction outside future i st) = cse_optimized st @ [rewrite_sources i (cse_aliases st)]"
    "cse_replacements (cse_instruction outside future i st) = cse_replacements st"
  using assms(2) unfolding cse_target_def cse_instruction_def Let_def scope_inst_rewritten(2,3) [OF assms(1)]
    invalidate_for_definition_def d_def key_def
  by (auto simp: live_exprs_def split: if_splits option.splits)

subsection \<open>What is known inside a scope\<close>

fun read_before_def :: "string \<Rightarrow> PTXInstruction list \<Rightarrow> bool" where
  "read_before_def v [] = False"
| "read_before_def v (i # is) =
     (if v \<in> set (instruction_read_registers i) then True
      else destination_register i \<noteq> Some v \<and> read_before_def v is)"

text \<open>
  The names that may have different values in the two runs: dropped ones that are not defined yet,
  and those whose substitute has been overwritten.
\<close>

definition next_bad :: "string \<Rightarrow> string set \<Rightarrow> cse_state \<Rightarrow> string set" where
  "next_bad d B st = {v. v \<noteq> d \<and> (v \<in> B \<or> map_of (cse_aliases st) v = Some d)}"

definition name_token :: "string \<Rightarrow> bool" where
  "name_token r \<longleftrightarrow> is_register_name r \<and> py_strip r = r"

definition scope_inv :: "string set \<Rightarrow> PTXInstruction list \<Rightarrow> cse_state \<Rightarrow> string set \<Rightarrow> bool" where
  "scope_inv D is st B \<longleftrightarrow>
     (\<forall>v \<in> B. \<not> read_before_def v is) \<and>
     (\<forall>v t. map_of (cse_aliases st) v = Some t \<longrightarrow> v \<notin> B \<longrightarrow>
        \<not> alias_read_after_redefinition False v t is \<and> map_of (cse_aliases st) t = None \<and> name_token t) \<and>
     (\<forall>(key, r) \<in> set (expression_destinations st). map_of (cse_aliases st) r = None \<and> name_token r) \<and>
     B \<subseteq> D \<and> (\<forall>v. map_of (cse_aliases st) v \<noteq> None \<longrightarrow> v \<in> D)"

lemma scope_invD:
  assumes "scope_inv D is st B"
  shows "v \<in> B \<Longrightarrow> \<not> read_before_def v is" "v \<in> B \<Longrightarrow> v \<in> D"
    "map_of (cse_aliases st) v = Some t \<Longrightarrow> v \<notin> B \<Longrightarrow> \<not> alias_read_after_redefinition False v t is"
    "map_of (cse_aliases st) v = Some t \<Longrightarrow> v \<notin> B \<Longrightarrow> map_of (cse_aliases st) t = None \<and> name_token t"
    "(key, r) \<in> set (expression_destinations st) \<Longrightarrow> map_of (cse_aliases st) r = None \<and> name_token r"
    "map_of (cse_aliases st) v \<noteq> None \<Longrightarrow> v \<in> D"
  using assms unfolding scope_inv_def by fast+

lemma live_exprs_mem: "(key, r) \<in> set (live_exprs d st) \<Longrightarrow>
    (key, r) \<in> set (expression_destinations st) \<and> r \<noteq> d \<and> \<not> expression_uses_register key d"
  by (auto simp: live_exprs_def)

lemma live_tokens:
  "scope_inv D is st B \<Longrightarrow> (key, r) \<in> set (live_exprs d st) \<Longrightarrow> map_of (cse_aliases st) r = None \<and> name_token r \<and> r \<noteq> d"
  using live_exprs_mem scope_invD(5) by metis

lemma no_reads_after: "\<not> alias_read_after_redefinition True v t is \<Longrightarrow> \<not> read_before_def v is"
  by (induction "is") auto

lemma bad_not_read:
  assumes "scope_inv D (i # is) st B" "scope_inst i d0 srcs" "v \<in> next_bad (py_strip d0) B st"
  shows "\<not> read_before_def v is"
proof (cases "v \<in> B")
  case True
  then show ?thesis
    using scope_invD(1) [OF assms(1) True] scope_instD(1) [OF assms(2)] assms(3)
    by (auto simp: next_bad_def split: if_splits)
next
  case False
  then have "map_of (cse_aliases st) v = Some (py_strip d0)" using assms(3) by (simp add: next_bad_def)
  then have "\<not> alias_read_after_redefinition True v (py_strip d0) is"
    using scope_invD(3) [OF assms(1) _ False] scope_instD(1) [OF assms(2)] by (auto split: if_splits)
  then show ?thesis by (rule no_reads_after)
qed

lemma alias_stays:
  assumes "scope_inv D (i # is) st B" "scope_inst i d0 srcs" "map_of (cse_aliases st) v = Some t"
    and "v \<noteq> py_strip d0" "v \<notin> next_bad (py_strip d0) B st"
  shows "v \<notin> B" "t \<noteq> py_strip d0" "\<not> alias_read_after_redefinition False v t is"
proof -
  show v: "v \<notin> B" "t \<noteq> py_strip d0" using assms(3-5) by (auto simp: next_bad_def)
  show "\<not> alias_read_after_redefinition False v t is"
    using scope_invD(3) [OF assms(1,3) v(1)] scope_instD(1) [OF assms(2)] v(2) by (auto simp: Let_def split: if_splits)
qed

lemma scope_invI:
  assumes "\<And>v. v \<in> B \<Longrightarrow> \<not> read_before_def v is \<and> v \<in> D"
    and "\<And>v t. map_of (cse_aliases st) v = Some t \<Longrightarrow> v \<in> D"
    and "\<And>v t. map_of (cse_aliases st) v = Some t \<Longrightarrow> v \<notin> B \<Longrightarrow>
      \<not> alias_read_after_redefinition False v t is \<and> map_of (cse_aliases st) t = None \<and> name_token t"
    and "\<And>key r. (key, r) \<in> set (expression_destinations st) \<Longrightarrow> map_of (cse_aliases st) r = None \<and> name_token r"
  shows "scope_inv D is st B"
  unfolding scope_inv_def
proof (intro conjI ballI allI impI subsetI)
  fix x
  assume "x \<in> set (expression_destinations st)"
  then show "case x of (key, r) \<Rightarrow> map_of (cse_aliases st) r = None \<and> name_token r"
    using assms(4) [of "fst x" "snd x"] by (simp add: case_prod_unfold)
qed (use assms(1-3) in blast)+

lemma next_bad_in:
  assumes "scope_inv D (i # is) st B" "v \<in> next_bad d B st"
  shows "v \<in> D"
  using assms(2) scope_invD(2,6) [OF assms(1), of v] by (auto simp: next_bad_def)

lemma scope_inv_kept:
  assumes inv: "scope_inv D (i # is) st B" and i: "scope_inst i d0 srcs" and kept: "cse_target outside is i st = None"
  shows "scope_inv D is (cse_instruction outside is i st) (next_bad (py_strip d0) B st)"
proof (rule scope_invI)
  let ?d = "py_strip d0" and ?st = "cse_instruction outside is i st"
  note k = cse_step_kept [OF i kept]
  have al: "map_of (cse_aliases ?st) v = (if v = ?d then None else map_of (cse_aliases st) v)" for v
    by (simp add: k(2) delete_conv')
  have d: "name_token ?d" using i by (simp add: scope_inst_def name_token_def)
  fix key r
  assume r: "(key, r) \<in> set (expression_destinations ?st)"
  from k(1) r consider "(key, r) \<in> set (live_exprs ?d st)" | "r = ?d"
    by (elim insertE emptyE) (auto dest: update_mem)
  then show "map_of (cse_aliases ?st) r = None \<and> name_token r"
    using live_tokens [OF inv, of key r ?d] d by cases (simp_all add: al)
next
  fix v
  show "v \<in> next_bad (py_strip d0) B st \<Longrightarrow> \<not> read_before_def v is \<and> v \<in> D"
    using bad_not_read [OF inv i] next_bad_in [OF inv] by blast
next
  fix v t
  let ?d = "py_strip d0"
  assume t: "map_of (cse_aliases (cse_instruction outside is i st)) v = Some t"
  then have vt: "v \<noteq> ?d" "map_of (cse_aliases st) v = Some t"
    by (auto simp: cse_step_kept(2) [OF i kept] delete_conv' split: if_splits)
  then show "v \<in> D" using scope_invD(6) [OF inv] by simp
  assume "v \<notin> next_bad ?d B st"
  note a = alias_stays [OF inv i vt(2,1) this]
  then show "\<not> alias_read_after_redefinition False v t is \<and>
      map_of (cse_aliases (cse_instruction outside is i st)) t = None \<and> name_token t"
    using scope_invD(4) [OF inv vt(2)] by (simp add: cse_step_kept(2) [OF i kept] delete_conv')
qed

lemma dropped_prior:
  assumes inv: "scope_inv D (i # is) st B" and i: "scope_inst i d0 srcs" and drop: "cse_target outside is i st = Some t"
  shows "map_of (live_exprs (py_strip d0) st) (inst_opcode i, map (py_strip \<circ> rewrite_operand (cse_aliases st)) srcs) = Some t"
    "map_of (cse_aliases st) t = None" "name_token t" "t \<noteq> py_strip d0"
proof -
  let ?d = "py_strip d0" and ?key = "(inst_opcode i, map (py_strip \<circ> rewrite_operand (cse_aliases st)) srcs)"
  obtain prior where p: "map_of (live_exprs ?d st) ?key = Some prior" "t = resolve_alias prior (AList.delete ?d (cse_aliases st))"
    using cse_step_dropped(5) [OF i drop] by blast
  note l = live_tokens [OF inv map_of_SomeD [OF p(1)]]
  then have "t = prior" using p(2) resolve_none by (simp add: delete_conv')
  then show "map_of (live_exprs ?d st) ?key = Some t" "map_of (cse_aliases st) t = None" "name_token t" "t \<noteq> ?d"
    using p(1) l by simp_all
qed

lemma scope_inv_dropped:
  assumes inv: "scope_inv D (i # is) st B" and i: "scope_inst i d0 srcs" and drop: "cse_target outside is i st = Some t"
    and D: "py_strip d0 \<in> D"
  shows "scope_inv D is (cse_instruction outside is i st) (next_bad (py_strip d0) B st)"
proof (rule scope_invI)
  let ?d = "py_strip d0" and ?st = "cse_instruction outside is i st"
  note k = cse_step_dropped [OF i drop]
  have al: "map_of (cse_aliases ?st) v = (if v = ?d then Some t else map_of (cse_aliases st) v)" for v
    by (simp add: k(2) update_conv' delete_conv')
  {
    fix key r
    assume "(key, r) \<in> set (expression_destinations ?st)"
    then show "map_of (cse_aliases ?st) r = None \<and> name_token r"
      using live_tokens [OF inv, of key r ?d] by (simp add: k(1) al)
  next
    fix v
    show "v \<in> next_bad ?d B st \<Longrightarrow> \<not> read_before_def v is \<and> v \<in> D"
      using bad_not_read [OF inv i] next_bad_in [OF inv] by blast
  next
    fix v t'
    assume t': "map_of (cse_aliases ?st) v = Some t'"
    then show "v \<in> D" using scope_invD(6) [OF inv, of v] D by (auto simp: al split: if_splits)
    assume v: "v \<notin> next_bad ?d B st"
    show "\<not> alias_read_after_redefinition False v t' is \<and> map_of (cse_aliases ?st) t' = None \<and> name_token t'"
    proof (cases "v = ?d")
      case True
      then show ?thesis using t' k(7) dropped_prior [OF inv i drop] by (simp add: al)
    next
      case False
      then have vt: "map_of (cse_aliases st) v = Some t'" using t' by (simp add: al)
      show ?thesis using alias_stays [OF inv i vt False v] scope_invD(4) [OF inv vt] by (simp add: al)
    qed
  }
qed

subsection \<open>The two runs inside a scope\<close>

definition alias_of :: "cse_state \<Rightarrow> string \<Rightarrow> string" where
  "alias_of st v = (case map_of (cse_aliases st) v of None \<Rightarrow> v | Some t \<Rightarrow> t)"

definition scope_rel :: "ptx_env \<Rightarrow> cse_state \<Rightarrow> string set \<Rightarrow> pstate \<Rightarrow> pstate \<Rightarrow> bool" where
  "scope_rel E st B \<sigma> \<tau> \<longleftrightarrow> vmem \<tau> = vmem \<sigma> \<and> vpreds \<tau> = vpreds \<sigma> \<and> vlane \<tau> = vlane \<sigma> \<and>
     (\<forall>v. v \<notin> B \<longrightarrow> vregs \<tau> (alias_of st v) = vregs \<sigma> v) \<and>
     (\<forall>key r. (key, r) \<in> set (expression_destinations st) \<longrightarrow> \<not> expression_uses_register key r \<longrightarrow>
        pure_value E (fst key) (snd key) \<tau> = Some (vregs \<tau> r))"

lemma name_references: "is_register_name op \<Longrightarrow> py_strip op = op \<Longrightarrow> op \<in> set (register_references op)"
  using strip_in_references [of op] by simp

lemma source_rewritten:
  assumes rel: "scope_rel E st B \<sigma> \<tau>" and inv: "scope_inv D (i # is) st B" and i: "scope_inst i d0 srcs"
    and op: "op \<in> set srcs" "plain_operand op"
  shows "operand_value \<tau> (rewrite_operand (cse_aliases st) op) = operand_value \<sigma> op"
    "mov_value \<tau> (rewrite_operand (cse_aliases st) op) = mov_value \<sigma> op"
    "py_strip (rewrite_operand (cse_aliases st) op) = rewrite_operand (cse_aliases st) op"
proof -
  let ?f = "\<lambda>m. resolve_alias m (cse_aliases st)"
  have f: "is_register_name (?f op) \<and> py_strip (?f op) = ?f op \<and> vregs \<tau> (?f op) = vregs \<sigma> op" if r: "is_register_name op"
  proof -
    have s: "py_strip op = op" using op(2) by (simp add: plain_operand_def)
    have "op \<in> set (instruction_read_registers i)"
      using scope_instD(2) [OF i] op(1) name_references [OF r s] by auto
    then have B: "op \<notin> B" using scope_invD(1) [OF inv, of op] by auto
    have a: "?f op = alias_of st op" "name_token (?f op)"
      using scope_invD(4) [OF inv _ B] r s
      by (cases "map_of (cse_aliases st) op"; force simp: alias_of_def resolve_none resolve_one name_token_def)+
    then show ?thesis using rel B by (simp add: scope_rel_def name_token_def)
  qed
  have lane: "vlane \<tau> = vlane \<sigma>" using rel by (simp add: scope_rel_def)
  show "operand_value \<tau> (rewrite_operand (cse_aliases st) op) = operand_value \<sigma> op"
    "mov_value \<tau> (rewrite_operand (cse_aliases st) op) = mov_value \<sigma> op"
    "py_strip (rewrite_operand (cse_aliases st) op) = rewrite_operand (cse_aliases st) op"
    unfolding rewrite_operand_def using operand_rewritten [where f = ?f, OF op(2) lane f] by blast+
qed

lemma value_rewritten:
  assumes rel: "scope_rel E st B \<sigma> \<tau>" and inv: "scope_inv D (i # is) st B" and i: "scope_inst i d0 srcs"
    and plain: "list_all plain_operand srcs"
  shows "pure_value E opc (map (rewrite_operand (cse_aliases st)) srcs) \<tau> = pure_value E opc srcs \<sigma>"
    "map (py_strip \<circ> rewrite_operand (cse_aliases st)) srcs = map (rewrite_operand (cse_aliases st)) srcs"
  using source_rewritten [OF rel inv i] plain
  by (auto simp: list_all_iff intro: pure_value_cong)

text \<open>Writing a register an expression does not name does not change its value.\<close>

lemma pure_value_frame:
  assumes "\<not> expression_uses_register (opc, srcs) d"
  shows "pure_value E opc srcs (set_reg_v \<tau> d x s) = pure_value E opc srcs \<tau>"
proof -
  have "operand_value (set_reg_v \<tau> d x s) op = operand_value \<tau> op \<and> mov_value (set_reg_v \<tau> d x s) op = mov_value \<tau> op"
    if "op \<in> set srcs" for op
  proof -
    have "py_strip op \<noteq> d" if "is_register_name (py_strip op)"
      using strip_in_references [OF that] assms \<open>op \<in> set srcs\<close> by (auto simp: expression_uses_register_def list_ex_iff)
    then show ?thesis by (auto simp: operand_value_def mov_value_def set_reg_v_def Let_def split: option.split)
  qed
  from pure_value_cong [of srcs "set_reg_v \<tau> d x s" "\<lambda>op. op", OF this] show ?thesis by simp
qed

text \<open>
  What is asked at an instruction: plain operands, and, when it is dropped, that the expression it
  repeats does not mention the register that is taken for its value.
\<close>

definition step_checked :: "(string \<Rightarrow> bool) \<Rightarrow> PTXInstruction list \<Rightarrow> PTXInstruction \<Rightarrow> cse_state \<Rightarrow> bool" where
  "step_checked outside future i st \<longleftrightarrow> list_all plain_operand (tl (operands i)) \<and>
     (case (cse_expression_key (rewrite_sources i (cse_aliases st)), cse_target outside future i st) of
        (Some key, Some t) \<Rightarrow> \<not> expression_uses_register key t
      | _ \<Rightarrow> True)"

lemma step_checkedD:
  assumes "step_checked outside future i st" "scope_inst i d0 srcs"
  shows "list_all plain_operand srcs"
    "cse_target outside future i st = Some t \<Longrightarrow>
     \<not> expression_uses_register (inst_opcode i, map (py_strip \<circ> rewrite_operand (cse_aliases st)) srcs) t"
  using assms unfolding step_checked_def scope_inst_rewritten(2) [OF assms(2)]
  by (simp_all add: scope_inst_def)

lemma scope_effect:
  assumes "scope_inst i d0 srcs" "step_effect E i \<sigma> = Some e"
  shows "\<exists>x. pure_value E (inst_opcode i) srcs \<sigma> = Some x \<and> e = SetReg (py_strip d0) x (vmem \<sigma>)"
proof -
  have "inst_effect E i \<sigma> = set_dest d0 (vmem \<sigma>) (pure_value E (inst_opcode i) srcs \<sigma>)"
    using assms(1) by (intro pure_effect_value) (simp_all add: scope_inst_def)
  then show ?thesis using assms by (auto simp: step_effect_def guard_holds_def scope_inst_def set_dest_def register_dest_def Let_def)
qed

lemma rewritten_effect:
  assumes "scope_inst i d0 srcs" "pure_value E (inst_opcode i) (map (rewrite_operand al) srcs) \<tau> = Some x"
  shows "step_effect E (rewrite_sources i al) \<tau> = Some (SetReg (py_strip d0) x (vmem \<tau>))"
proof -
  let ?j = "i\<lparr>operands := d0 # map (rewrite_operand al) srcs\<rparr>"
  have i: "guard i = None" "pure_result_base (opcode_base (inst_opcode i))" "is_register_name (py_strip d0)"
    using assms(1) by (simp_all add: scope_inst_def)
  have "inst_effect E ?j \<tau> = set_dest d0 (vmem \<tau>) (pure_value E (inst_opcode ?j) (map (rewrite_operand al) srcs) \<tau>)"
    using i(2) by (intro pure_effect_value) simp_all
  then have "inst_effect E ?j \<tau> = Some (SetReg (py_strip d0) x (vmem \<tau>))"
    using assms(2) i(3) by (simp add: set_dest_def register_dest_def)
  then show ?thesis using i(1) by (simp add: scope_inst_rewritten(1) [OF assms(1)] step_effect_def guard_holds_def)
qed

lemma live_values:
  assumes "scope_rel E st B \<sigma> \<tau>" "(key, r) \<in> set (live_exprs d st)" "\<not> expression_uses_register key r"
  shows "pure_value E (fst key) (snd key) \<tau> = Some (vregs \<tau> r)"
    "pure_value E (fst key) (snd key) (set_reg_v \<tau> d x s) = Some (vregs (set_reg_v \<tau> d x s) r)"
proof -
  note m = live_exprs_mem [OF assms(2)]
  then show v: "pure_value E (fst key) (snd key) \<tau> = Some (vregs \<tau> r)" using assms(1,3) by (simp add: scope_rel_def)
  show "pure_value E (fst key) (snd key) (set_reg_v \<tau> d x s) = Some (vregs (set_reg_v \<tau> d x s) r)"
    using pure_value_frame [of "fst key" "snd key" d] m v by (simp add: set_reg_v_def)
qed

lemma scope_rel_kept:
  assumes rel: "scope_rel E st B \<sigma> \<tau>" and inv: "scope_inv D (i # is) st B" and i: "scope_inst i d0 srcs"
    and ok: "step_checked outside is i st" and kept: "cse_target outside is i st = None"
    and eff: "step_effect E i \<sigma> = Some e"
  shows "\<exists>e'. step_effect E (rewrite_sources i (cse_aliases st)) \<tau> = Some e' \<and> \<not> is_flow e' \<and>
    scope_rel E (cse_instruction outside is i st) (next_bad (py_strip d0) B st) (next_state e \<sigma>) (next_state e' \<tau>)"
proof -
  let ?d = "py_strip d0" and ?st = "cse_instruction outside is i st" and ?al = "cse_aliases st"
  note plain = step_checkedD [OF ok i] and k = cse_step_kept [OF i kept]
  obtain x where x: "pure_value E (inst_opcode i) srcs \<sigma> = Some x" "e = SetReg ?d x (vmem \<sigma>)"
    using scope_effect [OF i eff] by blast
  have xt: "pure_value E (inst_opcode i) (map (rewrite_operand ?al) srcs) \<tau> = Some x"
    using value_rewritten(1) [OF rel inv i plain(1)] x(1) by simp
  let ?\<sigma> = "set_reg_v \<sigma> ?d x (vmem \<sigma>)" and ?\<tau> = "set_reg_v \<tau> ?d x (vmem \<tau>)"
  have same: "vmem \<tau> = vmem \<sigma>" "vpreds \<tau> = vpreds \<sigma>" "vlane \<tau> = vlane \<sigma>" using rel by (simp_all add: scope_rel_def)
  have regs: "vregs ?\<tau> (alias_of ?st v) = vregs ?\<sigma> v" if v: "v \<notin> next_bad ?d B st" for v
  proof (cases "v = ?d")
    case True
    then show ?thesis by (simp add: alias_of_def k(2) delete_conv' set_reg_v_def)
  next
    case False
    then have "v \<notin> B" "alias_of st v \<noteq> ?d" "alias_of ?st v = alias_of st v"
      using v by (auto simp: next_bad_def alias_of_def k(2) delete_conv' split: option.split)
    then show ?thesis using rel False by (simp add: scope_rel_def set_reg_v_def)
  qed
  have exprs: "pure_value E (fst key) (snd key) ?\<tau> = Some (vregs ?\<tau> r)"
    if r: "(key, r) \<in> set (expression_destinations ?st)" "\<not> expression_uses_register key r" for key r
  proof -
    from k(1) r(1) consider "(key, r) \<in> set (live_exprs ?d st)"
      | "key = (inst_opcode i, map (py_strip \<circ> rewrite_operand ?al) srcs)" "r = ?d"
      by (elim insertE emptyE) (auto dest: update_mem)
    then show ?thesis
    proof cases
      case 1
      then show ?thesis using r(2) by (rule live_values(2) [OF rel])
    next
      case 2
      have "vregs ?\<tau> ?d = x" by (simp add: set_reg_v_def)
      then show ?thesis
        using pure_value_frame [OF r(2) [unfolded 2], of E \<tau> x "vmem \<tau>"] xt
        unfolding 2 fst_conv snd_conv value_rewritten(2) [OF rel inv i plain(1)] by simp
    qed
  qed
  show ?thesis
    using rewritten_effect [OF i xt] regs exprs same x(2)
    by (intro exI [of _ "SetReg ?d x (vmem \<tau>)"]) (simp add: is_flow_def scope_rel_def set_reg_v_def)
qed

lemma scope_rel_dropped:
  assumes rel: "scope_rel E st B \<sigma> \<tau>" and inv: "scope_inv D (i # is) st B" and i: "scope_inst i d0 srcs"
    and ok: "step_checked outside is i st" and drop: "cse_target outside is i st = Some t"
    and eff: "step_effect E i \<sigma> = Some e"
  shows "\<not> is_flow e \<and> scope_rel E (cse_instruction outside is i st) (next_bad (py_strip d0) B st) (next_state e \<sigma>) \<tau>"
proof -
  let ?d = "py_strip d0" and ?st = "cse_instruction outside is i st" and ?al = "cse_aliases st"
  note plain = step_checkedD [OF ok i] and k = cse_step_dropped [OF i drop]
  obtain x where x: "pure_value E (inst_opcode i) srcs \<sigma> = Some x" "e = SetReg ?d x (vmem \<sigma>)"
    using scope_effect [OF i eff] by blast
  have "pure_value E (inst_opcode i) (map (rewrite_operand ?al) srcs) \<tau> = Some (vregs \<tau> t)"
    using live_values(1) [OF rel map_of_SomeD [OF dropped_prior(1) [OF inv i drop]] plain(2) [OF drop]]
      value_rewritten(2) [OF rel inv i plain(1)] by simp
  then have t: "vregs \<tau> t = x" using value_rewritten(1) [OF rel inv i plain(1)] x(1) by simp
  let ?\<sigma> = "set_reg_v \<sigma> ?d x (vmem \<sigma>)"
  have regs: "vregs \<tau> (alias_of ?st v) = vregs ?\<sigma> v" if v: "v \<notin> next_bad ?d B st" for v
  proof (cases "v = ?d")
    case True
    then show ?thesis using t by (simp add: alias_of_def k(2) update_conv' set_reg_v_def)
  next
    case False
    then have "v \<notin> B" "alias_of ?st v = alias_of st v"
      using v by (auto simp: next_bad_def alias_of_def k(2) update_conv' delete_conv' split: option.split)
    then show ?thesis using rel False by (simp add: scope_rel_def set_reg_v_def)
  qed
  moreover have "pure_value E (fst key) (snd key) \<tau> = Some (vregs \<tau> r)"
    if "(key, r) \<in> set (expression_destinations ?st)" "\<not> expression_uses_register key r" for key r
    using that live_values(1) [OF rel, of key r ?d] by (simp add: k(1))
  ultimately show ?thesis using rel x(2) by (simp add: is_flow_def scope_rel_def set_reg_v_def)
qed

end
