(* ===== verification/CSE_Correct.thy ===== *)
theory CSE_Correct
  imports CSE_Proofs
begin

text \<open>
  Common subexpression elimination as a forward simulation: the program is annotated scope by scope
  with what the pass knew at each instruction, and the annotated program is an instance of
  \<open>pass_sim\<close>. Outside a scope the two runs agree on every register that no scope drops.
\<close>

subsection \<open>Scopes\<close>

lemma split_shape:
  assumes "scope \<in> set (split_cse_scopes_from cur its)" "list_all (\<lambda>i. \<not> is_cse_scope_boundary i) cur"
  shows "(\<exists>it. scope = [(it, None)] \<and> (\<forall>i. it = Inst i \<longrightarrow> is_cse_scope_boundary i)) \<or>
    (\<exists>is. scope = map (\<lambda>i. (Inst i, Some (instruction_read_registers i))) is \<and> is \<noteq> [] \<and>
       list_all (\<lambda>i. \<not> is_cse_scope_boundary i) is)"
  using assms
proof (induction cur its rule: split_cse_scopes_from.induct)
  case (1 cur)
  then show ?case by (auto simp: flush_current_def split: if_splits)
next
  case (2 cur l its)
  then show ?case by (auto simp: flush_current_def split: if_splits)
next
  case (3 cur i its)
  then show ?case by (auto simp: flush_current_def split: if_splits)
qed

lemma flush_items: "concat (map (map fst) (flush_current cur)) = map Inst cur"
  by (simp add: flush_current_def comp_def)

lemma split_items: "concat (map (map fst) (split_cse_scopes_from cur its)) = map Inst cur @ its"
  by (induction cur its rule: split_cse_scopes_from.induct) (simp_all add: flush_items)

definition fresh_cse :: cse_state where
  "fresh_cse = \<lparr>expression_destinations = [], cse_aliases = [], cse_replacements = [], cse_optimized = [], cse_removed = 0\<rparr>"

text \<open>What the pass is asked to meet in a scope, and the registers it drops there.\<close>

fun scope_checked :: "(string \<Rightarrow> bool) \<Rightarrow> PTXInstruction list \<Rightarrow> cse_state \<Rightarrow> bool" where
  "scope_checked outside [] st = True"
| "scope_checked outside (i # is) st =
     (step_checked outside is i st \<and> scope_checked outside is (cse_instruction outside is i st))"

definition scope_dropped :: "PTXProgram \<Rightarrow> cse_scope \<Rightarrow> string list" where
  "scope_dropped p scope = (case scope of [(it, None)] \<Rightarrow> []
     | _ \<Rightarrow> map fst (cse_replacements (cse_scope_loop (outside_reads p scope) (scope_instructions scope) fresh_cse)))"

definition scope_safe :: "PTXProgram \<Rightarrow> cse_scope \<Rightarrow> bool" where
  "scope_safe p scope \<longleftrightarrow> (case scope of [(it, None)] \<Rightarrow> True
     | _ \<Rightarrow> scope_checked (outside_reads p scope) (scope_instructions scope) fresh_cse \<and>
         list_all (\<lambda>v. \<not> read_before_def v (scope_instructions scope)) (scope_dropped p scope))"

definition cse_safe :: "PTXProgram \<Rightarrow> bool" where
  "cse_safe p = list_all (scope_safe p) (split_cse_scopes (items p))"

definition cse_dropped :: "PTXProgram \<Rightarrow> string list" where
  "cse_dropped p = concat (map (scope_dropped p) (split_cse_scopes (items p)))"

text \<open>A scope of pure instructions.\<close>

definition pure_scope :: "PTXInstruction list \<Rightarrow> cse_scope" where
  "pure_scope is = map (\<lambda>i. (Inst i, Some (instruction_read_registers i))) is"

lemma pure_scope_case: "(case pure_scope is of [(it, None)] \<Rightarrow> a it | _ \<Rightarrow> b) = b"
  by (auto simp: pure_scope_def split: list.split)

lemma pure_scope_instructions [simp]: "scope_instructions (pure_scope is) = is"
  by (simp add: scope_instructions_def pure_scope_def comp_def)

lemma pure_scope_items [simp]: "map fst (pure_scope is) = map Inst is"
  by (simp add: pure_scope_def)

lemma scope_cases:
  assumes "scope \<in> set (split_cse_scopes its)"
  obtains (single) it where "scope = [(it, None)]" "\<And>i. it = Inst i \<Longrightarrow> is_cse_scope_boundary i"
  | (pure) "is" where "scope = pure_scope is" "is \<noteq> []" "list_all (\<lambda>i. \<not> is_cse_scope_boundary i) is"
  using split_shape [of scope "[]" its] assms unfolding split_cse_scopes_def pure_scope_def by auto

subsection \<open>Dropped registers are read in their own scope only\<close>

definition item_reads :: "string \<Rightarrow> item \<Rightarrow> bool" where
  "item_reads r it = (case it of Label _ \<Rightarrow> False | Inst i \<Rightarrow> r \<in> set (instruction_read_registers i))"

definition reads_in :: "string \<Rightarrow> item list \<Rightarrow> nat" where
  "reads_in r its = length (filter (item_reads r) its)"

lemma reads_in_zero: "reads_in r its = 0 \<Longrightarrow> Inst i \<in> set its \<Longrightarrow> r \<notin> set (instruction_read_registers i)"
  by (auto simp: reads_in_def filter_empty_conv item_reads_def)

lemma reads_in_concat: "reads_in r (concat xs) = sum_list (map (reads_in r) xs)"
  by (induction xs) (simp_all add: reads_in_def)

lemma read_count_reads_in: "read_register_count p r = reads_in r (items p)"
  unfolding read_register_count_def reads_in_def
  by (rule arg_cong [of _ _ length], rule filter_cong) (auto simp: item_reads_def)

lemma pure_scope_count: "scope_read_count (pure_scope is) r = reads_in r (map Inst is)"
  by (simp add: scope_read_count_def reads_in_def pure_scope_def item_reads_def filter_map comp_def)

lemma two_terms: "x \<in> set xs \<Longrightarrow> y \<in> set xs \<Longrightarrow> x \<noteq> y \<Longrightarrow> f x + f y \<le> sum_list (map f xs)" for f :: "'a \<Rightarrow> nat"
  by (induction xs) (auto simp: member_le_sum_list add_increasing intro: add_mono order_trans [OF member_le_sum_list])

lemma read_elsewhere:
  assumes "pure_scope is \<in> set (split_cse_scopes (items p))" "\<not> outside_reads p (pure_scope is) v"
    and "scope \<in> set (split_cse_scopes (items p))" "scope \<noteq> pure_scope is" "Inst i \<in> fst ` set scope"
  shows "v \<notin> set (instruction_read_registers i)"
proof -
  have "reads_in v (items p) = sum_list (map (\<lambda>s. reads_in v (map fst s)) (split_cse_scopes (items p)))"
    using split_items [of "[]" "items p"] reads_in_concat [of v "map (map fst) (split_cse_scopes (items p))"]
    by (simp add: split_cse_scopes_def comp_def)
  then have "reads_in v (map Inst is) + reads_in v (map fst scope) \<le> reads_in v (items p)"
    using two_terms [OF assms(1,3), of "\<lambda>s. reads_in v (map fst s)"] assms(4) by simp
  moreover have "reads_in v (items p) \<le> reads_in v (map Inst is)"
    using assms(2) by (simp add: outside_reads_def pure_scope_count read_count_reads_in)
  ultimately show ?thesis using reads_in_zero [of v "map fst scope" i] assms(5) by simp
qed

lemma step_replaced:
  assumes "\<not> is_cse_scope_boundary i"
  shows "fst ` set (cse_replacements st) \<subseteq> fst ` set (cse_replacements (cse_instruction outside is i st))"
    "v \<in> fst ` set (cse_replacements (cse_instruction outside is i st)) \<Longrightarrow>
     v \<in> fst ` set (cse_replacements st) \<or> \<not> outside v"
proof -
  obtain d0 srcs where i: "scope_inst i d0 srcs" using boundary_scope_inst assms by blast
  have "fst ` set (cse_replacements st) \<subseteq> fst ` set (cse_replacements (cse_instruction outside is i st)) \<and>
    (v \<in> fst ` set (cse_replacements (cse_instruction outside is i st)) \<longrightarrow>
     v \<in> fst ` set (cse_replacements st) \<or> \<not> outside v)"
  proof (cases "cse_target outside is i st")
    case None
    show ?thesis unfolding cse_step_kept(4) [OF i None] by blast
  next
    case (Some t)
    show ?thesis unfolding cse_step_dropped(4) [OF i Some] update_keys using cse_step_dropped(6) [OF i Some] by blast
  qed
  then show "fst ` set (cse_replacements st) \<subseteq> fst ` set (cse_replacements (cse_instruction outside is i st))"
    "v \<in> fst ` set (cse_replacements (cse_instruction outside is i st)) \<Longrightarrow>
     v \<in> fst ` set (cse_replacements st) \<or> \<not> outside v" by blast+
qed

lemma replaced_inside:
  assumes "list_all (\<lambda>i. \<not> is_cse_scope_boundary i) is" "v \<in> fst ` set (cse_replacements (cse_scope_loop outside is st))"
  shows "v \<in> fst ` set (cse_replacements st) \<or> \<not> outside v"
  using assms
proof (induction "is" arbitrary: st)
  case (Cons i "is")
  then have i: "\<not> is_cse_scope_boundary i" "list_all (\<lambda>i. \<not> is_cse_scope_boundary i) is" by simp_all
  have "v \<in> fst ` set (cse_replacements (cse_scope_loop outside is (cse_instruction outside is i st)))"
    using Cons.prems(2) by simp
  from Cons.IH [OF i(2) this] show ?case using step_replaced(2) [OF i(1)] by blast
qed simp

lemma replaced_grow:
  assumes "list_all (\<lambda>i. \<not> is_cse_scope_boundary i) is"
  shows "fst ` set (cse_replacements st) \<subseteq> fst ` set (cse_replacements (cse_scope_loop outside is st))"
  using assms
proof (induction "is" arbitrary: st)
  case (Cons i "is")
  then have i: "\<not> is_cse_scope_boundary i" "list_all (\<lambda>i. \<not> is_cse_scope_boundary i) is" by simp_all
  show ?case
    using Cons.IH [OF i(2), of "cse_instruction outside is i st"] step_replaced(1) [OF i(1), of st outside "is"] by simp
qed simp

lemma read_before_reads: "read_before_def v is \<Longrightarrow> \<exists>i \<in> set is. v \<in> set (instruction_read_registers i)"
  by (induction "is") (auto split: if_splits)

lemma dropped_scope:
  assumes "v \<in> set (cse_dropped p)"
  obtains "is" where "pure_scope is \<in> set (split_cse_scopes (items p))" "\<not> outside_reads p (pure_scope is) v"
    "v \<in> set (scope_dropped p (pure_scope is))"
proof -
  obtain scope where s: "scope \<in> set (split_cse_scopes (items p))" "v \<in> set (scope_dropped p scope)"
    using assms by (auto simp: cse_dropped_def)
  from s(1) show thesis
  proof (cases rule: scope_cases)
    case (single it)
    then show ?thesis using s(2) by (simp add: scope_dropped_def)
  next
    case (pure "is")
    then have "v \<in> fst ` set (cse_replacements (cse_scope_loop (outside_reads p (pure_scope is)) is fresh_cse))"
      using s(2) by (auto simp: scope_dropped_def pure_scope_case)
    then have "\<not> outside_reads p (pure_scope is) v"
      using replaced_inside [OF pure(3)] by (fastforce simp: fresh_cse_def)
    then show ?thesis using that s pure(1) by blast
  qed
qed

lemma dropped_not_read:
  assumes "v \<in> set (cse_dropped p)" "[(Inst i, None)] \<in> set (split_cse_scopes (items p))"
  shows "v \<notin> set (instruction_read_registers i)"
proof -
  obtain "is" where s: "pure_scope is \<in> set (split_cse_scopes (items p))" "\<not> outside_reads p (pure_scope is) v"
    using dropped_scope [OF assms(1)] by metis
  have "[(Inst i, None)] \<noteq> pure_scope is" by (auto simp: pure_scope_def)
  from read_elsewhere [OF s assms(2) this] show ?thesis by simp
qed

lemma dropped_defined_first:
  assumes "cse_safe p" "v \<in> set (cse_dropped p)" "pure_scope is \<in> set (split_cse_scopes (items p))"
  shows "\<not> read_before_def v is"
proof -
  obtain js where s: "pure_scope js \<in> set (split_cse_scopes (items p))" "\<not> outside_reads p (pure_scope js) v"
    "v \<in> set (scope_dropped p (pure_scope js))"
    using dropped_scope [OF assms(2)] by metis
  show ?thesis
  proof (cases "pure_scope is = pure_scope js")
    case True
    then have "is = js" using pure_scope_instructions by metis
    moreover have "scope_safe p (pure_scope js)" using assms(1) s(1) by (simp add: cse_safe_def list_all_iff)
    ultimately show ?thesis using s(3) by (simp add: scope_safe_def pure_scope_case list_all_iff)
  next
    case False
    then have "v \<notin> set (instruction_read_registers i)" if "i \<in> set is" for i
      using read_elsewhere [OF s(1,2) assms(3)] that by (simp add: pure_scope_def image_iff)
    then show ?thesis using read_before_reads by blast
  qed
qed

subsection \<open>The annotated program\<close>

datatype cse_note = Outside | Within "string \<Rightarrow> bool" "PTXInstruction list" cse_state "string set"

fun scope_notes :: "(string \<Rightarrow> bool) \<Rightarrow> PTXInstruction list \<Rightarrow> cse_state \<Rightarrow> string set \<Rightarrow> (cse_note \<times> item) list" where
  "scope_notes outside [] st B = []"
| "scope_notes outside (i # is) st B = (Within outside (i # is) st B, Inst i) #
     scope_notes outside is (cse_instruction outside is i st) (next_bad (py_strip (hd (operands i))) B st)"

fun cse_tr :: "cse_note \<times> item \<Rightarrow> item list" where
  "cse_tr (Within outside (i # is) st B, it) =
     (if cse_target outside is i st = None then [Inst (rewrite_sources i (cse_aliases st))] else [])"
| "cse_tr (_, it) = [it]"

definition notes_of :: "PTXProgram \<Rightarrow> cse_scope \<Rightarrow> (cse_note \<times> item) list" where
  "notes_of p scope = (case scope of [(it, None)] \<Rightarrow> [(Outside, it)]
     | _ \<Rightarrow> scope_notes (outside_reads p scope) (scope_instructions scope) fresh_cse (set (cse_dropped p)))"

definition cse_notes :: "PTXProgram \<Rightarrow> (cse_note \<times> item) list" where
  "cse_notes p = concat (map (notes_of p) (split_cse_scopes (items p)))"

lemma scope_notes_items: "map snd (scope_notes outside is st B) = map Inst is"
  by (induction outside "is" st B rule: scope_notes.induct) simp_all

lemma cse_notes_items: "map snd (cse_notes p) = items p"
proof -
  have "map snd (notes_of p scope) = map fst scope" if "scope \<in> set (split_cse_scopes (items p))" for scope
    using that by (cases rule: scope_cases) (simp_all add: notes_of_def pure_scope_case scope_notes_items)
  then have "map snd (cse_notes p) = concat (map (map fst) (split_cse_scopes (items p)))"
    by (simp add: cse_notes_def map_concat comp_def cong: map_cong)
  then show ?thesis using split_items [of "[]" "items p"] by (simp add: split_cse_scopes_def)
qed

lemma scope_notes_result:
  assumes "list_all (\<lambda>i. \<not> is_cse_scope_boundary i) is"
  shows "map Inst (cse_optimized (cse_scope_loop outside is st)) =
    map Inst (cse_optimized st) @ concat (map cse_tr (scope_notes outside is st B))"
  using assms
proof (induction outside "is" st B rule: scope_notes.induct)
  case (2 outside i "is" st B)
  then obtain d0 srcs where i: "scope_inst i d0 srcs" using boundary_scope_inst by fastforce
  then have "hd (operands i) = d0" by (simp add: scope_inst_def)
  then show ?case
    using 2 cse_step_dropped(3) [OF i] cse_step_kept(3) [OF i]
    by (cases "cse_target outside is i st") simp_all
qed simp

lemma cse_one_scope_kept:
  assumes "scope \<in> set (split_cse_scopes (items p))"
  shows "fst (cse_one_scope p scope (kept, repl, removed)) = kept @ concat (map cse_tr (notes_of p scope))"
  using assms
proof (cases rule: scope_cases)
  case (pure "is")
  then have "fst (cse_one_scope p scope (kept, repl, removed)) =
      kept @ map Inst (fst (optimize_cse_scope is (outside_reads p scope)))"
    by (simp add: cse_one_scope_def pure_scope_case case_prod_unfold)
  also have "map Inst (fst (optimize_cse_scope is (outside_reads p scope))) = concat (map cse_tr (notes_of p scope))"
    using scope_notes_result [OF pure(3), of "outside_reads p scope" fresh_cse]
    by (simp add: optimize_cse_scope_def Let_def fresh_cse_def notes_of_def pure(1) pure_scope_case)
  finally show ?thesis .
qed (simp add: cse_one_scope_def notes_of_def)

lemma cse_program_kept: "fst (cse_program p) = concat (map cse_tr (cse_notes p))"
proof -
  have "fst (fold (cse_one_scope p) scopes acc) = fst acc @ concat (map cse_tr (concat (map (notes_of p) scopes)))"
    if "set scopes \<subseteq> set (split_cse_scopes (items p))" for scopes acc
    using that
  proof (induction scopes arbitrary: acc)
    case (Cons s scopes)
    then show ?case using cse_one_scope_kept [of s p "fst acc" "fst (snd acc)" "snd (snd acc)"] by simp
  qed simp
  from this [of "split_cse_scopes (items p)" "([], [], 0)"] show ?thesis by (simp add: cse_program_def cse_notes_def)
qed

subsection \<open>The relation\<close>

definition scope_fine :: "string set \<Rightarrow> (string \<Rightarrow> bool) \<Rightarrow> PTXInstruction list \<Rightarrow> cse_state \<Rightarrow> bool" where
  "scope_fine D outside here st \<longleftrightarrow> list_all (\<lambda>i. \<not> is_cse_scope_boundary i) here \<and> scope_checked outside here st \<and>
     fst ` set (cse_replacements (cse_scope_loop outside here st)) \<subseteq> D"

definition inside :: "ptx_env \<Rightarrow> string set \<Rightarrow> (string \<Rightarrow> bool) \<Rightarrow> PTXInstruction list \<Rightarrow> cse_state \<Rightarrow> string set
    \<Rightarrow> pstate \<Rightarrow> pstate \<Rightarrow> bool" where
  "inside E D outside here st B \<sigma> \<tau> \<longleftrightarrow> scope_fine D outside here st \<and> scope_inv D here st B \<and> scope_rel E st B \<sigma> \<tau>"

definition cse_rel :: "ptx_env \<Rightarrow> string set \<Rightarrow> cse_note \<Rightarrow> pstate \<Rightarrow> pstate \<Rightarrow> bool" where
  "cse_rel E D a \<sigma> \<tau> = (case a of Outside \<Rightarrow> agree (- D) \<sigma> \<tau>
     | Within outside here st B \<Rightarrow> inside E D outside here st B \<sigma> \<tau>)"

lemma enter_scope:
  assumes "agree (- D) \<sigma> \<tau>" "scope_fine D outside here fresh_cse" "\<forall>v \<in> D. \<not> read_before_def v here"
  shows "inside E D outside here fresh_cse D \<sigma> \<tau>"
  using assms by (auto simp: inside_def scope_inv_def scope_rel_def agree_def fresh_cse_def alias_of_def)

lemma leave_scope:
  assumes "inside E D outside [] st B \<sigma> \<tau>"
  shows "agree (- D) \<sigma> \<tau>"
proof -
  have rel: "scope_rel E st B \<sigma> \<tau>" and inv: "scope_inv D [] st B" using assms by (simp_all add: inside_def)
  have "vregs \<sigma> v = vregs \<tau> v" if "v \<notin> D" for v
  proof -
    have "v \<notin> B" "map_of (cse_aliases st) v = None" using that scope_invD(2,6) [OF inv] by blast+
    then show ?thesis using rel by (auto simp: scope_rel_def alias_of_def dest: spec [of _ v])
  qed
  then show ?thesis using rel by (simp add: agree_def scope_rel_def)
qed

lemma scope_step:
  assumes "inside E D outside (i # is) st B \<sigma> \<tau>" "step_effect E i \<sigma> = Some e"
  defines "st' \<equiv> cse_instruction outside is i st" and "B' \<equiv> next_bad (py_strip (hd (operands i))) B st"
  shows "\<not> is_flow e"
    "cse_target outside is i st = None \<Longrightarrow> \<exists>e'. step_effect E (rewrite_sources i (cse_aliases st)) \<tau> = Some e' \<and>
       \<not> is_flow e' \<and> inside E D outside is st' B' (next_state e \<sigma>) (next_state e' \<tau>)"
    "cse_target outside is i st = Some t \<Longrightarrow> inside E D outside is st' B' (next_state e \<sigma>) \<tau>"
proof -
  have fine: "scope_fine D outside (i # is) st" and inv: "scope_inv D (i # is) st B" and rel: "scope_rel E st B \<sigma> \<tau>"
    using assms(1) by (simp_all add: inside_def)
  then obtain d0 srcs where i: "scope_inst i d0 srcs" using boundary_scope_inst by (fastforce simp: scope_fine_def)
  have hd: "hd (operands i) = d0" using i by (simp add: scope_inst_def)
  have ok: "step_checked outside is i st" and fine': "scope_fine D outside is st'"
    using fine by (simp_all add: scope_fine_def st'_def)
  show "\<not> is_flow e" using scope_effect [OF i assms(2)] by (auto simp: is_flow_def)
  {
    assume kept: "cse_target outside is i st = None"
    show "\<exists>e'. step_effect E (rewrite_sources i (cse_aliases st)) \<tau> = Some e' \<and>
       \<not> is_flow e' \<and> inside E D outside is st' B' (next_state e \<sigma>) (next_state e' \<tau>)"
      using scope_rel_kept [OF rel inv i ok kept assms(2)] scope_inv_kept [OF inv i kept] fine'
      by (auto simp: inside_def st'_def B'_def hd)
  next
    assume drop: "cse_target outside is i st = Some t"
    have "py_strip d0 \<in> fst ` set (cse_replacements st')"
      by (simp add: st'_def cse_step_dropped(4) [OF i drop] update_keys)
    moreover have "list_all (\<lambda>i. \<not> is_cse_scope_boundary i) is" "fst ` set (cse_replacements (cse_scope_loop outside is st')) \<subseteq> D"
      using fine' by (simp_all add: scope_fine_def)
    ultimately have "py_strip d0 \<in> D" using replaced_grow [of "is" st' outside] by blast
    then show "inside E D outside is st' B' (next_state e \<sigma>) \<tau>"
      using scope_rel_dropped [OF rel inv i ok drop assms(2)] scope_inv_dropped [OF inv i drop] fine'
      by (simp add: inside_def st'_def B'_def hd)
  }
qed

subsection \<open>How the notes follow each other\<close>

definition fresh_head :: "string set \<Rightarrow> (cse_note \<times> item) list \<Rightarrow> bool" where
  "fresh_head D ys \<longleftrightarrow> (case ys of [] \<Rightarrow> True | (a, _) # _ \<Rightarrow> a = Outside \<or>
     (\<exists>outside here. a = Within outside here fresh_cse D \<and> scope_fine D outside here fresh_cse \<and>
        (\<forall>v \<in> D. \<not> read_before_def v here)))"

definition linked :: "string set \<Rightarrow> cse_note \<times> item \<Rightarrow> (cse_note \<times> item) list \<Rightarrow> bool" where
  "linked D x ys \<longleftrightarrow> (case x of
     (Outside, it) \<Rightarrow> fresh_head D ys \<and> (\<forall>i. it = Inst i \<longrightarrow> set (instruction_read_registers i) \<inter> D = {})
   | (Within outside here st B, it) \<Rightarrow> (\<exists>i is. here = i # is \<and> it = Inst i \<and>
       (if is = [] then fresh_head D ys
        else \<exists>jt zs. ys = (Within outside is (cse_instruction outside is i st)
               (next_bad (py_strip (hd (operands i))) B st), jt) # zs)))"

lemma fresh_head_Outside: "fresh_head D ((Outside, it) # ys)"
  by (simp add: fresh_head_def)

fun chained :: "string set \<Rightarrow> (cse_note \<times> item) list \<Rightarrow> bool" where
  "chained D [] = True"
| "chained D (x # ys) = (linked D x ys \<and> chained D ys)"

lemma chained_at: "chained D (pre @ x # ys) \<Longrightarrow> linked D x ys"
  by (induction pre) simp_all

lemma chained_scope:
  assumes "chained D ys" "fresh_head D ys"
  shows "chained D (scope_notes outside is st B @ ys)"
  using assms
proof (induction outside "is" st B rule: scope_notes.induct)
  case (2 outside i "is" st B)
  then show ?case by (cases "is") (simp_all add: linked_def)
qed simp

lemma scopes_chained:
  assumes "cse_safe p" "set scopes \<subseteq> set (split_cse_scopes (items p))"
  shows "chained (set (cse_dropped p)) (concat (map (notes_of p) scopes)) \<and>
    fresh_head (set (cse_dropped p)) (concat (map (notes_of p) scopes))"
  using assms(2)
proof (induction scopes)
  case (Cons s scopes)
  let ?D = "set (cse_dropped p)" and ?ys = "concat (map (notes_of p) scopes)"
  have ys: "chained ?D ?ys" "fresh_head ?D ?ys" and s: "s \<in> set (split_cse_scopes (items p))" using Cons by simp_all
  from s show ?case
  proof (cases rule: scope_cases)
    case (single it)
    then have "set (instruction_read_registers i) \<inter> ?D = {}" if "it = Inst i" for i
      using dropped_not_read [of _ p i] s that by blast
    moreover have "notes_of p s = [(Outside, it)]" by (simp add: notes_of_def single)
    ultimately show ?thesis using ys by (simp add: linked_def fresh_head_Outside)
  next
    case (pure "is")
    have "scope_safe p s" using assms(1) s by (simp add: cse_safe_def list_all_iff)
    moreover have "set (scope_dropped p s) \<subseteq> ?D" using s by (auto simp: cse_dropped_def)
    ultimately have "scope_fine ?D (outside_reads p s) is fresh_cse"
      using pure by (simp add: scope_fine_def scope_safe_def scope_dropped_def pure_scope_case)
    moreover have "\<forall>v \<in> ?D. \<not> read_before_def v is" using dropped_defined_first [OF assms(1)] s pure(1) by blast
    moreover have n: "notes_of p s = scope_notes (outside_reads p s) is fresh_cse ?D"
      by (simp add: notes_of_def pure(1) pure_scope_case)
    ultimately have "fresh_head ?D (notes_of p s @ ?ys)"
      using pure(2) by (cases "is") (simp_all add: fresh_head_def)
    then show ?thesis using chained_scope [OF ys] n by simp
  qed
qed (simp add: fresh_head_def)

lemma notes_linked:
  assumes "cse_safe p" "cse_notes p = pre @ x # ys"
  shows "linked (set (cse_dropped p)) x ys"
  using scopes_chained [OF assms(1), of "split_cse_scopes (items p)"] chained_at assms(2)
  by (metis cse_notes_def order_refl)

lemma fresh_head_rel:
  assumes "fresh_head D ys" "agree (- D) \<sigma> \<tau>"
  shows "at_head (cse_rel E D) ys \<sigma> \<tau>"
  using assms enter_scope by (auto simp: at_head_def fresh_head_def cse_rel_def split: list.split)

lemma linked_outside:
  assumes "linked D (Outside, it) ys"
  shows "fresh_head D ys" "it = Inst i \<Longrightarrow> agree (- D) \<sigma> \<tau> \<Longrightarrow> step_effect E i \<tau> = step_effect E i \<sigma>"
proof -
  show "fresh_head D ys" using assms by (simp add: linked_def)
  assume i: "it = Inst i" "agree (- D) \<sigma> \<tau>"
  then have "set (instruction_read_registers i) \<inter> D = {}" using assms by (simp add: linked_def)
  then have "agree (set (instruction_read_registers i)) \<sigma> \<tau>" by (intro agree_mono [OF i(2)]) blast
  then show "step_effect E i \<tau> = step_effect E i \<sigma>" using step_effect_cong by metis
qed

lemma linked_within:
  assumes "linked D (Within outside here st B, it) ys"
  obtains i "is" where "here = i # is" "it = Inst i"
    "\<And>\<sigma> \<tau>. inside E D outside is (cse_instruction outside is i st) (next_bad (py_strip (hd (operands i))) B st) \<sigma> \<tau> \<Longrightarrow>
       at_head (cse_rel E D) ys \<sigma> \<tau>"
proof -
  obtain i "is" where h: "here = i # is" "it = Inst i"
    and next_note: "if is = [] then fresh_head D ys else \<exists>jt zs. ys = (Within outside is (cse_instruction outside is i st)
               (next_bad (py_strip (hd (operands i))) B st), jt) # zs"
    using assms by (auto simp: linked_def)
  have "at_head (cse_rel E D) ys \<sigma> \<tau>"
    if "inside E D outside is (cse_instruction outside is i st) (next_bad (py_strip (hd (operands i))) B st) \<sigma> \<tau>" for \<sigma> \<tau>
  proof (cases "is = []")
    case True
    then show ?thesis using next_note fresh_head_rel leave_scope that by auto
  next
    case False
    then show ?thesis using next_note that by (auto simp: at_head_def cse_rel_def)
  qed
  with h that show thesis by blast
qed

subsection \<open>The simulation\<close>

lemma notes_member:
  assumes "cse_safe p" "(a, it) \<in> set (cse_notes p)"
  obtains ys where "linked (set (cse_dropped p)) (a, it) ys"
  using assms notes_linked by (metis in_set_conv_decomp)

lemma label_outside:
  assumes "cse_safe p" "(a, Label l) \<in> set (cse_notes p)"
  shows "a = Outside"
proof -
  obtain ys where "linked (set (cse_dropped p)) (a, Label l) ys" using notes_member [OF assms] .
  then show ?thesis by (cases a) (simp_all add: linked_def)
qed

lemma flow_outside:
  assumes "cse_safe p" "(a, Inst i) \<in> set (cse_notes p)" "cse_rel E (set (cse_dropped p)) a \<sigma> \<tau>"
    and "step_effect E i \<sigma> = Some e" "is_flow e"
  shows "a = Outside" "agree (- set (cse_dropped p)) \<sigma> \<tau>" "step_effect E i \<tau> = Some e"
proof -
  obtain ys where link: "linked (set (cse_dropped p)) (a, Inst i) ys" using notes_member [OF assms(1,2)] .
  show a: "a = Outside"
  proof (cases a)
    case (Within outside here st B)
    from link [unfolded Within] obtain "is" where h: "here = i # is" by (elim linked_within [where E = E]) auto
    have "inside E (set (cse_dropped p)) outside (i # is) st B \<sigma> \<tau>" using assms(3) by (simp add: Within h cse_rel_def)
    from scope_step(1) [OF this assms(4)] assms(5) show ?thesis by simp
  qed
  show g: "agree (- set (cse_dropped p)) \<sigma> \<tau>" using assms(3) by (simp add: a cse_rel_def)
  show "step_effect E i \<tau> = Some e" using linked_outside(2) [OF link [unfolded a] refl g] assms(4) by simp
qed

lemma within_here:
  assumes "cse_safe p" "cse_notes p = pre @ (Within outside here st B, Inst i) # ys"
    and "cse_rel E (set (cse_dropped p)) (Within outside here st B) \<sigma> \<tau>"
  obtains "is" where "here = i # is" "inside E (set (cse_dropped p)) outside (i # is) st B \<sigma> \<tau>"
    "\<And>\<sigma> \<tau>. inside E (set (cse_dropped p)) outside is (cse_instruction outside is i st)
       (next_bad (py_strip (hd (operands i))) B st) \<sigma> \<tau> \<Longrightarrow> at_head (cse_rel E (set (cse_dropped p))) ys \<sigma> \<tau>"
  using notes_linked [OF assms(1,2)] assms(3) that by (elim linked_within [where E = E]) (auto simp: cse_rel_def)

lemma dropped_here:
  assumes "cse_safe p" "cse_notes p = pre @ (a, Inst i) # ys" "cse_rel E (set (cse_dropped p)) a \<sigma> \<tau>"
    and "cse_tr (a, Inst i) = []" "step_effect E i \<sigma> = Some e"
  shows "\<not> is_flow e \<and> at_head (cse_rel E (set (cse_dropped p))) ys (next_state e \<sigma>) \<tau>"
proof -
  obtain outside here st B where a: "a = Within outside here st B" using assms(4) by (cases a) auto
  obtain "is" where h: "here = i # is" and ins: "inside E (set (cse_dropped p)) outside (i # is) st B \<sigma> \<tau>"
    and next_rel: "\<And>\<sigma> \<tau>. inside E (set (cse_dropped p)) outside is (cse_instruction outside is i st)
       (next_bad (py_strip (hd (operands i))) B st) \<sigma> \<tau> \<Longrightarrow> at_head (cse_rel E (set (cse_dropped p))) ys \<sigma> \<tau>"
    using within_here [OF assms(1) assms(2) [unfolded a] assms(3) [unfolded a]] by metis
  obtain t where "cse_target outside is i st = Some t" using assms(4) by (auto simp: a h split: if_splits)
  then show ?thesis using scope_step(1,3) [OF ins assms(5)] next_rel by blast
qed

lemma kept_here:
  assumes "cse_safe p" "cse_notes p = pre @ (a, Inst i) # ys" "cse_rel E (set (cse_dropped p)) a \<sigma> \<tau>"
    and "cse_tr (a, Inst i) = [Inst j]" "step_effect E i \<sigma> = Some e" "\<not> is_flow e"
  shows "\<exists>e'. step_effect E j \<tau> = Some e' \<and> \<not> is_flow e' \<and>
    at_head (cse_rel E (set (cse_dropped p))) ys (next_state e \<sigma>) (next_state e' \<tau>)"
proof (cases a)
  case Outside
  then have ij: "i = j" "agree (- set (cse_dropped p)) \<sigma> \<tau>" using assms(3,4) by (simp_all add: cse_rel_def)
  note link = linked_outside [OF notes_linked [OF assms(1) assms(2) [unfolded Outside]]]
  have "step_effect E j \<tau> = Some e" using link(2) [OF refl ij(2)] assms(5) ij(1) by simp
  then show ?thesis using fresh_head_rel [OF link(1) agree_next [OF ij(2)]] assms(6) by blast
next
  case (Within outside here st B)
  obtain "is" where h: "here = i # is" and ins: "inside E (set (cse_dropped p)) outside (i # is) st B \<sigma> \<tau>"
    and next_rel: "\<And>\<sigma> \<tau>. inside E (set (cse_dropped p)) outside is (cse_instruction outside is i st)
       (next_bad (py_strip (hd (operands i))) B st) \<sigma> \<tau> \<Longrightarrow> at_head (cse_rel E (set (cse_dropped p))) ys \<sigma> \<tau>"
    using within_here [OF assms(1) assms(2) [unfolded Within] assms(3) [unfolded Within]] by metis
  have kept: "cse_target outside is i st = None" "j = rewrite_sources i (cse_aliases st)"
    using assms(4) by (auto simp: Within h split: if_splits)
  show ?thesis using scope_step(2) [OF ins assms(5) kept(1)] next_rel kept(2) by blast
qed

text \<open>The notes of a program the check accepts; the simulation is about those only.\<close>

definition checked_notes :: "PTXProgram \<Rightarrow> (cse_note \<times> item) list" where
  "checked_notes p = (if cse_safe p then cse_notes p else [])"

lemma checked_notesD:
  "(a, it) \<in> set (checked_notes p) \<Longrightarrow> cse_safe p \<and> (a, it) \<in> set (cse_notes p)"
  "checked_notes p = pre @ x # ys \<Longrightarrow> cse_safe p \<and> cse_notes p = pre @ x # ys"
  by (simp_all add: checked_notes_def split: if_splits)

interpretation cse: pass_sim E "checked_notes p" cse_tr
  "cse_rel E (set (cse_dropped p))" "agree (- set (cse_dropped p))" for E p
proof (unfold_locales, goal_cases)
  case (1 a l)
  then show ?case using label_outside checked_notesD(1) by fastforce
next
  case (2 a i)
  show ?case by (cases "(a, Inst i)" rule: cse_tr.cases) auto
next
  case (3 pre a l ys \<sigma> \<tau>)
  then have p: "cse_safe p" "cse_notes p = pre @ (a, Label l) # ys" using checked_notesD(2) by blast+
  then have a: "a = Outside" using label_outside [of p a l] by simp
  show ?case
    using fresh_head_rel [OF linked_outside(1) [OF notes_linked [OF p(1) p(2) [unfolded a]]]] 3(2) by (simp add: a cse_rel_def)
next
  case (4 pre a i ys \<sigma> \<tau> e)
  then show ?case using dropped_here [of p pre a i ys E \<sigma> \<tau> e] checked_notesD(2) [OF 4(1)] by blast
next
  case (5 pre a i ys \<sigma> \<tau> j e)
  then show ?case using kept_here [of p pre a i ys E \<sigma> \<tau> j e] checked_notesD(2) [OF 5(1)] by blast
next
  case (6 a i \<sigma> \<tau> e)
  then show ?case using flow_outside [of p a i E \<sigma> \<tau> e] checked_notesD(1) [OF 6(1)] by auto
next
  case (7 a i \<sigma> \<tau> l b)
  have "agree (- set (cse_dropped p)) \<sigma> \<tau>"
    using flow_outside(2) [of p a i E \<sigma> \<tau> "Goto l"] checked_notesD(1) [OF 7(1)] 7(2,3) by (simp add: is_flow_def)
  then show ?case using label_outside [of p b l] checked_notesD(1) [OF 7(4)] by (simp add: cse_rel_def)
next
  case (8 a i \<sigma> \<tau>)
  then show ?case using flow_outside(2) [of p a i E \<sigma> \<tau> Exit] checked_notesD(1) [OF 8(1)] by (simp add: is_flow_def)
qed

subsection \<open>The pass\<close>

lemma cse_run_program:
  "mod_program (fst (cse_run m)) = mod_program m \<or>
   items (mod_program (fst (cse_run m))) = fst (cse_program (mod_program m))"
  by (simp add: cse_run_def Let_def rewritten_def case_prod_unfold)

lemma cse_agree:
  assumes "cse_safe (mod_program m)" "run_program E (mod_program m) n \<sigma> = Some \<sigma>'"
  shows "\<exists>\<tau>'. run_program E (mod_program (fst (cse_run m))) n \<sigma> = Some \<tau>' \<and>
    agree (- set (cse_dropped (mod_program m))) \<sigma>' \<tau>'"
proof -
  let ?p = "mod_program m"
  have checked: "checked_notes ?p = cse_notes ?p" by (simp add: checked_notes_def assms(1))
  consider "mod_program (fst (cse_run m)) = ?p" | "items (mod_program (fst (cse_run m))) = fst (cse_program ?p)"
    using cse_run_program by blast
  then show ?thesis
  proof cases
    case 1
    then show ?thesis using assms(2) by auto
  next
    case 2
    have "at_head (cse_rel E (set (cse_dropped ?p))) (cse_notes ?p) \<sigma> \<sigma>"
      using fresh_head_rel [of "set (cse_dropped ?p)" "cse_notes ?p"] scopes_chained [OF assms(1) order_refl]
      by (simp add: cse_notes_def)
    then show ?thesis
      using cse.run_preserved [of E ?p \<sigma> \<sigma> n \<sigma>'] assms(2) 2
      unfolding checked cse_notes_items cse_program_kept [symmetric] run_program_def by simp
  qed
qed

definition shared_sums :: ir_module where
  "shared_sums = module_from_program [] (demo_ptx\<lparr>items :=
     [plain_inst ''mov.u32'' [''%r1'', ''5''],
      plain_inst ''add.u32'' [''%r2'', ''%r1'', ''3''],
      plain_inst ''add.u32'' [''%r3'', ''%r1'', ''3''],
      plain_inst ''add.u32'' [''%r4'', ''%r3'', ''%r2''],
      plain_inst ''add.u32'' [''%r4'', ''%r4'', ''1''],
      plain_inst ''ld.param.u64'' [''%rd1'', ''[A]''],
      plain_inst ''st.global.u32'' [''[%rd1]'', ''%r4''],
      plain_inst ''ret'' []]\<rparr>)"

text \<open>
  C24. Common subexpression elimination keeps the behaviour of a program it is safe for: operands of the
  scopes are plain (a register or a text without one), no dropped instruction repeats an expression
  through a register that the expression itself mentions, and no dropped register is read in its scope
  above its definition. Whatever such a program does from a state within a number of steps, ending
  normally, the rewritten one does too, with the same memory, the same predicates and the same value in
  every register it has not dropped.
\<close>

theorem cse_preserves:
  assumes "cse_safe (mod_program m)" "run_program E (mod_program m) n \<sigma> = Some \<sigma>'"
  shows "\<exists>\<tau>'. run_program E (mod_program (fst (cse_run m))) n \<sigma> = Some \<tau>' \<and> vmem \<tau>' = vmem \<sigma>' \<and> vpreds \<tau>' = vpreds \<sigma>' \<and>
    (\<forall>r. r \<notin> set (cse_dropped (mod_program m)) \<longrightarrow> vregs \<tau>' r = vregs \<sigma>' r)"
  using cse_agree [OF assms] by (fastforce simp: agree_def)

lemma shared_sums_safe: "cse_safe (mod_program shared_sums)"
  by code_simp

lemma shared_sums_runs: "final_word (run_program demo_env (mod_program shared_sums) 9 demo_start) = Some [17, 0, 0, 0]"
  by code_simp

theorem cse_preserves_witness:
  "final_word (run_program demo_env (mod_program (fst (cse_run shared_sums))) 9 demo_start) = Some [17, 0, 0, 0] \<and>
   length (items (mod_program (fst (cse_run shared_sums)))) = 7 \<and> cse_dropped (mod_program shared_sums) = [''%r3'']"
proof (intro conjI)
  obtain \<sigma> where "run_program demo_env (mod_program shared_sums) 9 demo_start = Some \<sigma>" "gmem (vmem \<sigma>) = [17, 0, 0, 0]"
    using shared_sums_runs by (cases "run_program demo_env (mod_program shared_sums) 9 demo_start") (auto simp: final_word_def)
  with cse_preserves [OF shared_sums_safe this(1)]
  show "final_word (run_program demo_env (mod_program (fst (cse_run shared_sums))) 9 demo_start) = Some [17, 0, 0, 0]"
    by (auto simp: final_word_def)
  show "length (items (mod_program (fst (cse_run shared_sums)))) = 7" by code_simp
  show "cse_dropped (mod_program shared_sums) = [''%r3'']" by code_simp
qed

end
