(* ===== verification/CFG_Blocks.thy ===== *)
theory CFG_Blocks
  imports CFG_Order
begin

text \<open>
  The positions of a built control-flow graph: leaders are positions of the program, and every
  position a block lists is that of an instruction.
\<close>

lemma enumerate_bound: "x \<in> set (enumerate 0 its) \<Longrightarrow> fst x < length its"
  by (simp add: in_set_enumerate_eq)

lemma collect_labels_bound:
  assumes "collect_labels p = Inr labels" "map_of labels l = Some k"
  shows "k < length (items p)"
proof -
  have "\<forall>k \<in> snd ` set labels. k < length (items p)"
    using assms(1) unfolding collect_labels_def
  proof (rule fold_r_keeps_on, simp)
    fix x d d'
    assume x: "x \<in> set (enumerate 0 (items p))"
      and step: "(case x of (index, it) \<Rightarrow> \<lambda>labels. case it of Inst _ \<Rightarrow> Inr labels
        | Label l \<Rightarrow> if l \<in> fst ` set labels then Inl (DuplicateLabel l) else Inr (AList.update l index labels)) d = Inr d'"
      and d: "\<forall>k \<in> snd ` set d. k < length (items p)"
    obtain k it where k: "x = (k, it)" "k < length (items p)" using enumerate_bound [OF x] by (metis prod.collapse)
    have "d' = d \<or> (\<exists>l. d' = AList.update l k d)" using step by (auto simp: k(1) split: item.splits if_splits)
    then show "\<forall>k \<in> snd ` set d'. k < length (items p)" using d k(2) update_snds [of _ k d] by blast
  qed
  then show ?thesis using map_of_SomeD [OF assms(2)] by force
qed

lemma find_leaders_bound:
  assumes "find_leaders p labels = Inr ls" "collect_labels p = Inr labels" "k \<in> set ls"
  shows "k < length (items p) \<or> k = 0"
proof -
  have "\<forall>k \<in> set ls. k < length (items p) \<or> k = 0"
    using assms(1) unfolding find_leaders_def
  proof (rule fold_r_keeps_on, simp)
    fix x acc acc'
    assume x: "x \<in> set (enumerate 0 (items p))"
      and step: "(case x of (index, it) \<Rightarrow> \<lambda>leaders.
        bind_r (item_leaders (length (items p)) labels index it) (\<lambda>ls. Inr (leaders @ ls))) acc = Inr acc'"
      and acc: "\<forall>k \<in> set acc. k < length (items p) \<or> k = 0"
    obtain j it where j: "x = (j, it)" "j < length (items p)" using enumerate_bound [OF x] by (metis prod.collapse)
    obtain new where new: "item_leaders (length (items p)) labels j it = Inr new" "acc' = acc @ new"
      using step by (auto simp: j(1))
    have "\<forall>k \<in> set new. k < length (items p)"
      using new(1) j(2) collect_labels_bound [OF assms(2)]
      by (auto simp: item_leaders_def Let_def split: item.splits if_splits list.splits option.splits)
    then show "\<forall>k \<in> set acc'. k < length (items p) \<or> k = 0" using acc new(2) by auto
  qed
  then show ?thesis using assms(3) by blast
qed

text \<open>Every position a block lists is that of an instruction of the program.\<close>

lemma slice_indices_inst: "k \<in> set (slice_indices its a e) \<Longrightarrow> k < e \<and> (\<exists>i. its ! k = Inst i)"
  by (auto simp: slice_indices_def split: item.splits)

lemma leader_ranges_end: "(a, e) \<in> set (leader_ranges n ls) \<Longrightarrow> e = n \<or> e \<in> set ls"
  unfolding leader_ranges_def by (cases ls) (auto dest: set_zip_rightD)

lemma built_positions:
  assumes "build_cfg p = Inr g" "k \<in> set (item_indices (block_of g n))"
  shows "k < length (items p) \<and> (\<exists>i. items p ! k = Inst i)"
proof -
  let ?ok = "\<lambda>c. \<forall>k \<in> set (item_indices c). k < length (items p) \<and> (\<exists>i. items p ! k = Inst i)"
  obtain labels ls b bs where l: "collect_labels p = Inr labels" "find_leaders p labels = Inr ls"
    and b: "make_blocks p ls = Inr b"
    and bs: "connect_edges (b_blocks b) (b_order b) (b_label_block b) = Inr bs" and g: "cfg_blocks g = with_predecessors bs"
    using assms(1) unfolding build_cfg_def by (force split: if_split_asm)
  have "\<forall>c \<in> snd ` set (b_blocks b). ?ok c"
    using b unfolding make_blocks_def
  proof (rule fold_r_keeps_on, simp)
    fix rng b b'
    assume rng: "rng \<in> set (leader_ranges (length (items p)) (sort (remdups ls)))"
      and step: "add_block (items p) rng b = Inr b'" and ok: "\<forall>c \<in> snd ` set (b_blocks b). ?ok c"
    obtain a e where ae: "rng = (a, e)" by (cases rng)
    have "e \<le> length (items p)"
      using leader_ranges_end rng find_leaders_bound [OF l(2,1)] unfolding ae by fastforce
    then have new: "k < length (items p) \<and> (\<exists>i. items p ! k = Inst i)" if "k \<in> set (slice_indices (items p) a e)" for k
      using slice_indices_inst [OF that] by auto
    obtain name c where "b_blocks b' = AList.update name c (b_blocks b)" "item_indices c = slice_indices (items p) a e"
      using step unfolding ae add_block_def by (auto simp: Let_def bind_r_def split: if_splits sum.splits)
    then show "\<forall>c \<in> snd ` set (b_blocks b'). ?ok c" using ok new update_snds [of name c "b_blocks b"] by auto
  qed
  moreover have "item_indices c' = item_indices c" if "connect_block lb nb c = Inr c'" for lb nb c c'
    using that unfolding connect_block_def by (auto simp: Let_def split: option.splits if_splits)
  ultimately have "?ok c" if "c \<in> snd ` set bs" for c
    using that map_r_mem [OF bs [unfolded connect_edges_def]] by fastforce
  then have "?ok c" if "c \<in> snd ` set (cfg_blocks g)" for c
    using that unfolding g with_predecessors_def by force
  then show ?thesis
    using assms(2) map_of_SomeD [of "cfg_blocks g" n] by (force simp: block_of_def empty_block_def split: option.splits)
qed

end
