(* ===== verification/Motion_Keeps.thy ===== *)
theory Motion_Keeps
  imports Loop_Limits Pass_Framework CFG_Blocks "HOL-Library.Multiset"
begin

text \<open>
  Code motion moves what it may and nothing else: the items that are no invariant computation (no
  load, for load hoisting) stay where they are, in their order, and no item is lost.
\<close>

subsection \<open>Applying a motion\<close>

definition motion_ok :: "item list \<Rightarrow> (item \<Rightarrow> bool) \<Rightarrow> motion \<Rightarrow> bool" where
  "motion_ok its Q mo \<longleftrightarrow> (\<forall>k \<in> set (moved mo). k < length its \<and> Q (its ! k)) \<and>
     (\<forall>k \<in> fst ` set (insertions mo). k < length its) \<and> distinct (map fst (insertions mo)) \<and>
     mset (concat (map snd (insertions mo))) = image_mset ((!) its) (mset (moved mo))"

definition lookup_list :: "('k \<times> 'a list) list \<Rightarrow> 'k \<Rightarrow> 'a list" where
  "lookup_list d k = (case map_of d k of None \<Rightarrow> [] | Some xs \<Rightarrow> xs)"

lemma append_entry:
  "distinct (map fst d) \<Longrightarrow>
   mset (concat (map snd (AList.update k (lookup_list d k @ xs) d))) = mset (concat (map snd d)) + mset xs"
  by (induction d) (auto simp: lookup_list_def map_of_eq_None_iff)

lemma all_entries:
  assumes "distinct (map fst d)" "finite K" "fst ` set d \<subseteq> K"
  shows "(\<Sum>k\<in>K. mset (lookup_list d k)) = mset (concat (map snd d))"
  using assms
proof (induction d)
  case Nil
  then show ?case by (simp add: lookup_list_def)
next
  case (Cons e d)
  obtain a v where e: "e = (a, v)" by (cases e)
  have a: "a \<in> K" "map_of d a = None" using Cons.prems by (auto simp: e map_of_eq_None_iff)
  have at: "lookup_list (e # d) a = v" by (simp add: lookup_list_def e)
  have "(\<Sum>k\<in>K. mset (lookup_list (e # d) k)) = mset v + (\<Sum>k\<in>K - {a}. mset (lookup_list (e # d) k))"
    using sum.remove [OF Cons.prems(2) a(1), of "\<lambda>k. mset (lookup_list (e # d) k)"] at by simp
  also have "(\<Sum>k\<in>K - {a}. mset (lookup_list (e # d) k)) = (\<Sum>k\<in>K - {a}. mset (lookup_list d k))"
    by (intro sum.cong refl) (simp add: lookup_list_def e)
  also have "\<dots> = (\<Sum>k\<in>K. mset (lookup_list d k))"
    using sum.remove [OF Cons.prems(2) a(1), of "\<lambda>k. mset (lookup_list d k)"] a(2) by (simp add: lookup_list_def)
  finally show ?case using Cons by (simp add: e)
qed

lemma hoist_ok:
  assumes "motion_ok (items p) Q mo" "k < length (items p)" "Q (items p ! k)" "point < length (items p)"
  shows "motion_ok (items p) Q (hoist p point k mo)"
proof -
  have at: "inserted_at mo point = lookup_list (insertions mo) point" by (simp add: inserted_at_def lookup_list_def)
  have "fst ` set (AList.update point v d) = insert point (fst ` set d)" for v and d :: "(nat \<times> item list) list"
    using dom_update [of point v d] by (simp add: dom_map_of_conv_image_fst)
  then show ?thesis
    using assms append_entry [of "insertions mo" point "[items p ! k]"]
    by (simp add: motion_ok_def hoist_def at distinct_update)
qed

lemma lists_of_motion:
  "apply_motion mo its = concat (map (\<lambda>k. inserted_at mo k @ (if k \<in> set (moved mo) then [] else [its ! k])) [0..<length its])"
  unfolding apply_motion_def by (rule arg_cong [of _ _ concat], rule nth_equalityI) (auto simp: nth_enumerate_eq)

lemma mset_concat_upt: "mset (concat (map f [0..<n])) = (\<Sum>k\<in>{..<n}. mset (f k))"
  by (induction n) (simp_all add: lessThan_Suc add.commute)

lemma sum_singles: "finite K \<Longrightarrow> (\<Sum>k\<in>K. {#f k#}) = image_mset f (mset_set K)"
  by (induction K rule: finite_induct) simp_all

lemma applied_items:
  assumes "motion_ok its Q mo"
  shows "filter (\<lambda>it. \<not> Q it) (apply_motion mo its) = filter (\<lambda>it. \<not> Q it) its"
    "mset its \<subseteq># mset (apply_motion mo its)" "set (apply_motion mo its) = set its"
proof -
  let ?n = "length its"
  have ok: "\<forall>k \<in> set (moved mo). k < ?n \<and> Q (its ! k)" "\<forall>k \<in> fst ` set (insertions mo). k < ?n"
    "distinct (map fst (insertions mo))" "mset (concat (map snd (insertions mo))) = image_mset ((!) its) (mset (moved mo))"
    using assms by (simp_all add: motion_ok_def)
  have at: "inserted_at mo = lookup_list (insertions mo)" by (auto simp: inserted_at_def lookup_list_def)
  have all: "(\<Sum>k\<in>{..<?n}. mset (inserted_at mo k)) = image_mset ((!) its) (mset (moved mo))"
    unfolding at using all_entries [OF ok(3), of "{..<?n}"] ok(2,4) by auto
  have ins: "it \<in> (!) its ` set (moved mo)" if "it \<in> set (inserted_at mo k)" "k < ?n" for it k
  proof -
    have "it \<in># (\<Sum>k\<in>{..<?n}. mset (inserted_at mo k))" using that by (auto simp: set_mset_sum)
    then show ?thesis by (simp add: all)
  qed
  have whole: "its = concat (map (\<lambda>k. [its ! k]) [0..<?n])" by (simp add: map_nth)
  have parts: "filter (\<lambda>it. \<not> Q it) (inserted_at mo k @ (if k \<in> set (moved mo) then [] else [its ! k])) =
      filter (\<lambda>it. \<not> Q it) [its ! k]" if "k < ?n" for k
    using ok(1) ins [OF _ that] by (auto simp: filter_empty_conv)
  then show "filter (\<lambda>it. \<not> Q it) (apply_motion mo its) = filter (\<lambda>it. \<not> Q it) its"
    unfolding lists_of_motion by (subst (3) whole) (simp only: filter_concat map_map comp_def, auto intro!: arg_cong [of _ _ concat] parts)
  have split: "mset (apply_motion mo its) = image_mset ((!) its) (mset (moved mo)) + (\<Sum>k\<in>{..<?n} - set (moved mo). {#its ! k#})"
  proof -
    have "mset (apply_motion mo its) = (\<Sum>k\<in>{..<?n}. mset (inserted_at mo k)) +
        (\<Sum>k\<in>{..<?n}. mset (if k \<in> set (moved mo) then [] else [its ! k]))"
      unfolding lists_of_motion mset_concat_upt by (simp add: sum.distrib)
    also have "(\<Sum>k\<in>{..<?n}. mset (if k \<in> set (moved mo) then [] else [its ! k])) = (\<Sum>k\<in>{..<?n} - set (moved mo). {#its ! k#})"
      by (rule sum.mono_neutral_cong_right) auto
    finally show ?thesis by (simp only: all)
  qed
  have "mset its = (\<Sum>k\<in>{..<?n}. {#its ! k#})"
    using mset_concat_upt [of "\<lambda>k. [its ! k]" ?n] unfolding whole [symmetric] by simp
  also have "\<dots> = (\<Sum>k\<in>set (moved mo). {#its ! k#}) + (\<Sum>k\<in>{..<?n} - set (moved mo). {#its ! k#})"
    using ok(1) sum.subset_diff [of "set (moved mo)" "{..<?n}" "\<lambda>k. {#its ! k#}"] by (auto simp: add.commute)
  also have "(\<Sum>k\<in>set (moved mo). {#its ! k#}) = image_mset ((!) its) (mset_set (set (moved mo)))"
    by (simp add: sum_singles)
  finally have its: "mset its = image_mset ((!) its) (mset_set (set (moved mo))) + (\<Sum>k\<in>{..<?n} - set (moved mo). {#its ! k#})" .
  show sub: "mset its \<subseteq># mset (apply_motion mo its)"
    unfolding split by (subst its) (intro mset_subset_eq_mono_add image_mset_subseteq_mono subset_mset.order_refl,
      metis mset_set_set_mset_msubset set_mset_mset)
  have "set (apply_motion mo its) \<subseteq> set its"
    using ok(1) arg_cong [OF split, of set_mset] by (auto simp: set_mset_sum split: if_splits)
  then show "set (apply_motion mo its) = set its" using set_mset_mono [OF sub] by auto
qed

subsection \<open>The passes\<close>


definition plain_load :: "item \<Rightarrow> bool" where
  "plain_load it = (case it of Label _ \<Rightarrow> False
     | Inst i \<Rightarrow> guard i = None \<and> starts_with (inst_opcode i) ''ld.global'')"

lemma no_motion_ok: "motion_ok its Q no_motion"
  by (simp add: motion_ok_def no_motion_def)

lemma placed_inst:
  assumes "build_cfg p = Inr g" "(k, n, i) \<in> set (placed_instructions p g names)"
  shows "k < length (items p) \<and> items p ! k = Inst i"
  using assms(2) built_positions [OF assms(1), of k n]
  by (auto simp: placed_instructions_def split: item.splits)

lemma insertion_point_bound:
  assumes "build_cfg p = Inr g" "insertion_point g l = Some point"
  shows "point < length (items p)"
proof -
  obtain pre k ks where "item_indices (block_of g pre) = k # ks" "point = last (k # ks)"
    using assms(2) by (auto simp: insertion_point_def split: list.splits)
  then have "point \<in> set (item_indices (block_of g pre))" by (metis last_in_set list.distinct(1))
  then show ?thesis using built_positions [OF assms(1)] by blast
qed





lemma load_motion_ok:
  assumes "build_cfg p = Inr g" "fold_r (load_loop p g) loops no_motion = Inr mo"
  shows "motion_ok (items p) plain_load mo"
  using assms(2)
proof (rule fold_r_keeps)
  fix l mo mo'
  assume step: "load_loop p g l mo = Inr mo'" and ok: "motion_ok (items p) plain_load mo"
  show "motion_ok (items p) plain_load mo'"
  proof (cases "mo' = mo")
    case False
    let ?body = "placed_instructions p g (loop_blocks l)"
    let ?h = "hoistable_load (load_def_map p g) (loop_blocks l) (doms_of (dominators g) (loop_latch g (loop_header l))) ?body"
    obtain point where point: "insertion_point g l = Some point"
      and run: "fold_r (hoist_load p point ?h) ?body mo = Inr mo'"
      using step False by (auto simp: load_loop_def Let_def split: option.splits if_splits)
    show ?thesis using run
    proof (rule fold_r_keeps_on, simp add: ok)
      fix pi mo1 mo2
      assume pi: "pi \<in> set ?body" and step1: "hoist_load p point ?h pi mo1 = Inr mo2"
        and ok1: "motion_ok (items p) plain_load mo1"
      obtain k n i where p: "pi = (k, n, i)" by (cases pi)
      obtain b where b: "?h pi = Inr b" "mo2 = (if b then hoist p point k mo1 else mo1)"
        using step1 by (auto simp: hoist_load_def bind_r_def p split: sum.splits)
      have "k < length (items p) \<and> items p ! k = Inst i" using placed_inst [OF assms(1)] pi p by blast
      moreover have "guard i = None \<and> starts_with (inst_opcode i) ''ld.global''" if b
        using b(1) that by (auto simp: hoistable_load_def p split: if_splits)
      ultimately show "motion_ok (items p) plain_load mo2"
        using hoist_ok [OF ok1, of k point] insertion_point_bound [OF assms(1) point] ok1
        by (simp add: b(2) plain_load_def)
    qed
  qed (simp add: ok)
qed (rule no_motion_ok)


text \<open>
  C29. Load hoisting moves unguarded loads from global memory and nothing else: everything else of the
  program, labels, branches and stores included, stays in the same order, and no instruction is lost or
  made up, whatever the loops are. The cached graph, if there is one, is that of the program.
\<close>

theorem load_hoist_keeps_rest:
  assumes "fresh m am" "load_hoist_run m am = Inr (m', am', r)"
  shows "filter (\<lambda>it. \<not> plain_load it) (items (mod_program m')) = filter (\<lambda>it. \<not> plain_load it) (items (mod_program m)) \<and>
    mset (items (mod_program m)) \<subseteq># mset (items (mod_program m')) \<and>
    set (items (mod_program m')) = set (items (mod_program m))"
proof -
  obtain g am1 where g: "get_cfg m am = Inr (g, am1)" using assms(2) by (auto simp: load_hoist_run_def bind_r_def split: sum.splits)
  obtain mo where mo: "fold_r (load_loop (mod_program m) g) (natural_loops g) no_motion = Inr mo"
    using assms(2) g by (auto simp: load_hoist_run_def bind_r_def Let_def split: sum.splits)
  have "build_cfg (mod_program m) = Inr g" using fresh_get_cfg [OF assms(1) g] by blast
  note ok = applied_items [OF load_motion_ok [OF this mo]]
  consider "m' = m" | "items (mod_program m') = apply_motion mo (items (mod_program m))"
    using assms(2) g mo by (auto simp: load_hoist_run_def Let_def rewritten_def split: if_splits)
  then show ?thesis using ok by cases simp_all
qed


theorem load_hoist_keeps_rest_witness:
  "\<exists>m' am' r. load_hoist_run stored_then_loaded build_default_analysis_manager = Inr (m', am', r) \<and>
     items (mod_program m') \<noteq> items (mod_program stored_then_loaded) \<and>
     set (items (mod_program m')) = set (items (mod_program stored_then_loaded))"
proof -
  have "(case load_hoist_run stored_then_loaded build_default_analysis_manager of Inl _ \<Rightarrow> False
      | Inr (m', _) \<Rightarrow> items (mod_program m') \<noteq> items (mod_program stored_then_loaded))"
    by code_simp
  then obtain m' am' r where run: "load_hoist_run stored_then_loaded build_default_analysis_manager = Inr (m', am', r)"
    "items (mod_program m') \<noteq> items (mod_program stored_then_loaded)"
    by (auto split: sum.splits)
  then show ?thesis using load_hoist_keeps_rest [OF fresh_default run(1)] by blast
qed

end
