(* ===== verification/Sched_Guards.thy ===== *)
theory Sched_Guards
  imports Sched_Prog
begin

text \<open>
  The scheduler does not look at guards: whatever predicates are put on the instructions of a
  program, it puts them into the same order.
\<close>

text \<open>The instruction under another guard.\<close>

definition reguard :: "(AECInstruction \<Rightarrow> int option) \<Rightarrow> (AECInstruction \<Rightarrow> bool) \<Rightarrow> AECInstruction \<Rightarrow> AECInstruction" where
  "reguard P N i = i\<lparr>predicate := P i, predicate_negated := N i\<rparr>"

lemma reguard_kept [simp]:
  "has_dest (reguard P N i) = has_dest i" "inst_kind (reguard P N i) = inst_kind i" "dest (reguard P N i) = dest i"
  "source_regs (reguard P N i) = source_regs i"
  by (simp_all add: reguard_def has_dest_def inst_kind_def source_regs_def)

lemma reguard_defs: "all_def_pos (map (reguard P N) insts) r = all_def_pos insts r"
  unfolding all_def_pos_def length_map by (rule filter_cong) auto

lemma reguard_step:
  assumes "k < length insts"
  shows "graph_step (map (reguard P N) insts) k g = graph_step insts k g"
proof -
  have "raw_preds (map (reguard P N) insts) k = raw_preds insts k"
    by (simp add: raw_preds_def reguard_defs assms)
  then show ?thesis
    unfolding graph_step_def preds_of_def nth_map [OF assms] by (simp only: reguard_kept Let_def)
qed

lemma reguard_graph: "k \<le> length insts \<Longrightarrow> build_graph (map (reguard P N) insts) k = build_graph insts k"
  unfolding build_graph_def by (rule fold_cong) (auto simp: reguard_step)

lemma reguard_loop:
  assumes "loop_inv insts ready counts sched"
  shows "sched_loop (map (reguard P N) insts) (graph_deps insts) fuel ready counts sched =
    sched_loop insts (graph_deps insts) fuel ready counts sched"
  using assms
proof (induction fuel arbitrary: ready counts sched)
  case (Suc fuel)
  have sorted: "sort_key (\<lambda>i. (priority (map (reguard P N) insts) i, i)) ready = sort_key (\<lambda>i. (priority insts i, i)) ready"
    by (rule sort_key_cong) (use Suc.prems in \<open>auto simp: loop_inv_def priority_def\<close>)
  show ?case
  proof (cases "sort_key (\<lambda>i. (priority insts i, i)) ready")
    case Nil
    then show ?thesis using sorted by (simp add: sched_loop.simps)
  next
    case (Cons best rest)
    obtain counts' ready' where rel: "fold release (graph_deps insts best) (counts, rest) = (counts', ready')"
      by (metis surj_pair)
    show ?thesis using Suc.IH [OF loop_inv_step [OF Suc.prems Cons rel]] Cons sorted rel
      by (simp add: sched_loop.simps [of _ _ "Suc fuel"])
  qed
next
  case 0
  have sorted: "sort_key (\<lambda>i. (priority (map (reguard P N) insts) i, i)) ready = sort_key (\<lambda>i. (priority insts i, i)) ready"
    by (rule sort_key_cong) (use 0 in \<open>auto simp: loop_inv_def priority_def\<close>)
  then show ?case by (simp add: sched_loop.simps [of _ _ 0] cong: list.case_cong)
qed

lemma reguard_indices: "schedule_indices (map (reguard P N) insts) = schedule_indices insts"
  using reguard_loop [OF loop_inv_init, of P N insts "length insts"]
  by (simp add: schedule_indices_def Let_def reguard_graph)

lemma reguard_block:
  "schedule_block (map (reguard P N) insts) = map_sum id (map (reguard P N)) (schedule_block insts)"
proof -
  obtain out where out: "schedule_indices insts = Some out" "set out = {..<length insts}" "length out = length insts"
    using schedule_indices_total [of insts] distinct_card by (metis card_lessThan)
  then have "map (\<lambda>i. map (reguard P N) insts ! i) out = map (reguard P N) (map (\<lambda>i. insts ! i) out)" by auto
  then show ?thesis using out by (simp add: schedule_block_def Let_def reguard_indices)
qed

lemma reguard_leaders: "sched_leaders (map (reguard P N) insts) = sched_leaders insts"
proof -
  have "branch_leaders (map (reguard P N) insts) i = branch_leaders insts i" if "i < length insts" for i
    using that by (simp add: branch_leaders_def Let_def reguard_def)
  then show ?thesis by (simp add: sched_leaders_def)
qed

lemma map_write_at: "map f (write_at a ys xs) = write_at a (map f ys) (map f xs)"
  by (induction ys arbitrary: a xs) (simp_all add: map_update)

lemma schedule_blocks_Cons:
  assumes "take ((case rest of [] \<Rightarrow> length insts | e # _ \<Rightarrow> e) - start) (drop start insts) = blk"
  shows "schedule_blocks (start # rest) insts = (if length blk \<le> 2 then schedule_blocks rest insts
     else bind_r (schedule_block blk) (\<lambda>scheduled. schedule_blocks rest (write_at start scheduled insts)))"
  unfolding schedule_blocks.simps Let_def assms by (rule refl)

lemma reguard_blocks:
  "schedule_blocks L (map (reguard P N) insts) = map_sum id (map (reguard P N)) (schedule_blocks L insts)"
proof (induction L arbitrary: insts)
  case (Cons start rest)
  define blk where "blk = take ((case rest of [] \<Rightarrow> length insts | e # _ \<Rightarrow> e) - start) (drop start insts)"
  have blk: "take ((case rest of [] \<Rightarrow> length (map (reguard P N) insts) | e # _ \<Rightarrow> e) - start) (drop start (map (reguard P N) insts)) =
      map (reguard P N) blk"
    by (simp add: blk_def take_map drop_map cong: list.case_cong)
  obtain ys where "schedule_block blk = Inr ys" using schedule_block_total by blast
  then show ?case
    using schedule_blocks_Cons [OF blk] schedule_blocks_Cons [OF blk_def [symmetric]] Cons.IH
    by (simp add: reguard_block map_write_at [symmetric])
qed simp

text \<open>
  C14. The scheduler does not track guards: put any predicates, negated or not, on the instructions of any
  program, by any rule, and the scheduler gives the same program under the same rule, in the same order;
  so a guarded instruction is ordered after the comparison that computes its guard only by chance. In
  \<open>guard_not_tracked\<close> a guarded load is moved in front of the comparison and the result changes.
\<close>

theorem schedule_ignores_guards:
  "schedule_lowered (p\<lparr>lowered_instructions := map (reguard P N) (lowered_instructions p)\<rparr>) =
   map_sum id (\<lambda>q. q\<lparr>lowered_instructions := map (reguard P N) (lowered_instructions q)\<rparr>) (schedule_lowered p)"
  by (auto simp: schedule_lowered_def Let_def reguard_leaders reguard_blocks bind_r_def split: sum.split)

end
