(* ===== verification/Spec2Isabelle.thy ===== *)
theory Spec2Isabelle
  imports Sched_Prog Objdump Pass_Limits Loop_Limits Lower_Limits Pass_Framework RA_Proofs Reports Compiler CFG_Doms Compiler_Correct Lower_Forward Uniform_Sound Command_Line Backend_Correct Live_Cover CSE_Correct Motion_Keeps Sched_Guards
begin

text \<open>
  The compiler \<^verbatim>\<open>aec_compiler\<close> (\<^verbatim>\<open>src/src/aec_compiler\<close>) translates a subset of PTX to the AEC instruction
  set. A kernel is parsed (\<^verbatim>\<open>ptx.py\<close>), run through the passes of an optimisation level
  (\<^verbatim>\<open>passes/\<close>, driven by \<^verbatim>\<open>passes/base.py\<close> with facts cached by \<^verbatim>\<open>analysis/manager.py\<close>), lowered
  (\<^verbatim>\<open>legacy_lowering.py\<close>), scheduled (\<^verbatim>\<open>passes/scheduler.py\<close>), encoded in four 32-bit words per
  instruction (\<^verbatim>\<open>isa.py\<close>), and described in a report (\<^verbatim>\<open>reports/compilation.py\<close>). The binary can be
  listed (\<^verbatim>\<open>objdump.py\<close>) and simulated (\<^verbatim>\<open>sim.py\<close>).

  The theories follow these parts.

  \<^item> \<open>Prelude\<close>: the Python the modules share: string methods, \<^verbatim>\<open>int(text, 0)\<close>, dictionaries as
    association lists, folds that may raise (\<open>fold_r\<close>, \<open>bind_r\<close>), the register and predicate names of
    the two regular expressions. An exception is a value \<open>Inl\<close> of the module's own error type.
  \<^item> \<open>ISA\<close> and \<open>Objdump\<close>: \<^verbatim>\<open>isa.py\<close> and \<^verbatim>\<open>objdump.py\<close>. A profile is a record of its tables; an
    instruction is a record with Python's unbounded integers, since the dataclass does not check
    them; encoding gives integers below \<open>2^32\<close> or the error the source raises. The locale
    \<open>isa_tables\<close> is what the encoder and the decoder need of a profile; both profiles are instances.
  \<^item> \<open>Float32\<close>: binary32 and binary64 arithmetic as bit patterns, as \<^verbatim>\<open>struct\<close> and Python floats give it. What
    the host decides (the payload of a NaN, the double operations) is the parameter \<open>float_host\<close>.
  \<^item> \<open>Sim\<close>, \<open>Sim_Inv\<close>: \<^verbatim>\<open>sim.py\<close>. A lane is a record with its register file as a list of 256 integers
    and its predicates as a list of Booleans; the simulator's memories, traces and counters are the
    state that is passed along, lost when an exception is raised. \<open>sim_run\<close> has the budget
    \<open>max_steps\<close> of the source; the loop of a warp recurses on it.
  \<^item> \<open>Scheduler\<close>, \<open>Commute\<close>, \<open>Sched_Order\<close>, \<open>Lane_Effect\<close>, \<open>Sched_Sem\<close>, \<open>Sched_Prog\<close>:
    \<^verbatim>\<open>scheduler.py\<close>. The dependency graph orders conflicting instructions, so that a schedule is a
    permutation that keeps their order; independent instructions commute in the simulator (locale
    \<open>commuting_steps\<close>), hence a scheduled program runs as the original. \<open>Sched_Guards\<close>: the order does
    not depend on the guards, so the dependence on a guard's comparison is not kept.
  \<^item> \<open>Binary_Run\<close>: the simulator on a decoded binary, which runs as the instructions it was made of.
  \<^item> \<open>PTX\<close>, \<open>Helpers\<close>, \<open>CFG\<close>, \<open>Uniformity\<close>, \<open>Liveness\<close>: the parser with the IR records, and the
    analyses of \<^verbatim>\<open>analysis/\<close>. The search of \<^verbatim>\<open>cfg.py\<close> recurses in Python and marks what it visits;
    \<open>dfs_visit\<close> has one unit of depth per block and one more, and \<open>reverse_postorder_order\<close> shows
    that this reaches every block. The loop that computes dominators runs in the source until nothing
    changes; in the model it has as many rounds as the square of the number of reachable blocks and
    one more, and \<open>dominators_exact\<close> shows that it has ended by then.
  \<^item> \<open>CFG_Order\<close>, \<open>CFG_Doms\<close>, \<open>CFG_Blocks\<close>, \<open>Uniform_Sound\<close>: what these analyses compute: the order of
    the blocks and their positions, the dominators and the natural loops against their definitions by paths, and that lanes of a
    warp agree at a branch found uniform.
  \<^item> \<open>Pass_Base\<close>, \<open>Local_Scalar\<close>, \<open>Global_DCE\<close>, \<open>Global_CP\<close>, \<open>Loop_Motion\<close>, \<open>Loop_Unroll\<close>,
    \<open>Block_Simplify\<close>, \<open>RegAlloc\<close>: the pass manager and one theory for each group of passes. The
    dataflow of \<^verbatim>\<open>global_cp.py\<close> stops after twenty rounds in the source too.
  \<^item> \<open>Pass_Framework\<close>: the contract between a pass and the manager (locale \<open>honest_pass\<close>), of which
    every pass of the pipelines is an instance.
  \<^item> \<open>PTX_Sem\<close>, \<open>PTX_Reads\<close>, \<open>PTX_Sim\<close>, \<open>Dead_Proofs\<close>, \<open>Const_Fold\<close>, \<open>Pass_Proofs\<close>: a reference
    semantics of the kernel language for one thread, which is a specification and not code, and the
    correctness of the scalar passes over it as forward simulations (locales \<open>pass_sim\<close> and
    \<open>dead_code\<close>).
  \<^item> \<open>CSE_Proofs\<close>, \<open>CSE_Correct\<close>: common subexpression elimination over the same semantics, for the
    programs that pass the check \<open>cse_safe\<close>; the kernels it changes (\<open>Pass_Limits\<close>) do not.
  \<^item> \<open>Motion_Keeps\<close>: what code motion and load hoisting leave as it was. Where they put what they
    move may be wrong (\<open>Loop_Limits\<close>), so no theorem says that they keep the meaning.
  \<^item> \<open>RA_Proofs\<close>: the linear scan of the register allocation pass.
  \<^item> \<open>Lowering\<close>: \<^verbatim>\<open>legacy_lowering.py\<close>. The lowering is a state monad with exceptions over the
    instructions emitted, the labels, the pending branches and the allocator.
  \<^item> \<open>Alloc_Proofs\<close>, \<open>Lower_Rel\<close>, \<open>Lower_Operands\<close>, \<open>Lower_Insts\<close>, \<open>Lower_Steps\<close>, \<open>Lower_Alu\<close>,
    \<open>Lower_Code\<close>, \<open>Lower_Regs\<close>, \<open>Lower_Proofs\<close>, \<open>Lower_Correct\<close>: its correctness. \<open>Lower_Rel\<close> relates a
    thread of the simulator to a state of the reference semantics, the next theories treat an
    operand, one emitted instruction and one kernel instruction, \<open>Lower_Regs\<close> the allocator
    meanwhile, and the last two whole programs and grids. The relation may differ from position to
    position (\<open>code_relation\<close>), which the next item uses.
  \<^item> \<open>Lower_Alloc\<close>, \<open>Alloc_Correct\<close>: the lowering with the mapping of the register allocation pass. A
    name has its register only where it is live; \<open>intervals_fit\<close> is a check of the live intervals
    that makes this enough, and a loop on which the intervals of the pass fail the check is given.
  \<^item> \<open>Live_Cover\<close>: what the liveness analysis and the merging of its ranges compute, and that the
    intervals of straight-line kernels pass the check.
  \<^item> \<open>Lower_Typed\<close>, \<open>Lower_Forward\<close>: the lowered code is well typed; a kernel without backward
    branches ends on the simulator.
  \<^item> \<open>Reports\<close>, \<open>Report_Dict\<close>, \<open>Compiler\<close>, \<open>Command_Line\<close>: \<^verbatim>\<open>reports/compilation.py\<close> with the
    dictionary and the JSON text of the report, \<^verbatim>\<open>passes/pipelines.py\<close> with \<^verbatim>\<open>compiler.py\<close>, which compose
    the parts, and the two command lines \<^verbatim>\<open>main\<close> of \<^verbatim>\<open>compiler.py\<close> and \<^verbatim>\<open>objdump.py\<close> from the parsed
    arguments on, over a map from paths to the bytes of files.
  \<^item> \<open>Compiler_Correct\<close>, \<open>Backend_Correct\<close>: from the text of a kernel to the bytes of its binary.
  \<^item> \<open>Pass_Limits\<close>, \<open>Loop_Limits\<close>, \<open>Lower_Limits\<close>: kernels whose meaning a pass or the lowering
    changes, each run before and after. They bound what the positive theorems can say.

  The main theorems are refinements: what the simulator makes of compiled code is what the kernel
  means. \<open>lowering_correct\<close> states it of the lowering, \<open>o0_compiler_correct\<close> of the whole compiler at
  level 0, down to the bytes of the binary, and \<open>o2_backend_correct\<close> of everything that follows the
  optimizing passes at level 2: register allocation, lowering, scheduling and the binary. They ask
  the program to be \<open>lowerable_program\<close>, which can be evaluated: no structured regions are rewritten
  by the control plan, and the few instructions whose lowering is not faithful (\<open>Lower_Limits\<close>) do
  not occur. They hold for warps of one lane, where divergence cannot occur. For the passes, the
  theorems say that a run of the kernel that ends is matched by one of the result. The step budget
  of the simulator is a number from which on the statement holds; \<open>forward_kernels_end\<close> gives
  one for kernels without backward branches.

  Sets of Python that are iterated are lists without duplicates where the order is determined by the
  program, and sorted where the source sorts them.

  Not modelled: the parsing of the command line by \<^verbatim>\<open>argparse\<close> and the text of error messages on
  standard error, which belong to the library; the file system, of which the model knows only files
  that are not there and paths that cannot be written; and the package files \<^verbatim>\<open>__init__.py\<close> that re-export
  names. Whether a pass among those of \<open>Pass_Limits\<close> and \<open>Loop_Limits\<close> keeps the meaning of a program is
  not stated for all programs, since it does not.
\<close>

end
